(* ===== verification/Prelude.thy ===== *)
theory Prelude
  imports Main "HOL-Library.Word" "HOL-Library.Multiset" "HOL-Library.List_Lexorder"
    "HOL-Library.Char_ord" "HOL-Library.Sublist" "HOL-Library.Product_Lexorder"
begin

text \<open>
  Shared vocabulary of the development: the result type of operations that may throw, the
  part of \<open>std::string\<close> and \<open>std::map\<close> that libcold relies on, decimal printing, and the
  list lemmas used by several components.

  \<^item> An exception (or a failed \<open>assert\<close>, the \<open>abort()\<close> of a FATAL log
    line, a read the language leaves undefined, or a thread that waits for itself) is a value of \<open>cpp_exn\<close>, and an operation that may
    raise it returns \<open>cpp_exn + 'a\<close>.
  \<^item> \<open>std::string\<close> and \<open>std::string_view\<close> are \<open>string\<close> (a list of bytes); \<open>npos\<close> is \<open>None\<close>.
  \<^item> \<open>std::map<std::string, V>\<close> is an association list that is strictly sorted by key, so that
    iteration order is part of the model. \<open>smap_contract\<close> is the interface its clients use.
\<close>

unbundle bit_operations_syntax

named_theorems cold_simps \<open>unfolding rules of small accessors\<close>
named_theorems cold_inv \<open>preservation lemmas of component invariants\<close>

section \<open>Results\<close>

datatype cpp_exn = OutOfRange | LengthError | AssertFail | Abort | Undefined | Deadlock

type_synonym 'a result = "cpp_exn + 'a"
type_synonym byte = "8 word"

definition bind_result :: "'a result \<Rightarrow> ('a \<Rightarrow> 'b result) \<Rightarrow> 'b result" where
  "bind_result r f = (case r of Inl e \<Rightarrow> Inl e | Inr a \<Rightarrow> f a)"

lemma bind_result_simps [simp]:
  "bind_result (Inl e) f = Inl e"
  "bind_result (Inr a) f = f a"
  by (simp_all add: bind_result_def)

lemma bind_result_eq_Inr: "bind_result r f = Inr b \<longleftrightarrow> (\<exists>a. r = Inr a \<and> f a = Inr b)"
  by (cases r) simp_all

section \<open>Signed division\<close>

text \<open>C++ integer division and \<open>duration_cast\<close> truncate towards zero.\<close>

definition tdiv :: "int \<Rightarrow> int \<Rightarrow> int" where
  "tdiv a b = sgn a * sgn b * (\<bar>a\<bar> div \<bar>b\<bar>)"

definition tmod :: "int \<Rightarrow> int \<Rightarrow> int" where
  "tmod a b = a - tdiv a b * b"

lemma tdiv_nonneg: "0 \<le> a \<Longrightarrow> 0 < b \<Longrightarrow> tdiv a b = a div b"
  by (cases "a = 0") (simp_all add: tdiv_def sgn_if)

lemma tdiv_neg: "a < 0 \<Longrightarrow> 0 < b \<Longrightarrow> tdiv a b = - ((- a) div b)"
  by (simp add: tdiv_def sgn_if)

lemma tdiv_mono:
  assumes "a \<le> c" and "0 < b"
  shows "tdiv a b \<le> tdiv c b"
proof (cases "0 \<le> a")
  case True
  then show ?thesis using assms by (simp add: tdiv_nonneg zdiv_mono1)
next
  case False
  show ?thesis
  proof (cases "0 \<le> c")
    case True
    have "0 \<le> (- a) div b" and "0 \<le> c div b"
      using False True assms(2) by (simp_all add: pos_imp_zdiv_nonneg_iff)
    then show ?thesis using False True assms(2) by (simp add: tdiv_nonneg tdiv_neg)
  next
    case neg: False
    then show ?thesis using False assms by (simp add: tdiv_neg zdiv_mono1)
  qed
qed

section \<open>std::string\<close>

text \<open>\<open>find(pat, start)\<close>: position of the first occurrence at or after \<open>start\<close>.\<close>

fun first_occurrence :: "'a list \<Rightarrow> 'a list \<Rightarrow> nat option" where
  "first_occurrence pat [] = (if pat = [] then Some 0 else None)"
| "first_occurrence pat (c # cs) =
     (if prefix pat (c # cs) then Some 0 else map_option Suc (first_occurrence pat cs))"

definition str_find :: "'a list \<Rightarrow> 'a list \<Rightarrow> nat \<Rightarrow> nat option" where
  "str_find s pat start =
     (if length s < start then None
      else map_option (\<lambda>i. start + i) (first_occurrence pat (drop start s)))"

definition str_find_char :: "'a list \<Rightarrow> 'a \<Rightarrow> nat \<Rightarrow> nat option" where
  "str_find_char s c start = str_find s [c] start"

text \<open>\<open>find_last_of(c)\<close>: position of the last occurrence.\<close>

fun str_rfind :: "'a list \<Rightarrow> 'a \<Rightarrow> nat option" where
  "str_rfind [] c = None"
| "str_rfind (x # xs) c =
     (case str_rfind xs c of Some i \<Rightarrow> Some (Suc i) | None \<Rightarrow> if x = c then Some 0 else None)"

text \<open>\<open>substr(pos, n)\<close> and \<open>substr(pos)\<close> throw \<open>std::out_of_range\<close> when \<open>pos > size()\<close>.\<close>

definition str_substr :: "'a list \<Rightarrow> nat \<Rightarrow> nat \<Rightarrow> 'a list result" where
  "str_substr s pos n = (if length s < pos then Inl OutOfRange else Inr (take n (drop pos s)))"

definition str_substr_from :: "'a list \<Rightarrow> nat \<Rightarrow> 'a list result" where
  "str_substr_from s pos = (if length s < pos then Inl OutOfRange else Inr (drop pos s))"

lemma first_occurrence_char:
  "first_occurrence [c] s = (if c \<in> set s then Some (length (takeWhile (\<lambda>x. x \<noteq> c) s)) else None)"
  by (induction s) auto

lemma first_occurrence_Some_le:
  "first_occurrence pat s = Some i \<Longrightarrow> i + length pat \<le> length s"
proof (induction s arbitrary: i)
  case Nil
  then show ?case by (simp split: if_splits)
next
  case (Cons a s)
  then show ?case by (auto split: if_splits dest: prefix_length_le)
qed

lemma str_find_bounds:
  "str_find s pat start = Some e \<Longrightarrow> start \<le> e \<and> e + length pat \<le> length s"
  by (auto simp: str_find_def split: if_splits dest!: first_occurrence_Some_le)

lemma str_find_char_bounds:
  "str_find_char s c start = Some e \<Longrightarrow> start \<le> e \<and> e < length s"
  using str_find_bounds [of s "[c]" start e] by (simp add: str_find_char_def)

lemma str_find_char_0:
  "str_find_char s c 0 = (if c \<in> set s then Some (length (takeWhile (\<lambda>x. x \<noteq> c) s)) else None)"
  by (simp add: str_find_char_def str_find_def first_occurrence_char option.map_ident)

lemma takeWhile_neq_append:
  "c \<notin> set xs \<Longrightarrow> takeWhile (\<lambda>x. x \<noteq> c) (xs @ c # ys) = xs"
  by (induction xs) auto

lemma str_find_char_append:
  "c \<notin> set xs \<Longrightarrow> str_find_char (xs @ c # ys) c 0 = Some (length xs)"
  by (simp add: str_find_char_0 takeWhile_neq_append)

lemma str_find_char_skip:
  "n \<le> length pre \<Longrightarrow> n = length pre \<Longrightarrow> c \<notin> set xs \<Longrightarrow>
   str_find_char (pre @ xs @ c # ys) c n = Some (length pre + length xs)"
  by (simp add: str_find_char_def str_find_def first_occurrence_char takeWhile_neq_append)

lemma str_find_char_None: "str_find_char s c 0 = None \<longleftrightarrow> c \<notin> set s"
  by (simp add: str_find_char_0)

lemma str_rfind_None: "str_rfind s c = None \<longleftrightarrow> c \<notin> set s"
  by (induction s) (auto split: option.splits)

lemma str_rfind_append:
  "c \<notin> set ys \<Longrightarrow> str_rfind (xs @ c # ys) c = Some (length xs)"
  by (induction xs) (auto split: option.splits simp: str_rfind_None [symmetric])

lemma str_rfind_Some_lt: "str_rfind s c = Some i \<Longrightarrow> i < length s \<and> s ! i = c"
  by (induction s arbitrary: i) (auto split: option.splits if_splits)

subsection \<open>Decimal printing (std::to_string, fmt's \<open>{}\<close> on integers)\<close>

fun show_nat :: "nat \<Rightarrow> string" where
  "show_nat n = (if n < 10 then [char_of (48 + n)]
                 else show_nat (n div 10) @ [char_of (48 + n mod 10)])"

declare show_nat.simps [simp del]

definition show_int :: "int \<Rightarrow> string" where
  "show_int i = (if i < 0 then CHR ''-'' # show_nat (nat (- i)) else show_nat (nat i))"

definition is_digit_char :: "char \<Rightarrow> bool" where
  "is_digit_char c \<longleftrightarrow> 48 \<le> (of_char c :: nat) \<and> (of_char c :: nat) \<le> 57"

text \<open>Reads the leading digits, as \<open>std::from_chars\<close> does: the value and what is left.\<close>

fun read_digits :: "nat \<Rightarrow> string \<Rightarrow> nat \<times> string" where
  "read_digits acc [] = (acc, [])"
| "read_digits acc (c # cs) =
     (if is_digit_char c then read_digits (acc * 10 + (of_char c - 48)) cs else (acc, c # cs))"

lemma digit_char:
  "(d :: nat) < 10 \<Longrightarrow>
   is_digit_char (char_of (48 + d)) \<and> of_char (char_of (48 + d)) = 48 + d"
  by (simp add: is_digit_char_def of_char_of)

lemma show_nat_nonempty [simp]: "show_nat n \<noteq> []"
  by (subst show_nat.simps) simp

lemma read_digits_append:
  "list_all is_digit_char ds \<Longrightarrow> read_digits a (ds @ cs) = read_digits (fst (read_digits a ds)) cs"
  by (induction ds arbitrary: a) auto

lemma show_nat_digits: "list_all is_digit_char (show_nat n)"
proof (induction n rule: show_nat.induct)
  case (1 n)
  then show ?case by (subst show_nat.simps) (simp add: digit_char)
qed

lemma read_show_nat: "read_digits 0 (show_nat n) = (n, [])"
proof (induction n rule: show_nat.induct)
  case (1 n)
  show ?case
  proof (cases "n < 10")
    case True
    then show ?thesis by (subst show_nat.simps) (simp add: digit_char)
  next
    case False
    with 1 have IH: "read_digits 0 (show_nat (n div 10)) = (n div 10, [])" by simp
    have "read_digits 0 (show_nat n)
            = read_digits (n div 10) [char_of (48 + n mod 10)]"
      using False IH show_nat_digits [of "n div 10"]
      by (subst show_nat.simps) (simp add: read_digits_append)
    also have "\<dots> = (n, [])"
      using digit_char [of "n mod 10"] by simp
    finally show ?thesis .
  qed
qed

lemma show_nat_inj: "show_nat m = show_nat n \<Longrightarrow> m = n"
  by (metis Pair_inject read_show_nat)

section \<open>std::map with string keys\<close>

type_synonym 'v smap = "(string \<times> 'v) list"

definition smap_wf :: "'v smap \<Rightarrow> bool" where
  "smap_wf m \<longleftrightarrow> sorted_wrt (<) (map fst m)"

definition smap_get :: "'v smap \<Rightarrow> string \<Rightarrow> 'v option" where
  "smap_get m k = map_of m k"

definition smap_contains :: "'v smap \<Rightarrow> string \<Rightarrow> bool" where
  "smap_contains m k \<longleftrightarrow> smap_get m k \<noteq> None"

fun smap_set :: "'v smap \<Rightarrow> string \<Rightarrow> 'v \<Rightarrow> 'v smap" where
  "smap_set [] k v = [(k, v)]"
| "smap_set ((k', v') # m) k v =
     (if k = k' then (k, v) # m
      else if k < k' then (k, v) # (k', v') # m
      else (k', v') # smap_set m k v)"

definition smap_erase :: "'v smap \<Rightarrow> string \<Rightarrow> 'v smap" where
  "smap_erase m k = filter (\<lambda>kv. fst kv \<noteq> k) m"

lemma smap_set_keys: "set (map fst (smap_set m k v)) = insert k (set (map fst m))"
proof (induction m)
  case Nil
  then show ?case by simp
next
  case (Cons kv m)
  then show ?case by (cases kv) (simp add: insert_commute)
qed

lemma smap_get_simps [simp]:
  "smap_get [] k = None"
  "smap_get ((k', v) # m) k = (if k' = k then Some v else smap_get m k)"
  by (simp_all add: smap_get_def)

lemma smap_get_set: "smap_get (smap_set m k v) k' = (if k' = k then Some v else smap_get m k')"
  by (induction m) auto

lemma smap_get_erase: "smap_get (smap_erase m k) k' = (if k' = k then None else smap_get m k')"
  by (induction m) (auto simp: smap_erase_def)

lemma smap_wf_Nil [simp]: "smap_wf []"
  by (simp add: smap_wf_def)

lemma smap_wf_set: "smap_wf m \<Longrightarrow> smap_wf (smap_set m k v)"
  unfolding smap_wf_def
proof (induction m)
  case Nil
  then show ?case by simp
next
  case (Cons kv m)
  obtain k' v' where kv: "kv = (k', v')" by (cases kv)
  have keys: "set (map fst (smap_set m k v)) = insert k (set (map fst m))"
    by (rule smap_set_keys)
  show ?case
    using Cons keys by (auto simp: kv)
qed

lemma smap_wf_erase: "smap_wf m \<Longrightarrow> smap_wf (smap_erase m k)"
  by (induction m) (auto simp: smap_wf_def smap_erase_def)

lemma smap_set_length:
  "length (smap_set m k v) = (if smap_contains m k then length m else Suc (length m)) \<or> \<not> smap_wf m"
proof (induction m)
  case Nil
  then show ?case by (simp add: smap_contains_def)
next
  case (Cons kv m)
  obtain k' v' where kv: "kv = (k', v')" by (cases kv)
  show ?case
  proof (cases "smap_wf (kv # m)")
    case False
    then show ?thesis by simp
  next
    case True
    then have wf: "smap_wf m" and gt: "\<forall>x \<in> fst ` set m. k' < x"
      by (auto simp: smap_wf_def kv)
    have "smap_get m k = None" if "k < k'"
      using that gt by (auto simp: smap_get_def map_of_eq_None_iff dest: less_trans)
    with Cons.IH wf show ?thesis
      by (auto simp: kv smap_contains_def)
  qed
qed

lemma smap_set_length_le: "length (smap_set m k v) \<le> Suc (length m)"
  by (induction m) auto

text \<open>The interface the HTTP components use for headers, cookies, parameters and attributes.\<close>

locale map_contract =
  fixes empty :: "'m"
    and get :: "'m \<Rightarrow> 'k \<Rightarrow> 'v option"
    and put :: "'m \<Rightarrow> 'k \<Rightarrow> 'v \<Rightarrow> 'm"
    and del :: "'m \<Rightarrow> 'k \<Rightarrow> 'm"
    and wf :: "'m \<Rightarrow> bool"
  assumes get_empty: "get empty k = None"
    and get_put: "get (put m k v) k' = (if k' = k then Some v else get m k')"
    and get_del: "get (del m k) k' = (if k' = k then None else get m k')"
    and wf_empty: "wf empty"
    and wf_put: "wf m \<Longrightarrow> wf (put m k v)"
    and wf_del: "wf m \<Longrightarrow> wf (del m k)"
begin

lemma get_fold_put_notin:
  "k \<notin> fst ` set kvs \<Longrightarrow> get (fold (\<lambda>(k, v) m. put m k v) kvs m) k = get m k"
  by (induction kvs arbitrary: m) (auto simp: get_put)

lemma get_fold_put:
  "get (fold (\<lambda>(k, v) m. put m k v) kvs m) k =
     (case map_of (rev kvs) k of Some v \<Rightarrow> Some v | None \<Rightarrow> get m k)"
proof (induction kvs arbitrary: m)
  case Nil
  then show ?case by simp
next
  case (Cons kv kvs)
  then show ?case
    by (cases kv) (auto simp: get_put map_add_def split: option.splits)
qed

lemma wf_fold_put: "wf m \<Longrightarrow> wf (fold (\<lambda>(k, v) m. put m k v) kvs m)"
  by (induction kvs arbitrary: m) (auto simp: wf_put)

end

interpretation sm: map_contract "[]" smap_get smap_set smap_erase smap_wf
  by unfold_locales (simp_all add: smap_get_set smap_get_erase smap_wf_set smap_wf_erase)

section \<open>Bytes\<close>

lemma byte_bit_high: "8 \<le> n \<Longrightarrow> \<not> bit (b :: byte) n" "\<not> bit (b :: byte) (8 + n)"
    "\<not> bit (b :: byte) (16 + n)"
  using bit_imp_le_length [of b n] bit_imp_le_length [of b "8 + n"] bit_imp_le_length [of b "16 + n"]
  by auto

section \<open>List lemmas\<close>

lemma swap_update_nth:
  "i < length xs \<Longrightarrow> j < length xs \<Longrightarrow> k < length xs \<Longrightarrow>
   xs[i := xs ! j, j := xs ! i] ! k = (if k = j then xs ! i else if k = i then xs ! j else xs ! k)"
  by (simp add: nth_list_update)

lemma mset_swap_update:
  "i < length xs \<Longrightarrow> j < length xs \<Longrightarrow> mset (xs[i := xs ! j, j := xs ! i]) = mset xs"
  by (rule mset_swap)

lemma set_swap_update:
  "i < length xs \<Longrightarrow> j < length xs \<Longrightarrow> set (xs[i := xs ! j, j := xs ! i]) = set xs"
  by (rule set_swap)

lemma distinct_map_swap:
  "i < length xs \<Longrightarrow> j < length xs \<Longrightarrow>
   distinct (map f (xs[i := xs ! j, j := xs ! i])) = distinct (map f xs)"
  by (metis mset_map mset_swap_update mset_eq_imp_distinct_iff)

end
