(* ===== verification/AsyncMutex.thy ===== *)
theory AsyncMutex
  imports Prelude
begin

text \<open>
  \<open>cold/coro/AsyncMutex.h\<close>: the lock-free coroutine mutex, as a step relation in which any
  number of coroutines run \<open>Lock\<close>, \<open>TryLock\<close> and \<open>Unlock\<close> interleaved.

  \<^item> A lock operation is named by the address of its \<open>AsyncMutexLockOperation\<close>; 0 is \<open>nullptr\<close>
    and, as a value of \<open>state_\<close>, \<open>kLockedNoWaiters\<close>; 1 is \<open>kNotLocked\<close>. The \<open>next_\<close> fields are
    an explicit store.
  \<^item> Each atomic access of \<open>state_\<close> and each round of the reversal loop is a step of its own;
    what an operation remembers between two steps (\<open>oldState\<close>, \<open>cur\<close>, \<open>newHead\<close>) is its
    program counter. Accesses are sequentially consistent; \<open>compare_exchange_weak\<close> may fail
    spuriously.
  \<^item> \<open>head->awaiter_.resume()\<close> makes the next operation the owner; \<open>Unlock\<close> does nothing after it.

  The lemmas show that the mutex refines a first-come first-served lock.
\<close>

section \<open>The algorithm\<close>

datatype pc =
    Idle
  | Locking nat
  | Waiting
  | Owner
  | UnlockLoaded nat
  | UnlockExchange
  | Reversing nat nat
  | Popping

record async_mutex =
  mstate :: nat
  waitersHead :: nat
  next_op :: "nat \<Rightarrow> nat"
  pcs :: "nat \<Rightarrow> pc"

definition kNotLocked :: nat where "kNotLocked = 1"
definition kLockedNoWaiters :: nat where "kLockedNoWaiters = 0"

definition mutex_init :: async_mutex where
  "mutex_init = \<lparr>mstate = kNotLocked, waitersHead = 0, next_op = (\<lambda>_. 0), pcs = (\<lambda>_. Idle)\<rparr>"

definition set_pc :: "nat \<Rightarrow> pc \<Rightarrow> async_mutex \<Rightarrow> async_mutex" where
  "set_pc a p s = s\<lparr>pcs := (pcs s)(a := p)\<rparr>"

text \<open>\<open>await_suspend\<close>. An operation's address is neither of the two constants.\<close>

inductive lock_step :: "nat \<Rightarrow> async_mutex \<Rightarrow> async_mutex \<Rightarrow> bool" for a where
  load: "pcs s a = Idle \<Longrightarrow> 1 < a \<Longrightarrow> lock_step a s (set_pc a (Locking (mstate s)) s)"
| acquire: "pcs s a = Locking old \<Longrightarrow> old = kNotLocked \<Longrightarrow> mstate s = old \<Longrightarrow>
    lock_step a s (set_pc a Owner (s\<lparr>mstate := kLockedNoWaiters\<rparr>))"
| acquire_fail: "pcs s a = Locking old \<Longrightarrow> old = kNotLocked \<Longrightarrow>
    lock_step a s (set_pc a (Locking (mstate s)) s)"
| push: "pcs s a = Locking old \<Longrightarrow> old \<noteq> kNotLocked \<Longrightarrow> mstate s = old \<Longrightarrow>
    lock_step a s (set_pc a Waiting (s\<lparr>next_op := (next_op s)(a := old), mstate := a\<rparr>))"
| push_fail: "pcs s a = Locking old \<Longrightarrow> old \<noteq> kNotLocked \<Longrightarrow>
    lock_step a s (set_pc a (Locking (mstate s)) (s\<lparr>next_op := (next_op s)(a := old)\<rparr>))"

inductive trylock_step :: "nat \<Rightarrow> async_mutex \<Rightarrow> async_mutex \<Rightarrow> bool" for a where
  try_ok: "pcs s a = Idle \<Longrightarrow> 1 < a \<Longrightarrow> mstate s = kNotLocked \<Longrightarrow>
    trylock_step a s (set_pc a Owner (s\<lparr>mstate := kLockedNoWaiters\<rparr>))"
| try_fail: "pcs s a = Idle \<Longrightarrow> mstate s \<noteq> kNotLocked \<Longrightarrow> trylock_step a s s"

inductive unlock_step :: "nat \<Rightarrow> async_mutex \<Rightarrow> async_mutex \<Rightarrow> bool" for a where
  unlock_queue: "pcs s a = Owner \<Longrightarrow> waitersHead s \<noteq> 0 \<Longrightarrow> unlock_step a s (set_pc a Popping s)"
| unlock_load: "pcs s a = Owner \<Longrightarrow> waitersHead s = 0 \<Longrightarrow>
    unlock_step a s (set_pc a (UnlockLoaded (mstate s)) s)"
| unlock_free: "pcs s a = UnlockLoaded old \<Longrightarrow> old = kLockedNoWaiters \<Longrightarrow> mstate s = old \<Longrightarrow>
    unlock_step a s (set_pc a Idle (s\<lparr>mstate := kNotLocked\<rparr>))"
| unlock_busy: "pcs s a = UnlockLoaded old \<Longrightarrow> old \<noteq> kLockedNoWaiters \<or> mstate s \<noteq> old \<Longrightarrow>
    unlock_step a s (set_pc a UnlockExchange s)"
| unlock_take: "pcs s a = UnlockExchange \<Longrightarrow>
    unlock_step a s (set_pc a (Reversing (mstate s) 0) (s\<lparr>mstate := kLockedNoWaiters\<rparr>))"
| reverse: "pcs s a = Reversing cur newHead \<Longrightarrow> cur \<noteq> 0 \<Longrightarrow>
    unlock_step a s (set_pc a (Reversing (next_op s cur) cur)
                              (s\<lparr>next_op := (next_op s)(cur := newHead)\<rparr>))"
| reversed: "pcs s a = Reversing cur newHead \<Longrightarrow> cur = 0 \<Longrightarrow>
    unlock_step a s (set_pc a Popping (s\<lparr>waitersHead := newHead\<rparr>))"
| pop: "pcs s a = Popping \<Longrightarrow>
    unlock_step a s (set_pc a Idle (set_pc (waitersHead s) Owner
                       (s\<lparr>waitersHead := next_op s (waitersHead s)\<rparr>)))"

definition mutex_step :: "async_mutex \<Rightarrow> async_mutex \<Rightarrow> bool" where
  "mutex_step s s' \<longleftrightarrow> (\<exists>a. lock_step a s s' \<or> trylock_step a s s' \<or> unlock_step a s s')"

definition mutex_reachable :: "async_mutex \<Rightarrow> bool" where
  "mutex_reachable s \<longleftrightarrow> mutex_step\<^sup>*\<^sup>* mutex_init s"

text \<open>The owner runs \<open>Unlock\<close> from \<open>Owner\<close> on.\<close>

definition holds_lock :: "pc \<Rightarrow> bool" where
  "holds_lock p \<longleftrightarrow> p \<noteq> Idle \<and> p \<noteq> Waiting \<and> (\<forall>old. p \<noteq> Locking old)"

text \<open>The assertions of \<open>Unlock\<close>, each at the program counter where the code evaluates it.\<close>

definition unlock_asserts :: "async_mutex \<Rightarrow> nat \<Rightarrow> bool" where
  "unlock_asserts s a = (case pcs s a of
      Owner \<Rightarrow> mstate s \<noteq> kNotLocked
    | UnlockExchange \<Rightarrow> mstate s \<noteq> kNotLocked \<and> mstate s \<noteq> kLockedNoWaiters
    | Popping \<Rightarrow> waitersHead s \<noteq> 0
    | _ \<Rightarrow> True)"

section \<open>The abstract lock\<close>

type_synonym fifo_lock = "nat option \<times> nat list"

inductive fifo_step :: "fifo_lock \<Rightarrow> fifo_lock \<Rightarrow> bool" where
  take: "fifo_step (None, []) (Some a, [])"
| enqueue: "a \<notin> set w \<Longrightarrow> a \<noteq> h \<Longrightarrow> fifo_step (Some h, w) (Some h, w @ [a])"
| release: "fifo_step (Some h, []) (None, [])"
| handover: "fifo_step (Some h, a # w) (Some a, w)"

section \<open>Linked lists in the store\<close>

fun chain :: "(nat \<Rightarrow> nat) \<Rightarrow> nat \<Rightarrow> nat list \<Rightarrow> bool" where
  "chain n p [] \<longleftrightarrow> p = 0"
| "chain n p (x # xs) \<longleftrightarrow> p = x \<and> 1 < x \<and> chain n (n x) xs"

lemma chain_upd [simp]: "a \<notin> set xs \<Longrightarrow> chain (n(a := v)) p xs = chain n p xs"
  by (induction xs arbitrary: p) auto

lemma chain_functional: "chain n p xs \<Longrightarrow> chain n p ys \<Longrightarrow> xs = ys"
proof (induction xs arbitrary: p ys)
  case Nil
  then show ?case by (cases ys) auto
next
  case (Cons x xs)
  then show ?case by (cases ys) auto
qed

lemma chain_0 [simp]: "chain n 0 xs \<longleftrightarrow> xs = []"
  by (cases xs) auto

lemma chain_pos: "chain n p xs \<Longrightarrow> p \<noteq> 0 \<Longrightarrow> \<exists>ys. xs = p # ys \<and> 1 < p \<and> chain n (n p) ys"
  by (cases xs) auto

section \<open>The invariant\<close>

text \<open>
  \<open>st\<close> is the stack behind \<open>state_\<close> (newest first), \<open>q\<close> the list at \<open>waitersHead_\<close>, \<open>cu\<close> and
  \<open>nw\<close> the two halves of a reversal in progress, \<open>h\<close> the owner.
\<close>

definition waiting_lists :: "async_mutex \<Rightarrow> nat list \<Rightarrow> nat list \<Rightarrow> nat list \<Rightarrow> nat list \<Rightarrow> bool" where
  "waiting_lists s st q cu nw \<longleftrightarrow>
     chain (next_op s) (waitersHead s) q \<and>
     (mstate s \<noteq> kNotLocked \<longrightarrow> chain (next_op s) (mstate s) st) \<and>
     distinct (q @ cu @ nw @ st) \<and> (\<forall>a. a \<in> set (q @ cu @ nw @ st) \<longleftrightarrow> pcs s a = Waiting)"

definition owner_view :: "async_mutex \<Rightarrow> nat option \<Rightarrow> nat list \<Rightarrow> nat list \<Rightarrow> nat list \<Rightarrow> nat list \<Rightarrow> bool" where
  "owner_view s h st q cu nw \<longleftrightarrow> (case h of
      None \<Rightarrow> mstate s = kNotLocked \<and> st = [] \<and> q = [] \<and> cu = [] \<and> nw = []
    | Some a \<Rightarrow> mstate s \<noteq> kNotLocked \<and>
        (case pcs s a of
           UnlockLoaded old \<Rightarrow> q = [] \<and> cu = [] \<and> nw = [] \<and> (old \<noteq> kLockedNoWaiters \<longrightarrow> st \<noteq> [])
         | UnlockExchange \<Rightarrow> q = [] \<and> cu = [] \<and> nw = [] \<and> st \<noteq> []
         | Reversing cur new \<Rightarrow> q = [] \<and> chain (next_op s) cur cu \<and> chain (next_op s) new nw \<and> cu @ nw \<noteq> []
         | Popping \<Rightarrow> q \<noteq> [] \<and> cu = [] \<and> nw = []
         | _ \<Rightarrow> cu = [] \<and> nw = []))"

definition mutex_shape ::
    "async_mutex \<Rightarrow> nat option \<Rightarrow> nat list \<Rightarrow> nat list \<Rightarrow> nat list \<Rightarrow> nat list \<Rightarrow> bool" where
  "mutex_shape s h st q cu nw \<longleftrightarrow>
     waiting_lists s st q cu nw \<and> owner_view s h st q cu nw \<and>
     (\<forall>a. holds_lock (pcs s a) \<longleftrightarrow> h = Some a) \<and> (\<forall>a. pcs s a \<noteq> Idle \<longrightarrow> 1 < a)"

definition fifo_of :: "nat option \<Rightarrow> nat list \<Rightarrow> nat list \<Rightarrow> nat list \<Rightarrow> nat list \<Rightarrow> fifo_lock" where
  "fifo_of h st q cu nw = (h, q @ rev cu @ nw @ rev st)"

lemmas shape_defs = mutex_shape_def waiting_lists_def owner_view_def set_pc_def
  kNotLocked_def kLockedNoWaiters_def holds_lock_def

lemma shape_init: "mutex_shape mutex_init None [] [] [] []"
  by (simp add: shape_defs mutex_init_def)

section \<open>Simulation\<close>

text \<open>Some decomposition of \<open>s\<close> into lists abstracts to \<open>f\<close>.\<close>

definition abstracts :: "async_mutex \<Rightarrow> fifo_lock \<Rightarrow> bool" where
  "abstracts s f \<longleftrightarrow> (\<exists>h st q cu nw. mutex_shape s h st q cu nw \<and> f = fifo_of h st q cu nw)"

lemma abstractsI: "mutex_shape s h st q cu nw \<Longrightarrow> fifo_of h st q cu nw = f \<Longrightarrow> abstracts s f"
  unfolding abstracts_def by blast

lemma shape_owner:
  "mutex_shape s h st q cu nw \<Longrightarrow> holds_lock (pcs s a) \<Longrightarrow> h = Some a \<and> mstate s \<noteq> 1"
  by (auto simp: mutex_shape_def owner_view_def kNotLocked_def)

lemma shape_free:
  "mutex_shape s h st q cu nw \<Longrightarrow> mstate s = 1 \<Longrightarrow> h = None \<and> st = [] \<and> q = [] \<and> cu = [] \<and> nw = []"
  by (cases h) (auto simp: mutex_shape_def owner_view_def kNotLocked_def)

lemma shape_not_waiting:
  "mutex_shape s h st q cu nw \<Longrightarrow> pcs s a \<noteq> Waiting \<Longrightarrow>
   a \<notin> set q \<and> a \<notin> set cu \<and> a \<notin> set nw \<and> a \<notin> set st"
  by (auto simp: mutex_shape_def waiting_lists_def)

lemma shape_lock_step:
  assumes sh: "mutex_shape s h st q cu nw" and step: "lock_step a s s'"
  shows "\<exists>h' st' q' cu' nw'. mutex_shape s' h' st' q' cu' nw' \<and>
     (fifo_of h' st' q' cu' nw' = fifo_of h st q cu nw \<or>
      fifo_step (fifo_of h st q cu nw) (fifo_of h' st' q' cu' nw'))"
  using step
proof cases
  case load
  then have "mutex_shape s' h st q cu nw"
    using sh by (auto simp: shape_defs split: option.splits pc.splits)
  then show ?thesis by blast
next
  case (acquire old)
  then have free: "h = None" "st = []" "q = []" "cu = []" "nw = []"
    using shape_free [OF sh] by (auto simp: kNotLocked_def)
  have "mutex_shape s' (Some a) [] [] [] []"
    using sh acquire free by (auto simp: shape_defs)
  moreover have "fifo_step (fifo_of h st q cu nw) (fifo_of (Some a) [] [] [] [])"
    by (simp add: fifo_of_def free fifo_step.take)
  ultimately show ?thesis by blast
next
  case (acquire_fail old)
  then have "mutex_shape s' h st q cu nw"
    using sh by (auto simp: shape_defs split: option.splits pc.splits)
  then show ?thesis by blast
next
  case (push old)
  have notin: "a \<notin> set q" "a \<notin> set cu" "a \<notin> set nw" "a \<notin> set st"
    using shape_not_waiting [OF sh, of a] push by auto
  obtain b where b: "h = Some b" "b \<noteq> a"
    using sh push by (cases h) (auto simp: shape_defs)
  have locked: "mstate s \<noteq> 1" using push by (simp add: kNotLocked_def)
  have a: "1 < a" using sh push by (auto simp: mutex_shape_def)
  have "waiting_lists s' (a # st) q cu nw"
    using sh push notin a locked
    by (simp add: mutex_shape_def waiting_lists_def set_pc_def kNotLocked_def)
  moreover have "owner_view s' h (a # st) q cu nw"
    using sh push notin less_imp_neq [OF a, symmetric] b
    by (simp add: mutex_shape_def owner_view_def set_pc_def kNotLocked_def split: pc.splits)
  moreover have "holds_lock (pcs s' c) \<longleftrightarrow> h = Some c" "pcs s' c \<noteq> Idle \<longrightarrow> 1 < c" for c
    using sh push b a by (simp_all add: mutex_shape_def set_pc_def holds_lock_def)
  ultimately have "mutex_shape s' h (a # st) q cu nw" unfolding mutex_shape_def by blast
  moreover have "fifo_step (fifo_of h st q cu nw) (fifo_of h (a # st) q cu nw)"
    using fifo_step.enqueue [of a "q @ rev cu @ nw @ rev st" b] notin b by (simp add: fifo_of_def)
  ultimately show ?thesis by blast
next
  case (push_fail old)
  have notin: "a \<notin> set q" "a \<notin> set cu" "a \<notin> set nw" "a \<notin> set st"
    using shape_not_waiting [OF sh, of a] push_fail by auto
  have "mutex_shape s' h st q cu nw"
    using sh push_fail notin by (auto simp: shape_defs split: option.splits pc.splits)
  then show ?thesis by blast
qed

lemma shape_trylock_step:
  assumes sh: "mutex_shape s h st q cu nw" and step: "trylock_step a s s'"
  shows "\<exists>h' st' q' cu' nw'. mutex_shape s' h' st' q' cu' nw' \<and>
     (fifo_of h' st' q' cu' nw' = fifo_of h st q cu nw \<or>
      fifo_step (fifo_of h st q cu nw) (fifo_of h' st' q' cu' nw'))"
  using step
proof cases
  case try_ok
  then have free: "h = None" "st = []" "q = []" "cu = []" "nw = []"
    using shape_free [OF sh] by (auto simp: kNotLocked_def)
  have "mutex_shape s' (Some a) [] [] [] []"
    using sh try_ok free by (auto simp: shape_defs)
  moreover have "fifo_step (fifo_of h st q cu nw) (fifo_of (Some a) [] [] [] [])"
    by (simp add: fifo_of_def free fifo_step.take)
  ultimately show ?thesis by blast
next
  case try_fail
  then show ?thesis using sh by blast
qed

text \<open>A step of the owner's \<open>Unlock\<close> that changes only its own program counter.\<close>

lemma shape_owner_pc:
  assumes sh: "mutex_shape s (Some a) st q cu nw" and p: "holds_lock p"
    and view: "owner_view (set_pc a p s) (Some a) st q cu nw"
  shows "mutex_shape (set_pc a p s) (Some a) st q cu nw"
proof -
  have "pcs s a \<noteq> Waiting" "p \<noteq> Waiting" "1 < a"
    using sh p by (auto simp: mutex_shape_def holds_lock_def)
  then show ?thesis
    using sh p view by (auto simp: mutex_shape_def waiting_lists_def set_pc_def)
qed

lemma shape_reverse:
  assumes sh: "mutex_shape s (Some a) st q cu nw" and pc: "pcs s a = Reversing cur newHead" and ne: "cur \<noteq> 0"
  shows "mutex_shape (set_pc a (Reversing (next_op s cur) cur) (s\<lparr>next_op := (next_op s)(cur := newHead)\<rparr>))
           (Some a) st [] (tl cu) (cur # nw) \<and> q = [] \<and> cu = cur # tl cu"
proof -
  have q: "q = []" and cu: "chain (next_op s) cur cu" and nw: "chain (next_op s) newHead nw"
    using sh pc by (auto simp: mutex_shape_def owner_view_def)
  obtain cs where cs: "cu = cur # cs" "1 < cur" "chain (next_op s) (next_op s cur) cs"
    using chain_pos [OF cu ne] by blast
  have w: "waiting_lists s st q cu nw" using sh by (simp add: mutex_shape_def)
  then have d: "cur \<notin> set cs" "cur \<notin> set nw" "cur \<notin> set st"
    by (auto simp: waiting_lists_def cs)
  let ?s = "set_pc a (Reversing (next_op s cur) cur) (s\<lparr>next_op := (next_op s)(cur := newHead)\<rparr>)"
  have a: "pcs s a \<noteq> Waiting" "1 < a" using sh pc by (auto simp: mutex_shape_def)
  have "waiting_lists ?s st [] cs (cur # nw)"
    using w d a(1) by (auto simp: waiting_lists_def set_pc_def cs q)
  moreover have "owner_view ?s (Some a) st [] cs (cur # nw)"
    using sh d cs nw by (auto simp: mutex_shape_def owner_view_def set_pc_def)
  moreover have "holds_lock (pcs ?s c) \<longleftrightarrow> Some a = Some c" "pcs ?s c \<noteq> Idle \<longrightarrow> 1 < c" for c
    using sh a by (auto simp: mutex_shape_def set_pc_def holds_lock_def)
  ultimately show ?thesis by (auto simp: mutex_shape_def cs q)
qed

lemma shape_pop:
  assumes sh: "mutex_shape s (Some a) st q cu nw" and pc: "pcs s a = Popping"
  shows "\<exists>b w. q = b # w \<and> cu = [] \<and> nw = [] \<and> waitersHead s = b \<and>
     mutex_shape (set_pc a Idle (set_pc b Owner (s\<lparr>waitersHead := next_op s b\<rparr>))) (Some b) st w [] []"
proof -
  have q: "q \<noteq> []" "cu = []" "nw = []" using sh pc by (auto simp: mutex_shape_def owner_view_def)
  have w: "waiting_lists s st q cu nw" using sh by (simp add: mutex_shape_def)
  then obtain b bs where b: "q = b # bs" "waitersHead s = b" "1 < b" "chain (next_op s) (next_op s b) bs"
    using q(1) by (cases q) (auto simp: waiting_lists_def)
  have bw: "pcs s b = Waiting" and wait: "\<forall>c. c \<in> set q \<or> c \<in> set st \<longleftrightarrow> pcs s c = Waiting"
    and dist: "b \<notin> set bs" "b \<notin> set st" "distinct bs" "distinct st" "set bs \<inter> set st = {}"
    using w by (auto simp: waiting_lists_def q b(1))
  have ab: "a \<noteq> b" using pc bw by auto
  let ?s = "set_pc a Idle (set_pc b Owner (s\<lparr>waitersHead := next_op s b\<rparr>))"
  have "c \<in> set bs \<or> c \<in> set st \<longleftrightarrow> pcs ?s c = Waiting" for c
    using wait [rule_format, of c] dist pc ab by (auto simp: set_pc_def b(1))
  then have "waiting_lists ?s st bs [] []"
    using w dist b(4) by (auto simp: waiting_lists_def set_pc_def)
  moreover have "owner_view ?s (Some b) st bs [] []"
    using sh ab by (simp add: mutex_shape_def owner_view_def set_pc_def)
  moreover have "holds_lock (pcs ?s c) \<longleftrightarrow> Some b = Some c" "pcs ?s c \<noteq> Idle \<longrightarrow> 1 < c" for c
    using sh ab b(3) by (auto simp: mutex_shape_def set_pc_def holds_lock_def)
  ultimately show ?thesis using b(1,2) q by (auto simp: mutex_shape_def)
qed

lemma unlock_owner:
  assumes "mutex_shape s h st q cu nw" "unlock_step a s s'"
  shows "h = Some a"
  using assms(2) by cases (use shape_owner [OF assms(1), of a] in \<open>simp_all add: holds_lock_def\<close>)

lemma shape_unlock_step:
  assumes sh: "mutex_shape s h st q cu nw" and step: "unlock_step a s s'"
  shows "\<exists>h' st' q' cu' nw'. mutex_shape s' h' st' q' cu' nw' \<and>
     (fifo_of h' st' q' cu' nw' = fifo_of h st q cu nw \<or>
      fifo_step (fifo_of h st q cu nw) (fifo_of h' st' q' cu' nw'))"
proof -
  have h: "h = Some a" by (rule unlock_owner [OF sh step])
  from step show ?thesis
  proof cases
    case unlock_queue
    have "q \<noteq> []" "cu = []" "nw = []"
      using sh unlock_queue by (auto simp: h mutex_shape_def waiting_lists_def owner_view_def)
    then have "mutex_shape s' h st q cu nw"
      using sh unlock_queue shape_owner_pc [of s a st q cu nw Popping]
      by (simp add: h holds_lock_def owner_view_def set_pc_def mutex_shape_def)
    then show ?thesis by blast
  next
    case unlock_load
    have "q = []" "cu = []" "nw = []" "mstate s \<noteq> 0 \<longrightarrow> st \<noteq> []"
      using sh unlock_load by (auto simp: h mutex_shape_def waiting_lists_def owner_view_def)
    then have "mutex_shape s' h st q cu nw"
      using sh unlock_load shape_owner_pc [of s a st q cu nw "UnlockLoaded (mstate s)"]
      by (simp add: h holds_lock_def owner_view_def set_pc_def mutex_shape_def kLockedNoWaiters_def)
    then show ?thesis by blast
  next
    case (unlock_free old)
    have e: "q = []" "cu = []" "nw = []" "st = []"
      using sh unlock_free
      by (auto simp: h mutex_shape_def waiting_lists_def owner_view_def kLockedNoWaiters_def kNotLocked_def)
    have "mutex_shape s' None [] [] [] []"
      using sh unlock_free by (auto simp: h e shape_defs)
    moreover have "fifo_step (fifo_of h st q cu nw) (fifo_of None [] [] [] [])"
      by (simp add: fifo_of_def h e fifo_step.release)
    ultimately show ?thesis by blast
  next
    case (unlock_busy old)
    have "q = []" "cu = []" "nw = []" "st \<noteq> []"
      using sh unlock_busy
      by (auto simp: h mutex_shape_def waiting_lists_def owner_view_def kLockedNoWaiters_def)
    then have "mutex_shape s' h st q cu nw"
      using sh unlock_busy shape_owner_pc [of s a st q cu nw UnlockExchange]
      by (simp add: h holds_lock_def owner_view_def set_pc_def mutex_shape_def)
    then show ?thesis by blast
  next
    case unlock_take
    have e: "q = []" "cu = []" "nw = []" "st \<noteq> []"
      using sh unlock_take by (auto simp: h mutex_shape_def owner_view_def)
    have "mutex_shape s' h [] [] st []"
      using sh unlock_take e by (auto simp: h shape_defs)
    moreover have "fifo_of h [] [] st [] = fifo_of h st q cu nw" by (simp add: fifo_of_def e)
    ultimately show ?thesis by blast
  next
    case (reverse cur newHead)
    have sh': "mutex_shape s' h st [] (tl cu) (cur # nw)" and e: "q = []" "cu = cur # tl cu"
      using shape_reverse [OF sh [unfolded h], of cur newHead] reverse h by simp_all
    have "fifo_of h st [] (tl cu) (cur # nw) = fifo_of h st q cu nw"
      by (subst (2) e(2)) (simp add: fifo_of_def e(1))
    then show ?thesis using sh' by blast
  next
    case (reversed cur newHead)
    have e: "q = []" "cu = []" "nw \<noteq> []" "chain (next_op s) newHead nw"
      using sh reversed by (auto simp: h mutex_shape_def owner_view_def)
    have "mutex_shape s' h st nw [] []"
      using sh reversed e by (auto simp: h shape_defs)
    moreover have "fifo_of h st nw [] [] = fifo_of h st q cu nw" by (simp add: fifo_of_def e)
    ultimately show ?thesis by blast
  next
    case pop
    obtain b w where b: "q = b # w" "cu = []" "nw = []" "mutex_shape s' (Some b) st w [] []"
      using shape_pop [OF sh [unfolded h]] pop by auto
    have "fifo_step (fifo_of h st q cu nw) (fifo_of (Some b) st w [] [])"
      using fifo_step.handover [of a b "w @ rev st"] by (simp add: fifo_of_def h b)
    then show ?thesis using b(4) by blast
  qed
qed

lemma mutex_step_refines:
  assumes "abstracts s f" and "mutex_step s s'"
  shows "abstracts s' f \<or> (\<exists>f'. abstracts s' f' \<and> fifo_step f f')"
proof -
  obtain h st q cu nw where sh: "mutex_shape s h st q cu nw" and f: "f = fifo_of h st q cu nw"
    using assms(1) by (auto simp: abstracts_def)
  obtain a where "lock_step a s s' \<or> trylock_step a s s' \<or> unlock_step a s s'"
    using assms(2) by (auto simp: mutex_step_def)
  then obtain h' st' q' cu' nw' where "mutex_shape s' h' st' q' cu' nw'"
      "fifo_of h' st' q' cu' nw' = f \<or> fifo_step f (fifo_of h' st' q' cu' nw')"
    unfolding f using shape_lock_step [OF sh] shape_trylock_step [OF sh] shape_unlock_step [OF sh] by metis
  then show ?thesis using abstractsI by blast
qed

lemma reachable_abstracts: "mutex_reachable s \<Longrightarrow> \<exists>f. abstracts s f \<and> fifo_step\<^sup>*\<^sup>* (None, []) f"
  unfolding mutex_reachable_def
proof (induction rule: rtranclp_induct)
  case base
  show ?case using abstractsI [OF shape_init] by (auto simp: fifo_of_def)
next
  case (step s s')
  then obtain f where f: "abstracts s f" "fifo_step\<^sup>*\<^sup>* (None, []) f" by blast
  then show ?case using mutex_step_refines [OF f(1) step(2)] by (meson rtranclp.rtrancl_into_rtrancl)
qed

lemma reachable_shape: "mutex_reachable s \<Longrightarrow> \<exists>h st q cu nw. mutex_shape s h st q cu nw"
  using reachable_abstracts unfolding abstracts_def by blast

lemma shape_asserts:
  assumes sh: "mutex_shape s h st q cu nw" shows "unlock_asserts s a"
proof (cases "holds_lock (pcs s a)")
  case True
  then have h: "h = Some a" using sh by (auto simp: mutex_shape_def)
  show ?thesis
    using sh unfolding h
    by (cases "pcs s a")
       (auto simp: unlock_asserts_def mutex_shape_def owner_view_def waiting_lists_def kLockedNoWaiters_def
             neq_Nil_conv)
qed (auto simp: unlock_asserts_def holds_lock_def split: pc.splits)

section \<open>Properties\<close>

text \<open>C31: mutual exclusion: in every reachable state at most one operation holds the mutex
  (has been granted it and has not finished \<open>Unlock\<close>), and \<open>state_\<close> is \<open>kNotLocked\<close> exactly when
  none does.\<close>

theorem mutex_exclusion:
  assumes "mutex_reachable s"
  shows "(holds_lock (pcs s a) \<and> holds_lock (pcs s b) \<longrightarrow> a = b)
    \<and> (mstate s = kNotLocked \<longleftrightarrow> (\<forall>c. \<not> holds_lock (pcs s c)))"
proof -
  obtain h st q cu nw where sh: "mutex_shape s h st q cu nw" using reachable_shape [OF assms] by blast
  then have "holds_lock (pcs s c) \<longleftrightarrow> h = Some c" for c by (simp add: mutex_shape_def)
  moreover have "mstate s = kNotLocked \<longleftrightarrow> h = None"
    using sh by (cases h) (auto simp: mutex_shape_def owner_view_def)
  ultimately show ?thesis by (cases h) auto
qed

definition mutex_demo :: async_mutex where
  "mutex_demo = set_pc 2 Owner (set_pc 2 (Locking 1) mutex_init\<lparr>mstate := 0\<rparr>)"

lemma mutex_demo_reachable: "mutex_reachable mutex_demo"
proof -
  have "mutex_step mutex_init (set_pc 2 (Locking 1) mutex_init)"
    unfolding mutex_step_def using lock_step.load [of mutex_init 2]
    by (auto simp: mutex_init_def kNotLocked_def)
  moreover have "mutex_step (set_pc 2 (Locking 1) mutex_init) mutex_demo"
    unfolding mutex_step_def using lock_step.acquire [of "set_pc 2 (Locking 1) mutex_init" 2 1]
    by (auto simp: mutex_init_def mutex_demo_def set_pc_def kNotLocked_def kLockedNoWaiters_def)
  ultimately show ?thesis unfolding mutex_reachable_def by (meson rtranclp.simps)
qed

theorem mutex_exclusion_witness: "\<not> holds_lock (pcs mutex_demo 3)"
  using mutex_exclusion [OF mutex_demo_reachable, of 2 3]
  by (auto simp: mutex_demo_def set_pc_def mutex_init_def holds_lock_def)

text \<open>No assertion of \<open>Unlock\<close> can fail in a reachable state: the mutex is locked when its
  owner unlocks it, the exchange finds a list of waiters, and there is a waiter to resume.\<close>

theorem mutex_asserts_hold:
  assumes "mutex_reachable s" shows "unlock_asserts s a"
  using reachable_shape [OF assms] shape_asserts by blast

theorem mutex_asserts_hold_witness: "unlock_asserts mutex_demo 2"
  by (rule mutex_asserts_hold) (rule mutex_demo_reachable)

text \<open>C3: the mutex refines a first-come first-served lock: every step of the code is either
  invisible or one step of the abstract lock (take the free lock, queue behind the others, hand
  the lock to the longest waiting operation, free it when nobody waits).\<close>

theorem mutex_refines_fifo:
  "abstracts mutex_init (None, []) \<and>
   (abstracts s f \<and> mutex_step s s' \<longrightarrow> abstracts s' f \<or> (\<exists>f'. abstracts s' f' \<and> fifo_step f f'))"
  using abstractsI [OF shape_init] mutex_step_refines [of s f s'] by (simp add: fifo_of_def)

theorem mutex_refines_fifo_witness:
  "\<exists>s'. mutex_step mutex_init s' \<and> (abstracts s' (None, []) \<or> (\<exists>f'. abstracts s' f' \<and> fifo_step (None, []) f'))"
proof -
  have step: "mutex_step mutex_init (set_pc 2 (Locking 1) mutex_init)"
    unfolding mutex_step_def using lock_step.load [of mutex_init 2]
    by (auto simp: mutex_init_def kNotLocked_def)
  show ?thesis
    using mutex_refines_fifo [of mutex_init "(None, [])" "set_pc 2 (Locking 1) mutex_init"] step by blast
qed

text \<open>C33: no waiter is lost: in every reachable state each suspended operation is queued exactly
  once in the abstract lock the state stands for, and the lock is held while anyone waits.\<close>

theorem mutex_no_lost_waiter:
  assumes "mutex_reachable s"
  shows "\<exists>h w. abstracts s (h, w) \<and> distinct w \<and> set w = {a. pcs s a = Waiting} \<and> (w \<noteq> [] \<longrightarrow> h \<noteq> None)"
proof -
  obtain h st q cu nw where sh: "mutex_shape s h st q cu nw" using reachable_shape [OF assms] by blast
  have "abstracts s (h, q @ rev cu @ nw @ rev st)"
    using abstractsI [OF sh] by (simp add: fifo_of_def)
  moreover have "distinct (q @ rev cu @ nw @ rev st)" "set (q @ rev cu @ nw @ rev st) = {a. pcs s a = Waiting}"
    using sh by (auto simp: mutex_shape_def waiting_lists_def)
  moreover have "q @ rev cu @ nw @ rev st \<noteq> [] \<longrightarrow> h \<noteq> None"
    using sh by (auto simp: mutex_shape_def owner_view_def)
  ultimately show ?thesis by blast
qed

theorem mutex_no_lost_waiter_witness:
  "\<exists>h w. abstracts mutex_demo (h, w) \<and> set w = {}"
proof -
  have "{a. pcs mutex_demo a = Waiting} = {}"
    by (auto simp: mutex_demo_def set_pc_def mutex_init_def)
  then show ?thesis using mutex_no_lost_waiter [OF mutex_demo_reachable] by auto
qed

end
