(* ===== verification/ConditionVariable.thy ===== *)
theory ConditionVariable
  imports AsyncMutex
begin

text \<open>
  \<open>cold/coro/ConditionVariable.h\<close>: the stack of awaiters and the two notifications.

  \<^item> Awaiters are named by their addresses, 0 is \<open>nullptr\<close>, \<open>next_\<close> is an explicit store.
  \<^item> The compare-and-swap loops take effect at their successful exchange, so a push and a pop are
    one step each.
  \<^item> \<open>awaiter_.resume()\<close> runs the waiter until it suspends again; what it does to the condition
    variable is a parameter \<open>resume\<close> of the notifications.
\<close>

record cond_var =
  cv_head :: nat
  cv_next :: "nat \<Rightarrow> nat"

definition cv_init :: cond_var where
  "cv_init = \<lparr>cv_head = 0, cv_next = (\<lambda>_. 0)\<rparr>"

text \<open>\<open>ConditionVariableAwaiter::await_suspend\<close>; the call of \<open>mutex_->Unlock()\<close> follows it.\<close>

definition cv_suspend :: "nat \<Rightarrow> cond_var \<Rightarrow> cond_var" where
  "cv_suspend a s = \<lparr>cv_head = a, cv_next = (cv_next s)(a := cv_head s)\<rparr>"

text \<open>\<open>NotifyOne\<close>: the resumed awaiter, if any.\<close>

definition NotifyOne :: "(nat \<Rightarrow> cond_var \<Rightarrow> cond_var) \<Rightarrow> cond_var \<Rightarrow> nat option \<times> cond_var" where
  "NotifyOne resume s =
     (let cur = cv_head s in
      if cur = 0 then (None, s) else (Some cur, resume cur (s\<lparr>cv_head := cv_next s cur\<rparr>)))"

text \<open>The loop of \<open>NotifyAll\<close>: \<open>i->next_\<close> is read after \<open>i\<close> was resumed.\<close>

partial_function (option) notify_loop ::
    "(nat \<Rightarrow> cond_var \<Rightarrow> cond_var) \<Rightarrow> nat \<Rightarrow> nat list \<Rightarrow> cond_var \<Rightarrow> (nat list \<times> cond_var) option" where
  "notify_loop resume i resumed s =
     (if i = 0 then Some (resumed, s)
      else notify_loop resume (cv_next (resume i s) i) (resumed @ [i]) (resume i s))"

definition NotifyAll ::
    "(nat \<Rightarrow> cond_var \<Rightarrow> cond_var) \<Rightarrow> cond_var \<Rightarrow> (nat list \<times> cond_var) option" where
  "NotifyAll resume s =
     (let cur = cv_head s in
      if cur = 0 then Some ([], s) else notify_loop resume cur [] (s\<lparr>cv_head := 0\<rparr>))"

section \<open>Lemmas\<close>

definition cv_waiters :: "cond_var \<Rightarrow> nat list \<Rightarrow> bool" where
  "cv_waiters s ws \<longleftrightarrow> chain (cv_next s) (cv_head s) ws \<and> distinct ws"

lemma cv_waiters_init: "cv_waiters cv_init []"
  by (simp add: cv_waiters_def cv_init_def)

lemma cv_suspend_waiters:
  "cv_waiters s ws \<Longrightarrow> 1 < a \<Longrightarrow> a \<notin> set ws \<Longrightarrow> cv_waiters (cv_suspend a s) (a # ws)"
  by (simp add: cv_waiters_def cv_suspend_def)

lemma cv_waiters_Cons:
  "cv_waiters s (a # ws) \<longleftrightarrow>
   cv_head s = a \<and> 1 < a \<and> a \<notin> set ws \<and> cv_waiters (s\<lparr>cv_head := cv_next s a\<rparr>) ws"
  by (auto simp: cv_waiters_def)

text \<open>A resumption that leaves the links of the awaiters in \<open>ws\<close> alone.\<close>

definition keeps_links :: "(nat \<Rightarrow> cond_var \<Rightarrow> cond_var) \<Rightarrow> nat list \<Rightarrow> bool" where
  "keeps_links resume ws \<longleftrightarrow> (\<forall>a s. \<forall>b \<in> set ws. cv_next (resume a s) b = cv_next s b)"

lemma chain_cong: "(\<And>x. x \<in> set xs \<Longrightarrow> n x = m x) \<Longrightarrow> chain n p xs = chain m p xs"
  by (induction xs arbitrary: p) auto

lemma notify_loop_visits:
  assumes "chain (cv_next s) i ws" and "keeps_links resume ws"
  shows "notify_loop resume i out s = Some (out @ ws, fold resume ws s)"
  using assms
proof (induction ws arbitrary: i out s)
  case Nil
  then show ?case by (simp add: notify_loop.simps)
next
  case (Cons w ws)
  then have w: "i = w" "1 < w" "chain (cv_next s) (cv_next s w) ws" by auto
  have "cv_next (resume w s) w = cv_next s w" using Cons.prems(2) by (simp add: keeps_links_def)
  moreover have "chain (cv_next (resume w s)) (cv_next s w) ws"
    using w(3) Cons.prems(2) chain_cong [of ws "cv_next (resume w s)" "cv_next s"]
    by (simp add: keeps_links_def)
  moreover have "keeps_links resume ws" using Cons.prems(2) by (simp add: keeps_links_def)
  ultimately show ?case
    using Cons.IH [of "resume w s" "cv_next s w" "out @ [w]"] w by (simp add: notify_loop.simps)
qed

section \<open>Properties\<close>

text \<open>\<open>NotifyOne\<close> resumes the most recent waiter and leaves the others queued; with no waiter
  it does nothing.\<close>

theorem NotifyOne_latest:
  assumes "cv_waiters s ws"
  shows "fst (NotifyOne resume s) = (if ws = [] then None else Some (hd ws))
       \<and> (ws = [] \<longrightarrow> snd (NotifyOne resume s) = s)
       \<and> (ws \<noteq> [] \<longrightarrow> (\<exists>s'. snd (NotifyOne resume s) = resume (hd ws) s' \<and> cv_waiters s' (tl ws)))"
proof (cases ws)
  case Nil
  then have "cv_head s = 0" using assms by (simp add: cv_waiters_def)
  then show ?thesis by (simp add: NotifyOne_def Nil)
next
  case (Cons a as)
  then show ?thesis using assms by (auto simp: NotifyOne_def cv_waiters_Cons Let_def)
qed

theorem NotifyOne_latest_witness:
  "fst (NotifyOne (\<lambda>_ s. s) (cv_suspend 3 (cv_suspend 2 cv_init))) = Some 3"
  using NotifyOne_latest [of "cv_suspend 3 (cv_suspend 2 cv_init)" "[3, 2]" "\<lambda>_ s. s"]
  by (simp add: cv_suspend_waiters cv_waiters_init)

text \<open>\<open>NotifyAll\<close> returns and resumes every waiter once, the latest first, and leaves the stack
  empty before the first resumption, provided that no resumption rewrites the link of an awaiter
  the loop still has to read.\<close>

theorem NotifyAll_everyone:
  assumes "cv_waiters s ws" and "keeps_links resume ws"
  shows "NotifyAll resume s = Some (ws, fold resume ws (s\<lparr>cv_head := 0\<rparr>))"
proof (cases ws)
  case Nil
  then have "cv_head s = 0" using assms(1) by (simp add: cv_waiters_def)
  then show ?thesis by (simp add: NotifyAll_def Nil)
next
  case (Cons a as)
  then have "cv_head s = a" "1 < a" using assms(1) by (auto simp: cv_waiters_def)
  moreover have "chain (cv_next (s\<lparr>cv_head := 0\<rparr>)) a ws"
    using assms(1) Cons by (auto simp: cv_waiters_def)
  ultimately show ?thesis
    using notify_loop_visits [OF _ assms(2), of "s\<lparr>cv_head := 0\<rparr>" a "[]"] by (simp add: NotifyAll_def)
qed

theorem NotifyAll_everyone_witness:
  "NotifyAll (\<lambda>_ s. s) (cv_suspend 3 (cv_suspend 2 cv_init)) =
     Some ([3, 2], cv_suspend 3 (cv_suspend 2 cv_init)\<lparr>cv_head := 0\<rparr>)"
  using NotifyAll_everyone [of "cv_suspend 3 (cv_suspend 2 cv_init)" "[3, 2]" "\<lambda>_ s. s"]
  by (simp add: cv_suspend_waiters cv_waiters_init keeps_links_def)

text \<open>When the first resumed waiter waits again with its awaiter at the same address (its
  predicate is still false), \<open>NotifyAll\<close> stops after it: \<open>next_\<close> was overwritten with the empty
  stack, so the other waiters are neither resumed nor queued any more.\<close>

theorem NotifyAll_loses_waiters:
  assumes "cv_waiters s (a # ws)"
  shows "\<exists>s'. NotifyAll cv_suspend s = Some ([a], s') \<and> cv_waiters s' [a]"
proof -
  have a: "cv_head s = a" "1 < a" using assms by (auto simp: cv_waiters_def)
  have "NotifyAll cv_suspend s = Some ([a], cv_suspend a (s\<lparr>cv_head := 0\<rparr>))"
    using a by (simp add: NotifyAll_def notify_loop.simps cv_suspend_def)
  moreover have "cv_waiters (cv_suspend a (s\<lparr>cv_head := 0\<rparr>)) [a]"
    using a by (simp add: cv_waiters_def cv_suspend_def)
  ultimately show ?thesis by blast
qed

theorem NotifyAll_loses_waiters_witness:
  "\<exists>s'. NotifyAll cv_suspend (cv_suspend 3 (cv_suspend 2 cv_init)) = Some ([3], s') \<and> cv_waiters s' [3]"
  using NotifyAll_loses_waiters [of "cv_suspend 3 (cv_suspend 2 cv_init)" 3 "[2]"]
  by (simp add: cv_suspend_waiters cv_waiters_init)

end
