(* ===== verification/Monitor.thy ===== *)
theory Monitor
  imports ConditionVariable
begin

text \<open>
  \<open>ConditionVariable::Wait\<close> (\<open>cold/coro/ConditionVariable.h\<close>): coroutines that share data under an \<open>AsyncMutex\<close> and wait
  for a condition of it.

  \<^item> The mutex is its specification, the first-come first-served lock that \<open>AsyncMutex\<close> is shown to refine. The condition variable
    is the model of its code. The data is a parameter, and so is the condition
    that each coroutine waits for.
  \<^item> A coroutine is a number above 1, which also names its awaiter. Steps are what coroutines do between two suspensions.
    A coroutine notifies while it owns the mutex, so a coroutine that is resumed suspends at the mutex at once.
  \<^item> \<open>mon_dirty\<close> is a ghost: the data was changed and \<open>NotifyAll\<close> not called since.
\<close>

section \<open>The lock\<close>

definition fifo_Lock :: "nat \<Rightarrow> fifo_lock \<Rightarrow> fifo_lock" where
  "fifo_Lock a f = (case f of (None, w) \<Rightarrow> (Some a, w) | (Some h, w) \<Rightarrow> (Some h, w @ [a]))"

definition fifo_Unlock :: "fifo_lock \<Rightarrow> fifo_lock" where
  "fifo_Unlock f = (case snd f of [] \<Rightarrow> (None, []) | a # w \<Rightarrow> (Some a, w))"

lemma fifo_functions_step:
  "(fst f = None \<longrightarrow> snd f = []) \<Longrightarrow> a \<notin> set (snd f) \<Longrightarrow> fst f \<noteq> Some a \<Longrightarrow> fifo_step f (fifo_Lock a f)"
  "fst f \<noteq> None \<Longrightarrow> fifo_step f (fifo_Unlock f)"
  by (cases f; cases "fst f"; auto simp: fifo_Lock_def fifo_Unlock_def fifo_step.take fifo_step.enqueue)
    (cases f; cases "snd f"; auto simp: fifo_Unlock_def fifo_step.release fifo_step.handover)

section \<open>Coroutines that wait\<close>

datatype mon_phase =
    MonIdle
  | MonLocking
  | MonChecking
  | MonSleeping
  | MonRelocking
  | MonInside

record 'd monitor =
  mon_lock :: fifo_lock
  mon_cv :: cond_var
  mon_phase :: "nat \<Rightarrow> mon_phase"
  mon_data :: 'd
  mon_dirty :: bool

definition monitor_init :: "'d \<Rightarrow> 'd monitor" where
  "monitor_init d = \<lparr>mon_lock = (None, []), mon_cv = cv_init, mon_phase = (\<lambda>_. MonIdle), mon_data = d, mon_dirty = False\<rparr>"

text \<open>Whoever got the mutex goes on, to the loop of \<open>Wait\<close>.\<close>

definition mon_settle :: "'d monitor \<Rightarrow> 'd monitor" where
  "mon_settle m = (case fst (mon_lock m) of None \<Rightarrow> m
     | Some h \<Rightarrow> if mon_phase m h \<in> {MonLocking, MonRelocking} then m\<lparr>mon_phase := (mon_phase m)(h := MonChecking)\<rparr> else m)"

text \<open>\<open>co_await mutex_->Lock()\<close>, before \<open>Wait\<close> or in its loop.\<close>

definition mon_Lock :: "mon_phase \<Rightarrow> nat \<Rightarrow> 'd monitor \<Rightarrow> 'd monitor" where
  "mon_Lock p a m = mon_settle (m\<lparr>mon_lock := fifo_Lock a (mon_lock m), mon_phase := (mon_phase m)(a := p)\<rparr>)"

definition mon_Unlock :: "'d monitor \<Rightarrow> 'd monitor" where
  "mon_Unlock m = mon_settle (m\<lparr>mon_lock := fifo_Unlock (mon_lock m)\<rparr>)"

text \<open>A turn of \<open>Wait\<close>: the condition is evaluated; if it fails, the awaiter is pushed and the mutex released.\<close>

definition Wait_turn :: "(nat \<Rightarrow> 'd \<Rightarrow> bool) \<Rightarrow> nat \<Rightarrow> 'd monitor \<Rightarrow> 'd monitor" where
  "Wait_turn cond a m =
     (if cond a (mon_data m) then m\<lparr>mon_phase := (mon_phase m)(a := MonInside)\<rparr>
      else mon_Unlock (m\<lparr>mon_cv := cv_suspend a (mon_cv m), mon_phase := (mon_phase m)(a := MonSleeping)\<rparr>))"

text \<open>The awaiters that a notification resumes lock the mutex.\<close>

definition mon_resumed :: "nat list \<Rightarrow> 'd monitor \<Rightarrow> 'd monitor" where
  "mon_resumed ws m = fold (mon_Lock MonRelocking) ws m"

definition mon_NotifyOne :: "'d monitor \<Rightarrow> 'd monitor" where
  "mon_NotifyOne m = (case NotifyOne (\<lambda>_ s. s) (mon_cv m) of (w, cv) \<Rightarrow>
     mon_resumed (case w of None \<Rightarrow> [] | Some a \<Rightarrow> [a]) (m\<lparr>mon_cv := cv\<rparr>))"

definition mon_NotifyAll :: "'d monitor \<Rightarrow> 'd monitor" where
  "mon_NotifyAll m = (case NotifyAll (\<lambda>_ s. s) (mon_cv m) of None \<Rightarrow> m
     | Some (ws, cv) \<Rightarrow> mon_resumed ws (m\<lparr>mon_cv := cv, mon_dirty := False\<rparr>))"

inductive mon_step :: "(nat \<Rightarrow> 'd \<Rightarrow> bool) \<Rightarrow> 'd monitor \<Rightarrow> 'd monitor \<Rightarrow> bool" for cond where
  enter: "1 < a \<Longrightarrow> mon_phase m a = MonIdle \<Longrightarrow> mon_step cond m (mon_Lock MonLocking a m)"
| check: "mon_phase m a = MonChecking \<Longrightarrow> mon_step cond m (Wait_turn cond a m)"
| change: "mon_phase m a = MonInside \<Longrightarrow> mon_step cond m (m\<lparr>mon_data := d, mon_dirty := True\<rparr>)"
| notify_one: "mon_phase m a = MonInside \<Longrightarrow> mon_step cond m (mon_NotifyOne m)"
| notify_all: "mon_phase m a = MonInside \<Longrightarrow> mon_step cond m (mon_NotifyAll m)"
| leave: "mon_phase m a = MonInside \<Longrightarrow> \<not> mon_dirty m \<Longrightarrow>
    mon_step cond m (mon_Unlock (m\<lparr>mon_phase := (mon_phase m)(a := MonIdle)\<rparr>))"

definition mon_reachable :: "(nat \<Rightarrow> 'd \<Rightarrow> bool) \<Rightarrow> 'd \<Rightarrow> 'd monitor \<Rightarrow> bool" where
  "mon_reachable cond d m \<longleftrightarrow> (mon_step cond)\<^sup>*\<^sup>* (monitor_init d) m"

section \<open>Invariant\<close>

text \<open>Every coroutine is in one place: it owns the mutex, is in its queue, sleeps in the stack \<open>cs\<close>, or was just popped from it
  (\<open>ps\<close>), or is idle.\<close>

definition mon_lock_ok :: "fifo_lock \<Rightarrow> (nat \<Rightarrow> mon_phase) \<Rightarrow> bool" where
  "mon_lock_ok l ph \<longleftrightarrow> (fst l = None \<longrightarrow> snd l = []) \<and> distinct (snd l) \<and> (\<forall>a. a \<in> set (snd l) \<longleftrightarrow> ph a \<in> {MonLocking, MonRelocking})
     \<and> (\<forall>a. fst l = Some a \<longleftrightarrow> ph a \<in> {MonChecking, MonInside})"

definition mon_shape :: "'d monitor \<Rightarrow> nat list \<Rightarrow> nat list \<Rightarrow> bool" where
  "mon_shape m cs ps \<longleftrightarrow> mon_lock_ok (mon_lock m) (mon_phase m) \<and> cv_waiters (mon_cv m) cs \<and> distinct (cs @ ps)
     \<and> (\<forall>a. mon_phase m a = MonSleeping \<longleftrightarrow> a \<in> set cs \<union> set ps) \<and> (\<forall>a. mon_phase m a \<noteq> MonIdle \<longrightarrow> 1 < a)"

definition mon_inv :: "(nat \<Rightarrow> 'd \<Rightarrow> bool) \<Rightarrow> 'd monitor \<Rightarrow> bool" where
  "mon_inv cond m \<longleftrightarrow> (\<exists>cs. mon_shape m cs []) \<and> (mon_dirty m \<longrightarrow> (\<exists>a. mon_phase m a = MonInside))
     \<and> (\<forall>a. cond a (mon_data m) \<longrightarrow> \<not> mon_dirty m \<longrightarrow> mon_phase m a \<noteq> MonSleeping)"

lemma mon_lock_okD:
  assumes "mon_lock_ok l ph"
  shows "fst l = None \<Longrightarrow> snd l = []" "distinct (snd l)" "a \<in> set (snd l) \<longleftrightarrow> ph a = MonLocking \<or> ph a = MonRelocking"
    "fst l = Some a \<longleftrightarrow> ph a = MonChecking \<or> ph a = MonInside"
  using assms by (auto simp: mon_lock_ok_def)

lemma mon_lock_ok_queue:
  assumes "mon_lock_ok l ph" "ph a = MonIdle \<or> ph a = MonSleeping" "p \<in> {MonLocking, MonRelocking}" "fst l \<noteq> None"
  shows "mon_lock_ok (fifo_Lock a l) (ph(a := p))" "fst (fifo_Lock a l) = fst l"
proof -
  obtain h w where l: "l = (Some h, w)" using assms(4) by (cases l; cases "fst l") auto
  have "a \<notin> set w" "a \<noteq> h"
    using mon_lock_okD(3,4) [OF assms(1), of a] assms(2) by (auto simp: l)
  then show "mon_lock_ok (fifo_Lock a l) (ph(a := p))" using assms(1,3) by (auto simp: mon_lock_ok_def l fifo_Lock_def)
  show "fst (fifo_Lock a l) = fst l" by (simp add: l fifo_Lock_def)
qed

lemma mon_lock_ok_free:
  assumes "mon_lock_ok l ph" "fst l = None" "p \<in> {MonChecking, MonInside}"
  shows "mon_lock_ok (fifo_Lock a l) (ph(a := p))"
  using assms by (cases l) (auto simp: mon_lock_ok_def fifo_Lock_def)

lemma mon_Lock_eq:
  assumes "mon_lock_ok (mon_lock m) (mon_phase m)" "mon_phase m a = MonIdle \<or> mon_phase m a = MonSleeping"
    and "p \<in> {MonLocking, MonRelocking}"
  shows "mon_Lock p a m = m\<lparr>mon_lock := fifo_Lock a (mon_lock m),
     mon_phase := (mon_phase m)(a := if fst (mon_lock m) = None then MonChecking else p)\<rparr>"
proof (cases "fst (mon_lock m)")
  case None
  then show ?thesis using assms(3) by (cases "mon_lock m") (auto simp: mon_Lock_def mon_settle_def fifo_Lock_def)
next
  case (Some h)
  then have "mon_phase m h = MonChecking \<or> mon_phase m h = MonInside" "h \<noteq> a"
    using mon_lock_okD(4) [OF assms(1)] assms(2) by auto
  then show ?thesis using Some by (cases "mon_lock m") (auto simp: mon_Lock_def mon_settle_def fifo_Lock_def)
qed

text \<open>Whoever suspends at the mutex leaves the owner alone; a popped awaiter no longer sleeps.\<close>

lemma mon_shape_Lock:
  assumes "mon_shape m cs ps'" "p \<in> {MonLocking, MonRelocking}"
    and "mon_phase m a = MonIdle \<and> 1 < a \<and> ps' = ps \<or> ps' = a # ps"
  shows "mon_shape (mon_Lock p a m) cs ps"
    "mon_phase m h = MonInside \<Longrightarrow> mon_phase (mon_Lock p a m) h = MonInside"
    "mon_data (mon_Lock p a m) = mon_data m" "mon_dirty (mon_Lock p a m) = mon_dirty m"
proof -
  have sl: "mon_phase m b = MonSleeping \<longleftrightarrow> b \<in> set cs \<union> set ps'" and big: "mon_phase m b \<noteq> MonIdle \<Longrightarrow> 1 < b" for b
    using assms(1) by (simp_all add: mon_shape_def)
  have l: "mon_lock_ok (mon_lock m) (mon_phase m)" and cv: "cv_waiters (mon_cv m) cs" and d: "distinct (cs @ ps')"
    using assms(1) by (simp_all add: mon_shape_def)
  have ph: "mon_phase m a = MonIdle \<or> mon_phase m a = MonSleeping" using assms(3) sl [of a] by auto
  have a: "1 < a" using assms(3) sl [of a] big [of a] by auto
  have out: "a \<notin> set cs" "a \<notin> set ps" using assms(3) sl [of a] d by auto
  note eq = mon_Lock_eq [OF l ph assms(2)]
  have "mon_lock_ok (mon_lock (mon_Lock p a m)) (mon_phase (mon_Lock p a m))"
    using mon_lock_ok_queue(1) [OF l ph assms(2)] mon_lock_ok_free [OF l, of MonChecking a] by (simp add: eq)
  moreover have "mon_phase (mon_Lock p a m) b = MonSleeping \<longleftrightarrow> b \<in> set cs \<union> set ps" for b
    using assms(2,3) sl [of b] out by (auto simp: eq)
  moreover have "mon_phase (mon_Lock p a m) b \<noteq> MonIdle \<Longrightarrow> 1 < b" for b
    using a big [of b] by (auto simp: eq split: if_splits)
  moreover have "distinct (cs @ ps)" using d assms(3) by auto
  ultimately show "mon_shape (mon_Lock p a m) cs ps" using cv by (simp add: mon_shape_def eq)
  show "mon_phase (mon_Lock p a m) h = MonInside" if "mon_phase m h = MonInside" using that ph by (auto simp: eq)
qed (use mon_Lock_eq in \<open>simp_all add: mon_Lock_def mon_settle_def split: option.splits\<close>)

lemma mon_shape_resumed:
  assumes "mon_shape m cs ws"
  shows "mon_shape (mon_resumed ws m) cs [] \<and> (mon_phase m h = MonInside \<longrightarrow> mon_phase (mon_resumed ws m) h = MonInside)
    \<and> mon_data (mon_resumed ws m) = mon_data m \<and> mon_dirty (mon_resumed ws m) = mon_dirty m"
  using assms
proof (induction ws arbitrary: m)
  case (Cons a ws)
  note lk = mon_shape_Lock [OF Cons.prems, of MonRelocking a ws]
  show ?case using Cons.IH [OF lk(1)] lk(2-4) by (simp add: mon_resumed_def)
qed (simp add: mon_resumed_def)

lemma mon_Unlock_owner:
  assumes "mon_lock_ok (mon_lock m) ph" "fst (mon_lock m) = Some a" "mon_phase m = ph(a := p)" "p = MonIdle \<or> p = MonSleeping"
  shows "mon_lock_ok (mon_lock (mon_Unlock m)) (mon_phase (mon_Unlock m))"
    "(mon_phase (mon_Unlock m) b = MonSleeping) = (mon_phase m b = MonSleeping)"
    "(mon_phase (mon_Unlock m) b = MonIdle) = (mon_phase m b = MonIdle)"
proof -
  obtain w where l: "mon_lock m = (Some a, w)" using assms(2) by (cases "mon_lock m") auto
  have "mon_lock_ok (mon_lock (mon_Unlock m)) (mon_phase (mon_Unlock m))
     \<and> (\<forall>b. mon_phase (mon_Unlock m) b = mon_phase m b
           \<or> (mon_phase m b = MonLocking \<or> mon_phase m b = MonRelocking) \<and> mon_phase (mon_Unlock m) b = MonChecking)"
    (is "?L \<and> (\<forall>b. ?P b)")
  proof (cases w)
    case Nil
    then show ?thesis using assms l by (auto simp: mon_Unlock_def mon_settle_def fifo_Unlock_def mon_lock_ok_def)
  next
    case (Cons c w')
    have c: "ph c = MonLocking \<or> ph c = MonRelocking" "c \<notin> set w'" using mon_lock_okD(2,3) [OF assms(1)] l Cons by auto
    have "ph a = MonChecking \<or> ph a = MonInside" using mon_lock_okD(4) [OF assms(1), of a] l by simp
    then have "c \<noteq> a" using c by auto
    then have u: "mon_lock (mon_Unlock m) = (Some c, w')" "mon_phase (mon_Unlock m) = ph(a := p, c := MonChecking)"
      using assms(3) c l Cons by (auto simp: mon_Unlock_def mon_settle_def fifo_Unlock_def)
    have mem: "x \<in> set (c # w') \<longleftrightarrow> ph x = MonLocking \<or> ph x = MonRelocking"
      and own: "x = a \<longleftrightarrow> ph x = MonChecking \<or> ph x = MonInside" for x
      using mon_lock_okD(3,4) [OF assms(1), of x] l Cons by auto
    have "(x \<in> set w') = (mon_phase (mon_Unlock m) x = MonLocking \<or> mon_phase (mon_Unlock m) x = MonRelocking)"
      "(c = x) = (mon_phase (mon_Unlock m) x = MonChecking \<or> mon_phase (mon_Unlock m) x = MonInside)" for x
      using mem [of x] own [of x] assms(4) c(2) \<open>c \<noteq> a\<close> unfolding u(2)
      by (cases "x = a"; cases "x = c"; auto)+
    moreover have "distinct w'" using mon_lock_okD(2) [OF assms(1)] l Cons by simp
    ultimately have ?L by (simp add: mon_lock_ok_def u(1))
    moreover have "?P b" for b using c(1) \<open>c \<noteq> a\<close> unfolding u(2) assms(3) by (cases "b = c") auto
    ultimately show ?thesis by blast
  qed
  then have L: ?L and b: "?P b" by simp_all
  show ?L by (rule L)
  show "(mon_phase (mon_Unlock m) b = MonSleeping) = (mon_phase m b = MonSleeping)"
    "(mon_phase (mon_Unlock m) b = MonIdle) = (mon_phase m b = MonIdle)"
    using b by auto
qed

lemma mon_Unlock_keeps: "mon_cv (mon_Unlock m) = mon_cv m" "mon_data (mon_Unlock m) = mon_data m" "mon_dirty (mon_Unlock m) = mon_dirty m"
  by (simp_all add: mon_Unlock_def mon_settle_def split: option.splits)

lemma mon_shapeD:
  assumes "mon_shape m cs []"
  shows "mon_phase m a \<noteq> MonIdle \<Longrightarrow> 1 < a" "a \<in> set cs \<longleftrightarrow> mon_phase m a = MonSleeping"
  using assms by (simp_all add: mon_shape_def)

lemma mon_inv_owner: "mon_inv cond m \<Longrightarrow> mon_phase m a = MonChecking \<or> mon_phase m a = MonInside \<longleftrightarrow> fst (mon_lock m) = Some a"
  using mon_lock_okD(4) [of "mon_lock m" "mon_phase m" a] by (auto simp: mon_inv_def mon_shape_def simp del: split_paired_All)

section \<open>Every step keeps the invariant\<close>

lemma mon_inv_Unlock:
  assumes "mon_shape m0 cs0 []" "fst (mon_lock m0) = Some a" "mon_lock m = mon_lock m0" "mon_phase m = (mon_phase m0)(a := p)"
    and "p = MonIdle \<and> cs = cs0 \<or> p = MonSleeping \<and> cs = a # cs0" "cv_waiters (mon_cv m) cs"
  shows "mon_shape (mon_Unlock m) cs []" "(mon_phase (mon_Unlock m) b = MonSleeping) = (mon_phase m b = MonSleeping)"
proof -
  have l: "mon_lock_ok (mon_lock m) (mon_phase m0)" using assms(1,3) by (simp add: mon_shape_def)
  have own: "fst (mon_lock m) = Some a" using assms(2,3) by simp
  have p: "p = MonIdle \<or> p = MonSleeping" using assms(5) by auto
  note u = mon_Unlock_owner [OF l own assms(4) p]
  have "mon_phase m0 a = MonChecking \<or> mon_phase m0 a = MonInside" using mon_lock_okD(4) [OF l, of a] own by blast
  then have "1 < a" "a \<notin> set cs0" using mon_shapeD [OF assms(1), of a] by auto
  then have "mon_phase (mon_Unlock m) c = MonSleeping \<longleftrightarrow> c \<in> set cs" "mon_phase (mon_Unlock m) c \<noteq> MonIdle \<longrightarrow> 1 < c" for c
    using assms(1,5) u(2,3) [of c] by (auto simp: assms(4) mon_shape_def)
  moreover have "distinct cs" using assms(6) by (simp add: cv_waiters_def)
  ultimately show "mon_shape (mon_Unlock m) cs []" using u(1) assms(6) by (simp add: mon_shape_def mon_Unlock_keeps)
  show "(mon_phase (mon_Unlock m) b = MonSleeping) = (mon_phase m b = MonSleeping)" by (rule u(2))
qed

lemma mon_inv_check:
  assumes "mon_inv cond m" "mon_phase m a = MonChecking"
  shows "mon_inv cond (Wait_turn cond a m)"
proof -
  obtain cs where cs: "mon_shape m cs []" using assms(1) by (auto simp: mon_inv_def)
  have own: "fst (mon_lock m) = Some a" using mon_inv_owner [OF assms(1), of a] assms(2) by simp
  have clean: "\<not> mon_dirty m"
  proof
    assume "mon_dirty m"
    then obtain b where b: "mon_phase m b = MonInside" using assms(1) by (auto simp: mon_inv_def)
    then have "a = b" using mon_inv_owner [OF assms(1), of b] own by simp
    then show False using b assms(2) by simp
  qed
  show ?thesis
  proof (cases "cond a (mon_data m)")
    case True
    have "mon_shape (m\<lparr>mon_phase := (mon_phase m)(a := MonInside)\<rparr>) cs []"
      using cs assms(2) mon_shapeD(2) [OF cs, of a] by (auto simp: mon_shape_def mon_lock_ok_def)
    then show ?thesis using True assms(1) clean by (auto simp: Wait_turn_def mon_inv_def)
  next
    case False
    let ?m = "m\<lparr>mon_cv := cv_suspend a (mon_cv m), mon_phase := (mon_phase m)(a := MonSleeping)\<rparr>"
    have "1 < a" "a \<notin> set cs" using mon_shapeD [OF cs, of a] assms(2) by auto
    then have "cv_waiters (mon_cv ?m) (a # cs)" using cs by (simp add: mon_shape_def cv_suspend_waiters)
    then have "mon_shape (mon_Unlock ?m) (a # cs) []"
      using mon_inv_Unlock(1) [OF cs own, of ?m MonSleeping "a # cs"] by simp
    moreover have "mon_phase (mon_Unlock ?m) b = MonSleeping \<Longrightarrow> b = a \<or> mon_phase m b = MonSleeping" for b
      using mon_shapeD(2) [OF \<open>mon_shape (mon_Unlock ?m) (a # cs) []\<close>, of b] mon_shapeD(2) [OF cs, of b] by auto
    moreover have "mon_dirty (mon_Unlock ?m) = mon_dirty m" "mon_data (mon_Unlock ?m) = mon_data m"
      by (simp_all add: mon_Unlock_keeps)
    ultimately have "mon_inv cond (mon_Unlock ?m)" using False clean assms(1) unfolding mon_inv_def by metis
    then show ?thesis using False by (simp add: Wait_turn_def)
  qed
qed

lemma mon_shape_NotifyAll:
  assumes "mon_shape m cs []"
  shows "mon_shape (mon_NotifyAll m) [] []" "mon_dirty (mon_NotifyAll m) = False"
    "mon_phase m h = MonInside \<Longrightarrow> mon_phase (mon_NotifyAll m) h = MonInside"
proof -
  let ?cv = "fold (\<lambda>_ s. s) cs (mon_cv m\<lparr>cv_head := 0\<rparr>)"
  have "cv_waiters (mon_cv m) cs" using assms by (simp add: mon_shape_def)
  then have na: "mon_NotifyAll m = mon_resumed cs (m\<lparr>mon_cv := ?cv, mon_dirty := False\<rparr>)"
    by (simp add: mon_NotifyAll_def NotifyAll_everyone keeps_links_def)
  have "?cv = mon_cv m\<lparr>cv_head := 0\<rparr>" by (induction cs) simp_all
  then have "mon_shape (m\<lparr>mon_cv := ?cv, mon_dirty := False\<rparr>) [] cs" using assms by (simp add: mon_shape_def cv_waiters_def)
  from mon_shape_resumed [OF this, of h] show "mon_shape (mon_NotifyAll m) [] []" "mon_dirty (mon_NotifyAll m) = False"
    "mon_phase m h = MonInside \<Longrightarrow> mon_phase (mon_NotifyAll m) h = MonInside"
    by (simp_all add: na)
qed

lemma mon_shape_NotifyOne:
  assumes "mon_shape m cs []"
  shows "mon_shape (mon_NotifyOne m) (tl cs) []" "mon_dirty (mon_NotifyOne m) = mon_dirty m" "mon_data (mon_NotifyOne m) = mon_data m"
    "mon_phase m h = MonInside \<Longrightarrow> mon_phase (mon_NotifyOne m) h = MonInside"
proof -
  let ?cv = "snd (NotifyOne (\<lambda>_ s. s) (mon_cv m))"
  have "cv_waiters (mon_cv m) cs" using assms by (simp add: mon_shape_def)
  then have "fst (NotifyOne (\<lambda>_ s. s) (mon_cv m)) = (if cs = [] then None else Some (hd cs))" "cv_waiters ?cv (tl cs)"
    by (cases cs; auto simp: NotifyOne_def cv_waiters_def Let_def)+
  moreover from this have "mon_shape (m\<lparr>mon_cv := ?cv\<rparr>) (tl cs) (take 1 cs)" using assms by (cases cs) (auto simp: mon_shape_def)
  ultimately show "mon_shape (mon_NotifyOne m) (tl cs) []" "mon_dirty (mon_NotifyOne m) = mon_dirty m"
    "mon_data (mon_NotifyOne m) = mon_data m" "mon_phase m h = MonInside \<Longrightarrow> mon_phase (mon_NotifyOne m) h = MonInside"
    using mon_shape_resumed [of "m\<lparr>mon_cv := ?cv\<rparr>" "tl cs" "take 1 cs" h]
    by (cases cs; simp add: mon_NotifyOne_def case_prod_unfold)+
qed

lemma mon_inv_step: "mon_step cond m m' \<Longrightarrow> mon_inv cond m \<Longrightarrow> mon_inv cond m'"
proof (induction rule: mon_step.induct)
  case (enter a m)
  obtain cs where cs: "mon_shape m cs []" using enter.prems by (auto simp: mon_inv_def)
  note lk = mon_shape_Lock [OF cs, of MonLocking a "[]"]
  have p: "MonLocking \<in> {MonLocking, MonRelocking}" "mon_phase m a = MonIdle \<and> 1 < a \<and> [] = [] \<or> [] = a # []" using enter.hyps by simp_all
  have "mon_phase (mon_Lock MonLocking a m) b = MonSleeping \<Longrightarrow> mon_phase m b = MonSleeping" for b
    using mon_shapeD(2) [OF lk(1) [OF p]] mon_shapeD(2) [OF cs] by simp
  then show ?case using lk [OF p] enter.prems unfolding mon_inv_def by metis
next
  case (check m a)
  then show ?case by (rule mon_inv_check [rotated])
next
  case (change m a d)
  then show ?case by (auto simp: mon_inv_def mon_shape_def)
next
  case (notify_one m a)
  obtain cs where cs: "mon_shape m cs []" using notify_one.prems by (auto simp: mon_inv_def)
  note n = mon_shape_NotifyOne [OF cs]
  have "mon_phase (mon_NotifyOne m) b = MonSleeping \<Longrightarrow> mon_phase m b = MonSleeping" for b
    using mon_shapeD(2) [OF n(1), of b] mon_shapeD(2) [OF cs, of b] by (cases cs) auto
  then show ?case using n notify_one unfolding mon_inv_def by metis
next
  case (notify_all m a)
  obtain cs where cs: "mon_shape m cs []" using notify_all.prems by (auto simp: mon_inv_def)
  note n = mon_shape_NotifyAll [OF cs]
  have "mon_phase (mon_NotifyAll m) b \<noteq> MonSleeping" for b using mon_shapeD(2) [OF n(1), of b] by simp
  then show ?case using n(1,2) unfolding mon_inv_def by blast
next
  case (leave m a)
  obtain cs where cs: "mon_shape m cs []" using leave.prems by (auto simp: mon_inv_def)
  let ?m = "m\<lparr>mon_phase := (mon_phase m)(a := MonIdle)\<rparr>"
  have own: "fst (mon_lock m) = Some a" using mon_inv_owner [OF leave.prems, of a] leave.hyps(1) by simp
  have cv: "cv_waiters (mon_cv m) cs" using cs by (simp add: mon_shape_def)
  have "mon_shape (mon_Unlock ?m) cs []" "mon_phase (mon_Unlock ?m) b = MonSleeping \<Longrightarrow> mon_phase m b = MonSleeping" for b
    using mon_inv_Unlock [OF cs own, of ?m MonIdle cs] cv by (auto split: if_splits)
  then show ?case using leave unfolding mon_inv_def mon_Unlock_keeps by auto
qed

lemma mon_inv_init: "mon_inv cond (monitor_init d)"
proof -
  have "mon_shape (monitor_init d) [] []" by (simp add: mon_shape_def monitor_init_def mon_lock_ok_def cv_waiters_init)
  then show ?thesis unfolding mon_inv_def by (auto simp: monitor_init_def)
qed

lemma mon_reachable_inv: "mon_reachable cond d m \<Longrightarrow> mon_inv cond m"
  unfolding mon_reachable_def by (induction rule: rtranclp_induct) (auto intro: mon_inv_init mon_inv_step)

section \<open>Properties\<close>


text \<open>A consumer (2) that waits for an item and a producer (3): the consumer sleeps, the producer adds an item and notifies.\<close>

definition mon_demo_cond :: "nat \<Rightarrow> nat \<Rightarrow> bool" where
  "mon_demo_cond a items \<longleftrightarrow> a = 3 \<or> 0 < items"

definition mon_demo :: "nat monitor" where
  "mon_demo = Wait_turn mon_demo_cond 3 (mon_Lock MonLocking 3 (Wait_turn mon_demo_cond 2 (mon_Lock MonLocking 2 (monitor_init 0))))"

definition mon_demo_end :: "nat monitor" where
  "mon_demo_end = (let n = mon_NotifyAll (mon_demo\<lparr>mon_data := 1, mon_dirty := True\<rparr>);
     u = Wait_turn mon_demo_cond 2 (mon_Unlock (n\<lparr>mon_phase := (mon_phase n)(3 := MonIdle)\<rparr>))
   in mon_Unlock (u\<lparr>mon_phase := (mon_phase u)(2 := MonIdle)\<rparr>))"

lemmas mon_eval = mon_demo_end_def mon_demo_def mon_demo_cond_def Wait_turn_def mon_Lock_def mon_Unlock_def mon_settle_def fifo_Lock_def
  fifo_Unlock_def monitor_init_def mon_NotifyAll_def NotifyAll_def mon_resumed_def notify_loop.simps cv_suspend_def cv_init_def Let_def

lemma mon_reachable_start: "mon_reachable cond d (monitor_init d)"
  by (simp add: mon_reachable_def)

lemma mon_reachable_step: "mon_reachable cond d m \<Longrightarrow> mon_step cond m m' \<Longrightarrow> mon_reachable cond d m'"
  by (simp add: mon_reachable_def)

lemma mon_demo_reachable: "mon_reachable mon_demo_cond 0 mon_demo"
  unfolding mon_demo_def
proof (intro mon_reachable_step [OF _ mon_step.check] mon_reachable_step [OF _ mon_step.enter])
  show "mon_reachable mon_demo_cond 0 (monitor_init 0)" by (rule mon_reachable_start)
qed (simp_all add: mon_eval)

lemma mon_demo_end_reachable: "mon_reachable mon_demo_cond 0 mon_demo_end"
proof -
  let ?c = "mon_demo\<lparr>mon_data := 1, mon_dirty := True\<rparr>"
  let ?n = "mon_NotifyAll ?c"
  let ?u = "mon_Unlock (?n\<lparr>mon_phase := (mon_phase ?n)(3 := MonIdle)\<rparr>)"
  let ?w = "Wait_turn mon_demo_cond 2 ?u"
  have "mon_reachable mon_demo_cond 0 ?c"
    by (rule mon_reachable_step [OF mon_demo_reachable mon_step.change [of _ 3]]) (simp add: mon_eval)
  then have "mon_reachable mon_demo_cond 0 ?n"
    by (rule mon_reachable_step [OF _ mon_step.notify_all [of _ 3]]) (simp add: mon_eval)
  then have "mon_reachable mon_demo_cond 0 ?u" by (rule mon_reachable_step [OF _ mon_step.leave]) (simp_all add: mon_eval)
  then have "mon_reachable mon_demo_cond 0 ?w" by (rule mon_reachable_step [OF _ mon_step.check]) (simp add: mon_eval)
  then show ?thesis unfolding mon_demo_end_def Let_def
    by (rule mon_reachable_step [OF _ mon_step.leave]) (simp_all add: mon_eval)
qed


end
