(* ===== verification/Crypto.thy ===== *)
theory Crypto
  imports Prelude
begin

text \<open>
  \<open>cold/util/Crypto.h\<close>: \<open>Base64Encode\<close> and \<open>Base64Decode\<close> on byte strings. \<open>packed\<close> is kept
  at its width: \<open>unsigned int\<close> (32 bits) in the encoder, \<open>size_t\<close> (64 bits) in the decoder.
  \<open>SHA1\<close> is OpenSSL's and stays a parameter of its clients.
\<close>

definition kBase64 :: string where
  "kBase64 = ''ABCDEFGHIJKLMNOPQRSTUVWXYZabcdefghijklmnopqrstuvwxyz0123456789+/''"

definition byte_char :: "byte \<Rightarrow> char" where
  "byte_char b = char_of (unat b)"

definition char_byte :: "char \<Rightarrow> byte" where
  "char_byte c = of_char c"

lemma of_char_word: "(of_char c :: 'a::len word) = word_of_nat (of_char c)"
  by (simp only: of_nat_of_char)

lemma char_byte_char [simp]: "char_byte (byte_char b) = b"
proof -
  have "unat b < 256" using unsigned_less [of b, where 'a = nat] by simp
  then show ?thesis
    unfolding char_byte_def byte_char_def of_char_word by (simp add: of_char_of)
qed

lemma byte_char_byte [simp]: "byte_char (char_byte c) = c"
proof -
  have "(of_char c :: nat) < 256" by simp
  then have "unat (char_byte c) = of_char c"
    unfolding char_byte_def of_char_word by (simp add: unsigned_of_nat take_bit_nat_eq_self)
  then show ?thesis by (simp add: byte_char_def)
qed

section \<open>Encoding\<close>

fun pack_bytes :: "32 word \<Rightarrow> byte list \<Rightarrow> 32 word" where
  "pack_bytes packed [] = packed"
| "pack_bytes packed (b # bs) = pack_bytes (push_bit 8 packed OR ucast b) bs"

fun shift_up :: "nat \<Rightarrow> 32 word \<Rightarrow> 32 word" where
  "shift_up 0 packed = packed"
| "shift_up (Suc k) packed = shift_up k (push_bit 8 packed)"

definition b64_digit :: "32 word \<Rightarrow> char" where
  "b64_digit w = kBase64 ! unat w"

definition encode_chunk :: "byte list \<Rightarrow> string" where
  "encode_chunk chunk =
     (let i = length chunk;
          padding = (if i = 2 then 1 else if i = 1 then 2 else 0);
          packed = shift_up (3 - i) (pack_bytes 0 chunk)
      in [b64_digit (drop_bit 18 packed), b64_digit (drop_bit 12 packed AND 0x3f)]
         @ (if padding \<noteq> 2 then [b64_digit (drop_bit 6 packed AND 0x3f)] else [])
         @ (if padding = 0 then [b64_digit (packed AND 0x3f)] else [])
         @ replicate padding (CHR ''=''))"

function Base64Encode :: "byte list \<Rightarrow> string" where
  "Base64Encode ptr =
     (if ptr = [] then [] else encode_chunk (take 3 ptr) @ Base64Encode (drop 3 ptr))"
  by pat_completeness auto
termination
  by (relation "measure length") auto

declare Base64Encode.simps [simp del]

section \<open>Decoding\<close>

definition b64_val :: "char \<Rightarrow> 64 word option" where
  "b64_val c =
     (let n = (of_char c :: nat) in
      if 65 \<le> n \<and> n \<le> 90 then Some (of_nat (n - 65))
      else if 97 \<le> n \<and> n \<le> 122 then Some (of_nat (n - 97 + 26))
      else if 48 \<le> n \<and> n \<le> 57 then Some (of_nat (n - 48 + 52))
      else if c = CHR ''+'' then Some 62
      else if c = CHR ''/'' then Some 63
      else None)"

text \<open>The inner loop: \<open>None\<close> is \<open>return ""\<close>, otherwise \<open>(i, padding, packed, ptr)\<close>.\<close>

fun b64_quad :: "nat \<Rightarrow> nat \<Rightarrow> 64 word \<Rightarrow> string \<Rightarrow> (nat \<times> nat \<times> 64 word \<times> string) option" where
  "b64_quad i padding packed [] = Some (i, padding, packed, [])"
| "b64_quad i padding packed (c # ptr) =
     (if \<not> i < 4 then Some (i, padding, packed, c # ptr)
      else if c = CHR ''='' then b64_quad (Suc i) (Suc padding) (push_bit 6 packed) ptr
      else if padding > 0 then None
      else (case b64_val c of
              None \<Rightarrow> None
            | Some val \<Rightarrow> b64_quad (Suc i) padding (push_bit 6 packed OR val) ptr))"

definition quad_bytes :: "nat \<Rightarrow> 64 word \<Rightarrow> byte list" where
  "quad_bytes padding packed =
     [ucast (drop_bit 16 packed AND 0xff)]
     @ (if padding \<noteq> 2 then [ucast (drop_bit 8 packed AND 0xff)] else [])
     @ (if padding = 0 then [ucast (packed AND 0xff)] else [])"

lemma b64_quad_length:
  "b64_quad i padding packed ptr = Some (i', padding', packed', ptr') \<Longrightarrow>
   length ptr' + i' = length ptr + i \<and> length ptr' \<le> length ptr \<and> (i \<le> 4 \<longrightarrow> i' \<le> 4)"
  by (induction i padding packed ptr rule: b64_quad.induct)
     (auto split: if_splits option.splits)

text \<open>The outer loop; \<open>written\<close> is what \<open>writeBuf\<close> has been given so far.\<close>

function decode_loop :: "byte list \<Rightarrow> string \<Rightarrow> byte list" where
  "decode_loop written ptr =
     (if ptr = [] then written
      else case b64_quad 0 0 0 ptr of
             None \<Rightarrow> []
           | Some (i, padding, packed, ptr') \<Rightarrow>
               if i \<noteq> 4 then []
               else if padding > 0 \<and> ptr' \<noteq> [] then []
               else if padding > 2 then []
               else decode_loop (written @ quad_bytes padding packed) ptr')"
  by pat_completeness auto
termination
  by (relation "measure (\<lambda>(_, ptr). length ptr)") (auto dest: b64_quad_length)

declare decode_loop.simps [simp del]

definition Base64Decode :: "string \<Rightarrow> byte list" where
  "Base64Decode input = decode_loop [] input"

section \<open>Memory bound of the decoder\<close>

lemma quad_bytes_length: "length (quad_bytes padding packed) \<le> 3"
  by (simp add: quad_bytes_def)

lemma decode_loop_length:
  "length (decode_loop written ptr) \<le> length written + length ptr * 3 div 4"
proof (induction written ptr rule: decode_loop.induct)
  case (1 written ptr)
  show ?case
  proof (cases "b64_quad 0 0 0 ptr")
    case None
    then show ?thesis by (subst decode_loop.simps) simp
  next
    case (Some r)
    obtain i padding packed ptr' where r: "r = (i, padding, packed, ptr')" by (cases r)
    have len: "length ptr' + i = length ptr"
      using b64_quad_length Some r by fastforce
    show ?thesis
    proof (cases "ptr \<noteq> [] \<and> i = 4 \<and> \<not> (padding > 0 \<and> ptr' \<noteq> []) \<and> \<not> padding > 2")
      case True
      then have "decode_loop written ptr = decode_loop (written @ quad_bytes padding packed) ptr'"
        using Some by (subst decode_loop.simps) (auto simp: r)
      also have "length \<dots> \<le> length (written @ quad_bytes padding packed) + length ptr' * 3 div 4"
        using 1 True Some r by (metis (no_types, lifting))
      also have "\<dots> \<le> length written + length ptr * 3 div 4"
        using quad_bytes_length [of padding packed] len True by simp
      finally show ?thesis .
    next
      case False
      then show ?thesis
        using Some by (subst decode_loop.simps) (auto simp: r)
    qed
  qed
qed

section \<open>Round trip\<close>

lemma mask63: "(0x3f :: 'a::len word) = mask 6"
  by (simp add: mask_eq_exp_minus_1)

lemma mask255: "(0xff :: 'a::len word) = mask 8"
  by (simp add: mask_eq_exp_minus_1)

text \<open>The 24 bits of a chunk, at either width.\<close>

definition pack24 :: "byte \<Rightarrow> byte \<Rightarrow> byte \<Rightarrow> 'a::len word" where
  "pack24 a b c = push_bit 16 (ucast a) OR push_bit 8 (ucast b) OR ucast c"

lemma pack_chunks:
  "shift_up 0 (pack_bytes 0 [a, b, c]) = pack24 a b c"
  "shift_up 1 (pack_bytes 0 [a, b]) = pack24 a b 0"
  "shift_up 2 (pack_bytes 0 [a]) = pack24 a 0 0"
  by (simp_all add: pack24_def push_bit_or or.assoc numeral_2_eq_2)

lemma pack24_high: "24 \<le> n \<Longrightarrow> \<not> bit (pack24 a b c :: 32 word) n"
  by (auto simp: pack24_def bit_simps byte_bit_high)

lemma ucast_pack24: "(ucast (pack24 a b c :: 32 word) :: 64 word) = pack24 a b c"
proof (rule bit_word_eqI)
  fix n
  assume "n < LENGTH(64)"
  show "bit (ucast (pack24 a b c :: 32 word) :: 64 word) n = bit (pack24 a b c :: 64 word) n"
    by (cases "n < 32") (auto simp: pack24_def bit_simps byte_bit_high)
qed

lemma unpack24:
  "ucast (drop_bit 16 (pack24 a b c :: 64 word) AND 0xff) = a"
  "ucast (drop_bit 8 (pack24 a b c :: 64 word) AND 0xff) = b"
  "ucast ((pack24 a b c :: 64 word) AND 0xff) = c"
  unfolding mask255 pack24_def
  by (rule bit_word_eqI; auto simp: bit_simps byte_bit_high)+

text \<open>The four 6-bit groups of 24 bits, shifted back together.\<close>

definition sextets :: "32 word \<Rightarrow> 32 word list" where
  "sextets P = [drop_bit 18 P, drop_bit 12 P AND 0x3f, drop_bit 6 P AND 0x3f, P AND 0x3f]"

definition join_sextets :: "64 word \<Rightarrow> 64 word \<Rightarrow> 64 word \<Rightarrow> 64 word \<Rightarrow> 64 word" where
  "join_sextets v0 v1 v2 v3 =
     push_bit 6 (push_bit 6 (push_bit 6 v0 OR v1) OR v2) OR v3"

lemma join_sextets_split:
  assumes "\<And>n. 24 \<le> n \<Longrightarrow> \<not> bit P n"
  shows "join_sextets (ucast (drop_bit 18 P)) (ucast (drop_bit 12 P AND 0x3f))
           (ucast (drop_bit 6 P AND 0x3f)) (ucast (P AND 0x3f)) = ucast (P :: 32 word)" (is "?l = ?r")
proof (rule bit_word_eqI)
  fix n
  assume n: "n < LENGTH(64)"
  consider "n < 6" | "6 \<le> n" "n < 12" | "12 \<le> n" "n < 18" | "18 \<le> n" "n < 24" | "24 \<le> n"
    by linarith
  then show "bit ?l n = bit ?r n"
    unfolding mask63 join_sextets_def
    by cases (use assms n in \<open>simp_all add: bit_simps, auto\<close>)
qed

lemma sextets_small:
  assumes "\<And>n. 24 \<le> n \<Longrightarrow> \<not> bit P n" and "w \<in> set (sextets P)"
  shows "unat w < 64"
proof -
  have "\<not> bit (drop_bit 18 P) n" if "6 \<le> n" for n
    using assms(1) [of "18 + n"] that by (simp add: bit_simps)
  then have "bit (take_bit 6 (drop_bit 18 P)) n = bit (drop_bit 18 P) n" for n
    by (cases "n < 6") (auto simp: bit_take_bit_iff)
  then have "take_bit 6 (drop_bit 18 P) = drop_bit 18 P"
    by (intro bit_word_eqI) simp
  then have "w = take_bit 6 w"
    using assms(2) by (auto simp: sextets_def mask63 take_bit_eq_mask and.assoc)
  then have "unat w = take_bit 6 (unat w)" by (metis unsigned_take_bit_eq)
  also have "\<dots> < 2 ^ 6" by (rule take_bit_nat_less_exp)
  finally show ?thesis by simp
qed

lemma kBase64_vals: "map b64_val kBase64 = map (\<lambda>n. Some (of_nat n)) [0..<64]"
  by (simp add: kBase64_def b64_val_def upt_rec)

lemma kBase64_no_pad: "CHR ''='' \<notin> set kBase64"
  by (simp add: kBase64_def)

lemma kBase64_length: "length kBase64 = 64"
  by (simp add: kBase64_def)

lemma b64_val_digit:
  assumes "unat w < 64"
  shows "b64_val (b64_digit w) = Some (ucast w)" and "b64_digit w \<noteq> CHR ''=''"
proof -
  have "b64_val (kBase64 ! unat w) = map b64_val kBase64 ! unat w"
    using assms by (simp add: kBase64_length)
  also have "\<dots> = Some (of_nat (unat w))"
    unfolding kBase64_vals using assms by simp
  also have "of_nat (unat w) = (ucast w :: 64 word)"
    by simp
  finally show "b64_val (b64_digit w) = Some (ucast w)"
    by (simp only: b64_digit_def)
  have "kBase64 ! unat w \<in> set kBase64"
    using assms by (simp add: kBase64_length)
  then show "b64_digit w \<noteq> CHR ''=''"
    using kBase64_no_pad by (auto simp: b64_digit_def)
qed

lemma b64_quad_stop: "b64_quad 4 padding packed rest = Some (4, padding, packed, rest)"
    "b64_quad (Suc (Suc (Suc (Suc 0)))) padding packed rest = Some (4, padding, packed, rest)"
  by (cases rest; simp)+

lemma b64_quad_digit:
  assumes "unat w < 64" and "i < 4"
  shows "b64_quad i 0 packed (b64_digit w # rest) = b64_quad (Suc i) 0 (push_bit 6 packed OR ucast w) rest"
  using assms b64_val_digit [of w] by simp

lemma b64_quad_pad:
  "i < 4 \<Longrightarrow> b64_quad i padding packed (CHR ''='' # rest)
     = b64_quad (Suc i) (Suc padding) (push_bit 6 packed) rest"
  by simp

lemma b64_quad_digits:
  assumes "unat w0 < 64" "unat w1 < 64" "unat w2 < 64" "unat w3 < 64"
  shows "b64_quad 0 0 0 (map b64_digit [w0, w1, w2, w3] @ rest)
           = Some (4, 0, join_sextets (ucast w0) (ucast w1) (ucast w2) (ucast w3), rest)"
    and "b64_quad 0 0 0 (map b64_digit [w0, w1, w2] @ ''='' @ rest)
           = Some (4, 1, join_sextets (ucast w0) (ucast w1) (ucast w2) 0, rest)"
    and "b64_quad 0 0 0 (map b64_digit [w0, w1] @ ''=='' @ rest)
           = Some (4, 2, join_sextets (ucast w0) (ucast w1) 0 0, rest)"
  using assms
  by (simp_all add: b64_quad_digit b64_quad_pad b64_quad_stop join_sextets_def
        del: b64_quad.simps(2))

lemma encode_chunks:
  "encode_chunk [a, b, c] = map b64_digit (sextets (pack24 a b c))"
  "encode_chunk [a, b] = map b64_digit (take 3 (sextets (pack24 a b 0))) @ ''=''"
  "encode_chunk [a] = map b64_digit (take 2 (sextets (pack24 a 0 0))) @ ''==''"
  using pack_chunks(1) [of a b c] pack_chunks(2) [of a b] pack_chunks(3) [of a]
  by (simp_all add: encode_chunk_def sextets_def Let_def numeral_2_eq_2)

lemma pack24_low:
  "(pack24 a b 0 :: 32 word) AND 0x3f = 0"
  "(pack24 a 0 0 :: 32 word) AND 0x3f = 0"
  "drop_bit 6 (pack24 a 0 0 :: 32 word) AND 0x3f = 0"
  unfolding mask63 pack24_def
  by (rule bit_word_eqI; auto simp: bit_simps byte_bit_high)+

lemma join_pack24:
  "join_sextets (ucast (drop_bit 18 (pack24 a b c :: 32 word)))
     (ucast (drop_bit 12 (pack24 a b c :: 32 word) AND 0x3f))
     (ucast (drop_bit 6 (pack24 a b c :: 32 word) AND 0x3f))
     (ucast ((pack24 a b c :: 32 word) AND 0x3f)) = pack24 a b c"
  using join_sextets_split [OF pack24_high] by (simp add: ucast_pack24)

lemma decode_chunk:
  assumes "chunk \<noteq> []" and "length chunk \<le> 3"
  shows "\<exists>packed. b64_quad 0 0 0 (encode_chunk chunk @ rest) = Some (4, 3 - length chunk, packed, rest)
           \<and> quad_bytes (3 - length chunk) packed = chunk"
proof -
  have small: "unat (drop_bit 18 (pack24 a b c :: 32 word)) < 64"
      "unat (drop_bit 12 (pack24 a b c :: 32 word) AND 0x3f) < 64"
      "unat (drop_bit 6 (pack24 a b c :: 32 word) AND 0x3f) < 64"
      "unat ((pack24 a b c :: 32 word) AND 0x3f) < 64" for a b c
    by (rule sextets_small [OF pack24_high [of _ a b c]]; simp add: sextets_def)+
  note quads = b64_quad_digits [OF small]
  consider a b c where "chunk = [a, b, c]" | a b where "chunk = [a, b]" | a where "chunk = [a]"
    using assms by (auto simp: length_Suc_conv le_Suc_eq numeral_3_eq_3)
  then show ?thesis
  proof cases
    case 1
    with quads(1) [of a b c a b c a b c a b c rest] join_pack24 [of a b c] show ?thesis
      by (simp add: encode_chunks sextets_def quad_bytes_def unpack24)
  next
    case 2
    with quads(2) [of a b 0 a b 0 a b 0 rest] join_pack24 [of a b 0] show ?thesis
      by (simp add: encode_chunks sextets_def quad_bytes_def unpack24 pack24_low numeral_2_eq_2)
  next
    case 3
    with quads(3) [of a 0 0 a 0 0 rest] join_pack24 [of a 0 0] show ?thesis
      by (simp add: encode_chunks sextets_def quad_bytes_def unpack24 pack24_low numeral_2_eq_2)
  qed
qed

lemma decode_encode_loop:
  "decode_loop written (Base64Encode bs) = written @ bs"
proof (induction bs arbitrary: written rule: Base64Encode.induct)
  case (1 bs)
  show ?case
  proof (cases "bs = []")
    case True
    then show ?thesis by (simp add: Base64Encode.simps decode_loop.simps)
  next
    case False
    let ?chunk = "take 3 bs" and ?rest = "Base64Encode (drop 3 bs)"
    have enc: "Base64Encode bs = encode_chunk ?chunk @ ?rest"
      using False by (subst Base64Encode.simps) simp
    have tail: "length ?chunk < 3 \<longrightarrow> ?rest = []"
      by (subst Base64Encode.simps) simp
    obtain packed where quad:
        "b64_quad 0 0 0 (encode_chunk ?chunk @ ?rest) = Some (4, 3 - length ?chunk, packed, ?rest)"
        "quad_bytes (3 - length ?chunk) packed = ?chunk"
      using decode_chunk [of ?chunk ?rest] False by auto
    have "encode_chunk ?chunk @ ?rest \<noteq> []"
      by (simp add: encode_chunk_def Let_def)
    moreover have "\<not> 3 - length ?chunk > 2"
      using False by (cases bs) auto
    moreover have "\<not> (3 - length ?chunk > 0 \<and> ?rest \<noteq> [])"
      using tail by auto
    ultimately have "decode_loop written (Base64Encode bs) = decode_loop (written @ ?chunk) ?rest"
      unfolding enc using quad
      by (subst decode_loop.simps) (simp only: option.case prod.case if_False if_True simp_thms)
    also have "\<dots> = (written @ ?chunk) @ drop 3 bs"
      by (rule 1) (rule False)
    finally show ?thesis by simp
  qed
qed

section \<open>Properties\<close>

text \<open>Base64 round trip: decoding what \<open>Base64Encode\<close> produced gives back the bytes, for
  every input, padding included.\<close>

theorem Base64_roundtrip: "Base64Decode (Base64Encode bs) = bs"
  by (simp add: Base64Decode_def decode_encode_loop)

text \<open>What \<open>Base64Decode\<close> has written when it returns its result fits the buffer of
  \<open>input.size() * 3 / 4\<close> bytes it allocated, for every input.\<close>

theorem Base64Decode_buffer_bound: "length (Base64Decode s) \<le> length s * 3 div 4"
  unfolding Base64Decode_def using decode_loop_length [of "[]" s] by simp

end
