(* ===== verification/Endian.thy ===== *)
theory Endian
  imports Prelude
begin

text \<open>
  \<open>cold/net/Endian.h\<close> and the way the code moves integers through memory: \<open>load_le\<close> and
  \<open>store_le\<close> are the memory image of an integer on a little-endian host, and the conversions to
  and from network order reverse it. The lemmas show that they are inverse to each other, and
  what the composition with a load or a store reads and writes.
\<close>

fun load_le :: "byte list \<Rightarrow> 'a::len word" where
  "load_le [] = 0"
| "load_le (b # bs) = ucast b OR push_bit 8 (load_le bs)"

fun store_le :: "nat \<Rightarrow> 'a::len word \<Rightarrow> byte list" where
  "store_le 0 w = []"
| "store_le (Suc n) w = ucast w # store_le n (drop_bit 8 w)"

definition Host16ToNetwork16 :: "16 word \<Rightarrow> 16 word" where
  "Host16ToNetwork16 v = load_le (rev (store_le 2 v))"

definition Network16ToHost16 :: "16 word \<Rightarrow> 16 word" where
  "Network16ToHost16 v = load_le (rev (store_le 2 v))"

definition Host32ToNetwork32 :: "32 word \<Rightarrow> 32 word" where
  "Host32ToNetwork32 v = load_le (rev (store_le 4 v))"

definition Network32ToHost32 :: "32 word \<Rightarrow> 32 word" where
  "Network32ToHost32 v = load_le (rev (store_le 4 v))"

definition Host64ToNetwork64 :: "64 word \<Rightarrow> 64 word" where
  "Host64ToNetwork64 v = load_le (rev (store_le 8 v))"

definition Network64ToHost64 :: "64 word \<Rightarrow> 64 word" where
  "Network64ToHost64 v = load_le (rev (store_le 8 v))"

lemma small_word_bits:
  fixes w :: "'a::len word"
  assumes "unat w < 2 ^ k" shows "take_bit k w = w" and "k \<le> n \<Longrightarrow> \<not> bit w n"
proof -
  have "unat (take_bit k w) = unat w"
    using assms by (simp add: unsigned_take_bit_eq take_bit_nat_eq_self)
  then show eq: "take_bit k w = w" by (simp only: word_unat_eq_iff)
  assume "k \<le> n"
  then show "\<not> bit w n" by (subst eq [symmetric]) (simp add: bit_take_bit_iff)
qed

lemma bit_0x80: "bit (0x80 :: byte) n \<longleftrightarrow> n = 7"
proof -
  have "n = 0 \<or> n = 1 \<or> n = 2 \<or> n = 3 \<or> n = 4 \<or> n = 5 \<or> n = 6 \<or> n = 7 \<or> 8 \<le> n" by arith
  then show ?thesis by (elim disjE) (simp_all add: byte_bit_high)
qed

lemma bit_0xff: "bit (0xff :: byte) n \<longleftrightarrow> n < 8"
proof -
  have "n = 0 \<or> n = 1 \<or> n = 2 \<or> n = 3 \<or> n = 4 \<or> n = 5 \<or> n = 6 \<or> n = 7 \<or> 8 \<le> n" by arith
  then show ?thesis by (elim disjE) (simp_all add: byte_bit_high)
qed

lemma bit_0x0f: "bit (0x0f :: byte) n \<longleftrightarrow> n < 4"
proof -
  have "n = 0 \<or> n = 1 \<or> n = 2 \<or> n = 3 \<or> n = 4 \<or> n = 5 \<or> n = 6 \<or> n = 7 \<or> 8 \<le> n" by arith
  then show ?thesis by (elim disjE) (simp_all add: byte_bit_high)
qed

lemma bit_0x7f: "bit (0x7f :: byte) n \<longleftrightarrow> n < 7"
proof -
  have "n = 0 \<or> n = 1 \<or> n = 2 \<or> n = 3 \<or> n = 4 \<or> n = 5 \<or> n = 6 \<or> n = 7 \<or> 8 \<le> n" by arith
  then show ?thesis by (elim disjE) (simp_all add: byte_bit_high)
qed

lemma ucast_of_nat_small:
  "n < 2 ^ LENGTH('a::len) \<Longrightarrow> (ucast (of_nat n :: 'a word) :: 'b::len word) = of_nat n"
  by (simp add: unsigned_of_nat take_bit_nat_eq_self)

lemma length_store_le [simp]: "length (store_le n w) = n"
  by (induction n arbitrary: w) auto

lemma nth_store_le: "i < n \<Longrightarrow> store_le n w ! i = ucast (drop_bit (8 * i) w)"
proof (induction n arbitrary: w i)
  case (Suc n)
  then show ?case by (cases i) (simp_all add: algebra_simps)
qed simp

lemma bit_load_le:
  "bit (load_le bs :: 'a::len word) n \<longleftrightarrow>
   n < LENGTH('a) \<and> n div 8 < length bs \<and> bit (bs ! (n div 8)) (n mod 8)"
proof (induction bs arbitrary: n)
  case (Cons b bs)
  show ?case
  proof (cases "n < 8")
    case True
    then show ?thesis by (auto simp: bit_simps)
  next
    case False
    then have "n div 8 = Suc ((n - 8) div 8)" "n mod 8 = (n - 8) mod 8"
      by (simp_all add: le_div_geq le_mod_geq)
    then show ?thesis using False Cons.IH [of "n - 8"]
      by (auto simp: bit_simps byte_bit_high not_less)
  qed
qed simp

lemma load_store_le:
  "LENGTH('a::len) \<le> 8 * n \<Longrightarrow> load_le (store_le n (w :: 'a word)) = w"
  by (rule bit_word_eqI) (auto simp: bit_load_le nth_store_le bit_simps)

lemma store_load_le:
  assumes "8 * length bs \<le> LENGTH('a::len)"
  shows "store_le (length bs) (load_le bs :: 'a word) = bs"
proof (rule nth_equalityI)
  fix i
  assume i: "i < length (store_le (length bs) (load_le bs :: 'a word))"
  show "store_le (length bs) (load_le bs :: 'a word) ! i = bs ! i"
  proof (rule bit_word_eqI)
    fix n
    assume "n < LENGTH(8)"
    then have n: "n < 8" by simp
    then have "(8 * i + n) div 8 = i" "(8 * i + n) mod 8 = n" by auto
    moreover have "8 * i + n < LENGTH('a)" using i n assms by simp
    ultimately show "bit (store_le (length bs) (load_le bs :: 'a word) ! i) n = bit (bs ! i) n"
      using i n by (simp add: nth_store_le bit_simps bit_load_le)
  qed
qed simp

lemma load_ones: "LENGTH('a::len) = 8 * n \<Longrightarrow> (load_le (replicate n 0xff) :: 'a word) = -1"
  by (rule bit_word_eqI)
    (simp add: bit_load_le bit_0xff less_mult_imp_div_less mult.commute del: bit_numeral_word_iff)

lemma store_load_rev:
  "8 * n \<le> LENGTH('a::len) \<Longrightarrow> store_le n (load_le (rev (store_le n v)) :: 'a word) = rev (store_le n (v :: 'a word))"
  using store_load_le [of "rev (store_le n v)", where 'a = 'a] by simp

lemma swap_swap:
  "LENGTH('a::len) = 8 * n \<Longrightarrow> load_le (rev (store_le n (load_le (rev (store_le n v)) :: 'a word))) = (v :: 'a word)"
  by (simp add: store_load_rev load_store_le)

lemma network_host_inverse:
  "Network16ToHost16 (Host16ToNetwork16 a) = a" "Host16ToNetwork16 (Network16ToHost16 a) = a"
  "Network32ToHost32 (Host32ToNetwork32 b) = b" "Host32ToNetwork32 (Network32ToHost32 b) = b"
  "Network64ToHost64 (Host64ToNetwork64 c) = c" "Host64ToNetwork64 (Network64ToHost64 c) = c"
  unfolding Network16ToHost16_def Host16ToNetwork16_def Network32ToHost32_def Host32ToNetwork32_def
    Network64ToHost64_def Host64ToNetwork64_def
  by (simp_all add: swap_swap)

text \<open>An integer stored in network order is read back by loading its bytes and converting.\<close>

lemma load_stored_16: "Network16ToHost16 (load_le (store_le 2 (Host16ToNetwork16 v))) = v"
  by (simp add: load_store_le network_host_inverse)

lemma load_stored_64: "Network64ToHost64 (load_le (store_le 8 (Host64ToNetwork64 v))) = v"
  by (simp add: load_store_le network_host_inverse)

lemma host_network_same:
  "Host16ToNetwork16 = Network16ToHost16" "Host64ToNetwork64 = Network64ToHost64"
  by (simp_all add: fun_eq_iff Host16ToNetwork16_def Network16ToHost16_def
      Host64ToNetwork64_def Network64ToHost64_def)

lemma load_stored_swap:
  "Host16ToNetwork16 (load_le (store_le 2 (Host16ToNetwork16 v))) = v"
  "Host64ToNetwork64 (load_le (store_le 8 (Host64ToNetwork64 u))) = u"
  using load_stored_16 load_stored_64 by (simp_all add: host_network_same)

section \<open>Properties\<close>

text \<open>The conversions between host and network order are mutually inverse at every width.\<close>

theorem endian_roundtrip:
  "Network16ToHost16 (Host16ToNetwork16 a) = a \<and> Network32ToHost32 (Host32ToNetwork32 b) = b
   \<and> Network64ToHost64 (Host64ToNetwork64 c) = c"
  by (simp add: network_host_inverse)

end
