(* ===== verification/HttpCommon.thy ===== *)
theory HttpCommon
  imports Prelude
begin

text \<open>
  \<open>cold/net/http/HttpCommon.h\<close>: the status table with its messages (the stringised third
  argument of each \<open>XX\<close> row) and the URL codec. An \<open>HttpStatus\<close> is its integer value. Characters
  are bytes; \<open>isalpha\<close>, \<open>isdigit\<close>, \<open>isxdigit\<close> and \<open>toupper\<close> are those of the C locale.
\<close>

section \<open>Status codes\<close>

definition HTTP_STATUS_MESSAGE_MAP :: "(nat \<times> string) list" where
  "HTTP_STATUS_MESSAGE_MAP =
    [(100, ''Continue''),
     (101, ''Switching Protocols''),
     (102, ''Processing''),
     (103, ''Early Hints''),
     (110, ''Response Is Stale''),
     (111, ''Revalidation Failed''),
     (112, ''Disconnected Operation''),
     (113, ''Heuristic ExpiratioN''),
     (199, ''Miscellaneous Warning''),
     (200, ''OK''),
     (201, ''Created''),
     (202, ''Accepted''),
     (203, ''Non Authoritative Information''),
     (204, ''No Content''),
     (205, ''Reset Content''),
     (206, ''Partial Content''),
     (207, ''Multi - Status''),
     (208, ''Already Reported''),
     (214, ''Transformation Applied''),
     (226, ''IM Used''),
     (299, ''Miscellaneous Persistent Warning''),
     (300, ''Multiple Choices''),
     (301, ''Moved Permanently''),
     (302, ''Found''),
     (303, ''See Other''),
     (304, ''Not Modified''),
     (305, ''Use Proxy''),
     (306, ''Switch Proxy''),
     (307, ''Temporary Redirect''),
     (308, ''Permanent Redirect''),
     (400, ''Bad Request''),
     (401, ''Unauthorized''),
     (402, ''Payment Required''),
     (403, ''Forbidden''),
     (404, ''Not Found''),
     (405, ''Method Not Allowed''),
     (406, ''Not Acceptable''),
     (407, ''Proxy Authentication Required''),
     (408, ''Request Timeout''),
     (409, ''Conflict''),
     (410, ''Gone''),
     (411, ''Length Required''),
     (412, ''Precondition Failed''),
     (413, ''Payload Too Large''),
     (414, ''URI Too Long''),
     (415, ''Unsupported Media Type''),
     (416, ''Range Not Satisfiable''),
     (417, ''Expectation Failed''),
     (418, ''Im a teapot''),
     (419, ''Page Expired''),
     (420, ''Enhance Your Calm''),
     (421, ''Misdirected Request''),
     (422, ''Unprocessable Entity''),
     (423, ''Locked''),
     (424, ''Failed Dependency''),
     (425, ''Too Early''),
     (426, ''Upgrade Required''),
     (428, ''Precondition Required''),
     (429, ''Too Many Requests''),
     (430, ''Request Header Fields Too Large Unofficial''),
     (431, ''Request Header Fields Too Large''),
     (440, ''Login Timeout''),
     (444, ''No Response''),
     (449, ''Retry With''),
     (450, ''Blocked by Parental Control''),
     (451, ''Unavailable For Legal Reasons''),
     (460, ''Client Closed Load Balanced Request''),
     (463, ''Invalid X Forwarded For''),
     (494, ''Request Header Too Large''),
     (495, ''SSL Certificate Error''),
     (496, ''SSL Certificate Required''),
     (497, ''HTTP Request Sent to HTTPS Port''),
     (498, ''Invalid Token''),
     (499, ''Client Closed Request''),
     (500, ''Internal Server Error''),
     (501, ''Not Implemented''),
     (502, ''Bad Gateway''),
     (503, ''Service Unavailable''),
     (504, ''Gateway Timeout''),
     (505, ''HTTP Version Not Supported''),
     (506, ''Variant Also Negotiates''),
     (507, ''Insufficient Storage''),
     (508, ''Loop Detected''),
     (509, ''Bandwidth Limit Exceeded''),
     (510, ''Not Extended''),
     (511, ''Network Authentication Required''),
     (520, ''Web Server Unknown Error''),
     (521, ''Web Server Is Down''),
     (522, ''Connection Timeout''),
     (523, ''Origin Is Unreachable''),
     (524, ''Timeout Occurred''),
     (525, ''SSL Handshake Failed''),
     (526, ''Invalid SSL Certificate''),
     (527, ''Railgun Error''),
     (529, ''Site Is Overloaded''),
     (530, ''Site Is Frozen''),
     (561, ''Identity Provider Authentication Error''),
     (598, ''Network Read Timeout''),
     (599, ''Network Connect Timeout'')]"

definition HttpStatusToHttpStatusMsg :: "nat \<Rightarrow> string result" where
  "HttpStatusToHttpStatusMsg status =
     (case map_of HTTP_STATUS_MESSAGE_MAP status of None \<Rightarrow> Inl AssertFail | Some message \<Rightarrow> Inr message)"

definition kCRLF :: string where
  "kCRLF = [CHR 0x0D, CHR 0x0A]"

section \<open>Character classes\<close>

definition char_code :: "char \<Rightarrow> nat" where
  "char_code c = of_char c"

definition is_alpha :: "char \<Rightarrow> bool" where
  "is_alpha c \<longleftrightarrow> (65 \<le> char_code c \<and> char_code c \<le> 90) \<or> (97 \<le> char_code c \<and> char_code c \<le> 122)"

definition is_digit :: "char \<Rightarrow> bool" where
  "is_digit c \<longleftrightarrow> 48 \<le> char_code c \<and> char_code c \<le> 57"

definition is_xdigit :: "char \<Rightarrow> bool" where
  "is_xdigit c \<longleftrightarrow> is_digit c \<or> (65 \<le> char_code c \<and> char_code c \<le> 70) \<or> (97 \<le> char_code c \<and> char_code c \<le> 102)"

definition to_upper :: "char \<Rightarrow> char" where
  "to_upper c = (if 97 \<le> char_code c \<and> char_code c \<le> 122 then char_of (char_code c - 32) else c)"

section \<open>The URL codec\<close>

definition k_HEX :: string where
  "k_HEX = ''0123456789ABCDEF''"

definition url_encode_char :: "char \<Rightarrow> string" where
  "url_encode_char c =
     (if is_alpha c \<or> is_digit c then [c]
      else [CHR ''%'', k_HEX ! (char_code c div 16), k_HEX ! (char_code c mod 16)])"

definition UrlEncode :: "string \<Rightarrow> string" where
  "UrlEncode url = concat (map url_encode_char url)"

definition HexToNum :: "char \<Rightarrow> nat" where
  "HexToNum c = (let h = char_code (to_upper c) in if 65 \<le> h \<and> h \<le> 90 then h - 65 + 10 else h - 48)"

fun UrlDecode :: "string \<Rightarrow> string" where
  "UrlDecode [] = []"
| "UrlDecode (c # rest) =
     (if c = CHR ''+'' then CHR '' '' # UrlDecode rest
      else case rest of
        h # l # rest' \<Rightarrow>
          (if c = CHR ''%'' \<and> is_xdigit h \<and> is_xdigit l
           then char_of (HexToNum h * 16 + HexToNum l) # UrlDecode rest'
           else c # UrlDecode rest)
      | _ \<Rightarrow> c # UrlDecode rest)"

section \<open>Lemmas\<close>

lemma char_code_less: "char_code c < 256"
  by (simp add: char_code_def)

lemma char_of_code [simp]: "char_of (char_code c) = c"
  by (simp add: char_code_def)

lemma char_code_of: "n < 256 \<Longrightarrow> char_code (char_of n) = n"
  by (simp add: char_code_def of_char_of)

lemma hex_digits:
  assumes "n < 16"
  shows "is_xdigit (k_HEX ! n) \<and> HexToNum (k_HEX ! n) = n"
proof -
  have "\<forall>n \<in> {0..<16}. is_xdigit (k_HEX ! n) \<and> HexToNum (k_HEX ! n) = n"
    by code_simp
  then show ?thesis using assms by simp
qed

lemma decode_encoded_char:
  "UrlDecode (url_encode_char c @ rest) = c # UrlDecode rest"
proof (cases "is_alpha c \<or> is_digit c")
  case True
  have "c \<noteq> CHR ''+''" "c \<noteq> CHR ''%''"
    using True by (auto simp: is_alpha_def is_digit_def char_code_def)
  then show ?thesis using True by (auto simp: url_encode_char_def split: list.splits)
next
  case False
  have "char_code c div 16 < 16" using char_code_less [of c] by simp
  then show ?thesis
    using False hex_digits [of "char_code c div 16"] hex_digits [of "char_code c mod 16"]
    by (simp add: url_encode_char_def)
qed

section \<open>Properties\<close>

text \<open>URL encoding round trip: \<open>UrlDecode\<close> gives back every byte string \<open>UrlEncode\<close> was given,
  and the encoded form has only letters, digits and percent escapes.\<close>

theorem Url_roundtrip:
  "UrlDecode (UrlEncode s) = s \<and> set (UrlEncode s) \<subseteq> {c. is_alpha c \<or> is_digit c \<or> c = CHR ''%''}"
proof
  show "UrlDecode (UrlEncode s) = s"
    by (induction s) (simp_all add: UrlEncode_def decode_encoded_char)
  have hex: "is_alpha (k_HEX ! n) \<or> is_digit (k_HEX ! n)" if "n < 16" for n
  proof -
    have "\<forall>n \<in> {0..<16}. is_alpha (k_HEX ! n) \<or> is_digit (k_HEX ! n)" by code_simp
    then show ?thesis using that by simp
  qed
  have "set (url_encode_char c) \<subseteq> {c. is_alpha c \<or> is_digit c \<or> c = CHR ''%''}" for c
    using hex [of "char_code c div 16"] hex [of "char_code c mod 16"] char_code_less [of c]
    by (auto simp: url_encode_char_def)
  then show "set (UrlEncode s) \<subseteq> {c. is_alpha c \<or> is_digit c \<or> c = CHR ''%''}"
    by (auto simp: UrlEncode_def)
qed

end
