(* ===== verification/HttpMessage.thy ===== *)
theory HttpMessage
  imports HttpCommon
begin

text \<open>
  \<open>RawHttpRequest.h\<close>, \<open>RawHttpResponse.h\<close> and \<open>HttpResponse.h\<close>: the messages, their header maps
  (the \<open>MAP_CRUD\<close> accessors over \<open>std::map\<close>), cookies, and the serialisation of a response. A
  response body is an object of a class derived from \<open>HttpResponseBody\<close>; its virtual
  \<open>SetRelatedHeaders\<close> and \<open>ToRawBody\<close> are arguments of the operations that call them, with the
  contract they keep stated as the locale \<open>response_body\<close> and interpreted here for \<open>TextBody\<close>
  (for \<open>StaticFileBody\<close> in its own theory). The lemmas give the lines of a serialised response
  and a reader that recovers them.
\<close>

section \<open>MAP_CRUD\<close>

definition GetEntry :: "string smap \<Rightarrow> string \<Rightarrow> string" where
  "GetEntry m key = (case smap_get m key of None \<Rightarrow> [] | Some v \<Rightarrow> v)"

definition SetEntry :: "string \<Rightarrow> string \<Rightarrow> string smap \<Rightarrow> string smap" where
  "SetEntry key value m = smap_set m key value"

section \<open>RawHttpRequest\<close>

record RawHttpRequest =
  rq_method :: string
  rq_url :: string
  rq_version :: string
  rq_headers :: "string smap"
  rq_body :: string

definition empty_request :: RawHttpRequest where
  "empty_request = \<lparr>rq_method = [], rq_url = [], rq_version = [], rq_headers = [], rq_body = []\<rparr>"

definition Raw_SetMethod :: "string \<Rightarrow> RawHttpRequest \<Rightarrow> RawHttpRequest" where
  "Raw_SetMethod name rq = rq\<lparr>rq_method := map to_upper name\<rparr>"

definition Raw_SetHeader :: "string \<Rightarrow> string \<Rightarrow> RawHttpRequest \<Rightarrow> RawHttpRequest" where
  "Raw_SetHeader key value rq = rq\<lparr>rq_headers := SetEntry key value (rq_headers rq)\<rparr>"

definition header_line :: "string \<times> string \<Rightarrow> string" where
  "header_line kv = fst kv @ '': '' @ snd kv"

definition dump_headers :: "string smap \<Rightarrow> string" where
  "dump_headers m = concat (map (\<lambda>kv. header_line kv @ kCRLF) m)"

definition Request_Dump :: "RawHttpRequest \<Rightarrow> string" where
  "Request_Dump rq = rq_method rq @ '' '' @ rq_url rq @ '' '' @ rq_version rq @ kCRLF
     @ dump_headers (rq_headers rq) @ kCRLF @ rq_body rq"

section \<open>RawHttpResponse\<close>

record RawHttpResponse =
  rr_status :: nat
  rr_version :: string
  rr_headers :: "string smap"
  rr_cookies :: "string list"
  rr_body :: string

definition dump_cookies :: "string list \<Rightarrow> string" where
  "dump_cookies cs = concat (map (\<lambda>c. ''Set-Cookie: '' @ c @ kCRLF) cs)"

definition first_line :: "string \<Rightarrow> nat \<Rightarrow> string result" where
  "first_line version status = bind_result (HttpStatusToHttpStatusMsg status)
     (\<lambda>msg. Inr (version @ '' '' @ show_nat status @ '' '' @ msg @ kCRLF))"

definition Response_Dump :: "RawHttpResponse \<Rightarrow> string result" where
  "Response_Dump r = bind_result (first_line (rr_version r) (rr_status r))
     (\<lambda>l. Inr (l @ dump_headers (rr_headers r) @ dump_cookies (rr_cookies r) @ kCRLF @ rr_body r))"

section \<open>HttpCookie\<close>

record HttpCookie =
  ck_key :: string
  ck_value :: string
  ck_maxAge :: int
  ck_domain :: string
  ck_path :: string
  ck_httpOnly :: bool
  ck_secure :: bool

definition cookie_init :: HttpCookie where
  "cookie_init = \<lparr>ck_key = [], ck_value = [], ck_maxAge = - 1, ck_domain = [], ck_path = [],
     ck_httpOnly = False, ck_secure = False\<rparr>"

definition Cookie_Dump :: "HttpCookie \<Rightarrow> string" where
  "Cookie_Dump c = ck_key c @ ''='' @ ck_value c
     @ (if 0 \<le> ck_maxAge c then '';Max-Age='' @ show_int (ck_maxAge c) else [])
     @ (if ck_domain c \<noteq> [] then '';Domain='' @ ck_domain c else [])
     @ (if ck_path c \<noteq> [] then '';Path='' @ ck_path c else [])
     @ (if ck_httpOnly c then '';HttpOnly'' else [])
     @ (if ck_secure c then '';Secure'' else [])"

section \<open>HttpResponse\<close>

datatype ConnectionStatus = kKeepAlive | kClose | kUpgrade

fun ConnectionStatusToConnectionStr :: "ConnectionStatus \<Rightarrow> string" where
  "ConnectionStatusToConnectionStr kKeepAlive = ''keep-alive''"
| "ConnectionStatusToConnectionStr kClose = ''close''"
| "ConnectionStatusToConnectionStr kUpgrade = ''Upgrade''"

record 'b HttpResponse =
  rs_status :: nat
  rs_version :: string
  rs_headers :: "string smap"
  rs_body :: "'b option"
  rs_cookies :: "HttpCookie list"
  rs_connection :: ConnectionStatus

definition response_init :: "'b HttpResponse" where
  "response_init = \<lparr>rs_status = 200, rs_version = ''HTTP/1.1'', rs_headers = [], rs_body = None,
     rs_cookies = [], rs_connection = kKeepAlive\<rparr>"

definition SetStatus :: "nat \<Rightarrow> 'b HttpResponse \<Rightarrow> 'b HttpResponse" where
  "SetStatus st r = r\<lparr>rs_status := st\<rparr>"

definition SetVersion :: "string \<Rightarrow> 'b HttpResponse \<Rightarrow> 'b HttpResponse" where
  "SetVersion v r = r\<lparr>rs_version := v\<rparr>"

definition SetHeader :: "string \<Rightarrow> string \<Rightarrow> 'b HttpResponse \<Rightarrow> 'b HttpResponse" where
  "SetHeader key value r = r\<lparr>rs_headers := SetEntry key value (rs_headers r)\<rparr>"

definition SetCloseConnection :: "bool \<Rightarrow> 'b HttpResponse \<Rightarrow> 'b HttpResponse" where
  "SetCloseConnection cl r = r\<lparr>rs_connection := (if cl then kClose else kKeepAlive)\<rparr>"

definition SetUpgradeConnection :: "'b HttpResponse \<Rightarrow> 'b HttpResponse" where
  "SetUpgradeConnection r = r\<lparr>rs_connection := kUpgrade\<rparr>"

definition SetBody :: "('b \<Rightarrow> string smap \<Rightarrow> string smap result) \<Rightarrow> 'b \<Rightarrow> 'b HttpResponse \<Rightarrow> 'b HttpResponse result" where
  "SetBody related b r = bind_result (related b (rs_headers r))
     (\<lambda>h. Inr (r\<lparr>rs_body := Some b, rs_headers := h\<rparr>))"

definition AddCookie :: "HttpCookie \<Rightarrow> 'b HttpResponse \<Rightarrow> 'b HttpResponse" where
  "AddCookie c r = r\<lparr>rs_cookies := rs_cookies r @ [c]\<rparr>"

definition SendRedirect :: "string \<Rightarrow> 'b HttpResponse \<Rightarrow> 'b HttpResponse" where
  "SendRedirect url r = r\<lparr>rs_status := 302, rs_headers := SetEntry ''Location'' url (rs_headers r)\<rparr>"

definition Response_IsKeepAlive :: "'b HttpResponse \<Rightarrow> bool" where
  "Response_IsKeepAlive r \<longleftrightarrow> rs_connection r = kKeepAlive"

definition MakeHeaders :: "string \<Rightarrow> 'b HttpResponse \<Rightarrow> (string \<times> 'b HttpResponse) result" where
  "MakeHeaders headersBuf r =
     (let r1 = r\<lparr>rs_headers := SetEntry ''Connection'' (ConnectionStatusToConnectionStr (rs_connection r)) (rs_headers r)\<rparr>
      in bind_result (first_line (rs_version r1) (rs_status r1))
           (\<lambda>l. Inr (headersBuf @ l @ dump_headers (rs_headers r1)
                     @ dump_cookies (map Cookie_Dump (rs_cookies r1)) @ kCRLF, r1)))"

definition ToRawHttpResponse ::
    "('b \<Rightarrow> string smap \<Rightarrow> string smap result) \<Rightarrow> ('b \<Rightarrow> string) \<Rightarrow> 'b HttpResponse \<Rightarrow> RawHttpResponse result" where
  "ToRawHttpResponse related raw_body r =
     bind_result (case rs_body r of
         None \<Rightarrow> Inr ([], [])
       | Some b \<Rightarrow> bind_result (related b []) (\<lambda>h. Inr (h, raw_body b)))
       (\<lambda>(h, text). Inr \<lparr>rr_status = rs_status r, rr_version = rs_version r,
          rr_headers = fold (\<lambda>(k, v) m. SetEntry k v m) (rs_headers r)
             (SetEntry ''Connection'' (ConnectionStatusToConnectionStr (rs_connection r)) h),
          rr_cookies = map Cookie_Dump (rs_cookies r), rr_body = text\<rparr>)"

section \<open>Bodies\<close>

text \<open>The class \<open>TextBody\<close> is its text.\<close>

definition Text_SetRelatedHeaders :: "string \<Rightarrow> string smap \<Rightarrow> string smap result" where
  "Text_SetRelatedHeaders text h = Inr (SetEntry ''Content-Type'' ''text/html;charset=utf-8''
     (SetEntry ''Content-Length'' (show_nat (length text)) h))"

definition Text_ToRawBody :: "string \<Rightarrow> string" where
  "Text_ToRawBody text = text"

definition Text_Append :: "string \<Rightarrow> string \<Rightarrow> string" where
  "Text_Append c text = text @ c"

text \<open>What every body promises: its related headers are its exact length and a type, and the other
  headers stay as they are. \<open>ready\<close> says when the body can be sent.\<close>

definition other_header :: "string \<Rightarrow> bool" where
  "other_header k \<longleftrightarrow> k \<noteq> ''Content-Length'' \<and> k \<noteq> ''Content-Type''"

locale response_body =
  fixes related :: "'b \<Rightarrow> string smap \<Rightarrow> string smap result"
    and raw_body :: "'b \<Rightarrow> string"
    and ready :: "'b \<Rightarrow> bool"
  assumes related_length: "ready b \<Longrightarrow> \<exists>h'. related b h = Inr h'
       \<and> smap_get h' ''Content-Length'' = Some (show_nat (length (raw_body b)))
       \<and> smap_contains h' ''Content-Type''
       \<and> (\<forall>k. other_header k \<longrightarrow> smap_get h' k = smap_get h k)
       \<and> (smap_wf h \<longrightarrow> smap_wf h')"
begin

lemma SetBody_headers:
  assumes "ready b"
  shows "\<exists>h. SetBody related b r = Inr (r\<lparr>rs_body := Some b, rs_headers := h\<rparr>)
     \<and> smap_get h ''Content-Length'' = Some (show_nat (length (raw_body b)))
     \<and> (\<forall>k. other_header k \<longrightarrow> smap_get h k = smap_get (rs_headers r) k)
     \<and> (smap_wf (rs_headers r) \<longrightarrow> smap_wf h)"
proof -
  obtain h where "related b (rs_headers r) = Inr h"
    and "smap_get h ''Content-Length'' = Some (show_nat (length (raw_body b)))"
    and "\<forall>k. other_header k \<longrightarrow> smap_get h k = smap_get (rs_headers r) k"
    and "smap_wf (rs_headers r) \<longrightarrow> smap_wf h"
    using related_length [OF assms, of "rs_headers r"] by blast
  then show ?thesis by (intro exI [of _ h]) (simp add: SetBody_def)
qed

text \<open>The length announced on the wire is the length of what the body sends.\<close>

lemma MakeHeaders_announces:
  assumes "ready b" and "SetBody related b r = Inr r1" and "MakeHeaders buf r1 = Inr (out, r2)"
  shows "smap_get (rs_headers r2) ''Content-Length'' = Some (show_nat (length (raw_body b)))"
proof -
  obtain h where r1: "r1 = r\<lparr>rs_body := Some b, rs_headers := h\<rparr>"
    and len: "smap_get h ''Content-Length'' = Some (show_nat (length (raw_body b)))"
    using SetBody_headers [OF assms(1), of r] assms(2) by auto
  have "rs_headers r2 = smap_set h ''Connection'' (ConnectionStatusToConnectionStr (rs_connection r1))"
    using assms(3) unfolding r1
    by (cases "first_line (rs_version r) (rs_status r)") (auto simp: MakeHeaders_def Let_def SetEntry_def)
  then show ?thesis using len by (simp add: smap_get_set)
qed

end

lemma length_type_distinct: "''Content-Type'' \<noteq> ''Content-Length''"
  by simp

lemma two_headers:
  "smap_get (smap_set (smap_set h ''Content-Length'' n) ''Content-Type'' t) ''Content-Length'' = Some n
   \<and> smap_contains (smap_set (smap_set h ''Content-Length'' n) ''Content-Type'' t) ''Content-Type''
   \<and> (\<forall>k. other_header k \<longrightarrow>
        smap_get (smap_set (smap_set h ''Content-Length'' n) ''Content-Type'' t) k = smap_get h k)
   \<and> (smap_wf h \<longrightarrow> smap_wf (smap_set (smap_set h ''Content-Length'' n) ''Content-Type'' t))"
  by (intro conjI allI impI smap_wf_set)
    (simp_all only: smap_get_set smap_contains_def length_type_distinct length_type_distinct [symmetric] other_header_def if_False if_True refl
      not_Some_eq simp_thms option.distinct)

interpretation textbody: response_body Text_SetRelatedHeaders Text_ToRawBody "\<lambda>_. True"
  by (rule response_body.intro, rule exI, rule conjI, unfold Text_SetRelatedHeaders_def SetEntry_def Text_ToRawBody_def, rule refl, rule two_headers)

section \<open>Reading a serialised response\<close>

text \<open>A reader of the wire format: the lines up to the first empty one and what follows, each
  header line split at its first colon.\<close>

fun cut_line :: "string \<Rightarrow> (string \<times> string) option" where
  "cut_line (a # b # s) = (if [a, b] = kCRLF then Some ([], s) else map_option (apfst (Cons a)) (cut_line (b # s)))"
| "cut_line s = None"

lemma cut_line_shorter: "cut_line s = Some (l, r) \<Longrightarrow> length r < length s"
  by (induction s arbitrary: l rule: cut_line.induct) (auto split: if_splits)

function read_head :: "string \<Rightarrow> (string list \<times> string) option" where
  "read_head s = (case cut_line s of
       None \<Rightarrow> None
     | Some (l, r) \<Rightarrow> if l = [] then Some ([], r) else map_option (apfst (Cons l)) (read_head r))"
  by pat_completeness auto
termination by (relation "measure length") (auto dest: cut_line_shorter)

declare read_head.simps [simp del]

definition split_header :: "string \<Rightarrow> string \<times> string" where
  "split_header l = (takeWhile (\<lambda>c. c \<noteq> CHR '':'') l, drop 2 (dropWhile (\<lambda>c. c \<noteq> CHR '':'') l))"

definition read_response :: "string \<Rightarrow> (string \<times> (string \<times> string) list \<times> string) option" where
  "read_response s = (case read_head s of
       Some (l # ls, content) \<Rightarrow> Some (l, map split_header ls, content) | _ \<Rightarrow> None)"

text \<open>A text that cannot end a line, and a name that cannot end at a colon.\<close>

definition no_cr :: "string \<Rightarrow> bool" where
  "no_cr s \<longleftrightarrow> CHR 0x0D \<notin> set s"

lemma no_cr_append [simp]: "no_cr (a @ b) \<longleftrightarrow> no_cr a \<and> no_cr b" "no_cr []"
  by (auto simp: no_cr_def)

lemma cut_line_append: "no_cr l \<Longrightarrow> cut_line (l @ kCRLF @ s) = Some (l, s)"
proof (induction l)
  case Nil
  then show ?case by (simp add: kCRLF_def)
next
  case (Cons a l)
  obtain b t where t: "l @ kCRLF @ s = b # t" by (cases l) (auto simp: kCRLF_def)
  have "a \<noteq> CHR 0x0D" "no_cr l" using Cons.prems by (auto simp: no_cr_def)
  then show ?case using Cons.IH t by (simp add: kCRLF_def)
qed

lemma read_head_lines:
  "\<forall>l \<in> set ls. no_cr l \<and> l \<noteq> [] \<Longrightarrow>
   read_head (concat (map (\<lambda>l. l @ kCRLF) ls) @ kCRLF @ rest) = Some (ls, rest)"
proof (induction ls)
  case Nil
  then show ?case using cut_line_append [of "[]" rest] by (simp add: read_head.simps)
next
  case (Cons l ls)
  then show ?case
    using cut_line_append [of l "concat (map (\<lambda>l. l @ kCRLF) ls) @ kCRLF @ rest"]
    by (subst read_head.simps) simp
qed

lemma takeWhile_dropWhile_sep:
  "c \<notin> set k \<Longrightarrow> takeWhile (\<lambda>x. x \<noteq> c) (k @ c # v) = k \<and> dropWhile (\<lambda>x. x \<noteq> c) (k @ c # v) = c # v"
  by (induction k) auto

lemma split_header_line: "CHR '':'' \<notin> set k \<Longrightarrow> split_header (header_line (k, v)) = (k, v)"
  using takeWhile_dropWhile_sep [of "CHR '':''" k "CHR '' '' # v"] by (simp add: split_header_def header_line_def)

text \<open>The conditions under which a response is readable: a status of the table, and no carriage
  return in what the caller supplied, no colon in a header name.\<close>

definition header_clean :: "string \<times> string \<Rightarrow> bool" where
  "header_clean kv \<longleftrightarrow> no_cr (fst kv) \<and> no_cr (snd kv) \<and> CHR '':'' \<notin> set (fst kv)"

definition response_clean :: "'b HttpResponse \<Rightarrow> bool" where
  "response_clean r \<longleftrightarrow> no_cr (rs_version r) \<and> list_all header_clean (rs_headers r)
     \<and> list_all (\<lambda>c. no_cr (Cookie_Dump c)) (rs_cookies r)
     \<and> rs_status r \<in> fst ` set HTTP_STATUS_MESSAGE_MAP"

lemma show_nat_clean: "no_cr (show_nat n)"
proof -
  have "\<forall>c \<in> set (show_nat n). is_digit_char c" using show_nat_digits [of n] by (simp add: list_all_iff)
  then show ?thesis by (auto simp: no_cr_def is_digit_char_def of_char_of)
qed

lemma messages_clean: "list_all (\<lambda>(st, msg). no_cr msg) HTTP_STATUS_MESSAGE_MAP"
  by (simp add: HTTP_STATUS_MESSAGE_MAP_def no_cr_def)

lemma status_message:
  assumes "st \<in> fst ` set HTTP_STATUS_MESSAGE_MAP"
  shows "\<exists>msg. HttpStatusToHttpStatusMsg st = Inr msg \<and> no_cr msg"
proof -
  obtain msg where m: "map_of HTTP_STATUS_MESSAGE_MAP st = Some msg"
    using assms by (metis map_of_eq_None_iff not_None_eq)
  then have "(st, msg) \<in> set HTTP_STATUS_MESSAGE_MAP" by (rule map_of_SomeD)
  then have "no_cr msg" using messages_clean by (auto simp: list_all_iff)
  then show ?thesis using m by (simp add: HttpStatusToHttpStatusMsg_def)
qed

lemma smap_set_all:
  "list_all P m \<Longrightarrow> P (k, v) \<Longrightarrow> list_all P (smap_set m k v)"
  by (induction m) auto

lemma connection_clean: "header_clean (''Connection'', ConnectionStatusToConnectionStr c)"
  by (cases c) (simp_all add: header_clean_def no_cr_def)

definition cookie_entry :: "HttpCookie \<Rightarrow> string \<times> string" where
  "cookie_entry c = (''Set-Cookie'', Cookie_Dump c)"

lemma head_as_lines:
  "dump_headers h @ dump_cookies (map Cookie_Dump cs)
     = concat (map (\<lambda>l. l @ kCRLF) (map header_line (h @ map cookie_entry cs)))"
  by (simp add: dump_headers_def dump_cookies_def o_def header_line_def cookie_entry_def)

lemma read_MakeHeaders:
  assumes "response_clean r"
  shows "\<exists>line buf r'. MakeHeaders [] r = Inr (buf, r')
     \<and> first_line (rs_version r) (rs_status r) = Inr (line @ kCRLF)
     \<and> r' = r\<lparr>rs_headers := SetEntry ''Connection'' (ConnectionStatusToConnectionStr (rs_connection r)) (rs_headers r)\<rparr>
     \<and> read_response (buf @ content) = Some (line, rs_headers r' @ map cookie_entry (rs_cookies r), content)"
proof -
  obtain msg where msg: "HttpStatusToHttpStatusMsg (rs_status r) = Inr msg" "no_cr msg"
    using status_message assms by (auto simp: response_clean_def)
  define line where "line = rs_version r @ '' '' @ show_nat (rs_status r) @ '' '' @ msg"
  define h where "h = SetEntry ''Connection'' (ConnectionStatusToConnectionStr (rs_connection r)) (rs_headers r)"
  define es where "es = h @ map cookie_entry (rs_cookies r)"
  have clean_line: "no_cr line" "line \<noteq> []"
    using assms msg(2) show_nat_clean by (auto simp: line_def response_clean_def no_cr_def)
  have hc: "list_all header_clean h"
    unfolding h_def SetEntry_def using assms by (intro smap_set_all connection_clean) (simp add: response_clean_def)
  have "no_cr ''Set-Cookie''" "CHR '':'' \<notin> set ''Set-Cookie''" by (simp_all add: no_cr_def)
  then have "list_all header_clean (map cookie_entry (rs_cookies r))"
    using assms by (simp add: response_clean_def header_clean_def cookie_entry_def list_all_iff)
  with hc have es: "list_all header_clean es" by (simp add: es_def)
  have "no_cr (header_line kv) \<and> header_line kv \<noteq> []" if "header_clean kv" for kv
    using that by (auto simp: no_cr_def header_clean_def header_line_def)
  then have lines: "\<forall>l \<in> set (line # map header_line es). no_cr l \<and> l \<noteq> []"
    using es clean_line by (simp add: list_all_iff)
  have fl: "first_line (rs_version r) (rs_status r) = Inr (line @ kCRLF)"
    by (simp add: first_line_def msg line_def)
  have mk: "MakeHeaders [] r = Inr (concat (map (\<lambda>l. l @ kCRLF) (line # map header_line es)) @ kCRLF, r\<lparr>rs_headers := h\<rparr>)"
    using head_as_lines [of h "rs_cookies r"] by (simp add: MakeHeaders_def fl h_def [symmetric] es_def)
  have split: "map split_header (map header_line es) = es"
    using es by (induction es) (auto simp: header_clean_def split_header_line)
  show ?thesis
    by (rule exI [of _ line], rule exI, rule exI, intro conjI, rule mk, rule fl)
      (use read_head_lines [OF lines, of content] split in \<open>simp_all add: read_response_def h_def es_def\<close>)
qed

lemma text_headers_clean:
  "header_clean (''Content-Length'', show_nat n)" "header_clean (''Content-Type'', ''text/html;charset=utf-8'')"
  using show_nat_clean [of n] by (simp_all add: header_clean_def) (simp_all add: no_cr_def)

lemma Text_SetBody_clean:
  assumes "response_clean r"
  shows "\<exists>r1. SetBody Text_SetRelatedHeaders c r = Inr r1 \<and> response_clean r1 \<and> rs_cookies r1 = rs_cookies r
     \<and> rs_connection r1 = rs_connection r \<and> rs_version r1 = rs_version r \<and> rs_status r1 = rs_status r"
proof -
  let ?h = "smap_set (smap_set (rs_headers r) ''Content-Length'' (show_nat (length c))) ''Content-Type'' ''text/html;charset=utf-8''"
  have "list_all header_clean ?h"
    using assms by (intro smap_set_all text_headers_clean) (simp add: response_clean_def)
  then have "response_clean (r\<lparr>rs_body := Some c, rs_headers := ?h\<rparr>)"
    using assms by (simp add: response_clean_def)
  then show ?thesis
    by (intro exI [of _ "r\<lparr>rs_body := Some c, rs_headers := ?h\<rparr>"])
      (simp add: SetBody_def Text_SetRelatedHeaders_def SetEntry_def)
qed

section \<open>Properties\<close>

text \<open>C25: what a response with a text body puts on the wire can be read back: whatever clean status,
  version, headers and cookies were set, the head that \<open>MakeHeaders\<close> writes after \<open>SetBody\<close>,
  followed by the body, is parsed into the status line, exactly the response's headers (with its
  \<open>Connection\<close> value) and one \<open>Set-Cookie\<close> entry per cookie, then exactly the body, whose
  \<open>Content-Length\<close> is its length.\<close>

theorem text_response_roundtrip:
  assumes "response_clean r"
  shows "\<exists>r1 buf r2 line. SetBody Text_SetRelatedHeaders c r = Inr r1 \<and> MakeHeaders [] r1 = Inr (buf, r2)
     \<and> read_response (buf @ c) = Some (line, rs_headers r2 @ map cookie_entry (rs_cookies r), c)
     \<and> first_line (rs_version r) (rs_status r) = Inr (line @ kCRLF)
     \<and> smap_get (rs_headers r2) ''Content-Length'' = Some (show_nat (length c))
     \<and> smap_get (rs_headers r2) ''Connection'' = Some (ConnectionStatusToConnectionStr (rs_connection r))"
proof -
  obtain r1 where sb: "SetBody Text_SetRelatedHeaders c r = Inr r1" and r1: "response_clean r1"
    and same: "rs_cookies r1 = rs_cookies r" "rs_connection r1 = rs_connection r" "rs_version r1 = rs_version r"
      "rs_status r1 = rs_status r"
    using Text_SetBody_clean [OF assms] by blast
  obtain line buf r2 where mk: "MakeHeaders [] r1 = Inr (buf, r2)"
    and rd: "read_response (buf @ c) = Some (line, rs_headers r2 @ map cookie_entry (rs_cookies r1), c)"
    and fl: "first_line (rs_version r1) (rs_status r1) = Inr (line @ kCRLF)"
    and r2: "r2 = r1\<lparr>rs_headers := SetEntry ''Connection'' (ConnectionStatusToConnectionStr (rs_connection r1)) (rs_headers r1)\<rparr>"
    using read_MakeHeaders [OF r1] by blast
  have "smap_get (rs_headers r2) ''Connection'' = Some (ConnectionStatusToConnectionStr (rs_connection r))"
    by (simp add: r2 SetEntry_def smap_get_set same)
  then show ?thesis
    using sb mk rd fl textbody.MakeHeaders_announces [OF TrueI sb mk] by (auto simp: same Text_ToRawBody_def)
qed

theorem text_response_roundtrip_witness:
  "\<exists>r1 buf r2 line. SetBody Text_SetRelatedHeaders ''hi'' response_init = Inr r1 \<and> MakeHeaders [] r1 = Inr (buf, r2)
     \<and> read_response (buf @ ''hi'') = Some (line, rs_headers r2, ''hi'')"
  using text_response_roundtrip [of response_init "''hi''"]
  by (auto simp: response_clean_def response_init_def no_cr_def HTTP_STATUS_MESSAGE_MAP_def)

end
