(* ===== verification/HttpRequest.thy ===== *)
theory HttpRequest
  imports HttpMessage
begin

text \<open>
  \<open>HttpRequest.h\<close>, \<open>HttpRequest.cpp\<close> and \<open>HttpSession.h\<close>: the decoded request (URL, query,
  fragment, form parameters, cookies, attributes) and the session manager. The operations run in
  the constructor \<open>DecodeUrlAndBody\<close> and in \<open>GetSession\<close>, which may add a cookie to the response.
  A \<open>std::any\<close> is its type (a tag) and its value. Sessions are shared objects: the manager maps an
  id to the address of the session in a store, which keeps sessions alive that were removed from
  the map. The UUID of a new session comes from boost and is an argument.
\<close>

section \<open>Key-value lists\<close>

text \<open>\<open>find(c, start)\<close> and the substrings it delimits, one pair per turn of the loop.\<close>

function ParseKV :: "string \<Rightarrow> string smap \<Rightarrow> char \<Rightarrow> char \<Rightarrow> string smap" where
  "ParseKV kvStr m kDelim kvDelim =
     (case str_find_char kvStr kDelim 0 of
        None \<Rightarrow> m
      | Some keypos \<Rightarrow>
          (let valuepos = str_find_char kvStr kvDelim (keypos + 1);
               kv = (case valuepos of None \<Rightarrow> kvStr | Some p \<Rightarrow> take p kvStr);
               key = take keypos kv;
               val = drop (keypos + 1) kv;
               m' = SetEntry key val m
           in case valuepos of
                None \<Rightarrow> m'
              | Some p \<Rightarrow> ParseKV (drop (p + 1) kvStr) m' kDelim kvDelim))"
  by pat_completeness auto
termination
  by (relation "measure (\<lambda>(s, _, _, _). length s)") (auto dest: str_find_char_bounds)

declare ParseKV.simps [simp del]

section \<open>The request\<close>

type_synonym 'v any = "nat \<times> 'v"

record 'v HttpRequest =
  hq_raw :: RawHttpRequest
  hq_url :: string
  hq_fragment :: string
  hq_body :: string
  hq_attributes :: "'v any smap"
  hq_parameters :: "string smap"
  hq_cookies :: "string smap"

definition DecodeUrlAndBody :: "RawHttpRequest \<Rightarrow> 'v HttpRequest" where
  "DecodeUrlAndBody raw =
     (let url = UrlDecode (rq_url raw);
          hash = str_rfind url (CHR ''#'');
          fragment = (case hash of None \<Rightarrow> [] | Some p \<Rightarrow> drop (p + 1) url);
          view = (case hash of None \<Rightarrow> url | Some p \<Rightarrow> take p url);
          quest = str_find_char view (CHR ''?'') 0;
          params1 = (case quest of None \<Rightarrow> []
                     | Some p \<Rightarrow> ParseKV (drop (p + 1) view) [] (CHR ''='') (CHR ''&''));
          url1 = (case quest of None \<Rightarrow> url | Some p \<Rightarrow> take p url);
          cookies = (if smap_contains (rq_headers raw) ''Cookie''
                     then ParseKV (GetEntry (rq_headers raw) ''Cookie'') [] (CHR ''='') (CHR '';'') else []);
          body = UrlDecode (rq_body raw)
      in \<lparr>hq_raw = raw, hq_url = url1, hq_fragment = fragment, hq_body = body, hq_attributes = [],
          hq_parameters = ParseKV body params1 (CHR ''='') (CHR ''&''), hq_cookies = cookies\<rparr>)"

definition Request_IsKeepAlive :: "'v HttpRequest \<Rightarrow> bool" where
  "Request_IsKeepAlive rq =
     (if smap_contains (rq_headers (hq_raw rq)) ''Connection''
      then GetEntry (rq_headers (hq_raw rq)) ''Connection'' = ''keep-alive''
      else rq_version (hq_raw rq) = ''HTTP/1.1'')"

definition Request_SetAttribute :: "string \<Rightarrow> nat \<Rightarrow> 'v \<Rightarrow> 'v HttpRequest \<Rightarrow> 'v HttpRequest" where
  "Request_SetAttribute key ty v rq = rq\<lparr>hq_attributes := smap_set (hq_attributes rq) key (ty, v)\<rparr>"

definition any_attribute :: "nat \<Rightarrow> string \<Rightarrow> 'v any smap \<Rightarrow> 'v option" where
  "any_attribute ty key m = (case smap_get m key of
      None \<Rightarrow> None | Some (ty', v) \<Rightarrow> if ty' = ty then Some v else None)"

definition Request_RemoveAttribute :: "string \<Rightarrow> 'v HttpRequest \<Rightarrow> 'v HttpRequest" where
  "Request_RemoveAttribute key rq = rq\<lparr>hq_attributes := smap_erase (hq_attributes rq) key\<rparr>"

section \<open>Sessions\<close>

record 'v HttpSession =
  se_id :: string
  se_attributes :: "'v any smap"

record 'v HttpSessionManager =
  sessions :: "nat smap"
  store :: "'v HttpSession list"

definition CreateSession :: "string \<Rightarrow> 'v HttpSessionManager \<Rightarrow> nat \<times> 'v HttpSessionManager" where
  "CreateSession uuid mgr =
     (let a = length (store mgr) in
      (a, mgr\<lparr>store := store mgr @ [\<lparr>se_id = uuid, se_attributes = []\<rparr>], sessions := smap_set (sessions mgr) uuid a\<rparr>))"

definition Manager_GetSession :: "string \<Rightarrow> 'v HttpSessionManager \<Rightarrow> nat option" where
  "Manager_GetSession sessionId mgr = smap_get (sessions mgr) sessionId"

definition RemoveSession :: "string \<Rightarrow> 'v HttpSessionManager \<Rightarrow> 'v HttpSessionManager" where
  "RemoveSession sessionId mgr = mgr\<lparr>sessions := smap_erase (sessions mgr) sessionId\<rparr>"

definition Invalidate :: "nat \<Rightarrow> 'v HttpSessionManager \<Rightarrow> 'v HttpSessionManager" where
  "Invalidate a mgr = (if a < length (store mgr) then RemoveSession (se_id (store mgr ! a)) mgr else mgr)"

definition Session_SetAttribute :: "nat \<Rightarrow> string \<Rightarrow> nat \<Rightarrow> 'v \<Rightarrow> 'v HttpSessionManager \<Rightarrow> 'v HttpSessionManager" where
  "Session_SetAttribute a key ty v mgr =
     (if a < length (store mgr)
      then mgr\<lparr>store := (store mgr)[a := (store mgr ! a)\<lparr>se_attributes := smap_set (se_attributes (store mgr ! a)) key (ty, v)\<rparr>]\<rparr>
      else mgr)"

definition CreateNewSession ::
    "string \<Rightarrow> 'b HttpResponse \<Rightarrow> 'v HttpSessionManager \<Rightarrow> nat \<times> 'b HttpResponse \<times> 'v HttpSessionManager" where
  "CreateNewSession uuid resp mgr =
     (let (a, mgr') = CreateSession uuid mgr;
          cookie = cookie_init\<lparr>ck_key := ''SessionId'', ck_value := se_id (store mgr' ! a), ck_path := ''/'', ck_httpOnly := True\<rparr>
      in (a, AddCookie cookie resp, mgr'))"

definition GetSession ::
    "string \<Rightarrow> 'w HttpRequest \<Rightarrow> 'b HttpResponse \<Rightarrow> 'v HttpSessionManager \<Rightarrow> nat \<times> 'b HttpResponse \<times> 'v HttpSessionManager" where
  "GetSession uuid rq resp mgr =
     (case smap_get (hq_cookies rq) ''SessionId'' of
        None \<Rightarrow> CreateNewSession uuid resp mgr
      | Some sid \<Rightarrow> (case Manager_GetSession sid mgr of
          Some a \<Rightarrow> (a, resp, mgr)
        | None \<Rightarrow> CreateNewSession uuid resp mgr))"

section \<open>Parsing key-value lists\<close>

fun render_kv :: "char \<Rightarrow> char \<Rightarrow> (string \<times> string) list \<Rightarrow> string" where
  "render_kv kd vd [] = []"
| "render_kv kd vd [(k, v)] = k @ kd # v"
| "render_kv kd vd ((k, v) # kvs) = k @ kd # v @ vd # render_kv kd vd kvs"

definition kv_ok :: "char \<Rightarrow> char \<Rightarrow> string \<times> string \<Rightarrow> bool" where
  "kv_ok kd vd kv \<longleftrightarrow> kd \<notin> set (fst kv) \<and> vd \<notin> set (snd kv)"

definition set_all :: "(string \<times> string) list \<Rightarrow> string smap \<Rightarrow> string smap" where
  "set_all kvs m = fold (\<lambda>(k, v) m. smap_set m k v) kvs m"

lemma ParseKV_none: "kd \<notin> set s \<Longrightarrow> ParseKV s m kd vd = m"
  by (subst ParseKV.simps) (simp add: str_find_char_0)

lemma find_value_end:
  assumes "vd \<notin> set v"
  shows "str_find_char (k @ kd # v @ vd # rest) vd (Suc (length k)) = Some (Suc (length k + length v))"
proof -
  have "str_find_char ((k @ [kd]) @ v @ vd # rest) vd (length (k @ [kd])) = Some (length (k @ [kd]) + length v)"
    by (rule str_find_char_skip) (simp_all add: assms)
  then show ?thesis by simp
qed

lemma ParseKV_last:
  assumes "kd \<notin> set k" "vd \<notin> set v"
  shows "ParseKV (k @ kd # v) m kd vd = smap_set m k v"
proof -
  have "str_find_char (k @ kd # v) vd (Suc (length k)) = None"
    using assms(2) by (simp add: str_find_char_def str_find_def first_occurrence_char)
  then show ?thesis
    using assms by (subst ParseKV.simps) (simp add: str_find_char_append SetEntry_def)
qed

lemma ParseKV_step:
  assumes "kd \<notin> set k" "vd \<notin> set v"
  shows "ParseKV (k @ kd # v @ vd # rest) m kd vd = ParseKV rest (smap_set m k v) kd vd"
  using assms find_value_end [OF assms(2), of k kd rest]
  by (subst ParseKV.simps) (simp add: str_find_char_append SetEntry_def)

lemma ParseKV_render:
  "\<forall>kv \<in> set kvs. kv_ok kd vd kv \<Longrightarrow> ParseKV (render_kv kd vd kvs) m kd vd = set_all kvs m"
proof (induction kd vd kvs arbitrary: m rule: render_kv.induct)
  case (1 kd vd)
  then show ?case by (simp add: ParseKV_none set_all_def)
next
  case (2 kd vd k v)
  then show ?case by (simp add: ParseKV_last kv_ok_def set_all_def)
next
  case (3 kd vd k v kv kvs)
  then show ?case by (simp add: ParseKV_step kv_ok_def set_all_def)
qed

lemma get_set_all:
  "smap_get (set_all kvs m) k = (case map_of (rev kvs) k of Some v \<Rightarrow> Some v | None \<Rightarrow> smap_get m k)"
  unfolding set_all_def by (rule sm.get_fold_put)

section \<open>Session histories\<close>

datatype 'v session_op = MCreate string | MRemove string | MSet nat string nat 'v

fun session_step :: "'v session_op \<Rightarrow> 'v HttpSessionManager \<Rightarrow> 'v HttpSessionManager" where
  "session_step (MCreate uuid) mgr = snd (CreateSession uuid mgr)"
| "session_step (MRemove sid) mgr = RemoveSession sid mgr"
| "session_step (MSet a key ty v) mgr = Session_SetAttribute a key ty v mgr"

fun op_session :: "'v session_op \<Rightarrow> string option" where
  "op_session (MCreate uuid) = Some uuid"
| "op_session (MRemove sid) = Some sid"
| "op_session (MSet a key ty v) = None"

lemma session_step_other:
  "op_session op \<noteq> Some sid \<Longrightarrow> Manager_GetSession sid (session_step op mgr) = Manager_GetSession sid mgr"
  by (cases op) (auto simp: Manager_GetSession_def CreateSession_def RemoveSession_def Session_SetAttribute_def
      Let_def smap_get_set smap_get_erase)

lemma session_steps_other:
  "\<forall>op \<in> set ops. op_session op \<noteq> Some sid \<Longrightarrow>
   Manager_GetSession sid (fold session_step ops mgr) = Manager_GetSession sid mgr"
  by (induction ops arbitrary: mgr) (simp_all add: session_step_other)

lemma CreateNewSession_effect:
  assumes "CreateNewSession uuid resp mgr = (a, resp', mgr')"
  shows "Manager_GetSession uuid mgr' = Some a \<and> a = length (store mgr)
     \<and> rs_cookies resp' = rs_cookies resp @ [cookie_init\<lparr>ck_key := ''SessionId'', ck_value := uuid, ck_path := ''/'', ck_httpOnly := True\<rparr>]"
  using assms by (auto simp: CreateNewSession_def CreateSession_def Manager_GetSession_def Let_def smap_get_set AddCookie_def nth_append)

section \<open>Decoding a request\<close>

lemma cookies_of_header:
  assumes "smap_get (rq_headers raw) ''Cookie'' = Some hdr"
  shows "hq_cookies (DecodeUrlAndBody raw) = ParseKV hdr [] (CHR ''='') (CHR '';'')"
  using assms by (simp add: DecodeUrlAndBody_def Let_def smap_contains_def GetEntry_def)

lemma decode_url:
  assumes "UrlDecode (rq_url raw) = path @ CHR ''?'' # qs" and "CHR ''?'' \<notin> set path"
    and "CHR ''#'' \<notin> set path" and "CHR ''#'' \<notin> set qs"
  shows "hq_url (DecodeUrlAndBody raw :: 'v HttpRequest) = path
     \<and> hq_parameters (DecodeUrlAndBody raw :: 'v HttpRequest)
         = ParseKV (UrlDecode (rq_body raw)) (ParseKV qs [] (CHR ''='') (CHR ''&'')) (CHR ''='') (CHR ''&'')"
proof -
  have "str_rfind (path @ CHR ''?'' # qs) (CHR ''#'') = None"
    using assms by (simp add: str_rfind_None)
  moreover have "str_find_char (path @ CHR ''?'' # qs) (CHR ''?'') 0 = Some (length path)"
    using assms by (simp add: str_find_char_append)
  ultimately show ?thesis by (simp add: DecodeUrlAndBody_def Let_def assms(1))
qed

text \<open>Without a query the fragment is split off but stays in the URL that is routed.\<close>

lemma fragment_stays_in_url:
  assumes "UrlDecode (rq_url raw) = path @ CHR ''#'' # frag" and "CHR ''?'' \<notin> set path" and "CHR ''#'' \<notin> set frag"
  shows "hq_fragment (DecodeUrlAndBody raw :: 'v HttpRequest) = frag \<and> hq_url (DecodeUrlAndBody raw :: 'v HttpRequest) = path @ CHR ''#'' # frag"
proof -
  have "str_rfind (path @ CHR ''#'' # frag) (CHR ''#'') = Some (length path)"
    using assms by (simp add: str_rfind_append)
  moreover have "str_find_char path (CHR ''?'') 0 = None" using assms by (simp add: str_find_char_None)
  ultimately show ?thesis by (simp add: DecodeUrlAndBody_def Let_def assms(1))
qed

section \<open>Properties\<close>

text \<open>The query and the form body are read exactly: when the decoded URL is a path, a question
  mark and key-value pairs (keys without an equals sign, values without an ampersand, no hash) and
  the decoded body is such a list, the request's URL is the path and the value of every parameter
  is that of its last pair, the pairs of the body after those of the query.\<close>

theorem request_parameters:
  assumes "UrlDecode (rq_url raw) = path @ CHR ''?'' # render_kv (CHR ''='') (CHR ''&'') q"
    and "CHR ''?'' \<notin> set path" and "CHR ''#'' \<notin> set path \<union> set (render_kv (CHR ''='') (CHR ''&'') q)"
    and "UrlDecode (rq_body raw) = render_kv (CHR ''='') (CHR ''&'') b"
    and "\<forall>kv \<in> set (q @ b). kv_ok (CHR ''='') (CHR ''&'') kv"
  shows "hq_url (DecodeUrlAndBody raw :: 'v HttpRequest) = path
     \<and> smap_get (hq_parameters (DecodeUrlAndBody raw :: 'v HttpRequest)) key = map_of (rev (q @ b)) key"
proof -
  have h: "CHR ''#'' \<notin> set path" "CHR ''#'' \<notin> set (render_kv (CHR ''='') (CHR ''&'') q)" using assms(3) by auto
  note d = decode_url [OF assms(1,2) h, where ?'v = 'v]
  have "hq_parameters (DecodeUrlAndBody raw :: 'v HttpRequest) = set_all b (set_all q [])"
    using d assms(4,5) by (simp add: ParseKV_render)
  then show ?thesis
    using conjunct1 [OF d] by (simp add: get_set_all map_add_def split: option.split)
qed

theorem request_parameters_witness:
  "hq_url (DecodeUrlAndBody (empty_request\<lparr>rq_url := ''/p?a=1&b=2'', rq_body := ''a=3''\<rparr>) :: nat HttpRequest) = ''/p''
   \<and> smap_get (hq_parameters (DecodeUrlAndBody (empty_request\<lparr>rq_url := ''/p?a=1&b=2'', rq_body := ''a=3''\<rparr>) :: nat HttpRequest)) ''a'' = Some ''3''"
  using request_parameters [of "empty_request\<lparr>rq_url := ''/p?a=1&b=2'', rq_body := ''a=3''\<rparr>" "''/p''"
      "[(''a'', ''1''), (''b'', ''2'')]" "[(''a'', ''3'')]" "''a''", where ?'v = nat]
  by (simp add: kv_ok_def)

text \<open>A session survives on its cookie: once \<open>CreateNewSession\<close> has made a session and set its
  cookie, and whatever else happens to other sessions and to the attributes, a later request whose
  cookie header gives that id (pairs separated by a semicolon alone) gets the same session and no
  new cookie.\<close>

theorem session_roundtrip:
  assumes "CreateNewSession uuid resp mgr = (a, resp', mgr')"
    and "\<forall>op \<in> set ops. op_session op \<noteq> Some uuid"
    and "smap_get (rq_headers raw) ''Cookie'' = Some (render_kv (CHR ''='') (CHR '';'') kvs)"
    and "\<forall>kv \<in> set kvs. kv_ok (CHR ''='') (CHR '';'') kv" and "map_of (rev kvs) ''SessionId'' = Some uuid"
  shows "GetSession uuid2 (DecodeUrlAndBody raw :: 'w HttpRequest) resp2 (fold session_step ops mgr') = (a, resp2, fold session_step ops mgr')
     \<and> ck_value (last (rs_cookies resp')) = uuid"
proof -
  have "smap_get (hq_cookies (DecodeUrlAndBody raw :: 'w HttpRequest)) ''SessionId'' = Some uuid"
    using cookies_of_header [OF assms(3), where ?'a = 'w] assms(4,5) by (simp add: ParseKV_render get_set_all)
  moreover have "Manager_GetSession uuid (fold session_step ops mgr') = Some a"
    using session_steps_other [OF assms(2)] CreateNewSession_effect [OF assms(1)] by simp
  ultimately show ?thesis
    using CreateNewSession_effect [OF assms(1)] by (simp add: GetSession_def)
qed

theorem session_roundtrip_witness:
  "fst (GetSession ''u2'' (DecodeUrlAndBody (empty_request\<lparr>rq_headers := [(''Cookie'', ''SessionId=u1'')]\<rparr>) :: nat HttpRequest)
      (response_init :: string HttpResponse)
      (fold session_step [MCreate ''u3''] (snd (snd (CreateNewSession ''u1'' (response_init :: string HttpResponse)
         (\<lparr>sessions = [], store = []\<rparr> :: nat HttpSessionManager)))))) = 0"
  using session_roundtrip [of "''u1''" "response_init :: string HttpResponse" "\<lparr>sessions = [], store = []\<rparr> :: nat HttpSessionManager"
      0 _ _ "[MCreate ''u3'']" "empty_request\<lparr>rq_headers := [(''Cookie'', ''SessionId=u1'')]\<rparr>" "[(''SessionId'', ''u1'')]" "''u2''"
      "response_init :: string HttpResponse", where ?'w = nat]
  by (simp add: kv_ok_def CreateNewSession_def CreateSession_def)

text \<open>Browsers separate cookies by a semicolon and a space, and the space stays in the key: with
  any cookie before it, the session cookie is not found and every such request creates another
  session.\<close>

theorem session_lost_behind_cookie:
  assumes "smap_get (rq_headers raw) ''Cookie'' = Some (k @ ''='' @ v @ ''; SessionId='' @ sid)"
    and "kv_ok (CHR ''='') (CHR '';'') (k, v)" and "CHR '';'' \<notin> set sid" and "k \<noteq> ''SessionId''"
  shows "GetSession uuid (DecodeUrlAndBody raw :: 'w HttpRequest) resp mgr = CreateNewSession uuid resp mgr"
proof -
  let ?kvs = "[(k, v), ('' SessionId'', sid)]"
  have "k @ ''='' @ v @ ''; SessionId='' @ sid = render_kv (CHR ''='') (CHR '';'') ?kvs" by simp
  then have "hq_cookies (DecodeUrlAndBody raw :: 'w HttpRequest) = set_all ?kvs []"
    using cookies_of_header [OF assms(1), where ?'a = 'w] assms(2,3) ParseKV_render [of ?kvs "CHR ''=''" "CHR '';''" "[]"]
    by (simp add: kv_ok_def)
  then have "smap_get (hq_cookies (DecodeUrlAndBody raw :: 'w HttpRequest)) ''SessionId'' = None"
    using assms(4) by (simp add: get_set_all)
  then show ?thesis by (simp add: GetSession_def)
qed

theorem session_lost_behind_cookie_witness:
  "fst (GetSession ''u2'' (DecodeUrlAndBody (empty_request\<lparr>rq_headers := [(''Cookie'', ''t=d; SessionId=u1'')]\<rparr>) :: nat HttpRequest)
      (response_init :: string HttpResponse)
      (\<lparr>sessions = [(''u1'', 0)], store = [\<lparr>se_id = ''u1'', se_attributes = []\<rparr>]\<rparr> :: nat HttpSessionManager)) = 1"
  using session_lost_behind_cookie [of "empty_request\<lparr>rq_headers := [(''Cookie'', ''t=d; SessionId=u1'')]\<rparr>" "''t''" "''d''" "''u1''"
      "''u2''" "response_init :: string HttpResponse"
      "\<lparr>sessions = [(''u1'', 0)], store = [\<lparr>se_id = ''u1'', se_attributes = []\<rparr>]\<rparr> :: nat HttpSessionManager", where ?'w = nat]
  by (simp add: kv_ok_def CreateNewSession_def CreateSession_def)

text \<open>The URL is decoded before it is split: an encoded ampersand in a value starts a parameter.\<close>

lemma decoded_before_split:
  "hq_parameters (DecodeUrlAndBody (empty_request\<lparr>rq_url := ''/p?a=1%26b=2''\<rparr>) :: nat HttpRequest) = [(''a'', ''1''), (''b'', ''2'')]"
proof -
  let ?q = "[(''a'', ''1''), (''b'', ''2'')]"
  have u: "UrlDecode ''/p?a=1%26b=2'' = ''/p'' @ CHR ''?'' # render_kv (CHR ''='') (CHR ''&'') ?q"
    by code_simp
  have "ParseKV (render_kv (CHR ''='') (CHR ''&'') ?q) [] (CHR ''='') (CHR ''&'') = set_all ?q []"
    by (rule ParseKV_render) (simp add: kv_ok_def)
  then show ?thesis
    using decode_url [of "empty_request\<lparr>rq_url := ''/p?a=1%26b=2''\<rparr>" "''/p''" "render_kv (CHR ''='') (CHR ''&'') ?q", where ?'v = nat] u
    by (simp add: ParseKV_none empty_request_def set_all_def)
qed

end
