(* ===== verification/HttpRequestParser.thy ===== *)
theory HttpRequestParser
  imports HttpMessage
begin

text \<open>
  \<open>HttpRequestParser.h\<close> and \<open>HttpRequestParser.cpp\<close>: the callbacks that llhttp calls while it reads
  a request, with the limits they enforce, and \<open>Parse\<close> and \<open>TakeRequest\<close>. llhttp itself is a
  parameter: what it does with the bytes of a read is its list of callbacks and its verdict. The
  documented shape of the callbacks of one message, each span cut anywhere into fragments, is
  \<open>message_events\<close>; the lemmas compute what the callbacks make of it. A moved-from string is empty,
  as in the standard library the program is built with.
\<close>

record http_limits =
  max_url :: nat
  max_field :: nat
  max_value :: nat
  max_headers :: nat
  max_body :: nat

text \<open>The defaults of the configuration.\<close>

definition default_limits :: http_limits where
  "default_limits = \<lparr>max_url = 190000, max_field = 1024, max_value = 10 * 1024, max_headers = 100, max_body = 1024 * 1024\<rparr>"

record HttpRequestParser =
  hp_cur :: RawHttpRequest
  hp_check :: bool
  hp_buf :: string
  hp_valueBuf :: string
  hp_queue :: "RawHttpRequest list"

definition http_parser_init :: HttpRequestParser where
  "http_parser_init = \<lparr>hp_cur = empty_request, hp_check = True, hp_buf = [], hp_valueBuf = [], hp_queue = []\<rparr>"

datatype llhttp_event =
    LMethod string
  | LUrl string
  | LUrlComplete
  | LVersion string
  | LVersionComplete
  | LField string
  | LFieldComplete
  | LValue string
  | LValueComplete
  | LBody string
  | LMessageComplete

section \<open>The callbacks\<close>

definition OnMethod :: "string \<Rightarrow> HttpRequestParser \<Rightarrow> bool \<times> HttpRequestParser" where
  "OnMethod name p = (True, p\<lparr>hp_cur := Raw_SetMethod name (hp_cur p)\<rparr>)"

definition OnUrl :: "http_limits \<Rightarrow> string \<Rightarrow> HttpRequestParser \<Rightarrow> bool \<times> HttpRequestParser" where
  "OnUrl lim at p =
     (if length (hp_buf p) + length at > max_url lim then (False, p)
      else (True, p\<lparr>hp_buf := hp_buf p @ at\<rparr>))"

definition OnUrlComplete :: "HttpRequestParser \<Rightarrow> bool \<times> HttpRequestParser" where
  "OnUrlComplete p =
     (let p1 = p\<lparr>hp_cur := (hp_cur p)\<lparr>rq_url := hp_buf p\<rparr>, hp_buf := []\<rparr>
      in (str_find (rq_url (hp_cur p1)) ''..'' 0 = None, p1))"

definition OnVersion :: "string \<Rightarrow> HttpRequestParser \<Rightarrow> bool \<times> HttpRequestParser" where
  "OnVersion at p = (True, p\<lparr>hp_buf := hp_buf p @ at\<rparr>)"

definition OnVersionComplete :: "HttpRequestParser \<Rightarrow> bool \<times> HttpRequestParser" where
  "OnVersionComplete p = (True, p\<lparr>hp_cur := (hp_cur p)\<lparr>rq_version := ''HTTP/'' @ hp_buf p\<rparr>, hp_buf := []\<rparr>)"

definition OnHeaderField :: "http_limits \<Rightarrow> string \<Rightarrow> HttpRequestParser \<Rightarrow> bool \<times> HttpRequestParser" where
  "OnHeaderField lim at p =
     (if length (rq_headers (hp_cur p)) + 1 > max_headers lim then (False, p)
      else if length (hp_buf p) + length at > max_field lim then (False, p)
      else (True, p\<lparr>hp_buf := hp_buf p @ at\<rparr>))"

definition OnHeaderValue :: "http_limits \<Rightarrow> string \<Rightarrow> HttpRequestParser \<Rightarrow> bool \<times> HttpRequestParser" where
  "OnHeaderValue lim at p =
     (if length (hp_valueBuf p) + length at > max_value lim then (False, p)
      else (True, p\<lparr>hp_valueBuf := hp_valueBuf p @ at\<rparr>))"

definition OnHeaderValueComplete :: "HttpRequestParser \<Rightarrow> bool \<times> HttpRequestParser" where
  "OnHeaderValueComplete p =
     (True, p\<lparr>hp_cur := Raw_SetHeader (hp_buf p) (hp_valueBuf p) (hp_cur p), hp_buf := [], hp_valueBuf := []\<rparr>)"

text \<open>\<open>std::from_chars\<close> into a \<open>size_t\<close>: at least one digit, and a value that fits.\<close>

definition from_chars_size :: "string \<Rightarrow> nat option" where
  "from_chars_size s =
     (case s of [] \<Rightarrow> None
      | c # _ \<Rightarrow> if \<not> is_digit_char c then None
                else let n = fst (read_digits 0 s) in if n < 2 ^ 64 then Some n else None)"

definition OnBody :: "http_limits \<Rightarrow> string \<Rightarrow> HttpRequestParser \<Rightarrow> bool \<times> HttpRequestParser" where
  "OnBody lim at p =
     (if hp_check p then
        (case from_chars_size (GetEntry (rq_headers (hp_cur p)) ''Content-Length'') of
           None \<Rightarrow> (False, p)
         | Some n \<Rightarrow> if n > max_body lim then (False, p)
                     else (True, p\<lparr>hp_check := False, hp_buf := hp_buf p @ at\<rparr>))
      else (True, p\<lparr>hp_buf := hp_buf p @ at\<rparr>))"

definition OnMessageComplete :: "HttpRequestParser \<Rightarrow> bool \<times> HttpRequestParser" where
  "OnMessageComplete p =
     (True, p\<lparr>hp_queue := hp_queue p @ [(hp_cur p)\<lparr>rq_body := hp_buf p\<rparr>], hp_cur := empty_request,
              hp_buf := [], hp_check := True\<rparr>)"

fun on_event :: "http_limits \<Rightarrow> llhttp_event \<Rightarrow> HttpRequestParser \<Rightarrow> bool \<times> HttpRequestParser" where
  "on_event lim (LMethod name) p = OnMethod name p"
| "on_event lim (LUrl at) p = OnUrl lim at p"
| "on_event lim LUrlComplete p = OnUrlComplete p"
| "on_event lim (LVersion at) p = OnVersion at p"
| "on_event lim LVersionComplete p = OnVersionComplete p"
| "on_event lim (LField at) p = OnHeaderField lim at p"
| "on_event lim LFieldComplete p = (True, p)"
| "on_event lim (LValue at) p = OnHeaderValue lim at p"
| "on_event lim LValueComplete p = OnHeaderValueComplete p"
| "on_event lim (LBody at) p = OnBody lim at p"
| "on_event lim LMessageComplete p = OnMessageComplete p"

text \<open>llhttp stops at the first callback that reports an error.\<close>

fun run_events :: "http_limits \<Rightarrow> llhttp_event list \<Rightarrow> HttpRequestParser \<Rightarrow> bool \<times> HttpRequestParser" where
  "run_events lim [] p = (True, p)"
| "run_events lim (e # es) p =
     (case on_event lim e p of (ok, p') \<Rightarrow> if ok then run_events lim es p' else (False, p'))"

datatype llhttp_verdict = LOk | LPausedUpgrade | LError

text \<open>\<open>Parse\<close>: the callbacks of one read with llhttp's verdict; after an upgrade pause the parser is
  resumed and its second verdict counts.\<close>

definition Http_Parse ::
    "http_limits \<Rightarrow> llhttp_event list \<Rightarrow> llhttp_verdict \<Rightarrow> llhttp_verdict \<Rightarrow> HttpRequestParser \<Rightarrow> bool \<times> HttpRequestParser" where
  "Http_Parse lim es verdict resumed p =
     (case run_events lim es p of (ok, p') \<Rightarrow>
        if \<not> ok then (False, p')
        else if verdict = LPausedUpgrade then (resumed = LOk, p')
        else (verdict = LOk, p'))"

definition HasRequest :: "HttpRequestParser \<Rightarrow> bool" where
  "HasRequest p \<longleftrightarrow> hp_queue p \<noteq> []"

definition TakeRequest :: "HttpRequestParser \<Rightarrow> (RawHttpRequest \<times> HttpRequestParser) result" where
  "TakeRequest p = (case hp_queue p of [] \<Rightarrow> Inl AssertFail | rq # q \<Rightarrow> Inr (rq, p\<lparr>hp_queue := q\<rparr>))"

section \<open>The callbacks of one message\<close>

record http_message =
  hm_method :: string
  hm_url :: "string list"
  hm_version :: "string list"
  hm_headers :: "(string list \<times> string list) list"
  hm_body :: "string list"

definition header_events :: "string list \<times> string list \<Rightarrow> llhttp_event list" where
  "header_events h = map LField (fst h) @ [LFieldComplete] @ map LValue (snd h) @ [LValueComplete]"

definition message_events :: "http_message \<Rightarrow> llhttp_event list" where
  "message_events m = [LMethod (hm_method m)] @ map LUrl (hm_url m) @ [LUrlComplete]
     @ map LVersion (hm_version m) @ [LVersionComplete] @ concat (map header_events (hm_headers m))
     @ map LBody (hm_body m) @ [LMessageComplete]"

definition fragmented :: "http_message \<Rightarrow> bool" where
  "fragmented m \<longleftrightarrow> (\<forall>h \<in> set (hm_headers m). fst h \<noteq> [])"

text \<open>What the parser should make of it: the limits as the documentation of the configuration has
  them, then the request.\<close>

fun accept_headers :: "http_limits \<Rightarrow> string smap \<Rightarrow> (string \<times> string) list \<Rightarrow> string smap option" where
  "accept_headers lim m [] = Some m"
| "accept_headers lim m ((k, v) # hs) =
     (if length m < max_headers lim \<and> length k \<le> max_field lim \<and> length v \<le> max_value lim
      then accept_headers lim (smap_set m k v) hs else None)"

definition accept_body :: "http_limits \<Rightarrow> string smap \<Rightarrow> bool" where
  "accept_body lim m \<longleftrightarrow> (\<exists>n. from_chars_size (GetEntry m ''Content-Length'') = Some n \<and> n \<le> max_body lim)"

definition parsed :: "http_limits \<Rightarrow> http_message \<Rightarrow> RawHttpRequest option" where
  "parsed lim m =
     (if length (concat (hm_url m)) > max_url lim \<or> first_occurrence ''..'' (concat (hm_url m)) \<noteq> None then None
      else case accept_headers lim [] (map (\<lambda>(f, v). (concat f, concat v)) (hm_headers m)) of
        None \<Rightarrow> None
      | Some h \<Rightarrow>
          if hm_body m \<noteq> [] \<and> \<not> accept_body lim h then None
          else Some \<lparr>rq_method = map to_upper (hm_method m), rq_url = concat (hm_url m),
                     rq_version = ''HTTP/'' @ concat (hm_version m), rq_headers = h, rq_body = concat (hm_body m)\<rparr>)"

section \<open>Running the callbacks\<close>

lemma run_events_append:
  "run_events lim (es @ fs) p =
     (case run_events lim es p of (ok, p') \<Rightarrow> if ok then run_events lim fs p' else (False, p'))"
  by (induction es arbitrary: p) (auto split: prod.split)

lemma run_urls:
  "length (hp_buf p) \<le> max_url lim \<Longrightarrow>
   (if length (hp_buf p) + length (concat us) \<le> max_url lim
    then run_events lim (map LUrl us) p = (True, p\<lparr>hp_buf := hp_buf p @ concat us\<rparr>)
    else \<not> fst (run_events lim (map LUrl us) p))"
  by (induction us arbitrary: p) (fastforce simp: OnUrl_def)+

lemma run_versions:
  "run_events lim (map LVersion vs) p = (True, p\<lparr>hp_buf := hp_buf p @ concat vs\<rparr>)"
  by (induction vs arbitrary: p) (simp_all add: OnVersion_def)

lemma run_values:
  "length (hp_valueBuf p) \<le> max_value lim \<Longrightarrow>
   (if length (hp_valueBuf p) + length (concat vs) \<le> max_value lim
    then run_events lim (map LValue vs) p = (True, p\<lparr>hp_valueBuf := hp_valueBuf p @ concat vs\<rparr>)
    else \<not> fst (run_events lim (map LValue vs) p))"
  by (induction vs arbitrary: p) (fastforce simp: OnHeaderValue_def)+

lemma run_fields:
  "length (hp_buf p) \<le> max_field lim \<Longrightarrow> length (rq_headers (hp_cur p)) < max_headers lim \<Longrightarrow>
   (if length (hp_buf p) + length (concat fs) \<le> max_field lim
    then run_events lim (map LField fs) p = (True, p\<lparr>hp_buf := hp_buf p @ concat fs\<rparr>)
    else \<not> fst (run_events lim (map LField fs) p))"
  by (induction fs arbitrary: p) (fastforce simp: OnHeaderField_def)+

lemma run_fields_full:
  "fs \<noteq> [] \<Longrightarrow> \<not> length (rq_headers (hp_cur p)) < max_headers lim \<Longrightarrow> \<not> fst (run_events lim (map LField fs) p)"
  by (cases fs) (simp_all add: OnHeaderField_def)

lemma run_bodies_unchecked:
  "\<not> hp_check p \<Longrightarrow> run_events lim (map LBody bs) p = (True, p\<lparr>hp_buf := hp_buf p @ concat bs\<rparr>)"
  by (induction bs arbitrary: p) (simp_all add: OnBody_def)

lemma run_bodies:
  assumes "hp_check p"
  shows "if bs = [] \<or> accept_body lim (rq_headers (hp_cur p))
     then run_events lim (map LBody bs) p = (True, p\<lparr>hp_buf := hp_buf p @ concat bs, hp_check := (bs = [])\<rparr>)
     else \<not> fst (run_events lim (map LBody bs) p)"
  using assms by (cases bs) (auto simp: OnBody_def accept_body_def run_bodies_unchecked split: option.split)

definition set_headers :: "string smap \<Rightarrow> HttpRequestParser \<Rightarrow> HttpRequestParser" where
  "set_headers h p = p\<lparr>hp_cur := (hp_cur p)\<lparr>rq_headers := h\<rparr>\<rparr>"

lemma run_header:
  assumes "hp_buf p = []" "hp_valueBuf p = []" "fst hdr \<noteq> []"
  shows "if length (rq_headers (hp_cur p)) < max_headers lim \<and> length (concat (fst hdr)) \<le> max_field lim
            \<and> length (concat (snd hdr)) \<le> max_value lim
     then run_events lim (header_events hdr) p
            = (True, set_headers (smap_set (rq_headers (hp_cur p)) (concat (fst hdr)) (concat (snd hdr))) p)
     else \<not> fst (run_events lim (header_events hdr) p)"
proof (cases "length (rq_headers (hp_cur p)) < max_headers lim \<and> length (concat (fst hdr)) \<le> max_field lim")
  case False
  then have "\<not> fst (run_events lim (map LField (fst hdr)) p)"
    using run_fields [of p lim "fst hdr"] run_fields_full [OF assms(3), of p lim] assms(1) by (auto split: if_splits)
  then show ?thesis using False by (auto simp: header_events_def run_events_append split: prod.split)
next
  case True
  let ?p1 = "p\<lparr>hp_buf := concat (fst hdr)\<rparr>"
  have f: "run_events lim (map LField (fst hdr)) p = (True, ?p1)"
    using run_fields [of p lim "fst hdr"] True assms(1) by simp
  have v: "if length (concat (snd hdr)) \<le> max_value lim
    then run_events lim (map LValue (snd hdr)) ?p1 = (True, ?p1\<lparr>hp_valueBuf := concat (snd hdr)\<rparr>)
    else \<not> fst (run_events lim (map LValue (snd hdr)) ?p1)"
    using run_values [of ?p1 lim "snd hdr"] assms(2) by simp
  show ?thesis
    using True v assms
    by (auto simp: header_events_def run_events_append f OnHeaderValueComplete_def Raw_SetHeader_def SetEntry_def
        set_headers_def split: prod.split if_splits)
qed

lemma set_headers_again [simp]: "set_headers h (set_headers h' p) = set_headers h p"
  by (simp add: set_headers_def)

lemma set_headers_sel [simp]:
  "hp_buf (set_headers h p) = hp_buf p" "hp_valueBuf (set_headers h p) = hp_valueBuf p"
  "rq_headers (hp_cur (set_headers h p)) = h" "hp_check (set_headers h p) = hp_check p"
  "hp_queue (set_headers h p) = hp_queue p"
  by (simp_all add: set_headers_def)

lemma run_headers:
  assumes "hp_buf p = []" "hp_valueBuf p = []" "\<forall>hdr \<in> set hds. fst hdr \<noteq> []"
  shows "case accept_headers lim (rq_headers (hp_cur p)) (map (\<lambda>(f, v). (concat f, concat v)) hds) of
       Some h \<Rightarrow> run_events lim (concat (map header_events hds)) p = (True, set_headers h p)
     | None \<Rightarrow> \<not> fst (run_events lim (concat (map header_events hds)) p)"
  using assms
proof (induction hds arbitrary: p)
  case Nil
  then show ?case by (simp add: set_headers_def)
next
  case (Cons hdr hds)
  obtain f v where hdr: "hdr = (f, v)" by (cases hdr)
  let ?h = "smap_set (rq_headers (hp_cur p)) (concat f) (concat v)"
  show ?case
  proof (cases "length (rq_headers (hp_cur p)) < max_headers lim \<and> length (concat f) \<le> max_field lim \<and> length (concat v) \<le> max_value lim")
    case True
    then have "run_events lim (header_events (f, v)) p = (True, set_headers ?h p)"
      using run_header [of p "(f, v)" lim] Cons.prems by (simp add: hdr)
    then show ?thesis
      using Cons.IH [of "set_headers ?h p"] Cons.prems True
      by (simp add: hdr run_events_append split: option.split_asm option.split)
  next
    case False
    then have "\<not> fst (run_events lim (header_events (f, v)) p)"
      using run_header [of p "(f, v)" lim] Cons.prems by (simp add: hdr split: if_splits)
    then show ?thesis
      using False by (auto simp: hdr run_events_append split: prod.split)
  qed
qed

text \<open>The parser between messages.\<close>

definition idle :: "HttpRequestParser \<Rightarrow> bool" where
  "idle p \<longleftrightarrow> hp_cur p = empty_request \<and> hp_check p \<and> hp_buf p = [] \<and> hp_valueBuf p = []"

lemma idle_clear: "idle p \<Longrightarrow> p\<lparr>hp_cur := c, hp_buf := []\<rparr> = p\<lparr>hp_cur := c\<rparr>"
  by (cases p) (simp add: idle_def)

lemma run_url_part:
  assumes "idle p" "length (concat (hm_url m)) \<le> max_url lim"
  shows "run_events lim ([LMethod (hm_method m)] @ map LUrl (hm_url m) @ [LUrlComplete] @ es) p =
    (if first_occurrence ''..'' (concat (hm_url m)) = None
     then run_events lim es (p\<lparr>hp_cur := empty_request\<lparr>rq_method := map to_upper (hm_method m), rq_url := concat (hm_url m)\<rparr>\<rparr>)
     else (False, p\<lparr>hp_cur := empty_request\<lparr>rq_method := map to_upper (hm_method m), rq_url := concat (hm_url m)\<rparr>\<rparr>))"
proof -
  let ?p1 = "p\<lparr>hp_cur := empty_request\<lparr>rq_method := map to_upper (hm_method m)\<rparr>\<rparr>"
  have "run_events lim (map LUrl (hm_url m)) ?p1 = (True, ?p1\<lparr>hp_buf := concat (hm_url m)\<rparr>)"
    using run_urls [of ?p1 lim "hm_url m"] assms by (simp add: idle_def)
  then show ?thesis
    by (simp add: run_events_append OnMethod_def Raw_SetMethod_def OnUrlComplete_def str_find_def
        assms(1) [unfolded idle_def] idle_clear [OF assms(1)])
qed

lemma run_url_long:
  assumes "idle p" "\<not> length (concat (hm_url m)) \<le> max_url lim"
  shows "\<not> fst (run_events lim (message_events m) p)"
proof -
  let ?p1 = "p\<lparr>hp_cur := empty_request\<lparr>rq_method := map to_upper (hm_method m)\<rparr>\<rparr>"
  have "\<not> fst (run_events lim (map LUrl (hm_url m)) ?p1)"
    using run_urls [of ?p1 lim "hm_url m"] assms by (simp add: idle_def)
  then show ?thesis
    using assms by (auto simp: message_events_def run_events_append OnMethod_def Raw_SetMethod_def idle_def split: prod.split)
qed

lemma run_rest:
  assumes "hp_buf p = []" "hp_valueBuf p = []" "hp_check p" "fragmented m"
  shows "case accept_headers lim (rq_headers (hp_cur p)) (map (\<lambda>(f, v). (concat f, concat v)) (hm_headers m)) of
       None \<Rightarrow> \<not> fst (run_events lim (concat (map header_events (hm_headers m)) @ map LBody (hm_body m) @ [LMessageComplete]) p)
     | Some h \<Rightarrow>
        (if hm_body m = [] \<or> accept_body lim h
         then run_events lim (concat (map header_events (hm_headers m)) @ map LBody (hm_body m) @ [LMessageComplete]) p
            = (True, p\<lparr>hp_queue := hp_queue p @ [(hp_cur p)\<lparr>rq_headers := h, rq_body := concat (hm_body m)\<rparr>], hp_cur := empty_request\<rparr>)
         else \<not> fst (run_events lim (concat (map header_events (hm_headers m)) @ map LBody (hm_body m) @ [LMessageComplete]) p))"
proof -
  let ?hs = "map (\<lambda>(f, v). (concat f, concat v)) (hm_headers m)"
  have hdrs: "case accept_headers lim (rq_headers (hp_cur p)) ?hs of
       Some h \<Rightarrow> run_events lim (concat (map header_events (hm_headers m))) p = (True, set_headers h p)
     | None \<Rightarrow> \<not> fst (run_events lim (concat (map header_events (hm_headers m))) p)"
    using run_headers [of p "hm_headers m" lim] assms by (simp add: fragmented_def)
  show ?thesis
  proof (cases "accept_headers lim (rq_headers (hp_cur p)) ?hs")
    case None
    then show ?thesis using hdrs by (auto simp: run_events_append split: prod.split)
  next
    case (Some h)
    then have run: "run_events lim (concat (map header_events (hm_headers m))) p = (True, set_headers h p)"
      using hdrs by simp
    have chk: "hp_check (set_headers h p)" using assms(3) by simp
    have bd: "if hm_body m = [] \<or> accept_body lim h
       then run_events lim (map LBody (hm_body m)) (set_headers h p)
          = (True, (set_headers h p)\<lparr>hp_buf := concat (hm_body m), hp_check := (hm_body m = [])\<rparr>)
       else \<not> fst (run_events lim (map LBody (hm_body m)) (set_headers h p))"
      using run_bodies [OF chk, of "hm_body m" lim] unfolding set_headers_sel assms(1) append_Nil .
    have clear: "p\<lparr>hp_queue := q, hp_cur := c, hp_buf := [], hp_check := True\<rparr> = p\<lparr>hp_queue := q, hp_cur := c\<rparr>" for c q
      using assms by (cases p) simp
    show ?thesis
    proof (cases "hm_body m = [] \<or> accept_body lim h")
      case True
      then show ?thesis using bd Some
        by (simp add: run_events_append run OnMessageComplete_def set_headers_def clear)
    next
      case False
      then show ?thesis using bd Some by (auto simp: run_events_append run split: prod.split)
    qed
  qed
qed

lemma run_message:
  assumes "idle p" "fragmented m"
  shows "case parsed lim m of
       Some rq \<Rightarrow> run_events lim (message_events m) p = (True, p\<lparr>hp_queue := hp_queue p @ [rq]\<rparr>)
     | None \<Rightarrow> \<not> fst (run_events lim (message_events m) p)"
proof (cases "length (concat (hm_url m)) \<le> max_url lim \<and> first_occurrence ''..'' (concat (hm_url m)) = None")
  case False
  show ?thesis
  proof (cases "length (concat (hm_url m)) \<le> max_url lim")
    case long: False
    then show ?thesis using run_url_long [OF assms(1) long] by (simp add: parsed_def)
  next
    case True
    with False show ?thesis
      using run_url_part [OF assms(1) True, of "map LVersion (hm_version m) @ [LVersionComplete]
        @ concat (map header_events (hm_headers m)) @ map LBody (hm_body m) @ [LMessageComplete]"]
      by (auto simp: parsed_def message_events_def)
  qed
next
  case True
  define rq where "rq = \<lparr>rq_method = map to_upper (hm_method m), rq_url = concat (hm_url m),
              rq_version = ''HTTP/'' @ concat (hm_version m), rq_headers = [], rq_body = []\<rparr>"
  define p1 where "p1 = p\<lparr>hp_cur := rq\<rparr>"
  have start: "run_events lim (message_events m) p = run_events lim
      (concat (map header_events (hm_headers m)) @ map LBody (hm_body m) @ [LMessageComplete]) p1"
    unfolding message_events_def
    using True
    by (subst run_url_part [OF assms(1)])
      (simp_all add: run_events_append run_versions OnVersionComplete_def empty_request_def rq_def p1_def
        assms(1) [unfolded idle_def] idle_clear [OF assms(1)])
  have p1: "hp_buf p1 = []" "hp_valueBuf p1 = []" "hp_check p1" "rq_headers (hp_cur p1) = []"
    using assms(1) by (simp_all add: p1_def rq_def idle_def)
  have fin: "p1\<lparr>hp_queue := hp_queue p1 @ [(hp_cur p1)\<lparr>rq_headers := h, rq_body := b\<rparr>], hp_cur := empty_request\<rparr>
     = p\<lparr>hp_queue := hp_queue p @ [\<lparr>rq_method = map to_upper (hm_method m), rq_url = concat (hm_url m),
              rq_version = ''HTTP/'' @ concat (hm_version m), rq_headers = h, rq_body = b\<rparr>]\<rparr>" for h b
    using assms(1) by (cases p) (simp add: p1_def rq_def idle_def)
  have "\<not> length (concat (hm_url m)) > max_url lim" using True by simp
  then have "parsed lim m = (case accept_headers lim (rq_headers (hp_cur p1)) (map (\<lambda>(f, v). (concat f, concat v)) (hm_headers m)) of
        None \<Rightarrow> None
      | Some h \<Rightarrow> if \<not> (hm_body m = [] \<or> accept_body lim h) then None
          else Some \<lparr>rq_method = map to_upper (hm_method m), rq_url = concat (hm_url m),
                     rq_version = ''HTTP/'' @ concat (hm_version m), rq_headers = h, rq_body = concat (hm_body m)\<rparr>)"
    using True by (simp add: parsed_def p1(4) split: option.split)
  then show ?thesis
    using run_rest [OF p1(1-3) assms(2), of lim]
    by (cases "accept_headers lim (rq_headers (hp_cur p1)) (map (\<lambda>(f, v). (concat f, concat v)) (hm_headers m))")
      (auto simp: start fin)
qed

lemma run_messages:
  assumes "idle p" "\<forall>m \<in> set ms. fragmented m" "\<forall>m \<in> set ms. parsed lim m \<noteq> None"
  shows "run_events lim (concat (map message_events ms)) p = (True, p\<lparr>hp_queue := hp_queue p @ map (\<lambda>m. the (parsed lim m)) ms\<rparr>)"
  using assms
proof (induction ms arbitrary: p)
  case Nil
  then show ?case by simp
next
  case (Cons m ms)
  obtain rq where rq: "parsed lim m = Some rq" using Cons.prems(3) by auto
  have "run_events lim (message_events m) p = (True, p\<lparr>hp_queue := hp_queue p @ [rq]\<rparr>)"
    using run_message [of p m lim] Cons.prems rq by simp
  moreover have "idle (p\<lparr>hp_queue := hp_queue p @ [rq]\<rparr>)" using Cons.prems(1) by (simp add: idle_def)
  ultimately show ?case using Cons rq by (simp add: run_events_append)
qed

text \<open>Successive reads, each with its part of the callbacks.\<close>

fun parse_reads :: "http_limits \<Rightarrow> llhttp_event list list \<Rightarrow> HttpRequestParser \<Rightarrow> bool \<times> HttpRequestParser" where
  "parse_reads lim [] p = (True, p)"
| "parse_reads lim (es # reads) p =
     (case Http_Parse lim es LOk LOk p of (ok, p') \<Rightarrow> if ok then parse_reads lim reads p' else (False, p'))"

lemma parse_reads_concat: "parse_reads lim reads p = run_events lim (concat reads) p"
  by (induction reads arbitrary: p) (auto simp: Http_Parse_def run_events_append split: prod.split)

lemma accept_headers_bounds:
  "accept_headers lim m hs = Some h \<Longrightarrow> length m \<le> max_headers lim \<Longrightarrow>
   list_all (\<lambda>(k, v). length k \<le> max_field lim \<and> length v \<le> max_value lim) m \<Longrightarrow>
   length h \<le> max_headers lim \<and> list_all (\<lambda>(k, v). length k \<le> max_field lim \<and> length v \<le> max_value lim) h"
proof (induction lim m hs rule: accept_headers.induct)
  case (1 lim m)
  then show ?case by simp
next
  case (2 lim m k v hs)
  have "length (smap_set m k v) \<le> max_headers lim"
    using 2(2) smap_set_length_le [of m k v] by (simp split: if_splits)
  moreover have "list_all (\<lambda>(k, v). length k \<le> max_field lim \<and> length v \<le> max_value lim) (smap_set m k v)"
    using 2(2,4) by (intro smap_set_all) (simp_all split: if_splits)
  ultimately show ?case using 2 by (simp split: if_splits)
qed

section \<open>Properties\<close>

text \<open>C10: however the bytes of a sequence of requests are cut into reads and the spans into fragments,
  when every request is within the limits the reads succeed and queue exactly the requests, in
  order: method in upper case, URL, version, headers (the last of equal names wins) and body are
  those of the messages.\<close>

theorem requests_read_exactly:
  assumes "idle p" "\<forall>m \<in> set ms. fragmented m \<and> parsed lim m \<noteq> None"
    and "concat reads = concat (map message_events ms)"
  shows "parse_reads lim reads p = (True, p\<lparr>hp_queue := hp_queue p @ map (\<lambda>m. the (parsed lim m)) ms\<rparr>)"
  using assms by (simp add: parse_reads_concat run_messages)

theorem requests_read_exactly_witness:
  "hp_queue (snd (parse_reads default_limits
     [[LMethod ''GET'', LUrl ''/a''], [LUrl ''b'', LUrlComplete, LVersion ''1.1'', LVersionComplete, LMessageComplete]]
     http_parser_init)) = [empty_request\<lparr>rq_method := ''GET'', rq_url := ''/ab'', rq_version := ''HTTP/1.1''\<rparr>]"
  using requests_read_exactly [of http_parser_init
      "[\<lparr>hm_method = ''GET'', hm_url = [''/a'', ''b''], hm_version = [''1.1''], hm_headers = [], hm_body = []\<rparr>]" default_limits
      "[[LMethod ''GET'', LUrl ''/a''], [LUrl ''b'', LUrlComplete, LVersion ''1.1'', LVersionComplete, LMessageComplete]]"]
  by (simp add: idle_def http_parser_init_def fragmented_def parsed_def default_limits_def message_events_def
      empty_request_def to_upper_def char_code_def)

text \<open>C37: the limits are exact: one message is refused exactly when its URL is too long or holds a
  dot-dot, a header comes when the limit of distinct headers is reached, a field or value is too
  long, or a body comes without a Content-Length (spelled like this) of at most the maximum; and a
  request that is accepted is within every limit.\<close>

theorem request_limits_exact:
  assumes "idle p" "fragmented m"
  shows "(fst (run_events lim (message_events m) p) \<longleftrightarrow> parsed lim m \<noteq> None)
    \<and> (\<forall>rq. parsed lim m = Some rq \<longrightarrow> length (rq_url rq) \<le> max_url lim \<and> first_occurrence ''..'' (rq_url rq) = None
         \<and> length (rq_headers rq) \<le> max_headers lim
         \<and> list_all (\<lambda>(k, v). length k \<le> max_field lim \<and> length v \<le> max_value lim) (rq_headers rq)
         \<and> (rq_body rq \<noteq> [] \<longrightarrow> accept_body lim (rq_headers rq)))"
proof (intro conjI allI impI)
  show "fst (run_events lim (message_events m) p) \<longleftrightarrow> parsed lim m \<noteq> None"
    using run_message [OF assms, of lim] by (cases "parsed lim m") auto
next
  fix rq
  assume "parsed lim m = Some rq"
  then obtain h where h: "accept_headers lim [] (map (\<lambda>(f, v). (concat f, concat v)) (hm_headers m)) = Some h"
    and rq: "rq = \<lparr>rq_method = map to_upper (hm_method m), rq_url = concat (hm_url m),
                   rq_version = ''HTTP/'' @ concat (hm_version m), rq_headers = h, rq_body = concat (hm_body m)\<rparr>"
    and u: "length (concat (hm_url m)) \<le> max_url lim" "first_occurrence ''..'' (concat (hm_url m)) = None"
    and b: "hm_body m \<noteq> [] \<longrightarrow> accept_body lim h"
    by (auto simp: parsed_def split: if_splits option.splits)
  note hb = accept_headers_bounds [OF h]
  show "length (rq_url rq) \<le> max_url lim" "first_occurrence ''..'' (rq_url rq) = None" using u by (simp_all add: rq)
  show "length (rq_headers rq) \<le> max_headers lim"
    and "list_all (\<lambda>(k, v). length k \<le> max_field lim \<and> length v \<le> max_value lim) (rq_headers rq)"
    using hb by (simp_all add: rq)
  show "accept_body lim (rq_headers rq)" if "rq_body rq \<noteq> []" using b that by (auto simp: rq)
qed

theorem request_limits_exact_witness:
  "\<not> fst (run_events default_limits (message_events
      \<lparr>hm_method = ''PUT'', hm_url = [''/''], hm_version = [''1.1''], hm_headers = [([''content-length''], [''2''])], hm_body = [''hi'']\<rparr>)
      http_parser_init)"
proof -
  let ?m = "\<lparr>hm_method = ''PUT'', hm_url = [''/''], hm_version = [''1.1''], hm_headers = [([''content-length''], [''2''])], hm_body = [''hi'']\<rparr>"
  have "parsed default_limits ?m = None"
    by (simp add: parsed_def default_limits_def accept_body_def GetEntry_def from_chars_size_def)
  then show ?thesis
    using request_limits_exact [of http_parser_init ?m default_limits]
    by (simp add: idle_def http_parser_init_def fragmented_def)
qed

end
