(* ===== verification/StringUtils.thy ===== *)
theory StringUtils
  imports Prelude
begin

text \<open>
  \<open>cold/util/StringUtils.h\<close>: \<open>TrimString\<close> and \<open>SplitToViews\<close>. A view is the substring it
  denotes. The lemmas give the closed form of both: trimming throws exactly on strings made
  of the trimmed character only, and splitting on a one-character delimiter loses nothing.
\<close>

definition str_find_first_not_of :: "string \<Rightarrow> char \<Rightarrow> nat option" where
  "str_find_first_not_of s c =
     (let n = length (takeWhile (\<lambda>x. x = c) s) in if n = length s then None else Some n)"

definition str_find_last_not_of :: "string \<Rightarrow> char \<Rightarrow> nat option" where
  "str_find_last_not_of s c =
     (let n = length (takeWhile (\<lambda>x. x = c) (rev s)) in
      if n = length s then None else Some (length s - 1 - n))"

text \<open>
  With \<open>npos = 2^64 - 1\<close>: \<open>begin = npos\<close> makes \<open>substr\<close> throw, and \<open>end = npos + 1 = 0\<close>.
\<close>

definition TrimString :: "string \<Rightarrow> char \<Rightarrow> string result" where
  "TrimString str c =
     (let begin_pos = str_find_first_not_of str c;
          end_pos = (case str_find_last_not_of str c of None \<Rightarrow> 0 | Some e \<Rightarrow> e + 1)
      in case begin_pos of
           None \<Rightarrow> Inl OutOfRange
         | Some b \<Rightarrow> str_substr str b (end_pos - b))"

function split_loop :: "string \<Rightarrow> string \<Rightarrow> bool \<Rightarrow> nat \<Rightarrow> string list \<Rightarrow> string list result" where
  "split_loop str delim skipEmpty start views =
     (case str_find str delim start of
        None \<Rightarrow>
          (case str_substr_from str start of
             Inl e \<Rightarrow> Inl e
           | Inr view \<Rightarrow> Inr (if skipEmpty \<and> view = [] then views else views @ [view]))
      | Some e \<Rightarrow>
          (let view = take (e - start) (drop start str) in
           split_loop str delim skipEmpty (e + 1)
             (if skipEmpty \<and> view = [] then views else views @ [view])))"
  by pat_completeness auto
termination
  by (relation "measure (\<lambda>(str, _, _, start, _). Suc (length str) - start)")
     (auto dest!: str_find_bounds)

declare split_loop.simps [simp del]

definition SplitToViews :: "string \<Rightarrow> string \<Rightarrow> bool \<Rightarrow> string list result" where
  "SplitToViews str delim skipEmpty =
     (if str = [] then Inr [] else split_loop str delim skipEmpty 0 [])"

section \<open>Splitting on one character\<close>

text \<open>The reference splitter: the maximal runs between occurrences of \<open>c\<close>.\<close>

fun split_on :: "char \<Rightarrow> string \<Rightarrow> string list" where
  "split_on c [] = [[]]"
| "split_on c (x # xs) =
     (if x = c then [] # split_on c xs
      else (case split_on c xs of [] \<Rightarrow> [[x]] | p # ps \<Rightarrow> (x # p) # ps))"

fun intersperse_join :: "char \<Rightarrow> string list \<Rightarrow> string" where
  "intersperse_join c [] = []"
| "intersperse_join c [p] = p"
| "intersperse_join c (p # q # ps) = p @ c # intersperse_join c (q # ps)"

lemma split_on_nonempty [simp]: "split_on c s \<noteq> []"
  by (induction s) (auto split: list.splits)

lemma join_split_on: "intersperse_join c (split_on c s) = s"
proof (induction s)
  case Nil
  then show ?case by simp
next
  case (Cons x xs)
  obtain p ps where ps: "split_on c xs = p # ps"
    using split_on_nonempty [of c xs] by (cases "split_on c xs") auto
  with Cons show ?case by (cases ps) auto
qed

lemma split_on_no_delim: "\<forall>p \<in> set (split_on c s). c \<notin> set p"
  by (induction s) (auto split: list.splits)

lemma split_on_takeWhile:
  "split_on c s =
     (if c \<in> set s
      then takeWhile (\<lambda>x. x \<noteq> c) s # split_on c (drop (Suc (length (takeWhile (\<lambda>x. x \<noteq> c) s))) s)
      else [s])"
  by (induction s) auto

lemma split_on_append: "c \<notin> set p \<Longrightarrow> split_on c (p @ c # s) = p # split_on c s"
  by (induction p) auto

lemma split_on_join:
  "ps \<noteq> [] \<Longrightarrow> \<forall>p \<in> set ps. c \<notin> set p \<Longrightarrow> split_on c (intersperse_join c ps) = ps"
proof (induction c ps rule: intersperse_join.induct)
  case (2 c p)
  then show ?case by (simp add: split_on_takeWhile [of c p])
next
  case (3 c p q ps)
  then show ?case by (simp add: split_on_append)
qed simp

definition keep_views :: "bool \<Rightarrow> string list \<Rightarrow> string list" where
  "keep_views skip = (if skip then filter (\<lambda>p. p \<noteq> []) else (\<lambda>ps. ps))"

lemma keep_views_simps [simp]:
  "keep_views b [] = []"
  "keep_views b (p # ps) = (if b \<and> p = [] then keep_views b ps else p # keep_views b ps)"
  by (simp_all add: keep_views_def)

lemma split_loop_char:
  "start \<le> length str \<Longrightarrow>
   split_loop str [c] skip start views = Inr (views @ keep_views skip (split_on c (drop start str)))"
proof (induction str "[c]" skip start views rule: split_loop.induct)
  case (1 str skip start views)
  let ?rest = "drop start str"
  let ?w = "takeWhile (\<lambda>x. x \<noteq> c) ?rest"
  show ?case
  proof (cases "c \<in> set ?rest")
    case False
    then have "str_find str [c] start = None"
      by (simp add: str_find_def first_occurrence_char)
    with False 1(2) show ?thesis
      by (simp add: split_loop.simps [of str "[c]" skip start] str_substr_from_def
            split_on_takeWhile [of c ?rest])
  next
    case True
    then have find: "str_find str [c] start = Some (start + length ?w)"
      using 1(2) by (simp add: str_find_def first_occurrence_char)
    have le: "start + length ?w + 1 \<le> length str"
      using str_find_bounds [OF find] by simp
    have w: "take (length ?w) ?rest = ?w"
      by (metis takeWhile_eq_take)
    let ?views = "if skip \<and> ?w = [] then views else views @ [?w]"
    let ?next = "drop (Suc (start + length ?w)) str"
    have "split_loop str [c] skip start views = split_loop str [c] skip (start + length ?w + 1) ?views"
      by (subst split_loop.simps) (simp add: find w Let_def)
    also have "\<dots> = Inr (?views @ keep_views skip (split_on c ?next))"
      using 1(1) [OF find refl, unfolded add_diff_cancel_left' w, OF le] by simp
    also have "\<dots> = Inr (views @ keep_views skip (?w # split_on c ?next))"
      by simp
    also have "?w # split_on c ?next = split_on c ?rest"
      using True by (subst (2) split_on_takeWhile) (simp add: add.commute)
    finally show ?thesis .
  qed
qed

lemma SplitToViews_char:
  "SplitToViews str [c] skip = Inr (if str = [] then [] else keep_views skip (split_on c str))"
  by (simp add: SplitToViews_def split_loop_char)

section \<open>Trimming\<close>

lemma takeWhile_all_iff: "length (takeWhile P s) = length s \<longleftrightarrow> (\<forall>x \<in> set s. P x)"
  by (metis takeWhile_eq_take take_all_iff order_refl takeWhile_eq_all_conv)

text \<open>The trimmed string: what is left when \<open>c\<close> is dropped at both ends.\<close>

definition trimmed :: "char \<Rightarrow> string \<Rightarrow> string" where
  "trimmed c s = rev (dropWhile (\<lambda>x. x = c) (rev (dropWhile (\<lambda>x. x = c) s)))"

lemma TrimString_blank: "\<forall>x \<in> set str. x = c \<Longrightarrow> TrimString str c = Inl OutOfRange"
  using takeWhile_all_iff [of "\<lambda>x. x = c" str]
  by (simp add: TrimString_def str_find_first_not_of_def)

lemma trimmed_pads:
  assumes "core \<noteq> []" "hd core \<noteq> c" "last core \<noteq> c"
  shows "trimmed c (replicate m c @ core @ replicate n c) = core"
proof -
  have drop1: "dropWhile (\<lambda>x. x = c) (replicate m c @ xs) = dropWhile (\<lambda>x. x = c) xs" for m xs
    by (induction m) auto
  have "dropWhile (\<lambda>x. x = c) (core @ replicate n c) = core @ replicate n c"
    using assms by (cases core) auto
  moreover have "dropWhile (\<lambda>x. x = c) (rev core) = rev core"
    using assms by (cases core rule: rev_cases) auto
  ultimately show ?thesis
    by (simp add: trimmed_def drop1)
qed

lemma TrimString_pads:
  assumes "core \<noteq> []" "hd core \<noteq> c" "last core \<noteq> c"
  shows "TrimString (replicate m c @ core @ replicate n c) c = Inr core"
proof -
  let ?s = "replicate m c @ core @ replicate n c"
  have take1: "takeWhile (\<lambda>x. x = c) (replicate k c @ xs) = replicate k c @ takeWhile (\<lambda>x. x = c) xs"
    for k xs by (induction k) auto
  have t1: "takeWhile (\<lambda>x. x = c) ?s = replicate m c"
    using assms by (cases core) (auto simp: take1)
  have t2: "takeWhile (\<lambda>x. x = c) (rev ?s) = replicate n c"
    using assms by (cases core rule: rev_cases) (auto simp: take1)
  have len: "length ?s = m + length core + n" "0 < length core"
    using assms by auto
  have first: "str_find_first_not_of ?s c = Some m"
    using len by (simp only: str_find_first_not_of_def t1 Let_def length_replicate) simp
  have last: "str_find_last_not_of ?s c = Some (m + length core - 1)"
    using len by (simp only: str_find_last_not_of_def t2 Let_def length_replicate) simp
  show ?thesis
    using len by (simp add: TrimString_def first last str_substr_def)
qed

lemma strip_front:
  "s = replicate (length (takeWhile (\<lambda>x. x = c) s)) c @ dropWhile (\<lambda>x. x = c) s"
  by (induction s) auto

lemma strip_back:
  "s = rev (dropWhile (\<lambda>x. x = c) (rev s)) @ replicate (length (takeWhile (\<lambda>x. x = c) (rev s))) c"
proof (induction s rule: rev_induct)
  case Nil
  then show ?case by simp
next
  case (snoc x xs)
  show ?case
  proof (cases "x = c")
    case True
    have "xs @ [c] = rev (dropWhile (\<lambda>x. x = c) (rev xs))
                       @ replicate (length (takeWhile (\<lambda>x. x = c) (rev xs))) c @ [c]"
      unfolding append_assoc [symmetric] by (rule arg_cong [OF snoc])
    also have "\<dots> = rev (dropWhile (\<lambda>x. x = c) (rev (xs @ [c])))
                       @ replicate (length (takeWhile (\<lambda>x. x = c) (rev (xs @ [c])))) c"
      by (simp add: replicate_append_same)
    finally show ?thesis
      by (simp only: True)
  qed simp
qed

lemma blank_or_pads:
  fixes s :: string
  shows "(\<forall>x \<in> set s. x = c) \<or>
   (\<exists>m core n. s = replicate m c @ core @ replicate n c \<and> core \<noteq> [] \<and> hd core \<noteq> c \<and> last core \<noteq> c)"
proof (cases "\<forall>x \<in> set s. x = c")
  case False
  let ?a = "dropWhile (\<lambda>x. x = c) s"
  let ?core = "trimmed c s"
  have a: "?a \<noteq> []" "hd ?a \<noteq> c"
    using False hd_dropWhile [of "\<lambda>x. x = c" s] by (auto simp: dropWhile_eq_Nil_conv)
  have s: "s = replicate (length (takeWhile (\<lambda>x. x = c) s)) c @ ?a"
    by (rule strip_front)
  have ra: "?a = ?core @ replicate (length (takeWhile (\<lambda>x. x = c) (rev ?a))) c"
    unfolding trimmed_def by (rule strip_back)
  have core: "?core \<noteq> []"
    using a ra by (metis append_Nil hd_replicate replicate_empty)
  have "last ?core \<noteq> c"
    using core hd_dropWhile [of "\<lambda>x. x = c" "rev ?a"] by (simp add: trimmed_def last_rev)
  moreover have "hd ?core \<noteq> c"
    using a core ra by (metis hd_append2)
  ultimately show ?thesis
    using core s ra by (intro disjI2 exI conjI) (rule trans [OF s], subst ra, rule refl)
qed simp

lemma TrimString_eq:
  "TrimString str c = (if \<forall>x \<in> set str. x = c then Inl OutOfRange else Inr (trimmed c str))"
  using blank_or_pads [of str c] TrimString_blank [of str c]
  by (auto simp: TrimString_pads trimmed_pads)

section \<open>Properties\<close>

text \<open>Splitting on a one-character delimiter never throws and is lossless: the views are the
  maximal runs between delimiters (the empty ones dropped on request), none contains the
  delimiter, and joining them again gives the input.\<close>

theorem SplitToViews_lossless:
  "SplitToViews str [c] skip = Inr (if str = [] then [] else keep_views skip (split_on c str))
   \<and> intersperse_join c (split_on c str) = str \<and> c \<notin> set (concat (split_on c str))"
  using split_on_no_delim [of c str] by (auto simp: SplitToViews_char join_split_on)

text \<open>\<open>TrimString\<close> removes exactly the leading and trailing runs of the character, and throws
  \<open>std::out_of_range\<close> exactly when nothing else is left (the empty string included).\<close>

theorem TrimString_total:
  "TrimString str c = (if set str \<subseteq> {c} then Inl OutOfRange else Inr (trimmed c str))"
  by (auto simp: TrimString_eq)

text \<open>With a delimiter of more than one character the search resumes one byte after its start, so
  the rest of the delimiter stays in the next view.\<close>

lemma SplitToViews_two_char_delimiter:
  "SplitToViews ''a=1; b=2'' ''; '' False = Inr [''a=1'', '' b=2'']"
  by (simp add: SplitToViews_def split_loop.simps str_find_def str_substr_from_def)

end
