(* ===== verification/Router.thy ===== *)
theory Router
  imports StringUtils "HOL-Library.Sublist"
begin

text \<open>
  \<open>Router.h\<close>, \<open>DispatcherServlet.h\<close> and the dispatch of \<open>ServletContext.h\<close>. \<open>ServletNode\<close> and
  \<open>FilterNode\<close> are the same tree over the parts of a URL with a different payload (the servlet, or
  the filters in registration order), so both are \<open>RouteNode\<close> here. Filters and servlets are
  functions on the pair of request and response, whose type is a parameter. The tree is related to
  the flat table of registered routes: the properties say what a URL is dispatched to in terms of
  the table only.
\<close>

section \<open>The route trees\<close>

datatype 'p RouteNode = RouteNode (children: "(string \<times> 'p RouteNode) list") (payload: 'p)

definition wildcard :: string where "wildcard = ''**''"

text \<open>The loop of \<open>Insert\<close>: a missing child is created with the default payload, and the payload of
  the last node is changed.\<close>

fun insert_parts :: "'p \<Rightarrow> ('p \<Rightarrow> 'p) \<Rightarrow> string list \<Rightarrow> 'p RouteNode \<Rightarrow> 'p RouteNode" where
  "insert_parts new change [] (RouteNode cs p) = RouteNode cs (change p)"
| "insert_parts new change (part # parts) (RouteNode cs p) =
     (let child = (case smap_get cs part of None \<Rightarrow> RouteNode [] new | Some n \<Rightarrow> n)
      in RouteNode (smap_set cs part (insert_parts new change parts child)) p)"

definition Servlet_Insert :: "string \<Rightarrow> 's \<Rightarrow> 's option RouteNode \<Rightarrow> 's option RouteNode result" where
  "Servlet_Insert url servlet root = bind_result (SplitToViews url ''/'' True)
     (\<lambda>parts. Inr (insert_parts None (\<lambda>_. Some servlet) parts root))"

definition Filter_Insert :: "string \<Rightarrow> 'f \<Rightarrow> 'f list RouteNode \<Rightarrow> 'f list RouteNode result" where
  "Filter_Insert url flt root = bind_result (SplitToViews url ''/'' True)
     (\<lambda>parts. Inr (insert_parts [] (\<lambda>fs. fs @ [flt]) parts root))"

fun match_parts :: "string list \<Rightarrow> 's option RouteNode \<Rightarrow> 's option" where
  "match_parts [] (RouteNode cs p) = p"
| "match_parts (part # parts) (RouteNode cs p) =
     (case smap_get cs part of
        None \<Rightarrow> (case smap_get cs wildcard of None \<Rightarrow> None | Some n \<Rightarrow> payload n)
      | Some n \<Rightarrow> match_parts parts n)"

definition TryMatch :: "string \<Rightarrow> 's option RouteNode \<Rightarrow> 's option result" where
  "TryMatch url root = bind_result (SplitToViews url ''/'' True) (\<lambda>parts. Inr (match_parts parts root))"

fun chain_parts :: "string list \<Rightarrow> 'f list RouteNode \<Rightarrow> 'f list" where
  "chain_parts [] (RouteNode cs p) = p"
| "chain_parts (part # parts) (RouteNode cs p) =
     (case smap_get cs wildcard of None \<Rightarrow> [] | Some n \<Rightarrow> payload n) @
     (case smap_get cs part of None \<Rightarrow> [] | Some n \<Rightarrow> chain_parts parts n)"

definition MatchChain :: "string \<Rightarrow> 'f list RouteNode \<Rightarrow> 'f list result" where
  "MatchChain url root = bind_result (SplitToViews url ''/'' True) (\<lambda>parts. Inr (chain_parts parts root))"

record ('f, 's) Router =
  servletRouterRoot :: "'s option RouteNode"
  filterRouterRoot :: "'f list RouteNode"

definition Router_init :: "('f, 's) Router" where
  "Router_init = \<lparr>servletRouterRoot = RouteNode [] None, filterRouterRoot = RouteNode [] []\<rparr>"

definition AddFilterRoute :: "string \<Rightarrow> 'f \<Rightarrow> ('f, 's) Router \<Rightarrow> ('f, 's) Router result" where
  "AddFilterRoute url flt r = bind_result (Filter_Insert url flt (filterRouterRoot r))
     (\<lambda>n. Inr (r\<lparr>filterRouterRoot := n\<rparr>))"

definition AddServletRoute :: "string \<Rightarrow> 's \<Rightarrow> ('f, 's) Router \<Rightarrow> ('f, 's) Router result" where
  "AddServletRoute url servlet r = bind_result (Servlet_Insert url servlet (servletRouterRoot r))
     (\<lambda>n. Inr (r\<lparr>servletRouterRoot := n\<rparr>))"

definition MatchFilters :: "string \<Rightarrow> ('f, 's) Router \<Rightarrow> 'f list result" where
  "MatchFilters url r = MatchChain url (filterRouterRoot r)"

definition MatchServlet :: "string \<Rightarrow> ('f, 's) Router \<Rightarrow> 's option result" where
  "MatchServlet url r = TryMatch url (servletRouterRoot r)"

section \<open>Dispatch\<close>

text \<open>A filter answers whether to go on; both filters and servlets change request and response.\<close>

type_synonym 'r filter_fun = "'r \<Rightarrow> (bool \<times> 'r) result"
type_synonym 'r servlet_fun = "'r \<Rightarrow> 'r result"
type_synonym 'r router = "('r filter_fun, 'r servlet_fun) Router"

fun run_filters :: "'r filter_fun list \<Rightarrow> 'r \<Rightarrow> (bool \<times> 'r) result" where
  "run_filters [] r = Inr (True, r)"
| "run_filters (f # fs) r = bind_result (f r) (\<lambda>(go, r'). if go then run_filters fs r' else Inr (False, r'))"

definition run_route :: "'r filter_fun list \<Rightarrow> 'r servlet_fun option \<Rightarrow> 'r \<Rightarrow> (bool \<times> 'r) result" where
  "run_route filters servlet r = bind_result (run_filters filters r) (\<lambda>(go, r').
     if \<not> go then Inr (True, r')
     else case servlet of None \<Rightarrow> Inr (False, r')
          | Some h \<Rightarrow> bind_result (h r') (\<lambda>r''. Inr (True, r'')))"

definition DoDispathcer :: "'r router \<Rightarrow> string \<Rightarrow> 'r \<Rightarrow> (bool \<times> 'r) result" where
  "DoDispathcer router url r = bind_result (MatchFilters url router) (\<lambda>filters.
     bind_result (MatchServlet url router) (\<lambda>servlet. run_route filters servlet r))"

definition ForwardTo :: "'r router \<Rightarrow> 'r servlet_fun \<Rightarrow> string \<Rightarrow> 'r \<Rightarrow> 'r result" where
  "ForwardTo router defaultServlet url r = bind_result (DoDispathcer router url r) (\<lambda>(found, r1).
     if found then Inr r1
     else if url = ''/'' then
       bind_result (DoDispathcer router ''/index.html'' r1) (\<lambda>(found', r2).
         if found' then Inr r2 else defaultServlet r2)
     else defaultServlet r1)"

section \<open>The tree and the table of routes\<close>

text \<open>The payload of the node at a path, if there is a node.\<close>

fun lookup :: "string list \<Rightarrow> 'p RouteNode \<Rightarrow> 'p option" where
  "lookup [] (RouteNode cs p) = Some p"
| "lookup (part # parts) (RouteNode cs p) =
     (case smap_get cs part of None \<Rightarrow> None | Some n \<Rightarrow> lookup parts n)"

definition payload_or :: "'p \<Rightarrow> 'p option \<Rightarrow> 'p" where
  "payload_or new lp = (case lp of None \<Rightarrow> new | Some p \<Rightarrow> p)"

lemma payload_or_simps [simp]: "payload_or new None = new" "payload_or new (Some p) = p"
  by (simp_all add: payload_or_def)

lemma lookup_fresh: "lookup ps (RouteNode [] new) = (if ps = [] then Some new else None)"
  by (cases ps) auto

lemma lookup_Nil: "lookup [] n = Some (payload n)"
  by (cases n) simp

lemma lookup_insert:
  "lookup ps (insert_parts new change qs n) =
     (if ps = qs then Some (change (payload_or new (lookup qs n)))
      else if prefix ps qs then Some (payload_or new (lookup ps n))
      else lookup ps n)"
proof (induction new change qs n arbitrary: ps rule: insert_parts.induct)
  case (1 new change cs p)
  then show ?case by (cases ps) auto
next
  case (2 new change part parts cs p)
  show ?case
  proof (cases ps)
    case Nil
    then show ?thesis by (simp add: Let_def)
  next
    case (Cons x xs)
    show ?thesis
    proof (cases "smap_get cs part")
      case None
      then show ?thesis using 2 Cons by (auto simp: smap_get_set lookup_fresh Let_def)
    next
      case (Some n)
      then show ?thesis using 2 Cons by (auto simp: smap_get_set Let_def)
    qed
  qed
qed

text \<open>Registering a list of routes, in order.\<close>

definition insert_routes :: "'p \<Rightarrow> ('x \<Rightarrow> 'p \<Rightarrow> 'p) \<Rightarrow> (string list \<times> 'x) list \<Rightarrow> 'p RouteNode" where
  "insert_routes new change rs = fold (\<lambda>(qs, x). insert_parts new (change x) qs) rs (RouteNode [] new)"

definition known :: "(string list \<times> 'x) list \<Rightarrow> string list \<Rightarrow> bool" where
  "known rs ps \<longleftrightarrow> ps = [] \<or> (\<exists>(qs, _) \<in> set rs. prefix ps qs)"

definition routes_at :: "(string list \<times> 'x) list \<Rightarrow> string list \<Rightarrow> 'x list" where
  "routes_at rs ps = map snd (filter (\<lambda>(qs, _). qs = ps) rs)"

lemma insert_routes_snoc:
  "insert_routes new change (rs @ [(qs, x)]) = insert_parts new (change x) qs (insert_routes new change rs)"
  by (simp add: insert_routes_def)

lemma known_snoc: "known (rs @ [(qs, x)]) ps \<longleftrightarrow> known rs ps \<or> prefix ps qs"
  by (auto simp: known_def)

lemma routes_at_known: "routes_at rs ps \<noteq> [] \<Longrightarrow> known rs ps"
  by (auto simp: routes_at_def known_def filter_empty_conv)

lemma lookup_routes:
  "lookup ps (insert_routes new change rs) =
     (if known rs ps then Some (fold change (routes_at rs ps) new) else None)"
proof (induction rs rule: rev_induct)
  case Nil
  then show ?case by (simp add: insert_routes_def known_def routes_at_def lookup_fresh)
next
  case (snoc r rs)
  obtain qs x where r: "r = (qs, x)" by (cases r)
  have unk: "\<not> known rs ps \<Longrightarrow> routes_at rs ps = []" for ps
    using routes_at_known by blast
  show ?case
    using snoc unk [of ps]
    by (auto simp: r insert_routes_snoc lookup_insert known_snoc routes_at_def)
qed

text \<open>The longest known prefix of a path.\<close>

definition known_prefix :: "(string list \<Rightarrow> bool) \<Rightarrow> string list \<Rightarrow> string list" where
  "known_prefix kn ps = last (filter kn (prefixes ps))"

lemma known_prefix_Nil: "kn [] \<Longrightarrow> known_prefix kn [] = []"
  by (simp add: known_prefix_def)

lemma filter_prefixes_none:
  assumes "\<And>q. \<not> kn (x # q)"
  shows "filter kn (map ((#) x) (prefixes ps)) = []"
  using assms by (auto simp: filter_empty_conv)

lemma known_prefix_stop: "kn [] \<Longrightarrow> (\<And>q. \<not> kn (x # q)) \<Longrightarrow> known_prefix kn (x # ps) = []"
  by (simp add: known_prefix_def filter_prefixes_none)

lemma known_prefix_step:
  assumes "kn [x]"
  shows "known_prefix kn (x # ps) = x # known_prefix (\<lambda>q. kn (x # q)) ps"
proof -
  let ?f = "filter (kn \<circ> (#) x) (prefixes ps)"
  have "[] \<in> set ?f" using assms by simp
  then have ne: "?f \<noteq> []" by (metis empty_iff list.set(1))
  then have "last (filter kn (prefixes (x # ps))) = last (map ((#) x) ?f)"
    by (simp add: filter_map)
  then show ?thesis using ne by (simp add: known_prefix_def last_map o_def)
qed

text \<open>What a path is dispatched to, stated over the payloads of the tree.\<close>

definition match_spec :: "(string list \<Rightarrow> 's option option) \<Rightarrow> string list \<Rightarrow> 's option" where
  "match_spec lk ps = (let pre = known_prefix (\<lambda>q. lk q \<noteq> None) ps in
     payload_or None (lk (if pre = ps then ps else pre @ [wildcard])))"

definition chain_spec :: "(string list \<Rightarrow> 'f list option) \<Rightarrow> string list \<Rightarrow> 'f list" where
  "chain_spec lk ps = (let pre = known_prefix (\<lambda>q. lk q \<noteq> None) ps in
     concat (map (\<lambda>q. payload_or [] (lk (q @ [wildcard]))) (filter (\<lambda>q. q \<noteq> ps) (prefixes pre)))
     @ (if pre = ps then payload_or [] (lk ps) else []))"

lemma match_parts_spec: "match_parts ps n = match_spec (\<lambda>q. lookup q n) ps"
proof (induction ps arbitrary: n)
  case Nil
  then show ?case by (cases n) (simp add: match_spec_def known_prefix_Nil)
next
  case (Cons x ps)
  obtain cs p where n: "n = RouteNode cs p" by (cases n)
  show ?case
  proof (cases "smap_get cs x")
    case None
    then have "known_prefix (\<lambda>q. lookup q n \<noteq> None) (x # ps) = []"
      by (intro known_prefix_stop) (simp_all add: n)
    then show ?thesis using None by (simp add: match_spec_def n lookup_Nil del: not_None_eq split: option.split)
  next
    case (Some m)
    then have "known_prefix (\<lambda>q. lookup q n \<noteq> None) (x # ps) = x # known_prefix (\<lambda>q. lookup q m \<noteq> None) ps"
      by (subst known_prefix_step) (simp_all add: n lookup_Nil)
    then show ?thesis using Some Cons [of m] by (simp add: match_spec_def n Let_def del: not_None_eq)
  qed
qed

lemma chain_parts_spec: "chain_parts ps n = chain_spec (\<lambda>q. lookup q n) ps"
proof (induction ps arbitrary: n)
  case Nil
  then show ?case by (cases n) (simp add: chain_spec_def known_prefix_Nil)
next
  case (Cons x ps)
  obtain cs p where n: "n = RouteNode cs p" by (cases n)
  have first: "payload_or [] (lookup [wildcard] n) = (case smap_get cs wildcard of None \<Rightarrow> [] | Some m \<Rightarrow> payload m)"
    by (simp add: n lookup_Nil split: option.split)
  show ?case
  proof (cases "smap_get cs x")
    case None
    then have "known_prefix (\<lambda>q. lookup q n \<noteq> None) (x # ps) = []"
      by (intro known_prefix_stop) (simp_all add: n)
    then show ?thesis using None first by (simp add: chain_spec_def n del: not_None_eq)
  next
    case (Some m)
    then have kp: "known_prefix (\<lambda>q. lookup q n \<noteq> None) (x # ps) = x # known_prefix (\<lambda>q. lookup q m \<noteq> None) ps"
      by (subst known_prefix_step) (simp_all add: n lookup_Nil)
    have "filter (\<lambda>q. q \<noteq> x # ps) (map ((#) x) qs) = map ((#) x) (filter (\<lambda>q. q \<noteq> ps) qs)" for qs
      by (induction qs) auto
    then show ?thesis using Some Cons [of m] first
      by (simp add: chain_spec_def kp Let_def o_def del: not_None_eq) (simp add: n del: not_None_eq)
  qed
qed

section \<open>Dispatch by the table\<close>

datatype ('f, 's) route_op = AddF string 'f | AddS string 's

fun add_routes :: "('f, 's) route_op list \<Rightarrow> ('f, 's) Router \<Rightarrow> ('f, 's) Router result" where
  "add_routes [] r = Inr r"
| "add_routes (AddF url flt # ops) r = bind_result (AddFilterRoute url flt r) (add_routes ops)"
| "add_routes (AddS url servlet # ops) r = bind_result (AddServletRoute url servlet r) (add_routes ops)"

definition parts_of :: "string \<Rightarrow> string list" where
  "parts_of url = (if url = [] then [] else keep_views True (split_on (CHR ''/'') url))"

lemma Split_parts: "SplitToViews url ''/'' True = Inr (parts_of url)"
  by (simp add: SplitToViews_char parts_of_def)

fun filter_table :: "('f, 's) route_op list \<Rightarrow> (string list \<times> 'f) list" where
  "filter_table [] = []"
| "filter_table (AddF url flt # ops) = (parts_of url, flt) # filter_table ops"
| "filter_table (AddS url servlet # ops) = filter_table ops"

fun servlet_table :: "('f, 's) route_op list \<Rightarrow> (string list \<times> 's) list" where
  "servlet_table [] = []"
| "servlet_table (AddF url flt # ops) = servlet_table ops"
| "servlet_table (AddS url servlet # ops) = (parts_of url, servlet) # servlet_table ops"

definition spec_servlet :: "(string list \<times> 's) list \<Rightarrow> string list \<Rightarrow> 's option" where
  "spec_servlet rs ps =
     (let pre = known_prefix (known rs) ps;
          hits = routes_at rs (if pre = ps then ps else pre @ [wildcard])
      in if hits = [] then None else Some (last hits))"

definition spec_filters :: "(string list \<times> 'f) list \<Rightarrow> string list \<Rightarrow> 'f list" where
  "spec_filters rs ps =
     (let pre = known_prefix (known rs) ps
      in concat (map (\<lambda>q. routes_at rs (q @ [wildcard])) (filter (\<lambda>q. q \<noteq> ps) (prefixes pre)))
         @ (if pre = ps then routes_at rs ps else []))"

lemma add_routes_total:
  "add_routes ops r = Inr
     \<lparr>servletRouterRoot = fold (\<lambda>(qs, x). insert_parts None (\<lambda>_. Some x) qs) (servlet_table ops) (servletRouterRoot r),
      filterRouterRoot = fold (\<lambda>(qs, x). insert_parts [] (\<lambda>fs. fs @ [x]) qs) (filter_table ops) (filterRouterRoot r)\<rparr>"
  by (induction ops r rule: add_routes.induct)
    (simp_all add: AddFilterRoute_def AddServletRoute_def Filter_Insert_def Servlet_Insert_def Split_parts)

lemma fold_last: "fold (\<lambda>x _. Some x) xs acc = (if xs = [] then acc else Some (last xs))"
  by (induction xs arbitrary: acc) auto

lemma fold_append: "fold (\<lambda>x fs. fs @ [x]) xs acc = acc @ xs"
  by (induction xs arbitrary: acc) auto

lemma unknown_routes: "\<not> known rs q \<Longrightarrow> routes_at rs q = []"
  using routes_at_known by blast

lemma servlets_refine:
  "match_parts ps (insert_routes None (\<lambda>x _. Some x) rs) = spec_servlet rs ps"
proof -
  let ?n = "insert_routes None (\<lambda>x _. Some x) rs"
  have p: "payload_or None (lookup q ?n) = (if routes_at rs q = [] then None else Some (last (routes_at rs q)))" for q
    by (simp add: lookup_routes fold_last unknown_routes)
  have k: "(\<lambda>q. lookup q ?n \<noteq> None) = known rs" by (rule ext) (simp add: lookup_routes)
  show ?thesis unfolding match_parts_spec match_spec_def spec_servlet_def k p Let_def ..
qed

lemma filters_refine:
  "chain_parts ps (insert_routes [] (\<lambda>x fs. fs @ [x]) rs) = spec_filters rs ps"
proof -
  let ?n = "insert_routes [] (\<lambda>x fs. fs @ [x]) rs"
  have p: "payload_or [] (lookup q ?n) = routes_at rs q" for q
    by (simp add: lookup_routes fold_append unknown_routes)
  have k: "(\<lambda>q. lookup q ?n \<noteq> None) = known rs" by (rule ext) (simp add: lookup_routes)
  show ?thesis unfolding chain_parts_spec chain_spec_def spec_filters_def k p ..
qed

text \<open>The specification of dispatch, over the tables.\<close>

definition spec_dispatch :: "(string list \<times> 'r filter_fun) list \<Rightarrow> (string list \<times> 'r servlet_fun) list \<Rightarrow> string \<Rightarrow> 'r \<Rightarrow> (bool \<times> 'r) result" where
  "spec_dispatch fs ss url = run_route (spec_filters fs (parts_of url)) (spec_servlet ss (parts_of url))"

definition spec_forward :: "(string list \<times> 'r filter_fun) list \<Rightarrow> (string list \<times> 'r servlet_fun) list \<Rightarrow> 'r servlet_fun \<Rightarrow> string \<Rightarrow> 'r \<Rightarrow> 'r result" where
  "spec_forward fs ss notFound url r = bind_result (spec_dispatch fs ss url r) (\<lambda>(found, r1).
     if found then Inr r1
     else if url = ''/'' then bind_result (spec_dispatch fs ss ''/index.html'' r1)
            (\<lambda>(found', r2). if found' then Inr r2 else notFound r2)
     else notFound r1)"

lemma dispatch_refines:
  "DoDispathcer \<lparr>servletRouterRoot = insert_routes None (\<lambda>x _. Some x) ss,
                 filterRouterRoot = insert_routes [] (\<lambda>x fs. fs @ [x]) fs\<rparr> url
     = spec_dispatch fs ss url"
  by (rule ext)
    (simp add: DoDispathcer_def MatchFilters_def MatchServlet_def MatchChain_def TryMatch_def Split_parts
      filters_refine servlets_refine spec_dispatch_def)

section \<open>Properties\<close>

text \<open>C7: the router refines the table of registered routes: after any sequence of registrations, a
  request is dispatched as the table says. Its filters are those registered at the wildcard of
  each prefix of the path that leads to some route, outermost first and in registration order, then
  those of the path itself; the servlet is the last one registered at the path or, where the path
  leaves the routes, at the wildcard of the longest prefix that leads to some route (and no other
  wildcard); a filter that refuses ends the request, the root falls back to the index page, and
  anything else to the default servlet.\<close>

theorem dispatch_by_table:
  "\<exists>router. add_routes ops Router_init = Inr router
     \<and> ForwardTo router notFound = spec_forward (filter_table ops) (servlet_table ops) notFound"
proof -
  let ?r = "\<lparr>servletRouterRoot = insert_routes None (\<lambda>x _. Some x) (servlet_table ops),
             filterRouterRoot = insert_routes [] (\<lambda>x fs. fs @ [x]) (filter_table ops)\<rparr>"
  have "add_routes ops Router_init = Inr ?r"
    by (simp add: add_routes_total Router_init_def insert_routes_def)
  moreover have "ForwardTo ?r notFound = spec_forward (filter_table ops) (servlet_table ops) notFound"
    by (intro ext) (unfold ForwardTo_def spec_forward_def dispatch_refines, rule refl)
  ultimately show ?thesis by blast
qed

text \<open>Registering a deeper route takes its siblings away from an outer wildcard: there is no
  backtracking in \<open>TryMatch\<close>.\<close>

lemma wildcard_shadowed:
  "(case add_routes [AddS ''/a/**'' (1 :: nat), AddS ''/a/b/c'' 2] (Router_init :: (nat, nat) Router) of
      Inr r \<Rightarrow> (MatchServlet ''/a/x/d'' r, MatchServlet ''/a/b/d'' r, MatchServlet ''/a'' r))
     = (Inr (Some 1), Inr None, Inr None)"
  by (simp add: add_routes_total Router_init_def MatchServlet_def TryMatch_def Split_parts parts_of_def
      Let_def wildcard_def)

end
