(* ===== verification/StaticFile.thy ===== *)
theory StaticFile
  imports HttpRequest
begin

text \<open>
  \<open>StaticFileBody.h\<close> and \<open>StaticFileServlet.h\<close>: serving a file below the document root. The file
  system is a parameter: what \<open>std::filesystem\<close> reports about a path, and the contents when \<open>open\<close>
  succeeds. \<open>sendfile\<close> on a non-blocking socket is its list of results, each with whether the
  socket was still connected. The lemmas show which paths are served, that the announced length is
  the length sent, that a successful send sent the whole file and nothing else, and the two ways
  it goes wrong (a path without a dot, a file that shrinks).
\<close>

definition mimetypes :: "(string \<times> string) list" where
  "mimetypes =
    [(''.html'', ''text/html''),
     (''.htm'', ''text/html''),
     (''.shtml'', ''text/html''),
     (''.css'', ''text/css''),
     (''.xml'', ''text/xml''),
     (''.gif'', ''image/gif''),
     (''.jpeg'', ''image/jpeg''),
     (''.jpg'', ''image/jpeg''),
     (''.js'', ''application/javascript''),
     (''.atom'', ''application/atom+xml''),
     (''.rss'', ''application/rss+xml''),
     (''.mml'', ''text/mathml''),
     (''.txt'', ''text/plain''),
     (''.jad'', ''text/vnd.sun.j2me.app-descriptor''),
     (''.wml'', ''text/vnd.wap.wml''),
     (''.htc'', ''text/x-component''),
     (''.png'', ''image/png''),
     (''.tif'', ''image/tiff''),
     (''.tiff'', ''image/tiff''),
     (''.wbmp'', ''image/vnd.wap.wbmp''),
     (''.ico'', ''image/x-icon''),
     (''.jng'', ''image/x-jng''),
     (''.bmp'', ''image/x-ms-bmp''),
     (''.svg'', ''image/svg+xml''),
     (''.svgz'', ''image/svg+xml''),
     (''.webp'', ''image/webp''),
     (''.woff'', ''font/woff''),
     (''.woff2'', ''font/woff2''),
     (''.jar'', ''application/java-archive''),
     (''.war'', ''application/java-archive''),
     (''.ear'', ''application/java-archive''),
     (''.json'', ''application/json''),
     (''.hqx'', ''application/mac-binhex40''),
     (''.doc'', ''application/msword''),
     (''.pdf'', ''application/pdf''),
     (''.ps'', ''application/postscript''),
     (''.eps'', ''application/postscript''),
     (''.ai'', ''application/postscript''),
     (''.rtf'', ''application/rtf''),
     (''.m3u8'', ''application/vnd.apple.mpegurl''),
     (''.xls'', ''application/vnd.ms-excel''),
     (''.eot'', ''application/vnd.ms-fontobject''),
     (''.ppt'', ''application/vnd.ms-powerpoint''),
     (''.wmlc'', ''application/vnd.wap.wmlc''),
     (''.kml'', ''application/vnd.google-earth.kml+xml''),
     (''.kmz'', ''application/vnd.google-earth.kmz''),
     (''.7z'', ''application/x-7z-compressed''),
     (''.cco'', ''application/x-cocoa''),
     (''.jardiff'', ''application/x-java-archive-diff''),
     (''.jnlp'', ''application/x-java-jnlp-file''),
     (''.run'', ''application/x-makeself''),
     (''.pl'', ''application/x-perl''),
     (''.pm'', ''application/x-perl''),
     (''.prc'', ''application/x-pilot''),
     (''.pdb'', ''application/x-pilot''),
     (''.rar'', ''application/x-rar-compressed''),
     (''.rpm'', ''application/x-redhat-package-manager''),
     (''.sea'', ''application/x-sea''),
     (''.swf'', ''application/x-shockwave-flash''),
     (''.sit'', ''application/x-stuffit''),
     (''.tcl'', ''application/x-tcl''),
     (''.tk'', ''application/x-tcl''),
     (''.der'', ''application/x-x509-ca-cert''),
     (''.pem'', ''application/x-x509-ca-cert''),
     (''.crt'', ''application/x-x509-ca-cert''),
     (''.xpi'', ''application/x-xpinstall''),
     (''.xhtml'', ''application/xhtml+xml''),
     (''.xspf'', ''application/xspf+xml''),
     (''.zip'', ''application/zip''),
     (''.bin'', ''application/octet-stream''),
     (''.exe'', ''application/octet-stream''),
     (''.dll'', ''application/octet-stream''),
     (''.deb'', ''application/octet-stream''),
     (''.dmg'', ''application/octet-stream''),
     (''.iso'', ''application/octet-stream''),
     (''.img'', ''application/octet-stream''),
     (''.msi'', ''application/octet-stream''),
     (''.msp'', ''application/octet-stream''),
     (''.msm'', ''application/octet-stream''),
     (''.docx'', ''application/vnd.openxmlformats-officedocument.wordprocessingml.document''),
     (''.xlsx'', ''application/vnd.openxmlformats-officedocument.spreadsheetml.sheet''),
     (''.pptx'', ''application/vnd.openxmlformats-officedocument.presentationml.presentation''),
     (''.mid'', ''audio/midi''),
     (''.midi'', ''audio/midi''),
     (''.kar'', ''audio/midi''),
     (''.mp3'', ''audio/mpeg''),
     (''.ogg'', ''audio/ogg''),
     (''.m4a'', ''audio/x-m4a''),
     (''.ra'', ''audio/x-realaudio''),
     (''.3gpp'', ''video/3gpp''),
     (''.3gp'', ''video/3gpp''),
     (''.ts'', ''video/mp2t''),
     (''.mp4'', ''video/mp4''),
     (''.mpeg'', ''video/mpeg''),
     (''.mpg'', ''video/mpeg''),
     (''.mov'', ''video/quicktime''),
     (''.webm'', ''video/webm''),
     (''.flv'', ''video/x-flv''),
     (''.m4v'', ''video/x-m4v''),
     (''.mng'', ''video/x-mng''),
     (''.asx'', ''video/x-ms-asf''),
     (''.asf'', ''video/x-ms-asf''),
     (''.wmv'', ''video/x-ms-wmv''),
     (''.avi'', ''video/x-msvideo'')]"

record file_info =
  fi_regular :: bool
  fi_others_read :: bool
  fi_size :: "nat option"
  fi_open :: "string option"

type_synonym filesystem = "string \<Rightarrow> file_info option"

record StaticFileBody =
  sf_path :: string
  sf_docRoot :: string
  sf_fd :: "string option"
  sf_size :: nat

definition StaticFileBody_new ::
    "filesystem \<Rightarrow> string \<Rightarrow> string \<Rightarrow> 'b HttpResponse \<Rightarrow> StaticFileBody \<times> 'b HttpResponse" where
  "StaticFileBody_new fs requestPath docRoot resp =
     (let b = \<lparr>sf_path = requestPath, sf_docRoot = docRoot, sf_fd = None, sf_size = 0\<rparr>
      in if str_find requestPath ''..'' 0 \<noteq> None then (b, SetStatus 404 resp)
         else
           (let path = (if requestPath = ''/'' then ''/index.html'' else requestPath);
                b1 = b\<lparr>sf_path := path\<rparr>
            in case fs (docRoot @ path) of
                 None \<Rightarrow> (b1, SetStatus 404 resp)
               | Some f \<Rightarrow>
                   if \<not> fi_regular f \<or> \<not> fi_others_read f then (b1, SetStatus 404 resp)
                   else (case fi_size f of
                       None \<Rightarrow> (b1, SetStatus 500 resp)
                     | Some n \<Rightarrow> (case fi_open f of
                         None \<Rightarrow> (b1\<lparr>sf_size := n\<rparr>, SetStatus 500 resp)
                       | Some content \<Rightarrow> (b1\<lparr>sf_size := n, sf_fd := Some content\<rparr>, resp)))))"

definition content_type :: "string \<Rightarrow> string" where
  "content_type ext = (case map_of mimetypes ext of Some t \<Rightarrow> t | None \<Rightarrow> ''text/html'') @ ''; charset=utf-8''"

definition File_SetRelatedHeaders :: "StaticFileBody \<Rightarrow> string smap \<Rightarrow> string smap result" where
  "File_SetRelatedHeaders b headers =
     (if sf_fd b = None then Inr headers
      else
        (let h1 = SetEntry ''Content-Length'' (show_nat (sf_size b)) headers
         in case str_rfind (sf_path b) (CHR ''.'') of
              None \<Rightarrow> Inl OutOfRange
            | Some p \<Rightarrow>
                bind_result (str_substr_from (sf_path b) p) (\<lambda>suffix.
                  Inr (SetEntry ''Content-Type'' (content_type suffix) h1))))"

definition File_ToRawBody :: "StaticFileBody \<Rightarrow> string" where
  "File_ToRawBody b = (case sf_fd b of None \<Rightarrow> [] | Some content \<Rightarrow> take (sf_size b) content)"

definition StaticFileServlet_Handle ::
    "filesystem \<Rightarrow> string \<Rightarrow> string \<Rightarrow> StaticFileBody HttpResponse \<Rightarrow> StaticFileBody HttpResponse result" where
  "StaticFileServlet_Handle fs docRoot url resp =
     (let (body, resp1) = StaticFileBody_new fs url docRoot resp
      in SetBody File_SetRelatedHeaders body resp1)"

text \<open>\<open>Send\<close>: one turn per result of \<open>sendfile\<close>; \<open>None\<close> stands for a socket found closed at the
  loop test. The result is what was returned, if the loop ended, and what was sent.\<close>

fun send_loop :: "string \<Rightarrow> nat \<Rightarrow> int option list \<Rightarrow> nat \<Rightarrow> string \<Rightarrow> bool option \<times> string" where
  "send_loop content fileSize results alreadySend out =
     (if \<not> alreadySend < fileSize then (Some (alreadySend = fileSize), out)
      else case results of
        [] \<Rightarrow> (None, out)
      | None # _ \<Rightarrow> (Some (alreadySend = fileSize), out)
      | Some ret # rest \<Rightarrow>
          if ret < 0 then (Some (alreadySend = fileSize), out)
          else send_loop content fileSize rest (alreadySend + nat ret) (out @ take (nat ret) (drop alreadySend content)))"

declare send_loop.simps [simp del]

definition File_Send :: "StaticFileBody \<Rightarrow> 'b HttpResponse \<Rightarrow> int option list \<Rightarrow> (bool option \<times> string) result" where
  "File_Send b resp results =
     (if rs_status resp \<noteq> 200 then Inl AssertFail
      else case sf_fd b of
          None \<Rightarrow> Inl AssertFail
        | Some content \<Rightarrow> Inr (send_loop content (sf_size b) results 0 []))"

section \<open>The headers of a file\<close>

definition file_ready :: "StaticFileBody \<Rightarrow> bool" where
  "file_ready b \<longleftrightarrow> (\<exists>content. sf_fd b = Some content \<and> sf_size b = length content) \<and> CHR ''.'' \<in> set (sf_path b)"

lemma File_headers:
  assumes "file_ready b"
  shows "\<exists>t. File_SetRelatedHeaders b h = Inr (SetEntry ''Content-Type'' t
      (SetEntry ''Content-Length'' (show_nat (length (File_ToRawBody b))) h))"
proof -
  obtain p where p: "str_rfind (sf_path b) (CHR ''.'') = Some p"
    using assms str_rfind_None [of "sf_path b" "CHR ''.''"] by (auto simp: file_ready_def)
  have le: "\<not> length (sf_path b) < p" using str_rfind_Some_lt [OF p] by simp
  obtain content where c: "sf_fd b = Some content" "sf_size b = length content"
    using assms by (auto simp: file_ready_def)
  have raw: "File_ToRawBody b = content" using c by (simp add: File_ToRawBody_def)
  have "File_SetRelatedHeaders b h = Inr (SetEntry ''Content-Type'' (content_type (drop p (sf_path b)))
      (SetEntry ''Content-Length'' (show_nat (length content)) h))"
    unfolding File_SetRelatedHeaders_def Let_def p c str_substr_from_def by (simp add: le)
  then show ?thesis unfolding raw by blast
qed

interpretation filebody: response_body File_SetRelatedHeaders File_ToRawBody file_ready
proof (rule response_body.intro)
  fix b h
  assume "file_ready b"
  then obtain t where eq: "File_SetRelatedHeaders b h = Inr (SetEntry ''Content-Type'' t
      (SetEntry ''Content-Length'' (show_nat (length (File_ToRawBody b))) h))"
    using File_headers by blast
  show "\<exists>h'. File_SetRelatedHeaders b h = Inr h'
       \<and> smap_get h' ''Content-Length'' = Some (show_nat (length (File_ToRawBody b)))
       \<and> smap_contains h' ''Content-Type''
       \<and> (\<forall>k. other_header k \<longrightarrow> smap_get h' k = smap_get h k) \<and> (smap_wf h \<longrightarrow> smap_wf h')"
    by (rule exI, rule conjI, rule eq, unfold SetEntry_def, rule two_headers)
qed

section \<open>Sending\<close>

text \<open>\<open>sendfile\<close> returns at most what it was asked for.\<close>

fun sendfile_ok :: "nat \<Rightarrow> nat \<Rightarrow> int option list \<Rightarrow> bool" where
  "sendfile_ok fileSize already [] = True"
| "sendfile_ok fileSize already (None # rs) = True"
| "sendfile_ok fileSize already (Some ret # rs) =
     (ret < 0 \<or> (ret \<le> int (fileSize - already) \<and> sendfile_ok fileSize (already + nat ret) rs))"

lemma send_loop_step:
  "already < n \<Longrightarrow> \<not> ret < 0 \<Longrightarrow> send_loop content n (Some ret # rs) already out
     = send_loop content n rs (already + nat ret) (out @ take (nat ret) (drop already content))"
  by (simp add: send_loop.simps [of content n "Some ret # rs"])

lemma send_loop_prefix:
  assumes "out = take already content" "already \<le> n" "n = length content" "sendfile_ok n already rs"
  shows "\<exists>k \<le> n. send_loop content n rs already out
     = ((fst (send_loop content n rs already out)), take k content)
     \<and> (\<forall>res. fst (send_loop content n rs already out) = Some res \<longrightarrow> (res \<longleftrightarrow> k = n))"
  using assms
proof (induction rs arbitrary: already out)
  case Nil
  then show ?case by (intro exI [of _ already]) (auto simp: send_loop.simps)
next
  case (Cons r rs)
  show ?case
  proof (cases "already < n")
    case False
    then show ?thesis using Cons.prems by (intro exI [of _ already]) (auto simp: send_loop.simps)
  next
    case True
    show ?thesis
    proof (cases r)
      case None
      then show ?thesis using Cons.prems True by (intro exI [of _ already]) (auto simp: send_loop.simps)
    next
      case (Some ret)
      show ?thesis
      proof (cases "ret < 0")
        case True
        then show ?thesis using Cons.prems Some \<open>already < n\<close> by (intro exI [of _ already]) (auto simp: send_loop.simps)
      next
        case False
        have "out @ take (nat ret) (drop already content) = take (already + nat ret) content"
          using Cons.prems(1) by (simp add: take_add)
        moreover have "already + nat ret \<le> n" "sendfile_ok n (already + nat ret) rs"
          using Cons.prems False Some True by auto
        ultimately show ?thesis
          unfolding Some send_loop_step [OF True False] by (intro Cons.IH Cons.prems(3))
      qed
    qed
  qed
qed

lemma send_loop_progress:
  assumes "\<forall>r \<in> set rs. \<exists>ret. r = Some ret \<and> 0 < ret" "sendfile_ok n already rs" "already \<le> n" "n \<le> already + length rs"
  shows "fst (send_loop content n rs already out) = Some True"
  using assms
proof (induction rs arbitrary: already out)
  case Nil
  then show ?case by (simp add: send_loop.simps)
next
  case (Cons r rs)
  obtain ret where r: "r = Some ret" "0 < ret" using Cons.prems(1) by auto
  show ?case
  proof (cases "already < n")
    case False
    then show ?thesis using Cons.prems by (simp add: send_loop.simps)
  next
    case True
    then have "fst (send_loop content n rs (already + nat ret) (out @ take (nat ret) (drop already content))) = Some True"
      using Cons.prems r by (intro Cons.IH) auto
    then show ?thesis using True r by (simp add: send_loop.simps [of content n "Some ret # rs"])
  qed
qed

text \<open>A file that became shorter makes \<open>sendfile\<close> return 0, which the loop takes as progress: it
  never returns.\<close>

lemma send_loop_stuck:
  "already < n \<Longrightarrow> fst (send_loop content n (replicate k (Some 0)) already out) = None"
  by (induction k) (simp_all add: send_loop.simps)

section \<open>Properties\<close>

text \<open>Exactly the readable regular files below the document root are served: the constructor opens
  the file of the root joined with the request path (the index page for the root) when the path
  holds no dot-dot and the file exists, is regular, readable by others and can be opened; it leaves
  the response alone then, and otherwise opens nothing and sets status 404, or 500 when the size or
  the opening failed.\<close>

theorem static_file_exact:
  assumes "StaticFileBody_new fs path root resp = (b, resp')"
  shows "(sf_fd b = Some content \<longleftrightarrow> first_occurrence ''..'' path = None
            \<and> (\<exists>f. fs (root @ (if path = ''/'' then ''/index.html'' else path)) = Some f
                 \<and> fi_regular f \<and> fi_others_read f \<and> fi_size f \<noteq> None \<and> fi_open f = Some content))
      \<and> (sf_fd b \<noteq> None \<longrightarrow> sf_path b = (if path = ''/'' then ''/index.html'' else path) \<and> resp' = resp)
      \<and> (sf_fd b = None \<longrightarrow> resp' = SetStatus 404 resp \<or> resp' = SetStatus 500 resp)"
proof (cases "first_occurrence ''..'' path")
  case (Some i)
  then show ?thesis using assms by (simp add: StaticFileBody_new_def str_find_def Let_def) auto
next
  case None
  define p where "p = (if path = ''/'' then ''/index.html'' else path)"
  note new = assms [unfolded StaticFileBody_new_def Let_def str_find_def, folded p_def]
  show ?thesis
  proof (cases "fs (root @ p)")
    case None
    with new \<open>first_occurrence ''..'' path = None\<close> show ?thesis by (auto simp: p_def [symmetric])
  next
    case (Some f)
    with new \<open>first_occurrence ''..'' path = None\<close> show ?thesis
      by (cases "fi_size f"; cases "fi_open f"; cases "fi_regular f \<and> fi_others_read f") (auto simp: p_def [symmetric])
  qed
qed

theorem static_file_exact_witness:
  "first_occurrence ''..'' ''/a.css'' = None \<and> (\<exists>b. StaticFileBody_new (\<lambda>p. if p = ''/srv/a.css'' then Some \<lparr>fi_regular = True, fi_others_read = True,
       fi_size = Some 2, fi_open = Some ''hi''\<rparr> else None) ''/a.css'' ''/srv'' (response_init :: StaticFileBody HttpResponse) = (b, response_init)
      \<and> sf_path b = ''/a.css'')"
  using static_file_exact [of "\<lambda>p. if p = ''/srv/a.css'' then Some \<lparr>fi_regular = True, fi_others_read = True,
       fi_size = Some 2, fi_open = Some ''hi''\<rparr> else None" "''/a.css''" "''/srv''" "response_init :: StaticFileBody HttpResponse"
      "\<lparr>sf_path = ''/a.css'', sf_docRoot = ''/srv'', sf_fd = Some ''hi'', sf_size = 2\<rparr>" "response_init" "''hi''"]
  by (simp add: StaticFileBody_new_def str_find_def Let_def)

text \<open>C38: a file is sent whole or reported as failed: whatever \<open>sendfile\<close> returns within its contract,
  what was sent is a prefix of the file, the result is true exactly when it is the whole file, and
  when every call makes progress the loop returns true after at most as many calls as bytes.\<close>

theorem static_file_sent:
  assumes "sf_fd b = Some content" "sf_size b = length content" "rs_status resp = 200"
    and "sendfile_ok (length content) 0 rs"
  shows "\<exists>k res. k \<le> length content \<and> File_Send b resp rs = Inr (res, take k content)
     \<and> (\<forall>v. res = Some v \<longrightarrow> (v \<longleftrightarrow> k = length content))
     \<and> ((\<forall>r \<in> set rs. \<exists>n. r = Some n \<and> 0 < n) \<and> length content \<le> length rs \<longrightarrow> res = Some True)"
proof -
  obtain k where "k \<le> length content"
    and "send_loop content (length content) rs 0 [] = (fst (send_loop content (length content) rs 0 []), take k content)"
    and "\<forall>v. fst (send_loop content (length content) rs 0 []) = Some v \<longrightarrow> (v \<longleftrightarrow> k = length content)"
    using send_loop_prefix [of "[]" 0 content "length content" rs] assms(4) by auto
  moreover have "(\<forall>r \<in> set rs. \<exists>n. r = Some n \<and> 0 < n) \<and> length content \<le> length rs \<longrightarrow>
      fst (send_loop content (length content) rs 0 []) = Some True"
    using send_loop_progress [of rs "length content" 0] assms(4) by simp
  moreover have "File_Send b resp rs = Inr (send_loop content (length content) rs 0 [])"
    using assms(1-3) by (simp add: File_Send_def)
  ultimately show ?thesis by (metis prod.collapse)
qed

theorem static_file_sent_witness:
  "\<exists>k res. File_Send \<lparr>sf_path = ''/a.b'', sf_docRoot = [], sf_fd = Some ''hey'', sf_size = 3\<rparr> (response_init :: StaticFileBody HttpResponse)
      [Some 2, Some 1, Some (- 1)] = Inr (res, take k ''hey'') \<and> (\<forall>v. res = Some v \<longrightarrow> (v \<longleftrightarrow> k = 3))"
  using static_file_sent [of "\<lparr>sf_path = ''/a.b'', sf_docRoot = [], sf_fd = Some ''hey'', sf_size = 3\<rparr>" "''hey''"
      "response_init :: StaticFileBody HttpResponse" "[Some 2, Some 1, Some (- 1)]"]
  by (simp add: response_init_def numeral_3_eq_3) blast

text \<open>A file whose request path has no dot cannot be served: setting the headers of its body throws
  \<open>std::out_of_range\<close> out of the servlet.\<close>

theorem static_file_without_dot:
  assumes "fs (root @ path) = Some f" "fi_regular f" "fi_others_read f" "fi_size f = Some n" "fi_open f = Some content"
    and "CHR ''.'' \<notin> set path" and "path \<noteq> ''/''"
  shows "StaticFileServlet_Handle fs root path resp = Inl OutOfRange"
proof -
  have "first_occurrence ''..'' s = None" if "CHR ''.'' \<notin> set s" for s
    using that by (induction s) auto
  then show ?thesis
    using assms by (simp add: StaticFileServlet_Handle_def StaticFileBody_new_def str_find_def Let_def SetBody_def
        File_SetRelatedHeaders_def str_rfind_None [THEN iffD2])
qed

theorem static_file_without_dot_witness:
  "StaticFileServlet_Handle (\<lambda>p. if p = ''/srv/README'' then Some \<lparr>fi_regular = True, fi_others_read = True,
       fi_size = Some 2, fi_open = Some ''hi''\<rparr> else None) ''/srv'' ''/README'' response_init = Inl OutOfRange"
  using static_file_without_dot [of "\<lambda>p. if p = ''/srv/README'' then Some \<lparr>fi_regular = True, fi_others_read = True,
       fi_size = Some 2, fi_open = Some ''hi''\<rparr> else None" "''/srv''" "''/README''"
      "\<lparr>fi_regular = True, fi_others_read = True, fi_size = Some 2, fi_open = Some ''hi''\<rparr>" 2 "''hi''" response_init]
  by simp

end
