(* ===== verification/HttpServer.thy ===== *)
theory HttpServer
  imports Router StaticFile HttpRequestParser Crypto
begin

text \<open>
  \<open>HttpServer.h\<close>, \<open>HttpServer.cpp\<close>, the servlets of \<open>HttpServlet.h\<close> and the handshake of
  \<open>WebSocketServer.cpp\<close>. \<open>DoHttp\<close> is a function over its turns: each turn has what the read
  delivered (the callbacks of llhttp and its verdicts, or a failed read) and whether the writes
  succeeded, and yields what was written and whether the socket was closed. Servlets, filters and
  error pages are the functions registered with the server, on the request, the response and a
  context of the application. SHA1 is OpenSSL's, an argument of the handshake.
\<close>

section \<open>Bodies of both classes\<close>

datatype Body = TextB string | FileB StaticFileBody

fun body_related :: "Body \<Rightarrow> string smap \<Rightarrow> string smap result" where
  "body_related (TextB t) h = Text_SetRelatedHeaders t h"
| "body_related (FileB b) h = File_SetRelatedHeaders b h"

fun body_raw :: "Body \<Rightarrow> string" where
  "body_raw (TextB t) = Text_ToRawBody t"
| "body_raw (FileB b) = File_ToRawBody b"

fun body_ready :: "Body \<Rightarrow> bool" where
  "body_ready (TextB t) = True"
| "body_ready (FileB b) = file_ready b"

interpretation anybody: response_body body_related body_raw body_ready
proof (rule response_body.intro)
  fix b h
  assume "body_ready b"
  then show "\<exists>h'. body_related b h = Inr h'
       \<and> smap_get h' ''Content-Length'' = Some (show_nat (length (body_raw b)))
       \<and> smap_contains h' ''Content-Type''
       \<and> (\<forall>k. other_header k \<longrightarrow> smap_get h' k = smap_get h k) \<and> (smap_wf h \<longrightarrow> smap_wf h')"
    unfolding atomize_imp
    by (cases b; simp only: body_related.simps body_raw.simps body_ready.simps)
      (use textbody.related_length filebody.related_length in blast)+
qed

section \<open>Servlets and error pages\<close>

type_synonym ('v, 'c) exchange = "'v HttpRequest \<times> Body HttpResponse \<times> 'c"
type_synonym page = "Body HttpResponse \<Rightarrow> Body HttpResponse result"

definition DefaultHttpServlet_Handle :: "('v, 'c) exchange servlet_fun" where
  "DefaultHttpServlet_Handle x = (case x of (rq, resp, c) \<Rightarrow> Inr (rq, SetStatus 404 resp, c))"

definition FunctionHttpServlet_Handle :: "('v, 'c) exchange servlet_fun option \<Rightarrow> ('v, 'c) exchange servlet_fun" where
  "FunctionHttpServlet_Handle func x = (case func of None \<Rightarrow> Inr x | Some f \<Rightarrow> f x)"

definition default_page_text :: "nat \<Rightarrow> string \<Rightarrow> string" where
  "default_page_text status msg =
     ''<html><head><title>'' @ show_nat status @ '' '' @ msg @ ''</title></head><body><center><h1>'' @ show_nat status
       @ '' '' @ msg @ ''</h1></center><hr><center>Cold/1.0.0</center></body></html>''"

definition defaultErrorPage :: page where
  "defaultErrorPage resp = bind_result (HttpStatusToHttpStatusMsg (rs_status resp)) (\<lambda>msg.
     bind_result (SetBody body_related (TextB (default_page_text (rs_status resp) msg)) resp) (\<lambda>resp1.
       Inr (SetHeader ''Content-type'' ''text/html;charset=utf-8'' resp1)))"

record ('v, 'c) HttpServer =
  hs_router :: "('v, 'c) exchange router"
  hs_defaultServlet :: "('v, 'c) exchange servlet_fun"
  hs_errorPages :: "nat \<rightharpoonup> page"
  hs_defaultErrorPage :: page
  hs_limits :: http_limits
  hs_webSocket :: bool

definition AddErrorPageHandler :: "nat \<Rightarrow> page \<Rightarrow> ('v, 'c) HttpServer \<Rightarrow> ('v, 'c) HttpServer" where
  "AddErrorPageHandler status callback srv = srv\<lparr>hs_errorPages := (hs_errorPages srv)(status \<mapsto> callback)\<rparr>"

section \<open>One exchange\<close>

datatype http_action = WriteHead string | WriteBody Body | SocketClosed | Upgraded RawHttpRequest

definition CheckWhetherUpgradeRequest :: "RawHttpRequest \<Rightarrow> bool" where
  "CheckWhetherUpgradeRequest rq \<longleftrightarrow> GetEntry (rq_headers rq) ''Connection'' = ''Upgrade''
     \<and> GetEntry (rq_headers rq) ''Upgrade'' = ''websocket'' \<and> smap_contains (rq_headers rq) ''Sec-WebSocket-Key''"

text \<open>From \<open>Send response\<close> on: the error page, the head, the body. \<open>Send\<close> of a file body asserts that
  the status is 200 and that the file is open.\<close>

definition error_page :: "('v, 'c) HttpServer \<Rightarrow> page" where
  "error_page srv resp =
     (if rs_status resp = 200 then Inr resp
      else case hs_errorPages srv (rs_status resp) of
          None \<Rightarrow> hs_defaultErrorPage srv resp
        | Some callback \<Rightarrow> callback resp)"

definition SendBody :: "Body HttpResponse \<Rightarrow> (http_action list) result" where
  "SendBody resp = (case rs_body resp of
      None \<Rightarrow> Inr []
    | Some (TextB t) \<Rightarrow> Inr [WriteBody (TextB t)]
    | Some (FileB b) \<Rightarrow> if rs_status resp = 200 \<and> sf_fd b \<noteq> None then Inr [WriteBody (FileB b)] else Inl AssertFail)"

definition send_response ::
    "('v, 'c) HttpServer \<Rightarrow> bool \<Rightarrow> bool \<Rightarrow> Body HttpResponse \<Rightarrow> (http_action list \<times> bool) result" where
  "send_response srv head_ok body_ok resp =
     bind_result (error_page srv resp) (\<lambda>resp1.
       bind_result (MakeHeaders [] resp1) (\<lambda>(headerBuf, resp2).
         if \<not> head_ok then Inr ([WriteHead headerBuf, SocketClosed], False)
         else bind_result (SendBody resp2) (\<lambda>acts.
           if rs_body resp2 \<noteq> None \<and> \<not> body_ok then Inr (WriteHead headerBuf # acts @ [SocketClosed], False)
           else if \<not> Response_IsKeepAlive resp2 then Inr (WriteHead headerBuf # acts @ [SocketClosed], False)
           else Inr (WriteHead headerBuf # acts, True))))"

text \<open>Serving a request taken from the parser.\<close>

definition make_response ::
    "('v, 'c) HttpServer \<Rightarrow> RawHttpRequest \<Rightarrow> 'c \<Rightarrow> (Body HttpResponse \<times> 'c) result" where
  "make_response srv raw c =
     (let rq = (DecodeUrlAndBody raw :: 'v HttpRequest);
          resp = SetVersion (rq_version raw) (SetCloseConnection (\<not> Request_IsKeepAlive rq) response_init)
      in bind_result (ForwardTo (hs_router srv) (hs_defaultServlet srv) (hq_url rq) (rq, resp, c))
           (\<lambda>(_, resp', c'). Inr (resp', c')))"

definition serve_request ::
    "('v, 'c) HttpServer \<Rightarrow> bool \<times> bool \<Rightarrow> RawHttpRequest \<Rightarrow> 'c \<Rightarrow> (http_action list \<times> bool \<times> 'c) result" where
  "serve_request srv oks raw c =
     (if hs_webSocket srv \<and> CheckWhetherUpgradeRequest raw then Inr ([Upgraded raw], False, c)
      else bind_result (make_response srv raw c) (\<lambda>(resp, c').
        bind_result (send_response srv (fst oks) (snd oks) resp) (\<lambda>(acts, go). Inr (acts, go, c'))))"

section \<open>The loop\<close>

text \<open>A turn: the read (\<open>None\<close> when it returned nothing positive), and whether the head and the body
  were written.\<close>

type_synonym http_turn = "(llhttp_event list \<times> llhttp_verdict \<times> llhttp_verdict) option \<times> bool \<times> bool"

definition do_turn ::
    "('v, 'c) HttpServer \<Rightarrow> http_turn \<Rightarrow> HttpRequestParser \<Rightarrow> 'c \<Rightarrow> (http_action list \<times> bool \<times> HttpRequestParser \<times> 'c) result" where
  "do_turn srv turn p c =
     (case turn of (rd, oks) \<Rightarrow>
       (case rd of
          None \<Rightarrow> Inr ([SocketClosed], False, p, c)
        | Some (es, verdict, resumed) \<Rightarrow>
           (case Http_Parse (hs_limits srv) es verdict resumed p of (ok, p1) \<Rightarrow>
             if \<not> ok then
               bind_result (send_response srv (fst oks) (snd oks)
                   (SetCloseConnection True (SetStatus 400 response_init))) (\<lambda>(acts, go). Inr (acts, go, p1, c))
             else if HasRequest p1 then
               bind_result (TakeRequest p1) (\<lambda>(raw, p2).
                 bind_result (serve_request srv oks raw c) (\<lambda>(acts, go, c'). Inr (acts, go, p2, c')))
             else Inr ([], True, p1, c))))"

fun DoHttp ::
    "('v, 'c) HttpServer \<Rightarrow> http_turn list \<Rightarrow> HttpRequestParser \<Rightarrow> 'c \<Rightarrow> (http_action list \<times> bool \<times> HttpRequestParser \<times> 'c) result" where
  "DoHttp srv [] p c = Inr ([], True, p, c)"
| "DoHttp srv (turn # turns) p c = bind_result (do_turn srv turn p c) (\<lambda>(acts, go, p1, c1).
     if \<not> go then Inr (acts, False, p1, c1)
     else bind_result (DoHttp srv turns p1 c1) (\<lambda>(acts', rest). Inr (acts @ acts', rest)))"

section \<open>The WebSocket handshake\<close>

definition ws_guid :: string where
  "ws_guid = ''258EAFA5-E914-47DA-95CA-C5AB0DC85B11''"

definition ws_response :: "(string \<Rightarrow> byte list) \<Rightarrow> RawHttpRequest \<Rightarrow> Body HttpResponse" where
  "ws_response sha1 rq =
     SetHeader ''Sec-WebSocket-Accept'' (Base64Encode (sha1 (GetEntry (rq_headers rq) ''Sec-WebSocket-Key'' @ ws_guid)))
       (SetHeader ''Upgrade'' ''websocket'' (SetUpgradeConnection (SetStatus 101 response_init)))"

text \<open>The open sockets are those whose handshake was written; \<open>onClose_\<close> removes one. A socket is
  identified by a number that the caller chooses; its URL is decoded with its query.\<close>

record WebSocketServer =
  webSockets :: "(nat \<times> string) list"
  closedCalls :: "nat list"

definition OnReceivedUpgradeRequest ::
    "(string \<Rightarrow> byte list) \<Rightarrow> nat \<Rightarrow> bool \<Rightarrow> RawHttpRequest \<Rightarrow> WebSocketServer \<Rightarrow> (http_action list \<times> WebSocketServer) result" where
  "OnReceivedUpgradeRequest sha1 sock write_ok rq srv =
     bind_result (MakeHeaders [] (ws_response sha1 rq)) (\<lambda>(headerBuf, _).
       if \<not> write_ok then Inr ([WriteHead headerBuf, SocketClosed], srv)
       else Inr ([WriteHead headerBuf], srv\<lparr>webSockets := webSockets srv @ [(sock, UrlDecode (rq_url rq))]\<rparr>))"

definition ws_onClose :: "nat \<Rightarrow> WebSocketServer \<Rightarrow> WebSocketServer" where
  "ws_onClose sock srv = srv\<lparr>webSockets := filter (\<lambda>(s, _). s \<noteq> sock) (webSockets srv), closedCalls := closedCalls srv @ [sock]\<rparr>"

section \<open>Answers in order\<close>

text \<open>The answers to a list of requests, one after the other, until one ends the connection.\<close>

fun answer_all ::
    "('v, 'c) HttpServer \<Rightarrow> (bool \<times> bool) list \<Rightarrow> RawHttpRequest list \<Rightarrow> 'c \<Rightarrow> (http_action list \<times> bool \<times> 'c) result" where
  "answer_all srv (oks # okss) (rq # rqs) c = bind_result (serve_request srv oks rq c) (\<lambda>(acts, go, c1).
     if \<not> go then Inr (acts, False, c1)
     else bind_result (answer_all srv okss rqs c1) (\<lambda>(acts', rest). Inr (acts @ acts', rest)))"
| "answer_all srv _ _ c = Inr ([], True, c)"

definition readable :: "http_limits \<Rightarrow> http_message \<Rightarrow> bool" where
  "readable lim m \<longleftrightarrow> fragmented m \<and> parsed lim m \<noteq> None"

definition read_of :: "http_message list \<Rightarrow> (llhttp_event list \<times> llhttp_verdict \<times> llhttp_verdict) option" where
  "read_of ms = Some (concat (map message_events ms), LOk, LOk)"

definition outcome :: "(http_action list \<times> bool \<times> HttpRequestParser \<times> 'c) result \<Rightarrow> (http_action list \<times> bool \<times> 'c) result" where
  "outcome r = bind_result r (\<lambda>(acts, go, _, c). Inr (acts, go, c))"

lemma outcome_simps [simp]: "outcome (Inl e) = Inl e" "outcome (Inr (acts, go, p, c)) = Inr (acts, go, c)"
  by (simp_all add: outcome_def)

lemma do_turn_messages:
  assumes "idle p" "\<forall>m \<in> set ms. readable (hs_limits srv) m"
    and "hp_queue p @ map (\<lambda>m. the (parsed (hs_limits srv) m)) ms = rq # q"
  shows "do_turn srv (read_of ms, oks) p c = bind_result (serve_request srv oks rq c)
     (\<lambda>(acts, go, c'). Inr (acts, go, p\<lparr>hp_queue := q\<rparr>, c'))"
  using run_messages [of p ms "hs_limits srv"] assms
  by (simp add: do_turn_def read_of_def Http_Parse_def readable_def HasRequest_def TakeRequest_def)

lemma DoHttp_answers:
  assumes "idle p" "\<forall>ms \<in> set mss. ms \<noteq> [] \<and> (\<forall>m \<in> set ms. readable (hs_limits srv) m)" "length okss = length mss"
  shows "outcome (DoHttp srv (map2 (\<lambda>ms oks. (read_of ms, oks)) mss okss) p c)
     = answer_all srv okss (hp_queue p @ map (\<lambda>m. the (parsed (hs_limits srv) m)) (concat mss)) c"
  using assms
proof (induction mss arbitrary: okss p c)
  case Nil
  then show ?case by simp
next
  case (Cons ms mss)
  obtain oks okss' where okss: "okss = oks # okss'" using Cons.prems(3) by (cases okss) auto
  let ?f = "\<lambda>m. the (parsed (hs_limits srv) m)"
  obtain rq q where q: "hp_queue p @ map ?f ms = rq # q"
    using Cons.prems(2) by (cases "hp_queue p @ map ?f ms") auto
  have turn: "do_turn srv (read_of ms, oks) p c = bind_result (serve_request srv oks rq c)
     (\<lambda>(acts, go, c'). Inr (acts, go, p\<lparr>hp_queue := q\<rparr>, c'))"
    using Cons.prems(2) by (intro do_turn_messages Cons.prems(1) q) simp
  have idle: "idle (p\<lparr>hp_queue := q\<rparr>)" using Cons.prems(1) by (simp add: idle_def)
  have all: "hp_queue p @ map ?f (concat (ms # mss)) = rq # (q @ map ?f (concat mss))"
    using q by simp
  show ?case
  proof (cases "serve_request srv oks rq c")
    case (Inl e)
    then show ?thesis unfolding all okss by (simp add: turn)
  next
    case (Inr r)
    obtain acts go c1 where r: "r = (acts, go, c1)" by (cases r)
    have IH: "outcome (DoHttp srv (map2 (\<lambda>ms oks. (read_of ms, oks)) mss okss') (p\<lparr>hp_queue := q\<rparr>) c1)
        = answer_all srv okss' (q @ map ?f (concat mss)) c1"
      using Cons.IH [OF idle, of okss' c1] Cons.prems(2,3) okss by simp
    show ?thesis
      unfolding all okss
      by (cases "DoHttp srv (map2 (\<lambda>ms oks. (read_of ms, oks)) mss okss') (p\<lparr>hp_queue := q\<rparr>) c1")
        (use IH [symmetric] in \<open>auto simp: turn Inr r outcome_def split: prod.splits\<close>)
  qed
qed

section \<open>The default error page\<close>

lemma page_clean: "header_clean (''Content-type'', ''text/html;charset=utf-8'')"
  by (simp add: header_clean_def no_cr_def)

lemma SetBody_TextB: "SetBody body_related (TextB c) r =
    Inr (r\<lparr>rs_body := Some (TextB c), rs_headers := SetEntry ''Content-Type'' ''text/html;charset=utf-8''
       (SetEntry ''Content-Length'' (show_nat (length c)) (rs_headers r))\<rparr>)"
  by (simp add: SetBody_def Text_SetRelatedHeaders_def)

lemma defaultErrorPage_clean:
  assumes "response_clean r" "HttpStatusToHttpStatusMsg (rs_status r) = Inr msg"
  shows "\<exists>r1. defaultErrorPage r = Inr r1 \<and> response_clean r1 \<and> rs_cookies r1 = rs_cookies r
     \<and> rs_connection r1 = rs_connection r \<and> rs_version r1 = rs_version r \<and> rs_status r1 = rs_status r
     \<and> rs_body r1 = Some (TextB (default_page_text (rs_status r) msg))"
proof -
  let ?c = "default_page_text (rs_status r) msg"
  let ?h = "smap_set (smap_set (smap_set (rs_headers r) ''Content-Length'' (show_nat (length ?c)))
      ''Content-Type'' ''text/html;charset=utf-8'') ''Content-type'' ''text/html;charset=utf-8''"
  let ?r1 = "r\<lparr>rs_body := Some (TextB ?c), rs_headers := ?h\<rparr>"
  have "list_all header_clean ?h"
    using assms by (intro smap_set_all text_headers_clean page_clean) (simp add: response_clean_def)
  then have "response_clean ?r1" using assms by (simp add: response_clean_def)
  moreover have "defaultErrorPage r = Inr ?r1"
    by (simp add: defaultErrorPage_def assms(2) SetBody_TextB SetHeader_def SetEntry_def)
  ultimately show ?thesis by (intro exI [of _ ?r1]) simp
qed

lemma status_400: "HttpStatusToHttpStatusMsg 400 = Inr ''Bad Request''" "400 \<in> fst ` set HTTP_STATUS_MESSAGE_MAP"
  by (simp_all add: HttpStatusToHttpStatusMsg_def HTTP_STATUS_MESSAGE_MAP_def)

lemma status_101: "HttpStatusToHttpStatusMsg 101 = Inr ''Switching Protocols''" "101 \<in> fst ` set HTTP_STATUS_MESSAGE_MAP"
  by (simp_all add: HttpStatusToHttpStatusMsg_def HTTP_STATUS_MESSAGE_MAP_def)

lemma show_status: "show_nat 400 = ''400''" "show_nat 101 = ''101''"
  by code_simp+

lemma init_clean: "st \<in> fst ` set HTTP_STATUS_MESSAGE_MAP \<Longrightarrow> response_clean (SetStatus st response_init)"
  by (simp add: response_clean_def SetStatus_def response_init_def no_cr_def)

lemma close_clean [simp]: "response_clean (SetCloseConnection cl r) \<longleftrightarrow> response_clean r"
    "response_clean (SetUpgradeConnection r) \<longleftrightarrow> response_clean r"
  by (simp_all add: response_clean_def SetCloseConnection_def SetUpgradeConnection_def)

lemma SetHeader_clean: "response_clean r \<Longrightarrow> header_clean (k, v) \<Longrightarrow> response_clean (SetHeader k v r)"
  by (simp add: response_clean_def SetHeader_def SetEntry_def smap_set_all)

section \<open>Base64 text is a clean header\<close>

definition base64_text :: "string \<Rightarrow> bool" where
  "base64_text s \<longleftrightarrow> set s \<subseteq> insert (CHR ''='') (set kBase64)"

lemma encode_chunk_text:
  assumes "chunk \<noteq> []" "length chunk \<le> 3"
  shows "base64_text (encode_chunk chunk)"
proof -
  have digit: "b64_digit w \<in> set kBase64" if "w \<in> set (sextets (pack24 a b c))" for w a b c
    using sextets_small [OF pack24_high that] by (simp add: b64_digit_def kBase64_length)
  have part: "set (map b64_digit (take k (sextets (pack24 a b c)))) \<subseteq> set kBase64" for k a b c
    using digit by (auto dest: in_set_takeD)
  have all: "set (map b64_digit (sextets (pack24 a b c))) \<subseteq> set kBase64" for a b c
    using digit by auto
  consider a b c where "chunk = [a, b, c]" | a b where "chunk = [a, b]" | a where "chunk = [a]"
    using assms by (auto simp: length_Suc_conv le_Suc_eq numeral_3_eq_3)
  then show ?thesis
  proof cases
    case 1
    then show ?thesis using all unfolding base64_text_def 1 encode_chunks by blast
  next
    case 2
    show ?thesis using part [of 3 a b 0] unfolding base64_text_def 2 encode_chunks by auto
  next
    case 3
    show ?thesis using part [of 2 a 0 0] unfolding base64_text_def 3 encode_chunks by auto
  qed
qed

lemma Base64Encode_text: "base64_text (Base64Encode bs)"
proof (induction bs rule: Base64Encode.induct)
  case (1 ptr)
  show ?case
  proof (cases "ptr = []")
    case True
    then show ?thesis by (subst Base64Encode.simps) (simp add: base64_text_def)
  next
    case False
    then have "base64_text (encode_chunk (take 3 ptr))" by (intro encode_chunk_text) auto
    then show ?thesis using 1 False by (subst Base64Encode.simps) (simp add: base64_text_def)
  qed
qed

lemma base64_clean: "base64_text s \<Longrightarrow> no_cr s"
  by (auto simp: base64_text_def no_cr_def kBase64_def)

lemma ws_response_clean: "response_clean (ws_response sha1 rq)"
proof -
  have "header_clean (''Sec-WebSocket-Accept'', Base64Encode x)" for x
    using base64_clean [OF Base64Encode_text [of x]] by (simp add: header_clean_def) (simp add: no_cr_def)
  moreover have "header_clean (''Upgrade'', ''websocket'')" by (simp add: header_clean_def no_cr_def)
  ultimately show ?thesis
    unfolding ws_response_def by (intro SetHeader_clean) (simp_all add: init_clean status_101)
qed

section \<open>Properties\<close>

text \<open>C18: every read is answered once, and in order: when each read carries one or more complete
  requests within the limits, what \<open>DoHttp\<close> writes is exactly the answers to the first requests, as
  many as there were reads, each served with the context the previous left, up to the first that
  ends the connection; the requests a client pipelines beyond that stay unanswered.\<close>

theorem one_answer_per_read:
  assumes "\<forall>ms \<in> set mss. ms \<noteq> [] \<and> (\<forall>m \<in> set ms. readable (hs_limits srv) m)" "length okss = length mss"
  shows "outcome (DoHttp srv (map2 (\<lambda>ms oks. (read_of ms, oks)) mss okss) http_parser_init c)
     = answer_all srv okss (map (\<lambda>m. the (parsed (hs_limits srv) m)) (concat mss)) c"
  using DoHttp_answers [of http_parser_init mss srv okss c] assms
  by (simp add: idle_def http_parser_init_def)

definition demo_server :: "(nat, nat) HttpServer" where
  "demo_server = \<lparr>hs_router = Router_init, hs_defaultServlet = DefaultHttpServlet_Handle, hs_errorPages = Map.empty,
     hs_defaultErrorPage = defaultErrorPage, hs_limits = default_limits, hs_webSocket = False\<rparr>"

definition demo_get :: http_message where
  "demo_get = \<lparr>hm_method = ''GET'', hm_url = [''/''], hm_version = [''1.1''], hm_headers = [], hm_body = []\<rparr>"

theorem one_answer_per_read_witness:
  "outcome (DoHttp demo_server [(read_of [demo_get, demo_get], True, True)] http_parser_init 0)
     = answer_all demo_server [(True, True)] (map (\<lambda>m. the (parsed default_limits m)) [demo_get, demo_get]) 0"
  using one_answer_per_read [of "[[demo_get, demo_get]]" demo_server "[(True, True)]" 0]
  by (simp add: readable_def demo_get_def demo_server_def fragmented_def parsed_def default_limits_def)

text \<open>A read that cannot be parsed (a callback or llhttp refused) is answered with status 400, a
  close of the connection announced and performed, and the default page: the head can be read back
  as such, and nothing follows.\<close>

theorem bad_request_closes:
  assumes "\<not> fst (Http_Parse (hs_limits srv) es verdict resumed p)"
    and "hs_errorPages srv 400 = None" "hs_defaultErrorPage srv = defaultErrorPage"
  shows "\<exists>buf hs. do_turn srv (Some (es, verdict, resumed), True, True) p c
     = Inr ([WriteHead buf, WriteBody (TextB (default_page_text 400 ''Bad Request'')), SocketClosed], False,
            snd (Http_Parse (hs_limits srv) es verdict resumed p), c)
     \<and> read_response buf = Some (''HTTP/1.1 400 Bad Request'', hs, [])
     \<and> smap_get hs ''Connection'' = Some ''close''"
proof -
  let ?r = "SetCloseConnection True (SetStatus 400 response_init) :: Body HttpResponse"
  have r: "response_clean ?r" "rs_status ?r = 400" "rs_version ?r = ''HTTP/1.1''" "rs_cookies ?r = []" "rs_connection ?r = kClose"
    by (simp_all add: init_clean status_400) (simp_all add: SetCloseConnection_def SetStatus_def response_init_def)
  have msg: "HttpStatusToHttpStatusMsg (rs_status ?r) = Inr ''Bad Request''" unfolding r(2) by (rule status_400)
  obtain r1 where page: "defaultErrorPage ?r = Inr r1" "response_clean r1" "rs_cookies r1 = []" "rs_connection r1 = kClose"
      "rs_version r1 = ''HTTP/1.1''" "rs_status r1 = 400" "rs_body r1 = Some (TextB (default_page_text 400 ''Bad Request''))"
    using defaultErrorPage_clean [OF r(1) msg] r by auto
  obtain line buf r2 where mk: "MakeHeaders [] r1 = Inr (buf, r2)"
    and fl: "first_line (rs_version r1) (rs_status r1) = Inr (line @ kCRLF)"
    and r2: "r2 = r1\<lparr>rs_headers := SetEntry ''Connection'' (ConnectionStatusToConnectionStr (rs_connection r1)) (rs_headers r1)\<rparr>"
    and rd: "read_response (buf @ []) = Some (line, rs_headers r2 @ map cookie_entry (rs_cookies r1), [])"
    using read_MakeHeaders [OF page(2), of "[]"] by blast
  have line: "line = ''HTTP/1.1 400 Bad Request''"
    using fl by (simp add: page first_line_def status_400 show_status)
  have conn: "smap_get (rs_headers r2) ''Connection'' = Some ''close''"
    by (simp add: r2 SetEntry_def smap_get_set page)
  have "send_response srv True True ?r = Inr ([WriteHead buf, WriteBody (TextB (default_page_text 400 ''Bad Request'')), SocketClosed], False)"
    using page assms(2,3) mk r2
    by (simp add: send_response_def error_page_def r(2) SendBody_def Response_IsKeepAlive_def)
  then have "do_turn srv (Some (es, verdict, resumed), True, True) p c
     = Inr ([WriteHead buf, WriteBody (TextB (default_page_text 400 ''Bad Request'')), SocketClosed], False,
            snd (Http_Parse (hs_limits srv) es verdict resumed p), c)"
    using assms(1) by (cases "Http_Parse (hs_limits srv) es verdict resumed p") (simp add: do_turn_def)
  then show ?thesis using rd conn page(3) line by auto
qed

theorem bad_request_closes_witness:
  "\<exists>buf. do_turn demo_server (Some ([LMethod ''GET'', LUrl ''/../x'', LUrlComplete], LOk, LOk), True, True) http_parser_init 7
     = Inr ([WriteHead buf, WriteBody (TextB (default_page_text 400 ''Bad Request'')), SocketClosed], False,
            snd (Http_Parse default_limits [LMethod ''GET'', LUrl ''/../x'', LUrlComplete] LOk LOk http_parser_init), 7)"
proof -
  have "\<not> fst (Http_Parse default_limits [LMethod ''GET'', LUrl ''/../x'', LUrlComplete] LOk LOk http_parser_init)"
    by (simp add: Http_Parse_def OnMethod_def OnUrl_def OnUrlComplete_def http_parser_init_def default_limits_def str_find_def)
  then show ?thesis
    using bad_request_closes [of demo_server "[LMethod ''GET'', LUrl ''/../x'', LUrlComplete]" LOk LOk http_parser_init 7]
    by (auto simp: demo_server_def)
qed

text \<open>The handshake answers the key: for every upgrade request, whatever SHA1 yields, the head that
  is written can be read back as status 101 with the connection and upgrade headers and the Base64
  text of the hash of the key and the GUID, which decodes to that hash; the socket joins the open
  ones exactly when the head was written, with the decoded URL, and leaves them on close.\<close>

theorem ws_handshake:
  "\<exists>buf hs srv'. OnReceivedUpgradeRequest sha1 sock True rq srv = Inr ([WriteHead buf], srv')
     \<and> OnReceivedUpgradeRequest sha1 sock False rq srv = Inr ([WriteHead buf, SocketClosed], srv)
     \<and> webSockets srv' = webSockets srv @ [(sock, UrlDecode (rq_url rq))]
     \<and> read_response buf = Some (''HTTP/1.1 101 Switching Protocols'', hs, [])
     \<and> smap_get hs ''Connection'' = Some ''Upgrade'' \<and> smap_get hs ''Upgrade'' = Some ''websocket''
     \<and> (\<exists>key. smap_get hs ''Sec-WebSocket-Accept'' = Some key
          \<and> Base64Decode key = sha1 (GetEntry (rq_headers rq) ''Sec-WebSocket-Key'' @ ws_guid))
     \<and> webSockets (ws_onClose sock srv') = filter (\<lambda>(s, _). s \<noteq> sock) (webSockets srv)"
proof -
  let ?r = "ws_response sha1 rq"
  obtain line buf r2 where mk: "MakeHeaders [] ?r = Inr (buf, r2)"
    and fl: "first_line (rs_version ?r) (rs_status ?r) = Inr (line @ kCRLF)"
    and r2: "r2 = ?r\<lparr>rs_headers := SetEntry ''Connection'' (ConnectionStatusToConnectionStr (rs_connection ?r)) (rs_headers ?r)\<rparr>"
    and rd: "read_response (buf @ []) = Some (line, rs_headers r2 @ map cookie_entry (rs_cookies ?r), [])"
    using read_MakeHeaders [OF ws_response_clean [of sha1 rq], of "[]"] by blast
  have sel: "rs_version ?r = ''HTTP/1.1''" "rs_status ?r = 101" "rs_cookies ?r = []" "rs_connection ?r = kUpgrade"
    by (simp_all add: ws_response_def SetHeader_def SetUpgradeConnection_def SetStatus_def response_init_def)
  have line: "line = ''HTTP/1.1 101 Switching Protocols''"
    using fl by (simp add: sel first_line_def status_101 show_status)
  define key where "key = Base64Encode (sha1 (GetEntry (rq_headers rq) ''Sec-WebSocket-Key'' @ ws_guid))"
  have hs: "rs_headers r2 = smap_set (smap_set (smap_set [] ''Upgrade'' ''websocket'') ''Sec-WebSocket-Accept'' key) ''Connection'' ''Upgrade''"
    by (simp add: r2 sel) (simp add: ws_response_def SetHeader_def SetUpgradeConnection_def SetStatus_def response_init_def
        SetEntry_def key_def)
  have "Base64Decode key = sha1 (GetEntry (rq_headers rq) ''Sec-WebSocket-Key'' @ ws_guid)"
    unfolding key_def using decode_encode_loop [of "[]"] by (simp add: Base64Decode_def)
  then show ?thesis
    using mk rd line
    by (simp add: OnReceivedUpgradeRequest_def sel hs ws_onClose_def)
qed

text \<open>A custom error page that sets no body leaves the body of a file that was not found, whose
  \<open>Send\<close> asserts.\<close>

lemma error_page_without_body:
  assumes "rs_body resp = Some (FileB b)" "sf_fd b = None" "rs_status resp \<noteq> 200"
    and "hs_errorPages srv (rs_status resp) = Some Inr" "MakeHeaders [] resp = Inr (buf, resp2)"
  shows "send_response srv True body_ok resp = Inl AssertFail"
proof -
  have "rs_body resp2 = rs_body resp"
    using assms(5) by (auto simp: MakeHeaders_def Let_def bind_result_eq_Inr)
  then show ?thesis
    using assms by (simp add: send_response_def error_page_def SendBody_def)
qed

end
