(* ===== verification/IoAwaitable.thy ===== *)
theory IoAwaitable
  imports Prelude
begin

text \<open>
  \<open>IoAwaitable.h\<close>, \<open>Io.h\<close> and the loops of \<open>TcpSocket.h\<close> (the build without SSL). A system call
  is its return value and \<open>errno\<close>; an awaitable tries its call in \<open>await_ready\<close>, and when that
  would block it is suspended and calls again in \<open>await_resume\<close>. The calls that follow this scheme
  share the locale \<open>retrying\<close>. \<open>IoTimeoutAwaitable\<close> is a machine over the events of the loop: the
  spawned task starts, its descriptor becomes ready, its timer fires.
\<close>

type_synonym sys = "int \<times> nat"

definition EAGAIN :: nat where "EAGAIN = 11"
definition EMFILE :: nat where "EMFILE = 24"
definition ENOTCONN :: nat where "ENOTCONN = 107"
definition ETIMEDOUT :: nat where "ETIMEDOUT = 110"
definition EINPROGRESS :: nat where "EINPROGRESS = 115"

record awaitable =
  aw_ready :: bool
  aw_ret :: int
  aw_errno :: nat
  aw_timeout :: bool

definition aw_init :: awaitable where
  "aw_init = \<lparr>aw_ready = False, aw_ret = 0, aw_errno = 0, aw_timeout = False\<rparr>"

definition would_block :: "sys \<Rightarrow> bool" where
  "would_block r \<longleftrightarrow> fst r < 0 \<and> snd r = EAGAIN"

definition try_once :: "sys \<Rightarrow> awaitable \<Rightarrow> awaitable" where
  "try_once r aw = (let aw1 = aw\<lparr>aw_ret := fst r, aw_errno := snd r\<rparr>
     in if fst r \<ge> 0 \<or> snd r \<noteq> EAGAIN then aw1\<lparr>aw_ready := True\<rparr> else aw1)"

section \<open>The awaitables\<close>

definition Read_await_ready :: "bool \<Rightarrow> sys \<Rightarrow> awaitable \<Rightarrow> bool \<times> awaitable" where
  "Read_await_ready connected r aw =
     (if \<not> connected then (True, aw) else let aw1 = try_once r aw in (aw_ready aw1, aw1))"

definition Read_await_resume :: "bool \<Rightarrow> sys \<Rightarrow> awaitable \<Rightarrow> sys" where
  "Read_await_resume connected r aw =
     (if \<not> connected \<or> aw_timeout aw then (- 1, if aw_timeout aw then ETIMEDOUT else ENOTCONN)
      else if \<not> aw_ready aw then r else (aw_ret aw, aw_errno aw))"

definition Write_await_ready :: "bool \<Rightarrow> sys \<Rightarrow> awaitable \<Rightarrow> bool \<times> awaitable" where
  "Write_await_ready connected r aw =
     (if \<not> connected then (True, aw) else let aw1 = try_once r aw in (aw_ready aw1, aw1))"

definition Write_await_resume :: "bool \<Rightarrow> sys \<Rightarrow> awaitable \<Rightarrow> sys" where
  "Write_await_resume connected r aw =
     (if \<not> connected \<or> aw_timeout aw then (- 1, if aw_timeout aw then ETIMEDOUT else ENOTCONN)
      else if aw_ready aw then (aw_ret aw, aw_errno aw) else r)"

definition SendTo_await_ready :: "sys \<Rightarrow> awaitable \<Rightarrow> bool \<times> awaitable" where
  "SendTo_await_ready r aw = (let aw1 = try_once r aw in (aw_ready aw1, aw1))"

definition SendTo_await_resume :: "sys \<Rightarrow> awaitable \<Rightarrow> sys" where
  "SendTo_await_resume r aw =
     (if aw_timeout aw then (- 1, ETIMEDOUT) else if aw_ready aw then (aw_ret aw, aw_errno aw) else r)"

definition SendFile_await_ready :: "sys \<Rightarrow> awaitable \<Rightarrow> bool \<times> awaitable" where
  "SendFile_await_ready r aw = (let aw1 = try_once r aw in (aw_ready aw1, aw1))"

definition SendFile_await_resume :: "sys \<Rightarrow> awaitable \<Rightarrow> sys" where
  "SendFile_await_resume r aw =
     (if aw_timeout aw then (- 1, ETIMEDOUT) else if aw_ready aw then (aw_ret aw, aw_errno aw) else r)"

text \<open>\<open>RecvFromAwaitable::await_ready\<close> tries the call and returns false in any case.\<close>

definition RecvFrom_await_ready :: "sys \<Rightarrow> awaitable \<Rightarrow> bool \<times> awaitable" where
  "RecvFrom_await_ready r aw = (False, try_once r aw)"

definition RecvFrom_await_resume :: "sys \<Rightarrow> awaitable \<Rightarrow> sys" where
  "RecvFrom_await_resume r aw =
     (if aw_timeout aw then (- 1, ETIMEDOUT) else if aw_ready aw then (aw_ret aw, aw_errno aw) else r)"

definition Accept_await_ready :: "sys \<Rightarrow> awaitable \<Rightarrow> bool \<times> awaitable" where
  "Accept_await_ready r aw = (let aw1 = aw\<lparr>aw_ret := fst r, aw_errno := snd r, aw_ready := (fst r \<ge> 0)\<rparr>
     in (aw_ready aw1, aw1))"

definition Accept_await_resume :: "sys \<Rightarrow> awaitable \<Rightarrow> sys" where
  "Accept_await_resume r aw =
     (if aw_timeout aw then (- 1, ETIMEDOUT) else if \<not> aw_ready aw then r else (aw_ret aw, aw_errno aw))"

text \<open>\<open>connect\<close>, then \<open>getsockopt(SO_ERROR)\<close> when it was in progress; the result is the value
  returned, \<open>errno\<close>, and whether the socket is connected. \<open>so_error\<close> is \<open>None\<close> when \<open>getsockopt\<close> fails.\<close>

definition Connect_await_ready :: "sys \<Rightarrow> awaitable \<Rightarrow> bool \<times> awaitable" where
  "Connect_await_ready r aw =
     (let aw1 = aw\<lparr>aw_ret := fst r, aw_errno := snd r, aw_ready := (fst r \<noteq> - 1 \<or> snd r \<noteq> EINPROGRESS)\<rparr>
      in (aw_ready aw1, aw1))"

definition Connect_await_resume :: "int option \<Rightarrow> awaitable \<Rightarrow> int \<times> int \<times> bool" where
  "Connect_await_resume so_error aw =
     (if aw_timeout aw then (- 1, int ETIMEDOUT, False)
      else case (if aw_ready aw then Some (aw_ret aw) else so_error) of
          None \<Rightarrow> (- 1, int (aw_errno aw), False)
        | Some v \<Rightarrow> if v = 0 then (0, int (aw_errno aw), True) else (- 1, v, False))"

text \<open>\<open>Io.h\<close>: asynchronous files are never ready at once.\<close>

definition AsyncIO_await_resume :: "sys \<Rightarrow> awaitable \<Rightarrow> sys" where
  "AsyncIO_await_resume r aw = (if aw_timeout aw then (- 1, ETIMEDOUT) else r)"

section \<open>Running an awaitable\<close>

text \<open>Whether the coroutine was suspended, and the result; a suspended one is resumed by its
  descriptor or by the timeout.\<close>

definition run_await ::
    "(awaitable \<Rightarrow> bool \<times> awaitable) \<Rightarrow> (awaitable \<Rightarrow> 'r) \<Rightarrow> bool \<Rightarrow> bool \<times> 'r" where
  "run_await ready resume timed_out =
     (case ready aw_init of (now, aw) \<Rightarrow>
        if now then (False, resume aw) else (True, resume (aw\<lparr>aw_timeout := timed_out\<rparr>)))"

locale retrying =
  fixes ready :: "sys \<Rightarrow> awaitable \<Rightarrow> bool \<times> awaitable"
    and resume :: "sys \<Rightarrow> awaitable \<Rightarrow> sys"
  assumes ready_tries: "ready r aw = (aw_ready (try_once r aw), try_once r aw)"
    and resume_result: "resume r aw =
      (if aw_timeout aw then (- 1, ETIMEDOUT) else if aw_ready aw then (aw_ret aw, aw_errno aw) else r)"
begin

lemma run_retrying:
  "run_await (ready r1) (resume r2) timed_out =
     (if would_block r1 then (True, if timed_out then (- 1, ETIMEDOUT) else r2) else (False, r1))"
  by (auto simp: run_await_def ready_tries resume_result try_once_def would_block_def aw_init_def Let_def)

end

interpretation reading: retrying "Read_await_ready True" "Read_await_resume True"
  by unfold_locales (simp_all add: Read_await_ready_def Read_await_resume_def Let_def)

interpretation writing: retrying "Write_await_ready True" "Write_await_resume True"
  by unfold_locales (simp_all add: Write_await_ready_def Write_await_resume_def Let_def)

interpretation sendto: retrying SendTo_await_ready SendTo_await_resume
  by unfold_locales (simp_all add: SendTo_await_ready_def SendTo_await_resume_def Let_def)

interpretation sendfile: retrying SendFile_await_ready SendFile_await_resume
  by unfold_locales (simp_all add: SendFile_await_ready_def SendFile_await_resume_def Let_def)

section \<open>Timeouts\<close>

datatype inner_state = InnerPending | InnerSuspended | InnerDone

record timeout_op =
  to_inner :: inner_state
  to_armed :: bool
  to_flag :: bool
  to_results :: "sys list"

text \<open>After \<open>await_suspend\<close>: the task is spawned, the timer armed.\<close>

definition timeout_start :: timeout_op where
  "timeout_start = \<lparr>to_inner = InnerPending, to_armed = True, to_flag = False, to_results = []\<rparr>"

text \<open>\<open>coro.resume()\<close> of the waiting coroutine, which runs \<open>await_resume\<close> and cancels the timer
  unless it was the timer.\<close>

definition outer_resume :: "sys \<Rightarrow> timeout_op \<Rightarrow> timeout_op" where
  "outer_resume r t = t\<lparr>to_results := to_results t @ [r], to_inner := InnerDone,
     to_armed := (if \<not> to_flag t then False else to_armed t)\<rparr>"

datatype timeout_event = TaskStarts sys | DescriptorReady sys | TimerFires

definition timeout_step :: "timeout_event \<Rightarrow> timeout_op \<Rightarrow> timeout_op result" where
  "timeout_step e t = (case e of
      TaskStarts r \<Rightarrow>
        (if to_inner t \<noteq> InnerPending then Inl Undefined
         else if would_block r then Inr (t\<lparr>to_inner := InnerSuspended\<rparr>)
         else Inr (outer_resume r t))
    | DescriptorReady r \<Rightarrow>
        (if to_inner t = InnerSuspended then Inr (outer_resume r t) else Inr t)
    | TimerFires \<Rightarrow>
        (if \<not> to_armed t then Inr t
         else if to_inner t = InnerPending then Inl Undefined
         else let t1 = t\<lparr>to_armed := False, to_flag := True\<rparr>
              in if to_inner t = InnerSuspended then Inr (outer_resume (- 1, ETIMEDOUT) t1) else Inl Undefined))"

fun timeout_steps :: "timeout_event list \<Rightarrow> timeout_op \<Rightarrow> timeout_op result" where
  "timeout_steps [] t = Inr t"
| "timeout_steps (e # es) t = bind_result (timeout_step e t) (timeout_steps es)"

definition no_start :: "timeout_event \<Rightarrow> bool" where
  "no_start e = (case e of TaskStarts r \<Rightarrow> False | _ \<Rightarrow> True)"

text \<open>Once the task runs: it is suspended with the timer armed, or it is done, the timer is not
  armed, and there is one result.\<close>

definition timeout_inv :: "timeout_op \<Rightarrow> bool" where
  "timeout_inv t \<longleftrightarrow> (to_inner t = InnerSuspended \<and> to_armed t \<and> \<not> to_flag t \<and> to_results t = [])
     \<or> (to_inner t = InnerDone \<and> \<not> to_armed t \<and> length (to_results t) = 1
        \<and> (to_flag t \<longrightarrow> to_results t = [(- 1, ETIMEDOUT)]))"

lemma timeout_inv_start: "timeout_step (TaskStarts r) timeout_start = Inr t \<Longrightarrow> timeout_inv t"
  by (auto simp: timeout_step_def timeout_start_def outer_resume_def timeout_inv_def split: if_splits)

lemma timeout_inv_step:
  "timeout_inv t \<Longrightarrow> no_start e \<Longrightarrow> \<exists>t'. timeout_step e t = Inr t' \<and> timeout_inv t'"
  by (cases e) (auto simp: timeout_step_def outer_resume_def timeout_inv_def no_start_def Let_def)

lemma timeout_inv_steps:
  "timeout_inv t \<Longrightarrow> \<forall>e \<in> set es. no_start e \<Longrightarrow> \<exists>t'. timeout_steps es t = Inr t' \<and> timeout_inv t'"
proof (induction es arbitrary: t)
  case Nil
  then show ?case by simp
next
  case (Cons e es)
  obtain t1 where "timeout_step e t = Inr t1" "timeout_inv t1"
    using timeout_inv_step [OF Cons.prems(1)] Cons.prems(2) by auto
  then show ?case using Cons by simp
qed

lemma timeout_step_done: "to_inner t = InnerDone \<Longrightarrow> \<not> to_armed t \<Longrightarrow> no_start e \<Longrightarrow> timeout_step e t = Inr t"
  by (cases e) (simp_all add: timeout_step_def no_start_def)

lemma timeout_steps_done:
  "to_inner t = InnerDone \<Longrightarrow> \<not> to_armed t \<Longrightarrow> \<forall>e \<in> set es. no_start e \<Longrightarrow> timeout_steps es t = Inr t"
  by (induction es) (simp_all add: timeout_step_done)

section \<open>Whole transfers\<close>

text \<open>\<open>ReadN\<close> over the results of its reads, each with the bytes it stored; \<open>None\<close> while suspended.\<close>

fun ReadN :: "nat \<Rightarrow> (int \<times> byte list) list \<Rightarrow> nat \<Rightarrow> byte list \<Rightarrow> int option \<times> byte list" where
  "ReadN n results byteAlreadyRead buf =
     (if \<not> byteAlreadyRead < n then (Some (int n), buf)
      else case results of
        [] \<Rightarrow> (None, buf)
      | (ret, bytes) # rest \<Rightarrow>
          if ret \<le> 0 then (Some ret, buf)
          else ReadN n rest (byteAlreadyRead + nat ret) (buf @ bytes))"

declare ReadN.simps [simp del]

text \<open>\<open>WriteN\<close> and \<open>WriteNWithTimeout\<close> over the results of their writes: what is returned, and the
  bytes written.\<close>

fun WriteN :: "byte list \<Rightarrow> int list \<Rightarrow> nat \<Rightarrow> byte list \<Rightarrow> int option \<times> byte list" where
  "WriteN buf results byteAlreadyWrite out =
     (if \<not> byteAlreadyWrite < length buf then (Some (int (length buf)), out)
      else case results of
        [] \<Rightarrow> (None, out)
      | ret # rest \<Rightarrow>
          if ret < 0 then (Some ret, out)
          else WriteN buf rest (byteAlreadyWrite + nat ret) (out @ take (nat ret) (drop byteAlreadyWrite buf)))"

declare WriteN.simps [simp del]

fun writes_ok :: "nat \<Rightarrow> int list \<Rightarrow> bool" where
  "writes_ok left [] = True"
| "writes_ok left (ret # rs) \<longleftrightarrow> ret < 0 \<or> (nat ret \<le> left \<and> writes_ok (left - nat ret) rs)"

lemma WriteN_prefix:
  assumes "out = take k buf" "k \<le> length buf" "writes_ok (length buf - k) rs"
  shows "\<exists>j v. WriteN buf rs k out = (v, take j buf) \<and> k \<le> j \<and> j \<le> length buf
     \<and> (\<forall>ret. v = Some ret \<longrightarrow> (0 \<le> ret \<longleftrightarrow> j = length buf) \<or> (ret < 0)) \<and> (v = Some (int (length buf)) \<longrightarrow> j = length buf)"
  using assms
proof (induction rs arbitrary: k out)
  case Nil
  then show ?case by (intro exI [of _ k]) (auto simp: WriteN.simps)
next
  case (Cons ret rs)
  show ?case
  proof (cases "k < length buf \<and> 0 \<le> ret")
    case False
    then show ?thesis using Cons.prems by (intro exI [of _ k]) (auto simp: WriteN.simps)
  next
    case True
    have "out @ take (nat ret) (drop k buf) = take (k + nat ret) buf" using Cons.prems(1) by (simp add: take_add)
    moreover have "k + nat ret \<le> length buf" "writes_ok (length buf - (k + nat ret)) rs"
      using Cons.prems(2,3) True by auto
    ultimately obtain j v where "WriteN buf rs (k + nat ret) (out @ take (nat ret) (drop k buf)) = (v, take j buf)"
      "k + nat ret \<le> j" "j \<le> length buf"
      "\<forall>ret. v = Some ret \<longrightarrow> (0 \<le> ret \<longleftrightarrow> j = length buf) \<or> (ret < 0)" "v = Some (int (length buf)) \<longrightarrow> j = length buf"
      using Cons.IH by blast
    then show ?thesis using True
      by (intro exI [of _ j] exI [of _ v]) (simp add: WriteN.simps [of buf "ret # rs"])
  qed
qed

lemma WriteN_complete:
  "list_all (\<lambda>x. 0 \<le> x) ws \<Longrightarrow> k + sum_list (map nat ws) = length buf \<Longrightarrow>
   WriteN buf ws k (take k buf) = (Some (int (length buf)), buf)"
proof (induction ws arbitrary: k)
  case Nil
  then show ?case by (simp add: WriteN.simps)
next
  case (Cons w ws)
  show ?case
  proof (cases "k < length buf")
    case True
    have "WriteN buf ws (k + nat w) (take (k + nat w) buf) = (Some (int (length buf)), buf)"
      by (rule Cons.IH) (use Cons.prems in simp_all)
    then show ?thesis using True Cons.prems(1) by (subst WriteN.simps) (simp add: take_add)
  next
    case False
    then show ?thesis using Cons.prems by (subst WriteN.simps) simp
  qed
qed

lemma ReadN_whole:
  assumes "\<forall>(ret, bytes) \<in> set rs. 0 < ret \<and> length bytes = nat ret" "k + length (concat (map snd rs)) = n"
  shows "ReadN n rs k buf = (Some (int n), buf @ concat (map snd rs))"
  using assms
proof (induction rs arbitrary: k buf)
  case Nil
  then show ?case by (simp add: ReadN.simps)
next
  case (Cons r rs)
  obtain ret bytes where r: "r = (ret, bytes)" by (cases r)
  have "0 < ret" "length bytes = nat ret" using Cons.prems(1) r by auto
  then show ?case
    using Cons r by (simp add: ReadN.simps [of n "(ret, bytes) # rs"])
qed

text \<open>Bytes that were read before an error are not reported.\<close>

lemma ReadN_forgets:
  assumes "\<forall>(ret, bytes) \<in> set rs. 0 < ret \<and> length bytes = nat ret" "k + length (concat (map snd rs)) < n" "e \<le> 0"
  shows "ReadN n (rs @ [(e, [])]) k buf = (Some e, buf @ concat (map snd rs))"
  using assms
proof (induction rs arbitrary: k buf)
  case Nil
  then show ?case by (simp add: ReadN.simps)
next
  case (Cons r rs)
  obtain ret bytes where r: "r = (ret, bytes)" by (cases r)
  have "0 < ret" "length bytes = nat ret" using Cons.prems(1) r by auto
  then show ?case
    using Cons r by (simp add: ReadN.simps [of n "(ret, bytes) # rs @ [(e, [])]"])
qed

section \<open>Outcomes\<close>

text \<open>One socket call. A connected \<open>Read\<close> or \<open>Write\<close>, a \<open>SendTo\<close> and a \<open>SendFile\<close> suspend
  exactly when their first system call would block; otherwise they report that call. A suspended one
  reports its second call, or -1 with ETIMEDOUT when the timeout resumed it. Without a connection there is
  no call at all: -1 with ENOTCONN. \<open>Accept\<close> suspends on every failure, and \<open>RecvFrom\<close> always suspends:
  when its first call succeeds it keeps that result, unless the timeout fires, which throws the datagram away.\<close>

theorem io_call_outcome:
  "run_await (Read_await_ready True r1) (Read_await_resume True r2) timed_out =
     (if would_block r1 then (True, if timed_out then (- 1, ETIMEDOUT) else r2) else (False, r1))
   \<and> run_await (Write_await_ready True r1) (Write_await_resume True r2) timed_out =
     (if would_block r1 then (True, if timed_out then (- 1, ETIMEDOUT) else r2) else (False, r1))
   \<and> run_await (SendTo_await_ready r1) (SendTo_await_resume r2) timed_out =
     (if would_block r1 then (True, if timed_out then (- 1, ETIMEDOUT) else r2) else (False, r1))
   \<and> run_await (SendFile_await_ready r1) (SendFile_await_resume r2) timed_out =
     (if would_block r1 then (True, if timed_out then (- 1, ETIMEDOUT) else r2) else (False, r1))
   \<and> run_await (Read_await_ready False r1) (Read_await_resume False r2) timed_out = (False, (- 1, ENOTCONN))
   \<and> run_await (Write_await_ready False r1) (Write_await_resume False r2) timed_out = (False, (- 1, ENOTCONN))
   \<and> run_await (Accept_await_ready r1) (Accept_await_resume r2) timed_out =
     (if fst r1 < 0 then (True, if timed_out then (- 1, ETIMEDOUT) else r2) else (False, r1))
   \<and> run_await (RecvFrom_await_ready r1) (RecvFrom_await_resume r2) timed_out =
     (True, if timed_out then (- 1, ETIMEDOUT) else if would_block r1 then r2 else r1)"
proof (intro conjI)
  show "run_await (Read_await_ready True r1) (Read_await_resume True r2) timed_out =
     (if would_block r1 then (True, if timed_out then (- 1, ETIMEDOUT) else r2) else (False, r1))"
    by (rule reading.run_retrying)
  show "run_await (Write_await_ready True r1) (Write_await_resume True r2) timed_out =
     (if would_block r1 then (True, if timed_out then (- 1, ETIMEDOUT) else r2) else (False, r1))"
    by (rule writing.run_retrying)
  show "run_await (SendTo_await_ready r1) (SendTo_await_resume r2) timed_out =
     (if would_block r1 then (True, if timed_out then (- 1, ETIMEDOUT) else r2) else (False, r1))"
    by (rule sendto.run_retrying)
  show "run_await (SendFile_await_ready r1) (SendFile_await_resume r2) timed_out =
     (if would_block r1 then (True, if timed_out then (- 1, ETIMEDOUT) else r2) else (False, r1))"
    by (rule sendfile.run_retrying)
  show "run_await (Read_await_ready False r1) (Read_await_resume False r2) timed_out = (False, (- 1, ENOTCONN))"
    by (simp add: run_await_def Read_await_ready_def Read_await_resume_def aw_init_def)
  show "run_await (Write_await_ready False r1) (Write_await_resume False r2) timed_out = (False, (- 1, ENOTCONN))"
    by (simp add: run_await_def Write_await_ready_def Write_await_resume_def aw_init_def)
  show "run_await (Accept_await_ready r1) (Accept_await_resume r2) timed_out =
     (if fst r1 < 0 then (True, if timed_out then (- 1, ETIMEDOUT) else r2) else (False, r1))"
    by (auto simp: run_await_def Accept_await_ready_def Accept_await_resume_def aw_init_def Let_def)
  show "run_await (RecvFrom_await_ready r1) (RecvFrom_await_resume r2) timed_out =
     (True, if timed_out then (- 1, ETIMEDOUT) else if would_block r1 then r2 else r1)"
    by (auto simp: run_await_def RecvFrom_await_ready_def RecvFrom_await_resume_def aw_init_def Let_def
        try_once_def would_block_def)
qed

text \<open>A connection refused at once leaves the number of the failed call, not the reason, in \<open>errno\<close>;
  one refused while in progress leaves the reason.\<close>

lemma connect_reason:
  "snd r \<noteq> EINPROGRESS \<Longrightarrow> snd (run_await (Connect_await_ready (- 1, snd r)) (Connect_await_resume so) False) = (- 1, - 1, False)"
  "v \<noteq> 0 \<Longrightarrow> snd (run_await (Connect_await_ready (- 1, EINPROGRESS)) (Connect_await_resume (Some v)) False) = (- 1, v, False)"
  "snd (run_await (Connect_await_ready (- 1, EINPROGRESS)) (Connect_await_resume (Some 0)) False) = (0, int EINPROGRESS, True)"
  by (simp_all add: run_await_def Connect_await_ready_def Connect_await_resume_def aw_init_def Let_def EINPROGRESS_def)

text \<open>What the first event after the start of the task decides.\<close>

fun timeout_result :: "sys \<Rightarrow> timeout_event list \<Rightarrow> sys list" where
  "timeout_result r es = (if \<not> would_block r then [r]
     else case es of DescriptorReady r2 # _ \<Rightarrow> [r2] | TimerFires # _ \<Rightarrow> [(- 1, ETIMEDOUT)] | _ \<Rightarrow> [])"

declare timeout_result.simps [simp del]

lemma timeout_steps_first:
  assumes "\<forall>e \<in> set es. no_start e" "to_inner t = InnerSuspended" "to_armed t" "\<not> to_flag t" "to_results t = []" "would_block r"
  shows "\<exists>t'. timeout_steps es t = Inr t' \<and> to_results t' = timeout_result r es \<and> (to_armed t' \<longleftrightarrow> to_results t' = [])"
proof (cases es)
  case Nil
  then show ?thesis using assms by (simp add: timeout_result.simps)
next
  case (Cons e rest)
  have "\<forall>e \<in> set rest. no_start e" "no_start e" using assms(1) Cons by simp_all
  then show ?thesis
    using assms Cons
    by (cases e) (simp_all add: timeout_step_def outer_resume_def Let_def timeout_steps_done timeout_result.simps no_start_def)
qed

text \<open>A call with a timeout finishes once. Once the spawned task has started, whatever the loop
  delivers afterwards and in whatever order and number (the descriptor becoming ready, the timer), the
  waiting coroutine is resumed at most once: with the first call's result when that does not block,
  otherwise by the first event, with the retried call's result or with -1 and ETIMEDOUT; and from then on
  the timer is disarmed, while until then it is armed.\<close>

theorem timeout_once:
  assumes "\<forall>e \<in> set es. no_start e"
  shows "\<exists>t. timeout_steps (TaskStarts r # es) timeout_start = Inr t
     \<and> to_results t = timeout_result r es \<and> (to_armed t \<longleftrightarrow> to_results t = [])"
proof (cases "would_block r")
  case True
  let ?t = "timeout_start\<lparr>to_inner := InnerSuspended\<rparr>"
  have "timeout_steps (TaskStarts r # es) timeout_start = timeout_steps es ?t"
    using True by (simp add: timeout_step_def timeout_start_def)
  then show ?thesis
    using timeout_steps_first [OF assms, of ?t r] True by (simp add: timeout_start_def)
next
  case False
  let ?t = "outer_resume r timeout_start"
  have "timeout_steps (TaskStarts r # es) timeout_start = timeout_steps es ?t"
    using False by (simp add: timeout_step_def timeout_start_def)
  moreover have "timeout_steps es ?t = Inr ?t"
    by (rule timeout_steps_done) (simp_all add: outer_resume_def timeout_start_def assms)
  ultimately show ?thesis
    using False by (simp add: outer_resume_def timeout_start_def timeout_result.simps)
qed

theorem timeout_once_witness:
  "\<exists>t. timeout_steps [TaskStarts (- 1, 11), TimerFires, DescriptorReady (5, 0), TimerFires] timeout_start = Inr t
     \<and> to_results t = [(- 1, ETIMEDOUT)] \<and> \<not> to_armed t"
proof -
  let ?es = "[TimerFires, DescriptorReady (5, 0), TimerFires]"
  have "\<forall>e \<in> set ?es. no_start e" by (simp add: no_start_def)
  from timeout_once [OF this, of "(- 1, 11)"] show ?thesis
    by (auto simp: timeout_result.simps would_block_def EAGAIN_def simp del: timeout_steps.simps)
qed

text \<open>The timer runs out before the task has started: the timer's task starts it, and the loop then
  resumes it a second time.\<close>

lemma timeout_before_start: "timeout_steps (TimerFires # es) timeout_start = Inl Undefined"
  by (simp add: timeout_step_def timeout_start_def)

text \<open>\<open>WriteN\<close> never reorders, repeats or skips bytes: whatever the single writes report, the bytes on the
  wire are a prefix of the buffer; when it returns the length, the whole buffer was written, and when all
  writes succeed and together reach the length, it does return it. \<open>ReadN\<close> likewise: successful reads that
  together give the \<open>n\<close> bytes asked for store exactly their bytes in order and return \<open>n\<close>.\<close>

theorem whole_transfers:
  assumes "writes_ok (length buf) ws"
    and "\<forall>(ret, bytes) \<in> set rs. 0 < ret \<and> length bytes = nat ret"
  shows "(\<exists>v j. WriteN buf ws 0 [] = (v, take j buf) \<and> j \<le> length buf
       \<and> (v = Some (int (length buf)) \<longrightarrow> take j buf = buf)
       \<and> ((\<forall>ret \<in> set ws. 0 \<le> ret) \<longrightarrow> sum_list (map nat ws) = length buf \<longrightarrow> v = Some (int (length buf))))
     \<and> ReadN (length (concat (map snd rs))) rs 0 [] = (Some (int (length (concat (map snd rs)))), concat (map snd rs))"
proof (rule conjI)
  show "ReadN (length (concat (map snd rs))) rs 0 [] = (Some (int (length (concat (map snd rs)))), concat (map snd rs))"
    using ReadN_whole [OF assms(2), of 0 _ "[]"] by simp
  obtain j v where w: "WriteN buf ws 0 [] = (v, take j buf)" "j \<le> length buf" "v = Some (int (length buf)) \<longrightarrow> j = length buf"
    using WriteN_prefix [of "[]" 0 buf ws] assms(1) by auto
  have all: "(\<forall>ret \<in> set ws. 0 \<le> ret) \<Longrightarrow> k + sum_list (map nat ws) = length buf \<Longrightarrow>
      fst (WriteN buf ws k out) = Some (int (length buf))" for k out
    by (induction ws arbitrary: k out) (auto simp: WriteN.simps)
  have "(\<forall>ret \<in> set ws. 0 \<le> ret) \<longrightarrow> sum_list (map nat ws) = length buf \<longrightarrow> v = Some (int (length buf))"
    using all [of 0 "[]"] w(1) by simp
  then show "\<exists>v j. WriteN buf ws 0 [] = (v, take j buf) \<and> j \<le> length buf
       \<and> (v = Some (int (length buf)) \<longrightarrow> take j buf = buf)
       \<and> ((\<forall>ret \<in> set ws. 0 \<le> ret) \<longrightarrow> sum_list (map nat ws) = length buf \<longrightarrow> v = Some (int (length buf)))"
    using w by (intro exI [of _ v] exI [of _ j]) simp
qed

theorem whole_transfers_witness:
  "(\<exists>v j. WriteN [1, 2, 3] [2, 1] 0 [] = (v, take j [1, 2, 3]) \<and> v = Some 3)
   \<and> ReadN 3 [(1, [7]), (2, [8, 9])] 0 [] = (Some 3, [7, 8, 9])"
  using whole_transfers [of "[1, 2, 3]" "[2, 1]" "[(1, [7]), (2, [8, 9])]"] by (auto simp: numeral_eq_Suc)

end
