(* ===== verification/TimerQueue.thy ===== *)
theory TimerQueue
  imports Prelude
begin

text \<open>
  \<open>cold/time/TimerQueue.{h,cpp}\<close>: the binary min-heap of pending timers with its index map.

  \<^item> A \<open>Task<>\<close> is a value of \<open>'t option\<close> (\<open>None\<close> after a move); a \<open>Time\<close> is a number of
    nanoseconds since the epoch.
  \<^item> \<open>timerIdToIndexMap_[id]\<close> default-inserts 0 for a missing key, as \<open>std::map\<close> does.
  \<^item> A failing \<open>assert\<close> is \<open>Inl AssertFail\<close>; the lemmas show that no assertion of the file fails.
\<close>

record 't TimerNode =
  timerId :: nat
  expiry :: int
  task :: "'t option"
  valid :: bool

record 't TimerQueue =
  timeHeap :: "'t TimerNode list"
  timerIdToIndexMap :: "nat \<rightharpoonup> nat"

text \<open>The fields of \<open>Timer\<close> the queue reads.\<close>

record 't Timer =
  t_timerId :: nat
  t_expiry :: int
  t_task :: "'t option"

definition kDefaultTickMilliSeconds :: int where
  "kDefaultTickMilliSeconds = 500"

definition TimeSinceEpochMilliSeconds :: "int \<Rightarrow> int" where
  "TimeSinceEpochMilliSeconds t = tdiv t 1000000"

definition node_gt :: "'t TimerNode \<Rightarrow> 't TimerNode \<Rightarrow> bool" where
  "node_gt a b = (if expiry a = expiry b then timerId a > timerId b else expiry a > expiry b)"

definition empty_queue :: "'t TimerQueue" where
  "empty_queue = \<lparr>timeHeap = [], timerIdToIndexMap = Map.empty\<rparr>"

definition index_ref :: "(nat \<rightharpoonup> nat) \<Rightarrow> nat \<Rightarrow> nat" where
  "index_ref m k = (case m k of None \<Rightarrow> 0 | Some v \<Rightarrow> v)"

text \<open>The two \<open>std::swap\<close>s of \<open>Fixup\<close> and \<open>FixDown\<close>: map entries first, then the nodes.\<close>

definition swap_nodes :: "nat \<Rightarrow> nat \<Rightarrow> 't TimerQueue \<Rightarrow> 't TimerQueue" where
  "swap_nodes parent son q =
     (let h = timeHeap q; m = timerIdToIndexMap q;
          p = timerId (h ! parent); s = timerId (h ! son)
      in q\<lparr>timerIdToIndexMap := m(p \<mapsto> index_ref m s, s \<mapsto> index_ref m p),
           timeHeap := h[parent := h ! son, son := h ! parent]\<rparr>)"

lemma length_swap_nodes [simp]: "length (timeHeap (swap_nodes i j q)) = length (timeHeap q)"
  by (simp add: swap_nodes_def Let_def)

function Fixup :: "nat \<Rightarrow> 't TimerQueue \<Rightarrow> 't TimerQueue" where
  "Fixup son q =
     (if son > 0 then
        (let parent = (son - 1) div 2 in
         if \<not> node_gt (timeHeap q ! parent) (timeHeap q ! son) then q
         else Fixup parent (swap_nodes parent son q))
      else q)"
  by pat_completeness auto
termination
  by (relation "measure fst") auto

function FixDown :: "nat \<Rightarrow> 't TimerQueue \<Rightarrow> 't TimerQueue" where
  "FixDown parent q =
     (let last = length (timeHeap q); son0 = parent * 2 + 1 in
      if son0 < last then
        (let son = (if son0 + 1 < last \<and> node_gt (timeHeap q ! son0) (timeHeap q ! (son0 + 1))
                    then son0 + 1 else son0) in
         if node_gt (timeHeap q ! son) (timeHeap q ! parent) then q
         else FixDown son (swap_nodes parent son q))
      else q)"
  by pat_completeness auto
termination
  by (relation "measure (\<lambda>(parent, q). length (timeHeap q) - parent)") (auto split: if_splits)

declare Fixup.simps [simp del] FixDown.simps [simp del]

text \<open>
  \<open>AddTimer\<close> moves the task out of the timer in both branches; when the timer is queued
  already the local node dies with it. The flag says whether the error was logged.
\<close>

definition AddTimer :: "'t Timer \<Rightarrow> 't TimerQueue \<Rightarrow> 't TimerQueue \<times> 't Timer \<times> bool" where
  "AddTimer timer q =
     (let node = \<lparr>timerId = t_timerId timer, expiry = t_expiry timer, task = t_task timer, valid = True\<rparr>;
          timer' = timer\<lparr>t_task := None\<rparr>
      in case timerIdToIndexMap q (t_timerId timer) of
           None \<Rightarrow>
             (let last = length (timeHeap q) in
              (Fixup last (q\<lparr>timeHeap := timeHeap q @ [node],
                             timerIdToIndexMap := (timerIdToIndexMap q)(t_timerId timer \<mapsto> last)\<rparr>),
               timer', False))
         | Some _ \<Rightarrow> (q, timer', True))"

definition CancelTimer :: "'t Timer \<Rightarrow> 't TimerQueue \<Rightarrow> 't TimerQueue result" where
  "CancelTimer timer q =
     (case timerIdToIndexMap q (t_timerId timer) of
        None \<Rightarrow> Inr q
      | Some index \<Rightarrow>
          if index < length (timeHeap q) \<and> timerId (timeHeap q ! index) = t_timerId timer
          then Inr (q\<lparr>timeHeap := (timeHeap q)[index := (timeHeap q ! index)\<lparr>valid := False\<rparr>]\<rparr>)
          else Inl AssertFail)"

definition UpdateTimer :: "'t Timer \<Rightarrow> 't TimerQueue \<Rightarrow> 't TimerQueue result" where
  "UpdateTimer timer q =
     (case timerIdToIndexMap q (t_timerId timer) of
        None \<Rightarrow> Inr q
      | Some index \<Rightarrow>
          if index < length (timeHeap q) \<and> timerId (timeHeap q ! index) = t_timerId timer
          then Inr (Fixup index (FixDown index
                 (q\<lparr>timeHeap := (timeHeap q)[index := (timeHeap q ! index)\<lparr>expiry := t_expiry timer\<rparr>]\<rparr>)))
          else Inl AssertFail)"

text \<open>One round of the loop of \<open>HandleTimeout\<close>, after the node's task was taken.\<close>

definition pop_front :: "'t TimerQueue \<Rightarrow> 't TimerQueue" where
  "pop_front q =
     (let h = timeHeap q; n = length h;
          m1 = (timerIdToIndexMap q)(timerId (h ! 0) := None);
          h1 = h[0 := h ! (n - 1), n - 1 := h ! 0];
          m2 = (if n > 1 then m1(timerId (h1 ! 0) \<mapsto> 0) else m1)
      in FixDown 0 (q\<lparr>timeHeap := butlast h1, timerIdToIndexMap := m2\<rparr>))"

lemma length_FixDown [simp]: "length (timeHeap (FixDown parent q)) = length (timeHeap q)"
proof (induction parent q rule: FixDown.induct)
  case (1 parent q)
  then show ?case by (subst FixDown.simps) (auto simp: Let_def)
qed

lemma length_Fixup [simp]: "length (timeHeap (Fixup son q)) = length (timeHeap q)"
proof (induction son q rule: Fixup.induct)
  case (1 son q)
  then show ?case by (subst Fixup.simps) (auto simp: Let_def)
qed

lemma length_pop_front: "length (timeHeap (pop_front q)) = length (timeHeap q) - 1"
  by (simp add: pop_front_def Let_def)

function timeout_loop ::
    "int \<Rightarrow> 't option list \<Rightarrow> 't TimerQueue \<Rightarrow> ('t option list \<times> 't TimerQueue) result" where
  "timeout_loop now out q =
     (if timeHeap q \<noteq> [] \<and> now \<ge> expiry (timeHeap q ! 0) then
        (let node = timeHeap q ! 0; out' = (if valid node then out @ [task node] else out) in
         if timerIdToIndexMap q (timerId node) = None then Inl AssertFail
         else timeout_loop now out' (pop_front q))
      else Inr (out, q))"
  by pat_completeness auto
termination
  by (relation "measure (\<lambda>(now, out, q). length (timeHeap q))")
     (auto simp: length_pop_front simp flip: length_greater_0_conv)

declare timeout_loop.simps [simp del]

definition HandleTimeout ::
    "int \<Rightarrow> 't TimerQueue \<Rightarrow> ('t option list \<times> int \<times> 't TimerQueue) result" where
  "HandleTimeout now q =
     bind_result (timeout_loop now [] q) (\<lambda>(out, q').
       if \<not> (timeHeap q' = [] \<or> expiry (timeHeap q' ! 0) > now) then Inl AssertFail
       else if timeHeap q' \<noteq> [] then
         (let waitTime = TimeSinceEpochMilliSeconds (expiry (timeHeap q' ! 0))
                           - TimeSinceEpochMilliSeconds now
          in Inr (out, if waitTime > kDefaultTickMilliSeconds then kDefaultTickMilliSeconds
                       else waitTime, q'))
       else Inr (out, kDefaultTickMilliSeconds, q'))"

section \<open>The heap order\<close>

definition key :: "'t TimerNode \<Rightarrow> int \<times> nat" where
  "key n = (expiry n, timerId n)"

lemma node_gt_key: "node_gt a b \<longleftrightarrow> key b < key a"
  by (auto simp: node_gt_def key_def less_prod_def)

definition up_edge :: "'t TimerNode list \<Rightarrow> nat \<Rightarrow> bool" where
  "up_edge h i \<longleftrightarrow> key (h ! ((i - 1) div 2)) \<le> key (h ! i)"

definition heap_inv :: "'t TimerNode list \<Rightarrow> bool" where
  "heap_inv h \<longleftrightarrow> (\<forall>i. 0 < i \<and> i < length h \<longrightarrow> up_edge h i)"

text \<open>Every edge is in order but the one above \<open>k\<close> (while sifting up), or those below \<open>k\<close>
  (while sifting down); across \<open>k\<close> the order still holds between its parent and its sons.\<close>

definition bridged :: "'t TimerNode list \<Rightarrow> nat \<Rightarrow> bool" where
  "bridged h k \<longleftrightarrow>
     (\<forall>i. 0 < k \<and> 0 < i \<and> i < length h \<and> (i - 1) div 2 = k \<longrightarrow> key (h ! ((k - 1) div 2)) \<le> key (h ! i))"

definition heap_but_up :: "'t TimerNode list \<Rightarrow> nat \<Rightarrow> bool" where
  "heap_but_up h k \<longleftrightarrow> bridged h k \<and> (\<forall>i. 0 < i \<and> i < length h \<and> i \<noteq> k \<longrightarrow> up_edge h i)"

definition heap_but_down :: "'t TimerNode list \<Rightarrow> nat \<Rightarrow> bool" where
  "heap_but_down h k \<longleftrightarrow>
     bridged h k \<and> (\<forall>i. 0 < i \<and> i < length h \<and> (i - 1) div 2 \<noteq> k \<longrightarrow> up_edge h i)"

lemma timeHeap_swap: "timeHeap (swap_nodes i j q)
    = (timeHeap q)[i := timeHeap q ! j, j := timeHeap q ! i]"
  by (simp add: swap_nodes_def Let_def)

lemma mset_swap_nodes:
  "i < length (timeHeap q) \<Longrightarrow> j < length (timeHeap q) \<Longrightarrow>
   mset (timeHeap (swap_nodes i j q)) = mset (timeHeap q)"
  by (simp add: timeHeap_swap mset_swap)

lemma swap_up_order:
  assumes "heap_but_up h k" and "0 < k" and "k < length h"
    and "key (h ! k) < key (h ! ((k - 1) div 2))"
  shows "heap_but_up (h[(k - 1) div 2 := h ! k, k := h ! ((k - 1) div 2)]) ((k - 1) div 2)"
proof -
  define p where "p = (k - 1) div 2"
  define h' where "h' = h[p := h ! k, k := h ! p]"
  have p: "p < k" "p < length h" using assms by (auto simp: p_def)
  have nth: "h' ! i = (if i = k then h ! p else if i = p then h ! k else h ! i)"
    if "i < length h" for i using that p assms by (simp add: h'_def nth_list_update)
  have len: "length h' = length h" by (simp add: h'_def)
  have up: "key (h ! ((i - 1) div 2)) \<le> key (h ! i)" if "0 < i" "i < length h" "i \<noteq> k" for i
    using assms(1) that by (auto simp: heap_but_up_def up_edge_def)
  have bridge: "key (h ! p) \<le> key (h ! i)" if "0 < i" "i < length h" "(i - 1) div 2 = k" for i
    using assms(1,2) that by (auto simp: heap_but_up_def bridged_def p_def)
  have lt: "key (h ! k) < key (h ! p)" using assms(4) by (simp add: p_def)
  have "up_edge h' i" if i: "0 < i" "i < length h" "i \<noteq> p" for i
  proof -
    have pi: "(i - 1) div 2 < i" "(i - 1) div 2 < length h" using i by auto
    consider "i = k" | "i \<noteq> k" "(i - 1) div 2 = k" | "i \<noteq> k" "(i - 1) div 2 = p"
      | "i \<noteq> k" "(i - 1) div 2 \<noteq> k" "(i - 1) div 2 \<noteq> p" by blast
    then show ?thesis
    proof cases
      case 1
      moreover have "(k - 1) div 2 = p" by (simp add: p_def)
      ultimately show ?thesis using lt p assms(3) by (simp add: up_edge_def nth less_imp_le)
    next
      case 2
      then show ?thesis using i bridge [of i] by (simp add: up_edge_def nth pi)
    next
      case 3
      then have "key (h ! p) \<le> key (h ! i)" using up [of i] i by simp
      then show ?thesis using 3 i lt p by (simp add: up_edge_def nth less_imp_le [OF less_le_trans])
    next
      case 4
      then show ?thesis using up [of i] i pi by (simp add: up_edge_def nth)
    qed
  qed
  moreover have "bridged h' p"
    unfolding bridged_def
  proof (intro allI impI, elim conjE)
    fix i
    assume i: "0 < p" "0 < i" "i < length h'" "(i - 1) div 2 = p"
    have pp: "(p - 1) div 2 < length h" "(p - 1) div 2 \<noteq> p" "(p - 1) div 2 \<noteq> k"
      using i p by auto
    have "key (h ! ((p - 1) div 2)) \<le> key (h ! p)" using up [of p] i p by simp
    moreover have "key (h ! p) \<le> key (h ! i)" if "i \<noteq> k" using up [of i] i that len by simp
    ultimately have "key (h ! ((p - 1) div 2)) \<le> key (h' ! i)"
      using i len p by (auto simp: nth intro: order_trans)
    then show "key (h' ! ((p - 1) div 2)) \<le> key (h' ! i)"
      using pp by (simp add: nth)
  qed
  ultimately show ?thesis
    unfolding p_def [symmetric] h'_def [symmetric] by (simp add: heap_but_up_def len)
qed

lemma Fixup_heap:
  "heap_but_up (timeHeap q) k \<Longrightarrow> k < length (timeHeap q) \<Longrightarrow>
   heap_inv (timeHeap (Fixup k q)) \<and> mset (timeHeap (Fixup k q)) = mset (timeHeap q)"
proof (induction k q rule: Fixup.induct)
  case (1 k q)
  let ?p = "(k - 1) div 2"
  show ?case
  proof (cases "0 < k \<and> node_gt (timeHeap q ! ?p) (timeHeap q ! k)")
    case True
    then have "Fixup k q = Fixup ?p (swap_nodes ?p k q)"
      by (subst Fixup.simps) (simp add: Let_def)
    moreover have "heap_but_up (timeHeap (swap_nodes ?p k q)) ?p"
      using swap_up_order [OF 1(2)] True 1(3) by (simp add: node_gt_key timeHeap_swap)
    ultimately show ?thesis
      using 1 True by (auto simp: Let_def mset_swap_nodes)
  next
    case False
    then have "Fixup k q = q" by (subst Fixup.simps) (auto simp: Let_def)
    moreover have "heap_inv (timeHeap q)"
      using 1(2) False by (auto simp: heap_inv_def heap_but_up_def up_edge_def node_gt_key)
    ultimately show ?thesis by simp
  qed
qed

lemma Fixup_id: "heap_inv (timeHeap q) \<Longrightarrow> k < length (timeHeap q) \<Longrightarrow> Fixup k q = q"
  by (subst Fixup.simps) (auto simp: Let_def heap_inv_def up_edge_def node_gt_key not_less)

lemma swap_down_order:
  assumes "heap_but_down h k" and "s < length h" and "0 < s" and "(s - 1) div 2 = k"
    and least: "\<And>i. 0 < i \<Longrightarrow> i < length h \<Longrightarrow> (i - 1) div 2 = k \<Longrightarrow> key (h ! s) \<le> key (h ! i)"
    and lt: "key (h ! s) \<le> key (h ! k)"
  shows "heap_but_down (h[k := h ! s, s := h ! k]) s"
proof -
  define h' where "h' = h[k := h ! s, s := h ! k]"
  have k: "k < s" "k < length h" using assms(2-4) by auto
  have nth: "h' ! i = (if i = s then h ! k else if i = k then h ! s else h ! i)"
    if "i < length h" for i using that k assms by (simp add: h'_def nth_list_update)
  have len: "length h' = length h" by (simp add: h'_def)
  have up: "key (h ! ((i - 1) div 2)) \<le> key (h ! i)"
    if "0 < i" "i < length h" "(i - 1) div 2 \<noteq> k" for i
    using assms(1) that by (auto simp: heap_but_down_def up_edge_def)
  have bridge: "key (h ! ((k - 1) div 2)) \<le> key (h ! i)"
    if "0 < k" "0 < i" "i < length h" "(i - 1) div 2 = k" for i
    using assms(1) that by (auto simp: heap_but_down_def bridged_def)
  have "up_edge h' i" if i: "0 < i" "i < length h" "(i - 1) div 2 \<noteq> s" for i
  proof -
    have pi: "(i - 1) div 2 < i" "(i - 1) div 2 < length h" using i by auto
    consider "i = s" | "i \<noteq> s" "(i - 1) div 2 = k" | "i = k"
      | "i \<noteq> s" "i \<noteq> k" "(i - 1) div 2 \<noteq> k" by blast
    then show ?thesis
    proof cases
      case 1
      then show ?thesis using lt k assms by (simp add: up_edge_def nth)
    next
      case 2
      then show ?thesis using i least [of i] k pi by (simp add: up_edge_def nth)
    next
      case 3
      have "key (h ! ((k - 1) div 2)) \<le> key (h ! s)"
        using bridge [of s] assms i 3 by simp
      then show ?thesis using 3 i k pi by (simp add: up_edge_def nth)
    next
      case 4
      then show ?thesis using up [of i] i pi by (simp add: up_edge_def nth)
    qed
  qed
  moreover have "bridged h' s"
    unfolding bridged_def
  proof (intro allI impI, elim conjE)
    fix i
    assume i: "0 < s" "0 < i" "i < length h'" "(i - 1) div 2 = s"
    then have "key (h ! s) \<le> key (h ! i)" using up [of i] k len by simp
    then show "key (h' ! ((s - 1) div 2)) \<le> key (h' ! i)"
      using i k assms len by (auto simp: nth)
  qed
  ultimately show ?thesis
    by (simp add: heap_but_down_def len h'_def [symmetric])
qed

text \<open>The son \<open>FixDown\<close> picks: the smaller of the two.\<close>

definition least_son :: "'t TimerNode list \<Rightarrow> nat \<Rightarrow> nat" where
  "least_son h k = (if 2 * k + 2 < length h \<and> node_gt (h ! (2 * k + 1)) (h ! (2 * k + 2))
                    then 2 * k + 2 else 2 * k + 1)"

lemma FixDown_unfold:
  "FixDown k q =
     (if 2 * k + 1 < length (timeHeap q) \<and>
         \<not> node_gt (timeHeap q ! least_son (timeHeap q) k) (timeHeap q ! k)
      then FixDown (least_son (timeHeap q) k) (swap_nodes k (least_son (timeHeap q) k) q) else q)"
  by (subst FixDown.simps) (auto simp: Let_def least_son_def mult.commute)

lemma least_son_props:
  assumes "2 * k + 1 < length h"
  shows "least_son h k < length h" "0 < least_son h k" "(least_son h k - 1) div 2 = k"
    and "0 < i \<Longrightarrow> i < length h \<Longrightarrow> (i - 1) div 2 = k \<Longrightarrow> key (h ! least_son h k) \<le> key (h ! i)"
proof -
  show "least_son h k < length h" "0 < least_son h k" "(least_son h k - 1) div 2 = k"
    using assms by (auto simp: least_son_def)
  assume "0 < i" "i < length h" "(i - 1) div 2 = k"
  then have "i = 2 * k + 1 \<or> i = 2 * k + 2" by arith
  then show "key (h ! least_son h k) \<le> key (h ! i)"
    using \<open>i < length h\<close> by (auto simp: least_son_def node_gt_key)
qed

lemma no_son: "\<not> 2 * k + 1 < n \<Longrightarrow> i < n \<Longrightarrow> 0 < i \<Longrightarrow> (i - 1) div 2 \<noteq> (k :: nat)"
  by arith

lemma FixDown_heap:
  "heap_but_down (timeHeap q) k \<Longrightarrow>
   heap_inv (timeHeap (FixDown k q)) \<and> mset (timeHeap (FixDown k q)) = mset (timeHeap q)"
proof (induction "length (timeHeap q) - k" arbitrary: k q rule: less_induct)
  case less
  let ?h = "timeHeap q" and ?s = "least_son (timeHeap q) k"
  show ?case
  proof (cases "2 * k + 1 < length ?h \<and> \<not> node_gt (?h ! ?s) (?h ! k)")
    case True
    note son = least_son_props [of k ?h]
    have s: "?s < length ?h" "k < ?s" using son True by auto
    have "heap_but_down (timeHeap (swap_nodes k ?s q)) ?s"
      unfolding timeHeap_swap
      by (rule swap_down_order [OF less.prems]) (use son True in \<open>auto simp: node_gt_key not_less\<close>)
    then have "heap_inv (timeHeap (FixDown ?s (swap_nodes k ?s q)))
        \<and> mset (timeHeap (FixDown ?s (swap_nodes k ?s q))) = mset (timeHeap (swap_nodes k ?s q))"
      using s by (intro less.hyps) auto
    then show ?thesis
      using True s by (subst (1 2) FixDown_unfold) (simp add: mset_swap_nodes)
  next
    case False
    then have eq: "FixDown k q = q" by (subst FixDown_unfold) auto
    have "up_edge ?h i" if i: "0 < i" "i < length ?h" for i
    proof (cases "(i - 1) div 2 = k")
      case True
      then have "2 * k + 1 < length ?h" using no_son i by blast
      moreover from this False have "key (?h ! k) < key (?h ! ?s)" by (simp add: node_gt_key)
      ultimately show ?thesis
        using least_son_props(4) [of k ?h i] i True by (auto simp: up_edge_def)
    next
      case False
      then show ?thesis using less.prems i by (simp add: heap_but_down_def)
    qed
    then show ?thesis by (simp add: eq heap_inv_def)
  qed
qed

section \<open>The index map\<close>

definition index_inv :: "'t TimerQueue \<Rightarrow> bool" where
  "index_inv q \<longleftrightarrow>
     (\<forall>k i. timerIdToIndexMap q k = Some i \<longleftrightarrow> i < length (timeHeap q) \<and> timerId (timeHeap q ! i) = k)"

definition queue_inv :: "'t TimerQueue \<Rightarrow> bool" where
  "queue_inv q \<longleftrightarrow> heap_inv (timeHeap q) \<and> index_inv q"

lemma index_invD: "index_inv q \<Longrightarrow> i < length (timeHeap q) \<Longrightarrow>
    timerIdToIndexMap q (timerId (timeHeap q ! i)) = Some i"
  by (simp add: index_inv_def)

lemma index_inv_distinct: "index_inv q \<Longrightarrow> distinct (map timerId (timeHeap q))"
  by (auto simp: distinct_conv_nth dest: index_invD) (metis index_invD option.inject)

lemma index_inv_inj:
  "index_inv q \<Longrightarrow> timerId (timeHeap q ! i) = timerId (timeHeap q ! j) \<Longrightarrow>
   i < length (timeHeap q) \<Longrightarrow> j < length (timeHeap q) \<Longrightarrow> i = j"
  by (metis index_invD option.inject)

lemma index_inv_swap:
  assumes inv: "index_inv q" and i: "i < length (timeHeap q)" and j: "j < length (timeHeap q)"
    and "i \<noteq> j"
  shows "index_inv (swap_nodes i j q)"
proof -
  let ?h = "timeHeap q" and ?m = "timerIdToIndexMap q"
  let ?a = "timerId (?h ! i)" and ?b = "timerId (?h ! j)"
  have mi: "?m ?a = Some i" and mj: "?m ?b = Some j"
    using index_invD inv i j by blast+
  then have ab: "?a \<noteq> ?b" using \<open>i \<noteq> j\<close> by auto
  have m': "timerIdToIndexMap (swap_nodes i j q) = ?m(?a \<mapsto> j, ?b \<mapsto> i)"
    by (simp add: swap_nodes_def Let_def index_ref_def mi mj)
  show ?thesis
    unfolding index_inv_def m' timeHeap_swap
    using inv i j ab \<open>i \<noteq> j\<close> mi mj
    by (auto simp: index_inv_def nth_list_update split: if_splits dest: index_inv_inj [OF inv])
qed

lemma index_inv_Fixup: "index_inv q \<Longrightarrow> k < length (timeHeap q) \<Longrightarrow> index_inv (Fixup k q)"
proof (induction k q rule: Fixup.induct)
  case (1 k q)
  have "index_inv (swap_nodes ((k - 1) div 2) k q)" if "0 < k"
    using 1(2,3) that by (intro index_inv_swap) auto
  then show ?case
    using 1 by (subst Fixup.simps) (simp add: Let_def)
qed

lemma index_inv_FixDown: "index_inv q \<Longrightarrow> index_inv (FixDown k q)"
proof (induction "length (timeHeap q) - k" arbitrary: k q rule: less_induct)
  case less
  let ?s = "least_son (timeHeap q) k"
  show ?case
  proof (cases "2 * k + 1 < length (timeHeap q) \<and> \<not> node_gt (timeHeap q ! ?s) (timeHeap q ! k)")
    case True
    then have s: "?s < length (timeHeap q)" "0 < ?s" "(?s - 1) div 2 = k"
      using least_son_props by blast+
    then have "k < ?s" by auto
    with s less.prems have "index_inv (FixDown ?s (swap_nodes k ?s q))"
      by (intro less.hyps) (auto intro: index_inv_swap)
    then show ?thesis using True by (subst FixDown_unfold) simp
  next
    case False
    then show ?thesis using less.prems by (subst FixDown_unfold) auto
  qed
qed

section \<open>The operations keep the invariant\<close>

lemma queue_inv_empty [cold_inv]: "queue_inv empty_queue"
  by (simp add: queue_inv_def heap_inv_def index_inv_def empty_queue_def)

lemma heap_but_up_append:
  assumes "heap_inv h" shows "heap_but_up (h @ [node]) (length h)"
proof -
  have "bridged (h @ [node]) (length h)"
    by (auto simp: bridged_def)
  moreover have "up_edge (h @ [node]) i" if "0 < i" "i < length h" for i
  proof -
    have "(i - 1) div 2 < length h" using that by auto
    then show ?thesis using assms that by (simp add: heap_inv_def up_edge_def nth_append)
  qed
  ultimately show ?thesis by (auto simp: heap_but_up_def)
qed

lemma AddTimer_new:
  assumes "queue_inv q" and "timerIdToIndexMap q (t_timerId timer) = None"
    and "AddTimer timer q = (q', timer', err)"
  shows "queue_inv q' \<and> \<not> err \<and> mset (timeHeap q') = add_mset
           \<lparr>timerId = t_timerId timer, expiry = t_expiry timer, task = t_task timer, valid = True\<rparr>
           (mset (timeHeap q))"
proof -
  let ?node = "\<lparr>timerId = t_timerId timer, expiry = t_expiry timer, task = t_task timer, valid = True\<rparr>"
  let ?q1 = "q\<lparr>timeHeap := timeHeap q @ [?node],
     timerIdToIndexMap := (timerIdToIndexMap q)(t_timerId timer \<mapsto> length (timeHeap q))\<rparr>"
  have q': "q' = Fixup (length (timeHeap q)) ?q1" and err: "\<not> err"
    using assms by (auto simp: AddTimer_def Let_def)
  have "timerId n \<noteq> t_timerId timer" if "n \<in> set (timeHeap q)" for n
    using that assms(1,2) by (auto simp: queue_inv_def in_set_conv_nth dest: index_invD)
  then have "index_inv ?q1"
    using assms(1) by (auto simp: queue_inv_def index_inv_def nth_append split: if_splits)
  moreover have "heap_but_up (timeHeap ?q1) (length (timeHeap q))"
    using assms(1) by (simp add: queue_inv_def heap_but_up_append)
  ultimately show ?thesis
    using err Fixup_heap [of ?q1 "length (timeHeap q)"] index_inv_Fixup [of ?q1 "length (timeHeap q)"]
    by (simp add: q' queue_inv_def)
qed

lemma AddTimer_queued:
  "timerIdToIndexMap q (t_timerId timer) = Some i \<Longrightarrow>
   AddTimer timer q = (q, timer\<lparr>t_task := None\<rparr>, True)"
  by (simp add: AddTimer_def)

lemma queue_inv_AddTimer [cold_inv]:
  assumes "queue_inv q" shows "queue_inv (fst (AddTimer timer q))"
proof (cases "timerIdToIndexMap q (t_timerId timer)")
  case None
  obtain q' timer' err where add: "AddTimer timer q = (q', timer', err)"
    by (rule prod_cases3)
  show ?thesis using AddTimer_new [OF assms None add] by (simp add: add)
next
  case (Some i)
  then show ?thesis using assms by (simp add: AddTimer_queued)
qed

lemma heap_inv_same_keys:
  assumes "heap_inv h" and "map key h' = map key h" shows "heap_inv h'"
proof -
  have len: "length h' = length h" using assms(2) by (metis length_map)
  have "key (h' ! i) = key (h ! i)" if "i < length h" for i
    using assms(2) that len by (metis nth_map)
  then show ?thesis using assms(1) len by (auto simp: heap_inv_def up_edge_def)
qed

lemma CancelTimer_queued:
  assumes "queue_inv q" and "timerIdToIndexMap q (t_timerId timer) = Some i"
  shows "i < length (timeHeap q) \<and> timerId (timeHeap q ! i) = t_timerId timer"
    and "CancelTimer timer q = Inr (q\<lparr>timeHeap := (timeHeap q)[i := (timeHeap q ! i)\<lparr>valid := False\<rparr>]\<rparr>)"
    and "queue_inv (q\<lparr>timeHeap := (timeHeap q)[i := (timeHeap q ! i)\<lparr>valid := False\<rparr>]\<rparr>)"
proof -
  show i: "i < length (timeHeap q) \<and> timerId (timeHeap q ! i) = t_timerId timer"
    using assms by (auto simp: queue_inv_def index_inv_def)
  then show "CancelTimer timer q = Inr (q\<lparr>timeHeap := (timeHeap q)[i := (timeHeap q ! i)\<lparr>valid := False\<rparr>]\<rparr>)"
    using assms by (simp add: CancelTimer_def)
  have "map key ((timeHeap q)[i := (timeHeap q ! i)\<lparr>valid := False\<rparr>]) = map key (timeHeap q)"
    using i by (simp add: map_update key_def) (metis list_update_id nth_map key_def)
  then show "queue_inv (q\<lparr>timeHeap := (timeHeap q)[i := (timeHeap q ! i)\<lparr>valid := False\<rparr>]\<rparr>)"
    using assms(1) i
    by (auto simp: queue_inv_def index_inv_def nth_list_update intro: heap_inv_same_keys)
qed

lemma queue_inv_CancelTimer [cold_inv]:
  assumes "queue_inv q" shows "\<exists>q'. CancelTimer timer q = Inr q' \<and> queue_inv q'"
proof (cases "timerIdToIndexMap q (t_timerId timer)")
  case None
  then show ?thesis using assms by (simp add: CancelTimer_def)
next
  case (Some i)
  then show ?thesis using CancelTimer_queued [OF assms Some] by simp
qed

text \<open>After a change of one key: either the node may only sink, or the sift-down stops at once.\<close>

lemma FixDown_stops:
  assumes "\<And>i. 0 < i \<Longrightarrow> i < length (timeHeap q) \<Longrightarrow> (i - 1) div 2 = k \<Longrightarrow>
             key (timeHeap q ! k) < key (timeHeap q ! i)"
  shows "FixDown k q = q"
proof (cases "2 * k + 1 < length (timeHeap q)")
  case True
  then have "key (timeHeap q ! k) < key (timeHeap q ! least_son (timeHeap q) k)"
    using least_son_props by (intro assms) auto
  then show ?thesis by (subst FixDown_unfold) (simp add: node_gt_key)
qed (subst FixDown_unfold, simp)

lemma heap_inv_update:
  assumes inv: "heap_inv h" and k: "k < length h" and n: "timerId n = timerId (h ! k)"
    and ids: "distinct (map timerId h)"
  shows "bridged (h[k := n]) k"
    and "\<And>i. 0 < i \<Longrightarrow> i < length h \<Longrightarrow> i \<noteq> k \<Longrightarrow> (i - 1) div 2 \<noteq> k \<Longrightarrow> up_edge (h[k := n]) i"
    and "0 < k \<Longrightarrow> key n < key (h ! ((k - 1) div 2)) \<Longrightarrow> 0 < i \<Longrightarrow> i < length h \<Longrightarrow>
           (i - 1) div 2 = k \<Longrightarrow> key n < key (h ! i)"
proof -
  have up: "key (h ! ((i - 1) div 2)) \<le> key (h ! i)" if "0 < i" "i < length h" for i
    using inv that by (simp add: heap_inv_def up_edge_def)
  have ne: "(i - 1) div 2 \<noteq> i" if "0 < i" for i :: nat using that by auto
  show "bridged (h[k := n]) k"
    unfolding bridged_def
  proof (intro allI impI, elim conjE)
    fix i
    assume i: "0 < k" "0 < i" "i < length (h[k := n])" "(i - 1) div 2 = k"
    then have "key (h ! ((k - 1) div 2)) \<le> key (h ! i)"
      using up [of k] up [of i] k by (auto intro: order_trans)
    then show "key (h[k := n] ! ((k - 1) div 2)) \<le> key (h[k := n] ! i)"
      using i ne [of i] ne [of k] by (auto simp: nth_list_update)
  qed
  show "up_edge (h[k := n]) i" if "0 < i" "i < length h" "i \<noteq> k" "(i - 1) div 2 \<noteq> k" for i
    using up [of i] that by (auto simp: up_edge_def nth_list_update)
  assume "0 < k" "key n < key (h ! ((k - 1) div 2))" "0 < i" "i < length h" "(i - 1) div 2 = k"
  then show "key n < key (h ! i)"
    using up [of k] up [of i] k by (auto intro: less_le_trans order_trans)
qed

text \<open>A node is changed in place: below its father it violates the order upwards only, otherwise downwards only.\<close>

lemma update_heap_up:
  assumes hi: "heap_inv h" and k: "k < length h" and n: "timerId n = timerId (h ! k)" and ids: "distinct (map timerId h)"
    and lt: "0 < k" "key n < key (h ! ((k - 1) div 2))"
  shows "heap_but_up (h[k := n]) k" "\<And>i. 0 < i \<Longrightarrow> i < length h \<Longrightarrow> (i - 1) div 2 = k \<Longrightarrow> key (h[k := n] ! k) < key (h[k := n] ! i)"
proof -
  note upd = heap_inv_update [OF hi k n ids]
  have "up_edge (h[k := n]) i" if i: "0 < i" "i < length h" "i \<noteq> k" for i
  proof (cases "(i - 1) div 2 = k")
    case True
    then show ?thesis using upd(3) [of i] lt i k by (simp add: up_edge_def less_imp_le)
  next
    case False
    then show ?thesis using upd(2) [of i] i by simp
  qed
  then show "heap_but_up (h[k := n]) k" using upd(1) by (simp add: heap_but_up_def)
  fix i
  assume i: "0 < i" "i < length h" "(i - 1) div 2 = k"
  then have "i \<noteq> k" by auto
  then show "key (h[k := n] ! k) < key (h[k := n] ! i)" using upd(3) [of i] lt i k by simp
qed

lemma update_heap_down:
  assumes hi: "heap_inv h" and k: "k < length h" and n: "timerId n = timerId (h ! k)" and ids: "distinct (map timerId h)"
    and ge: "\<not> (0 < k \<and> key n < key (h ! ((k - 1) div 2)))"
  shows "heap_but_down (h[k := n]) k"
proof -
  note upd = heap_inv_update [OF hi k n ids]
  have "up_edge (h[k := n]) i" if i: "0 < i" "i < length h" "(i - 1) div 2 \<noteq> k" for i
  proof (cases "i = k")
    case True
    moreover from True i have "(k - 1) div 2 < k" by auto
    ultimately show ?thesis using ge i k by (simp add: up_edge_def)
  next
    case False
    then show ?thesis using upd(2) [of i] i by simp
  qed
  then show ?thesis using upd(1) by (simp add: heap_but_down_def)
qed

lemma update_heap:
  fixes q :: "'t TimerQueue" and n :: "'t TimerNode"
  assumes inv: "queue_inv q" and k: "k < length (timeHeap q)" and n: "timerId n = timerId (timeHeap q ! k)"
  defines "q1 \<equiv> q\<lparr>timeHeap := (timeHeap q)[k := n]\<rparr>"
  shows "queue_inv (Fixup k (FixDown k q1))
         \<and> mset (timeHeap (Fixup k (FixDown k q1))) = mset ((timeHeap q)[k := n])"
proof -
  let ?h = "timeHeap q"
  have ids: "distinct (map timerId ?h)" and hi: "heap_inv ?h"
    using inv by (simp_all add: queue_inv_def index_inv_distinct)
  have idx: "index_inv q1"
    using inv k n by (auto simp: q1_def queue_inv_def index_inv_def nth_list_update)
  have h1: "timeHeap q1 = ?h[k := n]" by (simp add: q1_def)
  show ?thesis
  proof (cases "0 < k \<and> key n < key (?h ! ((k - 1) div 2))")
    case True
    note up = update_heap_up [OF hi k n ids conjunct1 [OF True] conjunct2 [OF True]]
    have "FixDown k q1 = q1"
      by (rule FixDown_stops) (use up(2) in \<open>simp add: h1\<close>)
    then show ?thesis
      using Fixup_heap [of q1 k] index_inv_Fixup [OF idx] k up(1) by (simp add: queue_inv_def h1)
  next
    case False
    have down: "heap_inv (timeHeap (FixDown k q1)) \<and> mset (timeHeap (FixDown k q1)) = mset (timeHeap q1)"
      by (rule FixDown_heap) (simp add: h1 update_heap_down [OF hi k n ids False])
    then have "Fixup k (FixDown k q1) = FixDown k q1"
      using k by (intro Fixup_id) (simp_all add: h1)
    then show ?thesis
      using down index_inv_FixDown [OF idx] by (simp add: queue_inv_def h1)
  qed
qed

lemma UpdateTimer_queued:
  assumes "queue_inv q" and "timerIdToIndexMap q (t_timerId timer) = Some i"
  shows "\<exists>q'. UpdateTimer timer q = Inr q' \<and> queue_inv q' \<and>
           mset (timeHeap q') = mset ((timeHeap q)[i := (timeHeap q ! i)\<lparr>expiry := t_expiry timer\<rparr>])"
proof -
  have i: "i < length (timeHeap q)" "timerId (timeHeap q ! i) = t_timerId timer"
    using CancelTimer_queued(1) [OF assms] by auto
  show ?thesis
    using update_heap [OF assms(1) i(1), of "(timeHeap q ! i)\<lparr>expiry := t_expiry timer\<rparr>"] assms(2) i
    by (simp add: UpdateTimer_def)
qed

lemma queue_inv_UpdateTimer [cold_inv]:
  assumes "queue_inv q" shows "\<exists>q'. UpdateTimer timer q = Inr q' \<and> queue_inv q'"
proof (cases "timerIdToIndexMap q (t_timerId timer)")
  case None
  then show ?thesis using assms by (simp add: UpdateTimer_def)
next
  case (Some i)
  then show ?thesis using UpdateTimer_queued [OF assms Some] by blast
qed

lemma butlast_swap_ends:
  assumes "h \<noteq> []"
  shows "add_mset (h ! 0) (mset (butlast (h[0 := h ! (length h - 1), length h - 1 := h ! 0]))) = mset h"
    (is "add_mset _ (mset (butlast ?h1)) = _")
proof -
  have "?h1 \<noteq> []" using assms by simp
  then have "mset ?h1 = add_mset (last ?h1) (mset (butlast ?h1))"
    by (metis append_butlast_last_id mset_append mset.simps add_mset_add_single)
  moreover have "last ?h1 = h ! 0"
    using assms by (simp add: last_conv_nth)
  moreover have "mset ?h1 = mset h"
    using assms by (intro mset_swap) auto
  ultimately show ?thesis by simp
qed

lemma index_map_pop:
  fixes f :: "nat \<Rightarrow> nat"
  assumes m: "\<And>k i. m k = Some i \<longleftrightarrow> i < n \<and> f i = k"
    and inj: "\<And>i j. i < n \<Longrightarrow> j < n \<Longrightarrow> f i = f j \<longleftrightarrow> i = j" and n: "1 < n"
  shows "(m(f 0 := None, f (n - 1) \<mapsto> 0)) k = Some i \<longleftrightarrow>
         i < n - 1 \<and> (if i = 0 then f (n - 1) else f i) = k"
proof -
  have inj0: "j < n \<Longrightarrow> f j = f 0 \<longleftrightarrow> j = 0" for j using inj [of j 0] n by simp
  have injL: "j < n \<Longrightarrow> f j = f (n - 1) \<longleftrightarrow> j = n - 1" for j using inj [of j "n - 1"] n by simp
  have ends: "f 0 \<noteq> f (n - 1)" using injL [of 0] n by simp
  consider "k = f (n - 1)" | "k = f 0" | "k \<noteq> f (n - 1)" "k \<noteq> f 0" by blast
  then show ?thesis
  proof cases
    case 1
    then show ?thesis using n injL [of i] by auto
  next
    case 2
    then show ?thesis using n ends inj0 [of i] by auto
  next
    case 3
    then show ?thesis using n m by (cases "i = n - 1") auto
  qed
qed

lemma pop_front_correct:
  assumes inv: "queue_inv q" and ne: "timeHeap q \<noteq> []"
  shows "queue_inv (pop_front q)
         \<and> add_mset (timeHeap q ! 0) (mset (timeHeap (pop_front q))) = mset (timeHeap q)"
proof -
  define h where "h = timeHeap q"
  define n where "n = length h"
  define m where "m = timerIdToIndexMap q"
  define h' where "h' = butlast (h[0 := h ! (n - 1), n - 1 := h ! 0])"
  define m' where "m' = (if 1 < n then m(timerId (h ! 0) := None, timerId (h ! (n - 1)) \<mapsto> 0)
                         else m(timerId (h ! 0) := None))"
  let ?q1 = "q\<lparr>timeHeap := h', timerIdToIndexMap := m'\<rparr>"
  have n: "0 < n" and len: "length h' = n - 1" using ne by (simp_all add: n_def h_def h'_def)
  have nth: "h' ! i = (if i = 0 then h ! (n - 1) else h ! i)" if "i < n - 1" for i
    using that n by (auto simp: h'_def n_def nth_butlast nth_list_update)
  have pop: "pop_front q = FixDown 0 ?q1"
    using n by (auto simp: pop_front_def Let_def h'_def m'_def h_def m_def n_def nth_list_update)
  have idx: "index_inv q" using inv by (simp add: queue_inv_def)
  have m: "m k = Some i \<longleftrightarrow> i < n \<and> timerId (h ! i) = k" for k i
    using idx by (simp add: index_inv_def m_def n_def h_def)
  have inj: "i < n \<Longrightarrow> j < n \<Longrightarrow> timerId (h ! i) = timerId (h ! j) \<longleftrightarrow> i = j" for i j
    using index_inv_inj [OF idx, of i j] by (auto simp: n_def h_def)
  have "up_edge h' i" if i: "0 < i" "i < n - 1" "(i - 1) div 2 \<noteq> 0" for i
  proof -
    have "(i - 1) div 2 < n - 1" using i by linarith
    then have "h' ! ((i - 1) div 2) = h ! ((i - 1) div 2)" "h' ! i = h ! i"
      using nth i by auto
    then show ?thesis
      using inv i by (auto simp: queue_inv_def heap_inv_def up_edge_def n_def h_def)
  qed
  then have "heap_but_down h' 0"
    by (auto simp: heap_but_down_def bridged_def len)
  then have heap: "heap_inv (timeHeap (pop_front q)) \<and> mset (timeHeap (pop_front q)) = mset h'"
    using FixDown_heap [of ?q1 0] by (simp add: pop)
  have "m' k = Some i \<longleftrightarrow> i < n - 1 \<and> timerId (h' ! i) = k" for k i
  proof (cases "1 < n")
    case True
    have "m' = m(timerId (h ! 0) := None, timerId (h ! (n - 1)) \<mapsto> 0)"
      unfolding m'_def using True by (rule if_P)
    then have "m' k = Some i \<longleftrightarrow> i < n - 1 \<and> (if i = 0 then timerId (h ! (n - 1)) else timerId (h ! i)) = k"
      using index_map_pop [of m n "\<lambda>i. timerId (h ! i)" k i, OF m inj True] by metis
    also have "\<dots> \<longleftrightarrow> i < n - 1 \<and> timerId (h' ! i) = k"
      by (cases "i < n - 1") (simp_all add: nth)
    finally show ?thesis .
  next
    case False
    then have "n = 1" using n by linarith
    then show ?thesis using m by (auto simp: m'_def)
  qed
  then have "index_inv ?q1" by (simp add: index_inv_def len)
  then have "index_inv (pop_front q)" unfolding pop by (rule index_inv_FixDown)
  then show ?thesis
    unfolding queue_inv_def using heap butlast_swap_ends [OF ne, folded h_def n_def, folded h'_def]
    by (metis h_def n_def)
qed

lemma heap_root_least:
  assumes "heap_inv h" and "i < length h" shows "key (h ! 0) \<le> key (h ! i)"
  using assms(2)
proof (induction i rule: less_induct)
  case (less i)
  show ?case
  proof (cases "i = 0")
    case False
    then have "(i - 1) div 2 < i" by auto
    then have "key (h ! 0) \<le> key (h ! ((i - 1) div 2))" using less by simp
    also have "\<dots> \<le> key (h ! i)"
      using assms(1) less.prems False by (simp add: heap_inv_def up_edge_def)
    finally show ?thesis .
  qed simp
qed

lemma heap_root_least_set: "heap_inv h \<Longrightarrow> n \<in> set h \<Longrightarrow> key (h ! 0) \<le> key n"
  by (metis heap_root_least in_set_conv_nth)

section \<open>HandleTimeout\<close>

definition due :: "int \<Rightarrow> 't TimerNode \<Rightarrow> bool" where
  "due now n \<longleftrightarrow> expiry n \<le> now"

text \<open>The tasks one call releases: those of the valid due nodes, by expiry and then id.\<close>

definition released :: "int \<Rightarrow> 't TimerNode list \<Rightarrow> 't option list" where
  "released now h = map task (filter valid (sort_key key (filter (due now) h)))"

lemma sort_key_min_first:
  fixes f :: "'a \<Rightarrow> 'b::linorder"
  assumes xs: "mset xs = add_mset a (mset ys)" and less: "\<And>y. y \<in> set ys \<Longrightarrow> f a < f y"
    and inj: "inj_on f (set ys)"
  shows "sort_key f xs = a # sort_key f ys"
proof (rule sort_key_inj_key_eq)
  show "mset xs = mset (a # sort_key f ys)" using xs by simp
  have "set xs = insert a (set ys)" using xs by (metis set_mset_add_mset_insert set_mset_mset)
  moreover have "f a \<notin> f ` set ys" using less by fastforce
  ultimately show "inj_on f (set xs)" using inj by (simp add: inj_on_insert) blast
  show "sorted (map f (a # sort_key f ys))" using less by (auto intro: less_imp_le)
qed

lemma mset_filter_eq: "mset xs = mset ys \<Longrightarrow> mset (filter P xs) = mset (filter P ys)"
  by simp

lemma inj_on_key: "index_inv q \<Longrightarrow> inj_on key (set (timeHeap q))"
  using index_inv_distinct [of q] by (auto simp: inj_on_def distinct_map key_def)

lemma released_pop:
  assumes inv: "queue_inv q" and ne: "timeHeap q \<noteq> []" and "due now (timeHeap q ! 0)"
  shows "released now (timeHeap q) =
           (if valid (timeHeap q ! 0) then [task (timeHeap q ! 0)] else [])
           @ released now (timeHeap (pop_front q))"
proof -
  let ?r = "timeHeap q ! 0" and ?h = "timeHeap q" and ?h' = "timeHeap (pop_front q)"
  have pop: "queue_inv (pop_front q)" "mset ?h = add_mset ?r (mset ?h')"
    using pop_front_correct [OF inv ne] by auto
  have sub: "set ?h = insert ?r (set ?h')"
    by (metis pop(2) set_mset_add_mset_insert set_mset_mset)
  have notin: "?r \<notin> set ?h'"
  proof
    assume "?r \<in> set ?h'"
    then have "count (mset ?h) ?r \<noteq> 1" using pop(2) by simp
    moreover have "distinct ?h"
      using inv index_inv_distinct [of q] by (simp add: queue_inv_def distinct_map)
    ultimately show False using ne by (simp add: distinct_count_atmost_1)
  qed
  have "key ?r < key y" if "y \<in> set ?h'" for y
  proof -
    have "key ?r \<le> key y" using heap_root_least_set inv that sub by (auto simp: queue_inv_def)
    moreover have "key ?r \<noteq> key y"
      using inj_on_key [of q] inv that notin sub by (auto simp: queue_inv_def inj_on_def)
    ultimately show ?thesis by simp
  qed
  moreover have "mset (filter (due now) ?h) = add_mset ?r (mset (filter (due now) ?h'))"
    using pop(2) assms(3) by simp
  moreover have "inj_on key (set (filter (due now) ?h'))"
    using inj_on_key [of "pop_front q"] pop(1) by (auto simp: queue_inv_def inj_on_def)
  ultimately have "sort_key key (filter (due now) ?h) = ?r # sort_key key (filter (due now) ?h')"
    by (intro sort_key_min_first) auto
  then show ?thesis by (simp add: released_def)
qed

lemma none_due:
  assumes "queue_inv q" and "timeHeap q = [] \<or> now < expiry (timeHeap q ! 0)" and "n \<in> set (timeHeap q)"
  shows "\<not> due now n"
proof -
  have "key (timeHeap q ! 0) \<le> key n"
    using assms by (intro heap_root_least_set) (auto simp: queue_inv_def)
  then have "expiry (timeHeap q ! 0) \<le> expiry n" by (auto simp: key_def less_eq_prod_def)
  then show ?thesis using assms by (auto simp: due_def)
qed

lemma timeout_loop_correct:
  "queue_inv q \<Longrightarrow>
   \<exists>q'. timeout_loop now out q = Inr (out @ released now (timeHeap q), q') \<and> queue_inv q'
        \<and> mset (timeHeap q') = filter_mset (\<lambda>n. \<not> due now n) (mset (timeHeap q))
        \<and> (timeHeap q' = [] \<or> now < expiry (timeHeap q' ! 0))"
proof (induction now out q rule: timeout_loop.induct)
  case (1 now out q)
  let ?r = "timeHeap q ! 0"
  show ?case
  proof (cases "timeHeap q \<noteq> [] \<and> now \<ge> expiry ?r")
    case True
    then have ne: "timeHeap q \<noteq> []" and d: "due now ?r" by (auto simp: due_def)
    have pop: "queue_inv (pop_front q)" "mset (timeHeap q) = add_mset ?r (mset (timeHeap (pop_front q)))"
      using pop_front_correct [OF 1(2) ne] by auto
    let ?out = "if valid ?r then out @ [task ?r] else out"
    have idx: "timerIdToIndexMap q (timerId ?r) \<noteq> None"
      using 1(2) ne by (auto simp: queue_inv_def index_inv_def)
    then have "timeout_loop now out q = timeout_loop now ?out (pop_front q)"
      using True by (subst timeout_loop.simps) (auto simp: Let_def)
    moreover obtain q' where "timeout_loop now ?out (pop_front q)
          = Inr (?out @ released now (timeHeap (pop_front q)), q') \<and> queue_inv q'
        \<and> mset (timeHeap q') = filter_mset (\<lambda>n. \<not> due now n) (mset (timeHeap (pop_front q)))
        \<and> (timeHeap q' = [] \<or> now < expiry (timeHeap q' ! 0))"
      using 1(1) [OF True refl refl idx pop(1)] by blast
    ultimately show ?thesis
      using released_pop [OF 1(2) ne d] pop(2) d by auto
  next
    case False
    then have stop: "timeHeap q = [] \<or> now < expiry ?r" by auto
    have none: "\<forall>n \<in> set (timeHeap q). \<not> due now n"
      using none_due [OF 1(2) stop] by blast
    then have "released now (timeHeap q) = []" by (simp add: released_def)
    moreover have "filter_mset (\<lambda>n. \<not> due now n) (mset (timeHeap q)) = mset (timeHeap q)"
      using none by (simp add: filter_mset_eq_conv)
    moreover have "timeout_loop now out q = Inr (out, q)"
      using False by (subst timeout_loop.simps) auto
    ultimately show ?thesis using 1(2) stop by simp
  qed
qed

definition wait_time :: "int \<Rightarrow> 't TimerNode list \<Rightarrow> int" where
  "wait_time now h =
     (if h = [] then kDefaultTickMilliSeconds
      else min kDefaultTickMilliSeconds
             (TimeSinceEpochMilliSeconds (Min (expiry ` set h)) - TimeSinceEpochMilliSeconds now))"

lemma heap_root_Min:
  assumes "queue_inv q" and "timeHeap q \<noteq> []"
  shows "Min (expiry ` set (timeHeap q)) = expiry (timeHeap q ! 0)"
proof (rule Min_eqI)
  fix e
  assume "e \<in> expiry ` set (timeHeap q)"
  then obtain n where n: "n \<in> set (timeHeap q)" "e = expiry n" by blast
  have "key (timeHeap q ! 0) \<le> key n"
    using assms n by (intro heap_root_least_set) (auto simp: queue_inv_def)
  then show "expiry (timeHeap q ! 0) \<le> e" by (auto simp: key_def n less_eq_prod_def)
qed (use assms in auto)

lemma HandleTimeout_correct:
  assumes "queue_inv q"
  shows "\<exists>q'. HandleTimeout now q = Inr (released now (timeHeap q), wait_time now (timeHeap q'), q')
           \<and> queue_inv q' \<and> mset (timeHeap q') = filter_mset (\<lambda>n. \<not> due now n) (mset (timeHeap q))"
proof -
  obtain q' where q': "timeout_loop now [] q = Inr (released now (timeHeap q), q')" "queue_inv q'"
      "mset (timeHeap q') = filter_mset (\<lambda>n. \<not> due now n) (mset (timeHeap q))"
      "timeHeap q' = [] \<or> now < expiry (timeHeap q' ! 0)"
    using timeout_loop_correct [OF assms, of now "[]"] by auto
  have "HandleTimeout now q = Inr (released now (timeHeap q), wait_time now (timeHeap q'), q')"
    using q' heap_root_Min [of q'] by (auto simp: HandleTimeout_def wait_time_def Let_def)
  then show ?thesis using q' by blast
qed

lemma wait_time_bounds:
  assumes "\<And>n. n \<in> set h \<Longrightarrow> \<not> due now n"
  shows "0 \<le> wait_time now h \<and> wait_time now h \<le> 500"
proof (cases "h = []")
  case False
  then have "Min (expiry ` set h) \<in> expiry ` set h" by (intro Min_in) auto
  then have "now \<le> Min (expiry ` set h)" using assms by (auto simp: due_def not_le less_imp_le)
  then have "TimeSinceEpochMilliSeconds now \<le> TimeSinceEpochMilliSeconds (Min (expiry ` set h))"
    unfolding TimeSinceEpochMilliSeconds_def by (intro tdiv_mono) auto
  then show ?thesis using False by (simp add: wait_time_def kDefaultTickMilliSeconds_def)
qed (simp add: wait_time_def kDefaultTickMilliSeconds_def)

section \<open>The queue as a map\<close>

type_synonym 't timer_view = "nat \<rightharpoonup> int \<times> 't option \<times> bool"

definition entry :: "'t TimerNode \<Rightarrow> int \<times> 't option \<times> bool" where
  "entry n = (expiry n, task n, valid n)"

definition queue_view :: "'t TimerQueue \<Rightarrow> 't timer_view" where
  "queue_view q k = map_option (\<lambda>i. entry (timeHeap q ! i)) (timerIdToIndexMap q k)"

lemma queue_view_Some:
  "queue_inv q \<Longrightarrow> queue_view q k = Some x \<longleftrightarrow> (\<exists>n \<in> set (timeHeap q). timerId n = k \<and> entry n = x)"
  by (auto simp: queue_view_def queue_inv_def index_inv_def Bex_def in_set_conv_nth)

lemma queue_view_None:
  "queue_inv q \<Longrightarrow> queue_view q k = None \<longleftrightarrow> (\<forall>n \<in> set (timeHeap q). timerId n \<noteq> k)"
  using queue_view_Some [of q k] by (metis not_Some_eq)

lemma queue_view_dom: "k \<in> dom (queue_view q) \<longleftrightarrow> timerIdToIndexMap q k \<noteq> None"
  by (auto simp: queue_view_def)

lemma queue_view_eqI:
  assumes "queue_inv q" and "\<And>k x. v k = Some x \<longleftrightarrow> (\<exists>n \<in> set (timeHeap q). timerId n = k \<and> entry n = x)"
  shows "queue_view q = v"
  using assms queue_view_Some [of q] by (intro ext) (metis not_Some_eq)

section \<open>What each operation does to the view\<close>

lemma queue_view_AddTimer:
  assumes "queue_inv q" and "AddTimer timer q = (q', timer', err)"
  shows "queue_view q' = (if queue_view q (t_timerId timer) = None
           then (queue_view q)(t_timerId timer \<mapsto> (t_expiry timer, t_task timer, True))
           else queue_view q)"
proof (cases "timerIdToIndexMap q (t_timerId timer)")
  case None
  have new: "queue_inv q'" "set (timeHeap q') = insert
      \<lparr>timerId = t_timerId timer, expiry = t_expiry timer, task = t_task timer, valid = True\<rparr>
      (set (timeHeap q))"
    using AddTimer_new [OF assms(1) None assms(2)] by (simp, metis set_mset_add_mset_insert set_mset_mset)
  have none: "queue_view q (t_timerId timer) = None" using None by (simp add: queue_view_def)
  then have "\<forall>n \<in> set (timeHeap q). timerId n \<noteq> t_timerId timer"
    using queue_view_None [OF assms(1)] by blast
  then have "queue_view q' = (queue_view q)(t_timerId timer \<mapsto> (t_expiry timer, t_task timer, True))"
    using new by (intro queue_view_eqI) (auto simp: queue_view_Some [OF assms(1)] entry_def)
  then show ?thesis using none by simp
next
  case (Some i)
  then show ?thesis
    using AddTimer_queued [OF Some] assms(2) by (simp add: queue_view_def)
qed

lemma queue_view_replace:
  assumes inv: "queue_inv q" "queue_inv q'" and i: "timerIdToIndexMap q k = Some i"
    and m: "mset (timeHeap q') = mset ((timeHeap q)[i := n])" and id: "timerId n = k"
  shows "queue_view q' = (queue_view q)(k \<mapsto> entry n)"
proof -
  have idx: "index_inv q" using inv by (simp add: queue_inv_def)
  have il: "i < length (timeHeap q)" "timerId (timeHeap q ! i) = k"
    using i idx by (simp_all add: index_inv_def)
  have "set (timeHeap q') = set ((timeHeap q)[i := n])" using m by (metis mset_eq_setD)
  also have "\<dots> = insert n {x \<in> set (timeHeap q). timerId x \<noteq> k}"
  proof (intro set_eqI iffI)
    fix x assume "x \<in> set ((timeHeap q)[i := n])"
    then obtain j where "j < length (timeHeap q)" "x = (timeHeap q)[i := n] ! j"
      by (auto simp: in_set_conv_nth)
    then show "x \<in> insert n {x \<in> set (timeHeap q). timerId x \<noteq> k}"
      using index_inv_inj [OF idx, of j i] il by (auto simp: nth_list_update split: if_splits)
  next
    fix x assume "x \<in> insert n {x \<in> set (timeHeap q). timerId x \<noteq> k}"
    then show "x \<in> set ((timeHeap q)[i := n])"
    proof
      assume "x = n"
      then show ?thesis using il by (simp add: set_update_memI)
    next
      assume "x \<in> {x \<in> set (timeHeap q). timerId x \<noteq> k}"
      then obtain j where j: "j < length (timeHeap q)" "x = timeHeap q ! j" "timerId x \<noteq> k"
        by (auto simp: in_set_conv_nth)
      then have "j \<noteq> i" using il by auto
      then have "x = (timeHeap q)[i := n] ! j" using j by simp
      then show ?thesis using j by (metis length_list_update nth_mem)
    qed
  qed
  finally show ?thesis
    using id by (intro queue_view_eqI [OF inv(2)]) (auto simp: queue_view_Some [OF inv(1)])
qed

lemma queue_view_at:
  "timerIdToIndexMap q k = Some i \<Longrightarrow> queue_view q k = Some (entry (timeHeap q ! i))"
  by (simp add: queue_view_def)

lemma queue_view_CancelTimer:
  assumes "queue_inv q" and "CancelTimer timer q = Inr q'"
  shows "queue_view q' = (case queue_view q (t_timerId timer) of None \<Rightarrow> queue_view q
           | Some (e, t, v) \<Rightarrow> (queue_view q)(t_timerId timer \<mapsto> (e, t, False)))"
proof (cases "timerIdToIndexMap q (t_timerId timer)")
  case None
  then show ?thesis using assms by (auto simp: CancelTimer_def queue_view_def)
next
  case (Some i)
  note q = CancelTimer_queued [OF assms(1) Some]
  have q': "q' = q\<lparr>timeHeap := (timeHeap q)[i := (timeHeap q ! i)\<lparr>valid := False\<rparr>]\<rparr>"
    using q(2) assms(2) by simp
  have "queue_view q' = (queue_view q)(t_timerId timer \<mapsto> entry ((timeHeap q ! i)\<lparr>valid := False\<rparr>))"
    using q(1,3) by (intro queue_view_replace [OF assms(1) _ Some]) (simp_all add: q')
  then show ?thesis by (simp add: queue_view_at [OF Some] entry_def)
qed

lemma queue_view_UpdateTimer:
  assumes "queue_inv q" and "UpdateTimer timer q = Inr q'"
  shows "queue_view q' = (case queue_view q (t_timerId timer) of None \<Rightarrow> queue_view q
           | Some (e, t, v) \<Rightarrow> (queue_view q)(t_timerId timer \<mapsto> (t_expiry timer, t, v)))"
proof (cases "timerIdToIndexMap q (t_timerId timer)")
  case None
  then show ?thesis using assms by (auto simp: UpdateTimer_def queue_view_def)
next
  case (Some i)
  have q': "queue_inv q'" "mset (timeHeap q') = mset ((timeHeap q)[i := (timeHeap q ! i)\<lparr>expiry := t_expiry timer\<rparr>])"
    using UpdateTimer_queued [OF assms(1) Some] assms(2) by auto
  have "queue_view q' = (queue_view q)(t_timerId timer \<mapsto> entry ((timeHeap q ! i)\<lparr>expiry := t_expiry timer\<rparr>))"
    using q' CancelTimer_queued(1) [OF assms(1) Some]
    by (intro queue_view_replace [OF assms(1) _ Some]) simp_all
  then show ?thesis by (simp add: queue_view_at [OF Some] entry_def)
qed

lemma sorted_filter_key: "sorted (map f xs) \<Longrightarrow> sorted (map f (filter P xs))"
  by (rule sorted_filter)

lemma sorted_wrt_less_key:
  fixes f :: "'a \<Rightarrow> 'b::linorder"
  shows "sorted (map f xs) \<Longrightarrow> distinct (map f xs) \<Longrightarrow> sorted_wrt (\<lambda>x y. f x < f y) xs"
  by (induction xs) (auto simp: less_le)

lemma queue_view_node:
  "queue_inv q \<Longrightarrow> n \<in> set (timeHeap q) \<Longrightarrow> queue_view q (timerId n) = Some (entry n)"
  by (subst queue_view_Some) auto

lemma queue_inv_distinct:
  assumes "queue_inv q" shows "distinct (map key (timeHeap q))"
  using index_inv_inj assms
  by (auto simp: distinct_conv_nth queue_inv_def key_def)

text \<open>What the due nodes leave behind.\<close>

lemma queue_view_left:
  assumes inv: "queue_inv q" "queue_inv q'" and set': "set (timeHeap q') = {n \<in> set (timeHeap q). \<not> due now n}"
  shows "queue_view q' = (\<lambda>k. case queue_view q k of None \<Rightarrow> None
                           | Some (e, t, v) \<Rightarrow> if e \<le> now then None else Some (e, t, v))"
proof (rule queue_view_eqI [OF inv(2)])
  fix k x
  show "(case queue_view q k of None \<Rightarrow> None | Some (e, t, v) \<Rightarrow> if e \<le> now then None else Some (e, t, v)) = Some x
        \<longleftrightarrow> (\<exists>n \<in> set (timeHeap q'). timerId n = k \<and> entry n = x)"
  proof (cases "queue_view q k")
    case None
    then show ?thesis using queue_view_None [OF inv(1), of k] set' by auto
  next
    case (Some y)
    then obtain n where n: "n \<in> set (timeHeap q)" "timerId n = k" "entry n = y"
      using queue_view_Some [OF inv(1), of k y] by blast
    have uniq: "m = n" if "m \<in> set (timeHeap q)" "timerId m = k" for m
      using that n index_inv_inj [of q] inv(1) by (auto simp: in_set_conv_nth queue_inv_def)
    have "(\<exists>m \<in> set (timeHeap q'). timerId m = k \<and> entry m = x) \<longleftrightarrow> \<not> due now n \<and> y = x"
      using n uniq set' by blast
    moreover have "due now n \<longleftrightarrow> fst y \<le> now" unfolding n(3) [symmetric] by (simp add: entry_def due_def)
    ultimately show ?thesis using Some by (cases y) simp
  qed
qed

lemma queue_view_HandleTimeout:
  assumes inv: "queue_inv q"
  shows "\<exists>ks w q'. HandleTimeout now q = Inr (map (\<lambda>k. fst (snd (the (queue_view q k)))) ks, w, q')
     \<and> queue_inv q' \<and> 0 \<le> w \<and> w \<le> 500
     \<and> sorted_wrt (\<lambda>j k. (fst (the (queue_view q j)), j) < (fst (the (queue_view q k)), k)) ks
     \<and> set ks = {k. \<exists>e t. queue_view q k = Some (e, t, True) \<and> e \<le> now}
     \<and> queue_view q' = (\<lambda>k. case queue_view q k of None \<Rightarrow> None
                           | Some (e, t, v) \<Rightarrow> if e \<le> now then None else Some (e, t, v))"
proof -
  define ns where "ns = filter valid (sort_key key (filter (due now) (timeHeap q)))"
  define ks where "ks = map timerId ns"
  obtain q' where q': "HandleTimeout now q = Inr (map task ns, wait_time now (timeHeap q'), q')"
      "queue_inv q'" "mset (timeHeap q') = filter_mset (\<lambda>n. \<not> due now n) (mset (timeHeap q))"
    using HandleTimeout_correct [OF inv, of now] by (auto simp: released_def ns_def)
  have set': "set (timeHeap q') = {n \<in> set (timeHeap q). \<not> due now n}"
    using q'(3) by (metis set_mset_filter set_mset_mset)
  have ns: "set ns = {n \<in> set (timeHeap q). due now n \<and> valid n}" by (auto simp: ns_def)
  have view: "queue_view q (timerId n) = Some (entry n)" if "n \<in> set ns" for n
    using queue_view_node [OF inv] that ns by blast
  have "map (\<lambda>k. fst (snd (the (queue_view q k)))) ks = map task ns"
    using view by (simp add: ks_def entry_def)
  moreover have "sorted (map key ns)" unfolding ns_def by (intro sorted_filter_key) simp
  moreover have "distinct (map key ns)"
    using queue_inv_distinct [OF inv]
    by (simp add: ns_def distinct_map inj_on_def)
  ultimately have out: "map (\<lambda>k. fst (snd (the (queue_view q k)))) ks = map task ns"
    and srt: "sorted_wrt (\<lambda>x y. key x < key y) ns" by (simp_all add: sorted_wrt_less_key)
  have "sorted_wrt (\<lambda>j k. (fst (the (queue_view q j)), j) < (fst (the (queue_view q k)), k)) ks"
    unfolding ks_def sorted_wrt_map
    by (rule sorted_wrt_mono_rel [OF _ srt]) (simp add: view entry_def key_def)
  moreover have "set ks = {k. \<exists>e t. queue_view q k = Some (e, t, True) \<and> e \<le> now}"
    by (auto simp: ks_def ns queue_view_Some [OF inv] entry_def due_def image_iff)
  moreover have "queue_view q' = (\<lambda>k. case queue_view q k of None \<Rightarrow> None
                           | Some (e, t, v) \<Rightarrow> if e \<le> now then None else Some (e, t, v))"
    by (rule queue_view_left [OF inv q'(2) set'])
  moreover have "0 \<le> wait_time now (timeHeap q')" "wait_time now (timeHeap q') \<le> 500"
    using wait_time_bounds [of "timeHeap q'" now] set' by auto
  ultimately show ?thesis
    using q'(1,2) unfolding out [symmetric]
    by (intro exI [of _ ks] exI [of _ "wait_time now (timeHeap q')"] exI [of _ q'] conjI) assumption+
qed

lemma queue_cancel_ok:
  "queue_inv q \<Longrightarrow> \<exists>q'. CancelTimer r q = Inr q' \<and> queue_inv q' \<and> queue_view q' =
     (case queue_view q (t_timerId r) of None \<Rightarrow> queue_view q
      | Some (e, t, v) \<Rightarrow> (queue_view q)(t_timerId r \<mapsto> (e, t, False)))"
  using queue_inv_CancelTimer queue_view_CancelTimer by blast

lemma queue_update_ok:
  "queue_inv q \<Longrightarrow> \<exists>q'. UpdateTimer r q = Inr q' \<and> queue_inv q' \<and> queue_view q' =
     (case queue_view q (t_timerId r) of None \<Rightarrow> queue_view q
      | Some (e, t, v) \<Rightarrow> (queue_view q)(t_timerId r \<mapsto> (t_expiry r, t, v)))"
  using queue_inv_UpdateTimer queue_view_UpdateTimer by blast

lemma queue_add_view:
  "queue_inv q \<Longrightarrow> queue_view (fst (AddTimer r q)) = (if queue_view q (t_timerId r) = None
     then (queue_view q)(t_timerId r \<mapsto> (t_expiry r, t_task r, True)) else queue_view q)"
  by (rule queue_view_AddTimer [where timer' = "fst (snd (AddTimer r q))"
        and err = "snd (snd (AddTimer r q))"]) simp_all

lemma queue_view_empty: "queue_view empty_queue k = None"
  by (simp add: queue_view_def empty_queue_def)

section \<open>The interface to the timers\<close>

text \<open>
  What \<open>Timer\<close> and \<open>IoService\<close> rely on: the store is a map from timer ids to an expiry, a
  task and a validity flag; \<open>expire\<close> drops every entry that is due and hands out the tasks of
  the valid ones, each once, by expiry and then id.
\<close>

locale timer_store =
  fixes rid :: "'r \<Rightarrow> nat" and rexp :: "'r \<Rightarrow> int" and rtask :: "'r \<Rightarrow> 'a"
    and view :: "'q \<Rightarrow> nat \<Rightarrow> (int \<times> 'a \<times> bool) option" and inv :: "'q \<Rightarrow> bool" and none :: "'q"
    and add :: "'r \<Rightarrow> 'q \<Rightarrow> 'q \<times> 'r \<times> bool" and cancel :: "'r \<Rightarrow> 'q \<Rightarrow> 'q result"
    and update :: "'r \<Rightarrow> 'q \<Rightarrow> 'q result" and expire :: "int \<Rightarrow> 'q \<Rightarrow> ('a list \<times> int \<times> 'q) result"
  assumes inv_none: "inv none" and view_none: "view none k = None"
    and inv_add: "inv q \<Longrightarrow> inv (fst (add r q))"
    and view_add: "inv q \<Longrightarrow> view (fst (add r q)) = (if view q (rid r) = None
          then (view q)(rid r \<mapsto> (rexp r, rtask r, True)) else view q)"
    and cancel_ok: "inv q \<Longrightarrow> \<exists>q'. cancel r q = Inr q' \<and> inv q' \<and> view q' =
          (case view q (rid r) of None \<Rightarrow> view q | Some (e, t, v) \<Rightarrow> (view q)(rid r \<mapsto> (e, t, False)))"
    and update_ok: "inv q \<Longrightarrow> \<exists>q'. update r q = Inr q' \<and> inv q' \<and> view q' =
          (case view q (rid r) of None \<Rightarrow> view q | Some (e, t, v) \<Rightarrow> (view q)(rid r \<mapsto> (rexp r, t, v)))"
    and expire_ok: "inv q \<Longrightarrow> \<exists>ks w q'. expire now q = Inr (map (\<lambda>k. fst (snd (the (view q k)))) ks, w, q')
          \<and> inv q' \<and> 0 \<le> w \<and> w \<le> 500
          \<and> sorted_wrt (\<lambda>j k. (fst (the (view q j)), j) < (fst (the (view q k)), k)) ks
          \<and> set ks = {k. \<exists>e t. view q k = Some (e, t, True) \<and> e \<le> now}
          \<and> view q' = (\<lambda>k. case view q k of None \<Rightarrow> None
                           | Some (e, t, v) \<Rightarrow> if e \<le> now then None else Some (e, t, v))"
begin

text \<open>A valid entry is released and dropped by a round at or after its expiry, and kept before.\<close>

lemma stored_round:
  assumes "inv q" and "view q k = Some (e, t, True)"
  shows "\<exists>out w q'. expire now q = Inr (out, w, q') \<and>
     (if e \<le> now then t \<in> set out \<and> view q' k = None else view q' k = Some (e, t, True))"
proof -
  obtain ks w q' where q': "expire now q = Inr (map (\<lambda>k. fst (snd (the (view q k)))) ks, w, q')"
      "set ks = {k. \<exists>e t. view q k = Some (e, t, True) \<and> e \<le> now}"
      "view q' = (\<lambda>k. case view q k of None \<Rightarrow> None
                           | Some (e, t, v) \<Rightarrow> if e \<le> now then None else Some (e, t, v))"
    using expire_ok [OF assms(1), of now] by blast
  have "k \<in> set ks \<longleftrightarrow> e \<le> now" using q'(2) assms(2) by simp
  moreover have "k \<in> set ks \<Longrightarrow> t \<in> set (map (\<lambda>k. fst (snd (the (view q k)))) ks)"
    using assms(2) by (force simp: image_iff)
  ultimately show ?thesis using q'(1,3) assms(2) by simp
qed

text \<open>Arming an id that is still stored, cancelled or not, changes nothing.\<close>

lemma rearm_ignored:
  "inv q \<Longrightarrow> view q (rid r) = Some x \<Longrightarrow> view (fst (add r q)) = view q"
  by (simp add: view_add)

end

interpretation tq: timer_store t_timerId t_expiry t_task queue_view queue_inv empty_queue
  AddTimer CancelTimer UpdateTimer HandleTimeout
  by (intro timer_store.intro queue_inv_empty queue_view_empty queue_inv_AddTimer queue_add_view
      queue_cancel_ok queue_update_ok queue_view_HandleTimeout)

end
