(* ===== verification/Timer.thy ===== *)
theory Timer
  imports TimerQueue
begin

text \<open>
  \<open>cold/time/Timer.{h,cpp}\<close>: the user's handle on the timer queue. Ids come from the static
  counter \<open>numCreated_\<close>; \<open>ExpiresAt\<close>, \<open>AsyncWait\<close>, \<open>Cancel\<close> and the destructor go through
  \<open>IoService\<close>, which takes its lock and calls the queue (\<open>IoService.cpp\<close>), so each of them is
  one step on the queue. The properties rest on the \<open>timer_store\<close> interface.
\<close>

section \<open>Operations\<close>

definition Timer_new :: "nat \<Rightarrow> 't Timer \<times> nat" where
  "Timer_new numCreated =
     (let n = numCreated + 1 in (\<lparr>t_timerId = n, t_expiry = 0, t_task = None\<rparr>, n))"

definition Timer_ExpiresAt :: "int \<Rightarrow> 't Timer \<Rightarrow> 't TimerQueue \<Rightarrow> ('t Timer \<times> 't TimerQueue) result" where
  "Timer_ExpiresAt time timer q =
     (let timer' = timer\<lparr>t_expiry := time\<rparr>
      in bind_result (UpdateTimer timer' q) (\<lambda>q'. Inr (timer', q')))"

text \<open>\<open>ExpiresAfter\<close>: \<open>duration\<close> is counted in nanoseconds, as \<open>Time\<close> does.\<close>

definition Timer_ExpiresAfter ::
    "int \<Rightarrow> int \<Rightarrow> 't Timer \<Rightarrow> 't TimerQueue \<Rightarrow> ('t Timer \<times> 't TimerQueue) result" where
  "Timer_ExpiresAfter now duration timer q = Timer_ExpiresAt (now + duration) timer q"

definition Timer_AsyncWait :: "'t \<Rightarrow> 't Timer \<Rightarrow> 't TimerQueue \<Rightarrow> 't Timer \<times> 't TimerQueue" where
  "Timer_AsyncWait co timer q =
     (let (q', timer', _) = AddTimer (timer\<lparr>t_task := Some co\<rparr>) q in (timer', q'))"

definition Timer_Cancel :: "'t Timer \<Rightarrow> 't TimerQueue \<Rightarrow> 't TimerQueue result" where
  "Timer_Cancel timer q = CancelTimer timer q"

text \<open>\<open>Timer(Timer&&)\<close>: the new timer and what is left of the source.\<close>

definition Timer_move :: "'t Timer \<Rightarrow> 't Timer \<times> 't Timer" where
  "Timer_move other = (other, other\<lparr>t_timerId := 0, t_task := None\<rparr>)"

text \<open>\<open>operator=(Timer&&)\<close> on two distinct objects; a self-assignment returns at once.\<close>

definition Timer_assign ::
    "'t Timer \<Rightarrow> 't Timer \<Rightarrow> 't TimerQueue \<Rightarrow> ('t Timer \<times> 't Timer \<times> 't TimerQueue) result" where
  "Timer_assign this other q =
     bind_result (Timer_Cancel this q) (\<lambda>q'.
       Inr (other, other\<lparr>t_timerId := 0, t_task := None\<rparr>, q'))"

text \<open>\<open>SleepAwaitable::await_suspend\<close>: a fresh timer whose task resumes the caller.\<close>

definition Sleep_suspend ::
    "int \<Rightarrow> int \<Rightarrow> 't \<Rightarrow> 't Timer \<Rightarrow> 't TimerQueue \<Rightarrow> ('t Timer \<times> 't TimerQueue) result" where
  "Sleep_suspend now duration handle timer q =
     bind_result (Timer_ExpiresAfter now duration timer q) (\<lambda>(timer', q').
       Inr (Timer_AsyncWait handle timer' q'))"

section \<open>Traces of timer operations\<close>

text \<open>What a program can do to the timers of one \<open>IoService\<close>, in any order, and the rounds of
  \<open>HandleTimeout\<close> the service runs in between.\<close>

datatype 't timer_op =
    ExpiresAt "'t Timer" int
  | AsyncWait "'t Timer" 't
  | Cancel "'t Timer"
  | Tick int

fun timer_step :: "'t timer_op \<Rightarrow> 't TimerQueue \<Rightarrow> 't TimerQueue result" where
  "timer_step (ExpiresAt timer time) q = bind_result (Timer_ExpiresAt time timer q) (\<lambda>(_, q'). Inr q')"
| "timer_step (AsyncWait timer co) q = Inr (snd (Timer_AsyncWait co timer q))"
| "timer_step (Cancel timer) q = Timer_Cancel timer q"
| "timer_step (Tick now) q = bind_result (HandleTimeout now q) (\<lambda>(_, _, q'). Inr q')"

fun timer_steps :: "'t timer_op list \<Rightarrow> 't TimerQueue \<Rightarrow> 't TimerQueue result" where
  "timer_steps [] q = Inr q"
| "timer_steps (a # as) q = bind_result (timer_step a q) (timer_steps as)"

section \<open>Lemmas\<close>

lemma AsyncWait_eq: "snd (Timer_AsyncWait x timer q) = fst (AddTimer (timer\<lparr>t_task := Some x\<rparr>) q)"
  by (simp add: Timer_AsyncWait_def split_beta)

lemma ExpiresAt_ok:
  assumes "queue_inv q"
  shows "\<exists>q'. Timer_ExpiresAt time timer q = Inr (timer\<lparr>t_expiry := time\<rparr>, q') \<and> queue_inv q' \<and>
     queue_view q' = (case queue_view q (t_timerId timer) of None \<Rightarrow> queue_view q
        | Some (e, t, v) \<Rightarrow> (queue_view q)(t_timerId timer \<mapsto> (time, t, v)))"
  using tq.update_ok [OF assms, of "timer\<lparr>t_expiry := time\<rparr>"]
  by (auto simp: Timer_ExpiresAt_def Let_def split: option.splits)

lemma timer_step_inv:
  assumes "queue_inv q" shows "\<exists>q'. timer_step a q = Inr q' \<and> queue_inv q'"
proof (cases a)
  case (ExpiresAt timer time)
  then show ?thesis using ExpiresAt_ok [OF assms, of time timer] by auto
next
  case (AsyncWait timer co)
  then show ?thesis using tq.inv_add [OF assms] by (simp add: AsyncWait_eq)
next
  case (Cancel timer)
  then show ?thesis using tq.cancel_ok [OF assms, of timer] by (auto simp: Timer_Cancel_def)
next
  case (Tick now)
  then show ?thesis using tq.expire_ok [OF assms, of now] by auto
qed

lemma timer_steps_inv:
  "queue_inv q \<Longrightarrow> \<exists>q'. timer_steps as q = Inr q' \<and> queue_inv q'"
proof (induction as arbitrary: q)
  case (Cons a as)
  then show ?case using timer_step_inv [OF Cons.prems, of a] by auto
qed simp

lemma view_AsyncWait_fresh:
  "queue_inv q \<Longrightarrow> queue_view q (t_timerId timer) = None \<Longrightarrow>
   queue_view (snd (Timer_AsyncWait x timer q))
     = (queue_view q)(t_timerId timer \<mapsto> (t_expiry timer, Some x, True))"
  by (simp add: AsyncWait_eq tq.view_add)

lemma sleep_wakes_at:
  assumes inv: "queue_inv q" and fresh: "queue_view q (t_timerId timer) = None"
  shows "\<exists>timer' q'. Sleep_suspend now d handle timer q = Inr (timer', q') \<and> queue_inv q'
     \<and> queue_view q' = (queue_view q)(t_timerId timer \<mapsto> (now + d, Some handle, True))"
proof -
  obtain q1 where q1: "Timer_ExpiresAt (now + d) timer q = Inr (timer\<lparr>t_expiry := now + d\<rparr>, q1)"
      "queue_inv q1" "queue_view q1 = queue_view q"
    using ExpiresAt_ok [OF inv, of "now + d" timer] fresh by auto
  have "queue_view (snd (Timer_AsyncWait handle (timer\<lparr>t_expiry := now + d\<rparr>) q1))
      = (queue_view q)(t_timerId timer \<mapsto> (now + d, Some handle, True))"
    using view_AsyncWait_fresh [OF q1(2), of "timer\<lparr>t_expiry := now + d\<rparr>" handle] q1(3) fresh by simp
  moreover have "queue_inv (snd (Timer_AsyncWait handle (timer\<lparr>t_expiry := now + d\<rparr>) q1))"
    using tq.inv_add [OF q1(2)] by (simp add: AsyncWait_eq)
  moreover have "Sleep_suspend now d handle timer q = Inr (Timer_AsyncWait handle (timer\<lparr>t_expiry := now + d\<rparr>) q1)"
    using q1(1) by (simp add: Sleep_suspend_def Timer_ExpiresAfter_def)
  ultimately show ?thesis
    by (intro exI [of _ "fst (Timer_AsyncWait handle (timer\<lparr>t_expiry := now + d\<rparr>) q1)"]
        exI [of _ "snd (Timer_AsyncWait handle (timer\<lparr>t_expiry := now + d\<rparr>) q1)"]) simp
qed

section \<open>Properties\<close>

text \<open>C1: whatever sequence of timer operations and expiry rounds a program performs on an
  empty queue, no assertion of \<open>TimerQueue.cpp\<close> fails, every operation returns, and the queue
  stays a min-heap on (expiry, id) whose index map is exact.\<close>

theorem timer_ops_safe:
  "\<exists>q. timer_steps as empty_queue = Inr q \<and> queue_inv q"
  by (rule timer_steps_inv) (rule tq.inv_none)

text \<open>C8: one round of \<open>HandleTimeout\<close> hands out the tasks of exactly the valid timers whose
  expiry has passed, each once, in the order of (expiry, id); it drops every due timer, keeps the
  others, and the poll timeout it returns lies between 0 and 500 ms.\<close>

theorem HandleTimeout_exact:
  assumes "queue_inv q"
  shows "\<exists>ks w q'. HandleTimeout now q = Inr (map (\<lambda>k. fst (snd (the (queue_view q k)))) ks, w, q')
     \<and> queue_inv q' \<and> 0 \<le> w \<and> w \<le> 500
     \<and> sorted_wrt (\<lambda>j k. (fst (the (queue_view q j)), j) < (fst (the (queue_view q k)), k)) ks
     \<and> set ks = {k. \<exists>e t. queue_view q k = Some (e, t, True) \<and> e \<le> now}
     \<and> queue_view q' = (\<lambda>k. case queue_view q k of None \<Rightarrow> None
                           | Some (e, t, v) \<Rightarrow> if e \<le> now then None else Some (e, t, v))"
  using assms by (rule tq.expire_ok)

definition demo_timer :: "nat \<Rightarrow> int \<Rightarrow> nat Timer" where
  "demo_timer k e = \<lparr>t_timerId = k, t_expiry = e, t_task = None\<rparr>"

definition demo_queue :: "nat TimerQueue" where
  "demo_queue = snd (Timer_AsyncWait 7 (demo_timer 2 10) (snd (Timer_AsyncWait 5 (demo_timer 1 30) empty_queue)))"

lemma demo_queue_inv: "queue_inv demo_queue"
  by (simp add: demo_queue_def AsyncWait_eq queue_inv_AddTimer queue_inv_empty)

theorem HandleTimeout_exact_witness:
  "\<exists>ks w q'. HandleTimeout 20 demo_queue = Inr (map (\<lambda>k. fst (snd (the (queue_view demo_queue k)))) ks, w, q')
     \<and> set ks = {k. \<exists>e t. queue_view demo_queue k = Some (e, t, True) \<and> e \<le> 20}"
  using HandleTimeout_exact [OF demo_queue_inv, of 20] by blast

text \<open>\<open>Sleep\<close> on a timer that is not queued wakes the caller: the first round at or after
  \<open>now + duration\<close> releases its handle, and a round before that keeps it queued.\<close>

theorem sleep_wakes:
  assumes "queue_inv q" and "queue_view q (t_timerId timer) = None"
  shows "\<exists>timer' q'. Sleep_suspend now d handle timer q = Inr (timer', q') \<and>
    (\<forall>t. \<exists>out w q''. HandleTimeout t q' = Inr (out, w, q'') \<and>
       (if now + d \<le> t then Some handle \<in> set out \<and> queue_view q'' (t_timerId timer) = None
        else queue_view q'' (t_timerId timer) = Some (now + d, Some handle, True)))"
proof -
  obtain timer' q' where q': "Sleep_suspend now d handle timer q = Inr (timer', q')" "queue_inv q'"
      "queue_view q' (t_timerId timer) = Some (now + d, Some handle, True)"
    using sleep_wakes_at [OF assms, of now d handle] by auto
  have "\<exists>out w q''. HandleTimeout t q' = Inr (out, w, q'') \<and>
       (if now + d \<le> t then Some handle \<in> set out \<and> queue_view q'' (t_timerId timer) = None
        else queue_view q'' (t_timerId timer) = Some (now + d, Some handle, True))" for t
    using tq.stored_round [OF q'(2,3), of t] by simp
  then show ?thesis using q'(1) by blast
qed

theorem sleep_wakes_witness:
  "\<exists>timer' q'. Sleep_suspend 0 5 9 (demo_timer 3 0) demo_queue = Inr (timer', q')"
proof -
  have "queue_view demo_queue (t_timerId (demo_timer 3 0)) = None"
    using view_AsyncWait_fresh [of "empty_queue" "demo_timer 1 30" 5]
      view_AsyncWait_fresh [of "snd (Timer_AsyncWait 5 (demo_timer 1 30) empty_queue)" "demo_timer 2 10" 7]
    by (simp add: demo_queue_def demo_timer_def queue_view_empty queue_inv_empty AsyncWait_eq queue_inv_AddTimer)
  then show ?thesis using sleep_wakes [OF demo_queue_inv, of "demo_timer 3 0" 0 5 9] by blast
qed

text \<open>A timer that was cancelled and armed again before its old expiry never runs the new
  task: \<open>Cancel\<close> leaves the invalidated node in the queue, \<open>AsyncWait\<close> is then rejected, and the
  next round at or after the expiry releases nothing for this timer.\<close>

theorem rearm_after_cancel_is_lost:
  assumes "queue_inv q" and "queue_view q (t_timerId timer) = Some (e, t, v)" and "e \<le> now"
    and "x \<notin> {y. \<exists>k e'. queue_view q k = Some (e', y, True) \<and> k \<noteq> t_timerId timer}"
    and "x = Some co"
  shows "\<exists>q1 out w q2. Timer_Cancel timer q = Inr q1 \<and>
     HandleTimeout now (snd (Timer_AsyncWait co timer q1)) = Inr (out, w, q2) \<and> x \<notin> set out"
proof -
  obtain q1 where q1: "Timer_Cancel timer q = Inr q1" "queue_inv q1"
      "queue_view q1 = (queue_view q)(t_timerId timer \<mapsto> (e, t, False))"
    using tq.cancel_ok [OF assms(1), of timer] assms(2) by (auto simp: Timer_Cancel_def)
  let ?q2 = "snd (Timer_AsyncWait co timer q1)"
  have inv2: "queue_inv ?q2" using tq.inv_add [OF q1(2)] by (simp add: AsyncWait_eq)
  have view2: "queue_view ?q2 = queue_view q1"
    using tq.rearm_ignored [OF q1(2), of "timer\<lparr>t_task := Some co\<rparr>"] q1(3)
    by (simp add: AsyncWait_eq)
  obtain ks w q3 where q3: "HandleTimeout now ?q2 = Inr (map (\<lambda>k. fst (snd (the (queue_view ?q2 k)))) ks, w, q3)"
      "set ks = {k. \<exists>e t. queue_view ?q2 k = Some (e, t, True) \<and> e \<le> now}"
    using tq.expire_ok [OF inv2, of now] by blast
  have "x \<notin> set (map (\<lambda>k. fst (snd (the (queue_view ?q2 k)))) ks)"
    using assms(4) q3(2) view2 q1(3) by (auto split: if_splits) blast
  then show ?thesis using q1(1) q3(1) by blast
qed

theorem rearm_after_cancel_is_lost_witness:
  "\<exists>q1 out w q2. Timer_Cancel (demo_timer 2 10) demo_queue = Inr q1 \<and>
     HandleTimeout 40 (snd (Timer_AsyncWait 8 (demo_timer 2 10) q1)) = Inr (out, w, q2) \<and> Some 8 \<notin> set out"
proof -
  have v: "queue_view demo_queue = [1 \<mapsto> (30, Some 5, True), 2 \<mapsto> (10, Some 7, True)]"
    using view_AsyncWait_fresh [of "empty_queue" "demo_timer 1 30" 5]
      view_AsyncWait_fresh [of "snd (Timer_AsyncWait 5 (demo_timer 1 30) empty_queue)" "demo_timer 2 10" 7]
    by (simp add: demo_queue_def demo_timer_def queue_view_empty queue_inv_empty AsyncWait_eq
        queue_inv_AddTimer fun_eq_iff)
  show ?thesis
    using rearm_after_cancel_is_lost [OF demo_queue_inv, of "demo_timer 2 10" 10 "Some 7" True 40 "Some 8" 8] v
    by (simp add: demo_timer_def)
qed

end
