(* ===== verification/IoWatcher.thy ===== *)
theory IoWatcher
  imports Prelude
begin

text \<open>
  \<open>cold/coro/IoWatcher.{h,cpp}\<close>: the table of descriptors and the coroutines that wait for them.

  \<^item> A handle is \<open>'h option\<close>, with \<open>None\<close> for \<open>std::noop_coroutine()\<close>; the kernel's flag words
    are 32-bit words with the values of \<open><sys/epoll.h>\<close>.
  \<^item> \<open>epoll_ctl\<close> is outside the program: whether a call succeeds is an argument of the operation
    that makes it, and the calls made are recorded in \<open>calls\<close>. \<open>interest\<close> replays the record the
    way the kernel documents it.
  \<^item> The events that \<open>epoll_wait\<close> reports are the argument of \<open>WatchIo\<close>; \<open>data.ptr\<close> is the
    entry of the descriptor, since map nodes do not move; \<open>Inl Undefined\<close> if it was erased.
  \<^item> A \<open>FATAL\<close> log line aborts the process: \<open>Inl Abort\<close>.
\<close>

section \<open>State\<close>

type_synonym flags = "32 word"

definition EPOLLIN :: flags where "EPOLLIN = 0x001"
definition EPOLLOUT :: flags where "EPOLLOUT = 0x004"
definition EPOLLERR :: flags where "EPOLLERR = 0x008"
definition EPOLLHUP :: flags where "EPOLLHUP = 0x010"
definition EPOLLET :: flags where "EPOLLET = 0x80000000"

record 'h IoEvent =
  ev_fd :: int
  events :: flags
  readHandle :: "'h option"
  writeHandle :: "'h option"

datatype ctl_op = CTL_ADD | CTL_MOD | CTL_DEL

record epoll_call =
  c_op :: ctl_op
  c_fd :: int
  c_events :: flags
  c_ok :: bool

record 'h IoWatcher =
  wakeUpFd :: int
  ioEvents :: "int \<rightharpoonup> 'h IoEvent"
  epollEvents_size :: nat
  calls :: "epoll_call list"

definition noIoEvent :: "'h IoEvent" where
  "noIoEvent = \<lparr>ev_fd = 0, events = 0, readHandle = None, writeHandle = None\<rparr>"

definition ioEvent_ref :: "int \<Rightarrow> 'h IoWatcher \<Rightarrow> 'h IoEvent" where
  "ioEvent_ref fd w = (case ioEvents w fd of None \<Rightarrow> noIoEvent | Some e \<Rightarrow> e)"

definition set_ioEvent :: "int \<Rightarrow> 'h IoEvent \<Rightarrow> 'h IoWatcher \<Rightarrow> 'h IoWatcher" where
  "set_ioEvent fd e w = w\<lparr>ioEvents := (ioEvents w)(fd \<mapsto> e)\<rparr>"

definition erase_ioEvent :: "int \<Rightarrow> 'h IoWatcher \<Rightarrow> 'h IoWatcher" where
  "erase_ioEvent fd w = w\<lparr>ioEvents := (ioEvents w)(fd := None)\<rparr>"

definition epoll_ctl :: "ctl_op \<Rightarrow> int \<Rightarrow> flags \<Rightarrow> bool \<Rightarrow> 'h IoWatcher \<Rightarrow> 'h IoWatcher" where
  "epoll_ctl opn fd ev ok w = w\<lparr>calls := calls w @ [\<lparr>c_op = opn, c_fd = fd, c_events = ev, c_ok = ok\<rparr>]\<rparr>"

section \<open>Operations\<close>

definition IoWatcher_init :: "int \<Rightarrow> bool \<Rightarrow> 'h IoWatcher result" where
  "IoWatcher_init fd ok =
     (let w = \<lparr>wakeUpFd = fd, ioEvents = Map.empty, epollEvents_size = 16, calls = []\<rparr>;
          w = epoll_ctl CTL_ADD fd EPOLLIN ok
                (set_ioEvent fd (noIoEvent\<lparr>ev_fd := fd, events := EPOLLIN\<rparr>) w)
      in if ok then Inr w else Inl Abort)"

definition ListenReadEvent :: "bool \<Rightarrow> int \<Rightarrow> 'h option \<Rightarrow> 'h IoWatcher \<Rightarrow> 'h IoWatcher result" where
  "ListenReadEvent ok fd h w =
     (case ioEvents w fd of
        None \<Rightarrow>
          (let event = noIoEvent\<lparr>events := EPOLLIN OR EPOLLET, ev_fd := fd, readHandle := h\<rparr>;
               w' = epoll_ctl CTL_ADD fd (events event) ok (set_ioEvent fd event w)
           in if ok then Inr w' else Inl Abort)
      | Some event \<Rightarrow>
          if readHandle event \<noteq> None then Inl AssertFail
          else Inr (set_ioEvent fd (event\<lparr>readHandle := h\<rparr>) w))"

definition ListenWriteEvent :: "bool \<Rightarrow> int \<Rightarrow> 'h option \<Rightarrow> 'h IoWatcher \<Rightarrow> 'h IoWatcher result" where
  "ListenWriteEvent ok fd h w =
     (let opn = (if ioEvents w fd = None then CTL_ADD else CTL_MOD);
          event = ioEvent_ref fd w
      in if writeHandle event \<noteq> None then Inl AssertFail
         else let old = events event;
                  event' = event\<lparr>ev_fd := fd, writeHandle := h, events := old OR (EPOLLOUT OR EPOLLET)\<rparr>;
                  w' = epoll_ctl opn fd (events event') ok (set_ioEvent fd event' w)
              in Inr (if ok then w' else set_ioEvent fd (event'\<lparr>events := old\<rparr>) w'))"

definition StopListeningReadEvent :: "int \<Rightarrow> 'h IoWatcher \<Rightarrow> 'h IoWatcher result" where
  "StopListeningReadEvent fd w =
     (case ioEvents w fd of
        None \<Rightarrow> Inl AssertFail
      | Some event \<Rightarrow> Inr (set_ioEvent fd (event\<lparr>readHandle := None\<rparr>) w))"

definition StopListeningWriteEvent :: "bool \<Rightarrow> int \<Rightarrow> 'h IoWatcher \<Rightarrow> 'h IoWatcher result" where
  "StopListeningWriteEvent ok fd w =
     (case ioEvents w fd of
        None \<Rightarrow> Inl AssertFail
      | Some event \<Rightarrow>
          (let event' = event\<lparr>writeHandle := None, events := events event AND NOT EPOLLOUT\<rparr>;
               opn = (if events event' AND EPOLLIN = 0 then CTL_DEL else CTL_MOD);
               w' = epoll_ctl opn fd (events event') ok (set_ioEvent fd event' w)
           in Inr (if opn = CTL_DEL then erase_ioEvent fd w' else w')))"

definition StopListeningAll :: "bool \<Rightarrow> int \<Rightarrow> 'h IoWatcher \<Rightarrow> 'h IoWatcher" where
  "StopListeningAll ok fd w =
     (case ioEvents w fd of
        None \<Rightarrow> w
      | Some event \<Rightarrow> erase_ioEvent fd (epoll_ctl CTL_DEL fd 0 ok w))"

text \<open>One reported event: what is appended to \<open>activeCoroutines_\<close>, and the new table.\<close>

definition watch_event ::
    "bool \<Rightarrow> int \<Rightarrow> flags \<Rightarrow> 'h IoWatcher \<Rightarrow> ('h option list \<times> 'h IoWatcher) result" where
  "watch_event ok fd ev w =
     (case ioEvents w fd of
        None \<Rightarrow> Inl Undefined
      | Some event \<Rightarrow>
      if ev_fd event = wakeUpFd w then Inr ([], w)
      else
        let readable = ev AND EPOLLIN \<noteq> 0;
            writable = ev AND EPOLLOUT \<noteq> 0;
            disconnected = ev AND (EPOLLHUP OR EPOLLERR) \<noteq> 0;
            wake_reader = (readable \<or> disconnected) \<and> readHandle event \<noteq> None;
            active = (if wake_reader then [readHandle event] else []);
            event1 = (if wake_reader then event\<lparr>readHandle := None\<rparr> else event)
        in if writable then
             (let event2 = event1\<lparr>events := events event1 AND NOT EPOLLOUT\<rparr>
              in bind_result (StopListeningWriteEvent ok (ev_fd event) (set_ioEvent fd event2 w))
                   (\<lambda>w'. Inr (active @ [writeHandle event2], w')))
           else Inr (active, set_ioEvent fd event1 w))"

fun watch_events ::
    "'h option list \<Rightarrow> (int \<times> flags \<times> bool) list \<Rightarrow> 'h IoWatcher \<Rightarrow> ('h option list \<times> 'h IoWatcher) result" where
  "watch_events active [] w = Inr (active, w)"
| "watch_events active ((fd, ev, ok) # evs) w =
     bind_result (watch_event ok fd ev w) (\<lambda>(a, w'). watch_events (active @ a) evs w')"

definition WatchIo ::
    "(int \<times> flags \<times> bool) list \<Rightarrow> 'h IoWatcher \<Rightarrow> ('h option list \<times> 'h IoWatcher) result" where
  "WatchIo evs w =
     bind_result (watch_events [] evs w) (\<lambda>(active, w').
       Inr (active, if epollEvents_size w' = length evs then w'\<lparr>epollEvents_size := length evs * 2\<rparr> else w'))"

section \<open>The kernel's interest list\<close>

text \<open>What the recorded calls leave in the interest list; a call is legal when it adds a
  descriptor that is absent, or modifies or deletes one that is present.\<close>

definition ctl_effect :: "epoll_call \<Rightarrow> (int \<rightharpoonup> flags) \<Rightarrow> (int \<rightharpoonup> flags)" where
  "ctl_effect c m = (if \<not> c_ok c then m
     else if c_op c = CTL_DEL then m(c_fd c := None) else m(c_fd c \<mapsto> c_events c))"

definition ctl_legal :: "epoll_call \<Rightarrow> (int \<rightharpoonup> flags) \<Rightarrow> bool" where
  "ctl_legal c m \<longleftrightarrow> (c_op c = CTL_ADD \<longleftrightarrow> m (c_fd c) = None)"

definition interest :: "epoll_call list \<Rightarrow> int \<rightharpoonup> flags" where
  "interest cs = fold ctl_effect cs Map.empty"

fun calls_legal :: "(int \<rightharpoonup> flags) \<Rightarrow> epoll_call list \<Rightarrow> bool" where
  "calls_legal m [] \<longleftrightarrow> True"
| "calls_legal m (c # cs) \<longleftrightarrow> ctl_legal c m \<and> calls_legal (ctl_effect c m) cs"

lemma interest_append: "interest (cs @ [c]) = ctl_effect c (interest cs)"
  by (simp add: interest_def)

lemma calls_legal_append:
  "calls_legal m (cs @ [c]) \<longleftrightarrow> calls_legal m cs \<and> ctl_legal c (fold ctl_effect cs m)"
  by (induction cs arbitrary: m) auto

text \<open>Entries are filed under their own descriptor, the table is what the kernel watches, and
  every call so far was legal. The wake-up descriptor stays registered.\<close>

definition watcher_inv :: "'h IoWatcher \<Rightarrow> bool" where
  "watcher_inv w \<longleftrightarrow>
     (\<forall>fd e. ioEvents w fd = Some e \<longrightarrow> ev_fd e = fd) \<and>
     (\<exists>e. ioEvents w (wakeUpFd w) = Some e \<and> readHandle e = None \<and> writeHandle e = None) \<and>
     interest (calls w) = (\<lambda>fd. map_option events (ioEvents w fd)) \<and>
     calls_legal Map.empty (calls w)"

lemmas watcher_defs = watcher_inv_def epoll_ctl_def set_ioEvent_def erase_ioEvent_def ioEvent_ref_def
  noIoEvent_def interest_append calls_legal_append ctl_effect_def ctl_legal_def

section \<open>Traces\<close>

datatype 'h watcher_op =
    ListenRead int "'h option"
  | ListenWrite int "'h option"
  | StopRead int
  | StopWrite int
  | StopAll int
  | Watch "(int \<times> flags) list"

text \<open>The operations with every \<open>epoll_ctl\<close> succeeding.\<close>

fun watcher_step :: "'h watcher_op \<Rightarrow> 'h IoWatcher \<Rightarrow> 'h IoWatcher result" where
  "watcher_step (ListenRead fd h) w = ListenReadEvent True fd h w"
| "watcher_step (ListenWrite fd h) w = ListenWriteEvent True fd h w"
| "watcher_step (StopRead fd) w = StopListeningReadEvent fd w"
| "watcher_step (StopWrite fd) w = StopListeningWriteEvent True fd w"
| "watcher_step (StopAll fd) w = Inr (StopListeningAll True fd w)"
| "watcher_step (Watch evs) w =
     bind_result (WatchIo (map (\<lambda>(fd, ev). (fd, ev, True)) evs) w) (\<lambda>(_, w'). Inr w')"

fun watcher_steps :: "'h watcher_op list \<Rightarrow> 'h IoWatcher \<Rightarrow> 'h IoWatcher result" where
  "watcher_steps [] w = Inr w"
| "watcher_steps (a # as) w = bind_result (watcher_step a w) (watcher_steps as)"

fun op_fd :: "'h watcher_op \<Rightarrow> int option" where
  "op_fd (ListenRead fd h) = Some fd"
| "op_fd (ListenWrite fd h) = Some fd"
| "op_fd (StopRead fd) = Some fd"
| "op_fd (StopWrite fd) = Some fd"
| "op_fd (StopAll fd) = Some fd"
| "op_fd (Watch evs) = None"

section \<open>Preservation\<close>

lemma ioEvents_upd [simp]:
  "ioEvents (set_ioEvent fd e w) = (ioEvents w)(fd \<mapsto> e)"
  "ioEvents (erase_ioEvent fd w) = (ioEvents w)(fd := None)"
  "ioEvents (epoll_ctl opn fd ev ok w) = ioEvents w"
  "wakeUpFd (set_ioEvent fd e w) = wakeUpFd w"
  "wakeUpFd (erase_ioEvent fd w) = wakeUpFd w"
  "wakeUpFd (epoll_ctl opn fd ev ok w) = wakeUpFd w"
  "set_ioEvent fd e (set_ioEvent fd e' w) = set_ioEvent fd e w"
  "erase_ioEvent fd (epoll_ctl opn fd ev ok (set_ioEvent fd e w)) = erase_ioEvent fd (epoll_ctl opn fd ev ok w)"
  by (simp_all add: set_ioEvent_def erase_ioEvent_def epoll_ctl_def)

lemma inv_set_call:
  assumes "watcher_inv w" "fd \<noteq> wakeUpFd w" "ev_fd e = fd"
    and "opn = (if ioEvents w fd = None then CTL_ADD else CTL_MOD)" and "v = events e"
  shows "watcher_inv (epoll_ctl opn fd v True (set_ioEvent fd e w))"
  using assms by (auto simp: watcher_inv_def epoll_ctl_def set_ioEvent_def interest_append
      calls_legal_append ctl_effect_def ctl_legal_def fun_eq_iff interest_def [symmetric])

lemma inv_set_same:
  assumes "watcher_inv w" "fd \<noteq> wakeUpFd w" "ev_fd e = fd" "ioEvents w fd = Some e0" "events e = events e0"
  shows "watcher_inv (set_ioEvent fd e w)"
  using assms by (auto simp: watcher_inv_def set_ioEvent_def fun_eq_iff)

lemma inv_delete:
  assumes "watcher_inv w" "fd \<noteq> wakeUpFd w" "ioEvents w fd = Some e"
  shows "watcher_inv (erase_ioEvent fd (epoll_ctl CTL_DEL fd ev True w))"
  using assms by (auto simp: watcher_inv_def epoll_ctl_def erase_ioEvent_def interest_append
      calls_legal_append ctl_effect_def ctl_legal_def fun_eq_iff interest_def [symmetric])

lemma inv_ev_fd: "watcher_inv w \<Longrightarrow> ioEvents w fd = Some e \<Longrightarrow> ev_fd e = fd"
  by (simp add: watcher_inv_def)

lemma inv_IoWatcher_init: "IoWatcher_init fd True = Inr w \<Longrightarrow> watcher_inv w \<and> wakeUpFd w = fd"
  by (auto simp: IoWatcher_init_def watcher_defs Let_def interest_def split: if_splits)

lemma inv_ListenReadEvent [cold_inv]:
  "watcher_inv w \<Longrightarrow> fd \<noteq> wakeUpFd w \<Longrightarrow> ListenReadEvent True fd h w = Inr w' \<Longrightarrow>
   watcher_inv w' \<and> wakeUpFd w' = wakeUpFd w"
  by (auto simp: ListenReadEvent_def noIoEvent_def inv_ev_fd
      split: option.splits if_splits intro!: inv_set_call inv_set_same)

lemma inv_ListenWriteEvent [cold_inv]:
  "watcher_inv w \<Longrightarrow> fd \<noteq> wakeUpFd w \<Longrightarrow> ListenWriteEvent True fd h w = Inr w' \<Longrightarrow>
   watcher_inv w' \<and> wakeUpFd w' = wakeUpFd w"
  by (auto simp: ListenWriteEvent_def Let_def split: if_splits intro!: inv_set_call)

lemma inv_StopListeningReadEvent [cold_inv]:
  "watcher_inv w \<Longrightarrow> fd \<noteq> wakeUpFd w \<Longrightarrow> StopListeningReadEvent fd w = Inr w' \<Longrightarrow>
   watcher_inv w' \<and> wakeUpFd w' = wakeUpFd w"
  by (auto simp: StopListeningReadEvent_def inv_ev_fd intro!: inv_set_same split: option.splits)

lemma StopListeningWriteEvent_eq:
  "ioEvents w fd = Some e \<Longrightarrow> StopListeningWriteEvent True fd w =
     (let e' = e\<lparr>writeHandle := None, events := events e AND NOT EPOLLOUT\<rparr>
      in Inr (if events e' AND EPOLLIN = 0 then erase_ioEvent fd (epoll_ctl CTL_DEL fd (events e') True w)
              else epoll_ctl CTL_MOD fd (events e') True (set_ioEvent fd e' w)))"
  by (simp add: StopListeningWriteEvent_def Let_def)

lemma inv_StopListeningWriteEvent [cold_inv]:
  "watcher_inv w \<Longrightarrow> fd \<noteq> wakeUpFd w \<Longrightarrow> StopListeningWriteEvent True fd w = Inr w' \<Longrightarrow>
   watcher_inv w' \<and> wakeUpFd w' = wakeUpFd w"
proof (cases "ioEvents w fd")
  case (Some e)
  let ?e = "e\<lparr>writeHandle := None, events := events e AND NOT EPOLLOUT\<rparr>"
  assume w: "watcher_inv w" "fd \<noteq> wakeUpFd w" "StopListeningWriteEvent True fd w = Inr w'"
  have "watcher_inv (epoll_ctl CTL_MOD fd (events ?e) True (set_ioEvent fd ?e w))"
    using w Some by (intro inv_set_call) (auto simp: inv_ev_fd)
  then show ?thesis
    using w Some inv_delete [OF w(1,2) Some] by (auto simp: StopListeningWriteEvent_eq Let_def split: if_splits)
qed (simp add: StopListeningWriteEvent_def)

lemma inv_StopListeningAll [cold_inv]:
  "watcher_inv w \<Longrightarrow> fd \<noteq> wakeUpFd w \<Longrightarrow>
   watcher_inv (StopListeningAll True fd w) \<and> wakeUpFd (StopListeningAll True fd w) = wakeUpFd w"
  by (auto simp: StopListeningAll_def inv_delete split: option.splits)

section \<open>Reported events\<close>

text \<open>What one report of \<open>ev\<close> does to the entry \<open>e\<close> of its descriptor.\<close>

definition wakes_reader :: "flags \<Rightarrow> 'h IoEvent \<Rightarrow> bool" where
  "wakes_reader ev e \<longleftrightarrow> (ev AND EPOLLIN \<noteq> 0 \<or> ev AND (EPOLLHUP OR EPOLLERR) \<noteq> 0) \<and> readHandle e \<noteq> None"

definition after_event :: "flags \<Rightarrow> 'h IoEvent \<Rightarrow> 'h IoEvent option" where
  "after_event ev e =
     (let e1 = (if wakes_reader ev e then e\<lparr>readHandle := None\<rparr> else e);
          e2 = e1\<lparr>writeHandle := None, events := events e1 AND NOT EPOLLOUT\<rparr>
      in if ev AND EPOLLOUT = 0 then Some e1 else if events e2 AND EPOLLIN = 0 then None else Some e2)"

lemma and_not_idem: "(x AND NOT y) AND NOT y = (x AND NOT y :: 'a::len word)"
  by (rule bit_word_eqI) (auto simp: bit_simps)

lemma watch_event_spec:
  assumes inv: "watcher_inv w" and e: "ioEvents w fd = Some e" and fd: "fd \<noteq> wakeUpFd w"
  shows "\<exists>w'. watch_event True fd ev w =
      Inr ((if wakes_reader ev e then [readHandle e] else []) @ (if ev AND EPOLLOUT \<noteq> 0 then [writeHandle e] else []), w')
    \<and> watcher_inv w' \<and> wakeUpFd w' = wakeUpFd w \<and> ioEvents w' = (ioEvents w)(fd := after_event ev e)"
proof -
  let ?e1 = "if wakes_reader ev e then e\<lparr>readHandle := None\<rparr> else e"
  let ?e2 = "?e1\<lparr>writeHandle := None, events := events ?e1 AND NOT EPOLLOUT\<rparr>"
  have efd: "ev_fd e = fd" using inv e by (rule inv_ev_fd)
  have same: "watcher_inv (set_ioEvent fd ?e1 w)"
    using inv fd e efd by (intro inv_set_same [OF _ _ _ e]) auto
  have modified: "watcher_inv (epoll_ctl CTL_MOD fd (events ?e2) True (set_ioEvent fd ?e2 w))"
    using inv fd e efd by (intro inv_set_call) auto
  have deleted: "watcher_inv (erase_ioEvent fd (epoll_ctl CTL_DEL fd (events ?e2) True w))"
    using inv fd e by (rule inv_delete)
  show ?thesis
  proof (cases "ev AND EPOLLOUT = 0")
    case True
    then have "watch_event True fd ev w = Inr (if wakes_reader ev e then [readHandle e] else [], set_ioEvent fd ?e1 w)"
      using e efd fd by (auto simp: watch_event_def wakes_reader_def Let_def)
    then show ?thesis using True same by (auto simp: after_event_def Let_def)
  next
    case False
    let ?w' = "if events ?e2 AND EPOLLIN = 0 then erase_ioEvent fd (epoll_ctl CTL_DEL fd (events ?e2) True w)
               else epoll_ctl CTL_MOD fd (events ?e2) True (set_ioEvent fd ?e2 w)"
    have "StopListeningWriteEvent True fd (set_ioEvent fd (?e1\<lparr>events := events ?e1 AND NOT EPOLLOUT\<rparr>) w) = Inr ?w'"
      by (subst StopListeningWriteEvent_eq [where e = "?e1\<lparr>events := events ?e1 AND NOT EPOLLOUT\<rparr>"])
         (auto simp: Let_def and_not_idem)
    then have "watch_event True fd ev w = Inr ((if wakes_reader ev e then [readHandle e] else []) @ [writeHandle e], ?w')"
      using False e efd fd by (auto simp: watch_event_def wakes_reader_def Let_def)
    then show ?thesis using False modified deleted by (auto simp: after_event_def Let_def)
  qed
qed

definition woken :: "flags \<Rightarrow> 'h IoEvent \<Rightarrow> 'h option list" where
  "woken ev e = (if wakes_reader ev e then [readHandle e] else [])
              @ (if ev AND EPOLLOUT \<noteq> 0 then [writeHandle e] else [])"

lemma watch_event_wake:
  "watcher_inv w \<Longrightarrow> watch_event ok (wakeUpFd w) ev w = Inr ([], w)"
  by (auto simp: watch_event_def watcher_inv_def)

lemma inv_watch_event:
  assumes "watcher_inv w" and "watch_event True fd ev w = Inr (a, w')"
  shows "watcher_inv w' \<and> wakeUpFd w' = wakeUpFd w"
proof (cases "fd = wakeUpFd w")
  case True
  then show ?thesis using assms by (simp add: watch_event_wake)
next
  case False
  obtain e where "ioEvents w fd = Some e" using assms(2) by (auto simp: watch_event_def split: option.splits)
  then show ?thesis using watch_event_spec [OF assms(1) _ False, of e ev] assms(2) by auto
qed

lemma inv_watch_events:
  "watcher_inv w \<Longrightarrow> watch_events active (map (\<lambda>(fd, ev). (fd, ev, True)) evs) w = Inr (a, w') \<Longrightarrow>
   watcher_inv w' \<and> wakeUpFd w' = wakeUpFd w"
proof (induction evs arbitrary: active w)
  case (Cons x evs)
  obtain fd ev where x: "x = (fd, ev)" by (cases x)
  obtain b w1 where w1: "watch_event True fd ev w = Inr (b, w1)"
      "watch_events (active @ b) (map (\<lambda>(fd, ev). (fd, ev, True)) evs) w1 = Inr (a, w')"
    using Cons.prems(2) by (auto simp: x bind_result_eq_Inr)
  have "watcher_inv w1 \<and> wakeUpFd w1 = wakeUpFd w" by (rule inv_watch_event [OF Cons.prems(1) w1(1)])
  then show ?case using Cons.IH [OF _ w1(2)] by simp
qed simp

lemma inv_resize [simp]: "watcher_inv (w\<lparr>epollEvents_size := n\<rparr>) = watcher_inv w"
  by (simp add: watcher_inv_def)

lemma inv_WatchIo:
  assumes "watcher_inv w" and "WatchIo (map (\<lambda>(fd, ev). (fd, ev, True)) evs) w = Inr (a, w')"
  shows "watcher_inv w' \<and> wakeUpFd w' = wakeUpFd w"
proof -
  obtain b w1 where "watch_events [] (map (\<lambda>(fd, ev). (fd, ev, True)) evs) w = Inr (b, w1)"
      and w': "w' = w1 \<or> w' = w1\<lparr>epollEvents_size := length evs * 2\<rparr>"
    using assms(2) by (auto simp: WatchIo_def bind_result_eq_Inr split: if_splits)
  then have "watcher_inv w1 \<and> wakeUpFd w1 = wakeUpFd w" using inv_watch_events [OF assms(1)] by blast
  then show ?thesis using w' by auto
qed

lemma inv_watcher_step:
  assumes "watcher_inv w" "op_fd a \<noteq> Some (wakeUpFd w)" "watcher_step a w = Inr w'"
  shows "watcher_inv w' \<and> wakeUpFd w' = wakeUpFd w"
proof (cases a)
  case (ListenRead fd h)
  then show ?thesis using assms inv_ListenReadEvent by simp
next
  case (ListenWrite fd h)
  then show ?thesis using assms inv_ListenWriteEvent by simp
next
  case (StopRead fd)
  then show ?thesis using assms inv_StopListeningReadEvent by simp
next
  case (StopWrite fd)
  then show ?thesis using assms inv_StopListeningWriteEvent by simp
next
  case (StopAll fd)
  then show ?thesis using assms inv_StopListeningAll by auto
next
  case (Watch evs)
  then show ?thesis using assms inv_WatchIo [OF assms(1), of evs] by (auto simp: bind_result_eq_Inr)
qed

lemma inv_watcher_steps:
  "watcher_inv w \<Longrightarrow> \<forall>a \<in> set as. op_fd a \<noteq> Some (wakeUpFd w) \<Longrightarrow> watcher_steps as w = Inr w' \<Longrightarrow>
   watcher_inv w' \<and> wakeUpFd w' = wakeUpFd w"
proof (induction as arbitrary: w)
  case (Cons a as)
  then obtain w1 where "watcher_step a w = Inr w1" "watcher_steps as w1 = Inr w'"
    by (auto simp: bind_result_eq_Inr)
  then show ?case using Cons inv_watcher_step [of w a w1] by auto
qed simp

lemma watch_event_any:
  assumes "watcher_inv w" "fd \<in> dom (ioEvents w)"
  shows "\<exists>w1. watch_event True fd ev w = Inr (if fd = wakeUpFd w then [] else woken ev (the (ioEvents w fd)), w1) \<and> watcher_inv w1
    \<and> wakeUpFd w1 = wakeUpFd w
    \<and> ioEvents w1 = (if fd = wakeUpFd w then ioEvents w else (ioEvents w)(fd := after_event ev (the (ioEvents w fd))))"
proof (cases "fd = wakeUpFd w")
  case True
  then show ?thesis using assms(1) by (auto simp: watch_event_wake)
next
  case False
  obtain e where e: "ioEvents w fd = Some e" using assms(2) by blast
  then show ?thesis using watch_event_spec [OF assms(1) e False, of ev] False by (auto simp: woken_def)
qed

lemma watch_events_exact:
  assumes "watcher_inv w" and "distinct (map fst evs)" and "set (map fst evs) \<subseteq> dom (ioEvents w)"
  shows "\<exists>w'. watch_events active (map (\<lambda>(fd, ev). (fd, ev, True)) evs) w =
      Inr (active @ concat (map (\<lambda>(fd, ev). if fd = wakeUpFd w then [] else woken ev (the (ioEvents w fd))) evs), w')
    \<and> watcher_inv w' \<and> wakeUpFd w' = wakeUpFd w
    \<and> ioEvents w' = (\<lambda>fd. case map_of evs fd of None \<Rightarrow> ioEvents w fd
         | Some ev \<Rightarrow> if fd = wakeUpFd w then ioEvents w fd else after_event ev (the (ioEvents w fd)))"
  using assms
proof (induction evs arbitrary: active w)
  case Nil
  then show ?case by simp
next
  case (Cons x evs)
  obtain fd ev where x: "x = (fd, ev)" by (cases x)
  define active1 where "active1 = (if fd = wakeUpFd w then [] else woken ev (the (ioEvents w fd)))"
  obtain w1 where w1: "watch_event True fd ev w = Inr (active1, w1)" "watcher_inv w1" "wakeUpFd w1 = wakeUpFd w"
      "ioEvents w1 = (if fd = wakeUpFd w then ioEvents w
                      else (ioEvents w)(fd := after_event ev (the (ioEvents w fd))))"
    using watch_event_any [OF Cons.prems(1), of fd ev] Cons.prems(3) unfolding active1_def by (auto simp: x)
  have fd: "fd \<notin> fst ` set evs" using Cons.prems(2) by (simp add: x)
  have same: "ioEvents w1 k = ioEvents w k" if "k \<in> fst ` set evs" for k
    using w1(4) fd that by (auto simp: fun_upd_other)
  then have "set (map fst evs) \<subseteq> dom (ioEvents w1)"
    using Cons.prems(3) by (simp add: x dom_def subset_iff)
  from Cons.IH [OF w1(2) _ this, of "active @ active1"] Cons.prems(2) obtain w' where w':
      "watch_events (active @ active1) (map (\<lambda>(fd, ev). (fd, ev, True)) evs) w1 = Inr ((active @ active1)
          @ concat (map (\<lambda>(fd, ev). if fd = wakeUpFd w1 then [] else woken ev (the (ioEvents w1 fd))) evs), w')"
      "watcher_inv w'" "wakeUpFd w' = wakeUpFd w1"
      "ioEvents w' = (\<lambda>fd. case map_of evs fd of None \<Rightarrow> ioEvents w1 fd
         | Some ev \<Rightarrow> if fd = wakeUpFd w1 then ioEvents w1 fd else after_event ev (the (ioEvents w1 fd)))"
    by (auto simp: x)
  have outs: "map (\<lambda>(fd, ev). if fd = wakeUpFd w1 then [] else woken ev (the (ioEvents w1 fd))) evs
      = map (\<lambda>(fd, ev). if fd = wakeUpFd w then [] else woken ev (the (ioEvents w fd))) evs"
  proof (rule map_cong [OF refl])
    fix y
    assume "y \<in> set evs"
    then have "ioEvents w1 (fst y) = ioEvents w (fst y)" by (intro same) simp
    then show "(case y of (fd, ev) \<Rightarrow> if fd = wakeUpFd w1 then [] else woken ev (the (ioEvents w1 fd)))
        = (case y of (fd, ev) \<Rightarrow> if fd = wakeUpFd w then [] else woken ev (the (ioEvents w fd)))"
      using w1(3) by (cases y) simp
  qed
  have none: "map_of evs fd = None" using fd by (simp add: map_of_eq_None_iff)
  have some: "map_of evs k = Some v \<Longrightarrow> ioEvents w1 k = ioEvents w k" for k v
    using same [of k] by (simp add: map_of_eq_Some_iff dom_map_of_conv_image_fst [symmetric] domI)
  have "watch_events active (map (\<lambda>(fd, ev). (fd, ev, True)) (x # evs)) w
      = Inr (active @ concat (map (\<lambda>(fd, ev). if fd = wakeUpFd w then [] else woken ev (the (ioEvents w fd))) (x # evs)), w')"
    using w1(1) w'(1) unfolding outs by (simp add: x active1_def)
  moreover have "ioEvents w' = (\<lambda>fd. case map_of (x # evs) fd of None \<Rightarrow> ioEvents w fd
         | Some ev \<Rightarrow> if fd = wakeUpFd w then ioEvents w fd else after_event ev (the (ioEvents w fd)))"
  proof
    fix k
    show "ioEvents w' k = (case map_of (x # evs) k of None \<Rightarrow> ioEvents w k
         | Some ev \<Rightarrow> if k = wakeUpFd w then ioEvents w k else after_event ev (the (ioEvents w k)))"
    proof (cases "k = fd")
      case True
      then show ?thesis unfolding w'(4) using none w1(3,4) by (simp add: x)
    next
      case False
      then show ?thesis unfolding w'(4) using some [of k] w1(3,4) by (auto simp: x split: option.splits)
    qed
  qed
  ultimately show ?case using w'(2,3) w1(3) by simp
qed

section \<open>Properties\<close>

text \<open>C24: whatever listening, stopping and polling operations run on a fresh watcher (none of
  them naming its own wake-up descriptor, every \<open>epoll_ctl\<close> succeeding), as long as no assertion
  stops them: each \<open>epoll_ctl\<close> was legal (ADD of an absent descriptor, MOD and DEL of a present
  one), the kernel watches exactly the flags of the table, entries are filed under their own
  descriptor, and the wake-up descriptor stays registered.\<close>

theorem watcher_mirrors_kernel:
  assumes "IoWatcher_init wfd True = Inr w" and "\<forall>a \<in> set as. op_fd a \<noteq> Some wfd"
    and "watcher_steps as w = Inr w'"
  shows "watcher_inv w'"
  using inv_IoWatcher_init [OF assms(1)] inv_watcher_steps [of w as w'] assms(2,3) by auto

definition demo_watcher :: "nat IoWatcher" where
  "demo_watcher = \<lparr>wakeUpFd = 4,
     ioEvents = [4 \<mapsto> \<lparr>ev_fd = 4, events = EPOLLIN, readHandle = None, writeHandle = None\<rparr>],
     epollEvents_size = 16, calls = [\<lparr>c_op = CTL_ADD, c_fd = 4, c_events = EPOLLIN, c_ok = True\<rparr>]\<rparr>"

lemma demo_watcher_init: "IoWatcher_init 4 True = Inr demo_watcher"
  by (simp add: IoWatcher_init_def demo_watcher_def epoll_ctl_def set_ioEvent_def noIoEvent_def)

theorem watcher_mirrors_kernel_witness:
  "\<exists>w'. watcher_steps [ListenRead 7 (Some (1 :: nat)), Watch [(7, EPOLLIN)]] demo_watcher = Inr w' \<and> watcher_inv w'"
proof -
  have "\<exists>w'. watcher_steps [ListenRead 7 (Some (1 :: nat)), Watch [(7, EPOLLIN)]] demo_watcher = Inr w'"
    by (simp add: ListenReadEvent_def demo_watcher_def WatchIo_def watch_event_def epoll_ctl_def
        set_ioEvent_def noIoEvent_def EPOLLIN_def EPOLLOUT_def EPOLLHUP_def EPOLLERR_def)
  then show ?thesis
    using watcher_mirrors_kernel [OF demo_watcher_init, of "[ListenRead 7 (Some 1), Watch [(7, EPOLLIN)]]"] by auto
qed

text \<open>C36: one \<open>WatchIo\<close> resumes, in the order of the reports, the reader of every descriptor
  reported readable or hung up and the writer of every one reported writable, and takes both out
  of the table, so that a handle is resumed at most once; descriptors that were not reported
  keep their handles.\<close>

theorem WatchIo_exact:
  assumes "watcher_inv w" and "distinct (map fst evs)" and "set (map fst evs) \<subseteq> dom (ioEvents w)"
  shows "\<exists>w'. WatchIo (map (\<lambda>(fd, ev). (fd, ev, True)) evs) w =
      Inr (concat (map (\<lambda>(fd, ev). if fd = wakeUpFd w then [] else woken ev (the (ioEvents w fd))) evs), w')
    \<and> watcher_inv w'
    \<and> ioEvents w' = (\<lambda>fd. case map_of evs fd of None \<Rightarrow> ioEvents w fd
         | Some ev \<Rightarrow> if fd = wakeUpFd w then ioEvents w fd else after_event ev (the (ioEvents w fd)))"
  using watch_events_exact [OF assms, of "[]"] by (auto simp: WatchIo_def)

theorem WatchIo_exact_witness:
  "\<exists>w'. WatchIo [(4, EPOLLIN, True)] demo_watcher = Inr ([], w')"
  using WatchIo_exact [of demo_watcher "[(4, EPOLLIN)]"] inv_IoWatcher_init [OF demo_watcher_init]
  by (auto simp: demo_watcher_def)

text \<open>A coroutine that waits to read a descriptor on which another one already waits to write
  is lost: \<open>ListenReadEvent\<close> does not add \<open>EPOLLIN\<close> to the existing entry, and when the write
  event fires the entry is deleted with the reader in it; the reader was not resumed and the
  kernel no longer watches the descriptor.\<close>

theorem reader_behind_writer_is_lost:
  assumes "ioEvents w fd = None" and "fd \<noteq> wakeUpFd w"
  shows "\<exists>w1 w2 w3. ListenWriteEvent True fd (Some hw) w = Inr w1 \<and> ListenReadEvent True fd (Some hr) w1 = Inr w2
    \<and> interest (calls w2) fd = Some (EPOLLOUT OR EPOLLET) \<and> EPOLLIN AND (EPOLLOUT OR EPOLLET) = 0
    \<and> WatchIo [(fd, EPOLLOUT, True)] w2 = Inr ([Some hw], w3)
    \<and> ioEvents w3 fd = None \<and> interest (calls w3) fd = None"
  using assms
  by (simp add: ListenWriteEvent_def ListenReadEvent_def WatchIo_def watch_event_def StopListeningWriteEvent_def
      ioEvent_ref_def noIoEvent_def epoll_ctl_def set_ioEvent_def erase_ioEvent_def Let_def interest_def
      ctl_effect_def EPOLLIN_def EPOLLOUT_def EPOLLHUP_def EPOLLERR_def EPOLLET_def)

theorem reader_behind_writer_is_lost_witness:
  "\<exists>w1 w2 w3. ListenWriteEvent True 7 (Some 1) demo_watcher = Inr w1 \<and> ListenReadEvent True 7 (Some 2) w1 = Inr w2
     \<and> WatchIo [(7, EPOLLOUT, True)] w2 = Inr ([Some 1], w3) \<and> ioEvents w3 7 = None"
  using reader_behind_writer_is_lost [of demo_watcher 7 1 2] by (auto simp: demo_watcher_def)

end
