(* ===== verification/IoService.thy ===== *)
theory IoService
  imports Timer IoWatcher
begin

text \<open>
  \<open>cold/coro/IoService.{h,cpp}\<close> and \<open>cold/coro/IoServicePool.{h,cpp}\<close>: the event loop and the
  pool that hands loops out.

  \<^item> A coroutine handle is a number; a \<open>Task<>\<close> is the handle of its frame. What a coroutine does
    when it is resumed is user code: the parameter \<open>resume\<close>, which may change the whole state.
    \<open>WrapTask\<close> makes a new coroutine around a task: the parameter \<open>wrap\<close>.
  \<^item> One round of the loop of \<open>Start\<close> is \<open>run_once\<close>, with the time \<open>Time::Now()\<close> it reads and the
    events \<open>epoll_wait\<close> reports as arguments. The mutexes make every entry point atomic, so calls
    from other threads are steps between rounds.
  \<^item> \<open>resumed\<close> is a ghost: the handles the loop has resumed, in order.
\<close>

section \<open>The service\<close>

record io_service =
  running :: bool
  ioWatcher :: "nat IoWatcher"
  timerQueue :: "nat TimerQueue"
  pendingTasks :: "nat list"
  awaitCompletionTasks :: "nat set"
  completionTasks :: "nat list"
  resumed :: "nat list"

definition resume_handle :: "(nat \<Rightarrow> io_service \<Rightarrow> io_service) \<Rightarrow> nat \<Rightarrow> io_service \<Rightarrow> io_service" where
  "resume_handle resume h s = resume h (s\<lparr>resumed := resumed s @ [h]\<rparr>)"

definition AddTask :: "nat \<Rightarrow> io_service \<Rightarrow> io_service" where
  "AddTask co s = s\<lparr>pendingTasks := pendingTasks s @ [co]\<rparr>"

definition CoSpawn :: "(nat \<Rightarrow> nat) \<Rightarrow> nat \<Rightarrow> io_service \<Rightarrow> io_service" where
  "CoSpawn wrap co s = AddTask (wrap co) s"

definition Service_AddTimer :: "nat Timer \<Rightarrow> io_service \<Rightarrow> io_service \<times> nat Timer \<times> bool" where
  "Service_AddTimer timer s =
     (let (q, timer', err) = AddTimer timer (timerQueue s) in (s\<lparr>timerQueue := q\<rparr>, timer', err))"

definition Service_UpdateTimer :: "nat Timer \<Rightarrow> io_service \<Rightarrow> io_service result" where
  "Service_UpdateTimer timer s =
     bind_result (UpdateTimer timer (timerQueue s)) (\<lambda>q. Inr (s\<lparr>timerQueue := q\<rparr>))"

definition Service_CancelTimer :: "nat Timer \<Rightarrow> io_service \<Rightarrow> io_service result" where
  "Service_CancelTimer timer s =
     bind_result (CancelTimer timer (timerQueue s)) (\<lambda>q. Inr (s\<lparr>timerQueue := q\<rparr>))"

text \<open>\<open>TaskCompletionAwaitable::await_suspend\<close>.\<close>

definition task_completed :: "nat \<Rightarrow> io_service \<Rightarrow> io_service" where
  "task_completed h s = s\<lparr>completionTasks := completionTasks s @ [h]\<rparr>"

text \<open>Starting the tasks of one batch: each is owned by \<open>awaitCompletionTasks_\<close> before it runs.\<close>

definition start_task :: "(nat \<Rightarrow> io_service \<Rightarrow> io_service) \<Rightarrow> nat \<Rightarrow> io_service \<Rightarrow> io_service" where
  "start_task resume h s =
     resume_handle resume h (s\<lparr>awaitCompletionTasks := insert h (awaitCompletionTasks s)\<rparr>)"

definition run_pending :: "(nat \<Rightarrow> io_service \<Rightarrow> io_service) \<Rightarrow> io_service \<Rightarrow> io_service" where
  "run_pending resume s = fold (start_task resume) (pendingTasks s) (s\<lparr>pendingTasks := []\<rparr>)"

definition run_timers ::
    "(nat \<Rightarrow> io_service \<Rightarrow> io_service) \<Rightarrow> (nat \<Rightarrow> nat) \<Rightarrow> int \<Rightarrow> io_service \<Rightarrow> (int \<times> io_service) result" where
  "run_timers resume wrap now s =
     bind_result (HandleTimeout now (timerQueue s)) (\<lambda>(tasks, waitTime, q).
       if None \<in> set tasks then Inl AssertFail
       else Inr (waitTime, fold (start_task resume) (map (wrap \<circ> the) tasks) (s\<lparr>timerQueue := q\<rparr>)))"

text \<open>\<open>WatchIo\<close> and the resumption of what it returns; resuming \<open>noop_coroutine\<close> does nothing.\<close>

definition run_io ::
    "(nat \<Rightarrow> io_service \<Rightarrow> io_service) \<Rightarrow> (int \<times> flags \<times> bool) list \<Rightarrow> io_service \<Rightarrow> io_service result" where
  "run_io resume evs s =
     bind_result (WatchIo evs (ioWatcher s)) (\<lambda>(activeCoros, w).
       Inr (fold (\<lambda>coro s. case coro of None \<Rightarrow> s | Some h \<Rightarrow> resume_handle resume h s)
              activeCoros (s\<lparr>ioWatcher := w\<rparr>)))"

definition clear_completed :: "io_service \<Rightarrow> io_service" where
  "clear_completed s =
     s\<lparr>awaitCompletionTasks := awaitCompletionTasks s - set (completionTasks s), completionTasks := []\<rparr>"

definition run_once ::
    "(nat \<Rightarrow> io_service \<Rightarrow> io_service) \<Rightarrow> (nat \<Rightarrow> nat) \<Rightarrow> int \<Rightarrow> (int \<Rightarrow> (int \<times> flags \<times> bool) list)
     \<Rightarrow> io_service \<Rightarrow> io_service result" where
  "run_once resume wrap now epoll_wait s =
     bind_result (run_timers resume wrap now (run_pending resume s)) (\<lambda>(waitTime, s1).
     bind_result (run_io resume (epoll_wait waitTime) s1) (\<lambda>s2.
       Inr (clear_completed s2)))"

section \<open>The pool\<close>

record 's IoServicePool =
  mainIoService :: 's
  serviceVector :: "'s list"
  index :: nat

definition IoServicePool_init :: "'s \<Rightarrow> 's list \<Rightarrow> 's IoServicePool" where
  "IoServicePool_init main services = \<lparr>mainIoService = main, serviceVector = services, index = 0\<rparr>"

definition GetNextIoService :: "'s IoServicePool \<Rightarrow> 's \<times> 's IoServicePool" where
  "GetNextIoService p =
     (if serviceVector p = [] then (mainIoService p, p)
      else let i = (if length (serviceVector p) \<le> index p then 0 else index p)
           in (serviceVector p ! i, p\<lparr>index := i + 1\<rparr>))"

definition GetIoServiceForHash :: "nat \<Rightarrow> 's IoServicePool \<Rightarrow> 's" where
  "GetIoServiceForHash hashCode p =
     (if serviceVector p = [] then mainIoService p
      else serviceVector p ! (hashCode mod length (serviceVector p)))"

text \<open>\<open>k\<close> calls in a row.\<close>

fun next_services :: "nat \<Rightarrow> 's IoServicePool \<Rightarrow> 's list" where
  "next_services 0 p = []"
| "next_services (Suc k) p = (case GetNextIoService p of (s, p') \<Rightarrow> s # next_services k p')"

section \<open>Lemmas\<close>

text \<open>User code cannot touch the ghost.\<close>

definition ghost_free :: "(nat \<Rightarrow> io_service \<Rightarrow> io_service) \<Rightarrow> bool" where
  "ghost_free resume \<longleftrightarrow> (\<forall>h s. resumed (resume h s) = resumed s)"

lemma resumed_start_task:
  "ghost_free resume \<Longrightarrow> resumed (fold (start_task resume) hs s) = resumed s @ hs"
  by (induction hs arbitrary: s) (simp_all add: start_task_def resume_handle_def ghost_free_def)

lemma resumed_io:
  "ghost_free resume \<Longrightarrow>
   resumed (fold (\<lambda>coro s. case coro of None \<Rightarrow> s | Some h \<Rightarrow> resume_handle resume h s) cs s)
     = resumed s @ map the (filter (\<lambda>c. c \<noteq> None) cs)"
  by (induction cs arbitrary: s) (auto simp: resume_handle_def ghost_free_def)

lemma run_once_resumed:
  assumes g: "ghost_free resume" and run: "run_once resume wrap now epoll_wait s = Inr s'"
  shows "\<exists>tasks waitTime q s1 active w. HandleTimeout now (timerQueue (run_pending resume s)) = Inr (tasks, waitTime, q)
     \<and> run_timers resume wrap now (run_pending resume s) = Inr (waitTime, s1)
     \<and> WatchIo (epoll_wait waitTime) (ioWatcher s1) = Inr (active, w)
     \<and> resumed s' = resumed s @ pendingTasks s @ map (wrap \<circ> the) tasks @ map the (filter (\<lambda>c. c \<noteq> None) active)"
proof -
  obtain waitTime s1 s2 where r: "run_timers resume wrap now (run_pending resume s) = Inr (waitTime, s1)"
      "run_io resume (epoll_wait waitTime) s1 = Inr s2" "s' = clear_completed s2"
    using run by (auto simp: run_once_def bind_result_eq_Inr)
  obtain tasks q where t: "HandleTimeout now (timerQueue (run_pending resume s)) = Inr (tasks, waitTime, q)"
      "s1 = fold (start_task resume) (map (wrap \<circ> the) tasks) ((run_pending resume s)\<lparr>timerQueue := q\<rparr>)"
    using r(1) by (auto simp: run_timers_def bind_result_eq_Inr split: if_splits)
  obtain active w where a: "WatchIo (epoll_wait waitTime) (ioWatcher s1) = Inr (active, w)"
      "s2 = fold (\<lambda>coro s. case coro of None \<Rightarrow> s | Some h \<Rightarrow> resume_handle resume h s) active (s1\<lparr>ioWatcher := w\<rparr>)"
    using r(2) by (auto simp: run_io_def bind_result_eq_Inr)
  have "resumed s' = resumed s @ pendingTasks s @ map (wrap \<circ> the) tasks @ map the (filter (\<lambda>c. c \<noteq> None) active)"
    by (simp add: r(3) a(2) t(2) clear_completed_def run_pending_def resumed_io [OF g] resumed_start_task [OF g])
  then show ?thesis using r t a by blast
qed

lemma next_services_from:
  "serviceVector p \<noteq> [] \<Longrightarrow> index p \<le> length (serviceVector p) \<Longrightarrow>
   next_services k p = map (\<lambda>i. serviceVector p ! ((index p + i) mod length (serviceVector p))) [0..<k]"
proof (induction k arbitrary: p)
  case (Suc k)
  define n where "n = length (serviceVector p)"
  define i where "i = (if n \<le> index p then 0 else index p)"
  have n: "0 < n" using Suc.prems by (simp add: n_def)
  then have i: "i < n" "index p mod n = i"
    using Suc.prems(2) by (auto simp: i_def n_def [symmetric] le_antisym)
  have step: "GetNextIoService p = (serviceVector p ! i, p\<lparr>index := i + 1\<rparr>)"
    using Suc.prems by (simp add: GetNextIoService_def Let_def i_def n_def)
  have "(i + 1 + j) mod n = (index p + Suc j) mod n" for j
    using mod_add_left_eq [of "index p" n "Suc j"] by (simp add: i(2))
  then have "next_services k (p\<lparr>index := i + 1\<rparr>) = map (\<lambda>j. serviceVector p ! ((index p + Suc j) mod n)) [0..<k]"
    using Suc.IH [of "p\<lparr>index := i + 1\<rparr>"] Suc.prems i(1) by (simp add: n_def)
  then have "next_services (Suc k) p = map (\<lambda>j. serviceVector p ! ((index p + j) mod n)) (0 # map Suc [0..<k])"
    using i(2) step by simp
  then show ?case by (simp only: map_Suc_upt upt_conv_Cons zero_less_Suc n_def)
qed simp

section \<open>Properties\<close>

text \<open>One round of the event loop resumes first the tasks that were pending when it began, in
  the order they were spawned, then the tasks of the timers that are due at \<open>now\<close>, then the
  coroutines whose descriptors are ready; each exactly once, and nothing else.\<close>

theorem run_once_order:
  assumes "ghost_free resume" and "run_once resume wrap now epoll_wait s = Inr s'"
  shows "\<exists>tasks waitTime q s1 active w. HandleTimeout now (timerQueue (run_pending resume s)) = Inr (tasks, waitTime, q)
     \<and> run_timers resume wrap now (run_pending resume s) = Inr (waitTime, s1)
     \<and> WatchIo (epoll_wait waitTime) (ioWatcher s1) = Inr (active, w)
     \<and> resumed s' = resumed s @ pendingTasks s @ map (wrap \<circ> the) tasks @ map the (filter (\<lambda>c. c \<noteq> None) active)"
  using assms by (rule run_once_resumed)

definition demo_service :: io_service where
  "demo_service = \<lparr>running = True, ioWatcher = demo_watcher, timerQueue = empty_queue, pendingTasks = [11, 12],
     awaitCompletionTasks = {}, completionTasks = [], resumed = []\<rparr>"

lemma demo_service_round:
  "\<exists>s'. run_once (\<lambda>h. task_completed h) Suc 0 (\<lambda>_. []) demo_service = Inr s'"
  by (simp add: run_once_def run_timers_def run_pending_def demo_service_def HandleTimeout_def empty_queue_def
      timeout_loop.simps run_io_def WatchIo_def start_task_def resume_handle_def task_completed_def
      demo_watcher_def)

theorem run_once_order_witness:
  "\<exists>s' xs. run_once (\<lambda>h. task_completed h) Suc 0 (\<lambda>_. []) demo_service = Inr s' \<and> resumed s' = [11, 12] @ xs"
proof -
  obtain s' where "run_once (\<lambda>h. task_completed h) Suc 0 (\<lambda>_. []) demo_service = Inr s'"
    using demo_service_round by blast
  moreover have "ghost_free (\<lambda>h. task_completed h)" by (simp add: ghost_free_def task_completed_def)
  ultimately show ?thesis
    using run_once_order [of "\<lambda>h. task_completed h" Suc 0 "\<lambda>_. []" demo_service s'] by (auto simp: demo_service_def)
qed

text \<open>\<open>GetNextIoService\<close> is a fair round robin: from a new pool the k-th call returns the
  service number k modulo the size of the pool, and an empty pool always returns the main one.\<close>

theorem pool_round_robin:
  "next_services k (IoServicePool_init main services) =
     (if services = [] then replicate k main else map (\<lambda>i. services ! (i mod length services)) [0..<k])"
proof (cases "services = []")
  case True
  then show ?thesis
    by (induction k) (simp_all add: IoServicePool_init_def GetNextIoService_def)
next
  case False
  then show ?thesis using next_services_from [of "IoServicePool_init main services" k] by (simp add: IoServicePool_init_def)
qed

end
