(* ===== verification/IpAddress.thy ===== *)
theory IpAddress
  imports Endian
begin

text \<open>
  \<open>cold/net/IpAddress.{h,cpp}\<close>. The union of \<open>sockaddr_in\<close> and \<open>sockaddr_in6\<close> is a datatype with the
  fields of both in network byte order; the family and the port lie at the same offset in both members,
  so reading them through the other member reads the same bytes. \<open>inet_pton\<close>, \<open>inet_ntop\<close> and
  \<open>getaddrinfo\<close> are parameters.
\<close>

datatype IpAddress =
    Ipv4 (sin_port: "16 word") (s_addr: "32 word")
  | Ipv6 (sin_port: "16 word") (sin6_addr: "byte list") (sin6_scope_id: "32 word")

definition INADDR_LOOPBACK :: "32 word" where "INADDR_LOOPBACK = 0x7F000001"
definition INADDR_ANY :: "32 word" where "INADDR_ANY = 0"
definition in6addr_any :: "byte list" where "in6addr_any = replicate 16 0"
definition in6addr_loopback :: "byte list" where "in6addr_loopback = replicate 15 0 @ [1]"

definition IsIpv4 :: "IpAddress \<Rightarrow> bool" where
  "IsIpv4 a = (case a of Ipv4 p s \<Rightarrow> True | Ipv6 p s i \<Rightarrow> False)"

definition IsIpv6 :: "IpAddress \<Rightarrow> bool" where
  "IsIpv6 a = (case a of Ipv4 p s \<Rightarrow> False | Ipv6 p s i \<Rightarrow> True)"

text \<open>The constructor from text: \<open>pton4\<close> and \<open>pton6\<close> give the bytes, or \<open>None\<close>, which fails the assertion.\<close>

definition IpAddress_parse ::
    "(string \<Rightarrow> 32 word option) \<Rightarrow> (string \<Rightarrow> byte list option) \<Rightarrow> string \<Rightarrow> 16 word \<Rightarrow> bool \<Rightarrow> IpAddress result" where
  "IpAddress_parse pton4 pton6 address port ipv6 =
     (if ipv6 then case pton6 address of None \<Rightarrow> Inl AssertFail
          | Some bs \<Rightarrow> Inr (Ipv6 (Host16ToNetwork16 port) bs 0)
      else case pton4 address of None \<Rightarrow> Inl AssertFail
          | Some w \<Rightarrow> Inr (Ipv4 (Host16ToNetwork16 port) w))"

definition IpAddress_port :: "16 word \<Rightarrow> bool \<Rightarrow> bool \<Rightarrow> IpAddress" where
  "IpAddress_port port loopback ipv6 =
     (if ipv6 then Ipv6 (Host16ToNetwork16 port) (if loopback then in6addr_loopback else in6addr_any) 0
      else Ipv4 (Host16ToNetwork16 port) (if loopback then Host32ToNetwork32 INADDR_LOOPBACK else INADDR_ANY))"

definition IpAddress_default :: IpAddress where
  "IpAddress_default = IpAddress_port 0 False False"

definition SetScopeId :: "32 word \<Rightarrow> IpAddress \<Rightarrow> IpAddress" where
  "SetScopeId scope_id a = (case a of Ipv6 p s i \<Rightarrow> Ipv6 p s scope_id | Ipv4 p s \<Rightarrow> a)"

definition GetIp :: "(32 word \<Rightarrow> string) \<Rightarrow> (byte list \<Rightarrow> string) \<Rightarrow> IpAddress \<Rightarrow> string" where
  "GetIp ntop4 ntop6 a = (case a of Ipv4 p s \<Rightarrow> ntop4 s | Ipv6 p s i \<Rightarrow> ''['' @ ntop6 s @ '']'')"

definition GetPort :: "IpAddress \<Rightarrow> 16 word" where
  "GetPort a = Network16ToHost16 (sin_port a)"

definition GetIpPort :: "(32 word \<Rightarrow> string) \<Rightarrow> (byte list \<Rightarrow> string) \<Rightarrow> IpAddress \<Rightarrow> string" where
  "GetIpPort ntop4 ntop6 a = GetIp ntop4 ntop6 a @ '':'' @ show_nat (unat (GetPort a))"

text \<open>\<open>getaddrinfo\<close> with the family in the hints: the first address of its list, or its error.\<close>

definition Resolve ::
    "(string \<Rightarrow> string option \<Rightarrow> bool \<Rightarrow> IpAddress list option) \<Rightarrow> string \<Rightarrow> string option \<Rightarrow> bool \<Rightarrow> IpAddress option result" where
  "Resolve getaddrinfo hostname service ipv6 =
     (case getaddrinfo hostname service ipv6 of
        None \<Rightarrow> Inr None
      | Some [] \<Rightarrow> Inl AssertFail
      | Some (a # _) \<Rightarrow> Inr (Some a))"

lemma GetPort_port [simp]: "GetPort (IpAddress_port port loopback ipv6) = port"
  by (simp add: GetPort_def IpAddress_port_def network_host_inverse)

lemma GetPort_scope [simp]: "GetPort (SetScopeId i a) = GetPort a"
  by (cases a) (simp_all add: GetPort_def SetScopeId_def)

lemma family_port [simp]:
  "IsIpv6 (IpAddress_port port loopback ipv6) = ipv6" "IsIpv4 (IpAddress_port port loopback ipv6) = (\<not> ipv6)"
  by (simp_all add: IsIpv4_def IsIpv6_def IpAddress_port_def)

text \<open>The last colon separates the port: reading back the text of an address.\<close>

definition split_port :: "string \<Rightarrow> (string \<times> nat) option" where
  "split_port s = (case str_rfind s (CHR '':'') of None \<Rightarrow> None
     | Some i \<Rightarrow> Some (take i s, fst (read_digits 0 (drop (Suc i) s))))"

lemma digits_no_colon: "CHR '':'' \<notin> set (show_nat n)"
  using show_nat_digits [of n] by (auto simp: list_all_iff is_digit_char_def)

lemma GetIpPort_split: "split_port (GetIpPort ntop4 ntop6 a) = Some (GetIp ntop4 ntop6 a, unat (GetPort a))"
proof -
  have "str_rfind (GetIp ntop4 ntop6 a @ CHR '':'' # show_nat (unat (GetPort a))) (CHR '':'') = Some (length (GetIp ntop4 ntop6 a))"
    using digits_no_colon [of "unat (GetPort a)"] by (simp add: str_rfind_append str_rfind_None)
  then show ?thesis by (simp add: split_port_def GetIpPort_def read_show_nat)
qed

text \<open>An address survives its text form. When \<open>inet_pton\<close> reads what \<open>inet_ntop\<close> printed, splitting
  \<open>GetIpPort\<close> at its last colon and constructing an address from the two parts (the brackets of IPv6
  taken off) gives back an address without scope; the port survives the two byte-order conversions.\<close>

theorem address_text_roundtrip:
  assumes "\<And>w. pton4 (ntop4 w) = Some w" "\<And>bs. pton6 (ntop6 bs) = Some bs"
    and "\<And>p s i. a = Ipv6 p s i \<Longrightarrow> i = 0"
  shows "\<exists>ip port. split_port (GetIpPort ntop4 ntop6 a) = Some (ip, port)
     \<and> IpAddress_parse pton4 pton6 (if IsIpv6 a then butlast (tl ip) else ip) (of_nat port) (IsIpv6 a) = Inr a"
proof (cases a)
  case (Ipv4 p s)
  then show ?thesis
    using assms by (simp add: GetIpPort_split GetIp_def GetPort_def IsIpv6_def IpAddress_parse_def network_host_inverse)
next
  case (Ipv6 p s i)
  then show ?thesis
    using assms by (simp add: GetIpPort_split GetIp_def GetPort_def IsIpv6_def IpAddress_parse_def network_host_inverse)
qed

text \<open>Every scope-less address of either family can be resolved, bound and printed; the error text of a failed
  \<open>Resolve\<close> is that of \<open>errno\<close>, not of the returned code, and is not part of the result.\<close>

lemma Resolve_result:
  "Resolve gai h s v6 = Inr (Some a) \<longleftrightarrow> (\<exists>rest. gai h s v6 = Some (a # rest))"
  "Resolve gai h s v6 = Inr None \<longleftrightarrow> gai h s v6 = None"
  by (auto simp: Resolve_def split: option.splits list.splits)

end
