(* ===== verification/Lock.thy ===== *)
theory Lock
  imports Prelude
begin

text \<open>
  \<open>cold/thread/Lock.h\<close>: the locks, as one thread sees them, and the guards.

  \<^item> The calling thread is a number, an argument of every operation. Taking a lock returns \<open>Inr None\<close> when the
    thread has to wait; waiting for oneself is \<open>Inl Deadlock\<close>, releasing a lock one does not hold \<open>Inl Undefined\<close>.
  \<^item> The guards are templates over the lock: their operations take those of the lock. A guard is its flag
    \<open>locked_\<close>, its \<open>T \<^verbatim>\<open>&\<close>lock_\<close> is the state the operations pass on.
  \<^item> The thread safety attributes are compile-time annotations and not modelled.
\<close>

section \<open>Locks\<close>

type_synonym Mutex = "nat option"

definition Mutex_Lock :: "nat \<Rightarrow> Mutex \<Rightarrow> Mutex option result" where
  "Mutex_Lock t m = (case m of None \<Rightarrow> Inr (Some (Some t)) | Some o' \<Rightarrow> if o' = t then Inl Deadlock else Inr None)"

definition Mutex_Unlock :: "nat \<Rightarrow> Mutex \<Rightarrow> Mutex result" where
  "Mutex_Unlock t m = (if m = Some t then Inr None else Inl Undefined)"

definition Mutex_Trylock :: "nat \<Rightarrow> Mutex \<Rightarrow> bool \<times> Mutex" where
  "Mutex_Trylock t m = (if m = None then (True, Some t) else (False, m))"

type_synonym SpinLock = "nat option"

definition SpinLock_Lock :: "nat \<Rightarrow> SpinLock \<Rightarrow> SpinLock option result" where
  "SpinLock_Lock t m = (case m of None \<Rightarrow> Inr (Some (Some t)) | Some o' \<Rightarrow> if o' = t then Inl Deadlock else Inr None)"

definition SpinLock_Unlock :: "nat \<Rightarrow> SpinLock \<Rightarrow> SpinLock result" where
  "SpinLock_Unlock t m = (if m = Some t then Inr None else Inl Undefined)"

definition SpinLock_Trylock :: "nat \<Rightarrow> SpinLock \<Rightarrow> bool \<times> SpinLock" where
  "SpinLock_Trylock t m = (if m = None then (True, Some t) else (False, m))"

text \<open>\<open>SharedMutex\<close>: the writer, and the threads that read, each once for every lock it holds.\<close>

record SharedMutex =
  rw_writer :: "nat option"
  readers :: "nat list"

definition Shared_Lock :: "nat \<Rightarrow> SharedMutex \<Rightarrow> SharedMutex option result" where
  "Shared_Lock t m =
     (if rw_writer m = None \<and> readers m = [] then Inr (Some (m\<lparr>rw_writer := Some t\<rparr>))
      else if rw_writer m = Some t \<or> t \<in> set (readers m) then Inl Deadlock else Inr None)"

definition Shared_Unlock :: "nat \<Rightarrow> SharedMutex \<Rightarrow> SharedMutex result" where
  "Shared_Unlock t m = (if rw_writer m = Some t then Inr (m\<lparr>rw_writer := None\<rparr>)
     else if t \<in> set (readers m) then Inr (m\<lparr>readers := remove1 t (readers m)\<rparr>) else Inl Undefined)"

definition Shared_Trylock :: "nat \<Rightarrow> SharedMutex \<Rightarrow> bool \<times> SharedMutex" where
  "Shared_Trylock t m = (if rw_writer m = None \<and> readers m = [] then (True, m\<lparr>rw_writer := Some t\<rparr>) else (False, m))"

definition ReaderLock :: "nat \<Rightarrow> SharedMutex \<Rightarrow> SharedMutex option result" where
  "ReaderLock t m = (case rw_writer m of None \<Rightarrow> Inr (Some (m\<lparr>readers := t # readers m\<rparr>))
     | Some o' \<Rightarrow> if o' = t then Inl Deadlock else Inr None)"

definition ReaderUnlock :: "nat \<Rightarrow> SharedMutex \<Rightarrow> SharedMutex result" where
  "ReaderUnlock t m = (if rw_writer m = Some t then Inr (m\<lparr>rw_writer := None\<rparr>)
     else if t \<in> set (readers m) then Inr (m\<lparr>readers := remove1 t (readers m)\<rparr>) else Inl Undefined)"

definition ReaderTryLock :: "nat \<Rightarrow> SharedMutex \<Rightarrow> bool \<times> SharedMutex" where
  "ReaderTryLock t m = (if rw_writer m = None then (True, m\<lparr>readers := t # readers m\<rparr>) else (False, m))"

section \<open>Guards\<close>

text \<open>A guard operation: the flag, the lock, and \<open>None\<close> while the thread waits.\<close>

definition LockGuard_new :: "('m \<Rightarrow> 'm option result) \<Rightarrow> 'm \<Rightarrow> (bool \<times> 'm) option result" where
  "LockGuard_new lock m = bind_result (lock m) (\<lambda>r. Inr (map_option (Pair True) r))"

definition LockGuard_adopt :: "'m \<Rightarrow> bool \<times> 'm" where "LockGuard_adopt m = (True, m)"
definition LockGuard_adopt_shared :: "'m \<Rightarrow> bool \<times> 'm" where "LockGuard_adopt_shared m = (True, m)"
definition LockGuard_defer :: "'m \<Rightarrow> bool \<times> 'm" where "LockGuard_defer m = (False, m)"

definition Guard_Lock :: "('m \<Rightarrow> 'm option result) \<Rightarrow> bool \<times> 'm \<Rightarrow> (bool \<times> 'm) option result" where
  "Guard_Lock lock g = bind_result (lock (snd g)) (\<lambda>r. Inr (map_option (Pair True) r))"

definition Guard_Trylock :: "('m \<Rightarrow> bool \<times> 'm) \<Rightarrow> bool \<times> 'm \<Rightarrow> bool \<times> bool \<times> 'm" where
  "Guard_Trylock trylock g = (case trylock (snd g) of (b, m) \<Rightarrow> (b, b, m))"

definition Guard_Unlock :: "('m \<Rightarrow> 'm result) \<Rightarrow> bool \<times> 'm \<Rightarrow> (bool \<times> 'm) result" where
  "Guard_Unlock unlock g = bind_result (unlock (snd g)) (\<lambda>m. Inr (False, m))"

definition Guard_destroy :: "('m \<Rightarrow> 'm result) \<Rightarrow> bool \<times> 'm \<Rightarrow> 'm result" where
  "Guard_destroy unlock g = (if fst g then unlock (snd g) else Inr (snd g))"

definition SharedLockGuard_new :: "nat \<Rightarrow> SharedMutex \<Rightarrow> (bool \<times> SharedMutex) option result" where
  "SharedLockGuard_new t m = bind_result (Shared_Lock t m) (\<lambda>r. Inr (map_option (Pair True) r))"

definition SharedLockGuard_adopt :: "SharedMutex \<Rightarrow> bool \<times> SharedMutex" where "SharedLockGuard_adopt m = (True, m)"
definition SharedLockGuard_adopt_shared :: "SharedMutex \<Rightarrow> bool \<times> SharedMutex" where "SharedLockGuard_adopt_shared m = (True, m)"
definition SharedLockGuard_defer :: "SharedMutex \<Rightarrow> bool \<times> SharedMutex" where "SharedLockGuard_defer m = (False, m)"

definition SharedGuard_Lock :: "nat \<Rightarrow> bool \<times> SharedMutex \<Rightarrow> (bool \<times> SharedMutex) option result" where
  "SharedGuard_Lock t g = bind_result (Shared_Lock t (snd g)) (\<lambda>r. Inr (map_option (Pair True) r))"

definition SharedGuard_Trylock :: "nat \<Rightarrow> bool \<times> SharedMutex \<Rightarrow> bool \<times> bool \<times> SharedMutex" where
  "SharedGuard_Trylock t g = (case Shared_Trylock t (snd g) of (b, m) \<Rightarrow> (b, b, m))"

definition SharedGuard_Unlock :: "nat \<Rightarrow> bool \<times> SharedMutex \<Rightarrow> (bool \<times> SharedMutex) result" where
  "SharedGuard_Unlock t g = bind_result (Shared_Unlock t (snd g)) (\<lambda>m. Inr (False, m))"

text \<open>\<open>SharedLockGuard\<close> unlocks with \<open>SharedMutex::Unlock\<close> also what \<open>ReaderLock\<close> took.\<close>

definition SharedLockGuard_shared :: "nat \<Rightarrow> SharedMutex \<Rightarrow> (bool \<times> SharedMutex) option result" where
  "SharedLockGuard_shared t m = bind_result (ReaderLock t m) (\<lambda>r. Inr (map_option (Pair True) r))"

definition SharedGuard_ReaderLock :: "nat \<Rightarrow> bool \<times> SharedMutex \<Rightarrow> (bool \<times> SharedMutex) option result" where
  "SharedGuard_ReaderLock t g = bind_result (ReaderLock t (snd g)) (\<lambda>r. Inr (map_option (Pair True) r))"

definition SharedGuard_ReaderTryLock :: "nat \<Rightarrow> bool \<times> SharedMutex \<Rightarrow> bool \<times> bool \<times> SharedMutex" where
  "SharedGuard_ReaderTryLock t g = (case ReaderTryLock t (snd g) of (b, m) \<Rightarrow> (b, b, m))"

definition SharedGuard_ReaderUnlock :: "nat \<Rightarrow> bool \<times> SharedMutex \<Rightarrow> (bool \<times> SharedMutex) result" where
  "SharedGuard_ReaderUnlock t g = bind_result (ReaderUnlock t (snd g)) (\<lambda>m. Inr (False, m))"

definition SharedGuard_destroy :: "nat \<Rightarrow> bool \<times> SharedMutex \<Rightarrow> SharedMutex result" where
  "SharedGuard_destroy t g = (if fst g then Shared_Unlock t (snd g) else Inr (snd g))"

section \<open>What a lock promises\<close>

text \<open>For one thread: \<open>mine m\<close> is that it holds the lock once.\<close>

locale lock_unlock =
  fixes lock :: "'m \<Rightarrow> 'm option result"
    and unlock :: "'m \<Rightarrow> 'm result"
    and mine :: "'m \<Rightarrow> bool"
    and free_of_me :: "'m \<Rightarrow> bool"
  assumes lock_takes: "free_of_me m \<Longrightarrow> lock m = Inr (Some m') \<Longrightarrow> mine m' \<and> unlock m' = Inr m"
    and lock_no_error: "free_of_me m \<Longrightarrow> \<exists>r. lock m = Inr r"
    and unlock_frees: "mine m \<Longrightarrow> \<exists>m'. unlock m = Inr m' \<and> free_of_me m'"
begin

text \<open>A scope: the guard is made, the body leaves the lock to its owner, the guard goes. The lock is as it was.\<close>

lemma scope_restores:
  assumes "free_of_me m" "LockGuard_new lock m = Inr (Some g)"
  shows "mine (snd g) \<and> Guard_destroy unlock g = Inr m"
  using assms lock_takes [OF assms(1)] by (auto simp: LockGuard_new_def Guard_destroy_def bind_result_eq_Inr)

lemma guard_scope_no_error: "free_of_me m \<Longrightarrow> \<exists>r. LockGuard_new lock m = Inr r"
  using lock_no_error [of m] by (auto simp: LockGuard_new_def)

end

locale lockable = lock_unlock +
  fixes trylock :: "'m \<Rightarrow> bool \<times> 'm"
  assumes trylock_takes: "free_of_me m \<Longrightarrow> trylock m = (b, m') \<Longrightarrow> (if b then mine m' else m' = m)"
    and trylock_held: "mine m \<Longrightarrow> trylock m = (False, m)"
    and mine_not_free: "mine m \<Longrightarrow> \<not> free_of_me m"
begin

definition guard_ok :: "bool \<times> 'm \<Rightarrow> bool" where
  "guard_ok g \<longleftrightarrow> (if fst g then mine (snd g) else free_of_me (snd g))"

lemma guard_ok_ops:
  "guard_ok g \<Longrightarrow> \<not> fst g \<Longrightarrow> Guard_Lock lock g = Inr (Some g') \<Longrightarrow> guard_ok g' \<and> fst g'"
  "guard_ok g \<Longrightarrow> \<not> fst g \<Longrightarrow> Guard_Trylock trylock g = (b, g') \<Longrightarrow> guard_ok g' \<and> fst g' = b"
  "guard_ok g \<Longrightarrow> fst g \<Longrightarrow> \<exists>g'. Guard_Unlock unlock g = Inr g' \<and> guard_ok g' \<and> \<not> fst g'"
  "guard_ok g \<Longrightarrow> \<exists>m. Guard_destroy unlock g = Inr m \<and> free_of_me m"
proof -
  show "guard_ok g \<Longrightarrow> \<not> fst g \<Longrightarrow> Guard_Lock lock g = Inr (Some g') \<Longrightarrow> guard_ok g' \<and> fst g'"
    using lock_takes by (auto simp: guard_ok_def Guard_Lock_def bind_result_eq_Inr)
  show "guard_ok g \<Longrightarrow> \<not> fst g \<Longrightarrow> Guard_Trylock trylock g = (b, g') \<Longrightarrow> guard_ok g' \<and> fst g' = b"
  proof -
    assume g: "guard_ok g" "\<not> fst g" "Guard_Trylock trylock g = (b, g')"
    obtain c m where t: "trylock (snd g) = (c, m)" by fastforce
    then have "if c then mine m else m = snd g" using trylock_takes [of "snd g" c m] g(1,2) by (simp add: guard_ok_def)
    moreover have "b = c" "g' = (c, m)" using g(3) by (auto simp: Guard_Trylock_def t)
    ultimately show ?thesis using g(1,2) by (simp add: guard_ok_def split: if_splits)
  qed
  show "guard_ok g \<Longrightarrow> fst g \<Longrightarrow> \<exists>g'. Guard_Unlock unlock g = Inr g' \<and> guard_ok g' \<and> \<not> fst g'"
    using unlock_frees [of "snd g"] by (auto simp: guard_ok_def Guard_Unlock_def)
  show "guard_ok g \<Longrightarrow> \<exists>m. Guard_destroy unlock g = Inr m \<and> free_of_me m"
    using unlock_frees [of "snd g"] by (auto simp: guard_ok_def Guard_destroy_def)
qed

text \<open>Trying a lock that the guard already holds fails, and the guard forgets that it holds it.\<close>

lemma trylock_forgets:
  assumes "guard_ok g" "fst g"
  shows "\<exists>g'. Guard_Trylock trylock g = (False, g') \<and> \<not> fst g' \<and> Guard_destroy unlock g' = Inr (snd g) \<and> mine (snd g)"
  using assms trylock_held [of "snd g"] by (simp add: guard_ok_def Guard_Trylock_def Guard_destroy_def)

end

interpretation mutex: lockable "Mutex_Lock t" "Mutex_Unlock t" "\<lambda>m. m = Some t" "\<lambda>m. m \<noteq> Some t" "Mutex_Trylock t" for t
  by unfold_locales (auto simp: Mutex_Lock_def Mutex_Unlock_def Mutex_Trylock_def split: option.splits if_splits)

interpretation spin: lockable "SpinLock_Lock t" "SpinLock_Unlock t" "\<lambda>m. m = Some t" "\<lambda>m. m \<noteq> Some t" "SpinLock_Trylock t" for t
  by unfold_locales (auto simp: SpinLock_Lock_def SpinLock_Unlock_def SpinLock_Trylock_def split: option.splits if_splits)

interpretation writer: lockable "Shared_Lock t" "Shared_Unlock t" "\<lambda>m. rw_writer m = Some t \<and> readers m = []"
    "\<lambda>m. rw_writer m \<noteq> Some t \<and> t \<notin> set (readers m)" "Shared_Trylock t" for t
  by unfold_locales (auto simp: Shared_Lock_def Shared_Unlock_def Shared_Trylock_def split: if_splits)

interpretation reader: lock_unlock "ReaderLock t" "ReaderUnlock t" "\<lambda>m. rw_writer m = None \<and> count_list (readers m) t = 1"
    "\<lambda>m. rw_writer m \<noteq> Some t \<and> t \<notin> set (readers m)" for t
proof
  fix m m' :: SharedMutex
  assume f: "rw_writer m \<noteq> Some t \<and> t \<notin> set (readers m)"
  show "\<exists>r. ReaderLock t m = Inr r" using f by (auto simp: ReaderLock_def split: option.splits)
  assume "ReaderLock t m = Inr (Some m')"
  then have "rw_writer m = None" "m' = m\<lparr>readers := t # readers m\<rparr>" by (auto simp: ReaderLock_def split: option.splits if_splits)
  then show "(rw_writer m' = None \<and> count_list (readers m') t = 1) \<and> ReaderUnlock t m' = Inr m"
    using f by (simp add: ReaderUnlock_def count_list_0_iff)
next
  fix m :: SharedMutex
  assume m: "rw_writer m = None \<and> count_list (readers m) t = 1"
  then have "t \<in> set (readers m)" by (metis count_notin zero_neq_one)
  moreover have "t \<notin> set (remove1 t (readers m))"
  proof -
    obtain ys zs where s: "readers m = ys @ t # zs" "t \<notin> set ys" using calculation by (metis split_list_first)
    then have "t \<notin> set zs" using m by (simp add: count_list_0_iff)
    then show ?thesis using s by (simp add: remove1_append)
  qed
  ultimately show "\<exists>m'. ReaderUnlock t m = Inr m' \<and> rw_writer m' \<noteq> Some t \<and> t \<notin> set (readers m')"
    using m by (simp add: ReaderUnlock_def)
qed

section \<open>Properties\<close>

datatype guard_op = OpLock | OpTrylock | OpUnlock | OpOthers Mutex

text \<open>What a scope does with its guard; between its operations other threads take and release the lock when it is not
  held here.\<close>

fun guard_run :: "nat \<Rightarrow> guard_op list \<Rightarrow> bool \<times> Mutex \<Rightarrow> (bool \<times> Mutex) option result" where
  "guard_run t [] g = Inr (Some g)"
| "guard_run t (OpLock # ops) g =
     bind_result (Guard_Lock (Mutex_Lock t) g) (\<lambda>r. case r of None \<Rightarrow> Inr None | Some g' \<Rightarrow> guard_run t ops g')"
| "guard_run t (OpTrylock # ops) g = guard_run t ops (snd (Guard_Trylock (Mutex_Trylock t) g))"
| "guard_run t (OpUnlock # ops) g = bind_result (Guard_Unlock (Mutex_Unlock t) g) (guard_run t ops)"
| "guard_run t (OpOthers m # ops) g = guard_run t ops (fst g, if snd g = Some t \<or> m = Some t then snd g else m)"

fun obeys :: "nat \<Rightarrow> guard_op list \<Rightarrow> bool \<times> Mutex \<Rightarrow> bool" where
  "obeys t [] g = True"
| "obeys t (OpLock # ops) g \<longleftrightarrow> \<not> fst g \<and>
     (case Guard_Lock (Mutex_Lock t) g of Inr (Some g') \<Rightarrow> obeys t ops g' | _ \<Rightarrow> True)"
| "obeys t (OpTrylock # ops) g \<longleftrightarrow> \<not> fst g \<and> obeys t ops (snd (Guard_Trylock (Mutex_Trylock t) g))"
| "obeys t (OpUnlock # ops) g \<longleftrightarrow> fst g \<and>
     (case Guard_Unlock (Mutex_Unlock t) g of Inr g' \<Rightarrow> obeys t ops g' | _ \<Rightarrow> True)"
| "obeys t (OpOthers m # ops) g \<longleftrightarrow> obeys t ops (fst g, if snd g = Some t \<or> m = Some t then snd g else m)"

lemma mutex_guard_ok: "mutex.guard_ok t g \<longleftrightarrow> (fst g \<longleftrightarrow> snd g = Some t)"
  by (simp add: mutex.guard_ok_def)

lemma guard_run_ok:
  "obeys t ops g \<Longrightarrow> mutex.guard_ok t g \<Longrightarrow>
     \<exists>r. guard_run t ops g = Inr r \<and> (\<forall>g'. r = Some g' \<longrightarrow> mutex.guard_ok t g')"
proof (induction t ops g rule: guard_run.induct)
  case (2 t ops g)
  have "\<exists>r. Guard_Lock (Mutex_Lock t) g = Inr r"
    using 2(2,3) by (auto simp: mutex_guard_ok Guard_Lock_def Mutex_Lock_def split: option.splits)
  then obtain r where r: "Guard_Lock (Mutex_Lock t) g = Inr r" by blast
  show ?case
  proof (cases r)
    case None
    then show ?thesis using r by simp
  next
    case (Some g')
    then show ?thesis using 2 r mutex.guard_ok_ops(1) [of t g g'] by simp
  qed
next
  case (3 t ops g)
  obtain b g' where "Guard_Trylock (Mutex_Trylock t) g = (b, g')" by (cases "Guard_Trylock (Mutex_Trylock t) g")
  then show ?case using 3 mutex.guard_ok_ops(2) [of t g b g'] by simp
next
  case (4 t ops g)
  obtain g' where "Guard_Unlock (Mutex_Unlock t) g = Inr g'" "mutex.guard_ok t g'"
    using 4(2,3) mutex.guard_ok_ops(3) [of t g] by auto
  then show ?case using 4 by simp
next
  case (5 t m ops g)
  then show ?case by (simp add: mutex_guard_ok split: if_splits)
qed auto

text \<open>Guards give back what they take. For the mutex (and the spin lock, which has the same operations), a guard
  whose \<open>Lock\<close> and \<open>Trylock\<close> are called only while it does not hold the lock and whose \<open>Unlock\<close> only while
  it does knows at every moment whether its thread holds the lock, whatever other threads do in between: no
  operation deadlocks on itself or releases a foreign lock, and after its destructor the thread does not hold
  the lock, on every path out of the scope.\<close>

theorem guard_gives_back:
  assumes "obeys t ops (LockGuard_defer m)" "m \<noteq> Some t"
  shows "\<exists>r. guard_run t ops (LockGuard_defer m) = Inr r \<and> (\<forall>g. r = Some g \<longrightarrow>
     (fst g \<longleftrightarrow> snd g = Some t) \<and> (\<exists>m'. Guard_destroy (Mutex_Unlock t) g = Inr m' \<and> m' \<noteq> Some t))"
proof -
  have "mutex.guard_ok t (LockGuard_defer m)" using assms(2) by (simp add: mutex_guard_ok LockGuard_defer_def)
  then obtain r where "guard_run t ops (LockGuard_defer m) = Inr r" "\<forall>g. r = Some g \<longrightarrow> mutex.guard_ok t g"
    using guard_run_ok [OF assms(1)] by blast
  then show ?thesis using mutex.guard_ok_ops(4) [of t] mutex_guard_ok [of t] by metis
qed

theorem guard_gives_back_witness:
  "guard_run 1 [OpOthers (Some 2), OpTrylock, OpOthers None, OpTrylock, OpUnlock, OpLock] (LockGuard_defer None) = Inr (Some (True, Some 1))
   \<and> Guard_destroy (Mutex_Unlock 1) (True, Some 1) = Inr None"
proof -
  let ?ops = "[OpOthers (Some 2), OpTrylock, OpOthers None, OpTrylock, OpUnlock, OpLock]"
  have o: "obeys 1 ?ops (LockGuard_defer None)" by code_simp
  have r: "guard_run 1 ?ops (LockGuard_defer None) = Inr (Some (True, Some 1))" by code_simp
  obtain m' where "Guard_destroy (Mutex_Unlock 1) (True, Some 1) = Inr m'" "m' \<noteq> Some 1"
    using guard_gives_back [OF o] r by auto
  then show ?thesis using r by (simp add: Guard_destroy_def Mutex_Unlock_def)
qed

text \<open>\<open>Trylock\<close> on a guard that holds the lock makes it forget: its destructor leaves the lock taken.\<close>

lemma trylock_leaks_lock:
  "\<exists>g'. Guard_Trylock (Mutex_Trylock t) (True, Some t) = (False, g') \<and> Guard_destroy (Mutex_Unlock t) g' = Inr (Some t)"
  using mutex.trylock_forgets [of t "(True, Some t)"] by (auto simp: mutex_guard_ok)

text \<open>A shared guard in reader mode gives the reader's lock back, though it calls the writer's \<open>Unlock\<close>.\<close>

lemma shared_guard_scope:
  assumes "rw_writer m \<noteq> Some t" "t \<notin> set (readers m)" "SharedLockGuard_shared t m = Inr (Some g)"
  shows "SharedGuard_destroy t g = Inr m"
proof -
  have "LockGuard_new (ReaderLock t) m = Inr (Some g)" using assms(3) by (simp add: SharedLockGuard_shared_def LockGuard_new_def)
  then have "Guard_destroy (ReaderUnlock t) g = Inr m" using reader.scope_restores [of m t g] assms(1,2) by simp
  moreover have "Shared_Unlock t = ReaderUnlock t" by (simp add: fun_eq_iff Shared_Unlock_def ReaderUnlock_def)
  ultimately show ?thesis by (auto simp: SharedGuard_destroy_def Guard_destroy_def split: if_splits)
qed

text \<open>A shared guard through any sequence of its operations, in either mode.\<close>

definition shared_guard_ok :: "nat \<Rightarrow> bool \<times> SharedMutex \<Rightarrow> bool" where
  "shared_guard_ok t g \<longleftrightarrow> (if fst g
     then rw_writer (snd g) = Some t \<and> readers (snd g) = [] \<or> rw_writer (snd g) = None \<and> count_list (readers (snd g)) t = 1
     else rw_writer (snd g) \<noteq> Some t \<and> t \<notin> set (readers (snd g)))"

datatype shared_op = ShLock | ShTrylock | ShReaderLock | ShReaderTryLock | ShUnlock | ShReaderUnlock

definition shared_op_run :: "nat \<Rightarrow> shared_op \<Rightarrow> bool \<times> SharedMutex \<Rightarrow> (bool \<times> SharedMutex) option result" where
  "shared_op_run t x g = (case x of
     ShLock \<Rightarrow> SharedGuard_Lock t g
   | ShTrylock \<Rightarrow> Inr (Some (snd (SharedGuard_Trylock t g)))
   | ShReaderLock \<Rightarrow> SharedGuard_ReaderLock t g
   | ShReaderTryLock \<Rightarrow> Inr (Some (snd (SharedGuard_ReaderTryLock t g)))
   | ShUnlock \<Rightarrow> bind_result (SharedGuard_Unlock t g) (\<lambda>g'. Inr (Some g'))
   | ShReaderUnlock \<Rightarrow> bind_result (SharedGuard_ReaderUnlock t g) (\<lambda>g'. Inr (Some g')))"

lemma reader_unlock_both: "Shared_Unlock = ReaderUnlock"
  by (simp add: fun_eq_iff Shared_Unlock_def ReaderUnlock_def)

lemma shared_unlock_frees:
  assumes "shared_guard_ok t (True, m)"
  shows "\<exists>m'. ReaderUnlock t m = Inr m' \<and> shared_guard_ok t (False, m')"
proof -
  consider "rw_writer m = Some t \<and> readers m = []" | "rw_writer m = None \<and> count_list (readers m) t = 1"
    using assms by (auto simp: shared_guard_ok_def)
  then show ?thesis
    by cases (use writer.unlock_frees [of m t] reader.unlock_frees [of m t] in \<open>auto simp: reader_unlock_both shared_guard_ok_def\<close>)
qed

text \<open>An operation that takes is called while the guard holds nothing, one that releases while it holds: then no operation is an error,
  the flag stays right, and the destructor gives back what is held, whichever of the two unlocks matches the mode.\<close>

theorem shared_guard_gives_back:
  assumes "shared_guard_ok t g" "fst g \<longleftrightarrow> x \<in> {ShUnlock, ShReaderUnlock}"
  shows "\<exists>r. shared_op_run t x g = Inr r \<and> (\<forall>g'. r = Some g' \<longrightarrow> shared_guard_ok t g'
     \<and> (\<exists>m. SharedGuard_destroy t g' = Inr m \<and> shared_guard_ok t (False, m)))"
proof -
  obtain b m where g: "g = (b, m)" by (cases g)
  have gone: "\<exists>m'. SharedGuard_destroy t g' = Inr m' \<and> shared_guard_ok t (False, m')" if "shared_guard_ok t g'" for g'
    using that shared_unlock_frees [of t "snd g'"] by (cases g'; cases "fst g'") (auto simp: SharedGuard_destroy_def reader_unlock_both)
  have "\<exists>r. shared_op_run t x g = Inr r \<and> (\<forall>g'. r = Some g' \<longrightarrow> shared_guard_ok t g')"
  proof (cases "x \<in> {ShUnlock, ShReaderUnlock}")
    case True
    then show ?thesis using assms shared_unlock_frees [of t m]
      by (auto simp: g shared_op_run_def SharedGuard_Unlock_def SharedGuard_ReaderUnlock_def reader_unlock_both)
  next
    case False
    then have f: "b = False" "rw_writer m \<noteq> Some t" "t \<notin> set (readers m)" using assms by (auto simp: g shared_guard_ok_def)
    have "count_list (readers m) t = 0" using f(3) by simp
    then show ?thesis using False f
      by (cases x) (auto simp: g shared_op_run_def SharedGuard_Lock_def SharedGuard_Trylock_def SharedGuard_ReaderLock_def
        SharedGuard_ReaderTryLock_def Shared_Lock_def Shared_Trylock_def ReaderLock_def ReaderTryLock_def shared_guard_ok_def
        split: option.splits if_splits)
  qed
  then show ?thesis using gone by blast
qed

end
