(* ===== verification/Time.thy ===== *)
theory Time
  imports TimerQueue
begin

text \<open>
  \<open>cold/time/Time.{h,cpp}\<close>: points in time, broken-down time and its text.

  \<^item> A \<open>Time\<close> is the count of nanoseconds since 1970 of \<open>std::chrono::system_clock\<close>, an \<open>int\<close>; its
    \<open>duration_cast\<close>s truncate towards zero (\<open>tdiv\<close>).
  \<^item> \<open>gmtime_r\<close> and \<open>timegm\<close> of the C library are modelled on the proleptic Gregorian calendar;
    \<open>localtime_r\<close> and \<open>mktime\<close>, which consult the time zone files, are parameters.
\<close>

section \<open>The calendar of the C library\<close>

record tm =
  tm_year :: int
  tm_mon :: int
  tm_mday :: int
  tm_hour :: int
  tm_min :: int
  tm_sec :: int
  tm_wday :: int
  tm_yday :: int

definition leap :: "int \<Rightarrow> bool" where
  "leap y \<longleftrightarrow> (y mod 4 = 0 \<and> y mod 100 \<noteq> 0) \<or> y mod 400 = 0"

definition year_days :: "int \<Rightarrow> int" where
  "year_days y = (if leap y then 366 else 365)"

definition months :: "int \<Rightarrow> int list" where
  "months y = [31, if leap y then 29 else 28, 31, 30, 31, 30, 31, 31, 30, 31, 30, 31]"

lemma year_days_pos: "0 < year_days y"
  by (simp add: year_days_def)

function year_loop :: "int \<Rightarrow> int \<Rightarrow> int \<times> int" where
  "year_loop y d = (if d < year_days y then (y, d) else year_loop (y + 1) (d - year_days y))"
  by auto
termination
proof (relation "measure (\<lambda>(y, d). nat d)")
  fix y d :: int
  assume "\<not> d < year_days y"
  then show "((y + 1, d - year_days y), (y, d)) \<in> measure (\<lambda>(y, d). nat d)"
    using year_days_pos [of y] by simp
qed simp

declare year_loop.simps [simp del]

fun month_loop :: "int \<Rightarrow> int list \<Rightarrow> int \<Rightarrow> int \<times> int" where
  "month_loop m [] d = (m, d)"
| "month_loop m (l # ls) d = (if d < l then (m, d) else month_loop (m + 1) ls (d - l))"

function days_from :: "int \<Rightarrow> int \<Rightarrow> int" where
  "days_from a y = (if y \<le> a then 0 else year_days a + days_from (a + 1) y)"
  by auto
termination by (relation "measure (\<lambda>(a, y). nat (y - a))") auto

declare days_from.simps [simp del]

definition era_days :: int where "era_days = 146097"

definition gmtime :: "int \<Rightarrow> tm" where
  "gmtime s =
     (let days = s div 86400; r = s mod 86400; k = days div era_days;
          (y, yd) = year_loop (1970 + 400 * k) (days mod era_days);
          (m, md) = month_loop 0 (months y) yd
      in \<lparr>tm_year = y - 1900, tm_mon = m, tm_mday = md + 1, tm_hour = r div 3600, tm_min = r mod 3600 div 60,
          tm_sec = r mod 60, tm_wday = (days + 4) mod 7, tm_yday = yd\<rparr>)"

definition timegm :: "tm \<Rightarrow> int" where
  "timegm t =
     (let y = tm_year t + 1900 + tm_mon t div 12; m = tm_mon t mod 12; k = (y - 1970) div 400;
          days = era_days * k + days_from (1970 + 400 * k) y + sum_list (take (nat m) (months y)) + (tm_mday t - 1)
      in days * 86400 + tm_hour t * 3600 + tm_min t * 60 + tm_sec t)"

text \<open>The loops cut a number of days at the year and the month it falls in.\<close>

lemma year_loop_spec:
  "year_loop a d = (y, r) \<Longrightarrow> 0 \<le> d \<Longrightarrow> a \<le> y \<and> 0 \<le> r \<and> r < year_days y \<and> d = days_from a y + r"
proof (induction a d rule: year_loop.induct)
  case (1 a d)
  show ?case
  proof (cases "d < year_days a")
    case True
    then show ?thesis using 1 by (simp add: year_loop.simps [of a] days_from.simps)
  next
    case False
    then have "a + 1 \<le> y \<and> 0 \<le> r \<and> r < year_days y \<and> d - year_days a = days_from (a + 1) y + r"
      using 1 by (simp add: year_loop.simps [of a])
    then show ?thesis by (simp add: days_from.simps [of a])
  qed
qed

lemma month_loop_spec:
  "month_loop k ls d = (m, r) \<Longrightarrow> 0 \<le> d \<Longrightarrow> d < sum_list ls \<Longrightarrow>
     k \<le> m \<and> m < k + int (length ls) \<and> 0 \<le> r \<and> r < ls ! nat (m - k) \<and> d = sum_list (take (nat (m - k)) ls) + r"
proof (induction ls arbitrary: k d)
  case Nil
  then show ?case by simp
next
  case (Cons l ls)
  show ?case
  proof (cases "d < l")
    case True
    then show ?thesis using Cons.prems by simp
  next
    case False
    then have IH: "k + 1 \<le> m \<and> m < k + 1 + int (length ls) \<and> 0 \<le> r \<and> r < ls ! nat (m - (k + 1))
        \<and> d - l = sum_list (take (nat (m - (k + 1))) ls) + r"
      using Cons.IH [of "k + 1" "d - l"] Cons.prems by simp
    then have "nat (m - k) = Suc (nat (m - (k + 1)))" by linarith
    then show ?thesis using IH by simp
  qed
qed

lemma months_sum: "sum_list (months y) = year_days y" "length (months y) = 12"
  by (simp_all add: months_def year_days_def)

lemma leap_era: "leap (y + 400 * k) = leap y"
proof -
  have "(y + 400 * k) mod 4 = y mod 4" "(y + 400 * k) mod 100 = y mod 100" "(y + 400 * k) mod 400 = y mod 400"
    using mod_mult_self1 [of y "100 * k" 4] mod_mult_self1 [of y "4 * k" 100] mod_mult_self1 [of y k 400]
    by (simp_all add: ac_simps)
  then show ?thesis by (simp add: leap_def)
qed

lemma days_from_era: "days_from (a + 400 * k) (y + 400 * k) = days_from a y"
proof (induction a y rule: days_from.induct)
  case (1 a y)
  have e: "year_days (a + 400 * k) = year_days a" "a + 400 * k + 1 = a + 1 + 400 * k"
    by (simp_all add: year_days_def leap_era)
  show ?case
    using 1 by (simp only: days_from.simps [of a y] days_from.simps [of "a + 400 * k" "y + 400 * k"] e) simp
qed

lemma days_from_mono: "y \<le> z \<Longrightarrow> days_from a y \<le> days_from a z"
proof (induction a y rule: days_from.induct)
  case (1 a y)
  show ?case
  proof (cases "y \<le> a")
    case True
    have "0 \<le> days_from a z"
      by (induction a z rule: days_from.induct) (simp add: days_from.simps year_days_def)
    then show ?thesis using True by (simp add: days_from.simps [of a y])
  next
    case False
    then show ?thesis using 1 by (simp add: days_from.simps [of a])
  qed
qed

lemma days_of_era: "days_from 1970 2370 = era_days"
  by code_simp

lemma year_in_era:
  assumes "year_loop (1970 + 400 * k) d = (y, r)" "0 \<le> d" "d < era_days"
  shows "(y - 1970) div 400 = k"
proof -
  note l = year_loop_spec [OF assms(1,2)]
  have "days_from (1970 + 400 * k) (2370 + 400 * k) = era_days" using days_from_era [of 1970 k 2370] days_of_era by simp
  then have "y < 2370 + 400 * k"
    using days_from_mono [of "2370 + 400 * k" y "1970 + 400 * k"] l assms(3) by linarith
  then show ?thesis using l by (intro int_div_pos_eq [of _ 400 k "y - 1970 - 400 * k"]) simp_all
qed

definition tm_ranges :: "tm \<Rightarrow> bool" where
  "tm_ranges t \<longleftrightarrow> 0 \<le> tm_mon t \<and> tm_mon t \<le> 11
     \<and> 1 \<le> tm_mday t \<and> tm_mday t \<le> months (tm_year t + 1900) ! nat (tm_mon t)
     \<and> 0 \<le> tm_hour t \<and> tm_hour t \<le> 23 \<and> 0 \<le> tm_min t \<and> tm_min t \<le> 59 \<and> 0 \<le> tm_sec t \<and> tm_sec t \<le> 59
     \<and> 0 \<le> tm_wday t \<and> tm_wday t \<le> 6 \<and> 0 \<le> tm_yday t \<and> tm_yday t < year_days (tm_year t + 1900)"

lemma gmtime_parts:
  fixes s
  defines "days \<equiv> s div 86400"
  obtains y yd m md where "year_loop (1970 + 400 * (days div era_days)) (days mod era_days) = (y, yd)"
    "month_loop 0 (months y) yd = (m, md)" "gmtime s = \<lparr>tm_year = y - 1900, tm_mon = m, tm_mday = md + 1,
       tm_hour = s mod 86400 div 3600, tm_min = s mod 86400 mod 3600 div 60, tm_sec = s mod 86400 mod 60,
       tm_wday = (days + 4) mod 7, tm_yday = yd\<rparr>"
    "0 \<le> yd" "yd < year_days y" "days mod era_days = days_from (1970 + 400 * (days div era_days)) y + yd"
    "(y - 1970) div 400 = days div era_days"
    "0 \<le> m" "m < 12" "0 \<le> md" "md < months y ! nat m" "yd = sum_list (take (nat m) (months y)) + md"
proof -
  obtain y yd where y: "year_loop (1970 + 400 * (days div era_days)) (days mod era_days) = (y, yd)" by fastforce
  obtain m md where m: "month_loop 0 (months y) yd = (m, md)" by fastforce
  have d: "0 \<le> days mod era_days" "days mod era_days < era_days" by (simp_all add: era_days_def)
  note ys = year_loop_spec [OF y d(1)]
  have ms: "0 \<le> m \<and> m < 0 + int (length (months y)) \<and> 0 \<le> md \<and> md < months y ! nat (m - 0)
      \<and> yd = sum_list (take (nat (m - 0)) (months y)) + md"
    using ys by (intro month_loop_spec [OF m]) (simp_all add: months_sum)
  have g: "gmtime s = \<lparr>tm_year = y - 1900, tm_mon = m, tm_mday = md + 1,
       tm_hour = s mod 86400 div 3600, tm_min = s mod 86400 mod 3600 div 60, tm_sec = s mod 86400 mod 60,
       tm_wday = (days + 4) mod 7, tm_yday = yd\<rparr>"
    unfolding gmtime_def Let_def days_def [symmetric] using y m by simp
  show ?thesis using ys ms year_in_era [OF y d] by (intro that [OF y m g]) (simp_all add: months_sum)
qed

lemma tm_rangesI:
  assumes "0 \<le> m" "m < 12" "0 \<le> md" "md < months y ! nat m" "0 \<le> yd" "yd < year_days y"
    "0 \<le> h" "h \<le> 23" "0 \<le> mi" "mi \<le> 59" "0 \<le> se" "se \<le> 59" "0 \<le> w" "w \<le> 6"
  shows "tm_ranges \<lparr>tm_year = y - 1900, tm_mon = m, tm_mday = md + 1, tm_hour = h, tm_min = mi, tm_sec = se,
     tm_wday = w, tm_yday = yd\<rparr>"
  using assms by (simp add: tm_ranges_def)

lemma mod_bounds: "0 < b \<Longrightarrow> 0 \<le> a mod b \<and> a mod b \<le> b - 1" for a b :: int
  using pos_mod_bound [of b a] pos_mod_sign [of b a] by linarith

lemma div_bounds: "0 \<le> a \<Longrightarrow> a \<le> b * c - 1 \<Longrightarrow> 0 < b \<Longrightarrow> 0 \<le> a div b \<and> a div b \<le> c - 1" for a b c :: int
proof -
  assume a: "0 \<le> a" "a \<le> b * c - 1" "0 < b"
  then have "0 \<le> a div b" by (simp add: pos_imp_zdiv_nonneg_iff)
  moreover have "a div b < c"
  proof (rule ccontr)
    assume "\<not> a div b < c"
    then have "b * c \<le> b * (a div b)" using a(3) by (simp add: mult_left_mono)
    then show False using a mult_div_mod_eq [of b a] mod_bounds [of b a] by linarith
  qed
  ultimately show ?thesis by simp
qed

lemma gmtime_ranges: "tm_ranges (gmtime s)"
proof -
  obtain y yd m md where g: "gmtime s = \<lparr>tm_year = y - 1900, tm_mon = m, tm_mday = md + 1,
       tm_hour = s mod 86400 div 3600, tm_min = s mod 86400 mod 3600 div 60, tm_sec = s mod 86400 mod 60,
       tm_wday = (s div 86400 + 4) mod 7, tm_yday = yd\<rparr>"
    "0 \<le> yd" "yd < year_days y" "0 \<le> m" "m < 12" "0 \<le> md" "md < months y ! nat m"
    by (rule gmtime_parts [of s])
  define r where "r = s mod 86400"
  define q where "q = r mod 3600"
  define w where "w = s div 86400 + 4"
  have "0 \<le> r \<and> r \<le> 86399" unfolding r_def using mod_bounds [of 86400 s] by simp
  then have 1: "0 \<le> r div 3600 \<and> r div 3600 \<le> 23" using div_bounds [of r 3600 24] by simp
  have "0 \<le> q \<and> q \<le> 3599" unfolding q_def using mod_bounds [of 3600 r] by simp
  then have 2: "0 \<le> q div 60 \<and> q div 60 \<le> 59" using div_bounds [of q 60 60] by simp
  have 3: "0 \<le> r mod 60 \<and> r mod 60 \<le> 59" "0 \<le> w mod 7 \<and> w mod 7 \<le> 6"
    using mod_bounds [of 60 r] mod_bounds [of 7 w] by simp_all
  show ?thesis
    unfolding g(1) r_def [symmetric] q_def [symmetric] w_def [symmetric]
    using g(2-) 1 2 3 by (intro tm_rangesI) blast+
qed

lemma timegm_gmtime: "timegm (gmtime s) = s"
proof -
  define days where "days = s div 86400"
  obtain y yd m md where g: "gmtime s = \<lparr>tm_year = y - 1900, tm_mon = m, tm_mday = md + 1,
       tm_hour = s mod 86400 div 3600, tm_min = s mod 86400 mod 3600 div 60, tm_sec = s mod 86400 mod 60,
       tm_wday = (days + 4) mod 7, tm_yday = yd\<rparr>"
    and d: "days mod era_days = days_from (1970 + 400 * (days div era_days)) y + yd" "(y - 1970) div 400 = days div era_days"
    and m: "0 \<le> m" "m < 12" "yd = sum_list (take (nat m) (months y)) + md"
    unfolding days_def by (rule gmtime_parts [of s])
  define r where "r = s mod 86400"
  have "m div 12 = 0" "m mod 12 = m" using m by simp_all
  then have "timegm (gmtime s) = (era_days * (days div era_days) + days_from (1970 + 400 * (days div era_days)) y
      + sum_list (take (nat m) (months y)) + md) * 86400 + r div 3600 * 3600 + r mod 3600 div 60 * 60 + r mod 60"
    by (simp add: timegm_def g Let_def d(2) r_def [symmetric])
  also have "era_days * (days div era_days) + days_from (1970 + 400 * (days div era_days)) y
      + sum_list (take (nat m) (months y)) + md = days"
    using d(1) m(3) mult_div_mod_eq [of era_days days] by linarith
  also have "days * 86400 + r div 3600 * 3600 + r mod 3600 div 60 * 60 + r mod 60 = days * 86400 + r"
  proof -
    have "r mod 3600 mod 60 = r mod 60" by (rule mod_mod_cancel) simp
    then show ?thesis using div_mult_mod_eq [of r 3600] div_mult_mod_eq [of "r mod 3600" 60] by linarith
  qed
  also have "\<dots> = s" by (simp add: days_def r_def)
  finally show ?thesis .
qed

section \<open>\<open>Time\<close>\<close>

definition kMillisecondsPerSecond :: int where "kMillisecondsPerSecond = 1000"
definition kMicrosecondsPerSecond :: int where "kMicrosecondsPerSecond = 1000 * kMillisecondsPerSecond"
definition kNanoSecondsPerSecond :: int where "kNanoSecondsPerSecond = 1000 * kMicrosecondsPerSecond"

record TimeExploded =
  ex_year :: int
  ex_month :: int
  ex_day :: int
  ex_dayOfWeek :: int
  ex_dayInYear :: int
  ex_hour :: int
  ex_minute :: int
  ex_second :: int
  ex_millisecond :: int

definition FromTimeT :: "int \<Rightarrow> int" where
  "FromTimeT t = t * kNanoSecondsPerSecond"

definition TimeSinceEpochSeconds :: "int \<Rightarrow> int" where
  "TimeSinceEpochSeconds t = tdiv t kNanoSecondsPerSecond"

text \<open>\<open>brk\<close> is \<open>localtime_r\<close> or \<open>gmtime_r\<close>, \<open>mk\<close> is \<open>mktime\<close> or \<open>timegm\<close>.\<close>

definition Exploded :: "(int \<Rightarrow> tm) \<Rightarrow> int \<Rightarrow> TimeExploded" where
  "Exploded brk time =
     (let milliseconds = TimeSinceEpochMilliSeconds time;
          seconds = tdiv milliseconds kMillisecondsPerSecond;
          milli = tmod milliseconds kMillisecondsPerSecond;
          t = brk seconds
      in \<lparr>ex_year = tm_year t + 1900, ex_month = tm_mon t + 1, ex_day = tm_mday t,
          ex_dayOfWeek = (if tm_wday t = 0 then 7 else tm_wday t), ex_dayInYear = tm_yday t + 1,
          ex_hour = tm_hour t, ex_minute = tm_min t, ex_second = tm_sec t, ex_millisecond = milli\<rparr>)"

definition FromExploded :: "(tm \<Rightarrow> int) \<Rightarrow> TimeExploded \<Rightarrow> int option" where
  "FromExploded mk ex =
     (let t = \<lparr>tm_year = ex_year ex - 1900, tm_mon = ex_month ex - 1, tm_mday = ex_day ex, tm_hour = ex_hour ex,
               tm_min = ex_minute ex, tm_sec = ex_second ex, tm_wday = 0, tm_yday = 0\<rparr>;
          seconds = mk t
      in if seconds \<noteq> - 1 then Some (FromTimeT seconds) else None)"

definition UTCExplode :: "int \<Rightarrow> TimeExploded" where "UTCExplode time = Exploded gmtime time"
definition FromUTCExplode :: "TimeExploded \<Rightarrow> int option" where "FromUTCExplode ex = FromExploded timegm ex"

definition ToTimespec :: "int \<Rightarrow> int \<times> int" where
  "ToTimespec time = (let sec = tdiv time kNanoSecondsPerSecond in (sec, time - sec * kNanoSecondsPerSecond))"

text \<open>\<open>printf\<close> of an \<open>int\<close> with \<open>%0wd\<close>.\<close>

definition show_padded :: "nat \<Rightarrow> int \<Rightarrow> string" where
  "show_padded w v = (if v < 0 then let ds = show_nat (nat (- v)) in CHR ''-'' # replicate (w - 1 - length ds) CHR ''0'' @ ds
     else let ds = show_nat (nat v) in replicate (w - length ds) CHR ''0'' @ ds)"

definition Dump :: "(int \<Rightarrow> tm) \<Rightarrow> int \<Rightarrow> string" where
  "Dump brk time = (let ex = Exploded brk time
     in show_padded 4 (ex_year ex) @ ''-'' @ show_padded 2 (ex_month ex) @ ''-'' @ show_padded 2 (ex_day ex) @ '' ''
        @ show_padded 2 (ex_hour ex) @ '':'' @ show_padded 2 (ex_minute ex) @ '':'' @ show_padded 2 (ex_second ex)
        @ ''.'' @ show_padded 3 (ex_millisecond ex))"

definition ex_ranges :: "TimeExploded \<Rightarrow> bool" where
  "ex_ranges ex \<longleftrightarrow> 1 \<le> ex_month ex \<and> ex_month ex \<le> 12
     \<and> 1 \<le> ex_day ex \<and> ex_day ex \<le> months (ex_year ex) ! nat (ex_month ex - 1)
     \<and> 1 \<le> ex_dayOfWeek ex \<and> ex_dayOfWeek ex \<le> 7 \<and> 1 \<le> ex_dayInYear ex \<and> ex_dayInYear ex \<le> year_days (ex_year ex)
     \<and> 0 \<le> ex_hour ex \<and> ex_hour ex \<le> 23 \<and> 0 \<le> ex_minute ex \<and> ex_minute ex \<le> 59
     \<and> 0 \<le> ex_second ex \<and> ex_second ex \<le> 59"

lemma Exploded_ranges: "tm_ranges (brk (tdiv (TimeSinceEpochMilliSeconds t) 1000)) \<Longrightarrow> ex_ranges (Exploded brk t)"
  by (auto simp: Exploded_def ex_ranges_def tm_ranges_def Let_def kMillisecondsPerSecond_def)

lemma timegm_fields:
  "timegm t = timegm \<lparr>tm_year = tm_year t, tm_mon = tm_mon t, tm_mday = tm_mday t, tm_hour = tm_hour t,
     tm_min = tm_min t, tm_sec = tm_sec t, tm_wday = 0, tm_yday = 0\<rparr>"
  by (simp add: timegm_def)

lemma FromExploded_Exploded:
  assumes "\<And>t. mk t = mk \<lparr>tm_year = tm_year t, tm_mon = tm_mon t, tm_mday = tm_mday t, tm_hour = tm_hour t,
     tm_min = tm_min t, tm_sec = tm_sec t, tm_wday = 0, tm_yday = 0\<rparr>" "\<And>s. mk (brk s) = s"
  shows "FromExploded mk (Exploded brk time) =
     (let s = tdiv (TimeSinceEpochMilliSeconds time) 1000 in if s = - 1 then None else Some (FromTimeT s))"
  using assms(1) [of "brk (tdiv (TimeSinceEpochMilliSeconds time) 1000)"]
  by (simp add: FromExploded_def Exploded_def Let_def kMillisecondsPerSecond_def assms(2))

lemma length_show_nat: "n < 10 ^ w \<Longrightarrow> 0 < w \<Longrightarrow> length (show_nat n) \<le> w"
proof (induction w arbitrary: n)
  case 0
  then show ?case by simp
next
  case (Suc w)
  show ?case
  proof (cases "n < 10")
    case True
    then show ?thesis by (simp add: show_nat.simps [of n])
  next
    case False
    then have "w \<noteq> 0" using Suc.prems by (intro notI) simp
    moreover have "n div 10 < 10 ^ w" using Suc.prems by (simp add: less_mult_imp_div_less mult.commute)
    ultimately have "length (show_nat (n div 10)) \<le> w" using Suc.IH by simp
    then show ?thesis using False by (simp add: show_nat.simps [of n])
  qed
qed

lemma length_show_padded: "0 \<le> v \<Longrightarrow> v < 10 ^ w \<Longrightarrow> 0 < w \<Longrightarrow> length (show_padded w v) = w"
  using length_show_nat [of "nat v" w] by (simp add: show_padded_def Let_def nat_less_iff)

lemma milliseconds_parts:
  assumes "0 \<le> t"
  shows "TimeSinceEpochMilliSeconds t = t div 1000000" "tdiv (t div 1000000) 1000 = t div kNanoSecondsPerSecond"
    "tmod (t div 1000000) 1000 = t div 1000000 mod 1000"
proof -
  show 1: "TimeSinceEpochMilliSeconds t = t div 1000000" using assms by (simp add: TimeSinceEpochMilliSeconds_def tdiv_nonneg)
  have "t div 1000000 div 1000 = t div (1000000 * 1000)" by (rule zdiv_zmult2_eq [symmetric]) simp
  then show 2: "tdiv (t div 1000000) 1000 = t div kNanoSecondsPerSecond"
    using assms by (simp add: tdiv_nonneg pos_imp_zdiv_nonneg_iff kNanoSecondsPerSecond_def kMicrosecondsPerSecond_def
        kMillisecondsPerSecond_def)
  show "tmod (t div 1000000) 1000 = t div 1000000 mod 1000"
    using assms by (simp add: tmod_def tdiv_nonneg pos_imp_zdiv_nonneg_iff minus_div_mult_eq_mod)
qed

text \<open>C40: UTC time takes apart and puts together. Every point in time breaks down into a real calendar date and
  time of day (a day within its month, leap years included). From 1970 on the milliseconds are in 0..999,
  and \<open>FromUTCExplode\<close> gives back the whole second of the time it came from; the milliseconds it was given
  are dropped, and adding them gives the time up to the millisecond.\<close>

theorem utc_explode_roundtrip:
  "ex_ranges (UTCExplode t) \<and>
   (0 \<le> t \<longrightarrow> 0 \<le> ex_millisecond (UTCExplode t) \<and> ex_millisecond (UTCExplode t) \<le> 999
      \<and> FromUTCExplode (UTCExplode t) = Some (t - t mod kNanoSecondsPerSecond)
      \<and> t - t mod kNanoSecondsPerSecond + ex_millisecond (UTCExplode t) * 1000000 = t - t mod 1000000)"
proof (intro conjI impI)
  show "ex_ranges (UTCExplode t)" unfolding UTCExplode_def by (rule Exploded_ranges) (rule gmtime_ranges)
  assume t: "0 \<le> t"
  note p = milliseconds_parts [OF t]
  have ms: "ex_millisecond (UTCExplode t) = t div 1000000 mod 1000"
    by (simp add: UTCExplode_def Exploded_def Let_def kMillisecondsPerSecond_def p)
  show "0 \<le> ex_millisecond (UTCExplode t)" "ex_millisecond (UTCExplode t) \<le> 999"
    unfolding ms using mod_bounds [of 1000 "t div 1000000"] by simp_all
  have "t div kNanoSecondsPerSecond \<noteq> - 1"
  proof -
    have "0 \<le> t div kNanoSecondsPerSecond"
      using t by (simp add: pos_imp_zdiv_nonneg_iff kNanoSecondsPerSecond_def kMicrosecondsPerSecond_def kMillisecondsPerSecond_def)
    then show ?thesis by simp
  qed
  then have "FromUTCExplode (UTCExplode t) = Some (FromTimeT (t div kNanoSecondsPerSecond))"
    unfolding FromUTCExplode_def UTCExplode_def
    using FromExploded_Exploded [of timegm gmtime t, OF timegm_fields timegm_gmtime] by (simp add: p Let_def)
  then show "FromUTCExplode (UTCExplode t) = Some (t - t mod kNanoSecondsPerSecond)"
    by (simp add: FromTimeT_def minus_mod_eq_div_mult)
  have "t div 1000000 mod 1000 * 1000000 = t mod (1000000 * 1000) - t mod 1000000"
    using zmod_zmult2_eq [of 1000 t 1000000] by simp
  then show "t - t mod kNanoSecondsPerSecond + ex_millisecond (UTCExplode t) * 1000000 = t - t mod 1000000"
    unfolding ms by (simp add: kNanoSecondsPerSecond_def kMicrosecondsPerSecond_def kMillisecondsPerSecond_def)
qed

theorem utc_explode_roundtrip_witness:
  "FromUTCExplode (UTCExplode 951782400123456789) = Some 951782400000000000
   \<and> ex_day (UTCExplode 951782400123456789) = 29 \<and> ex_month (UTCExplode 951782400123456789) = 2"
proof -
  have "FromUTCExplode (UTCExplode 951782400123456789) = Some (951782400123456789 - 951782400123456789 mod kNanoSecondsPerSecond)"
    using utc_explode_roundtrip [of 951782400123456789] by simp
  moreover have "ex_day (UTCExplode 951782400123456789) = 29 \<and> ex_month (UTCExplode 951782400123456789) = 2" by code_simp
  ultimately show ?thesis by (simp add: kNanoSecondsPerSecond_def kMicrosecondsPerSecond_def kMillisecondsPerSecond_def)
qed

text \<open>Before 1970 the milliseconds are negative, and the second before it cannot be put together.\<close>

lemma before_epoch:
  "ex_millisecond (UTCExplode (- 1500000000)) = - 500" "FromUTCExplode (UTCExplode (- 1500000000)) = None"
  by code_simp+

text \<open>The text of a time up to the year 9999 has 23 characters.\<close>

lemma Dump_length:
  assumes "ex_ranges (Exploded brk t)" "0 \<le> t" "0 \<le> ex_year (Exploded brk t)" "ex_year (Exploded brk t) \<le> 9999"
  shows "length (Dump brk t) = 23"
proof -
  have "ex_millisecond (Exploded brk t) = t div 1000000 mod 1000"
    by (simp add: Exploded_def Let_def kMillisecondsPerSecond_def milliseconds_parts [OF assms(2)])
  then have "0 \<le> ex_millisecond (Exploded brk t)" "ex_millisecond (Exploded brk t) \<le> 999"
    using mod_bounds [of 1000 "t div 1000000"] by simp_all
  moreover have "months (ex_year (Exploded brk t)) ! nat (ex_month (Exploded brk t) - 1) \<le> 31"
  proof -
    have "nat (ex_month (Exploded brk t) - 1) < 12" using assms(1) by (auto simp: ex_ranges_def)
    then show ?thesis
      by (simp add: months_def numeral_eq_Suc less_Suc_eq nth_Cons split: nat.splits) (auto simp: less_Suc_eq)
  qed
  ultimately show ?thesis
    using assms by (simp add: Dump_def Let_def ex_ranges_def length_show_padded)
qed

text \<open>\<open>pthread_cond_timedwait\<close> gets a proper \<open>timespec\<close>.\<close>

lemma ToTimespec_proper:
  assumes "0 \<le> t"
  shows "ToTimespec t = (t div 1000000000, t mod 1000000000)"
  using assms minus_div_mult_eq_mod [of t 1000000000]
  by (simp add: ToTimespec_def tdiv_nonneg kNanoSecondsPerSecond_def kMicrosecondsPerSecond_def kMillisecondsPerSecond_def Let_def)

end
