(* ===== verification/LogFormatter.thy ===== *)
theory LogFormatter
  imports Time
begin

text \<open>
  \<open>cold/log/LogFormatter.{h,cpp}\<close>, \<open>cold/log/LogCommon.h\<close>, \<open>cold/util/ShellColor.h\<close> and the colour flags of
  \<open>cold/log/sinks/StdoutColorSink.h\<close>: compiling a pattern and formatting messages with it.

  \<^item> A compiled pattern is a list of flag formatters; the one for the time carries its cache (the last
    second and the text made for it), and formatting returns it updated.
  \<^item> \<open>brk\<close> is \<open>localtime_r\<close>. A custom flag is its text function on messages.
  \<^item> A string that was moved from is empty, as in the library the code is built with.
\<close>

section \<open>Messages\<close>

datatype LogLevel = TRACE | DEBUG | INFO | WARN | ERROR | FATAL | OFF

definition level_num :: "LogLevel \<Rightarrow> nat" where
  "level_num l = (case l of TRACE \<Rightarrow> 0 | DEBUG \<Rightarrow> 1 | INFO \<Rightarrow> 2 | WARN \<Rightarrow> 3 | ERROR \<Rightarrow> 4 | FATAL \<Rightarrow> 5 | OFF \<Rightarrow> 6)"

instantiation LogLevel :: linorder
begin

definition less_eq_LogLevel :: "LogLevel \<Rightarrow> LogLevel \<Rightarrow> bool" where
  "less_eq_LogLevel a b \<longleftrightarrow> level_num a \<le> level_num b"

definition less_LogLevel :: "LogLevel \<Rightarrow> LogLevel \<Rightarrow> bool" where
  "less_LogLevel a b \<longleftrightarrow> level_num a < level_num b"

instance
  by standard (auto simp: less_eq_LogLevel_def less_LogLevel_def level_num_def split: LogLevel.splits)

end

record LogMessage =
  msg_level :: LogLevel
  threadId :: string
  threadName :: string
  loggerName :: string
  function_name :: string
  file_name :: string
  line :: nat
  baseName :: string
  logTime :: int
  logLine :: string

text \<open>\<open>LocationWrapper\<close> of \<open>Logger.h\<close>.\<close>

definition base_name :: "string \<Rightarrow> string" where
  "base_name f = (case str_rfind f CHR ''/'' of None \<Rightarrow> f | Some pos \<Rightarrow> drop (pos + 1) f)"

section \<open>Colours\<close>

definition Pad :: "nat \<Rightarrow> string" where
  "Pad v = (if v div 100 > 0 then [char_of (v div 100 + 48)] else [])
     @ (if v div 10 mod 10 > 0 then [char_of (v div 10 mod 10 + 48)] else [])
     @ [char_of (v mod 10 + 48)]"

datatype FrontColor = fRed | fGreen | fYellow | fBlue | fMagenta | fCyan | fWhite | fBrightBlack | fBrightRed
  | fBrightGreen | fBrightYellow | fBrightBlue | fBrightMagenta | fBrightCyan | fBrightWhite

definition FrontColor_code :: "FrontColor \<Rightarrow> nat" where
  "FrontColor_code c = (case c of fRed \<Rightarrow> 31 | fGreen \<Rightarrow> 32 | fYellow \<Rightarrow> 33 | fBlue \<Rightarrow> 34 | fMagenta \<Rightarrow> 35 | fCyan \<Rightarrow> 36
     | fWhite \<Rightarrow> 37 | fBrightBlack \<Rightarrow> 90 | fBrightRed \<Rightarrow> 91 | fBrightGreen \<Rightarrow> 92 | fBrightYellow \<Rightarrow> 93
     | fBrightBlue \<Rightarrow> 94 | fBrightMagenta \<Rightarrow> 95 | fBrightCyan \<Rightarrow> 96 | fBrightWhite \<Rightarrow> 97)"

datatype BackGroundColor = bDefault | bBlack | bRed | bGreen | bYellow | bBlue | bMagenta | bCyan | bWhite

definition BackGroundColor_code :: "BackGroundColor \<Rightarrow> nat" where
  "BackGroundColor_code c = (case c of bDefault \<Rightarrow> 39 | bBlack \<Rightarrow> 40 | bRed \<Rightarrow> 41 | bGreen \<Rightarrow> 42 | bYellow \<Rightarrow> 43
     | bBlue \<Rightarrow> 44 | bMagenta \<Rightarrow> 45 | bCyan \<Rightarrow> 46 | bWhite \<Rightarrow> 47)"

datatype Emphasis = kReset | kBold | kHalfBright | kUnderScore | kBlink | kReverse

definition Emphasis_code :: "Emphasis \<Rightarrow> nat" where
  "Emphasis_code e = (case e of kReset \<Rightarrow> 0 | kBold \<Rightarrow> 1 | kHalfBright \<Rightarrow> 2 | kUnderScore \<Rightarrow> 4 | kBlink \<Rightarrow> 5 | kReverse \<Rightarrow> 7)"

definition color_escape :: string where
  "color_escape = [char_of (27 :: nat), CHR ''['']"

definition ColorControl_front :: "FrontColor \<Rightarrow> string" where
  "ColorControl_front f = color_escape @ Pad (FrontColor_code f) @ ''m''"

definition ColorControl_back :: "BackGroundColor \<Rightarrow> string" where
  "ColorControl_back b = color_escape @ Pad (BackGroundColor_code b) @ ''m''"

definition ColorControl_both :: "FrontColor \<Rightarrow> BackGroundColor \<Rightarrow> string" where
  "ColorControl_both f b = color_escape @ Pad (FrontColor_code f) @ '';'' @ Pad (BackGroundColor_code b) @ ''m''"

definition ColorControl_all :: "FrontColor \<Rightarrow> BackGroundColor \<Rightarrow> Emphasis \<Rightarrow> string" where
  "ColorControl_all f b e = color_escape @ Pad (FrontColor_code f) @ '';'' @ Pad (BackGroundColor_code b) @ '';''
     @ Pad (Emphasis_code e) @ ''m''"

definition ColorEnd :: string where
  "ColorEnd = color_escape @ ''0m''"

text \<open>The colours of the levels; a message never has the level \<open>OFF\<close> (the read past the array is \<open>None\<close>).\<close>

definition ColorStartFlag :: "LogMessage \<Rightarrow> string option" where
  "ColorStartFlag m = (let colors = [fCyan, fBlue, fGreen, fMagenta, fRed, fBrightRed]; i = level_num (msg_level m)
     in if i < length colors then Some (ColorControl_front (colors ! i)) else None)"

lemma Pad_show_nat: "v < 100 \<Longrightarrow> Pad v = show_nat v"
  by (auto simp: Pad_def show_nat.simps [of v] show_nat.simps [of "v div 10"] add.commute)

lemma color_codes_small: "FrontColor_code f < 100" "BackGroundColor_code b < 100" "Emphasis_code e < 100"
  by (simp_all add: FrontColor_code_def BackGroundColor_code_def Emphasis_code_def
      split: FrontColor.splits BackGroundColor.splits Emphasis.splits)

text \<open>\<open>Pad\<close> loses the middle zero of a number above 99; no colour has one.\<close>

lemma Pad_loses_zero: "Pad 105 = show_nat 15"
  by code_simp

section \<open>Flag formatters\<close>

definition digit_char_of :: "int \<Rightarrow> char" where
  "digit_char_of v = char_of (v + 48)"

definition Pad2 :: "int \<Rightarrow> string" where
  "Pad2 v = [digit_char_of (tdiv v 10), digit_char_of (tmod v 10)]"

definition Pad3 :: "int \<Rightarrow> string" where
  "Pad3 v = [digit_char_of (tdiv v 100), digit_char_of (tmod (tdiv v 10) 10), digit_char_of (tmod v 10)]"

definition Pad4 :: "int \<Rightarrow> string" where
  "Pad4 v = digit_char_of (tdiv v 1000) # Pad3 (tmod v 1000)"

record LocalTimeFormatter =
  lastFormatSecond :: int
  timeBuf :: string

definition LocalTimeFormatter_new :: LocalTimeFormatter where
  "LocalTimeFormatter_new = \<lparr>lastFormatSecond = 0, timeBuf = ''xxxx-xx-xx oo:oo:oo.ooo''\<rparr>"

definition put_at :: "nat \<Rightarrow> string \<Rightarrow> string \<Rightarrow> string" where
  "put_at i s buf = take i buf @ s @ drop (i + length s) buf"

definition LocalTime_Format :: "(int \<Rightarrow> tm) \<Rightarrow> LogMessage \<Rightarrow> LocalTimeFormatter \<Rightarrow> string \<times> LocalTimeFormatter" where
  "LocalTime_Format brk m f =
     (let totalMs = TimeSinceEpochMilliSeconds (logTime m);
          seconds = tdiv totalMs 1000;
          milliseconds = totalMs - seconds * 1000;
          f1 = (if seconds \<noteq> lastFormatSecond f
                then (let ex = Exploded brk (logTime m)
                      in \<lparr>lastFormatSecond = seconds,
                          timeBuf = put_at 17 (Pad2 (ex_second ex)) (put_at 14 (Pad2 (ex_minute ex))
                            (put_at 11 (Pad2 (ex_hour ex)) (put_at 8 (Pad2 (ex_day ex))
                            (put_at 5 (Pad2 (ex_month ex)) (put_at 0 (Pad4 (ex_year ex)) (timeBuf f))))))\<rparr>)
                else f);
          f2 = f1\<lparr>timeBuf := put_at 20 (Pad3 milliseconds) (timeBuf f1)\<rparr>
      in (take 23 (timeBuf f2), f2))"

datatype FlagFormatter =
    ThreadIdFormatter
  | ThreadNameFormatter
  | FunctionNameFormatter
  | FileNameFormatter
  | BaseNameFormatter
  | FileLineFormatter
  | LogLevelFormatter
  | LoggerNameFormatter
  | LogLineFormatter
  | NewLineFormatter
  | PatternTextFormatter string
  | TimeFormatter LocalTimeFormatter
  | CustomFormatter "LogMessage \<Rightarrow> string"

definition kLogLevels :: "string list" where
  "kLogLevels = [''TRACE'', ''DEBUG'', ''INFO '', ''WARN '', ''ERROR'', ''FATAL'']"

definition kNewLine :: string where
  "kNewLine = [char_of (10 :: nat)]"

definition Flag_Format :: "(int \<Rightarrow> tm) \<Rightarrow> LogMessage \<Rightarrow> FlagFormatter \<Rightarrow> string \<times> FlagFormatter" where
  "Flag_Format brk m f = (case f of
      ThreadIdFormatter \<Rightarrow> (threadId m, f)
    | ThreadNameFormatter \<Rightarrow> (threadName m, f)
    | FunctionNameFormatter \<Rightarrow> (function_name m, f)
    | FileNameFormatter \<Rightarrow> (file_name m, f)
    | BaseNameFormatter \<Rightarrow> (baseName m, f)
    | FileLineFormatter \<Rightarrow> (show_nat (line m), f)
    | LogLevelFormatter \<Rightarrow> (kLogLevels ! level_num (msg_level m), f)
    | LoggerNameFormatter \<Rightarrow> (loggerName m, f)
    | LogLineFormatter \<Rightarrow> (logLine m, f)
    | NewLineFormatter \<Rightarrow> (kNewLine, f)
    | PatternTextFormatter text \<Rightarrow> (text, f)
    | TimeFormatter t \<Rightarrow> (case LocalTime_Format brk m t of (s, t') \<Rightarrow> (s, TimeFormatter t'))
    | CustomFormatter g \<Rightarrow> (g m, f))"

definition HandleFlag :: "char \<Rightarrow> FlagFormatter list \<Rightarrow> FlagFormatter list option" where
  "HandleFlag c sequence =
     (if c = CHR ''t'' then Some (sequence @ [ThreadIdFormatter])
      else if c = CHR ''N'' then Some (sequence @ [ThreadNameFormatter])
      else if c = CHR ''f'' then Some (sequence @ [FunctionNameFormatter])
      else if c = CHR ''F'' then Some (sequence @ [FileNameFormatter])
      else if c = CHR ''l'' then Some (sequence @ [FileLineFormatter])
      else if c = CHR ''L'' then Some (sequence @ [LogLevelFormatter])
      else if c = CHR ''n'' then Some (sequence @ [NewLineFormatter])
      else if c = CHR ''T'' then Some (sequence @ [TimeFormatter LocalTimeFormatter_new])
      else if c = CHR ''c'' then Some (sequence @ [LogLineFormatter])
      else if c = CHR ''m'' then Some (sequence @ [LoggerNameFormatter])
      else if c = CHR ''b'' then Some (sequence @ [BaseNameFormatter])
      else None)"

section \<open>Patterns\<close>

type_synonym FlagMap = "char \<Rightarrow> (LogMessage \<Rightarrow> string) option"

record LogFormatter =
  pattern :: string
  formatSequence :: "FlagFormatter list"
  flagMap :: FlagMap

definition flush_text :: "string \<Rightarrow> FlagFormatter list \<Rightarrow> FlagFormatter list" where
  "flush_text t sequence = (if t \<noteq> [] then sequence @ [PatternTextFormatter t] else sequence)"

fun compile_loop :: "FlagMap \<Rightarrow> FlagFormatter list \<Rightarrow> string \<Rightarrow> string \<Rightarrow> FlagFormatter list option" where
  "compile_loop flags sequence t [] = Some (flush_text t sequence)"
| "compile_loop flags sequence t (c # cs) =
     (if c \<noteq> CHR ''%'' then compile_loop flags sequence (t @ [c]) cs
      else case cs of
          [] \<Rightarrow> None
        | d # ds \<Rightarrow>
            if d = CHR ''%'' then compile_loop flags sequence (t @ [d]) ds
            else let sequence1 = flush_text t sequence
                 in case flags d of
                      None \<Rightarrow> (case HandleFlag d sequence1 of None \<Rightarrow> None | Some s \<Rightarrow> compile_loop flags s [] ds)
                    | Some g \<Rightarrow> compile_loop flags (sequence1 @ [CustomFormatter g]) [] ds)"

definition CompilePattern :: "LogFormatter \<Rightarrow> bool \<times> LogFormatter" where
  "CompilePattern f = (case compile_loop (flagMap f) [] [] (pattern f) of
      None \<Rightarrow> (False, f) | Some s \<Rightarrow> (True, f\<lparr>formatSequence := s\<rparr>))"

definition CompilePatternOrAbort :: "LogFormatter \<Rightarrow> LogFormatter result" where
  "CompilePatternOrAbort f = (case CompilePattern f of (ok, f') \<Rightarrow> if ok then Inr f' else Inl Abort)"

definition LogFormatter_new :: "string \<Rightarrow> FlagMap \<Rightarrow> LogFormatter result" where
  "LogFormatter_new p flags = CompilePatternOrAbort \<lparr>pattern = p, formatSequence = [], flagMap = flags\<rparr>"

definition Formatter_SetPattern :: "string \<Rightarrow> LogFormatter \<Rightarrow> LogFormatter result" where
  "Formatter_SetPattern p f = CompilePatternOrAbort (f\<lparr>pattern := p\<rparr>)"

definition Formatter_Clone :: "LogFormatter \<Rightarrow> LogFormatter result" where
  "Formatter_Clone f = LogFormatter_new (pattern f) (flagMap f)"

fun format_seq :: "(int \<Rightarrow> tm) \<Rightarrow> LogMessage \<Rightarrow> FlagFormatter list \<Rightarrow> string \<times> FlagFormatter list" where
  "format_seq brk m [] = ([], [])"
| "format_seq brk m (f # fs) = (case Flag_Format brk m f of (s, f') \<Rightarrow>
     case format_seq brk m fs of (ss, fs') \<Rightarrow> (s @ ss, f' # fs'))"

definition Formatter_Format :: "(int \<Rightarrow> tm) \<Rightarrow> LogMessage \<Rightarrow> LogFormatter \<Rightarrow> string \<times> LogFormatter" where
  "Formatter_Format brk m f = (case format_seq brk m (formatSequence f) of (s, q) \<Rightarrow> (s, f\<lparr>formatSequence := q\<rparr>))"

section \<open>What a pattern means\<close>

text \<open>The time of a message without a cache, and the text of a pattern read from left to right.\<close>

definition second_text :: "tm \<Rightarrow> string" where
  "second_text t = Pad4 (tm_year t + 1900) @ ''-'' @ Pad2 (tm_mon t + 1) @ ''-'' @ Pad2 (tm_mday t) @ '' ''
     @ Pad2 (tm_hour t) @ '':'' @ Pad2 (tm_min t) @ '':'' @ Pad2 (tm_sec t) @ ''.''"

definition time_text :: "(int \<Rightarrow> tm) \<Rightarrow> int \<Rightarrow> string" where
  "time_text brk t = (let ms = TimeSinceEpochMilliSeconds t
     in second_text (brk (tdiv ms 1000)) @ Pad3 (tmod ms 1000))"

definition flag_text :: "(int \<Rightarrow> tm) \<Rightarrow> LogMessage \<Rightarrow> FlagFormatter \<Rightarrow> string" where
  "flag_text brk m f = (case f of TimeFormatter t \<Rightarrow> time_text brk (logTime m) | _ \<Rightarrow> fst (Flag_Format brk m f))"

definition default_flag :: "(int \<Rightarrow> tm) \<Rightarrow> LogMessage \<Rightarrow> char \<Rightarrow> string option" where
  "default_flag brk m c = map_of
     [(CHR ''t'', threadId m), (CHR ''N'', threadName m), (CHR ''f'', function_name m), (CHR ''F'', file_name m),
      (CHR ''l'', show_nat (line m)), (CHR ''L'', kLogLevels ! level_num (msg_level m)), (CHR ''n'', kNewLine),
      (CHR ''T'', time_text brk (logTime m)), (CHR ''c'', logLine m), (CHR ''m'', loggerName m), (CHR ''b'', baseName m)] c"

fun render :: "(int \<Rightarrow> tm) \<Rightarrow> FlagMap \<Rightarrow> LogMessage \<Rightarrow> string \<Rightarrow> string option" where
  "render brk flags m [] = Some []"
| "render brk flags m (c # cs) =
     (if c \<noteq> CHR ''%'' then map_option ((#) c) (render brk flags m cs)
      else case cs of
          [] \<Rightarrow> None
        | d # ds \<Rightarrow>
            if d = CHR ''%'' then map_option ((#) d) (render brk flags m ds)
            else case (case flags d of Some g \<Rightarrow> Some (g m) | None \<Rightarrow> default_flag brk m d) of
                None \<Rightarrow> None
              | Some s \<Rightarrow> map_option ((@) s) (render brk flags m ds))"

definition seq_text :: "(int \<Rightarrow> tm) \<Rightarrow> LogMessage \<Rightarrow> FlagFormatter list \<Rightarrow> string" where
  "seq_text brk m fs = concat (map (flag_text brk m) fs)"

lemma seq_text_simps [simp]:
  "seq_text brk m [] = []"
  "seq_text brk m (f # fs) = flag_text brk m f @ seq_text brk m fs"
  "seq_text brk m (fs @ gs) = seq_text brk m fs @ seq_text brk m gs"
  "seq_text brk m (flush_text t fs) = seq_text brk m fs @ t"
  by (simp_all add: seq_text_def flush_text_def flag_text_def Flag_Format_def)

lemma HandleFlag_text:
  "HandleFlag c fs = None \<longleftrightarrow> default_flag brk m c = None"
  "HandleFlag c fs = Some gs \<Longrightarrow> \<exists>s. default_flag brk m c = Some s \<and> seq_text brk m gs = seq_text brk m fs @ s"
  unfolding HandleFlag_def default_flag_def
  by (simp, auto simp: flag_text_def Flag_Format_def split: if_splits)

definition caches :: "FlagFormatter list \<Rightarrow> LocalTimeFormatter set" where
  "caches fs = {t. TimeFormatter t \<in> set fs}"

lemma caches_flush [simp]: "caches (flush_text t fs) = caches fs"
  by (auto simp: caches_def flush_text_def)

lemma HandleFlag_caches: "HandleFlag c fs = Some gs \<Longrightarrow> caches gs \<subseteq> insert LocalTimeFormatter_new (caches fs)"
  by (auto simp: HandleFlag_def caches_def split: if_splits)

lemma compile_loop_meaning:
  "(compile_loop flags fs t cs = None \<longleftrightarrow> render brk flags m cs = None)
   \<and> (\<forall>gs. compile_loop flags fs t cs = Some gs \<longrightarrow>
        (\<exists>r. render brk flags m cs = Some r \<and> seq_text brk m gs = seq_text brk m fs @ t @ r)
        \<and> caches gs \<subseteq> insert LocalTimeFormatter_new (caches fs))"
proof (induction flags fs t cs rule: compile_loop.induct)
  case (1 flags sequence t)
  then show ?case by auto
next
  case (2 flags sequence t c cs)
  show ?case
  proof (cases "c = CHR ''%''")
    case False
    then show ?thesis using 2(1) by fastforce
  next
    case pct: True
    show ?thesis
    proof (cases cs)
      case Nil
      then show ?thesis using pct by simp
    next
      case (Cons d ds)
      show ?thesis
      proof (cases "d = CHR ''%''")
        case True
        then show ?thesis using 2(2) [OF _ Cons True] pct Cons by fastforce
      next
        case False
        show ?thesis
        proof (cases "flags d")
          case (Some g)
          have "flag_text brk m (CustomFormatter g) = g m" by (simp add: flag_text_def Flag_Format_def)
          moreover have "caches (flush_text t sequence @ [CustomFormatter g]) = caches sequence"
            by (auto simp: caches_def flush_text_def)
          ultimately show ?thesis
            using 2(4) [OF _ Cons False refl Some] pct Cons False Some by fastforce
        next
          case None
          show ?thesis
          proof (cases "HandleFlag d (flush_text t sequence)")
            case h: None
            then show ?thesis using HandleFlag_text(1) [of d "flush_text t sequence" brk m] pct Cons False None by simp
          next
            case (Some s)
            then show ?thesis
              using 2(3) [OF _ Cons False refl None Some] HandleFlag_text(2) [OF Some, of brk m] HandleFlag_caches [OF Some]
                pct Cons False None by fastforce
          qed
        qed
      qed
    qed
  qed
qed

text \<open>The cache: untouched while no second but 0 was formatted, or the text of the last second.\<close>

definition time_shape :: "string \<Rightarrow> bool" where
  "time_shape b \<longleftrightarrow> length b = 23 \<and> b ! 4 = CHR ''-'' \<and> b ! 7 = CHR ''-'' \<and> b ! 10 = CHR '' '' \<and> b ! 13 = CHR '':''
     \<and> b ! 16 = CHR '':'' \<and> b ! 19 = CHR ''.''"

definition cache_ok :: "(int \<Rightarrow> tm) \<Rightarrow> LocalTimeFormatter \<Rightarrow> bool" where
  "cache_ok brk t \<longleftrightarrow> time_shape (timeBuf t)
     \<and> (lastFormatSecond t \<noteq> 0 \<longrightarrow> take 20 (timeBuf t) = second_text (brk (lastFormatSecond t)))"

lemma cache_ok_new: "cache_ok brk LocalTimeFormatter_new"
  by (simp add: cache_ok_def LocalTimeFormatter_new_def time_shape_def)

lemma list23: "length b = 23 \<Longrightarrow> \<exists>a0 a1 a2 a3 a4 a5 a6 a7 a8 a9 a10 a11 a12 a13 a14 a15 a16 a17 a18 a19 a20 a21 a22.
    b = [a0, a1, a2, a3, a4, a5, a6, a7, a8, a9, a10, a11, a12, a13, a14, a15, a16, a17, a18, a19, a20, a21, a22]"
  by (auto simp: length_Suc_conv numeral_eq_Suc)

lemma fill_buffer:
  assumes "time_shape b"
  shows "put_at 17 (Pad2 s) (put_at 14 (Pad2 mi) (put_at 11 (Pad2 h) (put_at 8 (Pad2 d) (put_at 5 (Pad2 mo) (put_at 0 (Pad4 y) b)))))
     = Pad4 y @ ''-'' @ Pad2 mo @ ''-'' @ Pad2 d @ '' '' @ Pad2 h @ '':'' @ Pad2 mi @ '':'' @ Pad2 s @ ''.'' @ drop 20 b"
proof -
  have "length b = 23" using assms by (simp add: time_shape_def)
  from list23 [OF this] obtain a0 a1 a2 a3 a4 a5 a6 a7 a8 a9 a10 a11 a12 a13 a14 a15 a16 a17 a18 a19 a20 a21 a22 where
    b: "b = [a0, a1, a2, a3, a4, a5, a6, a7, a8, a9, a10, a11, a12, a13, a14, a15, a16, a17, a18, a19, a20, a21, a22]"
    by (elim exE) (erule that)
  have "a4 = CHR ''-''" "a7 = CHR ''-''" "a10 = CHR '' ''" "a13 = CHR '':''" "a16 = CHR '':''" "a19 = CHR ''.''"
    using assms by (simp_all add: time_shape_def b)
  then show ?thesis by (simp add: b put_at_def Pad2_def Pad3_def Pad4_def)
qed

lemma length_second_text [simp]: "length (second_text t) = 20"
  by (simp add: second_text_def Pad2_def Pad3_def Pad4_def)

lemma second_text_shape: "length r = 3 \<Longrightarrow> time_shape (second_text t @ r)"
  by (simp add: time_shape_def second_text_def Pad2_def Pad3_def Pad4_def)

lemma put_ms:
  "length b = 23 \<Longrightarrow> put_at 20 (Pad3 v) b = take 20 b @ Pad3 v"
  by (simp add: put_at_def Pad3_def)

lemma LocalTime_Format_exact:
  assumes "cache_ok brk t" "tdiv (TimeSinceEpochMilliSeconds (logTime m)) 1000 \<noteq> 0"
  shows "\<exists>t'. LocalTime_Format brk m t = (time_text brk (logTime m), t') \<and> cache_ok brk t'"
proof -
  define s where "s = tdiv (TimeSinceEpochMilliSeconds (logTime m)) 1000"
  define v where "v = tmod (TimeSinceEpochMilliSeconds (logTime m)) 1000"
  define b where "b = (if s \<noteq> lastFormatSecond t then second_text (brk s) @ drop 20 (timeBuf t) else timeBuf t)"
  have v: "TimeSinceEpochMilliSeconds (logTime m) - s * 1000 = v" by (simp add: v_def s_def tmod_def)
  have len: "length (timeBuf t) = 23" using assms(1) by (simp add: cache_ok_def time_shape_def)
  have take20: "take 20 b = second_text (brk s)"
    using assms by (auto simp: b_def cache_ok_def s_def)
  have lenb: "length b = 23" using len by (simp add: b_def)
  define f1 where "f1 = (if s \<noteq> lastFormatSecond t
                then (let ex = Exploded brk (logTime m)
                      in \<lparr>lastFormatSecond = s,
                          timeBuf = put_at 17 (Pad2 (ex_second ex)) (put_at 14 (Pad2 (ex_minute ex))
                            (put_at 11 (Pad2 (ex_hour ex)) (put_at 8 (Pad2 (ex_day ex))
                            (put_at 5 (Pad2 (ex_month ex)) (put_at 0 (Pad4 (ex_year ex)) (timeBuf t))))))\<rparr>)
                else t)"
  have f1: "lastFormatSecond f1 = s" "timeBuf f1 = b"
    using assms(1) fill_buffer [of "timeBuf t"]
    by (simp_all add: f1_def b_def Let_def cache_ok_def Exploded_def kMillisecondsPerSecond_def second_text_def s_def)
  have "LocalTime_Format brk m t = (take 23 (timeBuf (f1\<lparr>timeBuf := put_at 20 (Pad3 v) (timeBuf f1)\<rparr>)),
      f1\<lparr>timeBuf := put_at 20 (Pad3 v) (timeBuf f1)\<rparr>)"
    unfolding LocalTime_Format_def f1_def Let_def s_def [symmetric] v by (rule refl)
  also have "\<dots> = (take 23 (put_at 20 (Pad3 v) b), f1\<lparr>timeBuf := put_at 20 (Pad3 v) b\<rparr>)"
    by (simp add: f1(2))
  also have "put_at 20 (Pad3 v) b = second_text (brk s) @ Pad3 v"
    using put_ms [OF lenb] take20 by simp
  finally have "LocalTime_Format brk m t = (time_text brk (logTime m), f1\<lparr>timeBuf := second_text (brk s) @ Pad3 v\<rparr>)"
    by (simp add: time_text_def Let_def s_def [symmetric] v_def [symmetric] Pad3_def)
  moreover have "cache_ok brk (f1\<lparr>timeBuf := second_text (brk s) @ Pad3 v\<rparr>)"
    using f1(1) by (simp add: cache_ok_def second_text_shape Pad3_def)
  ultimately show ?thesis by blast
qed

lemma Flag_Format_exact:
  assumes "\<forall>t. f = TimeFormatter t \<longrightarrow> cache_ok brk t" "tdiv (TimeSinceEpochMilliSeconds (logTime m)) 1000 \<noteq> 0"
  shows "\<exists>f'. Flag_Format brk m f = (flag_text brk m f, f') \<and> (\<forall>t. f' = TimeFormatter t \<longrightarrow> cache_ok brk t)
     \<and> (\<forall>m'. flag_text brk m' f' = flag_text brk m' f)"
proof (cases f)
  case (TimeFormatter t)
  obtain t' where "LocalTime_Format brk m t = (time_text brk (logTime m), t')" "cache_ok brk t'"
    using LocalTime_Format_exact [of brk t m] assms TimeFormatter by blast
  then show ?thesis by (simp add: TimeFormatter Flag_Format_def flag_text_def)
qed (simp_all add: Flag_Format_def flag_text_def)

lemma format_seq_exact:
  assumes "\<forall>t \<in> caches fs. cache_ok brk t" "tdiv (TimeSinceEpochMilliSeconds (logTime m)) 1000 \<noteq> 0"
  shows "\<exists>fs'. format_seq brk m fs = (seq_text brk m fs, fs') \<and> (\<forall>t \<in> caches fs'. cache_ok brk t)
     \<and> (\<forall>m'. seq_text brk m' fs' = seq_text brk m' fs)"
  using assms(1)
proof (induction fs)
  case Nil
  then show ?case by (simp add: caches_def)
next
  case (Cons f fs)
  have c: "caches (f # fs) = (case f of TimeFormatter t \<Rightarrow> {t} | _ \<Rightarrow> {}) \<union> caches fs" for f :: FlagFormatter and fs
    by (auto simp: caches_def split: FlagFormatter.splits)
  obtain fs' where 1: "format_seq brk m fs = (seq_text brk m fs, fs')" "\<forall>t \<in> caches fs'. cache_ok brk t"
      "\<forall>m'. seq_text brk m' fs' = seq_text brk m' fs"
    using Cons by (auto simp: caches_def)
  obtain f' where 2: "Flag_Format brk m f = (flag_text brk m f, f')" "\<forall>t. f' = TimeFormatter t \<longrightarrow> cache_ok brk t"
      "\<forall>m'. flag_text brk m' f' = flag_text brk m' f"
    using Flag_Format_exact [of f brk m] Cons.prems assms(2) by (auto simp: caches_def)
  have "\<forall>t \<in> caches (f' # fs'). cache_ok brk t" using 1(2) 2(2) by (auto simp: caches_def)
  then show ?case using 1 2 by simp
qed

fun format_all :: "(int \<Rightarrow> tm) \<Rightarrow> LogFormatter \<Rightarrow> LogMessage list \<Rightarrow> string list" where
  "format_all brk f [] = []"
| "format_all brk f (m # ms) = (case Formatter_Format brk m f of (s, f') \<Rightarrow> s # format_all brk f' ms)"

lemma format_all_exact:
  assumes "\<forall>t \<in> caches (formatSequence f). cache_ok brk t"
    "\<forall>m \<in> set ms. tdiv (TimeSinceEpochMilliSeconds (logTime m)) 1000 \<noteq> 0"
  shows "format_all brk f ms = map (\<lambda>m. seq_text brk m (formatSequence f)) ms"
  using assms
proof (induction ms arbitrary: f)
  case Nil
  then show ?case by simp
next
  case (Cons m ms)
  obtain fs' where "format_seq brk m (formatSequence f) = (seq_text brk m (formatSequence f), fs')"
      "\<forall>t \<in> caches fs'. cache_ok brk t" "\<forall>m'. seq_text brk m' fs' = seq_text brk m' (formatSequence f)"
    using format_seq_exact [OF Cons.prems(1), of m] Cons.prems(2) by auto
  then show ?case using Cons.IH [of "f\<lparr>formatSequence := fs'\<rparr>"] Cons.prems(2) by (simp add: Formatter_Format_def)
qed

text \<open>C17: A log pattern means what it says. A pattern compiles exactly when reading it from left to right succeeds (every
  percent sign is followed by a percent sign, a custom flag or one of the eleven built-in letters; custom
  flags take precedence), otherwise the process aborts; and a compiled formatter then renders every message
  of any sequence as the pattern read with that message, although its time flag keeps a cache of the last
  second. The cache is wrong for the second 0 of 1970 alone.\<close>

theorem pattern_renders:
  assumes "\<forall>m \<in> set ms. tdiv (TimeSinceEpochMilliSeconds (logTime m)) 1000 \<noteq> 0"
  shows "(\<forall>m. render brk flags m p = None) \<and> LogFormatter_new p flags = Inl Abort
     \<or> (\<exists>f. LogFormatter_new p flags = Inr f \<and> map Some (format_all brk f ms) = map (\<lambda>m. render brk flags m p) ms)"
proof (cases "compile_loop flags [] [] p")
  case None
  then show ?thesis
    using compile_loop_meaning [of flags "[]" "[]" p brk]
    by (simp add: LogFormatter_new_def CompilePatternOrAbort_def CompilePattern_def)
next
  case (Some gs)
  let ?f = "\<lparr>pattern = p, formatSequence = gs, flagMap = flags\<rparr>"
  have r: "render brk flags m p = Some (seq_text brk m gs)" "caches gs \<subseteq> {LocalTimeFormatter_new}" for m
    using compile_loop_meaning [of flags "[]" "[]" p brk m] Some by (auto simp: caches_def)
  have "format_all brk ?f ms = map (\<lambda>m. seq_text brk m gs) ms"
    using format_all_exact [of ?f brk ms] r(2) assms cache_ok_new by fastforce
  moreover have "LogFormatter_new p flags = Inr ?f"
    using Some by (simp add: LogFormatter_new_def CompilePatternOrAbort_def CompilePattern_def)
  ultimately show ?thesis using r(1) by simp
qed

definition demo_message :: LogMessage where
  "demo_message = \<lparr>msg_level = WARN, threadId = ''42'', threadName = ''main'', loggerName = ''main-logger'',
     function_name = ''f'', file_name = ''a/b.cpp'', line = 7, baseName = base_name ''a/b.cpp'',
     logTime = 951782400123456789, logLine = ''hello''\<rparr>"

lemma demo_render:
  "render gmtime (\<lambda>c. None) demo_message ''%T %L <%N:%t> %c [%b:%l]'' =
     Some ''2000-02-29 00:00:00.123 WARN  <main:42> hello [b.cpp:7]''"
  by code_simp

theorem pattern_renders_witness:
  "\<exists>f. LogFormatter_new ''%T %L <%N:%t> %c [%b:%l]'' (\<lambda>c. None) = Inr f
     \<and> format_all gmtime f [demo_message] = [''2000-02-29 00:00:00.123 WARN  <main:42> hello [b.cpp:7]'']"
proof -
  have "tdiv (TimeSinceEpochMilliSeconds 951782400123456789) 1000 \<noteq> 0" by code_simp
  then have "\<forall>m \<in> set [demo_message]. tdiv (TimeSinceEpochMilliSeconds (logTime m)) 1000 \<noteq> 0"
    by (simp add: demo_message_def)
  from pattern_renders [OF this, where brk = gmtime and flags = "\<lambda>c. None" and p = "''%T %L <%N:%t> %c [%b:%l]''"] demo_render
  obtain f where f: "LogFormatter_new ''%T %L <%N:%t> %c [%b:%l]'' (\<lambda>c. None) = Inr f"
      "map Some (format_all gmtime f [demo_message]) = map Some [''2000-02-29 00:00:00.123 WARN  <main:42> hello [b.cpp:7]'']"
    by (elim disjE exE) (metis option.distinct(1), simp del: render.simps format_all.simps)
  have "format_all gmtime f [demo_message] = [''2000-02-29 00:00:00.123 WARN  <main:42> hello [b.cpp:7]'']"
    using f(2) by (simp only: inj_map_eq_map [OF inj_Some])
  then show ?thesis using f(1) by blast
qed

text \<open>In the first second of 1970 the time is the placeholder.\<close>

lemma second_zero_placeholder:
  "fst (LocalTime_Format brk (demo_message\<lparr>logTime := 5000000\<rparr>) LocalTimeFormatter_new) = ''xxxx-xx-xx oo:oo:oo.005''"
  by code_simp

text \<open>A pattern that is not understood aborts: a percent sign at the end, an unknown letter.\<close>

lemma bad_patterns_abort:
  "LogFormatter_new ''100%'' (\<lambda>c. None) = Inl Abort" "LogFormatter_new ''%x'' (\<lambda>c. None) = Inl Abort"
  by (simp_all add: LogFormatter_new_def CompilePatternOrAbort_def CompilePattern_def HandleFlag_def)

text \<open>A clone has the same pattern and flags, compiled anew.\<close>

lemma Clone_same: "LogFormatter_new p flags = Inr f \<Longrightarrow> Formatter_Clone f = LogFormatter_new p flags"
  by (auto simp: Formatter_Clone_def LogFormatter_new_def CompilePatternOrAbort_def CompilePattern_def
      split: option.splits)

text \<open>The flags of the coloured output, and what a coloured level looks like.\<close>

definition color_flags :: FlagMap where
  "color_flags c = (if c = CHR ''C'' then Some (\<lambda>m. case ColorStartFlag m of Some s \<Rightarrow> s | None \<Rightarrow> [])
     else if c = CHR ''E'' then Some (\<lambda>m. ColorEnd) else None)"

lemma colored_level:
  assumes "msg_level m \<noteq> OFF"
  shows "\<exists>n. render brk color_flags m ''%C%L%E'' =
     Some (color_escape @ show_nat n @ ''m'' @ kLogLevels ! level_num (msg_level m) @ ColorEnd)"
proof -
  obtain f where "ColorStartFlag m = Some (ColorControl_front f)"
    using assms by (cases "msg_level m") (auto simp: ColorStartFlag_def level_num_def)
  then show ?thesis
    by (auto simp: color_flags_def default_flag_def ColorControl_front_def Pad_show_nat color_codes_small)
qed

end
