(* ===== verification/Logger.thy ===== *)
theory Logger
  imports LogFormatter
begin

text \<open>
  \<open>cold/log/Logger.{h,cpp}\<close>, \<open>LogFactory.h\<close>, \<open>LogSinkFactory.h\<close>, the sinks of \<open>cold/log/sinks\<close> and
  \<open>cold/util/Config.h\<close>.

  \<^item> Sinks are shared: a logger holds their numbers, the \<open>log_world\<close> maps numbers to sinks. A sink has what was
    written to its stream and not yet flushed, and what was flushed; the streams of two sinks on standard
    output are kept apart. The world also has the sinks whose mutex the thread holds: locking one again is
    \<open>Inl Deadlock\<close>.
  \<^item> A sink may log itself (a file sink that could not open its file), so the operations take fuel, the depth
    of nested log calls; \<open>Inl Undefined\<close> is running out of it. The properties hold from fuel 2 on: a second
    nested call always meets a locked mutex.
  \<^item> The JSON library is outside: a configuration is a map from JSON pointers to values, \<open>parse\<close> and \<open>dump\<close> are
    parameters, and the pointers the code uses address distinct leaves.
\<close>

section \<open>Sinks\<close>

datatype sink_kind = NullSink | StdoutSink | StdoutColorSink | BasicFileSink

record LogSink =
  kind :: sink_kind
  formatter :: LogFormatter
  fp :: bool
  buffered :: string
  flushed :: string
  lastFlushTime :: int

definition kDefaultPattern :: string where
  "kDefaultPattern = ''%T %L <%N:%t> %c [%b:%l]%n''"

definition kColorPattern :: string where
  "kColorPattern = ''%T %C%L%E <%N:%t> %c [%b:%l]%n''"

definition kFlushInterval :: int where
  "kFlushInterval = 5 * kNanoSecondsPerSecond"

definition LogSink_new :: "sink_kind \<Rightarrow> string \<Rightarrow> FlagMap \<Rightarrow> bool \<Rightarrow> LogSink result" where
  "LogSink_new k p flags opened = bind_result (LogFormatter_new p flags)
     (\<lambda>f. Inr \<lparr>kind = k, formatter = f, fp = opened, buffered = [], flushed = [], lastFlushTime = 0\<rparr>)"

definition NullLogSink_new :: "LogSink result" where
  "NullLogSink_new = LogSink_new NullSink kDefaultPattern (\<lambda>c. None) False"

definition StdoutSink_new :: "LogSink result" where
  "StdoutSink_new = LogSink_new StdoutSink kDefaultPattern (\<lambda>c. None) False"

definition StdoutColorSink_new :: "LogSink result" where
  "StdoutColorSink_new = LogSink_new StdoutColorSink kColorPattern color_flags False"

text \<open>\<open>app\<close> (append) decides what is in the file at the start; \<open>content\<close> is \<open>None\<close> when \<open>fopen\<close> fails.\<close>

definition BasicFileSink_new :: "bool \<Rightarrow> string option \<Rightarrow> LogSink result" where
  "BasicFileSink_new app content = bind_result (LogSink_new BasicFileSink kDefaultPattern (\<lambda>c. None) (content \<noteq> None))
     (\<lambda>s. Inr (s\<lparr>flushed := (if app then case content of None \<Rightarrow> [] | Some t \<Rightarrow> t else [])\<rparr>))"

definition flush_sink :: "LogSink \<Rightarrow> LogSink" where
  "flush_sink s = s\<lparr>flushed := flushed s @ buffered s, buffered := []\<rparr>"

text \<open>The part of \<open>DoSink\<close> that formats and writes.\<close>

definition write_sink :: "(int \<Rightarrow> tm) \<Rightarrow> LogMessage \<Rightarrow> LogSink \<Rightarrow> LogSink" where
  "write_sink brk m s = (case Formatter_Format brk m (formatter s) of (t, f) \<Rightarrow>
     s\<lparr>formatter := f, buffered := buffered s @ t\<rparr>)"

definition file_DoSink :: "(int \<Rightarrow> tm) \<Rightarrow> LogMessage \<Rightarrow> LogSink \<Rightarrow> LogSink" where
  "file_DoSink brk m s = (let s1 = write_sink brk m s; elapsed = logTime m - lastFlushTime s1
     in if elapsed > kFlushInterval then (flush_sink s1)\<lparr>lastFlushTime := logTime m\<rparr> else s1)"

definition stdout_DoSink :: "(int \<Rightarrow> tm) \<Rightarrow> LogMessage \<Rightarrow> LogSink \<Rightarrow> LogSink" where
  "stdout_DoSink brk m s = flush_sink (write_sink brk m s)"

section \<open>Loggers\<close>

record Logger =
  name :: string
  loggerLevel :: LogLevel
  flushLevel :: LogLevel
  loggerSinks :: "nat list"

definition Logger_new :: "string \<Rightarrow> nat list \<Rightarrow> Logger" where
  "Logger_new n ss = \<lparr>name = n, loggerLevel = INFO, flushLevel = OFF, loggerSinks = ss\<rparr>"

record log_world =
  sinks :: "nat \<Rightarrow> LogSink"
  held :: "nat set"

text \<open>What a nested \<open>ERROR\<close> call uses: \<open>localtime_r\<close>, the main logger, and the message it makes.\<close>

record log_env =
  env_brk :: "int \<Rightarrow> tm"
  main_logger :: Logger
  error_message :: LogMessage

definition ShouldFlush :: "Logger \<Rightarrow> LogMessage \<Rightarrow> bool" where
  "ShouldFlush lg m \<longleftrightarrow> msg_level m \<noteq> OFF \<and> flushLevel lg \<le> msg_level m"

definition put_sink :: "nat \<Rightarrow> LogSink \<Rightarrow> log_world \<Rightarrow> log_world" where
  "put_sink i s w = w\<lparr>sinks := (sinks w)(i := s)\<rparr>"

text \<open>\<open>DoFlush\<close>; \<open>fflush\<close> of a null stream flushes every stream.\<close>

definition DoFlush :: "nat \<Rightarrow> log_world \<Rightarrow> log_world" where
  "DoFlush i w = (case kind (sinks w i) of
      NullSink \<Rightarrow> w
    | BasicFileSink \<Rightarrow> if fp (sinks w i) then put_sink i (flush_sink (sinks w i)) w
        else w\<lparr>sinks := (\<lambda>j. flush_sink (sinks w j))\<rparr>
    | _ \<Rightarrow> put_sink i (flush_sink (sinks w i)) w)"

fun Logger_Flush :: "nat list \<Rightarrow> log_world \<Rightarrow> log_world result" where
  "Logger_Flush [] w = Inr w"
| "Logger_Flush (i # is) w = (if i \<in> held w then Inl Deadlock else Logger_Flush is (DoFlush i w))"

text \<open>The tail of \<open>SinkIt\<close>; the flag tells whether the process aborts.\<close>

definition after_sinks :: "Logger \<Rightarrow> LogMessage \<Rightarrow> log_world \<Rightarrow> (bool \<times> log_world) result" where
  "after_sinks lg m w = bind_result (if ShouldFlush lg m then Logger_Flush (loggerSinks lg) w else Inr w)
     (\<lambda>w'. Inr (msg_level m = FATAL, w'))"

definition sinks_for :: "Logger \<Rightarrow> LogMessage \<Rightarrow> nat list" where
  "sinks_for lg m = (if loggerLevel lg \<le> msg_level m then loggerSinks lg else [])"

text \<open>\<open>LogSink::Sink\<close> for the sinks of a list, in order.\<close>

function sink_list :: "nat \<Rightarrow> log_env \<Rightarrow> LogMessage \<Rightarrow> nat list \<Rightarrow> log_world \<Rightarrow> log_world result" where
  "sink_list fuel env m [] w = Inr w"
| "sink_list 0 env m (i # is) w = Inl Undefined"
| "sink_list (Suc fuel) env m (i # is) w =
     (if i \<in> held w then Inl Deadlock
      else let s = sinks w i; brk = env_brk env
           in bind_result
                (case kind s of
                   NullSink \<Rightarrow> Inr w
                 | BasicFileSink \<Rightarrow>
                     if fp s then Inr (put_sink i (file_DoSink brk m s) w)
                     else let lg = main_logger env; e = error_message env; w1 = w\<lparr>held := insert i (held w)\<rparr>
                          in if loggerLevel lg = OFF then Inr w
                             else bind_result (sink_list fuel env e (sinks_for lg e) w1)
                               (\<lambda>w2. bind_result (after_sinks lg e w2) (\<lambda>(a, w3). Inr (w3\<lparr>held := held w\<rparr>)))
                 | _ \<Rightarrow> Inr (put_sink i (stdout_DoSink brk m s) w))
                (sink_list (Suc fuel) env m is))"
  by pat_completeness auto
termination by (relation "measures [\<lambda>(fuel, env, m, is, w). fuel, \<lambda>(fuel, env, m, is, w). length is]") auto

definition SinkIt :: "nat \<Rightarrow> log_env \<Rightarrow> LogMessage \<Rightarrow> Logger \<Rightarrow> log_world \<Rightarrow> (bool \<times> log_world) result" where
  "SinkIt fuel env m lg w =
     (if loggerLevel lg = OFF then Inr (False, w)
      else if \<not> msg_level m < OFF then Inl AssertFail
      else if \<not> loggerLevel lg \<le> FATAL then Inl AssertFail
      else bind_result (sink_list fuel env m (sinks_for lg m) w) (after_sinks lg m))"

definition Log :: "nat \<Rightarrow> log_env \<Rightarrow> LogLevel \<Rightarrow> string \<Rightarrow> nat \<Rightarrow> string \<Rightarrow> string \<Rightarrow> string \<Rightarrow> int \<Rightarrow> string \<Rightarrow> Logger \<Rightarrow> log_world
    \<Rightarrow> (bool \<times> log_world) result" where
  "Log fuel env level file ln function tid tname now text lg w =
     SinkIt fuel env \<lparr>msg_level = level, threadId = tid, threadName = tname, loggerName = name lg, function_name = function,
       file_name = file, line = ln, baseName = base_name file, logTime = now, logLine = text\<rparr> lg w"

definition SetLevel :: "LogLevel \<Rightarrow> Logger \<Rightarrow> Logger" where "SetLevel l lg = lg\<lparr>loggerLevel := l\<rparr>"
definition SetFlushLevel :: "LogLevel \<Rightarrow> Logger \<Rightarrow> Logger" where "SetFlushLevel l lg = lg\<lparr>flushLevel := l\<rparr>"

fun Logger_SetPattern :: "string \<Rightarrow> nat list \<Rightarrow> log_world \<Rightarrow> log_world result" where
  "Logger_SetPattern p [] w = Inr w"
| "Logger_SetPattern p (i # is) w = (if i \<in> held w then Inl Deadlock
     else bind_result (Formatter_SetPattern p (formatter (sinks w i)))
       (\<lambda>f. Logger_SetPattern p is (put_sink i ((sinks w i)\<lparr>formatter := f\<rparr>) w)))"

fun Logger_SetFormatter :: "LogFormatter \<Rightarrow> nat list \<Rightarrow> log_world \<Rightarrow> log_world result" where
  "Logger_SetFormatter f [] w = Inr w"
| "Logger_SetFormatter f (i # is) w = bind_result (Formatter_Clone f)
     (\<lambda>g. if i \<in> held w then Inl Deadlock else Logger_SetFormatter f is (put_sink i ((sinks w i)\<lparr>formatter := g\<rparr>) w))"

section \<open>The log manager, the factories and the configuration\<close>

record LogManager =
  mainLogger :: Logger
  loggersMap :: "Logger smap"

definition GetLogger :: "string \<Rightarrow> LogManager \<Rightarrow> Logger option" where
  "GetLogger n lm = smap_get (loggersMap lm) n"

definition RemoveLogger :: "string \<Rightarrow> LogManager \<Rightarrow> bool \<times> LogManager" where
  "RemoveLogger n lm = (smap_contains (loggersMap lm) n, lm\<lparr>loggersMap := smap_erase (loggersMap lm) n\<rparr>)"

definition AddLogger :: "Logger \<Rightarrow> LogManager \<Rightarrow> LogManager" where
  "AddLogger lg lm = lm\<lparr>loggersMap := smap_set (loggersMap lm) (name lg) lg\<rparr>"

definition SetMainLogger :: "Logger \<Rightarrow> LogManager \<Rightarrow> LogManager" where
  "SetMainLogger lg lm = lm\<lparr>mainLogger := lg\<rparr>"

definition MakeLogger :: "string \<Rightarrow> nat list \<Rightarrow> LogManager \<Rightarrow> Logger \<times> LogManager" where
  "MakeLogger n ss lm = (let lg = Logger_new n ss in (lg, AddLogger lg lm))"

definition to_lower :: "char \<Rightarrow> char" where
  "to_lower c = (if 65 \<le> (of_char c :: nat) \<and> (of_char c :: nat) \<le> 90 then char_of ((of_char c :: nat) + 32) else c)"

definition strcasecmp_eq :: "string \<Rightarrow> string \<Rightarrow> bool" where
  "strcasecmp_eq a b \<longleftrightarrow> map to_lower a = map to_lower b"

text \<open>\<open>MakeSink\<close> by name; \<open>args\<close> are the file name and the append flag, \<open>contents\<close> the file as \<open>fopen\<close> finds it.\<close>

definition sink_makers :: "(string \<times> sink_kind) list" where
  "sink_makers = [(''basicfilesink'', BasicFileSink), (''nullsink'', NullSink), (''stdoutcolorsink'', StdoutColorSink),
     (''stdoutsink'', StdoutSink)]"

definition MakeSink :: "(string \<Rightarrow> string option) \<Rightarrow> string \<Rightarrow> string \<Rightarrow> (string \<times> bool) option \<Rightarrow> LogSink result" where
  "MakeSink contents type p args =
     (case find (\<lambda>(n, k). strcasecmp_eq n type) sink_makers of
        None \<Rightarrow> Inl AssertFail
      | Some (n, k) \<Rightarrow> bind_result
          (case k of NullSink \<Rightarrow> NullLogSink_new | StdoutSink \<Rightarrow> StdoutSink_new | StdoutColorSink \<Rightarrow> StdoutColorSink_new
             | BasicFileSink \<Rightarrow> (case args of None \<Rightarrow> Inl Undefined | Some (f, a) \<Rightarrow> BasicFileSink_new a (contents f)))
          (\<lambda>s. if p = [] then Inr s
               else bind_result (Formatter_SetPattern p (formatter s)) (\<lambda>f. Inr (s\<lparr>formatter := f\<rparr>))))"

record 'v Config =
  configFilePath :: string
  configJson :: "'v smap"

text \<open>The files of the process by path; \<open>writable\<close> says whether a path can be opened for writing.\<close>

definition SaveConfig :: "('v smap \<Rightarrow> string) \<Rightarrow> bool \<Rightarrow> 'v Config \<Rightarrow> (string \<rightharpoonup> string) \<Rightarrow> bool \<times> (string \<rightharpoonup> string)" where
  "SaveConfig dump writable c files = (if writable then (True, files(configFilePath c \<mapsto> dump (configJson c))) else (False, files))"

definition SetConfig :: "('v smap \<Rightarrow> string) \<Rightarrow> bool \<Rightarrow> string \<Rightarrow> 'v \<Rightarrow> 'v Config \<Rightarrow> (string \<rightharpoonup> string)
    \<Rightarrow> 'v Config \<times> (string \<rightharpoonup> string)" where
  "SetConfig dump writable k v c files =
     (let c' = c\<lparr>configJson := smap_set (configJson c) k v\<rparr> in (c', snd (SaveConfig dump writable c' files)))"

definition GetOrDefault :: "('v smap \<Rightarrow> string) \<Rightarrow> bool \<Rightarrow> string \<Rightarrow> 'v \<Rightarrow> 'v Config \<Rightarrow> (string \<rightharpoonup> string)
    \<Rightarrow> 'v \<times> 'v Config \<times> (string \<rightharpoonup> string)" where
  "GetOrDefault dump writable k d c files = (case smap_get (configJson c) k of
      Some v \<Rightarrow> (v, c, files) | None \<Rightarrow> (d, SetConfig dump writable k d c files))"

definition LoadConfig :: "(string \<Rightarrow> 'v smap option) \<Rightarrow> string \<Rightarrow> (string \<rightharpoonup> string) \<Rightarrow> 'v Config \<Rightarrow> bool \<times> 'v Config" where
  "LoadConfig parse path files c = (case files path of
      None \<Rightarrow> (False, c)
    | Some buf \<Rightarrow> (case parse buf of None \<Rightarrow> (False, c) | Some j \<Rightarrow> (True, \<lparr>configFilePath = path, configJson = j\<rparr>)))"

definition Config_of_file :: "(string \<Rightarrow> 'v smap option) \<Rightarrow> string \<Rightarrow> (string \<rightharpoonup> string) \<Rightarrow> 'v Config" where
  "Config_of_file parse path files = snd (LoadConfig parse path files \<lparr>configFilePath = [], configJson = []\<rparr>)"

definition GlobalDefaultConfig :: "(string \<Rightarrow> 'v smap option) \<Rightarrow> string option \<Rightarrow> (string \<rightharpoonup> string) \<Rightarrow> 'v Config" where
  "GlobalDefaultConfig parse env files =
     (let p = (case env of None \<Rightarrow> ''config.json'' | Some e \<Rightarrow> e); c = \<lparr>configFilePath = [], configJson = []\<rparr>
      in if files p = None then c\<lparr>configFilePath := p\<rparr> else snd (LoadConfig parse p files c))"

text \<open>The levels that the constructor of \<open>LogManager\<close> sets.\<close>

definition level_names :: "(LogLevel \<times> string) list" where
  "level_names = [(TRACE, ''trace''), (DEBUG, ''debug''), (INFO, ''info''), (WARN, ''warn''), (ERROR, ''error''),
     (FATAL, ''fatal''), (OFF, ''off'')]"

definition set_level_step :: "string \<Rightarrow> string \<Rightarrow> LogLevel \<times> string \<Rightarrow> Logger \<Rightarrow> Logger" where
  "set_level_step level flush_level ln lg =
     (let lg1 = (if strcasecmp_eq level (snd ln) then SetLevel (fst ln) lg else lg)
      in if \<not> strcasecmp_eq flush_level (snd ln) then SetFlushLevel (fst ln) lg1 else lg1)"

text \<open>The constructor reads the names and levels, then makes the sinks: \<open>None\<close> for a configuration without
  \<open>/logs/sinks\<close>, otherwise the type, pattern and arguments of each; new sinks are numbered in order.\<close>

definition LogManager_sink ::
    "(string \<Rightarrow> string option) \<Rightarrow> string \<Rightarrow> string \<times> string \<times> (string \<times> bool) option \<Rightarrow> LogSink result" where
  "LogManager_sink contents loggerPattern sc = (case sc of (type, p, args) \<Rightarrow>
     bind_result (MakeSink contents type p args)
       (\<lambda>s. if p = [] \<and> loggerPattern \<noteq> []
            then bind_result (Formatter_SetPattern loggerPattern (formatter s)) (\<lambda>f. Inr (s\<lparr>formatter := f\<rparr>)) else Inr s))"

fun LogManager_sinks :: "(string \<Rightarrow> string option) \<Rightarrow> string \<Rightarrow> (string \<times> string \<times> (string \<times> bool) option) list
    \<Rightarrow> LogSink list result" where
  "LogManager_sinks contents loggerPattern [] = Inr []"
| "LogManager_sinks contents loggerPattern (sc # scs) =
     bind_result (LogManager_sink contents loggerPattern sc)
       (\<lambda>s. bind_result (LogManager_sinks contents loggerPattern scs) (\<lambda>ss. Inr (s # ss)))"

definition LogManager_new ::
    "(string smap \<Rightarrow> string) \<Rightarrow> bool \<Rightarrow> (string \<Rightarrow> string option) \<Rightarrow> (string \<times> string \<times> (string \<times> bool) option) list option
     \<Rightarrow> string Config \<Rightarrow> (string \<rightharpoonup> string) \<Rightarrow> (Logger \<times> LogSink list) result" where
  "LogManager_new dump writable contents sinks_config c files =
     (let (n, c1, files1) = GetOrDefault dump writable ''/logs/name'' ''main-logger'' c files;
          (level, c2, files2) = GetOrDefault dump writable ''/logs/level'' ''info'' c1 files1;
          (flush_level, c3, files3) = GetOrDefault dump writable ''/logs/level'' ''flush-level'' c2 files2;
          (loggerPattern, c4, files4) = GetOrDefault dump writable ''/logs/pattern'' [] c3 files3;
          scs = (case sinks_config of Some scs \<Rightarrow> scs | None \<Rightarrow> [(''stdoutcolorsink'', [], None)])
      in bind_result (LogManager_sinks contents loggerPattern scs)
           (\<lambda>ss. Inr (fold (set_level_step level flush_level) level_names (Logger_new n [0..<length ss]), ss)))"

section \<open>Delivery\<close>

definition healthy :: "log_world \<Rightarrow> nat \<Rightarrow> bool" where
  "healthy w i \<longleftrightarrow> i \<notin> held w \<and> (kind (sinks w i) = BasicFileSink \<longrightarrow> fp (sinks w i))"

definition sink_written :: "(int \<Rightarrow> tm) \<Rightarrow> LogMessage \<Rightarrow> LogSink \<Rightarrow> LogSink" where
  "sink_written brk m s = (case kind s of NullSink \<Rightarrow> s | BasicFileSink \<Rightarrow> file_DoSink brk m s | _ \<Rightarrow> stdout_DoSink brk m s)"

definition contents :: "LogSink \<Rightarrow> string" where
  "contents s = flushed s @ buffered s"

definition update_sinks :: "nat list \<Rightarrow> (LogSink \<Rightarrow> LogSink) \<Rightarrow> log_world \<Rightarrow> log_world" where
  "update_sinks is f w = w\<lparr>sinks := (\<lambda>j. if j \<in> set is then f (sinks w j) else sinks w j)\<rparr>"

lemma update_sinks_simps [simp]:
  "update_sinks [] f w = w"
  "held (update_sinks is f w) = held w"
  "sinks (update_sinks is f w) j = (if j \<in> set is then f (sinks w j) else sinks w j)"
  by (simp_all add: update_sinks_def)

lemma put_then_update:
  "i \<notin> set is \<Longrightarrow> update_sinks is f (put_sink i (f (sinks w i)) w) = update_sinks (i # is) f w"
  by (auto simp: update_sinks_def put_sink_def fun_eq_iff)

lemma kind_written [simp]: "kind (sink_written brk m s) = kind s" "fp (sink_written brk m s) = fp s"
  by (simp_all add: sink_written_def file_DoSink_def stdout_DoSink_def write_sink_def flush_sink_def Let_def
      split: sink_kind.splits prod.splits)

lemma sink_list_healthy:
  "distinct is \<Longrightarrow> \<forall>i \<in> set is. healthy w i \<Longrightarrow>
     sink_list (Suc fuel) env m is w = Inr (update_sinks is (sink_written (env_brk env) m) w)"
proof (induction "is" arbitrary: w)
  case Nil
  then show ?case by simp
next
  case (Cons i "is")
  let ?w = "put_sink i (sink_written (env_brk env) m (sinks w i)) w"
  have "\<forall>j \<in> set is. healthy ?w j" using Cons.prems by (auto simp: healthy_def put_sink_def)
  then have IH: "sink_list (Suc fuel) env m is ?w = Inr (update_sinks (i # is) (sink_written (env_brk env) m) w)"
    using Cons.IH [of ?w] Cons.prems by (simp add: put_then_update)
  have "sink_list (Suc fuel) env m (i # is) w = sink_list (Suc fuel) env m is ?w"
    using Cons.prems by (cases "kind (sinks w i)")
      (simp_all add: Let_def healthy_def sink_written_def put_sink_def)
  then show ?case using IH by simp
qed

definition sink_flushed :: "LogSink \<Rightarrow> LogSink" where
  "sink_flushed s = (if kind s = NullSink then s else flush_sink s)"

lemma Logger_Flush_healthy:
  "distinct is \<Longrightarrow> \<forall>i \<in> set is. healthy w i \<Longrightarrow> Logger_Flush is w = Inr (update_sinks is sink_flushed w)"
proof (induction "is" arbitrary: w)
  case Nil
  then show ?case by simp
next
  case (Cons i "is")
  let ?w = "put_sink i (sink_flushed (sinks w i)) w"
  have "\<forall>j \<in> set is. healthy ?w j" using Cons.prems by (auto simp: healthy_def put_sink_def)
  then have IH: "Logger_Flush is ?w = Inr (update_sinks (i # is) sink_flushed w)"
    using Cons.IH [of ?w] Cons.prems by (simp add: put_then_update)
  have "Logger_Flush (i # is) w = Logger_Flush is ?w"
    using Cons.prems by (cases "kind (sinks w i)") (auto simp: healthy_def DoFlush_def sink_flushed_def put_sink_def)
  then show ?case using IH by simp
qed

lemma contents_written:
  "contents (sink_written brk m s) = contents s @ (if kind s = NullSink then [] else fst (Formatter_Format brk m (formatter s)))"
  by (simp add: contents_def sink_written_def file_DoSink_def stdout_DoSink_def write_sink_def flush_sink_def Let_def
      split: sink_kind.splits prod.splits)

lemma contents_flushed [simp]: "contents (sink_flushed s) = contents s" "kind (sink_flushed s) = kind s"
  by (simp_all add: contents_def sink_flushed_def flush_sink_def)

lemma level_bounds: "l < OFF \<longleftrightarrow> l \<noteq> OFF" "l \<le> FATAL \<longleftrightarrow> l \<noteq> OFF" "OFF \<le> l \<longleftrightarrow> l = OFF" for l :: LogLevel
  by (cases l; simp add: less_LogLevel_def less_eq_LogLevel_def level_num_def)+

lemma SinkIt_healthy:
  assumes "distinct (loggerSinks lg)" "\<forall>i \<in> set (loggerSinks lg). healthy w i"
    and "loggerLevel lg \<noteq> OFF" "msg_level m \<noteq> OFF"
  shows "SinkIt (Suc fuel) env m lg w = Inr (msg_level m = FATAL,
     let w1 = update_sinks (sinks_for lg m) (sink_written (env_brk env) m) w
     in if ShouldFlush lg m then update_sinks (loggerSinks lg) sink_flushed w1 else w1)"
proof -
  let ?is = "loggerSinks lg"
  let ?w1 = "update_sinks (sinks_for lg m) (sink_written (env_brk env) m) w"
  have lvl: "msg_level m < OFF" "loggerLevel lg \<le> FATAL"
    using assms(3,4) by (simp_all add: level_bounds)
  have 1: "sink_list (Suc fuel) env m (sinks_for lg m) w = Inr ?w1"
    using assms(1,2) by (intro sink_list_healthy) (auto simp: sinks_for_def)
  have h1: "\<forall>i \<in> set ?is. healthy ?w1 i" using assms(2) by (simp add: healthy_def)
  show ?thesis
    using lvl 1 assms(3) Logger_Flush_healthy [OF assms(1) h1] by (simp add: SinkIt_def after_sinks_def Let_def)
qed

text \<open>C15: Logging delivers. A message at or above the level of its logger is appended, formatted with the sink's own
  formatter, to each of the logger's sinks and to no other; a message below it to none. From the flush level
  on, nothing of the logger's streams stays buffered; a fatal message aborts, after it was written and
  flushed as its level demands. The sinks are distinct, none is locked by this thread, and the file sinks
  among them have their file.\<close>

theorem logger_delivers:
  assumes "distinct (loggerSinks lg)" "\<forall>i \<in> set (loggerSinks lg). healthy w i"
    and "loggerLevel lg \<noteq> OFF" "msg_level m \<noteq> OFF"
  shows "\<exists>w'. SinkIt (Suc fuel) env m lg w = Inr (msg_level m = FATAL, w') \<and> held w' = held w
     \<and> (\<forall>i. contents (sinks w' i) = contents (sinks w i)
          @ (if i \<in> set (loggerSinks lg) \<and> loggerLevel lg \<le> msg_level m \<and> kind (sinks w i) \<noteq> NullSink
             then fst (Formatter_Format (env_brk env) m (formatter (sinks w i))) else []))
     \<and> (flushLevel lg \<le> msg_level m \<longrightarrow>
          (\<forall>i \<in> set (loggerSinks lg). kind (sinks w i) \<noteq> NullSink \<longrightarrow> buffered (sinks w' i) = []))"
proof -
  let ?is = "loggerSinks lg"
  let ?w1 = "update_sinks (sinks_for lg m) (sink_written (env_brk env) m) w"
  let ?w2 = "if ShouldFlush lg m then update_sinks ?is sink_flushed ?w1 else ?w1"
  have "SinkIt (Suc fuel) env m lg w = Inr (msg_level m = FATAL, ?w2)"
    using SinkIt_healthy [OF assms] by (simp add: Let_def)
  moreover have "contents (sinks ?w2 i) = contents (sinks w i)
          @ (if i \<in> set ?is \<and> loggerLevel lg \<le> msg_level m \<and> kind (sinks w i) \<noteq> NullSink
             then fst (Formatter_Format (env_brk env) m (formatter (sinks w i))) else [])" for i
    by (simp add: sinks_for_def contents_written)
  moreover have "buffered (sinks ?w2 i) = []"
    if "flushLevel lg \<le> msg_level m" "i \<in> set ?is" "kind (sinks w i) \<noteq> NullSink" for i
  proof -
    have "ShouldFlush lg m" using that assms(4) by (simp add: ShouldFlush_def)
    then show ?thesis using that by (simp add: sink_flushed_def flush_sink_def)
  qed
  ultimately show ?thesis by (intro exI [of _ ?w2]) simp
qed

definition demo_sink :: LogSink where
  "demo_sink = \<lparr>kind = BasicFileSink, formatter = \<lparr>pattern = ''%c'', formatSequence = [LogLineFormatter], flagMap = (\<lambda>c. None)\<rparr>,
     fp = True, buffered = ''old '', flushed = [], lastFlushTime = 951782400000000000\<rparr>"

definition demo_env :: log_env where
  "demo_env = \<lparr>env_brk = gmtime, main_logger = Logger_new ''main-logger'' [0], error_message = demo_message\<lparr>msg_level := ERROR\<rparr>\<rparr>"

theorem logger_delivers_witness:
  "\<exists>w'. SinkIt 1 demo_env demo_message (Logger_new ''x'' [0]) \<lparr>sinks = (\<lambda>i. demo_sink), held = {}\<rparr> = Inr (False, w')
     \<and> contents (sinks w' 0) = ''old hello'' \<and> contents (sinks w' 1) = ''old ''"
proof -
  let ?lg = "Logger_new ''x'' [0]" and ?w = "\<lparr>sinks = (\<lambda>i. demo_sink), held = {}\<rparr>"
  have "distinct (loggerSinks ?lg)" "\<forall>i \<in> set (loggerSinks ?lg). healthy ?w i" "loggerLevel ?lg \<noteq> OFF"
    by (simp_all add: Logger_new_def healthy_def demo_sink_def)
  moreover have "msg_level demo_message \<noteq> OFF" by (simp add: demo_message_def)
  ultimately obtain w' where w': "SinkIt (Suc 0) demo_env demo_message ?lg ?w = Inr (msg_level demo_message = FATAL, w')"
    "\<And>i. contents (sinks w' i) = contents (sinks ?w i)
          @ (if i \<in> set (loggerSinks ?lg) \<and> loggerLevel ?lg \<le> msg_level demo_message \<and> kind (sinks ?w i) \<noteq> NullSink
             then fst (Formatter_Format (env_brk demo_env) demo_message (formatter (sinks ?w i))) else [])"
    using logger_delivers [of ?lg ?w demo_message 0 demo_env] by blast
  have "Formatter_Format gmtime demo_message (formatter demo_sink) = (''hello'', formatter demo_sink)"
    by (simp add: Formatter_Format_def demo_sink_def Flag_Format_def demo_message_def)
  then have "contents (sinks w' 0) = ''old hello''" "contents (sinks w' 1) = ''old ''"
    unfolding w'(2) by (simp_all add: Logger_new_def demo_env_def demo_message_def demo_sink_def contents_def
        less_eq_LogLevel_def level_num_def)
  then show ?thesis using w'(1) by (intro exI [of _ w']) (simp add: demo_message_def)
qed

text \<open>A logger that is off does nothing: not even a fatal message ends the process.\<close>

lemma off_logger_never_aborts: "loggerLevel lg = OFF \<Longrightarrow> SinkIt fuel env m lg w = Inr (False, w)"
  by (simp add: SinkIt_def)

lemma sink_list_append:
  "sink_list (Suc fuel) env m (xs @ ys) w = bind_result (sink_list (Suc fuel) env m xs w) (sink_list (Suc fuel) env m ys)"
proof (induction xs arbitrary: w)
  case Nil
  then show ?case by simp
next
  case (Cons i xs)
  have assoc: "bind_result (bind_result r f) g = bind_result r (\<lambda>a. bind_result (f a) g)"
    for r :: "'a result" and f :: "'a \<Rightarrow> 'b result" and g :: "'b \<Rightarrow> 'c result"
    by (cases r) simp_all
  have IH: "sink_list (Suc fuel) env m (xs @ ys) = (\<lambda>w. bind_result (sink_list (Suc fuel) env m xs w) (sink_list (Suc fuel) env m ys))"
    using Cons.IH by (rule ext)
  show ?case by (cases "i \<in> held w") (simp_all only: append.simps sink_list.simps Let_def if_True if_False assoc IH bind_result_simps)
qed

text \<open>A file sink of the main logger that has no file hangs the process at the first message: the sink
  reports itself through the main logger while it holds its own mutex, and the nested message comes to that
  sink again. It holds for any enabled message, whatever sinks stand before it.\<close>

theorem broken_file_sink_hangs:
  assumes "loggerSinks (main_logger env) = pre @ i # post" "distinct pre" "i \<notin> set pre" "\<forall>j \<in> set pre. healthy w j"
    and "kind (sinks w i) = BasicFileSink" "\<not> fp (sinks w i)" "i \<notin> held w"
    and "loggerLevel (main_logger env) \<le> msg_level (error_message env)"
    and "loggerLevel (main_logger env) \<le> msg_level m" "msg_level m < OFF"
  shows "SinkIt (Suc (Suc fuel)) env m (main_logger env) w = Inl Deadlock"
proof -
  let ?lg = "main_logger env" and ?e = "error_message env"
  have lvl: "loggerLevel ?lg \<noteq> OFF" "loggerLevel ?lg \<le> FATAL"
    using assms(9,10) by (auto simp: level_bounds)
  have nested: "sink_list (Suc n) env ?e (pre @ i # post) v = Inl Deadlock"
    if "held v = insert i (held w)" "\<forall>j \<in> set pre. kind (sinks v j) = BasicFileSink \<longrightarrow> fp (sinks v j)" for n v
  proof -
    have "\<forall>j \<in> set pre. healthy v j" using that assms(3,4) by (auto simp: healthy_def)
    then show ?thesis using that sink_list_healthy [OF assms(2), of v n env ?e] by (simp add: sink_list_append)
  qed
  let ?w1 = "update_sinks pre (sink_written (env_brk env) m) w"
  have "sink_list (Suc (Suc fuel)) env m (pre @ i # post) w = sink_list (Suc (Suc fuel)) env m (i # post) ?w1"
    using sink_list_healthy [OF assms(2,4)] by (simp add: sink_list_append)
  also have "\<dots> = Inl Deadlock"
  proof -
    have "sink_list (Suc fuel) env ?e (sinks_for ?lg ?e) (?w1\<lparr>held := insert i (held ?w1)\<rparr>) = Inl Deadlock"
      using nested [of "?w1\<lparr>held := insert i (held ?w1)\<rparr>" fuel] assms(1,4,8) by (auto simp: sinks_for_def healthy_def)
    then show ?thesis using assms(3,5-7) lvl by (simp add: Let_def)
  qed
  finally show ?thesis using lvl assms(1,9,10) by (simp add: SinkIt_def sinks_for_def)
qed

theorem broken_file_sink_hangs_witness:
  "SinkIt 2 demo_env demo_message (main_logger demo_env) \<lparr>sinks = (\<lambda>i. demo_sink\<lparr>fp := False\<rparr>), held = {}\<rparr> = Inl Deadlock"
  using broken_file_sink_hangs [of demo_env "[]" 0 "[]" "\<lparr>sinks = (\<lambda>i. demo_sink\<lparr>fp := False\<rparr>), held = {}\<rparr>" demo_message 0]
  by (simp add: demo_env_def Logger_new_def demo_sink_def demo_message_def less_eq_LogLevel_def less_LogLevel_def
      level_num_def numeral_2_eq_2)

section \<open>Configuration\<close>

lemma to_lower_cases: "strcasecmp_eq ''OFF'' ''off''" "strcasecmp_eq ''WARN'' ''Warn''"
  by code_simp+

text \<open>What the seven steps leave: the level named by the first string, and as flush level the last level that
  is not named by the second.\<close>

lemma set_levels:
  "fold (set_level_step level flush_level) level_names lg =
     lg\<lparr>loggerLevel := fold (\<lambda>(l, n) acc. if strcasecmp_eq level n then l else acc) level_names (loggerLevel lg),
        flushLevel := (if strcasecmp_eq flush_level ''off'' then FATAL else OFF)\<rparr>"
proof -
  have excl: "strcasecmp_eq s ''off'' \<Longrightarrow> \<not> strcasecmp_eq s ''fatal''" for s
    by (simp add: strcasecmp_eq_def to_lower_def)
  have step: "set_level_step level flush_level (l, n) lg =
      lg\<lparr>loggerLevel := (if strcasecmp_eq level n then l else loggerLevel lg),
         flushLevel := (if strcasecmp_eq flush_level n then flushLevel lg else l)\<rparr>" for l n lg
    by (simp add: set_level_step_def SetLevel_def SetFlushLevel_def Let_def)
  show ?thesis using excl by (simp add: level_names_def step)
qed

text \<open>The flush level is read from the key of the level, and set where the names differ: it is \<open>OFF\<close> whatever the
  configuration says, or \<open>FATAL\<close> when the level is off, when nothing is logged anyway.\<close>

lemma GetOrDefault_result:
  "GetOrDefault dump wr k d c files = (v, c', files') \<Longrightarrow>
     v = (case smap_get (configJson c) k of None \<Rightarrow> d | Some v \<Rightarrow> v)
     \<and> smap_get (configJson c') k' = (if k' = k then Some v else smap_get (configJson c) k')"
  by (auto simp: GetOrDefault_def SetConfig_def Let_def smap_get_set split: option.splits)

lemma flush_level_never_configured:
  assumes "LogManager_new dump wr files0 sc c files = Inr (lg, ss)"
  shows "flushLevel lg = (if (\<exists>level. smap_get (configJson c) ''/logs/level'' = Some level \<and> strcasecmp_eq level ''off'')
     then FATAL else OFF)"
proof -
  obtain n c1 f1 where 1: "GetOrDefault dump wr ''/logs/name'' ''main-logger'' c files = (n, c1, f1)" by (metis prod_cases3)
  obtain level c2 f2 where 2: "GetOrDefault dump wr ''/logs/level'' ''info'' c1 f1 = (level, c2, f2)" by (metis prod_cases3)
  obtain fl c3 f3 where 3: "GetOrDefault dump wr ''/logs/level'' ''flush-level'' c2 f2 = (fl, c3, f3)" by (metis prod_cases3)
  note g1 = GetOrDefault_result [OF 1, of "''/logs/level''"]
  note g2 = GetOrDefault_result [OF 2, of "''/logs/level''"]
  note g3 = GetOrDefault_result [OF 3, of "''/logs/level''"]
  have get1: "smap_get (configJson c1) ''/logs/level'' = smap_get (configJson c) ''/logs/level''" using g1 by simp
  have lev: "level = (case smap_get (configJson c) ''/logs/level'' of None \<Rightarrow> ''info'' | Some v \<Rightarrow> v)"
    using g2 unfolding get1 by simp
  have fl: "fl = level" using g2 g3 by simp
  have off: "\<not> strcasecmp_eq ''info'' ''off''" by (simp add: strcasecmp_eq_def to_lower_def)
  have "flushLevel lg = (if strcasecmp_eq level ''off'' then FATAL else OFF)"
    using assms unfolding LogManager_new_def Let_def 1 2 3 prod.case fl
    by (auto simp: Let_def bind_result_eq_Inr set_levels split: prod.splits)
  then show ?thesis using lev off by (auto split: option.splits)
qed

text \<open>A setting that was saved is found again by whoever loads the file.\<close>

lemma config_roundtrip:
  assumes "\<And>j. parse (dump j) = Some j"
    and "SetConfig dump True k v c files = (c1, files1)" "LoadConfig parse (configFilePath c) files1 c0 = (ok, c2)"
  shows "ok \<and> fst (GetOrDefault dump' wr k d c2 files2) = v"
  using assms by (auto simp: SetConfig_def SaveConfig_def LoadConfig_def GetOrDefault_def Let_def smap_get_set)

text \<open>A configuration whose file could not be loaded has no path: what is set in it is saved under the empty name.\<close>

lemma failed_load_has_no_path: "files path = None \<Longrightarrow> configFilePath (Config_of_file parse path files) = []"
  by (simp add: Config_of_file_def LoadConfig_def)

text \<open>Sinks are named without regard to case.\<close>

lemma MakeSink_case: "strcasecmp_eq t u \<Longrightarrow> MakeSink fs t p args = MakeSink fs u p args"
  by (simp add: MakeSink_def strcasecmp_eq_def)

lemma MakeSink_unknown: "MakeSink fs ''syslog'' p args = Inl AssertFail"
  by (simp add: MakeSink_def sink_makers_def strcasecmp_eq_def to_lower_def)

lemma manager_lookup:
  "GetLogger n (AddLogger lg lm) = (if n = name lg then Some lg else GetLogger n lm)"
  "GetLogger n (snd (RemoveLogger k lm)) = (if n = k then None else GetLogger n lm)"
  "fst (RemoveLogger n lm) \<longleftrightarrow> GetLogger n lm \<noteq> None"
  by (simp_all add: GetLogger_def AddLogger_def RemoveLogger_def smap_get_set smap_get_erase smap_contains_def)

end
