(* ===== verification/LogCalls.thy ===== *)
theory LogCalls
  imports Logger
begin

text \<open>
  The calls that the program logs with: the structs \<open>Trace\<close> to \<open>Fatal\<close> and \<open>TRACE\<close> to \<open>FATAL\<close> of \<open>cold/log/Logger.h\<close>. The
  former take a logger, the latter use the main logger (their names are those of the levels, so they are \<open>main_TRACE\<close> to
  \<open>main_FATAL\<close> here). A call makes the text, stamps it with the place, the thread and the time, and hands it to \<open>Log\<close>; a fatal
  message aborts. The lemmas follow many calls through many loggers to the streams of their sinks.
\<close>

section \<open>The calls\<close>

text \<open>The file, line and function of the call, the id and name of its thread, and \<open>Time::Now()\<close>.\<close>

type_synonym log_site = "string \<times> nat \<times> string \<times> string \<times> string \<times> int"

definition call_log :: "log_env \<Rightarrow> LogLevel \<Rightarrow> log_site \<Rightarrow> string \<Rightarrow> Logger \<Rightarrow> log_world \<Rightarrow> log_world result" where
  "call_log env level site text1 lg w = (case site of (file, ln, func, tid, tname, now) \<Rightarrow>
     bind_result (Log 2 env level file ln func tid tname now text1 lg w) (\<lambda>(aborts, w'). if aborts then Inl Abort else Inr w'))"

definition Trace :: "log_env \<Rightarrow> log_site \<Rightarrow> string \<Rightarrow> Logger \<Rightarrow> log_world \<Rightarrow> log_world result" where "Trace env = call_log env TRACE"
definition Debug :: "log_env \<Rightarrow> log_site \<Rightarrow> string \<Rightarrow> Logger \<Rightarrow> log_world \<Rightarrow> log_world result" where "Debug env = call_log env DEBUG"
definition Info :: "log_env \<Rightarrow> log_site \<Rightarrow> string \<Rightarrow> Logger \<Rightarrow> log_world \<Rightarrow> log_world result" where "Info env = call_log env INFO"
definition Warn :: "log_env \<Rightarrow> log_site \<Rightarrow> string \<Rightarrow> Logger \<Rightarrow> log_world \<Rightarrow> log_world result" where "Warn env = call_log env WARN"
definition Error :: "log_env \<Rightarrow> log_site \<Rightarrow> string \<Rightarrow> Logger \<Rightarrow> log_world \<Rightarrow> log_world result" where "Error env = call_log env ERROR"
definition Fatal :: "log_env \<Rightarrow> log_site \<Rightarrow> string \<Rightarrow> Logger \<Rightarrow> log_world \<Rightarrow> log_world result" where "Fatal env = call_log env FATAL"

definition main_TRACE :: "log_env \<Rightarrow> log_site \<Rightarrow> string \<Rightarrow> log_world \<Rightarrow> log_world result" where
  "main_TRACE env site text1 = call_log env TRACE site text1 (main_logger env)"
definition main_DEBUG :: "log_env \<Rightarrow> log_site \<Rightarrow> string \<Rightarrow> log_world \<Rightarrow> log_world result" where
  "main_DEBUG env site text1 = call_log env DEBUG site text1 (main_logger env)"
definition main_INFO :: "log_env \<Rightarrow> log_site \<Rightarrow> string \<Rightarrow> log_world \<Rightarrow> log_world result" where
  "main_INFO env site text1 = call_log env INFO site text1 (main_logger env)"
definition main_WARN :: "log_env \<Rightarrow> log_site \<Rightarrow> string \<Rightarrow> log_world \<Rightarrow> log_world result" where
  "main_WARN env site text1 = call_log env WARN site text1 (main_logger env)"
definition main_ERROR :: "log_env \<Rightarrow> log_site \<Rightarrow> string \<Rightarrow> log_world \<Rightarrow> log_world result" where
  "main_ERROR env site text1 = call_log env ERROR site text1 (main_logger env)"
definition main_FATAL :: "log_env \<Rightarrow> log_site \<Rightarrow> string \<Rightarrow> log_world \<Rightarrow> log_world result" where
  "main_FATAL env site text1 = call_log env FATAL site text1 (main_logger env)"

text \<open>A program that logs: its calls in order.\<close>

type_synonym log_call = "Logger \<times> LogLevel \<times> log_site \<times> string"

fun run_calls :: "log_env \<Rightarrow> log_call list \<Rightarrow> log_world \<Rightarrow> log_world result" where
  "run_calls env [] w = Inr w"
| "run_calls env ((lg, level, site, text1) # calls) w =
     bind_result (call_log env level site text1 lg w) (run_calls env calls)"

section \<open>What reaches a sink\<close>

fun call_message :: "log_call \<Rightarrow> LogMessage" where
  "call_message (lg, level, (file, ln, func, tid, tname, now), text1) =
     \<lparr>msg_level = level, threadId = tid, threadName = tname, loggerName = name lg, function_name = func,
      file_name = file, line = ln, baseName = base_name file, logTime = now, logLine = text1\<rparr>"

text \<open>The messages for a sink: of the loggers it is attached to, at or above their levels.\<close>

definition messages_for :: "nat \<Rightarrow> log_call list \<Rightarrow> LogMessage list" where
  "messages_for i calls = map call_message (filter (\<lambda>(lg, level, _). i \<in> set (loggerSinks lg) \<and> loggerLevel lg \<le> level) calls)"

text \<open>Their text by the sink's formatter, whose time cache goes from one message to the next.\<close>

fun formatted :: "(int \<Rightarrow> tm) \<Rightarrow> LogMessage list \<Rightarrow> LogFormatter \<Rightarrow> string" where
  "formatted brk [] f = []"
| "formatted brk (m # ms) f = (case Formatter_Format brk m f of (t, f') \<Rightarrow> t @ formatted brk ms f')"

text \<open>The loggers of the calls have distinct sinks, which are usable, and are not off; no call is fatal.\<close>

definition callable :: "log_world \<Rightarrow> log_call \<Rightarrow> bool" where
  "callable w c = (case c of (lg, level, _) \<Rightarrow> distinct (loggerSinks lg) \<and> (\<forall>i \<in> set (loggerSinks lg). healthy w i)
     \<and> loggerLevel lg \<noteq> OFF \<and> level < FATAL)"

lemma formatter_written [simp]:
  "formatter (sink_written brk m s) = (if kind s = NullSink then formatter s else snd (Formatter_Format brk m (formatter s)))"
  "formatter (sink_flushed s) = formatter s" "fp (sink_flushed s) = fp s"
  by (simp_all add: sink_written_def file_DoSink_def stdout_DoSink_def write_sink_def flush_sink_def sink_flushed_def Let_def
      split: sink_kind.splits prod.splits)

lemma call_log_healthy:
  assumes "callable w (lg, level, site, text1)"
  shows "\<exists>w'. call_log env level site text1 lg w = Inr w' \<and> held w' = held w
    \<and> (\<forall>i. kind (sinks w' i) = kind (sinks w i) \<and> fp (sinks w' i) = fp (sinks w i)
       \<and> (let ms = messages_for i [(lg, level, site, text1)] in kind (sinks w i) \<noteq> NullSink \<longrightarrow>
           contents (sinks w' i) = contents (sinks w i) @ formatted (env_brk env) ms (formatter (sinks w i))
         \<and> formatter (sinks w' i) = fold (\<lambda>m f. snd (Formatter_Format (env_brk env) m f)) ms (formatter (sinks w i)))
       \<and> (kind (sinks w i) = NullSink \<longrightarrow> contents (sinks w' i) = contents (sinks w i)))"
proof -
  obtain path ln func tid tname now where s: "site = (path, ln, func, tid, tname, now)" by (cases site) auto
  let ?m = "call_message (lg, level, site, text1)" and ?brk = "env_brk env"
  let ?w1 = "update_sinks (sinks_for lg ?m) (sink_written ?brk ?m) w"
  let ?w2 = "if ShouldFlush lg ?m then update_sinks (loggerSinks lg) sink_flushed ?w1 else ?w1"
  have a: "distinct (loggerSinks lg)" "\<forall>i \<in> set (loggerSinks lg). healthy w i" "loggerLevel lg \<noteq> OFF" "msg_level ?m \<noteq> OFF" "level \<noteq> FATAL"
    using assms by (auto simp: callable_def s less_LogLevel_def level_num_def)
  have "SinkIt 2 env ?m lg w = Inr (False, ?w2)"
    using SinkIt_healthy [OF a(1-4), of 1 env] a(5) by (simp add: Let_def s numeral_2_eq_2)
  then have "call_log env level site text1 lg w = Inr ?w2" by (simp add: call_log_def Log_def s)
  moreover have "kind (sinks ?w2 i) = kind (sinks w i) \<and> fp (sinks ?w2 i) = fp (sinks w i)" for i by simp
  moreover have "contents (sinks ?w2 i) = contents (sinks w i) @ formatted ?brk (messages_for i [(lg, level, site, text1)]) (formatter (sinks w i))
      \<and> formatter (sinks ?w2 i) = fold (\<lambda>m f. snd (Formatter_Format ?brk m f)) (messages_for i [(lg, level, site, text1)]) (formatter (sinks w i))"
    if "kind (sinks w i) \<noteq> NullSink" for i
    using that by (simp add: messages_for_def sinks_for_def contents_written s split: prod.split)
  moreover have "contents (sinks ?w2 i) = contents (sinks w i)" if "kind (sinks w i) = NullSink" for i
    using that by (simp add: contents_written)
  ultimately show ?thesis by (intro exI [of _ ?w2]) (simp add: Let_def)
qed

lemma formatted_append:
  "formatted brk (ms @ ms') f = formatted brk ms f @ formatted brk ms' (fold (\<lambda>m f. snd (Formatter_Format brk m f)) ms f)"
  by (induction ms arbitrary: f) (auto split: prod.split)

lemma messages_for_Cons: "messages_for i (c # calls) = messages_for i [c] @ messages_for i calls"
  by (simp add: messages_for_def)

text \<open>C16: logging keeps order. However a program's calls go through its loggers, at whatever levels and in whatever sharing of
  sinks, it goes on after the last of them, and what every stream got in addition is the text of exactly the messages
  at or above the level of a logger that the sink is attached to, in the order of the calls.\<close>

theorem log_calls_in_order:
  assumes "\<forall>c \<in> set calls. callable w c"
  shows "\<exists>w'. run_calls env calls w = Inr w' \<and> (\<forall>i. contents (sinks w' i) = contents (sinks w i)
     @ (if kind (sinks w i) = NullSink then [] else formatted (env_brk env) (messages_for i calls) (formatter (sinks w i))))"
  using assms
proof (induction calls arbitrary: w)
  case Nil
  then show ?case by (simp add: messages_for_def)
next
  case (Cons c calls)
  obtain lg level site text1 where c: "c = (lg, level, site, text1)" by (cases c) auto
  obtain w1 where w1: "call_log env level site text1 lg w = Inr w1" "held w1 = held w"
      "\<And>i. kind (sinks w1 i) = kind (sinks w i)" "\<And>i. fp (sinks w1 i) = fp (sinks w i)"
      "\<And>i. kind (sinks w i) \<noteq> NullSink \<Longrightarrow> contents (sinks w1 i) = contents (sinks w i) @ formatted (env_brk env) (messages_for i [c]) (formatter (sinks w i))"
      "\<And>i. kind (sinks w i) \<noteq> NullSink \<Longrightarrow> formatter (sinks w1 i) = fold (\<lambda>m f. snd (Formatter_Format (env_brk env) m f)) (messages_for i [c]) (formatter (sinks w i))"
      "\<And>i. kind (sinks w i) = NullSink \<Longrightarrow> contents (sinks w1 i) = contents (sinks w i)"
    using call_log_healthy [of w lg level site text1 env] Cons.prems by (auto simp: c Let_def)
  have "\<forall>c \<in> set calls. callable w1 c" using Cons.prems w1(2-4) by (auto simp: callable_def healthy_def split: prod.splits)
  then obtain w2 where w2: "run_calls env calls w1 = Inr w2" "\<And>i. contents (sinks w2 i) = contents (sinks w1 i)
     @ (if kind (sinks w1 i) = NullSink then [] else formatted (env_brk env) (messages_for i calls) (formatter (sinks w1 i)))"
    using Cons.IH [of w1] by blast
  have "contents (sinks w2 i) = contents (sinks w i)
     @ (if kind (sinks w i) = NullSink then [] else formatted (env_brk env) (messages_for i (c # calls)) (formatter (sinks w i)))" for i
    unfolding messages_for_Cons [of i c calls] using w1(3,5-7) [of i] by (simp add: w2(2) formatted_append)
  then show ?case using w1(1) w2(1) by (simp add: c)
qed

definition demo_calls :: "log_call list" where
  "demo_calls = [(Logger_new ''x'' [0], INFO, (''a.cpp'', 3, ''f'', ''1'', ''main'', 951782400000000000), ''one''),
     (Logger_new ''y'' [0, 1], DEBUG, (''a.cpp'', 4, ''f'', ''1'', ''main'', 951782400000000000), ''two''),
     (Logger_new ''y'' [0, 1], WARN, (''a.cpp'', 5, ''f'', ''1'', ''main'', 951782400000000000), ''three'')]"

theorem log_calls_in_order_witness:
  "\<exists>w'. run_calls demo_env demo_calls \<lparr>sinks = (\<lambda>i. demo_sink), held = {}\<rparr> = Inr w'
     \<and> contents (sinks w' 0) = ''old onethree'' \<and> contents (sinks w' 1) = ''old three''"
proof -
  let ?w = "\<lparr>sinks = (\<lambda>i. demo_sink), held = {}\<rparr> :: log_world"
  have "\<forall>c \<in> set demo_calls. callable ?w c"
    by (simp add: demo_calls_def callable_def Logger_new_def healthy_def demo_sink_def less_LogLevel_def level_num_def)
  then obtain w' where w': "run_calls demo_env demo_calls ?w = Inr w'" "\<And>i. contents (sinks w' i) = contents (sinks ?w i)
     @ (if kind (sinks ?w i) = NullSink then [] else formatted (env_brk demo_env) (messages_for i demo_calls) (formatter (sinks ?w i)))"
    using log_calls_in_order [of demo_calls ?w demo_env] by blast
  have "contents (sinks w' 0) = ''old onethree''" "contents (sinks w' 1) = ''old three''"
    unfolding w'(2) by (simp_all add: messages_for_def demo_calls_def demo_sink_def contents_def Logger_new_def
        less_eq_LogLevel_def level_num_def Formatter_Format_def Flag_Format_def demo_env_def)
  then show ?thesis using w'(1) by blast
qed

section \<open>Fatal calls\<close>

text \<open>A fatal call ends the process, unless the logger is off: then the program goes on.\<close>

lemma Fatal_ends:
  assumes "distinct (loggerSinks lg)" "\<forall>i \<in> set (loggerSinks lg). healthy w i"
  shows "Fatal env site text1 lg w = (if loggerLevel lg = OFF then Inr w else Inl Abort)"
proof (cases "loggerLevel lg = OFF")
  case True
  then show ?thesis by (simp add: Fatal_def call_log_def Log_def SinkIt_def split: prod.split)
next
  case False
  obtain path ln func tid tname now where s: "site = (path, ln, func, tid, tname, now)" by (cases site) auto
  show ?thesis
    using SinkIt_healthy [OF assms False, of "call_message (lg, FATAL, site, text1)" 1 env] False
    by (simp add: Fatal_def call_log_def Log_def s numeral_2_eq_2)
qed

lemma main_FATAL_ends:
  assumes "distinct (loggerSinks (main_logger env))" "\<forall>i \<in> set (loggerSinks (main_logger env)). healthy w i"
  shows "main_FATAL env site text1 w = (if loggerLevel (main_logger env) = OFF then Inr w else Inl Abort)"
  using Fatal_ends [OF assms] by (simp add: main_FATAL_def Fatal_def)

end
