(* ===== verification/Socket.thy ===== *)
theory Socket
  imports IoAwaitable IoWatcher IpAddress
begin

text \<open>
  \<open>cold/net/BasicSocket.{h,cpp}\<close>, \<open>TcpSocket.h\<close>, \<open>UdpSocket.h\<close>, \<open>Acceptor.{h,cpp}\<close>, \<open>TcpClient.h\<close>,
  \<open>TcpServer.h\<close> and the file class \<open>AsyncIO\<close> of \<open>cold/coro/Io.h\<close>: who owns which descriptor.

  \<^item> A \<open>net\<close> is the process: its open descriptors, the watcher of every service (services have numbers;
    \<open>None\<close> is a null pointer), how often a descriptor that was not open was closed, and the \<open>shutdown\<close> calls.
  \<^item> The results of system calls are arguments. Sockets are built without SSL: \<open>ssl_\<close> is null throughout.
  \<^item> A handle is \<open>'h option\<close> as in \<open>IoWatcher\<close>, \<open>None\<close> for \<open>std::noop_coroutine()\<close>.
\<close>

section \<open>The process\<close>

datatype shut = SHUT_RD | SHUT_WR | SHUT_RDWR

record 'h net =
  net_open :: "int set"
  services :: "nat \<Rightarrow> 'h IoWatcher"
  bad_closes :: nat
  shutdowns :: "(int \<times> shut) list"

text \<open>\<open>close(2)\<close>: EBADF for a negative number; closing a number that is not open is counted.\<close>

definition close_fd :: "int \<Rightarrow> 'h net \<Rightarrow> 'h net" where
  "close_fd fd n = (if fd < 0 then n
     else if fd \<in> net_open n then n\<lparr>net_open := net_open n - {fd}\<rparr>
     else n\<lparr>bad_closes := Suc (bad_closes n)\<rparr>)"

definition open_fd :: "int \<Rightarrow> 'h net \<Rightarrow> 'h net" where
  "open_fd fd n = (if fd < 0 then n else n\<lparr>net_open := insert fd (net_open n)\<rparr>)"

definition shutdown_fd :: "int \<Rightarrow> shut \<Rightarrow> 'h net \<Rightarrow> 'h net" where
  "shutdown_fd fd how n = n\<lparr>shutdowns := shutdowns n @ [(fd, how)]\<rparr>"

definition at_service :: "nat \<Rightarrow> ('h IoWatcher \<Rightarrow> 'h IoWatcher) \<Rightarrow> 'h net \<Rightarrow> 'h net" where
  "at_service sv f n = n\<lparr>services := (services n)(sv := f (services n sv))\<rparr>"

definition stop_all :: "nat \<Rightarrow> int \<Rightarrow> 'h net \<Rightarrow> 'h net" where
  "stop_all sv fd n = at_service sv (StopListeningAll True fd) n"

definition listen_read :: "bool \<Rightarrow> nat \<Rightarrow> int \<Rightarrow> 'h option \<Rightarrow> 'h net \<Rightarrow> 'h net result" where
  "listen_read ok sv fd h n = bind_result (ListenReadEvent ok fd h (services n sv))
     (\<lambda>w. Inr (n\<lparr>services := (services n)(sv := w)\<rparr>))"

definition listen_write :: "bool \<Rightarrow> nat \<Rightarrow> int \<Rightarrow> 'h option \<Rightarrow> 'h net \<Rightarrow> 'h net result" where
  "listen_write ok sv fd h n = bind_result (ListenWriteEvent ok fd h (services n sv))
     (\<lambda>w. Inr (n\<lparr>services := (services n)(sv := w)\<rparr>))"

section \<open>\<open>BasicSocket\<close>\<close>

record BasicSocket =
  ioService :: "nat option"
  sock_fd :: int
  localAddress :: IpAddress
  remoteAddress :: IpAddress
  connected :: bool

definition BasicSocket_new :: "nat \<Rightarrow> int \<Rightarrow> BasicSocket" where
  "BasicSocket_new sv fd = \<lparr>ioService = Some sv, sock_fd = fd, localAddress = IpAddress_default,
     remoteAddress = IpAddress_default, connected = False\<rparr>"

definition BasicSocket_of :: "nat \<Rightarrow> IpAddress \<Rightarrow> IpAddress \<Rightarrow> int \<Rightarrow> BasicSocket" where
  "BasicSocket_of sv local remote fd = \<lparr>ioService = Some sv, sock_fd = fd, localAddress = local,
     remoteAddress = remote, connected = False\<rparr>"

definition IsValid :: "BasicSocket \<Rightarrow> bool" where
  "IsValid s \<longleftrightarrow> ioService s \<noteq> None \<and> sock_fd s \<ge> 0"

definition Socket_destroy :: "BasicSocket \<Rightarrow> 'h net \<Rightarrow> 'h net result" where
  "Socket_destroy s n = (if sock_fd s \<ge> 0 then
       (case ioService s of None \<Rightarrow> Inl Undefined
        | Some sv \<Rightarrow> Inr (close_fd (sock_fd s) (stop_all sv (sock_fd s) n)))
     else Inr n)"

definition Socket_emptied :: "BasicSocket \<Rightarrow> BasicSocket" where
  "Socket_emptied other = other\<lparr>ioService := None, sock_fd := - 1, connected := False\<rparr>"

definition Socket_move :: "BasicSocket \<Rightarrow> BasicSocket \<times> BasicSocket" where
  "Socket_move other = (other, Socket_emptied other)"

text \<open>\<open>operator=(BasicSocket\<^verbatim>\<open>&&\<close> other)\<close> for another object; assigning an object to itself returns at once.\<close>

definition Socket_assign ::
    "BasicSocket \<Rightarrow> BasicSocket \<Rightarrow> 'h net \<Rightarrow> (BasicSocket \<times> BasicSocket \<times> 'h net) result" where
  "Socket_assign this other n =
     bind_result (if sock_fd this \<ge> 0 then
         (case ioService this of None \<Rightarrow> Inl Undefined
          | Some sv \<Rightarrow> Inr (stop_all sv (sock_fd other) (close_fd (sock_fd this) n)))
       else Inr n)
     (\<lambda>n'. Inr (other, Socket_emptied other, n'))"

definition Bind :: "bool \<Rightarrow> IpAddress \<Rightarrow> BasicSocket \<Rightarrow> (bool \<times> BasicSocket) result" where
  "Bind ok address s = (if \<not> IsValid s then Inl AssertFail
     else if ok then Inr (True, s\<lparr>localAddress := address\<rparr>) else Inr (False, s))"

definition ShutDown :: "BasicSocket \<Rightarrow> 'h net \<Rightarrow> 'h net" where
  "ShutDown s n = shutdown_fd (sock_fd s) SHUT_WR n"

definition Basic_Close :: "BasicSocket \<Rightarrow> 'h net \<Rightarrow> 'h net" where
  "Basic_Close s n = shutdown_fd (sock_fd s) SHUT_RDWR n"

section \<open>\<open>TcpSocket\<close> and \<open>UdpSocket\<close>\<close>

definition TcpSocket_new :: "nat \<Rightarrow> int \<Rightarrow> 'h net \<Rightarrow> BasicSocket \<times> 'h net" where
  "TcpSocket_new sv fd n = (BasicSocket_new sv fd, open_fd fd n)"

definition TcpSocket_accepted ::
    "bool \<Rightarrow> nat \<Rightarrow> IpAddress \<Rightarrow> IpAddress \<Rightarrow> int \<Rightarrow> 'h net \<Rightarrow> (BasicSocket \<times> 'h net) result" where
  "TcpSocket_accepted ok sv local remote fd n =
     (let s = BasicSocket_of sv local remote fd
      in if fd \<ge> 0 then bind_result (listen_read ok sv fd None n) (\<lambda>n'. Inr (s\<lparr>connected := True\<rparr>, n'))
         else Inr (s, n))"

definition Tcp_Close :: "BasicSocket \<Rightarrow> 'h net \<Rightarrow> BasicSocket \<times> 'h net" where
  "Tcp_Close s n = (s\<lparr>connected := False\<rparr>, Basic_Close s n)"

text \<open>\<open>ListenReadEvent\<close> is called whether or not the socket could be made.\<close>

definition UdpSocket_new :: "bool \<Rightarrow> nat \<Rightarrow> int \<Rightarrow> 'h net \<Rightarrow> (BasicSocket \<times> 'h net) result" where
  "UdpSocket_new ok sv fd n =
     bind_result (listen_read ok sv fd None (open_fd fd n)) (\<lambda>n'. Inr (BasicSocket_new sv fd, n'))"

section \<open>\<open>Acceptor\<close>\<close>

record Acceptor = BasicSocket +
  idleFd :: int
  listened :: bool

text \<open>The constructor: \<open>idle\<close> is what \<open>open(/dev/null)\<close> returned, \<open>fd\<close> what \<open>socket\<close> returned.\<close>

definition Acceptor_new :: "nat \<Rightarrow> IpAddress \<Rightarrow> int \<Rightarrow> int \<Rightarrow> bool \<Rightarrow> 'h net \<Rightarrow> (Acceptor \<times> 'h net) result" where
  "Acceptor_new sv listenAddr fd idle bind_ok n =
     (if idle < 0 then Inl AssertFail
      else if fd < 0 then Inl Abort
      else if \<not> bind_ok then Inl Abort
      else Inr (\<lparr>ioService = Some sv, sock_fd = fd, localAddress = listenAddr, remoteAddress = IpAddress_default,
                connected = False, idleFd = idle, listened = False\<rparr>, open_fd idle (open_fd fd n)))"

definition Acceptor_destroy :: "Acceptor \<Rightarrow> 'h net \<Rightarrow> 'h net result" where
  "Acceptor_destroy a n = Socket_destroy (BasicSocket.truncate a) (close_fd (idleFd a) n)"

definition Acceptor_move :: "Acceptor \<Rightarrow> Acceptor \<times> Acceptor" where
  "Acceptor_move other =
     (other\<lparr>listened := False\<rparr>, other\<lparr>ioService := None, sock_fd := - 1, connected := False, idleFd := - 1\<rparr>)"

definition Acceptor_assign ::
    "Acceptor \<Rightarrow> Acceptor \<Rightarrow> 'h net \<Rightarrow> (Acceptor \<times> Acceptor \<times> 'h net) result" where
  "Acceptor_assign this other n =
     bind_result (Socket_assign (BasicSocket.truncate this) (BasicSocket.truncate other) n)
       (\<lambda>(t, other', n1). Inr (BasicSocket.extend t \<lparr>idleFd = idleFd other, listened = listened this\<rparr>,
          BasicSocket.extend other' \<lparr>idleFd = - 1, listened = listened other\<rparr>,
          if idleFd this \<ge> 0 then close_fd (idleFd this) n1 else n1))"

definition Listen :: "bool \<Rightarrow> bool \<Rightarrow> Acceptor \<Rightarrow> 'h net \<Rightarrow> (Acceptor \<times> 'h net) result" where
  "Listen listen_ok ctl_ok a n = (if \<not> listen_ok then Inl Abort
     else case ioService a of None \<Rightarrow> Inl Undefined
       | Some sv \<Rightarrow> bind_result (listen_read ctl_ok sv (sock_fd a) None n) (\<lambda>n'. Inr (a\<lparr>listened := True\<rparr>, n')))"

text \<open>\<open>Accept\<close> after \<open>AcceptAwaitable\<close>, with its result, the peer, and for EMFILE the descriptors that
  \<open>accept\<close> and \<open>open\<close> return for the one that was kept idle.\<close>

definition Accept ::
    "bool \<Rightarrow> nat \<Rightarrow> sys \<Rightarrow> IpAddress \<Rightarrow> int \<Rightarrow> int \<Rightarrow> Acceptor \<Rightarrow> 'h net \<Rightarrow> (BasicSocket \<times> Acceptor \<times> 'h net) result" where
  "Accept ctl_ok sv r addr spare idle' a n =
     (if \<not> listened a then Inl AssertFail
      else let n1 = (if fst r < 0 then n else open_fd (fst r) n);
               (a1, n2) =
                 (if fst r < 0 \<and> snd r = EMFILE
                  then (a\<lparr>idleFd := idle'\<rparr>,
                        open_fd idle' (close_fd spare (open_fd spare (close_fd (idleFd a) n1))))
                  else (a, n1))
           in bind_result (TcpSocket_accepted ctl_ok sv (localAddress a) addr (fst r) n2)
                (\<lambda>(s, n3). Inr (s, a1, n3)))"

section \<open>\<open>TcpClient\<close> and \<open>TcpServer\<close>\<close>

datatype client_event = OnConnect | OnConnectFailed

definition Client_Connect :: "int \<times> int \<times> bool \<Rightarrow> BasicSocket \<Rightarrow> client_event \<times> BasicSocket" where
  "Client_Connect r s = (case r of (ret, e, conn) \<Rightarrow>
     if ret < 0 then (OnConnectFailed, s) else (OnConnect, s\<lparr>connected := conn \<or> connected s\<rparr>))"

datatype server_action = ListenOn | SpawnAccept | StartPool

definition TcpServer_Start :: "bool \<Rightarrow> (server_action list \<times> bool) result" where
  "TcpServer_Start started = (if started then Inl Abort else Inr ([ListenOn, SpawnAccept, StartPool], True))"

text \<open>One turn of \<open>DoAccept\<close>: the socket is given to a new \<open>OnConnect\<close> task on its own service.\<close>

definition DoAccept_turn :: "BasicSocket \<Rightarrow> (nat \<times> BasicSocket) list" where
  "DoAccept_turn s = (if IsValid s then [(the (ioService s), s)] else [])"

section \<open>\<open>AsyncIO\<close>\<close>

record AsyncIO =
  io_service_of :: nat
  filename :: string
  io_mode :: nat
  io_fd :: int
  adopt :: bool

definition AsyncIO_open :: "nat \<Rightarrow> string \<Rightarrow> nat \<Rightarrow> int \<Rightarrow> 'h net \<Rightarrow> AsyncIO \<times> 'h net" where
  "AsyncIO_open sv f m fd n =
     (\<lparr>io_service_of = sv, filename = f, io_mode = m, io_fd = fd, adopt = False\<rparr>, open_fd fd n)"

definition AsyncIO_destroy :: "AsyncIO \<Rightarrow> 'h net \<Rightarrow> 'h net" where
  "AsyncIO_destroy f n = (if io_fd f \<noteq> 0 \<and> \<not> adopt f
     then close_fd (io_fd f) (stop_all (io_service_of f) (io_fd f) n) else n)"

definition AsyncIO_move :: "AsyncIO \<Rightarrow> AsyncIO \<times> AsyncIO" where
  "AsyncIO_move other = (other, other\<lparr>filename := [], io_fd := - 1\<rparr>)"

definition AsyncIO_assign :: "AsyncIO \<Rightarrow> AsyncIO \<Rightarrow> 'h net \<Rightarrow> AsyncIO \<times> AsyncIO \<times> 'h net" where
  "AsyncIO_assign this other n =
     (let n' = (if io_fd this \<noteq> 0 \<and> \<not> adopt this
                then close_fd (io_fd this) (stop_all (io_service_of this) (io_fd this) n) else n)
      in (other, other\<lparr>filename := [], io_fd := - 1\<rparr>, n'))"

definition AsyncIO_Swap :: "AsyncIO \<Rightarrow> AsyncIO \<Rightarrow> AsyncIO \<times> AsyncIO" where
  "AsyncIO_Swap a b = (b, a)"

definition AsyncIO_IsOpen :: "AsyncIO \<Rightarrow> bool" where
  "AsyncIO_IsOpen f \<longleftrightarrow> io_fd f \<ge> 0"

definition reOpen :: "string \<Rightarrow> nat \<Rightarrow> int \<Rightarrow> AsyncIO \<Rightarrow> 'h net \<Rightarrow> bool \<times> AsyncIO \<times> 'h net" where
  "reOpen f m fd this n =
     (let (tmp, n1) = AsyncIO_open (io_service_of this) f m fd n;
          (this', tmp') = AsyncIO_Swap this tmp
      in (AsyncIO_IsOpen this', this', AsyncIO_destroy tmp' n1))"

definition AsyncIO_Close :: "AsyncIO \<Rightarrow> 'h net \<Rightarrow> AsyncIO \<times> 'h net" where
  "AsyncIO_Close f n = (if io_fd f \<noteq> 0
     then (f\<lparr>io_fd := - 1\<rparr>, close_fd (io_fd f) (stop_all (io_service_of f) (io_fd f) n)) else (f, n))"

section \<open>Ownership\<close>

text \<open>What the members of a class that owns a descriptor promise: destroying it stops the watching of its
  descriptor at its service and closes it, a move hands the descriptor over and leaves nothing behind.\<close>

definition no_negative :: "'h net \<Rightarrow> bool" where
  "no_negative n \<longleftrightarrow> (\<forall>sv fd. fd < 0 \<longrightarrow> ioEvents (services n sv) fd = None)"

definition release :: "(nat \<times> int) option \<Rightarrow> 'h net \<Rightarrow> 'h net" where
  "release d n = (case d of None \<Rightarrow> n | Some (sv, fd) \<Rightarrow> close_fd fd (stop_all sv fd n))"

locale fd_owner =
  fixes good :: "'s \<Rightarrow> bool"
    and owns :: "'s \<Rightarrow> (nat \<times> int) option"
    and destroy :: "'s \<Rightarrow> 'h net \<Rightarrow> 'h net result"
    and move :: "'s \<Rightarrow> 's \<times> 's"
  assumes destroy_releases: "good s \<Longrightarrow> no_negative n \<Longrightarrow> destroy s n = Inr (release (owns s) n)"
    and move_good: "good s \<Longrightarrow> good (fst (move s)) \<and> good (snd (move s))"
    and move_owns: "owns (fst (move s)) = owns s" "owns (snd (move s)) = None"
begin

text \<open>Moving an object and destroying both ends is destroying the object.\<close>

lemma move_then_destroy:
  assumes "good s" "no_negative n"
  shows "bind_result (destroy (snd (move s)) n) (destroy (fst (move s))) = destroy s n"
proof -
  have "destroy (snd (move s)) n = Inr n"
    using destroy_releases [of "snd (move s)" n] move_good [OF assms(1)] assms(2) by (simp add: move_owns release_def)
  then show ?thesis
    using destroy_releases [of "fst (move s)" n] destroy_releases [OF assms] move_good [OF assms(1)] assms(2)
    by (simp add: move_owns)
qed

lemma destroy_closes_own:
  assumes "good s" "no_negative n" "owns s = Some (sv, fd)" "0 \<le> fd" "fd \<in> net_open n"
  shows "\<exists>n'. destroy s n = Inr n' \<and> net_open n' = net_open n - {fd} \<and> bad_closes n' = bad_closes n
     \<and> ioEvents (services n' sv) fd = None"
  using assms
  by (simp add: destroy_releases release_def close_fd_def stop_all_def at_service_def StopListeningAll_def
      erase_ioEvent_def split: option.split)

end

lemma StopListeningAll_absent: "ioEvents w fd = None \<Longrightarrow> StopListeningAll ok fd w = w"
  by (simp add: StopListeningAll_def)

lemma stop_all_absent: "ioEvents (services n sv) fd = None \<Longrightarrow> stop_all sv fd n = n"
  by (simp add: stop_all_def at_service_def StopListeningAll_absent)

definition socket_good :: "BasicSocket \<Rightarrow> bool" where
  "socket_good s \<longleftrightarrow> sock_fd s \<ge> 0 \<longrightarrow> ioService s \<noteq> None"

definition socket_owns :: "BasicSocket \<Rightarrow> (nat \<times> int) option" where
  "socket_owns s = (if sock_fd s \<ge> 0 then map_option (\<lambda>sv. (sv, sock_fd s)) (ioService s) else None)"

definition file_owns :: "AsyncIO \<Rightarrow> (nat \<times> int) option" where
  "file_owns f = (if io_fd f > 0 \<and> \<not> adopt f then Some (io_service_of f, io_fd f) else None)"

interpretation socket: fd_owner socket_good socket_owns Socket_destroy Socket_move
  by unfold_locales
    (auto simp: socket_good_def socket_owns_def Socket_destroy_def Socket_move_def Socket_emptied_def release_def
      split: option.splits)

interpretation asyncio: fd_owner "\<lambda>f. True" file_owns "\<lambda>f n. Inr (AsyncIO_destroy f n)" AsyncIO_move
proof
  fix f and n :: "'h net"
  assume "no_negative n"
  then show "Inr (AsyncIO_destroy f n) = Inr (release (file_owns f) n)"
    by (cases "io_fd f" "0 :: int" rule: linorder_cases)
      (simp_all add: AsyncIO_destroy_def file_owns_def release_def no_negative_def stop_all_absent close_fd_def)
qed (simp_all add: file_owns_def AsyncIO_move_def)

section \<open>The sockets of a program\<close>

text \<open>Steps of a program on its sockets, named by numbers: construction (with the descriptor the kernel
  returned), waiting, events, moving, assigning (the flag tells whether the target still owned a
  descriptor), and destruction.\<close>

type_synonym 'h sockets = "'h net \<times> (nat \<rightharpoonup> BasicSocket)"

definition fresh_fd :: "int \<Rightarrow> 'h net \<Rightarrow> bool" where
  "fresh_fd fd n \<longleftrightarrow> fd \<ge> - 1 \<and> fd \<notin> net_open n \<and> (\<forall>sv. fd \<noteq> wakeUpFd (services n sv))"

inductive sock_step :: "bool \<Rightarrow> 'h sockets \<Rightarrow> 'h sockets \<Rightarrow> bool" where
  new: "\<sigma> i = None \<Longrightarrow> fresh_fd fd n \<Longrightarrow> TcpSocket_new sv fd n = (s, n') \<Longrightarrow>
    sock_step False (n, \<sigma>) (n', \<sigma>(i \<mapsto> s))"
| accepted: "\<sigma> i = None \<Longrightarrow> fresh_fd fd n \<Longrightarrow>
    TcpSocket_accepted ok sv local remote fd (open_fd fd n) = Inr (s, n') \<Longrightarrow>
    sock_step False (n, \<sigma>) (n', \<sigma>(i \<mapsto> s))"
| read_wait: "\<sigma> i = Some s \<Longrightarrow> sock_fd s \<ge> 0 \<Longrightarrow> ioService s = Some sv \<Longrightarrow>
    listen_read ok sv (sock_fd s) h n = Inr n' \<Longrightarrow> sock_step False (n, \<sigma>) (n', \<sigma>)"
| write_wait: "\<sigma> i = Some s \<Longrightarrow> sock_fd s \<ge> 0 \<Longrightarrow> ioService s = Some sv \<Longrightarrow>
    listen_write ok sv (sock_fd s) h n = Inr n' \<Longrightarrow> sock_step False (n, \<sigma>) (n', \<sigma>)"
| events: "WatchIo evs (services n sv) = Inr (active, w) \<Longrightarrow>
    sock_step False (n, \<sigma>) (n\<lparr>services := (services n)(sv := w)\<rparr>, \<sigma>)"
| closing: "\<sigma> i = Some s \<Longrightarrow> Tcp_Close s n = (s', n') \<Longrightarrow> sock_step False (n, \<sigma>) (n', \<sigma>(i \<mapsto> s'))"
| move: "\<sigma> i = Some s \<Longrightarrow> \<sigma> j = None \<Longrightarrow> Socket_move s = (t, s') \<Longrightarrow>
    sock_step False (n, \<sigma>) (n, \<sigma>(i \<mapsto> s', j \<mapsto> t))"
| assign: "i \<noteq> j \<Longrightarrow> \<sigma> i = Some this \<Longrightarrow> \<sigma> j = Some other \<Longrightarrow> Socket_assign this other n = Inr (this', other', n') \<Longrightarrow>
    sock_step (sock_fd this \<ge> 0) (n, \<sigma>) (n', \<sigma>(i \<mapsto> this', j \<mapsto> other'))"
| destroy: "\<sigma> i = Some s \<Longrightarrow> Socket_destroy s n = Inr n' \<Longrightarrow> sock_step False (n, \<sigma>) (n', \<sigma>(i := None))"

inductive sock_steps :: "bool list \<Rightarrow> 'h sockets \<Rightarrow> 'h sockets \<Rightarrow> bool" where
  none: "sock_steps [] x x"
| step: "sock_steps bs x y \<Longrightarrow> sock_step b y z \<Longrightarrow> sock_steps (bs @ [b]) x z"

inductive_cases sock_stepE: "sock_step b (n, \<sigma>) (n', \<sigma>')"

definition filed :: "'h IoWatcher \<Rightarrow> bool" where
  "filed w \<longleftrightarrow> (\<forall>g e. ioEvents w g = Some e \<longrightarrow> ev_fd e = g)"

definition no_sockets :: "'h sockets \<Rightarrow> bool" where
  "no_sockets x \<longleftrightarrow> net_open (fst x) = {} \<and> bad_closes (fst x) = 0 \<and> snd x = Map.empty
     \<and> (\<forall>sv. filed (services (fst x) sv)
         \<and> (\<forall>fd. ioEvents (services (fst x) sv) fd \<noteq> None \<longrightarrow> fd = wakeUpFd (services (fst x) sv)))"

definition holds :: "(nat \<rightharpoonup> BasicSocket) \<Rightarrow> nat \<Rightarrow> int \<Rightarrow> bool" where
  "holds \<sigma> i fd \<longleftrightarrow> fd \<ge> 0 \<and> (case \<sigma> i of None \<Rightarrow> False | Some s \<Rightarrow> sock_fd s = fd)"

definition own_inv :: "'h sockets \<Rightarrow> bool" where
  "own_inv x \<longleftrightarrow> bad_closes (fst x) = 0
     \<and> (\<forall>i fd. holds (snd x) i fd \<longrightarrow> fd \<in> net_open (fst x))
     \<and> (\<forall>fd \<in> net_open (fst x). \<exists>i. holds (snd x) i fd)
     \<and> (\<forall>i j fd. holds (snd x) i fd \<longrightarrow> holds (snd x) j fd \<longrightarrow> i = j)
     \<and> (\<forall>i s. snd x i = Some s \<longrightarrow> socket_good s)"

text \<open>Every entry of a watcher but that of its wake-up descriptor is filed under its descriptor, which a socket
  of that service holds.\<close>

definition holds_at :: "(nat \<rightharpoonup> BasicSocket) \<Rightarrow> nat \<Rightarrow> int \<Rightarrow> bool" where
  "holds_at \<sigma> sv fd \<longleftrightarrow> (\<exists>i s. \<sigma> i = Some s \<and> sock_fd s = fd \<and> fd \<ge> 0 \<and> ioService s = Some sv)"

definition table_inv :: "'h sockets \<Rightarrow> bool" where
  "table_inv x \<longleftrightarrow> (\<forall>sv. filed (services (fst x) sv)
     \<and> (\<forall>fd. ioEvents (services (fst x) sv) fd \<noteq> None \<longrightarrow> fd = wakeUpFd (services (fst x) sv) \<or> holds_at (snd x) sv fd))"

lemma net_at_service [simp]:
  "net_open (stop_all sv fd n) = net_open n" "bad_closes (stop_all sv fd n) = bad_closes n"
  "services (close_fd fd n) = services n" "services (open_fd fd n) = services n" "bad_closes (open_fd fd n) = bad_closes n"
  "net_open (shutdown_fd fd h n) = net_open n" "bad_closes (shutdown_fd fd h n) = bad_closes n"
  "services (shutdown_fd fd h n) = services n"
  by (simp_all add: stop_all_def at_service_def close_fd_def open_fd_def shutdown_fd_def)

lemma listen_net:
  "listen_read ok sv fd h n = Inr n' \<Longrightarrow> net_open n' = net_open n \<and> bad_closes n' = bad_closes n"
  "listen_write ok sv fd h n = Inr n' \<Longrightarrow> net_open n' = net_open n \<and> bad_closes n' = bad_closes n"
  by (auto simp: listen_read_def listen_write_def bind_result_eq_Inr)

lemma holds_upd [simp]:
  "holds (\<sigma>(i := v)) j fd \<longleftrightarrow> (if j = i then fd \<ge> 0 \<and> (case v of None \<Rightarrow> False | Some s \<Rightarrow> sock_fd s = fd) else holds \<sigma> j fd)"
  by (simp add: holds_def)

text \<open>A new number comes into the table, a known number changes hands, or it is closed as its holder goes.\<close>

lemma own_invI:
  assumes "bad_closes n = 0" "\<And>i fd. holds \<sigma> i fd \<Longrightarrow> fd \<in> net_open n" "\<And>fd. fd \<in> net_open n \<Longrightarrow> \<exists>i. holds \<sigma> i fd"
    "\<And>i j fd. holds \<sigma> i fd \<Longrightarrow> holds \<sigma> j fd \<Longrightarrow> i = j" "\<And>i s. \<sigma> i = Some s \<Longrightarrow> socket_good s"
  shows "own_inv (n, \<sigma>)"
  using assms unfolding own_inv_def by simp

lemma own_invE:
  assumes "own_inv (n, \<sigma>)"
  shows "bad_closes n = 0" "holds \<sigma> i fd \<Longrightarrow> fd \<in> net_open n" "fd \<in> net_open n \<Longrightarrow> \<exists>i. holds \<sigma> i fd"
    "holds \<sigma> i fd \<Longrightarrow> holds \<sigma> j fd \<Longrightarrow> i = j" "\<sigma> i = Some s \<Longrightarrow> socket_good s"
  using assms unfolding own_inv_def by auto

lemma own_inv_add:
  assumes inv: "own_inv (n, \<sigma>)" and i: "\<sigma> i = None" and "sock_fd s \<notin> net_open n" "socket_good s"
    and n': "net_open n' = (if sock_fd s \<ge> 0 then insert (sock_fd s) (net_open n) else net_open n)" "bad_closes n' = bad_closes n"
  shows "own_inv (n', \<sigma>(i \<mapsto> s))"
proof (rule own_invI)
  note inv' = own_invE [OF inv]
  have no: "\<not> holds \<sigma> i fd" for fd using i by (simp add: holds_def)
  show "bad_closes n' = 0" using inv'(1) n' by simp
  show "fd \<in> net_open n'" if "holds (\<sigma>(i \<mapsto> s)) j fd" for j fd
    using that inv'(2) n' by (auto split: if_splits)
  show "\<exists>j. holds (\<sigma>(i \<mapsto> s)) j fd" if "fd \<in> net_open n'" for fd
  proof (cases "fd \<in> net_open n")
    case True
    then obtain j where "holds \<sigma> j fd" using inv'(3) by blast
    then have "holds (\<sigma>(i \<mapsto> s)) j fd" using no by auto
    then show ?thesis by blast
  next
    case False
    then have "holds (\<sigma>(i \<mapsto> s)) i fd" using that n' by (auto split: if_splits)
    then show ?thesis by blast
  qed
  show "j = k" if "holds (\<sigma>(i \<mapsto> s)) j fd" "holds (\<sigma>(i \<mapsto> s)) k fd" for j k fd
    using that inv'(2,4) assms(3) by (auto split: if_splits)
  show "socket_good t" if "(\<sigma>(i \<mapsto> s)) j = Some t" for j t
    using that inv'(5) assms(4) by (auto split: if_splits)
qed

lemma own_inv_hand_over:
  assumes inv: "own_inv (n, \<sigma>)" and i: "\<sigma> i = Some s" and j: "\<And>fd. \<not> holds \<sigma> j fd" and ij: "i \<noteq> j"
    and s': "sock_fd s' < 0" "sock_fd t' = sock_fd s" "socket_good t'" "socket_good s'"
    and n': "net_open n' = net_open n" "bad_closes n' = bad_closes n"
  shows "own_inv (n', \<sigma>(i \<mapsto> s', j \<mapsto> t'))"
proof (rule own_invI)
  note inv' = own_invE [OF inv]
  let ?\<sigma> = "\<sigma>(i \<mapsto> s', j \<mapsto> t')"
  have hi: "holds \<sigma> i fd \<longleftrightarrow> fd \<ge> 0 \<and> sock_fd s = fd" for fd using i by (simp add: holds_def)
  have h: "holds ?\<sigma> k fd \<longleftrightarrow> k \<noteq> i \<and> holds \<sigma> (if k = j then i else k) fd" for k fd
    using s' ij by (auto simp: hi)
  show "bad_closes n' = 0" using inv'(1) n' by simp
  show "fd \<in> net_open n'" if "holds ?\<sigma> k fd" for k fd
    using that inv'(2) n' unfolding h by blast
  show "\<exists>k. holds ?\<sigma> k fd" if fd: "fd \<in> net_open n'" for fd
  proof -
    obtain k where k: "holds \<sigma> k fd" using inv'(3) fd n' by metis
    then have "holds ?\<sigma> (if k = i then j else k) fd" unfolding h using ij j by auto
    then show ?thesis by blast
  qed
  show "k = l" if "holds ?\<sigma> k fd" "holds ?\<sigma> l fd" for k l fd
  proof -
    have "(if k = j then i else k) = (if l = j then i else l)" "k \<noteq> i" "l \<noteq> i" using that inv'(4) unfolding h by blast+
    then show ?thesis by (auto split: if_splits)
  qed
  show "socket_good t" if "?\<sigma> k = Some t" for k t
    using that inv'(5) s' by (auto split: if_splits)
qed

lemma own_inv_drop:
  assumes inv: "own_inv (n, \<sigma>)" and i: "\<sigma> i = Some s" and v: "v = None \<or> (\<exists>t. v = Some t \<and> sock_fd t < 0 \<and> socket_good t)"
    and n': "net_open n' = net_open n - (if sock_fd s \<ge> 0 then {sock_fd s} else {})" "bad_closes n' = bad_closes n"
  shows "own_inv (n', \<sigma>(i := v))"
proof (rule own_invI)
  note inv' = own_invE [OF inv]
  have hi: "holds \<sigma> i fd \<longleftrightarrow> fd \<ge> 0 \<and> sock_fd s = fd" for fd using i by (simp add: holds_def)
  have h: "holds (\<sigma>(i := v)) k fd \<longleftrightarrow> k \<noteq> i \<and> holds \<sigma> k fd" for k fd
    using v by auto
  show "bad_closes n' = 0" using inv'(1) n' by simp
  show "fd \<in> net_open n'" if a: "holds (\<sigma>(i := v)) k fd" for k fd
  proof -
    have "\<not> (sock_fd s \<ge> 0 \<and> fd = sock_fd s)" using a inv'(4) [of k fd i] unfolding h hi by auto
    then show ?thesis using a inv'(2) [of k fd] n' unfolding h by auto
  qed
  show "\<exists>k. holds (\<sigma>(i := v)) k fd" if a: "fd \<in> net_open n'" for fd
  proof -
    obtain k where k: "holds \<sigma> k fd" using inv'(3) a n' by blast
    then have "k \<noteq> i" using a n' hi by (auto split: if_splits)
    then show ?thesis using k h by blast
  qed
  show "k = l" if "holds (\<sigma>(i := v)) k fd" "holds (\<sigma>(i := v)) l fd" for k l fd
    using that inv'(4) unfolding h by blast
  show "socket_good t" if "(\<sigma>(i := v)) k = Some t" for k t
    using that inv'(5) v by (auto split: if_splits)
qed

lemma own_inv_same:
  assumes inv: "own_inv (n, \<sigma>)" and i: "\<sigma> i = Some s" and "sock_fd s' = sock_fd s" "ioService s' = ioService s"
    "net_open n' = net_open n" "bad_closes n' = bad_closes n"
  shows "own_inv (n', \<sigma>(i \<mapsto> s'))"
proof -
  have h: "holds (\<sigma>(i \<mapsto> s')) k fd \<longleftrightarrow> holds \<sigma> k fd" for k fd using assms(2,3) by (auto simp: holds_def)
  note inv' = own_invE [OF inv]
  show ?thesis
  proof (rule own_invI)
    show "socket_good t" if "(\<sigma>(i \<mapsto> s')) k = Some t" for k t
    proof (cases "k = i")
      case True
      then have "t = s'" using that by simp
      then show ?thesis using inv'(5) [OF i] assms(3,4) by (simp add: socket_good_def)
    next
      case False
      then show ?thesis using that inv'(5) [of k t] by simp
    qed
    show "bad_closes n' = 0" using inv'(1) assms(6) by simp
    show "fd \<in> net_open n'" if "holds (\<sigma>(i \<mapsto> s')) k fd" for k fd using that inv'(2) assms(5) unfolding h by simp
    show "\<exists>k. holds (\<sigma>(i \<mapsto> s')) k fd" if "fd \<in> net_open n'" for fd using that inv'(3) assms(5) unfolding h by simp
    show "k = l" if "holds (\<sigma>(i \<mapsto> s')) k fd" "holds (\<sigma>(i \<mapsto> s')) l fd" for k l fd
      using that inv'(4) unfolding h by simp
  qed
qed

lemma own_inv_start: "no_sockets x \<Longrightarrow> own_inv x"
  by (cases x) (simp add: no_sockets_def own_inv_def holds_def)

lemma own_inv_step: "sock_step b x y \<Longrightarrow> own_inv x \<Longrightarrow> own_inv y"
proof (induction rule: sock_step.induct)
  case (new \<sigma> i fd n sv s n')
  then show ?case
    by (intro own_inv_add [of n]) (auto simp: TcpSocket_new_def BasicSocket_new_def open_fd_def fresh_fd_def socket_good_def)
next
  case (accepted \<sigma> i fd n ok sv local remote s n')
  have "sock_fd s = fd" "ioService s = Some sv" "net_open n' = net_open (open_fd fd n)" "bad_closes n' = bad_closes n"
    using accepted(3) by (auto simp: TcpSocket_accepted_def BasicSocket_of_def Let_def bind_result_eq_Inr
        dest!: listen_net(1) split: if_splits)
  then show ?case
    using accepted by (intro own_inv_add [of n]) (auto simp: open_fd_def fresh_fd_def socket_good_def)
next
  case (read_wait \<sigma> i s sv ok h n n')
  then show ?case using listen_net(1) unfolding own_inv_def by fastforce
next
  case (write_wait \<sigma> i s sv ok h n n')
  then show ?case using listen_net(2) unfolding own_inv_def by fastforce
next
  case (events evs n sv active w \<sigma>)
  then show ?case by (simp add: own_inv_def)
next
  case (closing \<sigma> i s n s' n')
  then show ?case by (intro own_inv_same [of n \<sigma> i s]) (auto simp: Tcp_Close_def Basic_Close_def)
next
  case (move \<sigma> i s j t s' n)
  moreover have "i \<noteq> j" using move by auto
  moreover have "socket_good s" using own_invE(5) [OF move(4)] move(1) .
  ultimately show ?case
    by (intro own_inv_hand_over [of n \<sigma> i s j]) (auto simp: Socket_move_def Socket_emptied_def holds_def socket_good_def)
next
  case (assign i j \<sigma> this other n this' other' n')
  have g: "socket_good this" "socket_good other" using own_invE(5) [OF assign(5)] assign(2,3) by blast+
  let ?n = "n\<lparr>net_open := net_open n - (if sock_fd this \<ge> 0 then {sock_fd this} else {})\<rparr>"
  have "own_inv (?n, \<sigma>(i := None))"
    using own_inv_drop [OF assign(5,2), of None ?n] by simp
  moreover have "sock_fd this \<ge> 0 \<Longrightarrow> sock_fd this \<in> net_open n"
    using own_invE(2) [OF assign(5), of i "sock_fd this"] assign(2) by (simp add: holds_def)
  then have "net_open n' = net_open ?n" "bad_closes n' = bad_closes ?n" "this' = other" "other' = Socket_emptied other"
    using assign(4) g by (auto simp: Socket_assign_def close_fd_def bind_result_eq_Inr socket_good_def split: if_splits)
  ultimately have "own_inv (n', (\<sigma>(i := None))(j \<mapsto> other', i \<mapsto> this'))"
    using assign(1,3) g by (intro own_inv_hand_over [of ?n _ j other])
      (auto simp: Socket_emptied_def holds_def socket_good_def)
  then show ?case using assign(1) by (simp add: fun_upd_twist)
next
  case (destroy \<sigma> i s n n')
  have "sock_fd s \<ge> 0 \<Longrightarrow> sock_fd s \<in> net_open n"
    using own_invE(2) [OF destroy(3), of i "sock_fd s"] destroy(1) by (simp add: holds_def)
  then show ?case
    using destroy by (intro own_inv_drop [of n \<sigma> i s])
      (auto simp: Socket_destroy_def close_fd_def split: if_splits option.splits)
qed

text \<open>The watchers: which entries an operation adds to a table.\<close>

lemma listen_dom:
  assumes "listen_read ok sv fd h n = Inr n' \<or> listen_write ok sv fd h n = Inr n'" "filed (services n sv')"
  shows "filed (services n' sv')" "wakeUpFd (services n' sv') = wakeUpFd (services n sv')"
    "ioEvents (services n' sv') g \<noteq> None \<Longrightarrow> ioEvents (services n sv') g \<noteq> None \<or> (sv' = sv \<and> g = fd)"
  using assms
  by (auto simp: listen_read_def listen_write_def bind_result_eq_Inr ListenReadEvent_def ListenWriteEvent_def filed_def
      Let_def set_ioEvent_def epoll_ctl_def ioEvent_ref_def split: if_splits option.splits)

lemma stop_all_dom:
  "ioEvents (services (stop_all sv fd n) sv') g = (if sv' = sv \<and> g = fd then None else ioEvents (services n sv') g)"
  "wakeUpFd (services (stop_all sv fd n) sv') = wakeUpFd (services n sv')"
  by (auto simp: stop_all_def at_service_def StopListeningAll_def erase_ioEvent_def epoll_ctl_def split: option.splits)

lemma watch_event_dom:
  assumes "watch_event ok fd ev w = Inr (a, w')" "filed w"
  shows "filed w' \<and> wakeUpFd w' = wakeUpFd w \<and> (ioEvents w' g \<noteq> None \<longrightarrow> ioEvents w g \<noteq> None)"
  using assms
  by (auto simp: watch_event_def StopListeningWriteEvent_def set_ioEvent_def erase_ioEvent_def epoll_ctl_def filed_def
      Let_def bind_result_eq_Inr split: if_splits option.splits)

lemma watch_events_dom:
  assumes "watch_events active evs w = Inr (a, w')" "filed w"
  shows "filed w' \<and> wakeUpFd w' = wakeUpFd w \<and> (ioEvents w' g \<noteq> None \<longrightarrow> ioEvents w g \<noteq> None)"
  using assms
proof (induction evs arbitrary: active w)
  case Nil
  then show ?case by simp
next
  case (Cons e evs)
  obtain fd ev ok where e: "e = (fd, ev, ok)" by (cases e)
  obtain a1 w1 where 1: "watch_event ok fd ev w = Inr (a1, w1)" "watch_events (active @ a1) evs w1 = Inr (a, w')"
    using Cons.prems(1) by (auto simp: e bind_result_eq_Inr)
  note 2 = watch_event_dom [OF 1(1) Cons.prems(2), of g]
  from 2 have "filed w1" by simp
  note 3 = Cons.IH [OF 1(2) this]
  show ?case using 2 3 by simp
qed

lemma WatchIo_dom:
  assumes "WatchIo evs w = Inr (a, w')" "filed w"
  shows "filed w' \<and> wakeUpFd w' = wakeUpFd w \<and> (ioEvents w' g \<noteq> None \<longrightarrow> ioEvents w g \<noteq> None)"
proof -
  obtain w1 where 1: "watch_events [] evs w = Inr (a, w1)"
      "w' = (if epollEvents_size w1 = length evs then w1\<lparr>epollEvents_size := length evs * 2\<rparr> else w1)"
    using assms(1) by (auto simp: WatchIo_def bind_result_eq_Inr)
  show ?thesis using watch_events_dom [OF 1(1) assms(2), of g] by (simp add: 1(2) filed_def)
qed

lemma table_inv_start: "no_sockets x \<Longrightarrow> table_inv x"
  by (simp add: no_sockets_def table_inv_def)

lemma table_invI:
  assumes "\<And>sv. filed (services n sv)"
    and "\<And>sv fd. ioEvents (services n sv) fd \<noteq> None \<Longrightarrow> fd = wakeUpFd (services n sv) \<or> holds_at \<sigma> sv fd"
  shows "table_inv (n, \<sigma>)"
  using assms by (simp add: table_inv_def)

lemma table_invE:
  assumes "table_inv (n, \<sigma>)"
  shows "filed (services n sv)"
    "ioEvents (services n sv) fd \<noteq> None \<Longrightarrow> fd = wakeUpFd (services n sv) \<or> holds_at \<sigma> sv fd"
  using assms by (auto simp: table_inv_def)

lemma holds_at_mono:
  assumes "holds_at \<sigma> sv fd"
    and "\<And>i s. \<sigma> i = Some s \<Longrightarrow> sock_fd s = fd \<Longrightarrow> fd \<ge> 0 \<Longrightarrow> ioService s = Some sv \<Longrightarrow>
      \<exists>j t. \<sigma>' j = Some t \<and> sock_fd t = fd \<and> ioService t = Some sv"
  shows "holds_at \<sigma>' sv fd"
  using assms unfolding holds_at_def by metis

lemma holds_at_add: "holds_at \<sigma> sv fd \<Longrightarrow> \<sigma> i = None \<Longrightarrow> holds_at (\<sigma>(i \<mapsto> s)) sv fd"
  by (erule holds_at_mono) (metis fun_upd_other option.distinct(1))

lemma holds_at_same:
  "holds_at \<sigma> sv fd \<Longrightarrow> \<sigma> i = Some s \<Longrightarrow> sock_fd s' = sock_fd s \<Longrightarrow> ioService s' = ioService s \<Longrightarrow>
     holds_at (\<sigma>(i \<mapsto> s')) sv fd"
  by (erule holds_at_mono) (metis fun_upd_apply option.inject)

lemma holds_at_hand_over:
  assumes "holds_at \<sigma> sv fd" "\<sigma> i = Some s" "i \<noteq> j" "\<sigma> j = None \<or> (\<exists>t. \<sigma> j = Some t \<and> sock_fd t < 0)"
  shows "holds_at (\<sigma>(i \<mapsto> s', j \<mapsto> s)) sv fd"
  using assms(1)
proof (rule holds_at_mono)
  fix k t
  assume t: "\<sigma> k = Some t" "sock_fd t = fd" "fd \<ge> 0" "ioService t = Some sv"
  then have "k \<noteq> j" using assms(4) by auto
  then have "(\<sigma>(i \<mapsto> s', j \<mapsto> s)) (if k = i then j else k) = Some t" using t assms(2,3) by auto
  then show "\<exists>l u. (\<sigma>(i \<mapsto> s', j \<mapsto> s)) l = Some u \<and> sock_fd u = fd \<and> ioService u = Some sv"
    using t by blast
qed

lemma holds_at_drop:
  assumes "holds_at \<sigma> sv fd" "\<sigma> i = Some s" "\<not> (sock_fd s = fd \<and> fd \<ge> 0 \<and> ioService s = Some sv)"
  shows "holds_at (\<sigma>(i := None)) sv fd"
  using assms(1)
proof (rule holds_at_mono)
  fix k t
  assume t: "\<sigma> k = Some t" "sock_fd t = fd" "fd \<ge> 0" "ioService t = Some sv"
  then have "k \<noteq> i" using assms(2,3) by auto
  then have "(\<sigma>(i := None)) k = Some t" using t by simp
  then show "\<exists>l u. (\<sigma>(i := None)) l = Some u \<and> sock_fd u = fd \<and> ioService u = Some sv" using t by blast
qed

lemma table_inv_listen:
  assumes l: "listen_read ok sv fd h n = Inr n' \<or> listen_write ok sv fd h n = Inr n'"
    and n: "\<And>sv. filed (services n sv)"
      "\<And>sv' g. ioEvents (services n sv') g \<noteq> None \<Longrightarrow> g = wakeUpFd (services n sv') \<or> holds_at \<sigma>' sv' g"
    and own: "holds_at \<sigma>' sv fd"
  shows "table_inv (n', \<sigma>')"
proof (rule table_invI)
  fix sv'
  note d = listen_dom [OF l n(1) [of sv']]
  show "filed (services n' sv')" using d(1) .
  fix g
  assume "ioEvents (services n' sv') g \<noteq> None"
  then have "ioEvents (services n sv') g \<noteq> None \<or> (sv' = sv \<and> g = fd)" by (rule d(3))
  then show "g = wakeUpFd (services n' sv') \<or> holds_at \<sigma>' sv' g"
    using n(2) [of sv' g] own d(2) by auto
qed

lemma table_inv_services:
  assumes "table_inv (n, \<sigma>)" "services n' = services n" "\<And>sv fd. holds_at \<sigma> sv fd \<Longrightarrow> holds_at \<sigma>' sv fd"
  shows "table_inv (n', \<sigma>')"
  using assms by (auto simp: table_inv_def)

lemma table_inv_accepted:
  assumes "\<sigma> i = None" "TcpSocket_accepted ok sv local remote fd (open_fd fd n) = Inr (s, n')" "table_inv (n, \<sigma>)"
  shows "table_inv (n', \<sigma>(i \<mapsto> s))"
proof (cases "fd \<ge> 0")
  case False
  then show ?thesis
    using assms by (intro table_inv_services [OF assms(3)]) (auto simp: TcpSocket_accepted_def holds_at_add)
next
  case True
  then have l: "listen_read ok sv fd None (open_fd fd n) = Inr n'" "sock_fd s = fd" "ioService s = Some sv"
    using assms(2) by (auto simp: TcpSocket_accepted_def BasicSocket_of_def Let_def bind_result_eq_Inr)
  have own: "holds_at (\<sigma>(i \<mapsto> s)) sv fd" using l True by (auto simp: holds_at_def)
  show ?thesis
  proof (rule table_inv_listen [of ok sv fd None "open_fd fd n"])
    show "g = wakeUpFd (services (open_fd fd n) sv') \<or> holds_at (\<sigma>(i \<mapsto> s)) sv' g"
      if "ioEvents (services (open_fd fd n) sv') g \<noteq> None" for sv' g
      using table_invE(2) [OF assms(3), of sv' g] that assms(1) holds_at_add [of \<sigma> sv' g i s] by auto
  qed (use own l table_invE(1) [OF assms(3)] in auto)
qed

lemma table_inv_destroy:
  assumes "\<sigma> i = Some s" "Socket_destroy s n = Inr n'" "table_inv (n, \<sigma>)"
  shows "table_inv (n', \<sigma>(i := None))"
proof (cases "sock_fd s \<ge> 0")
  case False
  then show ?thesis
    using assms(1,2) holds_at_drop [where \<sigma> = \<sigma> and i = i and s = s]
    by (intro table_inv_services [OF assms(3)]) (auto simp: Socket_destroy_def)
next
  case True
  then obtain sv where sv: "ioService s = Some sv" "services n' = services (stop_all sv (sock_fd s) n)"
    using assms(2) by (auto simp: Socket_destroy_def split: option.splits)
  show ?thesis
  proof (rule table_invI)
    fix sv'
    have "ioEvents (services n' sv') g = Some e \<Longrightarrow> ev_fd e = g" for g e
      using table_invE(1) [OF assms(3), of sv'] by (auto simp: sv stop_all_dom filed_def split: if_splits)
    then show "filed (services n' sv')" by (simp add: filed_def)
    fix g
    assume "ioEvents (services n' sv') g \<noteq> None"
    then have "\<not> (sv' = sv \<and> g = sock_fd s)" "ioEvents (services n sv') g \<noteq> None"
      by (auto simp: sv stop_all_dom split: if_splits)
    then show "g = wakeUpFd (services n' sv') \<or> holds_at (\<sigma>(i := None)) sv' g"
      using table_invE(2) [OF assms(3)] assms(1) holds_at_drop [where \<sigma> = \<sigma> and i = i and s = s] sv by (auto simp: stop_all_dom)
  qed
qed

lemma table_inv_step: "sock_step b x y \<Longrightarrow> \<not> b \<Longrightarrow> table_inv x \<Longrightarrow> table_inv y"
proof (induction rule: sock_step.induct)
  case (new \<sigma> i fd n sv s n')
  then show ?case
    by (intro table_inv_services [OF new(5)]) (auto simp: TcpSocket_new_def holds_at_add)
next
  case (accepted \<sigma> i fd n ok sv local remote s n')
  show ?case by (rule table_inv_accepted [OF accepted(1,3,5)])
next
  case (read_wait \<sigma> i s sv ok h n n')
  then show ?case
    using table_invE [OF read_wait(6)] by (intro table_inv_listen [of ok sv "sock_fd s" h n]) (auto simp: holds_at_def)
next
  case (write_wait \<sigma> i s sv ok h n n')
  then show ?case
    using table_invE [OF write_wait(6)] by (intro table_inv_listen [of ok sv "sock_fd s" h n]) (auto simp: holds_at_def)
next
  case (events evs n sv active w \<sigma>)
  show ?case
    using table_invE [OF events(3)] WatchIo_dom [OF events(1)]
    by (intro table_invI) (auto split: if_splits)
next
  case (closing \<sigma> i s n s' n')
  then show ?case
    by (intro table_inv_services [OF closing(4)]) (auto simp: Tcp_Close_def Basic_Close_def intro!: holds_at_same)
next
  case (move \<sigma> i s j t s' n)
  have ij: "i \<noteq> j" using move(1,2) by auto
  show ?case
    using move(3) holds_at_hand_over [where \<sigma> = \<sigma> and i = i and s = s and j = j] move(1,2) ij
    by (intro table_inv_services [OF move(5)]) (auto simp: Socket_move_def)
next
  case (assign i j \<sigma> this other n this' other' n')
  have "n' = n" "this' = other" "sock_fd this < 0" using assign(4,5) by (auto simp: Socket_assign_def)
  moreover have "holds_at (\<sigma>(j \<mapsto> other', i \<mapsto> other)) sv fd" if "holds_at \<sigma> sv fd" for sv fd
    using holds_at_hand_over [where \<sigma> = \<sigma> and i = j and s = other and j = i] that assign(1,2,3) \<open>sock_fd this < 0\<close> by auto
  ultimately show ?case
    using assign(1) by (intro table_inv_services [OF assign(6)]) (auto simp: fun_upd_twist)
next
  case (destroy \<sigma> i s n n')
  show ?case by (rule table_inv_destroy [OF destroy(1,2,4)])
qed

lemma sock_steps_inv:
  "sock_steps bs x y \<Longrightarrow> no_sockets x \<Longrightarrow> own_inv y \<and> (True \<notin> set bs \<longrightarrow> table_inv y)"
proof (induction rule: sock_steps.induct)
  case (none x)
  then show ?case by (simp add: own_inv_start table_inv_start)
next
  case (step bs x y b z)
  then show ?case using own_inv_step [of b y z] table_inv_step [of b y z] by auto
qed

section \<open>Properties\<close>

text \<open>C5: Every descriptor has one owner. Whatever a program does with its sockets (construct, accept, wait,
  close, move, assign over one another, destroy, in any order), the open descriptors are at every
  moment exactly those held by its live sockets, no two sockets hold the same one, none is closed twice,
  and no destructor or assignment touches a null service.\<close>

theorem descriptors_owned_once:
  assumes "no_sockets x" "sock_steps bs x (n, \<sigma>)"
  shows "bad_closes n = 0 \<and> net_open n = {fd. \<exists>i. holds \<sigma> i fd} \<and> (\<forall>fd \<in> net_open n. \<exists>!i. holds \<sigma> i fd)
     \<and> (\<forall>i s. \<sigma> i = Some s \<longrightarrow> (\<exists>n'. Socket_destroy s n = Inr n'))
     \<and> (\<forall>i s j t. \<sigma> i = Some s \<longrightarrow> \<sigma> j = Some t \<longrightarrow> (\<exists>r. Socket_assign s t n = Inr r))"
proof -
  have inv: "own_inv (n, \<sigma>)" using sock_steps_inv [OF assms(2,1)] by simp
  note i = own_invE [OF inv]
  show ?thesis
  proof (intro conjI)
    show "bad_closes n = 0" by (rule i(1))
    show "net_open n = {fd. \<exists>i. holds \<sigma> i fd}" using i(2,3) by blast
    show "\<forall>fd \<in> net_open n. \<exists>!i. holds \<sigma> i fd" using i(3,4) by metis
    show "\<forall>i s. \<sigma> i = Some s \<longrightarrow> (\<exists>n'. Socket_destroy s n = Inr n')"
      using i(5) by (fastforce simp: Socket_destroy_def socket_good_def)
    show "\<forall>i s j t. \<sigma> i = Some s \<longrightarrow> \<sigma> j = Some t \<longrightarrow> (\<exists>r. Socket_assign s t n = Inr r)"
      using i(5) by (fastforce simp: Socket_assign_def socket_good_def)
  qed
qed

definition demo_net :: "nat net" where
  "demo_net = \<lparr>net_open = {}, services = (\<lambda>sv. \<lparr>wakeUpFd = 3, ioEvents = Map.empty, epollEvents_size = 16, calls = []\<rparr>),
     bad_closes = 0, shutdowns = []\<rparr>"

lemma demo_no_sockets: "no_sockets (demo_net, Map.empty)"
  by (simp add: no_sockets_def demo_net_def filed_def)

lemma demo_assign:
  "\<exists>n' \<sigma>. sock_steps [False, False, True] (demo_net, Map.empty) (n', \<sigma>) \<and> net_open n' = {5} \<and> \<sigma> 0 = Some (BasicSocket_new 0 5)"
proof -
  let ?s = "BasicSocket_new 0 4" and ?t = "BasicSocket_new 0 5"
  let ?n2 = "open_fd 5 (open_fd 4 demo_net)"
  have "sock_step False (demo_net, Map.empty) (open_fd 4 demo_net, Map.empty(0 \<mapsto> ?s))"
    by (rule sock_step.new [where fd = 4 and sv = 0]) (simp_all add: fresh_fd_def demo_net_def TcpSocket_new_def)
  note 1 = sock_steps.step [OF sock_steps.none this]
  have "sock_step False (open_fd 4 demo_net, Map.empty(0 \<mapsto> ?s)) (?n2, Map.empty(0 \<mapsto> ?s, Suc 0 \<mapsto> ?t))"
    by (rule sock_step.new [where fd = 5 and sv = 0])
      (simp_all add: fresh_fd_def demo_net_def TcpSocket_new_def open_fd_def)
  note 2 = sock_steps.step [OF 1 this]
  have "sock_step (sock_fd ?s \<ge> 0) (?n2, Map.empty(0 \<mapsto> ?s, Suc 0 \<mapsto> ?t))
      (stop_all 0 5 (close_fd 4 ?n2), Map.empty(0 \<mapsto> ?s, Suc 0 \<mapsto> ?t, 0 \<mapsto> ?t, Suc 0 \<mapsto> Socket_emptied ?t))"
  proof (rule sock_step.assign [where i = 0 and j = "Suc 0"])
    show "Socket_assign ?s ?t ?n2 = Inr (?t, Socket_emptied ?t, stop_all 0 5 (close_fd 4 ?n2))"
      unfolding Socket_assign_def by (simp add: BasicSocket_new_def)
  qed simp_all
  then have "sock_step True (?n2, Map.empty(0 \<mapsto> ?s, Suc 0 \<mapsto> ?t))
      (stop_all 0 5 (close_fd 4 ?n2), Map.empty(0 \<mapsto> ?s, Suc 0 \<mapsto> ?t, 0 \<mapsto> ?t, Suc 0 \<mapsto> Socket_emptied ?t))"
    by (simp add: BasicSocket_new_def)
  note 3 = sock_steps.step [OF 2 this]
  have "net_open (stop_all 0 5 (close_fd 4 ?n2)) = {5}" by (auto simp: close_fd_def open_fd_def demo_net_def)
  then show ?thesis using 3 by (intro exI conjI, simp only: append.simps) simp_all
qed

theorem descriptors_owned_once_witness:
  "\<exists>n' \<sigma>. sock_steps [False, False, True] (demo_net, Map.empty) (n', \<sigma>) \<and> net_open n' = {5} \<and> bad_closes n' = 0
     \<and> (\<exists>!i. holds \<sigma> i 5)"
proof -
  obtain n' \<sigma> where s: "sock_steps [False, False, True] (demo_net, Map.empty) (n', \<sigma>)" "net_open n' = {5}"
    using demo_assign by blast
  note o = descriptors_owned_once [OF demo_no_sockets s(1)]
  then have "bad_closes n' = 0" "\<exists>!i. holds \<sigma> i 5" using s(2) by simp_all
  then show ?thesis using s by blast
qed

text \<open>C35: Watchers follow ownership. As long as a program never assigns over a socket that still has a
  descriptor, every entry of a watcher (but that of its wake-up descriptor) belongs to a live socket of
  that service; so a number the kernel hands out again is never found in a table, and the first
  \<open>ListenReadEvent\<close> on it does add it to epoll.\<close>

theorem watched_descriptors_owned:
  assumes "no_sockets x" "sock_steps bs x (n, \<sigma>)" "True \<notin> set bs"
  shows "(\<forall>sv fd. ioEvents (services n sv) fd \<noteq> None \<longrightarrow> fd = wakeUpFd (services n sv) \<or> holds_at \<sigma> sv fd)
     \<and> (\<forall>sv fd h. fresh_fd fd n \<longrightarrow> (\<exists>w. ListenReadEvent True fd h (services n sv) = Inr w
          \<and> calls w = calls (services n sv) @ [\<lparr>c_op = CTL_ADD, c_fd = fd, c_events = EPOLLIN OR EPOLLET, c_ok = True\<rparr>]))"
proof (intro conjI allI impI)
  have t: "table_inv (n, \<sigma>)" and o: "own_inv (n, \<sigma>)" using sock_steps_inv [OF assms(2,1)] assms(3) by simp_all
  show own: "fd = wakeUpFd (services n sv) \<or> holds_at \<sigma> sv fd" if "ioEvents (services n sv) fd \<noteq> None" for sv fd
    using table_invE(2) [OF t that] .
  fix sv fd h
  assume f: "fresh_fd fd n"
  have "ioEvents (services n sv) fd = None"
  proof (rule ccontr)
    assume "ioEvents (services n sv) fd \<noteq> None"
    then have "holds_at \<sigma> sv fd" using own f by (auto simp: fresh_fd_def)
    then obtain i s where "\<sigma> i = Some s" "sock_fd s = fd" "fd \<ge> 0" unfolding holds_at_def by blast
    then have "holds \<sigma> i fd" by (simp add: holds_def)
    then show False using own_invE(2) [OF o] f by (auto simp: fresh_fd_def)
  qed
  then show "\<exists>w. ListenReadEvent True fd h (services n sv) = Inr w
          \<and> calls w = calls (services n sv) @ [\<lparr>c_op = CTL_ADD, c_fd = fd, c_events = EPOLLIN OR EPOLLET, c_ok = True\<rparr>]"
    by (simp add: ListenReadEvent_def Let_def epoll_ctl_def set_ioEvent_def)
qed

theorem watched_descriptors_owned_witness:
  "\<exists>n' \<sigma>. sock_steps [False] (demo_net, Map.empty) (n', \<sigma>) \<and> net_open n' = {4}
     \<and> (\<exists>w. ListenReadEvent True 5 None (services n' 0) = Inr w \<and> calls w \<noteq> [])"
proof -
  let ?s = "BasicSocket_new 0 4"
  have st: "sock_step False (demo_net, Map.empty) (open_fd 4 demo_net, Map.empty(0 \<mapsto> ?s))"
    by (rule sock_step.new [where fd = 4 and sv = 0]) (simp_all add: fresh_fd_def demo_net_def TcpSocket_new_def)
  have steps: "sock_steps [False] (demo_net, Map.empty) (open_fd 4 demo_net, Map.empty(0 \<mapsto> ?s))"
    using sock_steps.step [OF sock_steps.none st] by simp
  have f: "fresh_fd 5 (open_fd 4 demo_net)" "net_open (open_fd 4 demo_net) = {4}"
    by (simp_all add: fresh_fd_def open_fd_def demo_net_def)
  obtain w where "ListenReadEvent True 5 None (services (open_fd 4 demo_net) 0) = Inr w" "calls w \<noteq> []"
    using watched_descriptors_owned [OF demo_no_sockets steps] f(1) by fastforce
  then show ?thesis using steps f(2) by blast
qed

text \<open>Assigning over a socket that is still open closes its descriptor but stops the watching of the other
  socket's: the entry of the closed number stays in the table, so that the next socket that gets this number is
  never added to epoll (\<open>ListenReadEvent\<close> finds the entry and makes no call), and the socket that was moved in
  is no longer watched.\<close>

theorem assign_strands_entry:
  assumes "ioService a = Some sv" "sock_fd a \<ge> 0" "sock_fd b \<noteq> sock_fd a"
    and "ioEvents (services n sv) (sock_fd a) = Some e" "readHandle e = None"
  shows "\<exists>b' n'. Socket_assign a b n = Inr (b, b', n') \<and> sock_fd a \<notin> net_open n'
     \<and> ioEvents (services n' sv) (sock_fd a) = Some e \<and> ioEvents (services n' sv) (sock_fd b) = None
     \<and> (\<forall>ok h. \<exists>w. ListenReadEvent ok (sock_fd a) h (services n' sv) = Inr w \<and> calls w = calls (services n' sv))"
  using assms
  by (auto simp: Socket_assign_def stop_all_dom close_fd_def ListenReadEvent_def set_ioEvent_def)

theorem assign_strands_entry_witness:
  "\<exists>(n :: nat net) e b' n'. ioEvents (services n 0) 4 = Some e
     \<and> Socket_assign (BasicSocket_new 0 4) (BasicSocket_new 0 5) n = Inr (BasicSocket_new 0 5, b', n')
     \<and> 4 \<notin> net_open n' \<and> ioEvents (services n' 0) 4 = Some e"
proof -
  let ?e = "noIoEvent\<lparr>ev_fd := 4\<rparr> :: nat IoEvent"
  let ?n = "at_service 0 (set_ioEvent 4 ?e) (open_fd 5 (open_fd 4 demo_net))"
  have "ioEvents (services ?n 0) 4 = Some ?e" by (simp add: at_service_def set_ioEvent_def)
  moreover have "\<exists>b' n'. Socket_assign (BasicSocket_new 0 4) (BasicSocket_new 0 5) ?n = Inr (BasicSocket_new 0 5, b', n')
      \<and> 4 \<notin> net_open n' \<and> ioEvents (services n' 0) 4 = Some ?e"
    using assign_strands_entry [of "BasicSocket_new 0 4" 0 "BasicSocket_new 0 5" ?n ?e]
    by (auto simp: BasicSocket_new_def at_service_def set_ioEvent_def noIoEvent_def)
  ultimately show ?thesis by blast
qed

text \<open>Out of descriptors: the idle one is given up for the pending connection, which is closed, and taken again.\<close>

lemma accept_out_of_descriptors:
  assumes "listened a" "r = (- 1, EMFILE)" "idleFd a \<ge> 0" "idleFd a \<in> net_open n"
    "spare \<ge> 0" "spare \<notin> net_open n - {idleFd a}" "idle' \<ge> 0" "idle' \<notin> net_open n - {idleFd a}"
  shows "\<exists>s a' n'. Accept ok sv r addr spare idle' a n = Inr (s, a', n') \<and> \<not> IsValid s \<and> idleFd a' = idle'
     \<and> net_open n' = insert idle' (net_open n - {idleFd a}) \<and> bad_closes n' = bad_closes n"
  using assms
  by (auto simp: Accept_def Let_def TcpSocket_accepted_def BasicSocket_of_def IsValid_def close_fd_def open_fd_def)

text \<open>A moved acceptor has forgotten that it listens: \<open>Accept\<close> fails its assertion.\<close>

lemma moved_acceptor_fails: "Accept ok sv r addr spare idle' (fst (Acceptor_move a)) n = Inl AssertFail"
  by (simp add: Acceptor_move_def Accept_def)

text \<open>A UDP socket that could not be made aborts the process, as its descriptor is watched all the same.\<close>

lemma failed_udp_socket_aborts:
  "ioEvents (services n sv) (- 1) = None \<Longrightarrow> UdpSocket_new False sv (- 1) n = Inl Abort"
  by (simp add: UdpSocket_new_def listen_read_def ListenReadEvent_def open_fd_def)

text \<open>Reopening a file closes the old descriptor once, also when the new file cannot be opened.\<close>

lemma reOpen_closes_old:
  assumes "io_fd f > 0" "\<not> adopt f" "io_fd f \<in> net_open n" "fd \<notin> net_open n"
  shows "\<exists>f' n'. reOpen name m fd f n = (fd \<ge> 0, f', n') \<and> io_fd f' = fd \<and> bad_closes n' = bad_closes n
     \<and> net_open n' = (net_open n - {io_fd f}) \<union> (if fd \<ge> 0 then {fd} else {})"
  using assms
  by (auto simp: reOpen_def AsyncIO_open_def AsyncIO_Swap_def AsyncIO_IsOpen_def AsyncIO_destroy_def
      close_fd_def open_fd_def stop_all_def at_service_def)

text \<open>A file that got descriptor 0 is never closed.\<close>

lemma descriptor_zero_leaks: "io_fd f = 0 \<Longrightarrow> AsyncIO_destroy f n = n \<and> AsyncIO_Close f n = (f, n)"
  by (simp add: AsyncIO_destroy_def AsyncIO_Close_def)

end
