(* ===== verification/Options.thy ===== *)
theory Options
  imports LogCalls Socket
begin

text \<open>
  Three small headers: the socket options of \<open>cold/net/SocketOptions.h\<close> with \<open>SetOption\<close> and \<open>GetOption\<close> of \<open>BasicSocket.h\<close>,
  \<open>ScopeGuard\<close> of \<open>cold/util/ScopeUtil.h\<close>, and the SSL context of \<open>cold/net/ssl/SSLContext.h\<close> with the check that an
  acceptor makes of it.

  \<^item> \<open>setsockopt\<close> and \<open>getsockopt\<close> are arguments; a value is the list of the \<open>int\<close>s in memory, its length is in bytes.
  \<^item> OpenSSL's results are arguments. \<open>FATAL\<close> is the call of \<open>LogCalls\<close>, so it returns when the main logger is off.
\<close>

section \<open>Socket options\<close>

text \<open>The constants of Linux.\<close>

definition SOL_SOCKET :: int where "SOL_SOCKET = 1"
definition IPPROTO_TCP :: int where "IPPROTO_TCP = 6"
definition SO_REUSEADDR :: int where "SO_REUSEADDR = 2"
definition SO_ERROR :: int where "SO_ERROR = 4"
definition SO_KEEPALIVE :: int where "SO_KEEPALIVE = 9"
definition SO_LINGER :: int where "SO_LINGER = 13"
definition SO_REUSEPORT :: int where "SO_REUSEPORT = 15"
definition TCP_NODELAY :: int where "TCP_NODELAY = 1"

lemmas socket_constants = SOL_SOCKET_def IPPROTO_TCP_def SO_REUSEADDR_def SO_ERROR_def SO_KEEPALIVE_def SO_LINGER_def SO_REUSEPORT_def
  TCP_NODELAY_def

record SocketOption =
  opt_level :: int
  opt_name :: int
  opt_value :: "int list"
  opt_len :: nat

definition KeepAlive :: "bool \<Rightarrow> SocketOption" where
  "KeepAlive on = \<lparr>opt_level = SOL_SOCKET, opt_name = SO_KEEPALIVE, opt_value = [if on then 1 else 0], opt_len = 4\<rparr>"

definition Linger :: "bool \<Rightarrow> int \<Rightarrow> SocketOption" where
  "Linger on lingerTime = \<lparr>opt_level = SOL_SOCKET, opt_name = SO_LINGER, opt_value = [if on then 1 else 0, lingerTime], opt_len = 8\<rparr>"

definition TcpNoDelay :: "bool \<Rightarrow> SocketOption" where
  "TcpNoDelay on = \<lparr>opt_level = IPPROTO_TCP, opt_name = TCP_NODELAY, opt_value = [if on then 1 else 0], opt_len = 4\<rparr>"

definition ReuseAddress :: "bool \<Rightarrow> SocketOption" where
  "ReuseAddress on = \<lparr>opt_level = SOL_SOCKET, opt_name = SO_REUSEADDR, opt_value = [if on then 1 else 0], opt_len = 4\<rparr>"

definition ReusePort :: "bool \<Rightarrow> SocketOption" where
  "ReusePort on = \<lparr>opt_level = SOL_SOCKET, opt_name = SO_REUSEPORT, opt_value = [if on then 1 else 0], opt_len = 4\<rparr>"

definition SockError :: SocketOption where
  "SockError = \<lparr>opt_level = SOL_SOCKET, opt_name = SO_ERROR, opt_value = [0], opt_len = 4\<rparr>"

text \<open>The kernel's answers: a result, and what it stored.\<close>

definition SetOption :: "(int \<Rightarrow> int \<Rightarrow> int \<Rightarrow> int list \<Rightarrow> nat \<Rightarrow> 'k \<Rightarrow> int \<times> 'k) \<Rightarrow> BasicSocket \<Rightarrow> SocketOption \<Rightarrow> 'k \<Rightarrow> bool \<times> 'k" where
  "SetOption setsockopt s option1 k = (case setsockopt (sock_fd s) (opt_level option1) (opt_name option1) (opt_value option1) (opt_len option1) k of
     (ret, k') \<Rightarrow> (ret = 0, k'))"

definition GetOption :: "(int \<Rightarrow> int \<Rightarrow> int \<Rightarrow> int list \<Rightarrow> nat \<Rightarrow> 'k \<Rightarrow> int \<times> int list \<times> nat) \<Rightarrow> BasicSocket \<Rightarrow> SocketOption \<Rightarrow> 'k \<Rightarrow>
    bool \<times> SocketOption" where
  "GetOption getsockopt s option1 k = (case getsockopt (sock_fd s) (opt_level option1) (opt_name option1) (opt_value option1) (opt_len option1) k of
     (ret, v, len) \<Rightarrow> (ret = 0, option1\<lparr>opt_value := v, opt_len := len\<rparr>))"

text \<open>What the acceptor sets; the results are ignored.\<close>

definition acceptor_options :: "bool \<Rightarrow> SocketOption list" where
  "acceptor_options reusePort = ReuseAddress True # (if reusePort then [ReusePort True] else [])"

definition Acceptor_set_options :: "(int \<Rightarrow> int \<Rightarrow> int \<Rightarrow> int list \<Rightarrow> nat \<Rightarrow> 'k \<Rightarrow> int \<times> 'k) \<Rightarrow> BasicSocket \<Rightarrow> bool \<Rightarrow> 'k \<Rightarrow> 'k" where
  "Acceptor_set_options setsockopt s reusePort k = fold (\<lambda>o1 k. snd (SetOption setsockopt s o1 k)) (acceptor_options reusePort) k"

definition option_wellformed :: "SocketOption \<Rightarrow> bool" where
  "option_wellformed o1 \<longleftrightarrow> opt_len o1 = 4 * length (opt_value o1)"

lemmas socket_options = KeepAlive_def Linger_def TcpNoDelay_def ReuseAddress_def ReusePort_def SockError_def

text \<open>Each option announces the size of its value and names an option of its own.\<close>

lemma options_wellformed:
  "option_wellformed (KeepAlive a)" "option_wellformed (Linger b t)" "option_wellformed (TcpNoDelay c)"
  "option_wellformed (ReuseAddress d)" "option_wellformed (ReusePort e)" "option_wellformed SockError"
  "distinct (map (\<lambda>o1. (opt_level o1, opt_name o1)) [KeepAlive a, Linger b t, TcpNoDelay c, ReuseAddress d, ReusePort e, SockError])"
  by (simp_all add: option_wellformed_def socket_options socket_constants)

text \<open>With a kernel that keeps one value per descriptor, level and name, an option that was set is read back whatever
  other options are set in between.\<close>

lemma option_read_back:
  assumes set: "\<And>fd l n v len k. 0 \<le> fd \<Longrightarrow> fst (setsockopt fd l n v len k) = 0 \<and>
      (\<forall>fd' l' n' v' len'. getsockopt fd' l' n' v' len' (snd (setsockopt fd l n v len k)) =
         (if (fd', l', n') = (fd, l, n) then (0, v, len) else getsockopt fd' l' n' v' len' k))"
    and "0 \<le> sock_fd s" "\<forall>o2 \<in> set os. (opt_level o2, opt_name o2) \<noteq> (opt_level o1, opt_name o1)"
    and "opt_level o' = opt_level o1" "opt_name o' = opt_name o1"
  shows "GetOption getsockopt s o' (fold (\<lambda>o2 k. snd (SetOption setsockopt s o2 k)) os (snd (SetOption setsockopt s o1 k)))
     = (True, o'\<lparr>opt_value := opt_value o1, opt_len := opt_len o1\<rparr>)"
proof -
  have "getsockopt (sock_fd s) (opt_level o1) (opt_name o1) v len (fold (\<lambda>o2 k. snd (SetOption setsockopt s o2 k)) os k')
      = getsockopt (sock_fd s) (opt_level o1) (opt_name o1) v len k'" for v len k'
    using assms(3)
  proof (induction os arbitrary: k')
    case (Cons o2 os)
    have "(opt_level o1, opt_name o1) \<noteq> (opt_level o2, opt_name o2)" using Cons.prems by (metis list.set_intros(1))
    then have "getsockopt (sock_fd s) (opt_level o1) (opt_name o1) v len (snd (SetOption setsockopt s o2 k'))
        = getsockopt (sock_fd s) (opt_level o1) (opt_name o1) v len k'"
      using set [OF assms(2), of "opt_level o2" "opt_name o2" "opt_value o2" "opt_len o2" k'] by (auto simp: SetOption_def split: prod.splits)
    then show ?case using Cons by simp
  qed simp
  then show ?thesis
    using set [OF assms(2), of "opt_level o1" "opt_name o1" "opt_value o1" "opt_len o1" k] assms(4,5)
    by (auto simp: GetOption_def SetOption_def split: prod.splits)
qed

section \<open>\<open>ScopeGuard\<close>\<close>

record 'w ScopeGuard =
  guard_call :: "'w \<Rightarrow> 'w"

definition ScopeGuard_new :: "('w \<Rightarrow> 'w) \<Rightarrow> 'w ScopeGuard" where
  "ScopeGuard_new call = \<lparr>guard_call = call\<rparr>"

definition ScopeGuard_destroy :: "'w ScopeGuard \<Rightarrow> 'w \<Rightarrow> 'w" where
  "ScopeGuard_destroy g w = guard_call g w"

text \<open>A scope with a guard: it runs when the scope is left by a return.\<close>

definition guarded :: "('w \<Rightarrow> 'w) \<Rightarrow> ('w \<Rightarrow> ('a \<times> 'w) result) \<Rightarrow> 'w \<Rightarrow> ('a \<times> 'w) result" where
  "guarded call body w = bind_result (body w) (\<lambda>(a, w'). Inr (a, ScopeGuard_destroy (ScopeGuard_new call) w'))"

lemma guarded_return: "body w = Inr (a, w') \<Longrightarrow> guarded call body w = Inr (a, call w')"
  by (simp add: guarded_def ScopeGuard_new_def ScopeGuard_destroy_def)

text \<open>Guards run in the reverse order of their declaration.\<close>

lemma guards_reversed:
  "body w = Inr (a, w') \<Longrightarrow> guarded first (guarded second body) w = Inr (a, first (second w'))"
  by (simp add: guarded_return)

section \<open>The SSL context\<close>

record SSLContext =
  ssl_ctx :: "nat option"
  certLoaded :: bool

text \<open>The constructor, with the results of \<open>SSL_library_init\<close> and \<open>SSL_CTX_new\<close>.\<close>

definition SSLContext_new :: "log_env \<Rightarrow> log_site \<Rightarrow> int \<Rightarrow> nat option \<Rightarrow> log_world \<Rightarrow> (SSLContext \<times> log_world) result" where
  "SSLContext_new env site init ctx w =
     bind_result (if init \<noteq> 1 then main_FATAL env site ''SSL_library_init failed'' w else Inr w) (\<lambda>w1.
     bind_result (if ctx = None then main_FATAL env site ''SSL_CTX_new failed'' w1 else Inr w1) (\<lambda>w2.
       Inr (\<lparr>ssl_ctx = ctx, certLoaded = False\<rparr>, w2)))"

text \<open>\<open>GetInstance\<close>: the static object is made by the first call.\<close>

definition SSLContext_GetInstance ::
    "log_env \<Rightarrow> log_site \<Rightarrow> int \<Rightarrow> nat option \<Rightarrow> SSLContext option \<Rightarrow> log_world \<Rightarrow> (SSLContext \<times> log_world) result" where
  "SSLContext_GetInstance env site init ctx instance1 w = (case instance1 of
      Some c \<Rightarrow> Inr (c, w) | None \<Rightarrow> SSLContext_new env site init ctx w)"

text \<open>\<open>SSLContext\<close>'s destructor; \<open>live\<close> are the contexts of OpenSSL.\<close>

definition SSLContext_destroy :: "SSLContext \<Rightarrow> nat set \<Rightarrow> nat set" where
  "SSLContext_destroy c live = (case ssl_ctx c of None \<Rightarrow> live | Some x \<Rightarrow> live - {x})"

text \<open>What OpenSSL says about a certificate file, a key file, and whether the two match.\<close>

type_synonym openssl_files = "(string \<Rightarrow> int) \<times> (string \<Rightarrow> int) \<times> (string \<Rightarrow> string \<Rightarrow> int)"

definition LoadCert :: "log_env \<Rightarrow> log_site \<Rightarrow> openssl_files \<Rightarrow> string \<Rightarrow> string \<Rightarrow> SSLContext \<Rightarrow> log_world \<Rightarrow> (SSLContext \<times> log_world) result" where
  "LoadCert env site files cert pkey c w = (case files of (use_cert, use_key, check) \<Rightarrow>
     bind_result (if use_cert cert \<le> 0 then main_FATAL env site ''SSL_CTX_use_certificate_file failed'' w else Inr w) (\<lambda>w1.
     bind_result (if use_key pkey \<le> 0 then main_FATAL env site ''SSL_CTX_use_PrivateKey_file failed'' w1 else Inr w1) (\<lambda>w2.
     bind_result (if check cert pkey = 0 then main_FATAL env site ''SSL_CTX_check_private_key failed'' w2 else Inr w2) (\<lambda>w3.
       Inr (c\<lparr>certLoaded := True\<rparr>, w3)))))"

text \<open>The check at the end of the acceptor's constructor.\<close>

definition Acceptor_check_cert :: "log_env \<Rightarrow> log_site \<Rightarrow> bool \<Rightarrow> SSLContext \<Rightarrow> log_world \<Rightarrow> log_world result" where
  "Acceptor_check_cert env site enableSSL c w =
     (if enableSSL \<and> \<not> certLoaded c then main_FATAL env site ''SSL Cert not loaded.'' w else Inr w)"

text \<open>A server program: it loads certificates, then builds its acceptor.\<close>

fun load_certs :: "log_env \<Rightarrow> log_site \<Rightarrow> openssl_files \<Rightarrow> (string \<times> string) list \<Rightarrow> SSLContext \<Rightarrow> log_world \<Rightarrow> (SSLContext \<times> log_world) result" where
  "load_certs env site files [] c w = Inr (c, w)"
| "load_certs env site files ((cert, pkey) # pairs) c w =
     bind_result (LoadCert env site files cert pkey c w) (\<lambda>(c1, w1). load_certs env site files pairs c1 w1)"

definition ssl_server :: "log_env \<Rightarrow> log_site \<Rightarrow> openssl_files \<Rightarrow> int \<Rightarrow> nat option \<Rightarrow> (string \<times> string) list \<Rightarrow> bool \<Rightarrow> log_world
    \<Rightarrow> (SSLContext \<times> log_world) result" where
  "ssl_server env site files init ctx pairs enableSSL w =
     bind_result (SSLContext_GetInstance env site init ctx None w) (\<lambda>(c, w1).
     bind_result (load_certs env site files pairs c w1) (\<lambda>(c1, w2).
     bind_result (Acceptor_check_cert env site enableSSL c1 w2) (\<lambda>w3. Inr (c1, w3))))"

definition cert_ok :: "openssl_files \<Rightarrow> string \<times> string \<Rightarrow> bool" where
  "cert_ok files p \<longleftrightarrow> (case files of (use_cert, use_key, check) \<Rightarrow> 0 < use_cert (fst p) \<and> 0 < use_key (snd p) \<and> check (fst p) (snd p) \<noteq> 0)"

text \<open>The main logger's sinks are usable: distinct, none locked, files open.\<close>

definition main_usable :: "log_env \<Rightarrow> log_world \<Rightarrow> bool" where
  "main_usable env w \<longleftrightarrow> distinct (loggerSinks (main_logger env)) \<and> (\<forall>i \<in> set (loggerSinks (main_logger env)). healthy w i)"

lemma fatal_check:
  assumes "main_usable env w"
  shows "(if b then main_FATAL env site t w else Inr w) = (if b \<and> loggerLevel (main_logger env) \<noteq> OFF then Inl Abort else Inr w)"
  using assms main_FATAL_ends [of env w site t] by (simp add: main_usable_def)

lemma LoadCert_checks:
  assumes "main_usable env w" "loggerLevel (main_logger env) \<noteq> OFF"
  shows "LoadCert env site files cert pkey c w = (if cert_ok files (cert, pkey) then Inr (c\<lparr>certLoaded := True\<rparr>, w) else Inl Abort)"
proof -
  have "main_FATAL env site t w = Inl Abort" for t using fatal_check [OF assms(1), of True site t] assms(2) by simp
  then show ?thesis by (auto simp: LoadCert_def cert_ok_def split: prod.split)
qed

lemma load_certs_checks:
  assumes "main_usable env w" "loggerLevel (main_logger env) \<noteq> OFF"
  shows "load_certs env site files pairs c w =
     (if list_all (cert_ok files) pairs then Inr (c\<lparr>certLoaded := (certLoaded c \<or> pairs \<noteq> [])\<rparr>, w) else Inl Abort)"
proof (induction pairs arbitrary: c)
  case (Cons p pairs)
  show ?case by (cases p) (simp add: LoadCert_checks [OF assms] Cons.IH)
qed simp

text \<open>C39: an SSL server that gets through its start has OpenSSL's consent to everything it was given. Unless logging is switched off,
  the program goes on to accept connections exactly when the library and its context could be set up, each
  certificate and key was accepted and they match, and, if it is to use SSL, there was at least one; otherwise it aborts.\<close>

theorem ssl_server_starts:
  assumes "main_usable env w" "loggerLevel (main_logger env) \<noteq> OFF"
  shows "ssl_server env site files init ctx pairs enableSSL w =
     (if init = 1 \<and> ctx \<noteq> None \<and> list_all (cert_ok files) pairs \<and> (enableSSL \<longrightarrow> pairs \<noteq> [])
      then Inr (\<lparr>ssl_ctx = ctx, certLoaded = (pairs \<noteq> [])\<rparr>, w) else Inl Abort)"
  using assms by (simp add: ssl_server_def SSLContext_GetInstance_def SSLContext_new_def Acceptor_check_cert_def
      fatal_check [OF assms(1)] load_certs_checks [OF assms])

theorem ssl_server_starts_witness:
  "ssl_server demo_env (''d.cpp'', 31, ''main'', ''1'', ''main'', 0) (\<lambda>c. 1, \<lambda>k. 1, \<lambda>c k. if c = k then 1 else 0) 1 (Some 0) [(''a'', ''b'')] True
      \<lparr>sinks = (\<lambda>i. demo_sink), held = {}\<rparr> = Inl Abort
   \<and> (\<exists>w. ssl_server demo_env (''d.cpp'', 31, ''main'', ''1'', ''main'', 0) (\<lambda>c. 1, \<lambda>k. 1, \<lambda>c k. if c = k then 1 else 0) 1 (Some 0) [(''a'', ''a'')] True
      \<lparr>sinks = (\<lambda>i. demo_sink), held = {}\<rparr> = Inr (\<lparr>ssl_ctx = Some 0, certLoaded = True\<rparr>, w))"
proof -
  let ?w = "\<lparr>sinks = (\<lambda>i. demo_sink), held = {}\<rparr> :: log_world"
  have "main_usable demo_env ?w" "loggerLevel (main_logger demo_env) \<noteq> OFF"
    by (simp_all add: main_usable_def demo_env_def Logger_new_def healthy_def demo_sink_def)
  then show ?thesis
    using ssl_server_starts [of demo_env ?w "(''d.cpp'', 31, ''main'', ''1'', ''main'', 0)" "(\<lambda>c. 1, \<lambda>k. 1, \<lambda>c k. if c = k then 1 else 0)" 1 "Some 0"]
    by (simp add: cert_ok_def)
qed

text \<open>With the main logger off, \<open>FATAL\<close> returns, and a certificate that OpenSSL refused counts as loaded.\<close>

lemma cert_loaded_without_cert:
  assumes "main_usable env w" "loggerLevel (main_logger env) = OFF"
  shows "LoadCert env site files cert pkey c w = Inr (c\<lparr>certLoaded := True\<rparr>, w)"
  using assms by (simp add: LoadCert_def fatal_check [OF assms(1)] split: prod.split)

end
