(* ===== verification/RpcCodec.thy ===== *)
theory RpcCodec
  imports Endian "HOL-Library.Sublist"
begin

text \<open>
  \<open>RpcCodec.h\<close>: a message on the wire is its length in 8 bytes, network order, and its serialised
  bytes. \<open>ParseMessage\<close> keeps its arithmetic at 64 bits. The locale \<open>framing\<close> is the contract of a
  frame format read from a growing buffer, one frame per read as the channel does it; it is
  interpreted on the codec's two operations, and gives which messages a sequence of reads delivers.
\<close>

record RpcCodec =
  readBuf :: "byte list"
  writeBuf :: "byte list"

definition codec_init :: RpcCodec where
  "codec_init = \<lparr>readBuf = [], writeBuf = []\<rparr>"

text \<open>The size check; a view that leaves the buffer is undefined.\<close>

definition parse_buffer :: "byte list \<Rightarrow> byte list option result" where
  "parse_buffer buf =
     (if length buf < 8 then Inr None
      else
        let messageSize = Network64ToHost64 (load_le (take 8 buf)) :: 64 word
        in if of_nat (length buf) < messageSize + 8 then Inr None
           else if length buf - 8 < unat messageSize then Inl Undefined
           else Inr (Some (take (unat messageSize) (drop 8 buf))))"

definition ParseMessage :: "byte list \<Rightarrow> RpcCodec \<Rightarrow> (byte list option \<times> RpcCodec) result" where
  "ParseMessage chunk c =
     (let c1 = c\<lparr>readBuf := readBuf c @ chunk\<rparr>
      in bind_result (parse_buffer (readBuf c1)) (\<lambda>view. Inr (view, c1)))"

definition TakeMessage :: "byte list \<Rightarrow> RpcCodec \<Rightarrow> RpcCodec result" where
  "TakeMessage message c =
     (if length (readBuf c) < length message then Inl AssertFail
      else Inr (c\<lparr>readBuf := drop (length message + 8) (readBuf c)\<rparr>))"

definition rpc_frame :: "byte list \<Rightarrow> byte list" where
  "rpc_frame message = store_le 8 (Host64ToNetwork64 (of_nat (length message))) @ message"

definition WriteMessageToBuffer :: "('m \<Rightarrow> byte list) \<Rightarrow> 'm \<Rightarrow> RpcCodec \<Rightarrow> RpcCodec" where
  "WriteMessageToBuffer ser m c = c\<lparr>writeBuf := rpc_frame (ser m)\<rparr>"

text \<open>One read of the channel: parse, copy the message, take it.\<close>

definition read_message :: "byte list \<Rightarrow> RpcCodec \<Rightarrow> (byte list option \<times> RpcCodec) result" where
  "read_message chunk c = bind_result (ParseMessage chunk c) (\<lambda>(view, c1).
     case view of None \<Rightarrow> Inr (None, c1)
     | Some message \<Rightarrow> bind_result (TakeMessage message c1) (\<lambda>c2. Inr (Some message, c2)))"

fun read_messages :: "byte list list \<Rightarrow> RpcCodec \<Rightarrow> (byte list list \<times> RpcCodec) result" where
  "read_messages [] c = Inr ([], c)"
| "read_messages (chunk # chunks) c = bind_result (read_message chunk c) (\<lambda>(view, c1).
     bind_result (read_messages chunks c1) (\<lambda>(ms, c2). Inr (case view of None \<Rightarrow> ms | Some m \<Rightarrow> m # ms, c2)))"

section \<open>Frames read from a growing buffer\<close>

text \<open>The reading side of a format as a function of the buffered bytes: a frame and the rest.\<close>

fun receive :: "('b list \<Rightarrow> ('m \<times> 'b list) option) \<Rightarrow> 'b list list \<Rightarrow> 'b list \<Rightarrow> 'm list \<times> 'b list" where
  "receive tk [] buf = ([], buf)"
| "receive tk (c # cs) buf =
     (case tk (buf @ c) of
        None \<Rightarrow> receive tk cs (buf @ c)
      | Some (m, rest) \<Rightarrow> (case receive tk cs rest of (ms, b) \<Rightarrow> (m # ms, b)))"

locale framing =
  fixes enc :: "'m \<Rightarrow> 'b list"
    and tk :: "'b list \<Rightarrow> ('m \<times> 'b list) option"
    and valid :: "'m \<Rightarrow> bool"
    and fits :: "'b list \<Rightarrow> bool"
  assumes tk_enc: "valid m \<Longrightarrow> fits (enc m @ rest) \<Longrightarrow> tk (enc m @ rest) = Some (m, rest)"
    and tk_part: "valid m \<Longrightarrow> strict_prefix part (enc m) \<Longrightarrow> tk part = None"
    and tk_nothing: "tk [] = None"
    and fits_left: "fits (xs @ ys) \<Longrightarrow> fits xs"
    and fits_right: "fits (xs @ ys) \<Longrightarrow> fits ys"
begin

lemma tk_prefix:
  assumes "\<forall>m \<in> set ms. valid m" and "prefix buf (concat (map enc ms))" and "fits buf"
  shows "tk buf = None \<or> (\<exists>m ms' rest. ms = m # ms' \<and> buf = enc m @ rest \<and> tk buf = Some (m, rest) \<and> prefix rest (concat (map enc ms')))"
proof (cases ms)
  case Nil
  then show ?thesis using assms by (simp add: tk_nothing)
next
  case (Cons m ms')
  have "(prefix buf (enc m) \<and> buf \<noteq> enc m) \<or> (\<exists>rest. buf = enc m @ rest \<and> prefix rest (concat (map enc ms')))"
    using assms(2) Cons by (auto simp: prefix_append)
  then consider "prefix buf (enc m)" "buf \<noteq> enc m" | rest where "buf = enc m @ rest" "prefix rest (concat (map enc ms'))"
    by blast
  then show ?thesis
  proof cases
    case 1
    then show ?thesis using tk_part [of m buf] assms(1) Cons by (auto simp: strict_prefix_def)
  next
    case 2
    then show ?thesis using tk_enc [of m rest] assms(1,3) Cons by auto
  qed
qed

text \<open>What is delivered is always an initial part of the messages, at most one per read, and the
  buffer holds the bytes behind it.\<close>

lemma receive_prefix:
  assumes "\<forall>m \<in> set ms. valid m" and "prefix (buf @ concat cs) (concat (map enc ms))" and "fits (buf @ concat cs)"
  shows "\<exists>k b. receive tk cs buf = (take k ms, b) \<and> k \<le> length cs \<and> concat (map enc (take k ms)) @ b = buf @ concat cs"
  using assms
proof (induction cs arbitrary: buf ms)
  case Nil
  then show ?case by (intro exI [of _ 0] exI [of _ buf]) simp
next
  case (Cons c cs)
  have all: "prefix ((buf @ c) @ concat cs) (concat (map enc ms))" "fits ((buf @ c) @ concat cs)"
    using Cons.prems(2,3) by simp_all
  have part: "prefix (buf @ c) (concat (map enc ms))" by (rule append_prefixD [OF all(1)])
  consider "tk (buf @ c) = None"
    | m ms' rest where "ms = m # ms'" "buf @ c = enc m @ rest" "tk (buf @ c) = Some (m, rest)"
    using tk_prefix [OF Cons.prems(1) part fits_left [OF all(2)]] by metis
  then show ?case
  proof cases
    case 1
    obtain k b where "receive tk cs (buf @ c) = (take k ms, b)" "k \<le> length cs"
      "concat (map enc (take k ms)) @ b = (buf @ c) @ concat cs"
      using Cons.IH [OF Cons.prems(1) all] by blast
    then show ?thesis using 1 by (intro exI [of _ k] exI [of _ b]) simp
  next
    case 2
    have eq: "(buf @ c) @ concat cs = enc m @ (rest @ concat cs)" using 2(2) by simp
    have "prefix (rest @ concat cs) (concat (map enc ms'))" "fits (rest @ concat cs)"
      using all 2(1) fits_right unfolding eq by auto
    then obtain k b where "receive tk cs rest = (take k ms', b)" "k \<le> length cs"
      "concat (map enc (take k ms')) @ b = rest @ concat cs"
      using Cons.IH [of ms' rest] Cons.prems(1) 2(1) by auto
    then show ?thesis using 2 eq by (intro exI [of _ "Suc k"] exI [of _ b]) simp
  qed
qed

lemma receive_each:
  "\<forall>m \<in> set ms. valid m \<and> fits (enc m) \<Longrightarrow> receive tk (map enc ms) [] = (ms, [])"
  using tk_enc [where rest = "[]"] by (induction ms) simp_all

lemma receive_once:
  assumes "valid m1" "fits (concat (map enc (m1 # ms)))"
  shows "receive tk [concat (map enc (m1 # ms))] [] = ([m1], concat (map enc ms))"
  using tk_enc [OF assms(1), of "concat (map enc ms)"] assms(2) by simp

end

section \<open>The codec is such a format\<close>

definition take_frame :: "byte list \<Rightarrow> (byte list \<times> byte list) option" where
  "take_frame buf = (case parse_buffer buf of Inr (Some m) \<Rightarrow> Some (m, drop (length m + 8) buf) | _ \<Rightarrow> None)"

definition sendable :: "byte list \<Rightarrow> bool" where
  "sendable m \<longleftrightarrow> length m < 2 ^ 62"

lemma length_frame: "length (rpc_frame m) = length m + 8"
  by (simp add: rpc_frame_def)

lemma unat_small: "n < 2 ^ 64 \<Longrightarrow> unat (of_nat n :: 64 word) = n"
  by (simp add: unat_of_nat take_bit_nat_eq_self)

lemma frame_size:
  assumes "sendable m"
  shows "take 8 (rpc_frame m @ rest) = store_le 8 (Host64ToNetwork64 (of_nat (length m) :: 64 word))"
    and "unat (of_nat (length m) :: 64 word) = length m"
    and "unat ((of_nat (length m) :: 64 word) + 8) = length m + 8"
proof -
  show "take 8 (rpc_frame m @ rest) = store_le 8 (Host64ToNetwork64 (of_nat (length m) :: 64 word))"
    by (simp add: rpc_frame_def)
  have "length m + 8 < 2 ^ 64" using assms by (simp add: sendable_def)
  then show "unat (of_nat (length m) :: 64 word) = length m"
    and "unat ((of_nat (length m) :: 64 word) + 8) = length m + 8"
    using unat_small [of "length m"] unat_small [of "length m + 8"] by simp_all
qed

lemma parse_frame:
  assumes "sendable m" "length m + 8 + length rest < 2 ^ 64"
  shows "parse_buffer (rpc_frame m @ rest) = Inr (Some m)"
proof -
  have sz: "Network64ToHost64 (load_le (take 8 (rpc_frame m @ rest))) = (of_nat (length m) :: 64 word)"
    by (simp only: frame_size(1) [OF assms(1)] load_stored_64)
  have "unat (of_nat (length (rpc_frame m @ rest)) :: 64 word) = length m + 8 + length rest"
    using assms(2) unfolding length_append length_frame by (rule unat_small)
  then have ge: "\<not> of_nat (length (rpc_frame m @ rest)) < (of_nat (length m) :: 64 word) + 8"
    using frame_size(3) [OF assms(1)] by (simp add: word_less_nat_alt)
  show ?thesis
    using ge unfolding parse_buffer_def sz Let_def
    by (simp add: length_frame frame_size(2) [OF assms(1)] del: of_nat_add) (simp add: rpc_frame_def)
qed

lemma parse_part:
  assumes "sendable m" "strict_prefix part (rpc_frame m)"
  shows "parse_buffer part = Inr None"
proof (cases "length part < 8")
  case True
  then show ?thesis by (simp add: parse_buffer_def)
next
  case False
  obtain tl where tl: "rpc_frame m = part @ tl" "tl \<noteq> []"
    using assms(2) by (auto simp: strict_prefix_def prefix_def)
  have "take 8 part = take 8 (rpc_frame m @ [])" using False by (simp add: tl)
  then have sz: "Network64ToHost64 (load_le (take 8 part)) = (of_nat (length m) :: 64 word)"
    by (simp only: frame_size(1) [OF assms(1)] load_stored_64)
  have lt: "length part < length m + 8" using tl length_frame [of m] by (metis length_append length_greater_0_conv less_add_same_cancel1)
  moreover have "length m + 8 < 2 ^ 64" using assms(1) by (simp add: sendable_def)
  ultimately have "unat (of_nat (length part) :: 64 word) = length part" by (intro unat_small) linarith
  then have "of_nat (length part) < (of_nat (length m) :: 64 word) + 8"
    using lt frame_size(3) [OF assms(1)] by (simp add: word_less_nat_alt)
  then show ?thesis using False unfolding parse_buffer_def sz Let_def by simp
qed

interpretation rpc: framing rpc_frame take_frame sendable "\<lambda>buf. length buf < 2 ^ 64"
proof
  show "take_frame (rpc_frame m @ rest) = Some (m, rest)"
    if "sendable m" "length (rpc_frame m @ rest) < 2 ^ 64" for m rest
    using parse_frame [OF that(1), of rest] that(2) by (simp add: take_frame_def length_frame rpc_frame_def)
  show "take_frame part = None" if "sendable m" "strict_prefix part (rpc_frame m)" for m part
    using parse_part [OF that] by (simp add: take_frame_def)
  show "take_frame [] = None" by (simp add: take_frame_def parse_buffer_def)
qed simp_all

lemma parse_buffer_prefix:
  assumes "\<forall>m \<in> set ms. sendable m" "prefix buf (concat (map rpc_frame ms))" "length buf < 2 ^ 64"
  shows "parse_buffer buf = Inr (map_option fst (take_frame buf))"
proof (cases ms)
  case Nil
  then show ?thesis using assms by (simp add: take_frame_def parse_buffer_def)
next
  case (Cons m ms')
  have "(prefix buf (rpc_frame m) \<and> buf \<noteq> rpc_frame m) \<or> (\<exists>rest. buf = rpc_frame m @ rest)"
    using assms(2) Cons by (auto simp: prefix_append)
  then show ?thesis
  proof
    assume "prefix buf (rpc_frame m) \<and> buf \<noteq> rpc_frame m"
    then have "parse_buffer buf = Inr None" using assms(1) Cons by (intro parse_part) (auto simp: strict_prefix_def)
    then show ?thesis by (simp add: take_frame_def)
  next
    assume "\<exists>rest. buf = rpc_frame m @ rest"
    then obtain rest where "buf = rpc_frame m @ rest" by blast
    then have "parse_buffer buf = Inr (Some m)"
      using parse_frame [of m rest] assms(1,3) Cons by (simp add: length_frame)
    then show ?thesis by (simp add: take_frame_def)
  qed
qed

lemma parse_buffer_Some: "parse_buffer buf = Inr (Some m) \<Longrightarrow> length m \<le> length buf"
  by (auto simp: parse_buffer_def Let_def split: if_splits)

lemma read_message_receive:
  assumes "parse_buffer (readBuf c @ chunk) = Inr (map_option fst (take_frame (readBuf c @ chunk)))"
  shows "read_message chunk c = (case take_frame (readBuf c @ chunk) of
       None \<Rightarrow> Inr (None, c\<lparr>readBuf := readBuf c @ chunk\<rparr>)
     | Some (m, rest) \<Rightarrow> Inr (Some m, c\<lparr>readBuf := rest\<rparr>))"
proof (cases "take_frame (readBuf c @ chunk)")
  case None
  then show ?thesis using assms by (simp add: read_message_def ParseMessage_def)
next
  case (Some mr)
  obtain m rest where mr: "mr = (m, rest)" by (cases mr)
  have pb: "parse_buffer (readBuf c @ chunk) = Inr (Some m)" using assms Some mr by simp
  then have "rest = drop (length m + 8) (readBuf c @ chunk)" using Some mr by (simp add: take_frame_def)
  moreover have "\<not> length (readBuf c @ chunk) < length m" using parse_buffer_Some [OF pb] by simp
  ultimately show ?thesis using pb Some mr by (simp add: read_message_def ParseMessage_def TakeMessage_def)
qed

lemma read_messages_receive:
  assumes "\<forall>m \<in> set ms. sendable m" "prefix (readBuf c @ concat chunks) (concat (map rpc_frame ms))"
    "length (readBuf c @ concat chunks) < 2 ^ 64"
  shows "read_messages chunks c = (case receive take_frame chunks (readBuf c) of (got, b) \<Rightarrow> Inr (got, c\<lparr>readBuf := b\<rparr>))"
  using assms
proof (induction chunks arbitrary: c ms)
  case Nil
  then show ?case by simp
next
  case (Cons chunk chunks)
  let ?buf = "readBuf c @ chunk"
  have all: "prefix (?buf @ concat chunks) (concat (map rpc_frame ms))" "length (?buf @ concat chunks) < 2 ^ 64"
    using Cons.prems(2,3) by simp_all
  have part: "prefix ?buf (concat (map rpc_frame ms))" "length ?buf < 2 ^ 64"
    using append_prefixD [OF all(1)] all(2) by simp_all
  note rd = read_message_receive [OF parse_buffer_prefix [OF Cons.prems(1) part]]
  show ?case
  proof (cases "take_frame ?buf")
    case None
    then show ?thesis
      using rd Cons.IH [of ms "c\<lparr>readBuf := ?buf\<rparr>"] Cons.prems(1) all by (simp split: prod.split)
  next
    case (Some mr)
    obtain m rest where mr: "mr = (m, rest)" by (cases mr)
    obtain ms' where ms: "ms = m # ms'" "?buf = rpc_frame m @ rest"
      using rpc.tk_prefix [OF Cons.prems(1) part] Some mr by auto
    have eq: "?buf @ concat chunks = rpc_frame m @ (rest @ concat chunks)" using ms(2) by simp
    have "prefix (rest @ concat chunks) (concat (map rpc_frame ms'))" "length (rest @ concat chunks) < 2 ^ 64"
      using all ms(1) unfolding eq by auto
    then show ?thesis
      using rd Cons.IH [of ms' "c\<lparr>readBuf := rest\<rparr>"] Cons.prems(1) ms(1) Some mr by (simp split: prod.split)
  qed
qed

text \<open>A length near the maximum wraps the check: the view leaves the buffer.\<close>

lemma message_size_wraps: "parse_buffer (replicate 8 0xff) = Inl Undefined"
proof -
  have "load_le (rev (replicate 8 0xff)) = (-1 :: 64 word)" by (simp only: rev_replicate) (rule load_ones, simp)
  moreover have "store_le 8 (-1 :: 64 word) = replicate 8 0xff"
    using store_load_le [of "replicate 8 (0xff :: byte)", where 'a = 64] load_ones [of 8, where 'a = 64] by simp
  ultimately have "Network64ToHost64 (-1 :: 64 word) = -1" by (simp add: Network64ToHost64_def)
  then show ?thesis
    using load_ones [of 8, where 'a = 64] by (simp add: parse_buffer_def Let_def unat_gt_0)
qed

section \<open>Properties\<close>

text \<open>C29: Messages are delivered in order, at most one per read: however the bytes of a sequence of
  messages are cut into reads, the codec never fails, what it delivers is an initial part of the
  messages no longer than the number of reads, and the bytes behind it stay in the buffer; when each
  read is one frame every message is delivered, and when one read holds several only the first is.\<close>

theorem rpc_messages_in_order:
  assumes "\<forall>m \<in> set ms. sendable m" "concat chunks = concat (map rpc_frame ms)" "length (concat chunks) < 2 ^ 64"
  shows "\<exists>k b. read_messages chunks codec_init = Inr (take k ms, codec_init\<lparr>readBuf := b\<rparr>)
     \<and> k \<le> length chunks \<and> concat (map rpc_frame (take k ms)) @ b = concat chunks
     \<and> (chunks = map rpc_frame ms \<longrightarrow> take k ms = ms)
     \<and> (length chunks = 1 \<and> ms \<noteq> [] \<longrightarrow> take k ms = [hd ms])"
proof -
  obtain k b where r: "receive take_frame chunks [] = (take k ms, b)" "k \<le> length chunks"
    "concat (map rpc_frame (take k ms)) @ b = concat chunks"
    using rpc.receive_prefix [of ms "[]" chunks] assms by auto
  have rm: "read_messages chunks codec_init = Inr (take k ms, codec_init\<lparr>readBuf := b\<rparr>)"
    using read_messages_receive [of ms codec_init chunks] assms r(1) by (simp add: codec_init_def)
  have each: "take k ms = ms" if c: "chunks = map rpc_frame ms"
  proof -
    have "length (rpc_frame m) < 2 ^ 64" if "m \<in> set ms" for m
      using assms(1) that by (auto simp: sendable_def length_frame)
    then have "receive take_frame (map rpc_frame ms) [] = (ms, [])"
      using rpc.receive_each [of ms] assms(1) by blast
    then show ?thesis using r(1) c by simp
  qed
  have once: "take k ms = [hd ms]" if c: "length chunks = 1" "ms \<noteq> []"
  proof -
    obtain m1 ms' where ms: "ms = m1 # ms'" using c(2) by (cases ms) auto
    obtain d where d: "chunks = [d]" using c(1) by (auto simp: length_Suc_conv)
    then show ?thesis using rpc.receive_once [of m1 ms'] assms r(1) ms by simp
  qed
  show ?thesis using rm r(2,3) each once by blast
qed

theorem rpc_messages_in_order_witness:
  "\<exists>b. read_messages [rpc_frame [7] @ rpc_frame [8]] codec_init = Inr ([[7]], codec_init\<lparr>readBuf := b\<rparr>)"
  using rpc_messages_in_order [of "[[7], [8]]" "[rpc_frame [7] @ rpc_frame [8]]"]
  by (auto simp: sendable_def length_frame simp del: read_messages.simps)

end
