(* ===== verification/RpcChannel.thy ===== *)
theory RpcChannel
  imports RpcCodec
begin

text \<open>
  \<open>RpcChannel.cpp\<close>, \<open>RpcServer.cpp\<close> and the awaitable of \<open>RpcClient.h\<close>: calls, their replies and
  the errors. protobuf is a parameter: \<open>ser\<close> serialises a message and \<open>parse\<close> reads one, with
  whether it succeeded and what it left in the message. A registered method is what its call does
  with a payload. The sends of a channel share the codec's write buffer; a send that is suspended
  keeps a position in that buffer, which the next send overwrites.
\<close>

datatype ErrorCode = NO_ERROR | NO_SERVICE | NO_METHOD | BAD_REQUEST | TIMEOUT | INTERNAL_SERVER_ERROR

record RpcMessage =
  rm_id :: "64 word"
  rm_service :: string
  rm_method :: string
  rm_payload :: "byte list"
  rm_error :: ErrorCode

definition default_message :: RpcMessage where
  "default_message = \<lparr>rm_id = 0, rm_service = [], rm_method = [], rm_payload = [], rm_error = NO_ERROR\<rparr>"

definition ErrorCodeToString :: "ErrorCode \<Rightarrow> string" where
  "ErrorCodeToString error = (case error of
      NO_ERROR \<Rightarrow> ''NO_ERROR'' | BAD_REQUEST \<Rightarrow> ''BAD_REQUEST'' | NO_SERVICE \<Rightarrow> ''NO_SERVICE''
    | NO_METHOD \<Rightarrow> ''NO_METHOD'' | INTERNAL_SERVER_ERROR \<Rightarrow> ''INTERNAL_SERVER_ERROR'' | _ \<Rightarrow> ''UNKNOWN'')"

section \<open>The server\<close>

text \<open>What calling a method does: the request cannot be parsed; it answers, with a response that
  serialises or not; or it does not run its closure.\<close>

datatype call_result = BadPayload | Answers "byte list option" | NoAnswer

type_synonym service = "string \<rightharpoonup> (byte list \<Rightarrow> call_result)"

definition AddService :: "string \<Rightarrow> service \<Rightarrow> (string \<rightharpoonup> service) \<Rightarrow> (string \<rightharpoonup> service)" where
  "AddService full_name s services = services(full_name \<mapsto> s)"

definition response_message :: "byte list option \<Rightarrow> 64 word \<Rightarrow> RpcMessage" where
  "response_message data i = (case data of
      Some d \<Rightarrow> default_message\<lparr>rm_id := i, rm_payload := d\<rparr>
    | None \<Rightarrow> default_message\<lparr>rm_id := i, rm_error := INTERNAL_SERVER_ERROR\<rparr>)"

definition error_message :: "ErrorCode \<Rightarrow> 64 word \<Rightarrow> RpcMessage" where
  "error_message err i = default_message\<lparr>rm_error := err, rm_id := i\<rparr>"

text \<open>The messages it sends; the socket is connected.\<close>

definition DoServerRpc :: "(byte list \<Rightarrow> bool \<times> RpcMessage) \<Rightarrow> (string \<rightharpoonup> service) \<Rightarrow> byte list \<Rightarrow> RpcMessage list" where
  "DoServerRpc parse services messageStr =
     (case parse messageStr of (ok, m) \<Rightarrow>
        if \<not> ok then [error_message BAD_REQUEST (rm_id m)]
        else case services (rm_service m) of
            None \<Rightarrow> [error_message NO_SERVICE (rm_id m)]
          | Some s \<Rightarrow> (case s (rm_method m) of
              None \<Rightarrow> [error_message NO_METHOD (rm_id m)]
            | Some f \<Rightarrow> (case f (rm_payload m) of
                BadPayload \<Rightarrow> [error_message BAD_REQUEST (rm_id m)]
              | Answers data \<Rightarrow> [response_message data (rm_id m)]
              | NoAnswer \<Rightarrow> [])))"

section \<open>The client\<close>

text \<open>A call waits with its response object and closure; completing it parses the payload into the
  response and runs the closure, which is recorded.\<close>

record ('r, 'd) OutstandingCall =
  oc_response :: 'r
  oc_done :: 'd

record ('r, 'd) RpcClient =
  outstandings :: "64 word \<rightharpoonup> ('r, 'd) OutstandingCall"
  completed :: "('d \<times> 'r \<times> byte list) list"

text \<open>\<open>id_\<close> is shared by all channels: it is incremented for the message and read again for the
  table, and \<open>others\<close> is what other threads added in between. \<open>emplace\<close> keeps an existing entry.\<close>

definition CallMethod ::
    "nat \<Rightarrow> string \<Rightarrow> string \<Rightarrow> byte list \<Rightarrow> 'r \<Rightarrow> 'd \<Rightarrow> 64 word \<Rightarrow> ('r, 'd) RpcClient \<Rightarrow> RpcMessage \<times> 64 word \<times> ('r, 'd) RpcClient" where
  "CallMethod others svc meth payload resp done0 counter c =
     (let i = counter + 1;
          m = default_message\<lparr>rm_id := i, rm_service := svc, rm_method := meth, rm_payload := payload\<rparr>;
          key = i + of_nat others;
          table = (if outstandings c key = None
                   then (outstandings c)(key \<mapsto> \<lparr>oc_response = resp, oc_done = done0\<rparr>) else outstandings c)
      in (m, key, c\<lparr>outstandings := table\<rparr>))"

definition DoClientRpc :: "(byte list \<Rightarrow> bool \<times> RpcMessage) \<Rightarrow> byte list \<Rightarrow> ('r, 'd) RpcClient \<Rightarrow> ('r, 'd) RpcClient" where
  "DoClientRpc parse messageStr c =
     (case parse messageStr of (ok, m) \<Rightarrow>
        if \<not> ok then c
        else case outstandings c (rm_id m) of
            None \<Rightarrow> c
          | Some call \<Rightarrow> c\<lparr>outstandings := (outstandings c)(rm_id m := None),
                           completed := completed c @ [(oc_done call, oc_response call, rm_payload m)]\<rparr>)"

text \<open>\<open>StubCallAwaitable::await_resume\<close>.\<close>

datatype stub_result = StubOk | StubTimeout | StubNotConnected

definition Stub_await_resume :: "bool \<Rightarrow> bool \<Rightarrow> stub_result" where
  "Stub_await_resume timeout connected =
     (if timeout \<or> \<not> connected then (if timeout then StubTimeout else StubNotConnected) else StubOk)"

section \<open>Sends over the shared write buffer\<close>

text \<open>A suspended \<open>WriteN\<close>: how much it has written, of how much, and the allocation it points into.
  \<open>clear\<close> and \<open>resize\<close> keep the allocation when the new frame fits its capacity; the bytes behind
  the frame keep their values.\<close>

record pending_write =
  pw_done :: nat
  pw_len :: nat
  pw_block :: nat

record sender =
  sd_block :: nat
  sd_memory :: "byte list"
  sd_pending :: "pending_write list"
  sd_wire :: "byte list"

definition sender_init :: sender where
  "sender_init = \<lparr>sd_block = 0, sd_memory = [], sd_pending = [], sd_wire = []\<rparr>"

definition Send_begin :: "byte list \<Rightarrow> sender \<Rightarrow> sender" where
  "Send_begin frame s =
     (if length frame \<le> length (sd_memory s)
      then s\<lparr>sd_memory := frame @ drop (length frame) (sd_memory s),
             sd_pending := sd_pending s @ [\<lparr>pw_done = 0, pw_len = length frame, pw_block = sd_block s\<rparr>]\<rparr>
      else s\<lparr>sd_memory := frame, sd_block := sd_block s + 1,
             sd_pending := sd_pending s @ [\<lparr>pw_done = 0, pw_len = length frame, pw_block = sd_block s + 1\<rparr>]\<rparr>)"

text \<open>The \<open>i\<close>-th suspended write goes on and writes at most \<open>k\<close> bytes.\<close>

definition Send_progress :: "nat \<Rightarrow> nat \<Rightarrow> sender \<Rightarrow> sender result" where
  "Send_progress i k s =
     (if i < length (sd_pending s) then
        (let p = sd_pending s ! i; n = min k (pw_len p - pw_done p)
         in if pw_block p \<noteq> sd_block s then Inl Undefined
            else Inr (s\<lparr>sd_wire := sd_wire s @ take n (drop (pw_done p) (sd_memory s)),
                        sd_pending := (if pw_done p + n = pw_len p then take i (sd_pending s) @ drop (i + 1) (sd_pending s)
                                       else (sd_pending s)[i := p\<lparr>pw_done := pw_done p + n\<rparr>])\<rparr>))
      else Inr s)"

lemma Send_alone:
  assumes "sd_pending s = []"
  shows "\<exists>s'. Send_progress 0 (length frame) (Send_begin frame s) = Inr s'
     \<and> sd_wire s' = sd_wire s @ frame \<and> sd_pending s' = []"
  using assms by (auto simp: Send_begin_def Send_progress_def Let_def)

text \<open>Sends that do not overlap arrive as the frames one after the other.\<close>

fun send_each :: "byte list list \<Rightarrow> sender \<Rightarrow> sender result" where
  "send_each [] s = Inr s"
| "send_each (frame # frames) s = bind_result (Send_progress 0 (length frame) (Send_begin frame s)) (send_each frames)"

lemma send_each_wire:
  "sd_pending s = [] \<Longrightarrow> \<exists>s'. send_each frames s = Inr s' \<and> sd_wire s' = sd_wire s @ concat frames \<and> sd_pending s' = []"
proof (induction frames arbitrary: s)
  case Nil
  then show ?case by simp
next
  case (Cons frame frames)
  obtain s1 where s1: "Send_progress 0 (length frame) (Send_begin frame s) = Inr s1"
    "sd_wire s1 = sd_wire s @ frame" "sd_pending s1 = []"
    using Send_alone [OF Cons.prems, of frame] by blast
  then show ?case using Cons.IH [of s1] by auto
qed

lemma reply_error_is_silent:
  assumes "parse str = (True, m)" "rm_error m \<noteq> NO_ERROR" "outstandings c (rm_id m) = Some call"
  shows "completed (DoClientRpc parse str c) = completed c @ [(oc_done call, oc_response call, rm_payload m)]"
  using assms by (simp add: DoClientRpc_def)

section \<open>Properties\<close>

text \<open>C11: A call comes back to its caller: a request made by \<open>CallMethod\<close> and framed by the codec is
  read by the server, which answers exactly one message with the request's id and the method's
  data; framed and read back, it completes exactly that call, with that data, and leaves the other
  outstanding calls alone.\<close>

theorem rpc_call_roundtrip:
  assumes "CallMethod 0 svc meth payload resp done0 counter c = (req, counter', c1)"
    and "services svc = Some s" "s meth = Some f" "f payload = Answers (Some data)"
    and "outstandings c (counter + 1) = None"
    and "parse (ser req) = (True, req)" "parse (ser (response_message (Some data) (counter + 1))) = (True, response_message (Some data) (counter + 1))"
    and "sendable (ser req)" "sendable (ser (response_message (Some data) (counter + 1)))"
  shows "\<exists>rep. DoServerRpc parse services (ser req) = [rep]
     \<and> read_messages [writeBuf (WriteMessageToBuffer ser req codec_init)] codec_init = Inr ([ser req], codec_init)
     \<and> read_messages [writeBuf (WriteMessageToBuffer ser rep codec_init)] codec_init = Inr ([ser rep], codec_init)
     \<and> DoClientRpc parse (ser rep) c1 = c\<lparr>completed := completed c @ [(done0, resp, data)]\<rparr>"
proof -
  let ?rep = "response_message (Some data) (counter + 1)"
  have req: "req = default_message\<lparr>rm_id := counter + 1, rm_service := svc, rm_method := meth, rm_payload := payload\<rparr>"
    and c1: "c1 = c\<lparr>outstandings := (outstandings c)(counter + 1 \<mapsto> \<lparr>oc_response = resp, oc_done = done0\<rparr>)\<rparr>"
    using assms(1,5) by (auto simp: CallMethod_def Let_def)
  have srv: "DoServerRpc parse services (ser req) = [?rep]"
    unfolding DoServerRpc_def assms(6) by (simp add: req assms(2-4))
  have rd: "read_messages [writeBuf (WriteMessageToBuffer ser m codec_init)] codec_init = Inr ([ser m], codec_init)"
    if "sendable (ser m)" for m
  proof -
    have "length (rpc_frame (ser m)) < 2 ^ 64" using that by (simp add: sendable_def length_frame)
    then have "receive take_frame [rpc_frame (ser m)] [] = ([ser m], [])"
      using rpc.receive_each [of "[ser m]"] that by simp
    then show ?thesis
      using read_messages_receive [of "[ser m]" codec_init "[rpc_frame (ser m)]"] that \<open>length (rpc_frame (ser m)) < 2 ^ 64\<close>
      by (simp add: WriteMessageToBuffer_def codec_init_def)
  qed
  have "(outstandings c)(counter + 1 := None) = outstandings c" using assms(5) by (simp add: fun_upd_idem)
  then have "DoClientRpc parse (ser ?rep) c1 = c\<lparr>completed := completed c @ [(done0, resp, data)]\<rparr>"
    unfolding DoClientRpc_def assms(7) by (cases c) (simp add: response_message_def default_message_def c1)
  then show ?thesis using srv rd [OF assms(8)] rd [OF assms(9)] by blast
qed

theorem rpc_call_roundtrip_witness:
  "\<exists>rep. DoServerRpc (\<lambda>bs. (True, if bs = [1] then default_message\<lparr>rm_id := 6, rm_service := ''S'', rm_method := ''m'', rm_payload := [3]\<rparr>
        else response_message (Some [4]) 6))
      [''S'' \<mapsto> [''m'' \<mapsto> (\<lambda>p. Answers (Some [4]))]] [1] = [rep] \<and> rm_payload rep = [4]"
  using rpc_call_roundtrip [of "''S''" "''m''" "[3]" "0 :: nat" "9 :: nat" 5 "\<lparr>outstandings = Map.empty, completed = []\<rparr>"
      "default_message\<lparr>rm_id := 6, rm_service := ''S'', rm_method := ''m'', rm_payload := [3]\<rparr>" 6
      "\<lparr>outstandings = Map.empty(6 \<mapsto> \<lparr>oc_response = 0, oc_done = 9\<rparr>), completed = []\<rparr>"
      "[''S'' \<mapsto> [''m'' \<mapsto> (\<lambda>p. Answers (Some [4]))]]" "[''m'' \<mapsto> (\<lambda>p. Answers (Some [4]))]" "\<lambda>p. Answers (Some [4])" "[4]"
      "\<lambda>bs. (True, if bs = [1] then default_message\<lparr>rm_id := 6, rm_service := ''S'', rm_method := ''m'', rm_payload := [3]\<rparr>
        else response_message (Some [4]) 6)" "\<lambda>m. if rm_service m = ''S'' then [1] else [2]"]
  by (simp add: CallMethod_def DoServerRpc_def sendable_def response_message_def default_message_def)

text \<open>Sends that overlap corrupt the stream: when a send is suspended after \<open>k\<close> bytes of its frame
  and another, not longer, begins, the first goes on with the bytes of the second frame; a longer
  second frame moves the buffer and the first goes on in freed memory.\<close>

theorem overlapping_sends_corrupt:
  assumes "k < length f1" "0 < length f2"
  shows "if length f2 \<le> length f1
    then \<exists>s1 s2. Send_progress 0 k (Send_begin f1 sender_init) = Inr s1
       \<and> Send_progress 0 (length f1) (Send_begin f2 s1) = Inr s2
       \<and> sd_wire s2 = take k f1 @ drop k (f2 @ drop (length f2) f1)
    else \<exists>s1. Send_progress 0 k (Send_begin f1 sender_init) = Inr s1
       \<and> Send_progress 0 (length f1) (Send_begin f2 s1) = Inl Undefined"
  using assms by (auto simp: Send_begin_def Send_progress_def sender_init_def Let_def min_def)

theorem overlapping_sends_corrupt_witness:
  "\<exists>s1 s2. Send_progress 0 1 (Send_begin [1, 2, 3] sender_init) = Inr s1
       \<and> Send_progress 0 3 (Send_begin [7, 8] s1) = Inr s2 \<and> sd_wire s2 = [1, 8, 3]"
  using overlapping_sends_corrupt [of 1 "[1, 2, 3]" "[7, 8]"] by (simp add: numeral_3_eq_3)

text \<open>The id is read twice: when another thread's call comes in between, the reply does not find the
  call.\<close>

lemma id_race:
  assumes "CallMethod 1 svc meth payload resp done0 counter c = (req, counter', c1)"
    and "outstandings c (counter + 1) = None"
    and "parse str = (True, response_message data (rm_id req))"
  shows "completed (DoClientRpc parse str c1) = completed c"
proof -
  have "rm_id (response_message data (counter + 1)) = counter + 1" for data
    by (simp add: response_message_def default_message_def split: option.split)
  moreover have "counter + 1 \<noteq> counter + 1 + (1 :: 64 word)" by simp
  ultimately show ?thesis
    using assms by (auto simp: DoClientRpc_def CallMethod_def Let_def default_message_def)
qed

end
