(* ===== verification/RpcStub.thy ===== *)
theory RpcStub
  imports RpcChannel IoAwaitable
begin

text \<open>
  \<open>cold/net/rpc/RpcClient.h\<close>: awaiting a call with a timeout, \<open>IoTimeoutAwaitable\<close> (\<open>Io.h\<close>) around a
  \<open>StubCallAwaitable\<close>, and the channel that keeps the closure of the call.

  \<^item> The awaitable lives in the expression that awaits it: it ends when the caller is resumed. The closure in
    \<open>outstandings_\<close> keeps a pointer to it and the handle of the inner task.
  \<^item> \<open>done->Run()\<close> does not resume the task but spawns one that does.
  \<^item> The events are the start of the inner task, the reply as \<open>DoClientRpc\<close> handles it, the spawned task, and the timer.
\<close>

section \<open>A call\<close>

record rpc_call =
  rc_inner :: inner_state
  rc_armed :: bool
  rc_timeout :: bool
  rc_outstanding :: bool
  rc_resuming :: bool
  rc_alive :: bool
  rc_results :: "stub_result list"

text \<open>After \<open>IoTimeoutAwaitable::await_suspend\<close>.\<close>

definition rpc_call_start :: rpc_call where
  "rpc_call_start = \<lparr>rc_inner = InnerPending, rc_armed = True, rc_timeout = False, rc_outstanding = False,
     rc_resuming = False, rc_alive = True, rc_results = []\<rparr>"

text \<open>The inner task has its result and resumes the caller, which cancels the timer unless it fired.\<close>

definition call_finished :: "bool \<Rightarrow> rpc_call \<Rightarrow> rpc_call" where
  "call_finished connected c = c\<lparr>rc_results := rc_results c @ [Stub_await_resume (rc_timeout c) connected],
     rc_inner := InnerDone, rc_armed := (if rc_timeout c then rc_armed c else False), rc_alive := False\<rparr>"

text \<open>Resuming the inner task: before its start or after its end that is undefined.\<close>

definition resume_inner :: "bool \<Rightarrow> rpc_call \<Rightarrow> rpc_call result" where
  "resume_inner connected c = (if rc_inner c = InnerSuspended then Inr (call_finished connected c) else Inl Undefined)"

datatype rpc_event = CallStarts bool | Reply | ResumeRuns bool | CallTimer bool

definition Stub_start :: "bool \<Rightarrow> rpc_call \<Rightarrow> rpc_call result" where
  "Stub_start connected c =
     (if rc_inner c \<noteq> InnerPending then Inl Undefined
      else if \<not> connected then Inr (call_finished connected c)
      else Inr (c\<lparr>rc_inner := InnerSuspended, rc_outstanding := True\<rparr>))"

text \<open>\<open>ResumeCoroutine\<close> reads the socket of the awaitable.\<close>

definition ResumeCoroutine :: "rpc_call \<Rightarrow> rpc_call result" where
  "ResumeCoroutine c = (if \<not> rc_alive c then Inl Undefined else Inr (c\<lparr>rc_resuming := True\<rparr>))"

definition rpc_call_step :: "rpc_event \<Rightarrow> rpc_call \<Rightarrow> rpc_call result" where
  "rpc_call_step e c = (case e of
      CallStarts connected \<Rightarrow> Stub_start connected c
    | Reply \<Rightarrow> (if rc_outstanding c then ResumeCoroutine (c\<lparr>rc_outstanding := False\<rparr>) else Inr c)
    | ResumeRuns connected \<Rightarrow> (if rc_resuming c then resume_inner connected (c\<lparr>rc_resuming := False\<rparr>) else Inr c)
    | CallTimer connected \<Rightarrow>
        (if rc_armed c then resume_inner connected (c\<lparr>rc_armed := False, rc_timeout := True\<rparr>) else Inr c))"

fun rpc_call_steps :: "rpc_event list \<Rightarrow> rpc_call \<Rightarrow> rpc_call result" where
  "rpc_call_steps [] c = Inr c"
| "rpc_call_steps (e # es) c = bind_result (rpc_call_step e c) (rpc_call_steps es)"

section \<open>Lemmas\<close>

definition no_restart :: "rpc_event \<Rightarrow> bool" where
  "no_restart e = (case e of CallStarts b \<Rightarrow> False | _ \<Rightarrow> True)"

definition is_reply :: "rpc_event \<Rightarrow> bool" where
  "is_reply e = (case e of Reply \<Rightarrow> True | _ \<Rightarrow> False)"

definition is_resume :: "rpc_event \<Rightarrow> bool" where
  "is_resume e = (case e of ResumeRuns b \<Rightarrow> True | _ \<Rightarrow> False)"

lemmas rpc_step_defs = rpc_call_step_def Stub_start_def ResumeCoroutine_def resume_inner_def call_finished_def
  no_restart_def is_reply_def is_resume_def

text \<open>A call that is over, with nothing left that points to it, stays as it is.\<close>

lemma finished_stays:
  "\<not> rc_armed c \<Longrightarrow> \<not> rc_outstanding c \<Longrightarrow> \<not> rc_resuming c \<Longrightarrow> \<forall>e \<in> set es. no_restart e \<Longrightarrow> rpc_call_steps es c = Inr c"
proof (induction es)
  case (Cons e es)
  then show ?case by (cases e) (simp_all add: rpc_step_defs)
qed simp

text \<open>One whose closure is still in the table stays so until the reply comes.\<close>

lemma closure_left:
  assumes "\<not> rc_armed c" "rc_outstanding c" "\<not> rc_resuming c" "\<not> rc_alive c" "\<forall>e \<in> set es. no_restart e"
  shows "rpc_call_steps es c = (if \<exists>e \<in> set es. is_reply e then Inl Undefined else Inr c)"
  using assms
proof (induction es)
  case (Cons e es)
  then show ?case by (cases e) (simp_all add: rpc_step_defs)
qed simp

text \<open>One whose resumption is still spawned is resumed a second time.\<close>

lemma resumption_left:
  assumes "\<not> rc_armed c" "\<not> rc_outstanding c" "rc_resuming c" "rc_inner c = InnerDone" "\<forall>e \<in> set es. no_restart e"
  shows "rpc_call_steps es c = (if \<exists>e \<in> set es. is_resume e then Inl Undefined else Inr c)"
  using assms
proof (induction es)
  case (Cons e es)
  then show ?case by (cases e) (simp_all add: rpc_step_defs)
qed simp

section \<open>Properties\<close>

text \<open>C12: A call with a timeout must be answered in time. When the reply comes and the task spawned for it runs before
  the timer, the caller gets exactly one result, and nothing that follows, whatever and how often, does any harm. When
  the timer comes first the caller gets the timeout, but a reply that comes after it, at any time, runs a closure
  whose awaitable is gone. When the timer comes between the reply and its task, that task resumes a coroutine that
  has ended.\<close>

theorem rpc_call_with_timeout:
  assumes "\<forall>e \<in> set es. no_restart e"
  shows "(\<exists>c. rpc_call_steps (CallStarts True # Reply # ResumeRuns on # es) rpc_call_start = Inr c
         \<and> rc_results c = [if on then StubOk else StubNotConnected])
     \<and> (if \<exists>e \<in> set es. is_reply e
        then rpc_call_steps (CallStarts True # CallTimer on # es) rpc_call_start = Inl Undefined
        else \<exists>c. rpc_call_steps (CallStarts True # CallTimer on # es) rpc_call_start = Inr c \<and> rc_results c = [StubTimeout])
     \<and> (if \<exists>e \<in> set es. is_resume e
        then rpc_call_steps (CallStarts True # Reply # CallTimer on # es) rpc_call_start = Inl Undefined
        else \<exists>c. rpc_call_steps (CallStarts True # Reply # CallTimer on # es) rpc_call_start = Inr c \<and> rc_results c = [StubTimeout])"
  using assms
  by (simp add: rpc_step_defs rpc_call_start_def Stub_await_resume_def finished_stays closure_left resumption_left)

theorem rpc_call_with_timeout_witness:
  "rpc_call_steps [CallStarts True, CallTimer True, ResumeRuns True, Reply] rpc_call_start = Inl Undefined"
  using rpc_call_with_timeout [of "[ResumeRuns True, Reply]" True] by (simp add: no_restart_def is_reply_def)

end
