(* ===== verification/EventLoop.thy ===== *)
theory EventLoop
  imports IoService
begin

text \<open>
  The event loop with its timers and its watcher over many rounds (\<open>IoService.cpp\<close>, \<open>Timer.h\<close>, \<open>TimerQueue.cpp\<close>,
  \<open>IoWatcher.cpp\<close> together): a round always completes, whatever the user's coroutines do within their interfaces, and
  a coroutine that sleeps is resumed by the first round at or after its deadline.

  \<^item> What user code does when resumed is the parameter \<open>resume\<close>; that it keeps to its interfaces is \<open>user_ok\<close>:
    it leaves the service in order, and does not touch the timer of another coroutine while that is armed.
  \<^item> The kernel reports each watched descriptor at most once (\<open>reportable\<close>).
\<close>

section \<open>Services in order\<close>

definition tasks_set :: "'t TimerQueue \<Rightarrow> bool" where
  "tasks_set q \<longleftrightarrow> (\<forall>k e t. queue_view q k = Some (e, t, True) \<longrightarrow> t \<noteq> None)"

definition service_ok :: "io_service \<Rightarrow> bool" where
  "service_ok s \<longleftrightarrow> queue_inv (timerQueue s) \<and> tasks_set (timerQueue s) \<and> watcher_inv (ioWatcher s)"

definition user_ok :: "nat \<Rightarrow> (nat \<Rightarrow> io_service \<Rightarrow> io_service) \<Rightarrow> bool" where
  "user_ok i resume \<longleftrightarrow> ghost_free resume \<and> (\<forall>h s. service_ok s \<longrightarrow> service_ok (resume h s) \<and>
     (\<forall>x. queue_view (timerQueue s) i = Some x \<longrightarrow> queue_view (timerQueue (resume h s)) i = Some x))"

definition reportable :: "(int \<times> flags) list \<Rightarrow> io_service \<Rightarrow> bool" where
  "reportable evs s \<longleftrightarrow> distinct (map fst evs) \<and> set (map fst evs) \<subseteq> dom (ioEvents (ioWatcher s))"

definition reported :: "(int \<times> flags) list \<Rightarrow> (int \<times> flags \<times> bool) list" where
  "reported evs = map (\<lambda>(fd, ev). (fd, ev, True)) evs"

text \<open>Rounds at the times given, with events the kernel can report when it is asked.\<close>

inductive rounds :: "(nat \<Rightarrow> io_service \<Rightarrow> io_service) \<Rightarrow> (nat \<Rightarrow> nat) \<Rightarrow> int list \<Rightarrow> io_service \<Rightarrow> io_service \<Rightarrow> bool"
  for resume :: "nat \<Rightarrow> io_service \<Rightarrow> io_service" and wrap :: "nat \<Rightarrow> nat" where
  none: "rounds resume wrap [] s s"
| one: "run_timers resume wrap now (run_pending resume s) = Inr (w, s1) \<Longrightarrow> reportable evs s1 \<Longrightarrow>
    run_once resume wrap now (\<lambda>_. reported evs) s = Inr s2 \<Longrightarrow> rounds resume wrap nows s2 s3 \<Longrightarrow>
    rounds resume wrap (now # nows) s s3"

section \<open>Lemmas\<close>

lemma service_ok_resume:
  assumes "user_ok i resume" "service_ok s"
  shows "service_ok (resume_handle resume h s)"
    and "queue_view (timerQueue s) i = Some x \<Longrightarrow> queue_view (timerQueue (resume_handle resume h s)) i = Some x"
proof -
  have "service_ok (s\<lparr>resumed := resumed s @ [h]\<rparr>)" using assms(2) by (simp add: service_ok_def)
  then have "service_ok (resume h (s\<lparr>resumed := resumed s @ [h]\<rparr>))"
    "\<forall>x. queue_view (timerQueue (s\<lparr>resumed := resumed s @ [h]\<rparr>)) i = Some x \<longrightarrow>
      queue_view (timerQueue (resume h (s\<lparr>resumed := resumed s @ [h]\<rparr>))) i = Some x"
    using assms(1) unfolding user_ok_def by blast+
  then show "service_ok (resume_handle resume h s)"
    "queue_view (timerQueue s) i = Some x \<Longrightarrow> queue_view (timerQueue (resume_handle resume h s)) i = Some x"
    unfolding resume_handle_def by simp_all
qed

lemma service_ok_start:
  assumes "user_ok i resume" "service_ok s"
  shows "service_ok (start_task resume h s)"
    and "queue_view (timerQueue s) i = Some x \<Longrightarrow> queue_view (timerQueue (start_task resume h s)) i = Some x"
proof -
  have "service_ok (s\<lparr>awaitCompletionTasks := insert h (awaitCompletionTasks s)\<rparr>)" using assms(2) by (simp add: service_ok_def)
  then show "service_ok (start_task resume h s)"
    "queue_view (timerQueue s) i = Some x \<Longrightarrow> queue_view (timerQueue (start_task resume h s)) i = Some x"
    using service_ok_resume [OF assms(1), of "s\<lparr>awaitCompletionTasks := insert h (awaitCompletionTasks s)\<rparr>"]
    by (simp_all add: start_task_def)
qed

lemma service_ok_tasks:
  assumes "user_ok i resume" "service_ok s"
  shows "service_ok (fold (start_task resume) hs s)
     \<and> (\<forall>x. queue_view (timerQueue s) i = Some x \<longrightarrow> queue_view (timerQueue (fold (start_task resume) hs s)) i = Some x)"
  using assms(2)
proof (induction hs arbitrary: s)
  case (Cons h hs)
  then show ?case using service_ok_start [OF assms(1) Cons.prems] by simp
qed simp

lemma service_ok_active:
  assumes "user_ok i resume" "service_ok s"
  shows "service_ok (fold (\<lambda>coro s. case coro of None \<Rightarrow> s | Some h \<Rightarrow> resume_handle resume h s) cs s)
     \<and> (\<forall>x. queue_view (timerQueue s) i = Some x \<longrightarrow>
          queue_view (timerQueue (fold (\<lambda>coro s. case coro of None \<Rightarrow> s | Some h \<Rightarrow> resume_handle resume h s) cs s)) i = Some x)"
  using assms(2)
proof (induction cs arbitrary: s)
  case (Cons c cs)
  then show ?case using service_ok_resume [OF assms(1) Cons.prems] by (cases c) simp_all
qed simp

lemma service_ok_pending:
  assumes "user_ok i resume" "service_ok s"
  shows "service_ok (run_pending resume s)"
    and "queue_view (timerQueue s) i = Some x \<Longrightarrow> queue_view (timerQueue (run_pending resume s)) i = Some x"
proof -
  have "service_ok (s\<lparr>pendingTasks := []\<rparr>)" using assms(2) by (simp add: service_ok_def)
  from service_ok_tasks [OF assms(1) this, of "pendingTasks s"]
  show "service_ok (run_pending resume s)"
    "queue_view (timerQueue s) i = Some x \<Longrightarrow> queue_view (timerQueue (run_pending resume s)) i = Some x"
    by (simp_all add: run_pending_def)
qed

text \<open>The timers of a round: they always run, and the sleeper's is released when it is due.\<close>

lemma timers_round:
  assumes user: "user_ok i resume" and ok: "service_ok s" and view: "queue_view (timerQueue s) i = Some (T, Some t, True)"
  shows "\<exists>tasks w q s1. HandleTimeout now (timerQueue s) = Inr (tasks, w, q) \<and> run_timers resume wrap now s = Inr (w, s1)
     \<and> service_ok s1 \<and> (if T \<le> now then Some t \<in> set tasks else queue_view (timerQueue s1) i = Some (T, Some t, True))"
proof -
  have inv: "queue_inv (timerQueue s)" and set: "tasks_set (timerQueue s)" using ok by (simp_all add: service_ok_def)
  obtain ks w q where q: "HandleTimeout now (timerQueue s) = Inr (map (\<lambda>k. fst (snd (the (queue_view (timerQueue s) k)))) ks, w, q)"
      "queue_inv q" "set ks = {k. \<exists>e t. queue_view (timerQueue s) k = Some (e, t, True) \<and> e \<le> now}"
      "queue_view q = (\<lambda>k. case queue_view (timerQueue s) k of None \<Rightarrow> None
                           | Some (e, t, v) \<Rightarrow> if e \<le> now then None else Some (e, t, v))"
    using tq.expire_ok [OF inv, of now] by blast
  let ?tasks = "map (\<lambda>k. fst (snd (the (queue_view (timerQueue s) k)))) ks"
  let ?s1 = "fold (start_task resume) (map (wrap \<circ> the) ?tasks) (s\<lparr>timerQueue := q\<rparr>)"
  have none: "None \<notin> set ?tasks" using set q(3) unfolding tasks_set_def by fastforce
  have "tasks_set q" using set unfolding tasks_set_def q(4) by (fastforce split: option.splits if_splits)
  then have ok0: "service_ok (s\<lparr>timerQueue := q\<rparr>)" using ok q(2) by (simp add: service_ok_def)
  have t: "Some t \<in> set ?tasks" if "T \<le> now" using that view q(3) by (force simp: image_iff)
  have "queue_view q i = Some (T, Some t, True)" if "\<not> T \<le> now" using that view by (simp add: q(4))
  then show ?thesis
    using q(1) none t service_ok_tasks [OF user ok0, of "map (wrap \<circ> the) ?tasks"]
    by (intro exI [of _ ?tasks] exI [of _ w] exI [of _ q] exI [of _ ?s1]) (simp add: run_timers_def)
qed

lemma io_round:
  assumes user: "user_ok i resume" and ok: "service_ok s" and evs: "reportable evs s"
  shows "\<exists>s'. run_io resume (reported evs) s = Inr s' \<and> service_ok s'
     \<and> (\<forall>x. queue_view (timerQueue s) i = Some x \<longrightarrow> queue_view (timerQueue s') i = Some x)"
proof -
  obtain active w where w: "WatchIo (reported evs) (ioWatcher s) = Inr (active, w)"
    using watch_events_exact [of "ioWatcher s" evs "[]"] ok evs
    by (auto simp: service_ok_def reportable_def reported_def WatchIo_def)
  then have "watcher_inv w" using inv_WatchIo [of "ioWatcher s" evs] ok by (auto simp: service_ok_def reported_def)
  then have "service_ok (s\<lparr>ioWatcher := w\<rparr>)" using ok by (simp add: service_ok_def)
  from service_ok_active [OF user this, of active] show ?thesis using w by (auto simp: run_io_def)
qed

lemma service_ok_clear [simp]:
  "service_ok (clear_completed s) = service_ok s" "timerQueue (clear_completed s) = timerQueue s"
  by (simp_all add: clear_completed_def service_ok_def)

text \<open>One round.\<close>

lemma sleeper_round:
  assumes user: "user_ok i resume" and ok: "service_ok s" and view: "queue_view (timerQueue s) i = Some (T, Some t, True)"
  shows "\<exists>w s1. run_timers resume wrap now (run_pending resume s) = Inr (w, s1) \<and>
     (\<forall>evs. reportable evs s1 \<longrightarrow> (\<exists>s2. run_once resume wrap now (\<lambda>_. reported evs) s = Inr s2 \<and> service_ok s2 \<and>
        (if T \<le> now then wrap t \<in> set (drop (length (resumed s)) (resumed s2))
         else queue_view (timerQueue s2) i = Some (T, Some t, True))))"
proof -
  note p = service_ok_pending [OF user ok]
  obtain tasks w q s1 where t: "HandleTimeout now (timerQueue (run_pending resume s)) = Inr (tasks, w, q)"
      "run_timers resume wrap now (run_pending resume s) = Inr (w, s1)" "service_ok s1"
      "if T \<le> now then Some t \<in> set tasks else queue_view (timerQueue s1) i = Some (T, Some t, True)"
    using timers_round [OF user p(1) p(2) [OF view], of now wrap] by blast
  have "\<exists>s2. run_once resume wrap now (\<lambda>_. reported evs) s = Inr s2 \<and> service_ok s2 \<and>
        (if T \<le> now then wrap t \<in> set (drop (length (resumed s)) (resumed s2))
         else queue_view (timerQueue s2) i = Some (T, Some t, True))" if evs: "reportable evs s1" for evs
  proof -
    obtain s' where s': "run_io resume (reported evs) s1 = Inr s'" "service_ok s'"
        "\<And>x. queue_view (timerQueue s1) i = Some x \<Longrightarrow> queue_view (timerQueue s') i = Some x"
      using io_round [OF user t(3) evs] by blast
    have run: "run_once resume wrap now (\<lambda>_. reported evs) s = Inr (clear_completed s')"
      using t(2) s'(1) by (simp add: run_once_def)
    have "wrap t \<in> set (drop (length (resumed s)) (resumed (clear_completed s')))" if "T \<le> now"
      using run_once_resumed [OF _ run] user t(1,4) that
      by (auto simp: user_ok_def image_iff intro!: bexI [of _ "Some t"])
    then show ?thesis using run s'(2,3) t(4) by (intro exI [of _ "clear_completed s'"]) auto
  qed
  then show ?thesis using t(2) by blast
qed

lemma sleeper_rounds:
  assumes "rounds resume wrap nows s s'" "user_ok i resume" "service_ok s"
    and "queue_view (timerQueue s) i = Some (T, Some t, True)" "\<forall>now \<in> set nows. now < T"
  shows "service_ok s' \<and> queue_view (timerQueue s') i = Some (T, Some t, True)"
  using assms
proof (induction rule: rounds.induct)
  case (one now s w s1 evs s2 nows s3)
  then show ?case using sleeper_round [OF one.prems(1-3), of wrap now] by (auto split: if_splits)
qed simp

section \<open>Properties\<close>

text \<open>The round at \<open>now\<close> completes with any events the kernel can report, leaves the service in order, and resumes
  \<open>h\<close> if it is due.\<close>

definition round_completes ::
    "(nat \<Rightarrow> io_service \<Rightarrow> io_service) \<Rightarrow> (nat \<Rightarrow> nat) \<Rightarrow> int \<Rightarrow> io_service \<Rightarrow> nat \<Rightarrow> bool \<Rightarrow> bool" where
  "round_completes resume wrap now s h is_due \<longleftrightarrow>
     (\<exists>w s1. run_timers resume wrap now (run_pending resume s) = Inr (w, s1) \<and>
       (\<forall>evs. reportable evs s1 \<longrightarrow> (\<exists>s2. run_once resume wrap now (\<lambda>_. reported evs) s = Inr s2 \<and> service_ok s2 \<and>
          (is_due \<longrightarrow> wrap h \<in> set (drop (length (resumed s)) (resumed s2))))))"

text \<open>C9: A coroutine that sleeps is woken by the loop. It calls \<open>Sleep\<close> in a service that is in order; then, whatever
  the other coroutines do within their interfaces and whatever the kernel reports: every round of the loop completes and
  leaves the service in order, its timer stays armed through the rounds before the deadline, and the first round at or after
  it resumes the sleeper's task.\<close>

theorem sleeper_wakes_in_loop:
  assumes "user_ok (t_timerId timer) resume" "service_ok s" "queue_view (timerQueue s) (t_timerId timer) = None"
  shows "\<exists>timer' q'. Sleep_suspend start d h timer (timerQueue s) = Inr (timer', q') \<and>
    (\<forall>nows s1. rounds resume wrap nows (s\<lparr>timerQueue := q'\<rparr>) s1 \<longrightarrow> (\<forall>n \<in> set nows. n < start + d) \<longrightarrow>
       service_ok s1 \<and> queue_view (timerQueue s1) (t_timerId timer) = Some (start + d, Some h, True) \<and>
       (\<forall>now. round_completes resume wrap now s1 h (start + d \<le> now)))"
proof -
  have inv: "queue_inv (timerQueue s)" using assms(2) by (simp add: service_ok_def)
  obtain timer' q' where q': "Sleep_suspend start d h timer (timerQueue s) = Inr (timer', q')" "queue_inv q'"
      "queue_view q' = (queue_view (timerQueue s))(t_timerId timer \<mapsto> (start + d, Some h, True))"
    using sleep_wakes_at [OF inv assms(3)] by blast
  have "tasks_set q'" using assms(2) unfolding tasks_set_def service_ok_def q'(3) by auto
  then have ok: "service_ok (s\<lparr>timerQueue := q'\<rparr>)" using assms(2) q'(2) by (simp add: service_ok_def)
  have view: "queue_view (timerQueue (s\<lparr>timerQueue := q'\<rparr>)) (t_timerId timer) = Some (start + d, Some h, True)"
    by (simp add: q'(3))
  have "round_completes resume wrap now s1 h (start + d \<le> now)"
    if "service_ok s1" "queue_view (timerQueue s1) (t_timerId timer) = Some (start + d, Some h, True)" for s1 now
    using sleeper_round [OF assms(1) that, of wrap now] unfolding round_completes_def by (auto split: if_splits)
  then show ?thesis using q'(1) sleeper_rounds [OF _ assms(1) ok view] by blast
qed

lemma demo_user_ok: "user_ok 3 (\<lambda>h s. s)"
  by (simp add: user_ok_def ghost_free_def)

lemma demo_service_ok: "service_ok demo_service" "queue_view (timerQueue demo_service) i = None"
  using inv_IoWatcher_init [OF demo_watcher_init]
  by (simp_all add: service_ok_def demo_service_def tasks_set_def queue_inv_empty queue_view_empty)

theorem sleeper_wakes_in_loop_witness:
  "\<exists>timer' q' s2. Sleep_suspend 0 5 9 (demo_timer 3 0) (timerQueue demo_service) = Inr (timer', q')
     \<and> run_once (\<lambda>h s. s) Suc 8 (\<lambda>_. []) (demo_service\<lparr>timerQueue := q'\<rparr>) = Inr s2 \<and> 10 \<in> set (resumed s2)"
proof -
  have id: "t_timerId (demo_timer 3 0) = 3" by (simp add: demo_timer_def)
  obtain timer' q' where q': "Sleep_suspend 0 5 9 (demo_timer 3 0) (timerQueue demo_service) = Inr (timer', q')"
    and all: "\<forall>nows s1. rounds (\<lambda>h s. s) Suc nows (demo_service\<lparr>timerQueue := q'\<rparr>) s1 \<longrightarrow> (\<forall>n \<in> set nows. n < 0 + 5) \<longrightarrow>
       service_ok s1 \<and> queue_view (timerQueue s1) 3 = Some (0 + 5, Some 9, True) \<and>
       (\<forall>now. round_completes (\<lambda>h s. s) Suc now s1 9 (0 + 5 \<le> now))"
    using sleeper_wakes_in_loop [of "demo_timer 3 0" "\<lambda>h s. s" demo_service 0 5 9 Suc, unfolded id,
      OF demo_user_ok demo_service_ok] by blast
  have "round_completes (\<lambda>h s. s) Suc 8 (demo_service\<lparr>timerQueue := q'\<rparr>) 9 (0 + 5 \<le> (8 :: int))"
    using all rounds.none [of "\<lambda>h s. s" Suc "demo_service\<lparr>timerQueue := q'\<rparr>"] by fastforce
  then obtain w s1 where s1: "\<forall>evs. reportable evs s1 \<longrightarrow> (\<exists>s2. run_once (\<lambda>h s. s) Suc 8 (\<lambda>_. reported evs) (demo_service\<lparr>timerQueue := q'\<rparr>) = Inr s2
      \<and> service_ok s2 \<and> (0 + 5 \<le> (8 :: int) \<longrightarrow> Suc 9 \<in> set (drop (length (resumed (demo_service\<lparr>timerQueue := q'\<rparr>))) (resumed s2))))"
    unfolding round_completes_def by blast
  have "reportable [] s1" by (simp add: reportable_def)
  with s1 obtain s2 where "run_once (\<lambda>h s. s) Suc 8 (\<lambda>_. reported []) (demo_service\<lparr>timerQueue := q'\<rparr>) = Inr s2"
      "0 + 5 \<le> (8 :: int) \<longrightarrow> Suc 9 \<in> set (drop (length (resumed (demo_service\<lparr>timerQueue := q'\<rparr>))) (resumed s2))"
    by blast
  then have "run_once (\<lambda>h s. s) Suc 8 (\<lambda>_. []) (demo_service\<lparr>timerQueue := q'\<rparr>) = Inr s2"
      "10 \<in> set (drop (length (resumed (demo_service\<lparr>timerQueue := q'\<rparr>))) (resumed s2))"
    by (simp_all add: reported_def)
  then show ?thesis using q' in_set_dropD by fast
qed

end
