(* ===== verification/IoTimeout.thy ===== *)
theory IoTimeout
  imports EventLoop
begin

text \<open>
  \<open>IoAwaitableBase\<close> and \<open>IoTimeoutAwaitable\<close> of \<open>cold/coro/Io.h\<close> on the event loop: what a suspended call leaves in the
  watcher and in the timer queue, and what a timeout takes out again. \<open>IoAwaitable\<close> holds the calls themselves.

  \<^item> \<open>handle\<close> is the coroutine that \<open>co_await\<close>s the awaitable: the frame of the task that \<open>IoTimeoutAwaitable\<close> spawns, or the
    caller without a timeout.
  \<^item> Whether a call of \<open>epoll_ctl\<close> succeeds is an argument, as in \<open>IoWatcher\<close>.
\<close>

section \<open>The awaitables\<close>

datatype IoType = kREAD | kWRITE

record IoAwaitableBase =
  aio_fd :: int
  aio_type :: IoType
  aio_timeout :: bool

definition IoAwaitableBase_new :: "int \<Rightarrow> IoType \<Rightarrow> IoAwaitableBase" where
  "IoAwaitableBase_new fd ty = \<lparr>aio_fd = fd, aio_type = ty, aio_timeout = False\<rparr>"

definition ListenIo :: "bool \<Rightarrow> 'h \<Rightarrow> IoAwaitableBase \<Rightarrow> 'h IoWatcher \<Rightarrow> 'h IoWatcher result" where
  "ListenIo ok h a w = (if aio_type a = kREAD then ListenReadEvent ok (aio_fd a) (Some h) w else ListenWriteEvent ok (aio_fd a) (Some h) w)"

definition StopListeningIo :: "bool \<Rightarrow> IoAwaitableBase \<Rightarrow> 'h IoWatcher \<Rightarrow> 'h IoWatcher result" where
  "StopListeningIo ok a w = (if aio_type a = kREAD then StopListeningReadEvent (aio_fd a) w else StopListeningWriteEvent ok (aio_fd a) w)"

definition SetIoType :: "IoType \<Rightarrow> IoAwaitableBase \<Rightarrow> IoAwaitableBase" where
  "SetIoType ty a = a\<lparr>aio_type := ty\<rparr>"

definition SetTimeout :: "bool \<Rightarrow> IoAwaitableBase \<Rightarrow> 'h IoWatcher \<Rightarrow> (IoAwaitableBase \<times> 'h IoWatcher) result" where
  "SetTimeout ok a w = bind_result (StopListeningIo ok a w) (\<lambda>w'. Inr (a\<lparr>aio_timeout := True\<rparr>, w'))"

text \<open>\<open>IoTimeoutAwaitable::await_suspend\<close>: the timer is armed with its task, then the task that awaits is spawned.\<close>

definition IoTimeout_await_suspend ::
    "(nat \<Rightarrow> nat) \<Rightarrow> int \<Rightarrow> int \<Rightarrow> nat \<Rightarrow> nat \<Rightarrow> nat Timer \<Rightarrow> io_service \<Rightarrow> (nat Timer \<times> io_service) result" where
  "IoTimeout_await_suspend wrap now timeoutTime co timer_co timer s =
     bind_result (Timer_ExpiresAfter now timeoutTime timer (timerQueue s)) (\<lambda>(timer1, q1).
       let (timer2, q2) = Timer_AsyncWait timer_co timer1 q1
       in Inr (timer2, CoSpawn wrap co (s\<lparr>timerQueue := q2\<rparr>)))"

text \<open>The timer's task, and \<open>await_resume\<close>.\<close>

definition IoTimeout_timer_task ::
    "(nat \<Rightarrow> io_service \<Rightarrow> io_service) \<Rightarrow> bool \<Rightarrow> nat \<Rightarrow> IoAwaitableBase \<Rightarrow> io_service \<Rightarrow> (IoAwaitableBase \<times> io_service) result" where
  "IoTimeout_timer_task resume ok coro a s =
     bind_result (SetTimeout ok a (ioWatcher s)) (\<lambda>(a', w). Inr (a', resume_handle resume coro (s\<lparr>ioWatcher := w\<rparr>)))"

definition IoTimeout_await_resume :: "IoAwaitableBase \<Rightarrow> nat Timer \<Rightarrow> io_service \<Rightarrow> io_service result" where
  "IoTimeout_await_resume a timer s = (if aio_timeout a then Inr s else Service_CancelTimer timer s)"

section \<open>What happens to a wait\<close>

definition kernel_reports :: "(int \<times> flags) list \<Rightarrow> 'h IoWatcher \<Rightarrow> bool" where
  "kernel_reports evs w \<longleftrightarrow> distinct (map fst evs) \<and> set (map fst evs) \<subseteq> dom (ioEvents w)"

fun op_handle :: "'h watcher_op \<Rightarrow> 'h option" where
  "op_handle (ListenRead fd h) = h"
| "op_handle (ListenWrite fd h) = h"
| "op_handle _ = None"

text \<open>Polls of the loop, the timeout of this wait, and what other coroutines do on their descriptors.\<close>

datatype 'h wait_event = Poll "(int \<times> flags) list" | TimeOut | Other "'h watcher_op"

inductive wait_trace :: "'h \<Rightarrow> IoAwaitableBase \<Rightarrow> 'h wait_event list \<Rightarrow> 'h IoWatcher \<Rightarrow> 'h option list \<Rightarrow> 'h IoWatcher \<Rightarrow> bool" for h where
  stop: "wait_trace h a [] w [] w"
| poll: "kernel_reports evs w \<Longrightarrow> WatchIo (reported evs) w = Inr (act, w1) \<Longrightarrow> wait_trace h a es w1 ws w2 \<Longrightarrow>
    wait_trace h a (Poll evs # es) w (act @ ws) w2"
| time_out: "SetTimeout True a w = Inr (a', w1) \<Longrightarrow> wait_trace h a' es w1 ws w2 \<Longrightarrow> wait_trace h a (TimeOut # es) w ws w2"
| other: "op_fd x = Some f \<Longrightarrow> f \<noteq> aio_fd a \<Longrightarrow> f \<noteq> wakeUpFd w \<Longrightarrow> op_handle x \<noteq> Some h \<Longrightarrow> watcher_step x w = Inr w1 \<Longrightarrow>
    wait_trace h a es w1 ws w2 \<Longrightarrow> wait_trace h a (Other x # es) w ws w2"

definition free_of :: "'h \<Rightarrow> 'h IoEvent \<Rightarrow> bool" where
  "free_of h e \<longleftrightarrow> readHandle e \<noteq> Some h \<and> writeHandle e \<noteq> Some h"

definition ready_for :: "IoType \<Rightarrow> flags \<Rightarrow> bool" where
  "ready_for ty ev = (case ty of kREAD \<Rightarrow> ev AND EPOLLIN \<noteq> 0 \<or> ev AND (EPOLLHUP OR EPOLLERR) \<noteq> 0 | kWRITE \<Rightarrow> ev AND EPOLLOUT \<noteq> 0)"

text \<open>Some poll of the list reports what the wait is for.\<close>

definition becomes_ready :: "IoAwaitableBase \<Rightarrow> 'h wait_event list \<Rightarrow> bool" where
  "becomes_ready a es \<longleftrightarrow> (\<exists>evs ev. Poll evs \<in> set es \<and> (aio_fd a, ev) \<in> set evs \<and> ready_for (aio_type a) ev)"

definition waits_at :: "'h \<Rightarrow> IoAwaitableBase \<Rightarrow> 'h IoEvent \<Rightarrow> bool" where
  "waits_at h a e \<longleftrightarrow> (case aio_type a of
      kREAD \<Rightarrow> readHandle e = Some h \<and> writeHandle e \<noteq> Some h \<and> events e AND EPOLLIN \<noteq> 0
    | kWRITE \<Rightarrow> writeHandle e = Some h \<and> readHandle e \<noteq> Some h)"

definition elsewhere_free :: "'h \<Rightarrow> int \<Rightarrow> 'h IoWatcher \<Rightarrow> bool" where
  "elsewhere_free h fd w \<longleftrightarrow> watcher_inv w \<and> fd \<noteq> wakeUpFd w \<and> (\<forall>f e. ioEvents w f = Some e \<longrightarrow> f \<noteq> fd \<longrightarrow> free_of h e)"

definition waiting :: "'h \<Rightarrow> IoAwaitableBase \<Rightarrow> 'h IoWatcher \<Rightarrow> bool" where
  "waiting h a w \<longleftrightarrow> elsewhere_free h (aio_fd a) w \<and> (\<exists>e. ioEvents w (aio_fd a) = Some e \<and> waits_at h a e)"

definition not_waiting :: "'h \<Rightarrow> IoAwaitableBase \<Rightarrow> 'h IoWatcher \<Rightarrow> bool" where
  "not_waiting h a w \<longleftrightarrow> elsewhere_free h (aio_fd a) w \<and> (\<forall>e. ioEvents w (aio_fd a) = Some e \<longrightarrow> free_of h e)"

section \<open>Lemmas\<close>

lemma after_event_free: "after_event ev e = Some e' \<Longrightarrow> free_of h e \<Longrightarrow> free_of h e'"
  by (auto simp: after_event_def free_of_def Let_def split: if_splits)

lemma woken_free: "free_of h e \<Longrightarrow> Some h \<notin> set (woken ev e)"
  by (auto simp: woken_def free_of_def)

lemma not_word_and: "(x AND NOT EPOLLOUT) AND EPOLLIN = x AND (EPOLLIN :: flags)"
proof -
  have "NOT EPOLLOUT AND EPOLLIN = EPOLLIN" by (simp add: EPOLLIN_def EPOLLOUT_def)
  then show ?thesis by (simp add: and.assoc)
qed

lemma after_event_eq:
  "after_event ev e = (let e1 = (if wakes_reader ev e then e\<lparr>readHandle := None\<rparr> else e) in
     if ev AND EPOLLOUT = 0 then Some e1 else if events e AND EPOLLIN = 0 then None
     else Some (e1\<lparr>writeHandle := None, events := events e AND NOT EPOLLOUT\<rparr>))"
  by (simp add: after_event_def Let_def not_word_and)

text \<open>One report at the descriptor of the wait.\<close>

lemma read_event:
  assumes "aio_type a = kREAD" "waits_at h a e"
  shows "wakes_reader ev e = ready_for (aio_type a) ev" "readHandle e = Some h" "writeHandle e \<noteq> Some h" "events e AND EPOLLIN \<noteq> 0"
  using assms by (simp_all add: waits_at_def wakes_reader_def ready_for_def)

lemma write_event:
  assumes "aio_type a = kWRITE" "waits_at h a e"
  shows "ready_for (aio_type a) ev = (ev AND EPOLLOUT \<noteq> 0)" "writeHandle e = Some h" "readHandle e \<noteq> Some h"
  using assms by (simp_all add: waits_at_def ready_for_def)

lemma waits_at_ready:
  assumes "waits_at h a e" "ready_for (aio_type a) ev"
  shows "count_list (woken ev e) (Some h) = 1" "after_event ev e = Some e' \<Longrightarrow> free_of h e'"
proof -
  have "count_list (woken ev e) (Some h) = 1 \<and> (after_event ev e = Some e' \<longrightarrow> free_of h e')"
  proof (cases "aio_type a")
    case kREAD
    note r = read_event [OF kREAD assms(1)]
    have "wakes_reader ev e" using r(1) assms(2) by simp
    then show ?thesis using r(2,3) by (simp add: woken_def after_event_eq free_of_def Let_def split: if_splits) auto
  next
    case kWRITE
    note r = write_event [OF kWRITE assms(1)]
    have "ev AND EPOLLOUT \<noteq> 0" using r(1) assms(2) by simp
    then show ?thesis using r(2,3) by (simp add: woken_def after_event_eq free_of_def Let_def split: if_splits) auto
  qed
  then show "count_list (woken ev e) (Some h) = 1" "after_event ev e = Some e' \<Longrightarrow> free_of h e'" by simp_all
qed

lemma waits_at_quiet:
  assumes "waits_at h a e" "\<not> ready_for (aio_type a) ev"
  shows "Some h \<notin> set (woken ev e)" "\<exists>e'. after_event ev e = Some e' \<and> waits_at h a e'"
proof -
  have "Some h \<notin> set (woken ev e) \<and> (\<exists>e'. after_event ev e = Some e' \<and> waits_at h a e')"
  proof (cases "aio_type a")
    case kREAD
    note r = read_event [OF kREAD assms(1)]
    have "\<not> wakes_reader ev e" using r(1) assms(2) by simp
    then show ?thesis using r(2-4) kREAD by (simp add: woken_def after_event_eq waits_at_def Let_def not_word_and split: if_splits)
  next
    case kWRITE
    note r = write_event [OF kWRITE assms(1)]
    have "ev AND EPOLLOUT = 0" using r(1) assms(2) by simp
    then show ?thesis using r(2,3) kWRITE by (simp add: woken_def after_event_eq waits_at_def Let_def split: if_splits)
  qed
  then show "Some h \<notin> set (woken ev e)" "\<exists>e'. after_event ev e = Some e' \<and> waits_at h a e'" by simp_all
qed

lemma reports_entry: "set (map fst evs) \<subseteq> dom (ioEvents w) \<Longrightarrow> (f, ev) \<in> set evs \<Longrightarrow> \<exists>e. ioEvents w f = Some e"
  by force

lemma WatchIo_table:
  assumes "watcher_inv w" "kernel_reports evs w" "WatchIo (reported evs) w = Inr (act, w')"
  shows "act = concat (map (\<lambda>(fd, ev). if fd = wakeUpFd w then [] else woken ev (the (ioEvents w fd))) evs)"
    "watcher_inv w'" "wakeUpFd w' = wakeUpFd w"
    "ioEvents w' fd = (case map_of evs fd of None \<Rightarrow> ioEvents w fd
       | Some ev \<Rightarrow> if fd = wakeUpFd w then ioEvents w fd else after_event ev (the (ioEvents w fd)))"
  using watch_events_exact [OF assms(1), of evs "[]"] assms(2,3)
  by (auto simp: kernel_reports_def reported_def WatchIo_def)

lemma poll_elsewhere:
  assumes "elsewhere_free h fd w" "kernel_reports evs w" "WatchIo (reported evs) w = Inr (act, w')"
  shows "elsewhere_free h fd w'"
proof -
  have inv: "watcher_inv w" using assms(1) by (simp add: elsewhere_free_def)
  note t = WatchIo_table [OF inv assms(2,3)]
  have "free_of h e" if "ioEvents w' f = Some e" "f \<noteq> fd" for f e
  proof (cases "map_of evs f")
    case None
    then show ?thesis using that assms(1) t(4) [of f] by (auto simp: elsewhere_free_def)
  next
    case (Some ev)
    then have "f \<in> dom (ioEvents w)" using assms(2) by (force simp: kernel_reports_def dest: map_of_SomeD)
    then obtain e0 where "ioEvents w f = Some e0" by blast
    then show ?thesis using Some that assms(1) t(4) [of f] after_event_free [of ev e0 e h]
      by (auto simp: elsewhere_free_def split: if_splits)
  qed
  then show ?thesis using assms(1) t(2,3) by (auto simp: elsewhere_free_def)
qed

lemma poll_others_silent:
  assumes "elsewhere_free h fd w" "set (map fst evs) \<subseteq> dom (ioEvents w)" "fd \<notin> set (map fst evs)"
  shows "Some h \<notin> set (concat (map (\<lambda>(fd, ev). if fd = wakeUpFd w then [] else woken ev (the (ioEvents w fd))) evs))"
proof -
  have "Some h \<notin> set (woken ev (the (ioEvents w f)))" if "(f, ev) \<in> set evs" for f ev
  proof -
    obtain e where "ioEvents w f = Some e" using reports_entry [OF assms(2)] \<open>(f, ev) \<in> set evs\<close> by blast
    then show ?thesis using that assms(1,3) woken_free [of h e ev] by (force simp: elsewhere_free_def)
  qed
  then show ?thesis by (auto split: if_splits)
qed

lemma poll_not_waiting:
  assumes "not_waiting h a w" "kernel_reports evs w" "WatchIo (reported evs) w = Inr (act, w')"
  shows "Some h \<notin> set act \<and> not_waiting h a w'"
proof -
  have el: "elsewhere_free h (aio_fd a) w" and inv: "watcher_inv w"
    using assms(1) by (simp_all add: not_waiting_def elsewhere_free_def)
  have all: "free_of h e" if "ioEvents w f = Some e" for f e
    using assms(1) that by (cases "f = aio_fd a") (auto simp: not_waiting_def elsewhere_free_def)
  note t = WatchIo_table [OF inv assms(2,3)]
  have "Some h \<notin> set (woken ev (the (ioEvents w f)))" if "(f, ev) \<in> set evs" for f ev
  proof -
    obtain e where "ioEvents w f = Some e"
      using reports_entry [of evs w f ev] assms(2) \<open>(f, ev) \<in> set evs\<close> by (auto simp: kernel_reports_def)
    then show ?thesis using woken_free [OF all] by simp
  qed
  then have "Some h \<notin> set act" by (auto simp: t(1) split: if_splits)
  moreover have "free_of h e" if "ioEvents w' (aio_fd a) = Some e" for e
  proof (cases "map_of evs (aio_fd a)")
    case None
    then show ?thesis using that all t(4) [of "aio_fd a"] by auto
  next
    case (Some ev)
    then obtain e0 where "ioEvents w (aio_fd a) = Some e0" using assms(2) by (force simp: kernel_reports_def dest: map_of_SomeD)
    then show ?thesis using Some that t(4) [of "aio_fd a"] all after_event_free [of ev e0 e h] by (auto split: if_splits)
  qed
  ultimately show ?thesis using poll_elsewhere [OF el assms(2,3)] by (simp add: not_waiting_def)
qed

lemma poll_waiting:
  assumes "waiting h a w" "kernel_reports evs w" "WatchIo (reported evs) w = Inr (act, w')"
  shows "if \<exists>ev. (aio_fd a, ev) \<in> set evs \<and> ready_for (aio_type a) ev
    then count_list act (Some h) = 1 \<and> not_waiting h a w' else Some h \<notin> set act \<and> waiting h a w'"
proof -
  have el: "elsewhere_free h (aio_fd a) w" and inv: "watcher_inv w" and wk: "aio_fd a \<noteq> wakeUpFd w"
    using assms(1) by (simp_all add: waiting_def elsewhere_free_def)
  obtain e where e: "ioEvents w (aio_fd a) = Some e" "waits_at h a e" using assms(1) by (auto simp: waiting_def)
  note t = WatchIo_table [OF inv assms(2,3)] and el' = poll_elsewhere [OF el assms(2,3)]
  have dom: "set (map fst evs) \<subseteq> dom (ioEvents w)" and dist: "distinct (map fst evs)"
    using assms(2) by (simp_all add: kernel_reports_def)
  show ?thesis
  proof (cases "map_of evs (aio_fd a)")
    case None
    then have "aio_fd a \<notin> set (map fst evs)" by (simp add: map_of_eq_None_iff)
    then show ?thesis using poll_others_silent [OF el dom] e el' None t(1) t(4) [of "aio_fd a"] by (force simp: waiting_def)
  next
    case (Some ev)
    then have "(aio_fd a, ev) \<in> set evs" by (rule map_of_SomeD)
    then obtain ys zs where s: "evs = ys @ (aio_fd a, ev) # zs" by (meson split_list)
    then have "aio_fd a \<notin> set (map fst ys)" "aio_fd a \<notin> set (map fst zs)" using dist by auto
    then have "count_list act (Some h) = count_list (woken ev e) (Some h)"
      using poll_others_silent [OF el, of ys] poll_others_silent [OF el, of zs] dom s t(1) wk e(1) by (simp add: count_notin)
    moreover have "(aio_fd a, v) \<in> set evs \<longleftrightarrow> v = ev" for v using Some dist by (metis map_of_eq_Some_iff option.inject)
    moreover have "ioEvents w' (aio_fd a) = after_event ev e" using Some t(4) [of "aio_fd a"] wk e(1) by simp
    ultimately show ?thesis using waits_at_ready [OF e(2), of ev] waits_at_quiet [OF e(2), of ev] el'
      by (auto simp: waiting_def not_waiting_def count_list_0_iff split: if_splits)
  qed
qed

lemmas listen_defs = ListenReadEvent_def ListenWriteEvent_def StopListeningReadEvent_def StopListeningWriteEvent_def StopListeningAll_def
  ioEvent_ref_def noIoEvent_def free_of_def Let_def

text \<open>An operation on another descriptor that does not hand over \<open>h\<close>.\<close>

lemma other_entry:
  assumes "op_fd x = Some f" "watcher_step x w = Inr w1"
  shows "f' \<noteq> f \<Longrightarrow> ioEvents w1 f' = ioEvents w f'"
    and "\<forall>e. ioEvents w f = Some e \<longrightarrow> free_of h e \<Longrightarrow> op_handle x \<noteq> Some h \<Longrightarrow> ioEvents w1 f = Some e' \<Longrightarrow> free_of h e'"
proof -
  show "f' \<noteq> f \<Longrightarrow> ioEvents w1 f' = ioEvents w f'"
    using assms by (cases x) (auto simp: listen_defs split: option.splits if_splits)
  show "free_of h e'" if "\<forall>e. ioEvents w f = Some e \<longrightarrow> free_of h e" "op_handle x \<noteq> Some h" "ioEvents w1 f = Some e'"
  proof (cases "ioEvents w f")
    case None
    then show ?thesis using assms that(2,3) by (cases x) (auto simp: listen_defs split: if_splits)
  next
    case (Some e)
    then have "readHandle e \<noteq> Some h" "writeHandle e \<noteq> Some h" using that(1) by (simp_all add: free_of_def)
    then show ?thesis using assms that(2,3) Some by (cases x) (auto simp: listen_defs split: if_splits)
  qed
qed

lemma elsewhere_free_cong:
  "elsewhere_free h fd w \<Longrightarrow> watcher_inv w1 \<and> wakeUpFd w1 = wakeUpFd w \<Longrightarrow> (\<And>f. f \<noteq> fd \<Longrightarrow> ioEvents w1 f = ioEvents w f) \<Longrightarrow>
   elsewhere_free h fd w1"
  unfolding elsewhere_free_def by metis

lemma other_step:
  assumes "op_fd x = Some f" "f \<noteq> fd" "f \<noteq> wakeUpFd w" "op_handle x \<noteq> Some h" "watcher_step x w = Inr w1" "elsewhere_free h fd w"
  shows "elsewhere_free h fd w1 \<and> ioEvents w1 fd = ioEvents w fd"
proof -
  have "watcher_inv w1 \<and> wakeUpFd w1 = wakeUpFd w"
    using inv_watcher_step [OF _ _ assms(5)] assms(1,3,6) by (simp add: elsewhere_free_def)
  moreover have "free_of h e" if "ioEvents w1 f' = Some e" "f' \<noteq> fd" for f' e
  proof (cases "f' = f")
    case True
    have "\<forall>e. ioEvents w f = Some e \<longrightarrow> free_of h e" using assms(2,6) unfolding elsewhere_free_def by blast
    then show ?thesis using other_entry(2) [OF assms(1,5) _ assms(4)] that(1) True by blast
  next
    case False
    then show ?thesis using other_entry(1) [OF assms(1,5), of f'] that assms(6) unfolding elsewhere_free_def by metis
  qed
  moreover have "ioEvents w1 fd = ioEvents w fd" using other_entry(1) [OF assms(1,5), of fd] assms(2) by simp
  ultimately show ?thesis using assms(6) unfolding elsewhere_free_def by blast
qed

lemma SetTimeout_gone:
  assumes "SetTimeout True a w = Inr (a', w1)" "elsewhere_free h (aio_fd a) w"
    and "\<forall>e. ioEvents w (aio_fd a) = Some e \<longrightarrow> free_of h e \<or> waits_at h a e"
  shows "not_waiting h a' w1" "aio_fd a' = aio_fd a" "aio_type a' = aio_type a" "aio_timeout a'"
proof -
  have st: "StopListeningIo True a w = Inr w1" and a': "a' = a\<lparr>aio_timeout := True\<rparr>"
    using assms(1) by (auto simp: SetTimeout_def bind_result_eq_Inr)
  let ?x = "if aio_type a = kREAD then StopRead (aio_fd a) else StopWrite (aio_fd a)"
  have x: "op_fd ?x = Some (aio_fd a)" "watcher_step ?x w = Inr w1" using st by (auto simp: StopListeningIo_def)
  have "watcher_inv w1 \<and> wakeUpFd w1 = wakeUpFd w"
    using inv_watcher_step [OF _ _ x(2)] x(1) assms(2) by (simp add: elsewhere_free_def)
  then have "elsewhere_free h (aio_fd a) w1" using elsewhere_free_cong [OF assms(2)] other_entry(1) [OF x] by blast
  moreover have "free_of h e" if "ioEvents w1 (aio_fd a) = Some e" for e
    using that st assms(3)
    by (cases "aio_type a") (auto simp: StopListeningIo_def listen_defs waits_at_def split: option.splits if_splits)
  ultimately show "not_waiting h a' w1" by (simp add: not_waiting_def a')
qed (use assms(1) in \<open>auto simp: SetTimeout_def bind_result_eq_Inr\<close>)

lemma ListenIo_waiting:
  assumes "not_waiting h a w" "ListenIo True h a w = Inr w1"
    and "aio_type a = kREAD \<longrightarrow> (\<forall>e. ioEvents w (aio_fd a) = Some e \<longrightarrow> events e AND EPOLLIN \<noteq> 0)"
  shows "waiting h a w1"
proof -
  have el: "elsewhere_free h (aio_fd a) w" using assms(1) by (simp add: not_waiting_def)
  let ?x = "if aio_type a = kREAD then ListenRead (aio_fd a) (Some h) else ListenWrite (aio_fd a) (Some h)"
  have x: "op_fd ?x = Some (aio_fd a)" "watcher_step ?x w = Inr w1" using assms(2) by (auto simp: ListenIo_def)
  have "watcher_inv w1 \<and> wakeUpFd w1 = wakeUpFd w"
    using inv_watcher_step [OF _ _ x(2)] x(1) el by (simp add: elsewhere_free_def)
  then have "elsewhere_free h (aio_fd a) w1" using elsewhere_free_cong [OF el] other_entry(1) [OF x] by blast
  moreover have "(EPOLLIN OR EPOLLET) AND EPOLLIN \<noteq> 0" by (simp add: EPOLLIN_def EPOLLET_def)
  then have "\<exists>e. ioEvents w1 (aio_fd a) = Some e \<and> waits_at h a e"
    using assms by (cases "aio_type a") (auto simp: ListenIo_def not_waiting_def listen_defs waits_at_def split: option.splits if_splits)
  ultimately show ?thesis by (simp add: waiting_def)
qed

section \<open>Traces\<close>

lemma trace_not_waiting: "wait_trace h a es w ws w' \<Longrightarrow> not_waiting h a w \<Longrightarrow> Some h \<notin> set ws"
proof (induction rule: wait_trace.induct)
  case (poll evs w act w1 a es ws w2)
  then show ?case using poll_not_waiting [OF poll.prems poll.hyps(1,2)] by simp
next
  case (time_out a w a' w1 es ws w2)
  have "not_waiting h a' w1" by (rule SetTimeout_gone(1) [OF time_out.hyps(1)]) (use time_out.prems in \<open>auto simp: not_waiting_def\<close>)
  then show ?case by (rule time_out.IH)
next
  case (other x f a w w1 es ws w2)
  then show ?case using other_step [OF other.hyps(1-5)] by (auto simp: not_waiting_def)
qed simp

lemma trace_waiting:
  "wait_trace h a es w ws w' \<Longrightarrow> waiting h a w \<Longrightarrow>
     count_list ws (Some h) = (if becomes_ready a (takeWhile (\<lambda>e. e \<noteq> TimeOut) es) then 1 else 0)"
proof (induction rule: wait_trace.induct)
  case (stop a w)
  then show ?case by (simp add: becomes_ready_def)
next
  case (poll evs w act w1 a es ws w2)
  note p = poll_waiting [OF poll.prems poll.hyps(1,2)]
  have br: "becomes_ready a (Poll evs # xs) \<longleftrightarrow> (\<exists>ev. (aio_fd a, ev) \<in> set evs \<and> ready_for (aio_type a) ev) \<or> becomes_ready a xs" for xs
    by (auto simp: becomes_ready_def)
  show ?case
  proof (cases "\<exists>ev. (aio_fd a, ev) \<in> set evs \<and> ready_for (aio_type a) ev")
    case True
    then have "count_list act (Some h) = 1" "Some h \<notin> set ws" using p trace_not_waiting [OF poll.hyps(3)] by simp_all
    then show ?thesis using True by (simp add: br count_notin)
  next
    case False
    then show ?thesis using p poll.IH by (simp add: br count_notin)
  qed
next
  case (time_out a w a' w1 es ws w2)
  have "not_waiting h a' w1" by (rule SetTimeout_gone(1) [OF time_out.hyps(1)]) (use time_out.prems in \<open>auto simp: waiting_def\<close>)
  then have "Some h \<notin> set ws" using trace_not_waiting [OF time_out.hyps(2)] by simp
  then show ?case by (simp add: becomes_ready_def count_notin)
next
  case (other x f a w w1 es ws w2)
  have "waiting h a w1" using other_step [OF other.hyps(1-5)] other.prems by (simp add: waiting_def)
  then show ?case using other.IH by (simp add: becomes_ready_def)
qed

section \<open>Properties\<close>


definition demo_read :: IoAwaitableBase where
  "demo_read = IoAwaitableBase_new 7 kREAD"

lemma demo_not_waiting: "not_waiting (9 :: nat) demo_read demo_watcher"
  using inv_IoWatcher_init [OF demo_watcher_init]
  by (simp add: not_waiting_def elsewhere_free_def demo_read_def IoAwaitableBase_new_def demo_watcher_def free_of_def)

lemmas demo_trace_defs = demo_read_def IoAwaitableBase_new_def ListenIo_def SetTimeout_def StopListeningIo_def demo_watcher_def WatchIo_def
  watch_event_def listen_defs epoll_ctl_def set_ioEvent_def reported_def kernel_reports_def EPOLLIN_def EPOLLOUT_def EPOLLHUP_def EPOLLERR_def


text \<open>The timer's task of a call that waits: it fails no assertion, takes the handle out of the watcher and resumes the task, which
  sees the timeout; \<open>await_resume\<close> then leaves the timer alone.\<close>

lemma timer_task_ends_wait:
  assumes "waiting co a (ioWatcher s)"
  shows "\<exists>a' w. IoTimeout_timer_task resume True co a s = Inr (a', resume_handle resume co (s\<lparr>ioWatcher := w\<rparr>))
    \<and> aio_timeout a' \<and> not_waiting co a' w \<and> IoTimeout_await_resume a' timer s1 = Inr s1"
proof -
  have el: "elsewhere_free co (aio_fd a) (ioWatcher s)" using assms by (simp add: waiting_def)
  obtain e where e: "ioEvents (ioWatcher s) (aio_fd a) = Some e" "waits_at co a e" using assms by (auto simp: waiting_def)
  then obtain a' w where st: "SetTimeout True a (ioWatcher s) = Inr (a', w)"
    by (cases "aio_type a") (auto simp: SetTimeout_def StopListeningIo_def StopListeningReadEvent_def StopListeningWriteEvent_def Let_def)
  have "\<forall>e. ioEvents (ioWatcher s) (aio_fd a) = Some e \<longrightarrow> free_of co e \<or> waits_at co a e" using e by simp
  note g = SetTimeout_gone [OF st el this]
  show ?thesis using st g(1,4) by (intro exI [of _ a'] exI [of _ w]) (simp add: IoTimeout_timer_task_def IoTimeout_await_resume_def)
qed

text \<open>A call with a timeout that is made between two rounds, or by a coroutine that the descriptors woke: its timer is armed for
  \<open>now + timeoutTime\<close>, and the next round starts its task before any timer, even if the timeout is not positive. So the timer's task
  never finds a task that has not run (compare \<open>IoAwaitable.timeout_before_start\<close>).\<close>

theorem timeout_task_first:
  assumes "service_ok s" "queue_view (timerQueue s) (t_timerId timer) = None" "ghost_free resume"
  shows "\<exists>timer' s'. IoTimeout_await_suspend wrap now d co timer_co timer s = Inr (timer', s') \<and> service_ok s'
    \<and> queue_view (timerQueue s') (t_timerId timer) = Some (now + d, Some timer_co, True)
    \<and> (\<forall>now' epoll_wait s2. run_once resume wrap now' epoll_wait s' = Inr s2 \<longrightarrow>
         (\<exists>later. resumed s2 = resumed s @ pendingTasks s @ [wrap co] @ later))"
proof -
  have inv: "queue_inv (timerQueue s)" using assms(1) by (simp add: service_ok_def)
  obtain timer' q' where q': "Sleep_suspend now d timer_co timer (timerQueue s) = Inr (timer', q')" "queue_inv q'"
      "queue_view q' = (queue_view (timerQueue s))(t_timerId timer \<mapsto> (now + d, Some timer_co, True))"
    using sleep_wakes_at [OF inv assms(2)] by blast
  let ?s = "CoSpawn wrap co (s\<lparr>timerQueue := q'\<rparr>)"
  have "IoTimeout_await_suspend wrap now d co timer_co timer s = Inr (timer', ?s)"
    using q'(1) by (auto simp: IoTimeout_await_suspend_def Sleep_suspend_def bind_result_eq_Inr)
  moreover have "tasks_set q'" using assms(1) unfolding tasks_set_def service_ok_def q'(3) by auto
  then have "service_ok ?s" using assms(1) q'(2) by (simp add: service_ok_def CoSpawn_def AddTask_def)
  moreover have "queue_view (timerQueue ?s) (t_timerId timer) = Some (now + d, Some timer_co, True)"
    by (simp add: q'(3) CoSpawn_def AddTask_def)
  moreover have "\<exists>later. resumed s2 = resumed s @ pendingTasks s @ [wrap co] @ later"
    if "run_once resume wrap now' epoll_wait ?s = Inr s2" for now' epoll_wait s2
    using run_once_resumed [OF assms(3) that] by (auto simp: CoSpawn_def AddTask_def)
  ultimately show ?thesis by blast
qed

text \<open>A timer that is due when the timers of a round are collected has its task run in that round, whatever the tasks before it
  do: \<open>Cancel\<close> from one of them returns, but comes too late.\<close>

theorem cancel_in_round_too_late:
  assumes "ghost_free resume" "queue_inv (timerQueue (run_pending resume s))"
    and "queue_view (timerQueue (run_pending resume s)) i = Some (T, Some t, True)" "T \<le> now"
    and "run_once resume wrap now epoll_wait s = Inr s'"
  shows "wrap t \<in> set (resumed s')"
proof -
  obtain tasks w q s1 active w' where r: "HandleTimeout now (timerQueue (run_pending resume s)) = Inr (tasks, w, q)"
      "resumed s' = resumed s @ pendingTasks s @ map (wrap \<circ> the) tasks @ map the (filter (\<lambda>c. c \<noteq> None) active)"
    using run_once_resumed [OF assms(1,5)] by blast
  obtain ks w q where "HandleTimeout now (timerQueue (run_pending resume s)) =
        Inr (map (\<lambda>k. fst (snd (the (queue_view (timerQueue (run_pending resume s)) k)))) ks, w, q)"
      "set ks = {k. \<exists>e t. queue_view (timerQueue (run_pending resume s)) k = Some (e, t, True) \<and> e \<le> now}"
    using tq.expire_ok [OF assms(2), of now] by blast
  then have "Some t \<in> set tasks" using r(1) assms(3,4) by (force simp: image_iff)
  then show ?thesis by (force simp: r(2))
qed

text \<open>A coroutine that the round itself starts, and that makes a call whose timeout is already due: the timer's task runs in the same
  round, while the task that awaits the descriptor is still pending.\<close>

definition hasty_resume :: "nat \<Rightarrow> io_service \<Rightarrow> io_service" where
  "hasty_resume h s = (if h = 11 then
     (case IoTimeout_await_suspend Suc 0 0 21 31 (demo_timer 3 0) s of Inr (timer', s') \<Rightarrow> s' | Inl e \<Rightarrow> s) else s)"

lemma timer_before_task:
  "(case run_once hasty_resume Suc 0 (\<lambda>_. []) (demo_service\<lparr>pendingTasks := [11]\<rparr>) of
      Inr s' \<Rightarrow> (resumed s', pendingTasks s') | Inl e \<Rightarrow> ([], [])) = ([11, 32], [22])"
  by code_simp

text \<open>A coroutine that a timer resumes and that sleeps again, for 10 ms: the time the loop is going to wait was computed before its
  new timer was armed, so with nothing else to do the loop waits 500 ms. The same holds for a timer that another thread arms while
  the loop waits, since only \<open>AddTask\<close> wakes it up.\<close>

definition drowsy_resume :: "nat \<Rightarrow> io_service \<Rightarrow> io_service" where
  "drowsy_resume h s = (if h = 32 then
     (case Sleep_suspend 0 10000000 9 (demo_timer 4 0) (timerQueue s) of Inr (timer', q) \<Rightarrow> s\<lparr>timerQueue := q\<rparr> | Inl e \<Rightarrow> s) else s)"

definition drowsy_service :: io_service where
  "drowsy_service = demo_service\<lparr>pendingTasks := [], timerQueue := snd (Timer_AsyncWait 31 (demo_timer 3 0) empty_queue)\<rparr>"

lemma sleep_again_oversleeps:
  "(case run_timers drowsy_resume Suc 0 drowsy_service of
      Inr (waitTime, s') \<Rightarrow> (waitTime, map (\<lambda>n. (timerId n, expiry n)) (timeHeap (timerQueue s'))) | Inl e \<Rightarrow> (0, []))
   = (500, [(4, 10000000)])"
  by code_simp

end
