(* ===== verification/Ssl.thy ===== *)
theory Ssl
  imports IoAwaitable Socket
begin

text \<open>
  The build with \<open>COLD_NET_ENABLE_SSL\<close>: the SSL branches of \<open>IoAwaitable.h\<close>, \<open>DoHandshake\<close> of \<open>TcpSocket.h\<close> and of
  \<open>Acceptor.cpp\<close>, and the \<open>ssl_\<close> member of \<open>BasicSocket\<close>.

  \<^item> OpenSSL is outside: a call is its return value and what \<open>SSL_get_error\<close> says of it, and both are arguments.
    The SSL objects are numbers; \<open>ssl_live\<close> is the set of those not freed.
  \<^item> The codes are those of \<open>openssl/ssl.h\<close>; -1 is what \<open>HandshakeAwaitable\<close> returns for a timeout.
\<close>

type_synonym ssl_call = "int \<times> int"

definition SSL_ERROR_NONE :: int where "SSL_ERROR_NONE = 0"
definition SSL_ERROR_WANT_READ :: int where "SSL_ERROR_WANT_READ = 2"
definition SSL_ERROR_WANT_WRITE :: int where "SSL_ERROR_WANT_WRITE = 3"

lemmas ssl_errors = SSL_ERROR_NONE_def SSL_ERROR_WANT_READ_def SSL_ERROR_WANT_WRITE_def

section \<open>Handshakes\<close>

datatype io_type = kREAD | kWRITE

record handshake_aw =
  ha_type :: io_type
  ha_ret :: int
  ha_error :: int

definition handshake_aw_init :: handshake_aw where
  "handshake_aw_init = \<lparr>ha_type = kREAD, ha_ret = 0, ha_error = 0\<rparr>"

definition Handshake_await_ready :: "ssl_call \<Rightarrow> handshake_aw \<Rightarrow> bool \<times> handshake_aw" where
  "Handshake_await_ready r aw =
     (let aw1 = aw\<lparr>ha_ret := fst r\<rparr> in
      if fst r = 1 then (True, aw1)
      else let aw2 = aw1\<lparr>ha_error := snd r\<rparr> in
        if snd r = SSL_ERROR_WANT_READ then (False, aw2\<lparr>ha_type := kREAD\<rparr>)
        else if snd r = SSL_ERROR_WANT_WRITE then (False, aw2\<lparr>ha_type := kWRITE\<rparr>)
        else (True, aw2))"

definition Handshake_await_resume :: "bool \<Rightarrow> handshake_aw \<Rightarrow> int" where
  "Handshake_await_resume timeout aw =
     (if timeout then - 1 else if ha_ret aw = 1 then SSL_ERROR_NONE else ha_error aw)"

text \<open>One round of a handshake: the call, and whether the timeout came before the descriptor was ready.\<close>

definition handshake_round :: "ssl_call \<times> bool \<Rightarrow> int" where
  "handshake_round x = (case Handshake_await_ready (fst x) handshake_aw_init of (now, aw) \<Rightarrow>
     if now then Handshake_await_resume False aw else Handshake_await_resume (snd x) aw)"

text \<open>The loop: \<open>None\<close> while it goes on, then whether it ended with \<open>SSL_ERROR_NONE\<close>.\<close>

fun handshake_loop :: "(ssl_call \<times> bool) list \<Rightarrow> bool option" where
  "handshake_loop [] = None"
| "handshake_loop (x # xs) =
     (let ret = handshake_round x in
      if ret = SSL_ERROR_NONE then Some True
      else if ret \<noteq> SSL_ERROR_WANT_READ \<and> ret \<noteq> SSL_ERROR_WANT_WRITE then Some False
      else handshake_loop xs)"

definition Client_DoHandshake :: "(ssl_call \<times> bool) list \<Rightarrow> bool option" where
  "Client_DoHandshake xs = handshake_loop xs"

text \<open>\<open>TcpClient::Connect\<close>: the event it ends with, \<open>None\<close> while the handshake goes on.\<close>

definition Ssl_Client_Connect ::
    "int \<times> int \<times> bool \<Rightarrow> bool \<Rightarrow> (ssl_call \<times> bool) list \<Rightarrow> BasicSocket \<Rightarrow> (client_event \<times> BasicSocket) option" where
  "Ssl_Client_Connect r enableSSL xs s = (case Client_Connect r s of (ev, s1) \<Rightarrow>
     if ev = OnConnect \<and> enableSSL
     then map_option (\<lambda>ok. (if ok then OnConnect else OnConnectFailed, s1)) (Client_DoHandshake xs)
     else Some (ev, s1))"

record 'h ssl_net =
  ssl_net :: "'h net"
  ssl_live :: "nat set"

text \<open>The guard of the server's \<open>DoHandshake\<close>: it runs on every return. A null object is not freed.\<close>

definition handshake_guard :: "bool \<Rightarrow> nat \<Rightarrow> nat option \<Rightarrow> int \<Rightarrow> 'h ssl_net \<Rightarrow> int \<times> 'h ssl_net" where
  "handshake_guard failed sv ssl sockfd n =
     (let n1 = n\<lparr>ssl_net := stop_all sv sockfd (ssl_net n)\<rparr> in
      if failed then (- 1, n1\<lparr>ssl_live := (case ssl of None \<Rightarrow> ssl_live n1 | Some o1 \<Rightarrow> ssl_live n1 - {o1}),
                              ssl_net := close_fd sockfd (ssl_net n1)\<rparr>)
      else (sockfd, n1))"

text \<open>\<open>DoHandshake\<close> of the acceptor: the object \<open>SSL_new\<close> returned, whether \<open>SSL_set_fd\<close> succeeded, and the rounds. The
  result is the object returned, the descriptor as the caller finds it, and the process; \<open>None\<close> while it goes on.\<close>

definition Server_DoHandshake ::
    "nat option \<Rightarrow> bool \<Rightarrow> (ssl_call \<times> bool) list \<Rightarrow> nat \<Rightarrow> int \<Rightarrow> 'h ssl_net \<Rightarrow> (nat option \<times> int \<times> 'h ssl_net) option" where
  "Server_DoHandshake new_ssl set_fd_ok xs sv sockfd n =
     (let n1 = (case new_ssl of None \<Rightarrow> n | Some o1 \<Rightarrow> n\<lparr>ssl_live := insert o1 (ssl_live n)\<rparr>) in
      case new_ssl of
        None \<Rightarrow> Some (None, handshake_guard True sv None sockfd n1)
      | Some o1 \<Rightarrow>
          if \<not> set_fd_ok then Some (None, handshake_guard True sv new_ssl sockfd n1)
          else case handshake_loop xs of
              None \<Rightarrow> None
            | Some ok \<Rightarrow> Some (if ok then Some o1 else None, handshake_guard (\<not> ok) sv new_ssl sockfd n1))"

section \<open>Sockets with an SSL object\<close>

record SslSocket =
  ss_sock :: BasicSocket
  ss_ssl :: "nat option"

definition ssl_free :: "nat option \<Rightarrow> 'h ssl_net \<Rightarrow> 'h ssl_net" where
  "ssl_free ssl n = (case ssl of None \<Rightarrow> n | Some o1 \<Rightarrow> n\<lparr>ssl_live := ssl_live n - {o1}\<rparr>)"

definition SslSocket_destroy :: "SslSocket \<Rightarrow> 'h ssl_net \<Rightarrow> 'h ssl_net result" where
  "SslSocket_destroy s n = bind_result (Socket_destroy (ss_sock s) (ssl_net (ssl_free (ss_ssl s) n)))
     (\<lambda>n'. Inr ((ssl_free (ss_ssl s) n)\<lparr>ssl_net := n'\<rparr>))"

definition SslSocket_assign :: "SslSocket \<Rightarrow> SslSocket \<Rightarrow> 'h ssl_net \<Rightarrow> (SslSocket \<times> SslSocket \<times> 'h ssl_net) result" where
  "SslSocket_assign this other n = bind_result (Socket_assign (ss_sock this) (ss_sock other) (ssl_net n)) (\<lambda>(t, o1, n').
     Inr (\<lparr>ss_sock = t, ss_ssl = ss_ssl other\<rparr>, \<lparr>ss_sock = o1, ss_ssl = None\<rparr>, n\<lparr>ssl_net := n'\<rparr>))"

text \<open>\<open>Accept\<close> after \<open>AcceptAwaitable\<close> returned a descriptor, with SSL enabled; \<open>None\<close> while the handshake goes on.\<close>

definition Ssl_Accept ::
    "bool \<Rightarrow> nat option \<Rightarrow> bool \<Rightarrow> (ssl_call \<times> bool) list \<Rightarrow> nat \<Rightarrow> int \<Rightarrow> IpAddress \<Rightarrow> IpAddress \<Rightarrow> 'h ssl_net
     \<Rightarrow> (SslSocket \<times> 'h ssl_net) result option" where
  "Ssl_Accept ctl_ok new_ssl set_fd_ok xs sv sockfd local addr n =
     (case Server_DoHandshake new_ssl set_fd_ok xs sv sockfd (n\<lparr>ssl_net := open_fd sockfd (ssl_net n)\<rparr>) of
        None \<Rightarrow> None
      | Some (ssl, fd, n1) \<Rightarrow> Some (bind_result (TcpSocket_accepted ctl_ok sv local addr fd (ssl_net n1)) (\<lambda>(s, n2).
          Inr (\<lparr>ss_sock = s, ss_ssl = ssl\<rparr>, n1\<lparr>ssl_net := n2\<rparr>))))"

section \<open>Writing\<close>

text \<open>\<open>WriteAwaitable\<close> with an SSL object.\<close>

definition SslWrite_await_ready :: "bool \<Rightarrow> ssl_call \<Rightarrow> awaitable \<Rightarrow> bool \<times> awaitable" where
  "SslWrite_await_ready conn r aw =
     (if \<not> conn then (True, aw)
      else let aw1 = aw\<lparr>aw_ret := fst r, aw_ready := aw_ready aw \<or> fst r > 0 \<or> snd r \<noteq> SSL_ERROR_WANT_WRITE\<rparr> in (aw_ready aw1, aw1))"

definition SslWrite_await_resume :: "bool \<Rightarrow> int \<Rightarrow> awaitable \<Rightarrow> int" where
  "SslWrite_await_resume conn ret aw =
     (if \<not> conn \<or> aw_timeout aw then - 1 else if aw_ready aw then aw_ret aw else ret)"

section \<open>Reading\<close>

text \<open>\<open>ReadAwaitable\<close> with an SSL object is always suspended and spawns a loop of \<open>SSLReadAwaitable\<close>s; both share the
  value and the flag \<open>second\<close>, that the read has returned.\<close>

datatype read_loop_state = LoopSpawned | LoopSuspended | LoopOver

record ssl_read =
  sr_first :: int
  sr_second :: bool
  sr_loop :: read_loop_state
  sr_watched :: bool
  sr_armed :: bool
  sr_results :: "sys list"

definition ssl_read_start :: ssl_read where
  "ssl_read_start = \<lparr>sr_first = 0, sr_second = False, sr_loop = LoopSpawned, sr_watched = False, sr_armed = True, sr_results = []\<rparr>"

text \<open>\<open>await_resume\<close> of the outer awaitable.\<close>

definition ssl_read_resume :: "bool \<Rightarrow> bool \<Rightarrow> ssl_read \<Rightarrow> ssl_read" where
  "ssl_read_resume timeout conn s = s\<lparr>sr_second := True, sr_armed := False, sr_results := sr_results s
     @ [if \<not> conn \<or> timeout then (- 1, if timeout then ETIMEDOUT else ENOTCONN) else (sr_first s, 0)]\<rparr>"

text \<open>\<open>SSLReadAwaitable::await_ready\<close>.\<close>

definition SSLRead_await_ready :: "ssl_call \<Rightarrow> bool" where
  "SSLRead_await_ready r \<longleftrightarrow> fst r \<ge> 0 \<or> snd r \<noteq> SSL_ERROR_WANT_READ"

text \<open>A \<open>SSLReadAwaitable\<close> has the value \<open>v\<close>, of which \<open>SSL_get_error\<close> says \<open>e\<close>: the loop goes on or resumes the reader.
  When it goes on it calls \<open>SSL_read\<close> again at once, and so on over \<open>calls_next\<close>, until a call does not return at once;
  \<open>calls_next\<close> ends with such a call.\<close>

fun ssl_read_loop :: "bool \<Rightarrow> ssl_call \<Rightarrow> ssl_call list \<Rightarrow> ssl_read \<Rightarrow> ssl_read" where
  "ssl_read_loop conn (v, e) calls_next s =
     (if v = - 1 \<and> e = SSL_ERROR_WANT_READ then
        (if sr_second s then s\<lparr>sr_first := 0, sr_loop := LoopOver\<rparr>
         else case calls_next of
            [] \<Rightarrow> s\<lparr>sr_first := 0, sr_loop := LoopSuspended, sr_watched := True\<rparr>
          | r # rs \<Rightarrow> if SSLRead_await_ready r then ssl_read_loop conn (if conn then r else (- 1, snd r)) rs (s\<lparr>sr_first := 0\<rparr>)
                      else s\<lparr>sr_first := 0, sr_loop := LoopSuspended, sr_watched := True\<rparr>)
      else let s1 = s\<lparr>sr_first := v, sr_loop := LoopOver\<rparr>
           in if sr_second s1 then s1 else ssl_read_resume False conn s1)"

declare ssl_read_loop.simps [simp del]

datatype ssl_event = LoopStarts bool ssl_call "ssl_call list" | SslReady bool ssl_call "ssl_call list" | SslTimer bool

definition ssl_read_step :: "ssl_event \<Rightarrow> ssl_read \<Rightarrow> ssl_read" where
  "ssl_read_step ev s = (case ev of
      LoopStarts conn r calls_next \<Rightarrow>
        (if sr_loop s \<noteq> LoopSpawned then s
         else if sr_second s then s\<lparr>sr_loop := LoopOver\<rparr>
         else if SSLRead_await_ready r then ssl_read_loop conn (if conn then r else (- 1, snd r)) calls_next s
         else s\<lparr>sr_loop := LoopSuspended, sr_watched := True\<rparr>)
    | SslReady conn r calls_next \<Rightarrow>
        (if sr_loop s = LoopSuspended \<and> sr_watched s
         then ssl_read_loop conn (if conn then r else (- 1, snd r)) calls_next (s\<lparr>sr_watched := False\<rparr>) else s)
    | SslTimer conn \<Rightarrow>
        (if sr_armed s then (ssl_read_resume True conn (s\<lparr>sr_watched := False\<rparr>)) else s))"

fun ssl_read_steps :: "ssl_event list \<Rightarrow> ssl_read \<Rightarrow> ssl_read" where
  "ssl_read_steps [] s = s"
| "ssl_read_steps (e # es) s = ssl_read_steps es (ssl_read_step e s)"

section \<open>Lemmas\<close>

lemma handshake_round_result:
  "handshake_round (r, timed_out) =
     (if fst r = 1 then SSL_ERROR_NONE
      else if snd r = SSL_ERROR_WANT_READ \<or> snd r = SSL_ERROR_WANT_WRITE then (if timed_out then - 1 else snd r)
      else snd r)"
  by (simp add: handshake_round_def Handshake_await_ready_def Handshake_await_resume_def handshake_aw_init_def Let_def ssl_errors)

text \<open>A round that asks for another, in time.\<close>

definition wants_more :: "ssl_call \<times> bool \<Rightarrow> bool" where
  "wants_more x \<longleftrightarrow> fst (fst x) \<noteq> 1 \<and> (snd (fst x) = SSL_ERROR_WANT_READ \<or> snd (fst x) = SSL_ERROR_WANT_WRITE) \<and> \<not> snd x"

lemma handshake_loop_result:
  "handshake_loop xs = (case dropWhile wants_more xs of [] \<Rightarrow> None | x # _ \<Rightarrow> Some (handshake_round x = SSL_ERROR_NONE))"
proof (induction xs)
  case (Cons x xs)
  obtain r t where x: "x = (r, t)" by (cases x)
  show ?case
    using Cons by (auto simp: x handshake_round_result wants_more_def ssl_errors Let_def)
qed simp

definition ssl_read_inv :: "ssl_read \<Rightarrow> bool" where
  "ssl_read_inv s \<longleftrightarrow> (if sr_second s then length (sr_results s) = 1 \<and> \<not> sr_armed s else sr_results s = [] \<and> sr_armed s \<and> sr_loop s \<noteq> LoopOver
     \<and> (sr_loop s = LoopSuspended \<longrightarrow> sr_watched s))"

lemma ssl_read_inv_loop:
  "sr_armed s \<longleftrightarrow> \<not> sr_second s \<Longrightarrow> (if sr_second s then length (sr_results s) = 1 else sr_results s = []) \<Longrightarrow>
   ssl_read_inv (ssl_read_loop conn r calls_next s)"
proof (induction conn r calls_next s rule: ssl_read_loop.induct)
  case (1 conn v e calls_next s)
  show ?case
  proof (cases "v = - 1 \<and> e = SSL_ERROR_WANT_READ \<and> \<not> sr_second s")
    case True
    show ?thesis
    proof (cases calls_next)
      case Nil
      then show ?thesis using True "1.prems" by (subst ssl_read_loop.simps) (simp add: ssl_read_inv_def)
    next
      case (Cons r rs)
      show ?thesis
      proof (cases "SSLRead_await_ready r")
        case go: True
        have "ssl_read_inv (ssl_read_loop conn (if conn then r else (- 1, snd r)) rs (s\<lparr>sr_first := 0\<rparr>))"
          by (rule "1.IH") (use True Cons go "1.prems" in simp_all)
        then show ?thesis using True Cons go by (subst ssl_read_loop.simps) simp
      qed (use True Cons "1.prems" in \<open>subst ssl_read_loop.simps, simp add: ssl_read_inv_def\<close>)
    qed
  next
    case False
    then show ?thesis using "1.prems"
      by (subst ssl_read_loop.simps) (auto simp: ssl_read_inv_def ssl_read_resume_def Let_def split: if_splits)
  qed
qed

lemma ssl_read_inv_step: "ssl_read_inv s \<Longrightarrow> ssl_read_inv (ssl_read_step ev s)"
proof (cases ev)
  case (SslTimer conn)
  assume "ssl_read_inv s"
  then show ?thesis by (auto simp: SslTimer ssl_read_step_def ssl_read_inv_def ssl_read_resume_def split: if_splits)
next
  case (SslReady conn r calls_next)
  assume i: "ssl_read_inv s"
  have "ssl_read_inv (ssl_read_loop conn x calls_next (s\<lparr>sr_watched := False\<rparr>))" for x
    by (rule ssl_read_inv_loop) (use i in \<open>auto simp: ssl_read_inv_def split: if_splits\<close>)
  then show ?thesis using i by (simp add: SslReady ssl_read_step_def)
next
  case (LoopStarts conn r calls_next)
  assume i: "ssl_read_inv s"
  have "ssl_read_inv (ssl_read_loop conn x calls_next s)" for x
    by (rule ssl_read_inv_loop) (use i in \<open>auto simp: ssl_read_inv_def split: if_splits\<close>)
  then show ?thesis using i by (auto simp: LoopStarts ssl_read_step_def) (auto simp: ssl_read_inv_def split: if_splits)
qed

lemma ssl_read_inv_steps: "ssl_read_inv s \<Longrightarrow> ssl_read_inv (ssl_read_steps es s)"
  by (induction es arbitrary: s) (simp_all add: ssl_read_inv_step)

definition handshake_succeeds :: "(ssl_call \<times> bool) list \<Rightarrow> bool" where
  "handshake_succeeds xs \<longleftrightarrow> (case dropWhile wants_more xs of [] \<Rightarrow> False | x # _ \<Rightarrow> handshake_round x = SSL_ERROR_NONE)"

lemma handshake_loop_Some: "handshake_loop xs = Some ok \<Longrightarrow> handshake_succeeds xs = ok"
  by (cases "dropWhile wants_more xs") (simp_all add: handshake_loop_result handshake_succeeds_def)

lemma handshake_loop_None: "handshake_loop xs = None \<longleftrightarrow> (\<forall>x \<in> set xs. wants_more x)"
  unfolding dropWhile_eq_Nil_conv [symmetric]
  by (cases "dropWhile wants_more xs") (simp_all add: handshake_loop_result del: dropWhile_eq_Nil_conv)

lemma Server_DoHandshake_cases:
  assumes "Server_DoHandshake new_ssl set_fd_ok xs sv sockfd n = Some (ssl, fd, n')"
    and "\<forall>o1. new_ssl = Some o1 \<longrightarrow> o1 \<notin> ssl_live n" "sockfd \<in> net_open (ssl_net n)"
  shows "if new_ssl \<noteq> None \<and> set_fd_ok \<and> handshake_succeeds xs
     then ssl = new_ssl \<and> fd = sockfd \<and> ssl_net n' = stop_all sv sockfd (ssl_net n) \<and> ssl_live n' = ssl_live n \<union> set_option new_ssl
     else ssl = None \<and> fd = - 1 \<and> ssl_net n' = close_fd sockfd (stop_all sv sockfd (ssl_net n)) \<and> ssl_live n' = ssl_live n"
  using assms
  by (auto simp: Server_DoHandshake_def handshake_guard_def Let_def dest: handshake_loop_Some split: option.splits if_splits)

lemma Server_DoHandshake_None:
  "Server_DoHandshake new_ssl set_fd_ok xs sv sockfd n = None \<longleftrightarrow> new_ssl \<noteq> None \<and> set_fd_ok \<and> (\<forall>x \<in> set xs. wants_more x)"
  by (auto simp: Server_DoHandshake_def handshake_loop_None [symmetric] Let_def split: option.splits)

text \<open>After the guard the descriptor is watched by nobody, so the new socket adds it to epoll.\<close>

lemma accepted_after_stop:
  assumes "0 \<le> fd" "ioEvents (services n sv) fd = None"
  shows "\<exists>n'. TcpSocket_accepted ctl_ok sv local addr fd n =
     (if ctl_ok then Inr ((BasicSocket_of sv local addr fd)\<lparr>connected := True\<rparr>, n') else Inl Abort) \<and> net_open n' = net_open n"
  using assms by (auto simp: TcpSocket_accepted_def listen_read_def ListenReadEvent_def Let_def intro: exI [of _ n])

section \<open>Properties\<close>

text \<open>C13: An SSL accept leaks nothing. However the handshake of an accepted connection goes (no SSL object, a failed
  \<open>SSL_set_fd\<close>, any number of rounds, an error, a timeout), when \<open>Accept\<close> returns, its socket is connected and owns the
  descriptor and the SSL object exactly when the first round that did not ask for another reported success;
  otherwise the socket is not valid, and the descriptor is closed and the object freed, and no others. A handshake that has
  not ended keeps \<open>Accept\<close> from returning; an epoll that refuses the new descriptor ends the process.\<close>

theorem ssl_accept_owns:
  assumes "0 \<le> sockfd" "sockfd \<notin> net_open (ssl_net n)" "\<forall>o1. new_ssl = Some o1 \<longrightarrow> o1 \<notin> ssl_live n"
  shows "case Ssl_Accept ctl_ok new_ssl set_fd_ok xs sv sockfd local addr n of
      None \<Rightarrow> new_ssl \<noteq> None \<and> set_fd_ok \<and> (\<forall>x \<in> set xs. wants_more x)
    | Some (Inl e) \<Rightarrow> \<not> ctl_ok \<and> e = Abort
    | Some (Inr (s, n')) \<Rightarrow>
        (if new_ssl \<noteq> None \<and> set_fd_ok \<and> handshake_succeeds xs
         then IsValid (ss_sock s) \<and> connected (ss_sock s) \<and> sock_fd (ss_sock s) = sockfd \<and> ss_ssl s = new_ssl
           \<and> net_open (ssl_net n') = insert sockfd (net_open (ssl_net n)) \<and> ssl_live n' = ssl_live n \<union> set_option new_ssl
         else \<not> IsValid (ss_sock s) \<and> ss_ssl s = None \<and> net_open (ssl_net n') = net_open (ssl_net n) \<and> ssl_live n' = ssl_live n)"
proof -
  let ?n = "n\<lparr>ssl_net := open_fd sockfd (ssl_net n)\<rparr>"
  have op: "net_open (ssl_net ?n) = insert sockfd (net_open (ssl_net n))" using assms(1) by (simp add: open_fd_def)
  show ?thesis
  proof (cases "Server_DoHandshake new_ssl set_fd_ok xs sv sockfd ?n")
    case None
    then have "new_ssl \<noteq> None \<and> set_fd_ok \<and> (\<forall>x \<in> set xs. wants_more x)" by (rule Server_DoHandshake_None [THEN iffD1])
    moreover have "Ssl_Accept ctl_ok new_ssl set_fd_ok xs sv sockfd local addr n = None"
      using None by (simp add: Ssl_Accept_def)
    ultimately show ?thesis by auto
  next
    case (Some r)
    obtain ssl fd n1 where r: "r = (ssl, fd, n1)" by (cases r)
    note c = Server_DoHandshake_cases [OF Some [unfolded r]]
    show ?thesis
    proof (cases "new_ssl \<noteq> None \<and> set_fd_ok \<and> handshake_succeeds xs")
      case True
      then have "ssl = new_ssl" "fd = sockfd" "ssl_net n1 = stop_all sv sockfd (ssl_net ?n)"
          "ssl_live n1 = ssl_live n \<union> set_option new_ssl"
        using c assms(3) op by auto
      moreover obtain n2 where "TcpSocket_accepted ctl_ok sv local addr sockfd (stop_all sv sockfd (ssl_net ?n)) =
         (if ctl_ok then Inr ((BasicSocket_of sv local addr sockfd)\<lparr>connected := True\<rparr>, n2) else Inl Abort)"
         "net_open n2 = insert sockfd (net_open (ssl_net n))"
        using accepted_after_stop [OF assms(1), of "stop_all sv sockfd (ssl_net ?n)" sv ctl_ok local addr] op
        by (auto simp: stop_all_dom)
      ultimately show ?thesis using True assms(1) unfolding Ssl_Accept_def Some r
        by (simp add: IsValid_def BasicSocket_of_def)
    next
      case False
      then have "ssl = None" "fd = - 1" "ssl_net n1 = close_fd sockfd (stop_all sv sockfd (ssl_net ?n))" "ssl_live n1 = ssl_live n"
        using c assms(3) op by auto
      moreover have "net_open (close_fd sockfd (stop_all sv sockfd (ssl_net ?n))) = net_open (ssl_net n)"
        using assms(1,2) op by (simp add: close_fd_def)
      ultimately show ?thesis using False unfolding Ssl_Accept_def Some r
        by (simp add: TcpSocket_accepted_def IsValid_def BasicSocket_of_def Let_def)
    qed
  qed
qed

definition demo_ssl_net :: "nat ssl_net" where
  "demo_ssl_net = \<lparr>ssl_net = demo_net, ssl_live = {}\<rparr>"

theorem ssl_accept_owns_witness:
  "case Ssl_Accept True (Some 1) True [((- 1, SSL_ERROR_WANT_READ), False), ((1, 0), False)] 0 7 IpAddress_default IpAddress_default demo_ssl_net of
     Some (Inr (s, n')) \<Rightarrow> IsValid (ss_sock s) \<and> net_open (ssl_net n') = {7} \<and> ssl_live n' = {1} | _ \<Rightarrow> False"
proof -
  let ?xs = "[((- 1, SSL_ERROR_WANT_READ), False), ((1, 0), False)] :: (ssl_call \<times> bool) list"
  have ok: "handshake_succeeds ?xs" "\<not> (\<forall>x \<in> set ?xs. wants_more x)"
    by (simp_all add: handshake_succeeds_def wants_more_def handshake_round_result)
  show ?thesis
    using ssl_accept_owns [where sockfd = 7 and n = demo_ssl_net and new_ssl = "Some 1" and ctl_ok = True and set_fd_ok = True
        and xs = ?xs and sv = 0 and local = IpAddress_default and addr = IpAddress_default] ok
    by (auto simp: demo_ssl_net_def demo_net_def split: option.splits sum.splits)
qed

text \<open>C14: An SSL read finishes once. The reader, its timer and the spawned loop share their state; whatever the loop,
  the descriptor and the timer do, in whatever order and however often OpenSSL asks for more, the reader is resumed at most
  once; it has been resumed exactly when its timer is disarmed, and until then the loop is alive, and watched by
  epoll when it is suspended.\<close>

theorem ssl_read_once:
  defines "s es \<equiv> ssl_read_steps es ssl_read_start"
  shows "length (sr_results (s es)) \<le> 1 \<and> (sr_results (s es) = [] \<longleftrightarrow> sr_armed (s es))
     \<and> (sr_armed (s es) \<longrightarrow> sr_loop (s es) \<noteq> LoopOver \<and> (sr_loop (s es) = LoopSuspended \<longrightarrow> sr_watched (s es)))"
proof -
  have "ssl_read_inv ssl_read_start" by (simp add: ssl_read_inv_def ssl_read_start_def)
  then have "ssl_read_inv (s es)" unfolding s_def by (rule ssl_read_inv_steps)
  then show ?thesis by (auto simp: ssl_read_inv_def split: if_splits)
qed

theorem ssl_read_once_witness:
  "length (sr_results (ssl_read_steps [SslTimer True, LoopStarts True (5, 0) []] ssl_read_start)) = 1"
  using ssl_read_once [of "[SslTimer True, LoopStarts True (5, 0) []]"]
  by (auto simp: ssl_read_step_def ssl_read_start_def ssl_read_resume_def)

section \<open>What is left behind\<close>

text \<open>Assigning over a socket drops its SSL object without freeing it.\<close>

lemma assign_leaks_ssl:
  assumes "SslSocket_assign this other n = Inr (this', other', n')" "ss_ssl this = Some o1" "ss_ssl other \<noteq> Some o1" "o1 \<in> ssl_live n"
  shows "o1 \<in> ssl_live n' \<and> ss_ssl this' \<noteq> Some o1 \<and> ss_ssl other' \<noteq> Some o1"
  using assms by (auto simp: SslSocket_assign_def bind_result_eq_Inr)

text \<open>A read that times out while its loop is suspended stops the watching of the descriptor: nothing resumes the loop again, and
  its frame stays with the service.\<close>

lemma timeout_abandons_loop:
  assumes "sr_loop s = LoopSuspended" "sr_armed s"
  shows "ssl_read_steps es (ssl_read_step (SslTimer conn) s) = ssl_read_step (SslTimer conn) s"
proof (induction es)
  case (Cons e es)
  then show ?case using assms by (cases e) (simp_all add: ssl_read_step_def ssl_read_resume_def)
qed simp

text \<open>A write that OpenSSL interrupts to read first (\<open>SSL_ERROR_WANT_READ\<close>) is reported as failed.\<close>

lemma write_wants_read:
  "run_await (SslWrite_await_ready True (- 1, SSL_ERROR_WANT_READ)) (SslWrite_await_resume True ret) timed_out = (False, - 1)"
  by (simp add: run_await_def SslWrite_await_ready_def SslWrite_await_resume_def aw_init_def ssl_errors)

text \<open>A client whose handshake fails is told that the connection failed, with the socket still connected.\<close>

lemma handshake_failure_stays_connected:
  assumes "Client_DoHandshake xs = Some False"
  shows "Ssl_Client_Connect (0, 0, True) True xs s = Some (OnConnectFailed, s\<lparr>connected := True\<rparr>)"
  using assms by (simp add: Ssl_Client_Connect_def Client_Connect_def)

text \<open>The rounds of a handshake each have their own timeout, so a peer that answers just in time keeps the acceptor in
  the handshake for ever, and no other connection is accepted.\<close>

lemma slow_peer_stops_accepting:
  "Ssl_Accept ctl_ok (Some o1) True (replicate k ((- 1, SSL_ERROR_WANT_READ), False)) sv sockfd local addr n = None"
proof -
  have "Server_DoHandshake (Some o1) True (replicate k ((- 1, SSL_ERROR_WANT_READ), False)) sv sockfd (n\<lparr>ssl_net := open_fd sockfd (ssl_net n)\<rparr>) = None"
    by (rule Server_DoHandshake_None [THEN iffD2]) (simp add: wants_more_def)
  then show ?thesis by (simp add: Ssl_Accept_def)
qed

end
