(* ===== verification/ServletContext.thy ===== *)
theory ServletContext
  imports HttpServer Socket
begin

text \<open>
  \<open>ServletContext.h\<close> (the attributes, the host and the way to the sessions; \<open>ForwardTo\<close> is in \<open>Router\<close>) and the
  configuration of a server: the setters of \<open>HttpServer.h\<close>, guarded by \<open>assert(!IsStarted())\<close>.

  \<^item> \<open>GetAttribute\<close> returns a \<open>std::string_view\<close>, so a value has an address: a map from keys to buffers, and the buffers. Assigning
    to the value of a key, as \<open>SetAttribute\<close> does, ends the life of its buffer, and so does erasing the key.
  \<^item> The mutex makes every operation one step. A view is read after the guard is gone, at any later time.
\<close>

section \<open>The context\<close>

record 'v ServletContext =
  sc_host :: string
  sc_attributes :: "nat smap"
  sc_buffers :: "nat \<rightharpoonup> string"
  sc_fresh :: nat
  sc_sessionManager :: "'v HttpSessionManager"

definition ServletContext_init :: "'v HttpSessionManager \<Rightarrow> 'v ServletContext" where
  "ServletContext_init mgr = \<lparr>sc_host = [], sc_attributes = [], sc_buffers = Map.empty, sc_fresh = 0, sc_sessionManager = mgr\<rparr>"

text \<open>A view: a buffer, or the literal \<open>""\<close>.\<close>

definition read_view :: "nat option \<Rightarrow> 'v ServletContext \<Rightarrow> string result" where
  "read_view view c = (case view of None \<Rightarrow> Inr [] | Some b \<Rightarrow> (case sc_buffers c b of None \<Rightarrow> Inl Undefined | Some s \<Rightarrow> Inr s))"

definition Context_HasAttribute :: "string \<Rightarrow> 'v ServletContext \<Rightarrow> bool" where
  "Context_HasAttribute key c \<longleftrightarrow> smap_contains (sc_attributes c) key"

definition Context_GetAttribute :: "string \<Rightarrow> 'v ServletContext \<Rightarrow> nat option" where
  "Context_GetAttribute key c = smap_get (sc_attributes c) key"

definition drop_buffer :: "string \<Rightarrow> 'v ServletContext \<Rightarrow> (nat \<rightharpoonup> string)" where
  "drop_buffer key c = (case smap_get (sc_attributes c) key of None \<Rightarrow> sc_buffers c | Some b \<Rightarrow> (sc_buffers c)(b := None))"

definition Context_SetAttribute :: "string \<Rightarrow> string \<Rightarrow> 'v ServletContext \<Rightarrow> 'v ServletContext" where
  "Context_SetAttribute key v c = c\<lparr>sc_attributes := smap_set (sc_attributes c) key (sc_fresh c),
     sc_buffers := (drop_buffer key c)(sc_fresh c \<mapsto> v), sc_fresh := sc_fresh c + 1\<rparr>"

definition Context_RemoveAttribute :: "string \<Rightarrow> 'v ServletContext \<Rightarrow> 'v ServletContext" where
  "Context_RemoveAttribute key c = c\<lparr>sc_attributes := smap_erase (sc_attributes c) key, sc_buffers := drop_buffer key c\<rparr>"

definition Context_GetSession :: "string \<Rightarrow> 'v ServletContext \<Rightarrow> nat option" where
  "Context_GetSession sessionId c = Manager_GetSession sessionId (sc_sessionManager c)"

definition Context_CreateSession :: "string \<Rightarrow> 'v ServletContext \<Rightarrow> nat \<times> 'v ServletContext" where
  "Context_CreateSession uuid c = (case CreateSession uuid (sc_sessionManager c) of (a, mgr) \<Rightarrow> (a, c\<lparr>sc_sessionManager := mgr\<rparr>))"

section \<open>The configuration of a server\<close>

text \<open>\<open>started_\<close> beside the server; \<open>assert(!IsStarted())\<close>.\<close>

type_synonym ('v, 'c) server_state = "bool \<times> ('v, 'c) HttpServer"

definition configure :: "(('v, 'c) HttpServer \<Rightarrow> ('v, 'c) HttpServer result) \<Rightarrow> ('v, 'c) server_state \<Rightarrow> ('v, 'c) server_state result" where
  "configure f s = (if fst s then Inl AssertFail else bind_result (f (snd s)) (\<lambda>srv. Inr (False, srv)))"

definition SetDispatcherServlet :: "('v, 'c) exchange router \<Rightarrow> ('v, 'c) server_state \<Rightarrow> ('v, 'c) server_state result" where
  "SetDispatcherServlet servlet = configure (\<lambda>srv. Inr (srv\<lparr>hs_router := servlet\<rparr>))"

definition SetDefaultServlet :: "('v, 'c) exchange servlet_fun \<Rightarrow> ('v, 'c) server_state \<Rightarrow> ('v, 'c) server_state result" where
  "SetDefaultServlet servlet = configure (\<lambda>srv. Inr (srv\<lparr>hs_defaultServlet := servlet\<rparr>))"

definition Server_AddServlet :: "string \<Rightarrow> ('v, 'c) exchange servlet_fun \<Rightarrow> ('v, 'c) server_state \<Rightarrow> ('v, 'c) server_state result" where
  "Server_AddServlet url servlet = configure (\<lambda>srv.
     bind_result (AddServletRoute url servlet (hs_router srv)) (\<lambda>r. Inr (srv\<lparr>hs_router := r\<rparr>)))"

definition Server_AddHandler :: "string \<Rightarrow> ('v, 'c) exchange servlet_fun option \<Rightarrow> ('v, 'c) server_state \<Rightarrow> ('v, 'c) server_state result" where
  "Server_AddHandler url handle = configure (\<lambda>srv.
     bind_result (AddServletRoute url (FunctionHttpServlet_Handle handle) (hs_router srv)) (\<lambda>r. Inr (srv\<lparr>hs_router := r\<rparr>)))"

definition Server_AddFilter :: "string \<Rightarrow> ('v, 'c) exchange filter_fun \<Rightarrow> ('v, 'c) server_state \<Rightarrow> ('v, 'c) server_state result" where
  "Server_AddFilter url f = configure (\<lambda>srv.
     bind_result (AddFilterRoute url f (hs_router srv)) (\<lambda>r. Inr (srv\<lparr>hs_router := r\<rparr>)))"

definition Server_AddErrorPageHandler :: "nat \<Rightarrow> page \<Rightarrow> ('v, 'c) server_state \<Rightarrow> ('v, 'c) server_state result" where
  "Server_AddErrorPageHandler status callback = configure (\<lambda>srv. Inr (AddErrorPageHandler status callback srv))"

definition SetDefaultErrorPageHandler :: "page \<Rightarrow> ('v, 'c) server_state \<Rightarrow> ('v, 'c) server_state result" where
  "SetDefaultErrorPageHandler callback = configure (\<lambda>srv. Inr (srv\<lparr>hs_defaultErrorPage := callback\<rparr>))"

definition SetWebSocketServer :: "bool \<Rightarrow> ('v, 'c) server_state \<Rightarrow> ('v, 'c) server_state result" where
  "SetWebSocketServer present = configure (\<lambda>srv. Inr (srv\<lparr>hs_webSocket := present\<rparr>))"

section \<open>Lemmas\<close>

text \<open>Every key has its own live buffer, and buffers are named before \<open>sc_fresh\<close>.\<close>

definition context_ok :: "'v ServletContext \<Rightarrow> bool" where
  "context_ok c \<longleftrightarrow> (\<forall>k b. smap_get (sc_attributes c) k = Some b \<longrightarrow> b < sc_fresh c \<and> sc_buffers c b \<noteq> None)
     \<and> (\<forall>k k' b. smap_get (sc_attributes c) k = Some b \<longrightarrow> smap_get (sc_attributes c) k' = Some b \<longrightarrow> k = k')"

datatype context_op = CtxSet string string | CtxRemove string

fun context_step :: "context_op \<Rightarrow> 'v ServletContext \<Rightarrow> 'v ServletContext" where
  "context_step (CtxSet k v) c = Context_SetAttribute k v c"
| "context_step (CtxRemove k) c = Context_RemoveAttribute k c"

fun op_key :: "context_op \<Rightarrow> string" where
  "op_key (CtxSet k v) = k"
| "op_key (CtxRemove k) = k"

text \<open>The attributes as the application thinks of them.\<close>

definition context_view :: "'v ServletContext \<Rightarrow> string \<rightharpoonup> string" where
  "context_view c k = (case smap_get (sc_attributes c) k of None \<Rightarrow> None | Some b \<Rightarrow> sc_buffers c b)"

fun spec_step :: "context_op \<Rightarrow> (string \<rightharpoonup> string) \<Rightarrow> (string \<rightharpoonup> string)" where
  "spec_step (CtxSet k v) m = m(k \<mapsto> v)"
| "spec_step (CtxRemove k) m = m(k := None)"

lemma context_ok_init: "context_ok (ServletContext_init mgr)" "context_view (ServletContext_init mgr) = Map.empty"
  by (simp_all add: context_ok_def context_view_def ServletContext_init_def fun_eq_iff)

lemma context_okD:
  assumes "context_ok c" "smap_get (sc_attributes c) k = Some b"
  shows "b < sc_fresh c" "sc_buffers c b \<noteq> None" "smap_get (sc_attributes c) k' = Some b \<Longrightarrow> k' = k"
  using assms unfolding context_ok_def by blast+

lemma drop_buffer_other:
  "context_ok c \<Longrightarrow> smap_get (sc_attributes c) k' = Some b \<Longrightarrow> k' \<noteq> k \<Longrightarrow> drop_buffer k c b = sc_buffers c b"
  using context_okD(3) [of c k' b k] by (auto simp: drop_buffer_def split: option.splits)

lemma context_step_ok:
  assumes "context_ok c"
  shows "context_ok (context_step x c)" "context_view (context_step x c) = spec_step x (context_view c)"
proof -
  have ok: "b < sc_fresh c \<and> drop_buffer k c b \<noteq> None" if "smap_get (sc_attributes c) k' = Some b" "k' \<noteq> k" for k k' b
    using that context_okD(1,2) [OF assms that(1)] drop_buffer_other [OF assms that] by simp
  note uniq = context_okD(3) [OF assms] and lt = context_okD(1) [OF assms]
  show "context_ok (context_step x c)"
  proof (cases x)
    case (CtxSet k v)
    have "smap_get (sc_attributes c) k' \<noteq> Some (sc_fresh c)" for k' using lt [of k' "sc_fresh c"] by auto
    then show ?thesis using CtxSet ok [of _ _ k] uniq lt
      by (auto simp: context_ok_def Context_SetAttribute_def smap_get_set less_Suc_eq split: if_splits)
  next
    case (CtxRemove k)
    then show ?thesis using ok [of _ _ k] uniq
      by (auto simp: context_ok_def Context_RemoveAttribute_def smap_get_erase split: if_splits)
  qed
  show "context_view (context_step x c) = spec_step x (context_view c)"
  proof (cases x)
    case (CtxSet k v)
    then show ?thesis using drop_buffer_other [OF assms, of _ _ k] lt
      by (fastforce simp: context_view_def fun_eq_iff Context_SetAttribute_def smap_get_set split: option.splits)
  next
    case (CtxRemove k)
    then show ?thesis using drop_buffer_other [OF assms, of _ _ k]
      by (auto simp: context_view_def fun_eq_iff Context_RemoveAttribute_def smap_get_erase split: option.splits)
  qed
qed

lemma context_steps_ok:
  "context_ok c \<Longrightarrow> context_ok (fold context_step xs c) \<and> context_view (fold context_step xs c) = fold spec_step xs (context_view c)"
  by (induction xs arbitrary: c) (simp_all add: context_step_ok)

lemma read_view_now:
  assumes "context_ok c"
  shows "read_view (Context_GetAttribute k c) c = Inr (case context_view c k of None \<Rightarrow> [] | Some v \<Rightarrow> v)"
    "Context_HasAttribute k c \<longleftrightarrow> context_view c k \<noteq> None"
  using context_okD(2) [OF assms, of k]
  by (auto simp: read_view_def Context_GetAttribute_def Context_HasAttribute_def context_view_def smap_contains_def split: option.splits)

text \<open>A buffer that is gone stays gone; a buffer whose key is not touched stays.\<close>

lemma context_step_gone:
  "b < sc_fresh c \<Longrightarrow> sc_buffers c b = None \<Longrightarrow> b < sc_fresh (context_step x c) \<and> sc_buffers (context_step x c) b = None"
  by (cases x) (auto simp: Context_SetAttribute_def Context_RemoveAttribute_def drop_buffer_def split: option.splits)

lemma context_steps_gone: "b < sc_fresh c \<Longrightarrow> sc_buffers c b = None \<Longrightarrow> sc_buffers (fold context_step xs c) b = None"
  by (induction xs arbitrary: c) (simp_all add: context_step_gone)

lemma context_step_key:
  assumes "context_ok c" "smap_get (sc_attributes c) k = Some b"
  shows "op_key x = k \<Longrightarrow> b < sc_fresh (context_step x c) \<and> sc_buffers (context_step x c) b = None"
    and "op_key x \<noteq> k \<Longrightarrow> smap_get (sc_attributes (context_step x c)) k = Some b \<and> sc_buffers (context_step x c) b = sc_buffers c b"
  using context_okD(1) [OF assms] assms(2) drop_buffer_other [OF assms, of "op_key x"]
  by (cases x; simp add: Context_SetAttribute_def Context_RemoveAttribute_def smap_get_set smap_get_erase drop_buffer_def)+

lemma view_later:
  "context_ok c \<Longrightarrow> smap_get (sc_attributes c) k = Some b \<Longrightarrow>
   sc_buffers (fold context_step xs c) b = (if k \<in> op_key ` set xs then None else sc_buffers c b)"
proof (induction xs arbitrary: c)
  case (Cons x xs)
  show ?case
  proof (cases "op_key x = k")
    case True
    then show ?thesis using context_step_key(1) [OF Cons.prems True] context_steps_gone by auto
  next
    case False
    then show ?thesis using Cons.IH [OF context_step_ok(1) [OF Cons.prems(1)]] context_step_key(2) [OF Cons.prems False] by auto
  qed
qed simp

text \<open>The setters of a server that is not started.\<close>

lemma setters_before_start:
  "Server_AddServlet url f (False, srv) = Inr (False, srv\<lparr>hs_router := (hs_router srv)\<lparr>servletRouterRoot :=
      insert_parts None (\<lambda>_. Some f) (parts_of url) (servletRouterRoot (hs_router srv))\<rparr>\<rparr>)"
  "Server_AddHandler url g (False, srv) = Inr (False, srv\<lparr>hs_router := (hs_router srv)\<lparr>servletRouterRoot :=
      insert_parts None (\<lambda>_. Some (FunctionHttpServlet_Handle g)) (parts_of url) (servletRouterRoot (hs_router srv))\<rparr>\<rparr>)"
  "Server_AddFilter url k (False, srv) = Inr (False, srv\<lparr>hs_router := (hs_router srv)\<lparr>filterRouterRoot :=
      insert_parts [] (\<lambda>fs. fs @ [k]) (parts_of url) (filterRouterRoot (hs_router srv))\<rparr>\<rparr>)"
  "SetDefaultServlet f (False, srv) = Inr (False, srv\<lparr>hs_defaultServlet := f\<rparr>)"
  "SetWebSocketServer present (False, srv) = Inr (False, srv\<lparr>hs_webSocket := present\<rparr>)"
  by (simp_all add: configure_def Server_AddServlet_def Server_AddHandler_def Server_AddFilter_def SetDefaultServlet_def
      SetWebSocketServer_def AddServletRoute_def AddFilterRoute_def Servlet_Insert_def Filter_Insert_def Split_parts)

lemma FunctionHttpServlet_Some [simp]: "FunctionHttpServlet_Handle (Some f) = f"
  by (simp add: fun_eq_iff FunctionHttpServlet_Handle_def)

section \<open>Properties\<close>

text \<open>The attributes of the context are a map from strings to strings: after any sequence of \<open>SetAttribute\<close> and
  \<open>RemoveAttribute\<close>, \<open>HasAttribute\<close> and what \<open>GetAttribute\<close> returns, read at once, are those of the map. But the view that it returns is
  good only until its key is set or removed, which another thread may do as soon as \<open>GetAttribute\<close> has returned: exactly then
  reading it is undefined.\<close>

theorem context_attributes:
  assumes "c = fold context_step xs (ServletContext_init mgr)" "m = fold spec_step xs Map.empty"
  shows "(Context_HasAttribute k c \<longleftrightarrow> m k \<noteq> None)
    \<and> read_view (Context_GetAttribute k c) c = Inr (case m k of None \<Rightarrow> [] | Some v \<Rightarrow> v)
    \<and> (\<forall>v later. m k = Some v \<longrightarrow> read_view (Context_GetAttribute k c) (fold context_step later c)
         = (if k \<in> op_key ` set later then Inl Undefined else Inr v))"
proof -
  have ok: "context_ok c" "context_view c = m" using context_steps_ok [OF context_ok_init(1), of xs mgr] by (simp_all add: assms context_ok_init)
  have "read_view (Context_GetAttribute k c) (fold context_step later c) = (if k \<in> op_key ` set later then Inl Undefined else Inr v)"
    if "m k = Some v" for v later
  proof -
    have "context_view c k = Some v" using that ok(2) by simp
    then have "\<exists>b. smap_get (sc_attributes c) k = Some b \<and> sc_buffers c b = Some v" by (simp add: context_view_def split: option.splits)
    then show ?thesis using view_later [OF ok(1), of k _ later] by (auto simp: read_view_def Context_GetAttribute_def)
  qed
  then show ?thesis using read_view_now [OF ok(1), of k] ok(2) by simp
qed

theorem context_attributes_witness:
  "let c = fold context_step [CtxSet ''a'' ''x'', CtxSet ''b'' ''y''] (ServletContext_init (\<lparr>sessions = [], store = []\<rparr> :: nat HttpSessionManager))
   in read_view (Context_GetAttribute ''a'' c) (Context_SetAttribute ''b'' ''z'' c) = Inr ''x''
      \<and> read_view (Context_GetAttribute ''a'' c) (Context_SetAttribute ''a'' ''z'' c) = Inl Undefined"
proof -
  let ?xs = "[CtxSet ''a'' ''x'', CtxSet ''b'' ''y'']"
  let ?c = "fold context_step ?xs (ServletContext_init (\<lparr>sessions = [], store = []\<rparr> :: nat HttpSessionManager))"
  have "(fold spec_step ?xs Map.empty) ''a'' = Some ''x''" by simp
  then have all: "read_view (Context_GetAttribute ''a'' ?c) (fold context_step later ?c)
      = (if ''a'' \<in> op_key ` set later then Inl Undefined else Inr ''x'')" for later
    using context_attributes [OF refl refl, where xs = ?xs and k = "''a''" and mgr = "\<lparr>sessions = [], store = []\<rparr> :: nat HttpSessionManager"]
    by blast
  show ?thesis using all [of "[CtxSet ''b'' ''z'']"] all [of "[CtxSet ''a'' ''z'']"] by (simp add: Let_def)
qed

text \<open>A server that was started keeps its configuration: every setter fails its assertion.\<close>

lemma configuration_fixed:
  assumes "TcpServer_Start (fst s) = Inr (acts, started)"
  shows "configure f (started, snd s) = Inl AssertFail"
  using assms by (auto simp: configure_def TcpServer_Start_def split: if_splits)

end
