(* ===== verification/SimpleHttpParser.thy ===== *)
theory SimpleHttpParser
  imports HttpMessage
begin

text \<open>
  \<open>examples/simple/simplehttp/RequestParser.{h,cpp}\<close> and \<open>HttpRequest.h\<close>: the incremental request parser of the small
  HTTP server built on the library.

  \<^item> The loop of \<open>Parse\<close> is \<open>rp_loop\<close> over \<open>rp_step\<close>, one turn of it: the state, the view \<open>parseContent\<close>, the name of the
    last header and the request. What is left goes back to \<open>unsolved_\<close> except on \<open>kBAD\<close>.
  \<^item> \<open>atol\<close> is undefined on numbers beyond \<open>long\<close>: \<open>Inl Undefined\<close>.

  The lemmas show that the cuts of the input do not matter, that every accepted request is well formed, and that the
  text of a request is read back.
\<close>

section \<open>Data\<close>

record SimpleRequest =
  sq_method :: string
  sq_uri :: string
  sq_query :: string
  sq_fragment :: string
  sq_version :: string
  sq_headers :: "string smap"
  sq_body :: string

definition SimpleRequest_new :: SimpleRequest where
  "SimpleRequest_new = \<lparr>sq_method = [], sq_uri = [], sq_query = [], sq_fragment = [], sq_version = [], sq_headers = [], sq_body = []\<rparr>"

datatype ParseState = kOK | kKEEP | kBAD

datatype rp_state = kMethod | kUri | kRequestVersion | kHeaderName | kHeaderValue | kBody

record RequestParser =
  unsolved :: string
  latestHeaderName :: string
  rp_state :: rp_state

definition RequestParser_new :: RequestParser where
  "RequestParser_new = \<lparr>unsolved = [], latestHeaderName = [], rp_state = kMethod\<rparr>"

definition RequestParser_Reset :: "RequestParser \<Rightarrow> RequestParser" where
  "RequestParser_Reset p = p\<lparr>rp_state := kMethod, unsolved := []\<rparr>"

section \<open>Checks\<close>

definition kMethods :: "string list" where
  "kMethods = [''GET'', ''HEAD'', ''POST'', ''PUT'', ''DELETE'', ''CONNECT'', ''OPTIONS'', ''TRACE'', ''PATCH'']"

definition CheckMethod :: "string \<Rightarrow> SimpleRequest \<Rightarrow> bool \<times> SimpleRequest" where
  "CheckMethod method request =
     (if method \<notin> set kMethods then (False, request) else (True, request\<lparr>sq_method := method\<rparr>))"

definition is_cntrl :: "char \<Rightarrow> bool" where
  "is_cntrl c \<longleftrightarrow> char_code c < 32 \<or> char_code c = 127"

definition CheckUri :: "string \<Rightarrow> SimpleRequest \<Rightarrow> bool \<times> SimpleRequest" where
  "CheckUri uri request =
     (if uri = [] \<or> list_ex is_cntrl uri then (False, request)
      else let request1 = request\<lparr>sq_uri := uri\<rparr>;
               (uri1, request2) = (case str_rfind uri (CHR ''#'') of None \<Rightarrow> (uri, request1)
                  | Some fpos \<Rightarrow> (take fpos uri, request1\<lparr>sq_fragment := drop (fpos + 1) uri\<rparr>));
               (uri2, request3) = (case str_rfind uri1 (CHR ''?'') of None \<Rightarrow> (uri1, request2)
                  | Some qpos \<Rightarrow> (take qpos uri1, request2\<lparr>sq_query := drop (qpos + 1) uri1\<rparr>))
           in (True, request3\<lparr>sq_uri := uri2\<rparr>))"

definition CheckVersion :: "string \<Rightarrow> SimpleRequest \<Rightarrow> bool \<times> SimpleRequest" where
  "CheckVersion version request =
     (if version \<noteq> ''HTTP/1.1'' \<and> version \<noteq> ''HTTP/1.0'' then (False, request) else (True, request\<lparr>sq_version := version\<rparr>))"

definition CheckHeaderName :: "string \<Rightarrow> bool" where
  "CheckHeaderName headerName \<longleftrightarrow> headerName \<noteq> []"

definition CheckHeaderValue :: "string \<Rightarrow> string \<Rightarrow> SimpleRequest \<Rightarrow> bool \<times> SimpleRequest" where
  "CheckHeaderValue headerName headerValue request =
     (if headerValue = [] \<or> length headerValue = 1 then (False, request)
      else if headerValue ! 0 \<noteq> CHR '' '' then (False, request)
      else let headerValue1 = drop 1 headerValue in
        if headerName = ''Content-Length'' \<and> \<not> list_all is_digit_char headerValue1 then (False, request)
        else (True, request\<lparr>sq_headers := smap_set (sq_headers request) headerName headerValue1\<rparr>))"

definition CheckBody :: "string \<Rightarrow> SimpleRequest \<Rightarrow> bool \<times> SimpleRequest" where
  "CheckBody body request = (True, request\<lparr>sq_body := body\<rparr>)"

definition LONG_MAX :: nat where
  "LONG_MAX = 2 ^ 63 - 1"

definition GetBodySize :: "SimpleRequest \<Rightarrow> nat result" where
  "GetBodySize request = (case smap_get (sq_headers request) ''Content-Length'' of
      None \<Rightarrow> Inr 0
    | Some v \<Rightarrow> let n = fst (read_digits 0 v) in if LONG_MAX < n then Inl Undefined else Inr n)"

section \<open>The loop\<close>

text \<open>What a turn leaves: the state returned, if it returns, the rest of the view, the parser and the request.\<close>

type_synonym rp_turn = "ParseState option \<times> string \<times> RequestParser \<times> SimpleRequest"

definition turn_checked ::
    "bool \<times> SimpleRequest \<Rightarrow> rp_state \<Rightarrow> string \<Rightarrow> string \<Rightarrow> RequestParser \<Rightarrow> rp_turn" where
  "turn_checked checked next rest content p =
     (if fst checked then (None, rest, p\<lparr>rp_state := next\<rparr>, snd checked) else (Some kBAD, content, p, snd checked))"

definition rp_step :: "string \<Rightarrow> RequestParser \<Rightarrow> SimpleRequest \<Rightarrow> rp_turn result" where
  "rp_step c p r = (case rp_state p of
      kMethod \<Rightarrow>
        (let pos = str_find_char c (CHR '' '') 0 in
         if pos = None \<and> length c < 8 then Inr (Some kKEEP, c, p, r)
         else let method = (case pos of None \<Rightarrow> c | Some i \<Rightarrow> take i c);
                  rest = (case pos of None \<Rightarrow> c | Some i \<Rightarrow> drop (i + 1) c)
              in Inr (turn_checked (CheckMethod method r) kUri rest c p))
    | kUri \<Rightarrow>
        (case str_find_char c (CHR '' '') 0 of None \<Rightarrow> Inr (Some kKEEP, c, p, r)
         | Some i \<Rightarrow> Inr (turn_checked (CheckUri (take i c) r) kRequestVersion (drop (i + 1) c) c p))
    | kRequestVersion \<Rightarrow>
        (case str_find c kCRLF 0 of None \<Rightarrow> Inr (Some kKEEP, c, p, r)
         | Some i \<Rightarrow> Inr (turn_checked (CheckVersion (take i c) r) kHeaderName (drop (i + 2) c) c p))
    | kHeaderName \<Rightarrow>
        (if str_find c kCRLF 0 = Some 0 then Inr (None, drop 2 c, p\<lparr>rp_state := kBody\<rparr>, r)
         else case str_find_char c (CHR '':'') 0 of None \<Rightarrow> Inr (Some kKEEP, c, p, r)
         | Some i \<Rightarrow> if CheckHeaderName (take i c)
             then Inr (None, drop (i + 1) c, p\<lparr>rp_state := kHeaderValue, latestHeaderName := take i c\<rparr>, r)
             else Inr (Some kBAD, c, p, r))
    | kHeaderValue \<Rightarrow>
        (case str_find c kCRLF 0 of None \<Rightarrow> Inr (Some kKEEP, c, p, r)
         | Some i \<Rightarrow> Inr (turn_checked (CheckHeaderValue (latestHeaderName p) (take i c) r) kHeaderName (drop (i + 2) c) c p))
    | kBody \<Rightarrow> bind_result (GetBodySize r) (\<lambda>bodySize.
        if length c < bodySize then Inr (Some kKEEP, c, p, r)
        else let (ok, r1) = CheckBody (take bodySize c) r in
          if ok then Inr (Some kOK, drop bodySize c, p\<lparr>rp_state := kMethod\<rparr>, r1) else Inr (Some kBAD, c, p, r1)))"

lemma rp_step_shrinks: "rp_step c p r = Inr (None, c', p', r') \<Longrightarrow> length c' < length c"
proof (cases "rp_state p")
  case kMethod
  assume s: "rp_step c p r = Inr (None, c', p', r')"
  show ?thesis
  proof (cases "str_find_char c (CHR '' '') 0")
    case None
    have "c \<notin> set kMethods" if "8 \<le> length c" using that by (auto simp: kMethods_def)
    then show ?thesis using s kMethod None
      by (auto simp: rp_step_def turn_checked_def CheckMethod_def Let_def split: if_splits)
  next
    case (Some i)
    then show ?thesis using s kMethod str_find_char_bounds [OF Some]
      by (auto simp: rp_step_def turn_checked_def Let_def split: if_splits)
  qed
qed (auto simp: rp_step_def turn_checked_def kCRLF_def CheckBody_def bind_result_eq_Inr split: option.splits if_splits
    dest!: str_find_char_bounds str_find_bounds)

function rp_loop :: "string \<Rightarrow> RequestParser \<Rightarrow> SimpleRequest \<Rightarrow> (ParseState \<times> string \<times> RequestParser \<times> SimpleRequest) result" where
  "rp_loop c p r = (case rp_step c p r of
      Inl e \<Rightarrow> Inl e
    | Inr (Some st, c', p', r') \<Rightarrow> Inr (st, c', p', r')
    | Inr (None, c', p', r') \<Rightarrow> rp_loop c' p' r')"
  by pat_completeness auto
termination
  by (relation "measure (\<lambda>(c, p, r). length c)") (auto dest: rp_step_shrinks)

declare rp_loop.simps [simp del]

definition RequestParser_Parse ::
    "string \<Rightarrow> RequestParser \<Rightarrow> SimpleRequest \<Rightarrow> (ParseState \<times> RequestParser \<times> SimpleRequest) result" where
  "RequestParser_Parse content p r =
     (let p1 = p\<lparr>unsolved := unsolved p @ content\<rparr> in
      bind_result (rp_loop (unsolved p1) p1 r) (\<lambda>(st, c, p2, r2).
        Inr (st, if st = kBAD then p2 else p2\<lparr>unsolved := c\<rparr>, r2)))"


text \<open>The reads of a connection until a request is complete or refused, as the server makes them; with the reads left.\<close>

fun parse_reads ::
    "string list \<Rightarrow> RequestParser \<Rightarrow> SimpleRequest \<Rightarrow> (ParseState \<times> RequestParser \<times> SimpleRequest \<times> string list) result" where
  "parse_reads [] p r = Inr (kKEEP, p, r, [])"
| "parse_reads (c # cs) p r = bind_result (RequestParser_Parse c p r) (\<lambda>(st, p', r').
     if st = kKEEP then parse_reads cs p' r' else Inr (st, p', r', cs))"

section \<open>Cuts\<close>

lemma first_occurrence_append: "first_occurrence pat c = Some i \<Longrightarrow> first_occurrence pat (c @ x) = Some i"
proof (induction c arbitrary: i)
  case Nil
  then show ?case by (cases x) (auto split: if_splits)
next
  case (Cons a c)
  show ?case
  proof (cases "prefix pat (a # c)")
    case True
    then show ?thesis using Cons.prems by (auto dest: prefix_prefix [of pat "a # c" x])
  next
    case False
    then obtain z where z: "first_occurrence pat c = Some z" "i = Suc z" using Cons.prems by auto
    have "length pat \<le> length (a # c)" using first_occurrence_Some_le [OF z(1)] by simp
    then have "\<not> prefix pat (a # c @ x)"
      using False prefix_length_prefix [of pat "a # c @ x" "a # c"] by auto
    then show ?thesis using Cons.IH [OF z(1)] z(2) by simp
  qed
qed

lemma str_find_append: "str_find c pat 0 = Some i \<Longrightarrow> str_find (c @ x) pat 0 = Some i"
  by (auto simp: str_find_def dest: first_occurrence_append)

lemma str_find_char_append_any: "str_find_char c ch 0 = Some i \<Longrightarrow> str_find_char (c @ x) ch 0 = Some i"
  by (simp add: str_find_char_def str_find_append)

lemma str_find_0: "pat \<noteq> [] \<Longrightarrow> str_find c pat 0 = Some 0 \<longleftrightarrow> prefix pat c"
  by (cases c) (auto simp: str_find_def)

lemma crlf_later:
  assumes "str_find c kCRLF 0 \<noteq> Some 0" "str_find_char c ch 0 = Some i" "ch \<noteq> CHR 0x0D"
  shows "str_find (c @ x) kCRLF 0 \<noteq> Some 0"
proof -
  have "c \<noteq> []" using str_find_char_bounds [OF assms(2)] by auto
  moreover have "c \<noteq> [CHR 0x0D]" using assms(2,3) by (auto simp: str_find_char_0 split: if_splits)
  ultimately obtain a b t where "c = [a] \<and> a \<noteq> CHR 0x0D \<or> c = a # b # t" by (metis neq_Nil_conv)
  then show ?thesis using assms(1) by (auto simp: str_find_0 kCRLF_def)
qed

lemma crlf_bounds: "str_find c kCRLF 0 = Some i \<Longrightarrow> Suc i < length c"
  using str_find_bounds [of c kCRLF 0 i] by (simp add: kCRLF_def)

lemma long_no_method: "8 \<le> length c \<Longrightarrow> c \<notin> set kMethods"
  by (auto simp: kMethods_def)

lemma rp_step_kMethod:
  "rp_state p = kMethod \<Longrightarrow> rp_step c p r =
     (case str_find_char c (CHR '' '') 0 of
        None \<Rightarrow> Inr (if length c < 8 then Some kKEEP else Some kBAD, c, p, r)
      | Some i \<Rightarrow> Inr (turn_checked (CheckMethod (take i c) r) kUri (drop (i + 1) c) c p))"
  by (auto simp: rp_step_def turn_checked_def CheckMethod_def Let_def long_no_method split: option.splits)

lemma turn_checked_append:
  "turn_checked ch next rest c p = (st, c', p', r') \<Longrightarrow> turn_checked ch next (rest @ x) (c @ x) p = (st, c' @ x, p', r')"
  by (auto simp: turn_checked_def split: if_splits)

lemma rp_step_append_method:
  assumes "rp_step c p r = Inr (st, c', p', r')" "st \<noteq> Some kKEEP" and kMethod: "rp_state p = kMethod"
  shows "rp_step (c @ x) p r = Inr (st, c' @ x, p', r')"
proof (cases "str_find_char c (CHR '' '') 0")
  case None
  then have "rp_step c p r = Inr (if length c < 8 then Some kKEEP else Some kBAD, c, p, r)"
    by (simp add: rp_step_kMethod [OF kMethod])
  then have "rp_step c p r = Inr (Some kBAD, c, p, r)" "8 \<le> length c"
    using assms by (simp_all split: if_splits)
  moreover have "rp_step (c @ x) p r = Inr (Some kBAD, c @ x, p, r)"
  proof (cases "str_find_char (c @ x) (CHR '' '') 0")
    case None
    then show ?thesis using calculation(2) by (simp add: rp_step_kMethod [OF kMethod])
  next
    case (Some i)
    then have "length c \<le> i" using \<open>str_find_char c (CHR '' '') 0 = None\<close>
      by (auto simp: str_find_char_0 takeWhile_append split: if_splits)
    then have "take i (c @ x) \<notin> set kMethods"
      using calculation(2) str_find_char_bounds [OF Some] by (intro long_no_method) simp
    then show ?thesis using Some by (simp add: rp_step_kMethod [OF kMethod] turn_checked_def CheckMethod_def)
  qed
  ultimately show ?thesis using assms(1) by simp
next
  case (Some i)
  then show ?thesis using assms str_find_char_bounds [OF Some] str_find_char_append_any [OF Some, of x]
    by (simp add: rp_step_kMethod [OF kMethod] turn_checked_append)
qed

lemma rp_step_append:
  assumes "rp_step c p r = Inr (st, c', p', r')" "st \<noteq> Some kKEEP"
  shows "rp_step (c @ x) p r = Inr (st, c' @ x, p', r')"
proof (cases "rp_state p")
  case kMethod
  show ?thesis by (rule rp_step_append_method [OF assms kMethod])
next
  case kUri
  then show ?thesis using assms by (auto simp: rp_step_def turn_checked_append str_find_char_append_any split: option.splits
        dest: str_find_char_bounds)
next
  case kRequestVersion
  then show ?thesis using assms by (auto simp: rp_step_def turn_checked_append str_find_append split: option.splits
        dest: crlf_bounds)
next
  case kHeaderName
  show ?thesis
  proof (cases "str_find c kCRLF 0 = Some 0")
    case True
    then show ?thesis using assms kHeaderName crlf_bounds [OF True] str_find_append [OF True, of x] by (simp add: rp_step_def)
  next
    case False
    then obtain i where i: "str_find_char c (CHR '':'') 0 = Some i" using assms kHeaderName by (auto simp: rp_step_def split: option.splits)
    then have "str_find (c @ x) kCRLF 0 \<noteq> Some 0" using crlf_later [OF False i] by simp
    then show ?thesis
      using assms kHeaderName False i str_find_char_bounds [OF i] str_find_char_append_any [OF i, of x]
      by (auto simp: rp_step_def split: if_splits)
  qed
next
  case kHeaderValue
  then show ?thesis using assms by (auto simp: rp_step_def turn_checked_append str_find_append split: option.splits
        dest: crlf_bounds)
next
  case kBody
  then show ?thesis using assms by (auto simp: rp_step_def bind_result_def CheckBody_def split: sum.splits if_splits)
qed

lemma rp_step_keep: "rp_step c p r = Inr (Some kKEEP, c', p', r') \<Longrightarrow> c' = c \<and> p' = p \<and> r' = r"
  by (cases "rp_state p") (auto simp: rp_step_def turn_checked_def CheckBody_def bind_result_eq_Inr Let_def split: option.splits if_splits)

lemma rp_step_throw: "rp_step c p r = Inl e \<Longrightarrow> rp_step (c @ x) p r = Inl e"
  by (cases "rp_state p") (auto simp: rp_step_def turn_checked_def CheckBody_def bind_result_def Let_def
      split: option.splits if_splits sum.splits)

text \<open>The loop by its turns.\<close>

lemma rp_loop_induct [case_names turn]:
  "(\<And>c p r. (\<And>c' p' r'. rp_step c p r = Inr (None, c', p', r') \<Longrightarrow> P c' p' r') \<Longrightarrow> P c p r) \<Longrightarrow> P c p r"
proof (induction "length c" arbitrary: c p r rule: less_induct)
  case less
  show ?case by (rule less.prems) (rule less.hyps [OF rp_step_shrinks less.prems], assumption)
qed

lemma rp_loop_turns:
  "rp_step c p r = Inl e \<Longrightarrow> rp_loop c p r = Inl e"
  "rp_step c p r = Inr (Some st, c', p', r') \<Longrightarrow> rp_loop c p r = Inr (st, c', p', r')"
  "rp_step c p r = Inr (None, c', p', r') \<Longrightarrow> rp_loop c p r = rp_loop c' p' r'"
  by (simp_all add: rp_loop.simps [of c p r])

lemma rp_step_cases [case_names throw stop go]:
  obtains e where "rp_step c p r = Inl e"
  | st c' p' r' where "rp_step c p r = Inr (Some st, c', p', r')"
  | c' p' r' where "rp_step c p r = Inr (None, c', p', r')"
  by (cases "rp_step c p r") (auto, metis option.exhaust)

text \<open>A view that asks for more is resumed as if the bytes had been there from the start; one that ends does not
  look at what follows.\<close>

lemma rp_loop_append:
  "rp_loop (c @ x) p r = (case rp_loop c p r of
      Inl e \<Rightarrow> Inl e
    | Inr (st, c', p', r') \<Rightarrow> if st = kKEEP then rp_loop (c' @ x) p' r' else Inr (st, c' @ x, p', r'))"
proof (induction c p r rule: rp_loop_induct)
  case (turn c p r)
  show ?case
  proof (cases c p r rule: rp_step_cases)
    case (throw e)
    then show ?thesis using rp_step_throw [OF throw, of x] by (simp add: rp_loop_turns)
  next
    case (stop st c' p' r')
    then show ?thesis using rp_step_append [OF stop, of x] rp_step_keep [of c p r c' p' r']
      by (cases "st = kKEEP") (simp_all add: rp_loop_turns)
  next
    case (go c' p' r')
    then show ?thesis using rp_step_append [OF go, of x] turn [OF go] by (simp add: rp_loop_turns)
  qed
qed

lemma rp_step_unsolved:
  "rp_step c (p\<lparr>unsolved := u\<rparr>) r = (case rp_step c p r of Inl e \<Rightarrow> Inl e | Inr (st, c', p', r') \<Rightarrow> Inr (st, c', p'\<lparr>unsolved := u\<rparr>, r'))"
  by (cases "rp_state p") (simp_all add: rp_step_def turn_checked_def CheckBody_def bind_result_def Let_def split: option.splits sum.splits)

lemma rp_loop_unsolved:
  "rp_loop c (p\<lparr>unsolved := u\<rparr>) r = (case rp_loop c p r of Inl e \<Rightarrow> Inl e | Inr (st, c', p', r') \<Rightarrow> Inr (st, c', p'\<lparr>unsolved := u\<rparr>, r'))"
proof (induction c p r rule: rp_loop_induct)
  case (turn c p r)
  then show ?case
    by (cases c p r rule: rp_step_cases) (simp_all add: rp_loop_turns rp_step_unsolved [of c u p r]
        rp_loop.simps [of c "p\<lparr>unsolved := u\<rparr>"])
qed

section \<open>Well-formed requests\<close>

definition target_clean :: "string \<Rightarrow> bool" where
  "target_clean s \<longleftrightarrow> CHR '' '' \<notin> set s \<and> \<not> list_ex is_cntrl s"

definition header_name_ok :: "string \<Rightarrow> bool" where
  "header_name_ok k \<longleftrightarrow> k \<noteq> [] \<and> CHR '':'' \<notin> set k"

definition header_value_ok :: "string \<Rightarrow> string \<Rightarrow> bool" where
  "header_value_ok k v \<longleftrightarrow> v \<noteq> [] \<and> (k = ''Content-Length'' \<longrightarrow> list_all is_digit_char v)"

definition headers_ok :: "string smap \<Rightarrow> bool" where
  "headers_ok m \<longleftrightarrow> smap_wf m \<and> list_all (\<lambda>(k, v). header_name_ok k \<and> header_value_ok k v) m"

definition request_wf :: "SimpleRequest \<Rightarrow> bool" where
  "request_wf r \<longleftrightarrow> sq_method r \<in> set kMethods \<and> list_all target_clean [sq_uri r, sq_query r, sq_fragment r]
     \<and> sq_version r \<in> {''HTTP/1.0'', ''HTTP/1.1''} \<and> headers_ok (sq_headers r) \<and> GetBodySize r = Inr (length (sq_body r))"

text \<open>What holds of the request while it is read.\<close>

definition rp_inv :: "RequestParser \<Rightarrow> SimpleRequest \<Rightarrow> bool" where
  "rp_inv p r \<longleftrightarrow> headers_ok (sq_headers r) \<and> list_all target_clean [sq_uri r, sq_query r, sq_fragment r]
     \<and> (rp_state p \<noteq> kMethod \<longrightarrow> sq_method r \<in> set kMethods)
     \<and> (rp_state p \<in> {kHeaderName, kHeaderValue, kBody} \<longrightarrow> sq_version r \<in> {''HTTP/1.0'', ''HTTP/1.1''})
     \<and> (rp_state p = kHeaderValue \<longrightarrow> header_name_ok (latestHeaderName p))"

lemma rp_inv_new: "rp_state p = kMethod \<Longrightarrow> rp_inv p SimpleRequest_new"
  by (simp add: rp_inv_def SimpleRequest_new_def headers_ok_def target_clean_def)

lemma target_clean_parts: "target_clean s \<Longrightarrow> target_clean (take n s) \<and> target_clean (drop n s)"
  by (auto simp: target_clean_def list_ex_iff dest: in_set_takeD in_set_dropD)

lemma take_find_char: "str_find_char c ch 0 = Some i \<Longrightarrow> ch \<notin> set (take i c)"
  by (auto simp: str_find_char_0 takeWhile_eq_take [symmetric] dest: set_takeWhileD split: if_splits)

lemma CheckUri_clean:
  assumes "CheckUri uri r = (True, r')" "CHR '' '' \<notin> set uri" "list_all target_clean [sq_uri r, sq_query r, sq_fragment r]"
  shows "list_all target_clean [sq_uri r', sq_query r', sq_fragment r']
     \<and> sq_method r' = sq_method r \<and> sq_headers r' = sq_headers r"
proof -
  have "target_clean uri" using assms(1,2) by (auto simp: CheckUri_def target_clean_def split: if_splits)
  then show ?thesis using assms(1,3)
    by (auto simp: CheckUri_def Let_def target_clean_parts split: if_splits option.splits prod.splits)
qed

lemma CheckHeaderValue_ok:
  "CheckHeaderValue k hv r = (True, r') \<Longrightarrow> header_name_ok k \<Longrightarrow> headers_ok (sq_headers r) \<Longrightarrow>
   headers_ok (sq_headers r') \<and> sq_method r' = sq_method r \<and> sq_version r' = sq_version r
   \<and> sq_uri r' = sq_uri r \<and> sq_query r' = sq_query r \<and> sq_fragment r' = sq_fragment r"
  by (cases hv) (auto simp: CheckHeaderValue_def headers_ok_def header_value_ok_def Let_def smap_wf_set intro!: smap_set_all split: if_splits)

lemma rp_step_inv_go:
  assumes "rp_step c p r = Inr (None, c', p', r')" "rp_inv p r"
  shows "rp_inv p' r' \<and> suffix c' c"
proof (cases "rp_state p")
  case kMethod
  then show ?thesis using assms
    by (auto simp: rp_step_kMethod turn_checked_def CheckMethod_def rp_inv_def suffix_drop split: option.splits if_splits)
next
  case kUri
  then obtain i where i: "str_find_char c (CHR '' '') 0 = Some i" "CheckUri (take i c) r = (True, r')"
      "c' = drop (i + 1) c" "p' = p\<lparr>rp_state := kRequestVersion\<rparr>"
    using assms(1) by (auto simp: rp_step_def turn_checked_def prod_eq_iff split: option.splits if_splits)
  then show ?thesis using CheckUri_clean [OF i(2) take_find_char [OF i(1)]] assms(2) kUri
    by (simp add: rp_inv_def suffix_drop)
next
  case kRequestVersion
  then show ?thesis using assms
    by (auto simp: rp_step_def turn_checked_def CheckVersion_def rp_inv_def suffix_drop split: option.splits if_splits)
next
  case kHeaderName
  then show ?thesis using assms
    by (auto simp: rp_step_def CheckHeaderName_def rp_inv_def header_name_ok_def take_find_char suffix_drop split: option.splits if_splits)
next
  case kHeaderValue
  then obtain i where i: "str_find c kCRLF 0 = Some i" "CheckHeaderValue (latestHeaderName p) (take i c) r = (True, r')"
      "c' = drop (i + 2) c" "p' = p\<lparr>rp_state := kHeaderName\<rparr>"
    using assms(1) by (auto simp: rp_step_def turn_checked_def prod_eq_iff split: option.splits if_splits)
  then show ?thesis using CheckHeaderValue_ok [OF i(2)] assms(2) kHeaderValue
    by (simp add: rp_inv_def suffix_drop)
next
  case kBody
  then show ?thesis using assms(1) by (auto simp: rp_step_def bind_result_def CheckBody_def split: sum.splits if_splits)
qed

lemma rp_step_inv_ok:
  assumes "rp_step c p r = Inr (Some kOK, c', p', r')" "rp_inv p r"
  shows "request_wf r' \<and> rp_state p' = kMethod \<and> suffix c' c"
proof -
  have b: "rp_state p = kBody"
    using assms(1) by (cases "rp_state p") (auto simp: rp_step_def turn_checked_def Let_def split: option.splits if_splits)
  then obtain n where n: "GetBodySize r = Inr n" "n \<le> length c" "c' = drop n c" "r' = r\<lparr>sq_body := take n c\<rparr>"
      "p' = p\<lparr>rp_state := kMethod\<rparr>"
    using assms(1) by (auto simp: rp_step_def bind_result_eq_Inr CheckBody_def split: if_splits)
  then have "GetBodySize r' = Inr n" by (simp add: GetBodySize_def)
  then show ?thesis using n b assms(2) by (auto simp: rp_inv_def request_wf_def suffix_drop)
qed

lemma rp_loop_inv:
  "rp_loop c p r = Inr (st, c', p', r') \<Longrightarrow> rp_inv p r \<Longrightarrow>
   suffix c' c \<and> (st = kKEEP \<longrightarrow> rp_inv p' r') \<and> (st = kOK \<longrightarrow> request_wf r' \<and> rp_state p' = kMethod)"
proof (induction c p r rule: rp_loop_induct)
  case (turn c p r)
  show ?case
  proof (cases c p r rule: rp_step_cases)
    case (throw e)
    then show ?thesis using turn.prems by (simp add: rp_loop_turns)
  next
    case (stop st1 c1 p1 r1)
    then have eq: "st1 = st" "c1 = c'" "p1 = p'" "r1 = r'" using turn.prems by (simp_all add: rp_loop_turns)
    show ?thesis
    proof (cases st)
      case kOK
      then show ?thesis using rp_step_inv_ok [OF stop [unfolded eq kOK] turn.prems(2)] by simp
    next
      case kKEEP
      then show ?thesis using rp_step_keep [OF stop [unfolded eq kKEEP]] turn.prems(2) by simp
    next
      case kBAD
      have "c' = c" using stop eq kBAD
        by (cases "rp_state p") (auto simp: rp_step_def turn_checked_def CheckBody_def bind_result_eq_Inr Let_def split: option.splits if_splits)
      then show ?thesis using kBAD by simp
    qed
  next
    case (go c1 p1 r1)
    have "rp_loop c1 p1 r1 = Inr (st, c', p', r')" using turn.prems(1) go by (simp add: rp_loop_turns)
    then show ?thesis using turn.IH [OF go] rp_step_inv_go [OF go turn.prems(2)] by (auto intro: suffix_order.trans)
  qed
qed

lemma Parse_inv:
  assumes "RequestParser_Parse content p r = Inr (st, p', r')" "rp_inv p r" "st \<noteq> kBAD"
  shows "suffix (unsolved p') (unsolved p @ content) \<and> (st = kKEEP \<longrightarrow> rp_inv p' r')
     \<and> (st = kOK \<longrightarrow> request_wf r' \<and> rp_state p' = kMethod)"
proof -
  obtain c p2 where l: "rp_loop (unsolved p @ content) (p\<lparr>unsolved := unsolved p @ content\<rparr>) r = Inr (st, c, p2, r')"
      "p' = p2\<lparr>unsolved := c\<rparr>"
    using assms(1,3) by (auto simp: RequestParser_Parse_def Let_def bind_result_eq_Inr)
  have "rp_inv (p\<lparr>unsolved := unsolved p @ content\<rparr>) r" using assms(2) by (simp add: rp_inv_def)
  from rp_loop_inv [OF l(1) this] show ?thesis using l(2) by (simp add: rp_inv_def)
qed

lemma parse_reads_inv:
  "parse_reads reads p r = Inr (kOK, p', r', rest) \<Longrightarrow> rp_inv p r \<Longrightarrow>
   request_wf r' \<and> rp_state p' = kMethod \<and> suffix (unsolved p' @ concat rest) (unsolved p @ concat reads)"
proof (induction reads arbitrary: p r)
  case (Cons x xs)
  obtain st p1 r1 where s: "RequestParser_Parse x p r = Inr (st, p1, r1)"
    using Cons.prems(1) by (auto simp: bind_result_eq_Inr)
  show ?case
  proof (cases "st = kKEEP")
    case True
    then have i: "suffix (unsolved p1) (unsolved p @ x)" "rp_inv p1 r1" using Parse_inv [OF s Cons.prems(2)] by simp_all
    have "parse_reads xs p1 r1 = Inr (kOK, p', r', rest)" using Cons.prems(1) s True by simp
    from Cons.IH [OF this i(2)] have "request_wf r'" "rp_state p' = kMethod"
        "suffix (unsolved p' @ concat rest) (unsolved p1 @ concat xs)" by simp_all
    moreover have "suffix (unsolved p1 @ concat xs) (unsolved p @ concat (x # xs))"
      using i(1) by (auto simp: suffix_def)
    ultimately show ?thesis by (auto intro: suffix_order.trans)
  next
    case False
    then have "st = kOK" "p1 = p'" "r1 = r'" "rest = xs" using Cons.prems(1) s by simp_all
    then show ?thesis using Parse_inv [OF s Cons.prems(2)] by (auto simp: suffix_def)
  qed
qed simp

section \<open>Round trip\<close>

text \<open>The text of a request.\<close>

definition request_target :: "SimpleRequest \<Rightarrow> string" where
  "request_target r = sq_uri r @ (if sq_query r = [] then [] else CHR ''?'' # sq_query r)
     @ (if sq_fragment r = [] then [] else CHR ''#'' # sq_fragment r)"

definition request_text :: "SimpleRequest \<Rightarrow> string" where
  "request_text r = sq_method r @ '' '' @ request_target r @ '' '' @ sq_version r @ kCRLF
     @ dump_headers (sq_headers r) @ kCRLF @ sq_body r"

text \<open>Requests whose text has only one reading.\<close>

definition request_clean :: "SimpleRequest \<Rightarrow> bool" where
  "request_clean r \<longleftrightarrow> request_wf r \<and> sq_uri r \<noteq> [] \<and> CHR ''?'' \<notin> set (sq_uri r) \<and> CHR ''#'' \<notin> set (sq_uri r)
     \<and> CHR ''?'' \<notin> set (sq_query r) \<and> CHR ''#'' \<notin> set (sq_query r) \<and> CHR ''#'' \<notin> set (sq_fragment r)
     \<and> list_all header_clean (sq_headers r)"

lemma find_crlf: "no_cr l \<Longrightarrow> str_find (l @ kCRLF @ s) kCRLF 0 = Some (length l)"
proof (induction l)
  case (Cons a l)
  then have "first_occurrence kCRLF (l @ kCRLF @ s) = Some (length l)" "a \<noteq> CHR 0x0D"
    by (auto simp: str_find_def no_cr_def)
  then show ?case by (simp add: str_find_def kCRLF_def)
qed (simp add: str_find_def kCRLF_def)

lemma method_turn:
  assumes "rp_state p = kMethod" "m \<in> set kMethods"
  shows "rp_loop (m @ '' '' @ s) p r = rp_loop s (p\<lparr>rp_state := kUri\<rparr>) (r\<lparr>sq_method := m\<rparr>)"
proof -
  have "CHR '' '' \<notin> set m" using assms(2) by (auto simp: kMethods_def)
  then have "rp_step (m @ '' '' @ s) p r = Inr (None, s, p\<lparr>rp_state := kUri\<rparr>, r\<lparr>sq_method := m\<rparr>)"
    using assms str_find_char_append [of "CHR '' ''" m s]
    by (simp add: rp_step_kMethod turn_checked_def CheckMethod_def)
  then show ?thesis by (rule rp_loop_turns)
qed

lemma CheckUri_target:
  assumes "request_clean r" "sq_query r0 = []" "sq_fragment r0 = []"
  shows "CheckUri (request_target r) r0 =
     (True, r0\<lparr>sq_uri := sq_uri r, sq_query := sq_query r, sq_fragment := sq_fragment r\<rparr>)"
proof -
  let ?u = "sq_uri r @ (if sq_query r = [] then [] else CHR ''?'' # sq_query r)"
  have t: "request_target r = ?u @ (if sq_fragment r = [] then [] else CHR ''#'' # sq_fragment r)"
    by (simp add: request_target_def)
  have c: "request_target r \<noteq> []" "\<not> list_ex is_cntrl (request_target r)"
    using assms(1) by (auto simp: request_clean_def request_wf_def request_target_def target_clean_def is_cntrl_def char_code_def)
  have "CHR ''#'' \<notin> set ?u" using assms(1) by (auto simp: request_clean_def)
  then have f: "str_rfind (request_target r) (CHR ''#'') = (if sq_fragment r = [] then None else Some (length ?u))"
    using assms(1) str_rfind_append [of "CHR ''#''" "sq_fragment r" ?u]
    by (auto simp: t request_clean_def str_rfind_None)
  have q: "str_rfind ?u (CHR ''?'') = (if sq_query r = [] then None else Some (length (sq_uri r)))"
    using assms(1) str_rfind_append [of "CHR ''?''" "sq_query r" "sq_uri r"]
    by (auto simp: request_clean_def str_rfind_None)
  show ?thesis using c f q assms(2,3)
    by (cases "sq_fragment r = []"; cases "sq_query r = []") (simp_all add: CheckUri_def t)
qed

lemma uri_turn:
  assumes "rp_state p = kUri" "request_clean r" "sq_query r0 = []" "sq_fragment r0 = []"
  shows "rp_loop (request_target r @ '' '' @ s) p r0 =
     rp_loop s (p\<lparr>rp_state := kRequestVersion\<rparr>) (r0\<lparr>sq_uri := sq_uri r, sq_query := sq_query r, sq_fragment := sq_fragment r\<rparr>)"
proof (rule rp_loop_turns)
  have "CHR '' '' \<notin> set (request_target r)"
    using assms(2) by (auto simp: request_clean_def request_wf_def request_target_def target_clean_def)
  then show "rp_step (request_target r @ '' '' @ s) p r0 = Inr (None, s, p\<lparr>rp_state := kRequestVersion\<rparr>,
     r0\<lparr>sq_uri := sq_uri r, sq_query := sq_query r, sq_fragment := sq_fragment r\<rparr>)"
    using str_find_char_append [of "CHR '' ''" "request_target r" s] assms(1)
    by (simp add: rp_step_def turn_checked_def CheckUri_target [OF assms(2-4)])
qed

lemma version_turn:
  assumes "rp_state p = kRequestVersion" "v \<in> {''HTTP/1.0'', ''HTTP/1.1''}"
  shows "rp_loop (v @ kCRLF @ s) p r = rp_loop s (p\<lparr>rp_state := kHeaderName\<rparr>) (r\<lparr>sq_version := v\<rparr>)"
proof (rule rp_loop_turns)
  have "no_cr v" using assms(2) by (auto simp: no_cr_def)
  then show "rp_step (v @ kCRLF @ s) p r = Inr (None, s, p\<lparr>rp_state := kHeaderName\<rparr>, r\<lparr>sq_version := v\<rparr>)"
    using assms find_crlf [of v s] by (auto simp: rp_step_def turn_checked_def CheckVersion_def kCRLF_def)
qed

lemma header_turn:
  assumes "rp_state p = kHeaderName" "header_name_ok k" "header_value_ok k v" "header_clean (k, v)"
  shows "rp_loop (header_line (k, v) @ kCRLF @ s) p r =
     rp_loop s (p\<lparr>latestHeaderName := k\<rparr>) (r\<lparr>sq_headers := smap_set (sq_headers r) k v\<rparr>)"
proof -
  let ?p = "p\<lparr>rp_state := kHeaderValue, latestHeaderName := k\<rparr>" and ?v = "CHR '' '' # v"
  have l: "header_line (k, v) @ kCRLF @ s = k @ CHR '':'' # (?v @ kCRLF @ s)" by (simp add: header_line_def)
  obtain a k' where k: "k = a # k'" "a \<noteq> CHR 0x0D" using assms(2,4) by (cases k) (auto simp: header_name_ok_def header_clean_def no_cr_def)
  then have "str_find (k @ CHR '':'' # (?v @ kCRLF @ s)) kCRLF 0 \<noteq> Some 0" by (simp add: str_find_0 kCRLF_def)
  then have 1: "rp_step (k @ CHR '':'' # (?v @ kCRLF @ s)) p r = Inr (None, ?v @ kCRLF @ s, ?p, r)"
    using assms str_find_char_append [of "CHR '':''" k "?v @ kCRLF @ s"]
    by (simp add: rp_step_def CheckHeaderName_def header_name_ok_def del: append_Cons)
  have "no_cr ?v" using assms(4) by (auto simp: header_clean_def no_cr_def)
  then have 2: "rp_step (?v @ kCRLF @ s) ?p r = Inr (None, s, ?p\<lparr>rp_state := kHeaderName\<rparr>, r\<lparr>sq_headers := smap_set (sq_headers r) k v\<rparr>)"
    using assms(3) find_crlf [of ?v s]
    by (simp add: rp_step_def turn_checked_def CheckHeaderValue_def header_value_ok_def kCRLF_def)
  have "?p\<lparr>rp_state := kHeaderName\<rparr> = p\<lparr>latestHeaderName := k\<rparr>" using assms(1) by (cases p) simp
  then show ?thesis unfolding l using rp_loop_turns(3) [OF 1] rp_loop_turns(3) [OF 2] by simp
qed

lemma header_turns:
  assumes "list_all (\<lambda>(k, v). header_name_ok k \<and> header_value_ok k v) hs" "list_all header_clean hs" "rp_state p = kHeaderName"
  shows "\<exists>h. rp_loop (dump_headers hs @ s) p r =
     rp_loop s (p\<lparr>latestHeaderName := h\<rparr>) (r\<lparr>sq_headers := fold (\<lambda>(k, v) m. smap_set m k v) hs (sq_headers r)\<rparr>)"
  using assms
proof (induction hs arbitrary: p r)
  case Nil
  then show ?case by (intro exI [of _ "latestHeaderName p"]) (simp add: dump_headers_def)
next
  case (Cons kv hs)
  obtain k v where kv: "kv = (k, v)" by (cases kv)
  have "rp_loop (header_line (k, v) @ kCRLF @ (dump_headers hs @ s)) p r =
     rp_loop (dump_headers hs @ s) (p\<lparr>latestHeaderName := k\<rparr>) (r\<lparr>sq_headers := smap_set (sq_headers r) k v\<rparr>)"
    by (rule header_turn) (use Cons.prems kv in auto)
  moreover obtain h where "rp_loop (dump_headers hs @ s) (p\<lparr>latestHeaderName := k\<rparr>) (r\<lparr>sq_headers := smap_set (sq_headers r) k v\<rparr>) =
     rp_loop s (p\<lparr>latestHeaderName := h\<rparr>) (r\<lparr>sq_headers := fold (\<lambda>(k, v) m. smap_set m k v) hs (smap_set (sq_headers r) k v)\<rparr>)"
    using Cons.IH [of "p\<lparr>latestHeaderName := k\<rparr>" "r\<lparr>sq_headers := smap_set (sq_headers r) k v\<rparr>"] Cons.prems by auto
  ultimately show ?case by (intro exI [of _ h]) (simp add: dump_headers_def kv)
qed

lemma smap_set_last: "smap_wf (m @ [(k, v)]) \<Longrightarrow> smap_set m k v = m @ [(k, v)]"
  by (induction m) (auto simp: smap_wf_def sorted_wrt_append)

lemma smap_rebuild: "smap_wf (m @ kvs) \<Longrightarrow> fold (\<lambda>(k, v) m. smap_set m k v) kvs m = m @ kvs"
proof (induction kvs arbitrary: m)
  case (Cons kv kvs)
  have "smap_wf (m @ [kv])" using Cons.prems by (auto simp: smap_wf_def sorted_wrt_append)
  then show ?case using Cons.IH [of "m @ [kv]"] Cons.prems smap_set_last [of m "fst kv" "snd kv"] by (cases kv) simp
qed simp

lemma body_turns:
  assumes "rp_state p = kHeaderName" "GetBodySize r = Inr (length body)"
  shows "rp_loop (kCRLF @ body @ s) p r = Inr (kOK, s, p\<lparr>rp_state := kMethod\<rparr>, r\<lparr>sq_body := body\<rparr>)"
proof -
  have 1: "rp_step (kCRLF @ body @ s) p r = Inr (None, body @ s, p\<lparr>rp_state := kBody\<rparr>, r)"
    using assms(1) find_crlf [of "[]" "body @ s"] by (simp add: rp_step_def no_cr_def) (simp add: kCRLF_def)
  have 2: "rp_step (body @ s) (p\<lparr>rp_state := kBody\<rparr>) r = Inr (Some kOK, s, p\<lparr>rp_state := kMethod\<rparr>, r\<lparr>sq_body := body\<rparr>)"
    using assms(2) by (simp add: rp_step_def CheckBody_def)
  show ?thesis using rp_loop_turns(3) [OF 1] rp_loop_turns(2) [OF 2] by simp
qed

lemma request_text_read:
  assumes "request_clean r" "rp_state p = kMethod"
  shows "\<exists>h. rp_loop (request_text r @ s) p SimpleRequest_new = Inr (kOK, s, p\<lparr>latestHeaderName := h\<rparr>, r)"
proof -
  note c = assms(1) [unfolded request_clean_def request_wf_def headers_ok_def]
  let ?r1 = "SimpleRequest_new\<lparr>sq_method := sq_method r\<rparr>"
  let ?r2 = "?r1\<lparr>sq_uri := sq_uri r, sq_query := sq_query r, sq_fragment := sq_fragment r\<rparr>"
  let ?r3 = "?r2\<lparr>sq_version := sq_version r\<rparr>"
  let ?s1 = "dump_headers (sq_headers r) @ kCRLF @ sq_body r @ s"
  let ?p = "p\<lparr>rp_state := kUri, rp_state := kRequestVersion, rp_state := kHeaderName\<rparr>"
  have 1: "rp_loop (request_text r @ s) p SimpleRequest_new = rp_loop ?s1 ?p ?r3"
    using method_turn [of p "sq_method r" "request_target r @ '' '' @ sq_version r @ kCRLF @ ?s1" SimpleRequest_new]
      uri_turn [of "p\<lparr>rp_state := kUri\<rparr>" r ?r1 "sq_version r @ kCRLF @ ?s1"]
      version_turn [of "p\<lparr>rp_state := kUri, rp_state := kRequestVersion\<rparr>" "sq_version r" ?s1 ?r2] assms c
    by (simp add: request_text_def SimpleRequest_new_def)
  obtain h where 2: "rp_loop ?s1 ?p ?r3 = rp_loop (kCRLF @ sq_body r @ s) (?p\<lparr>latestHeaderName := h\<rparr>)
     (?r3\<lparr>sq_headers := fold (\<lambda>(k, v) m. smap_set m k v) (sq_headers r) (sq_headers ?r3)\<rparr>)"
    using header_turns [of "sq_headers r" ?p "kCRLF @ sq_body r @ s" ?r3] c by auto
  have 3: "fold (\<lambda>(k, v) m. smap_set m k v) (sq_headers r) (sq_headers ?r3) = sq_headers r"
    using smap_rebuild [of "[]" "sq_headers r"] c by (simp add: SimpleRequest_new_def)
  have 4: "rp_loop (kCRLF @ sq_body r @ s) (?p\<lparr>latestHeaderName := h\<rparr>) (?r3\<lparr>sq_headers := sq_headers r\<rparr>) =
     Inr (kOK, s, ?p\<lparr>latestHeaderName := h, rp_state := kMethod\<rparr>, ?r3\<lparr>sq_headers := sq_headers r, sq_body := sq_body r\<rparr>)"
    by (rule body_turns) (use c in \<open>simp_all add: GetBodySize_def\<close>)
  have 5: "?r3\<lparr>sq_headers := sq_headers r, sq_body := sq_body r\<rparr> = r" by (simp add: SimpleRequest_new_def)
  have 6: "?p\<lparr>latestHeaderName := h, rp_state := kMethod\<rparr> = p\<lparr>latestHeaderName := h\<rparr>" using assms(2) by simp
  show ?thesis by (intro exI [of _ h]) (simp only: 1 2 3 4 5 6)
qed

text \<open>Reads that cut a text of which the loop makes one request.\<close>

lemma rp_loop_cut:
  assumes "rp_loop (u @ v) p r = Inr (kOK, [], p2, r2)" "v \<noteq> []"
  obtains c1 p1 r1 where "rp_loop u p r = Inr (kKEEP, c1, p1, r1)" "rp_loop (c1 @ v) p1 r1 = Inr (kOK, [], p2, r2)"
  using assms by (auto simp: rp_loop_append [of u v] split: sum.splits if_splits)

lemma Parse_loop:
  "RequestParser_Parse content p r = (case rp_loop (unsolved p @ content) p r of
      Inl e \<Rightarrow> Inl e
    | Inr (st, c, p', r') \<Rightarrow> Inr (st, p'\<lparr>unsolved := if st = kBAD then unsolved p @ content else c\<rparr>, r'))"
proof -
  have "rp_loop (unsolved p @ content) (p\<lparr>unsolved := unsolved p @ content\<rparr>) r =
     (case rp_loop (unsolved p @ content) p r of Inl e \<Rightarrow> Inl e
      | Inr (st, c', p', r') \<Rightarrow> Inr (st, c', p'\<lparr>unsolved := unsolved p @ content\<rparr>, r'))"
    by (rule rp_loop_unsolved)
  then show ?thesis by (auto simp: RequestParser_Parse_def Let_def split: sum.splits)
qed

lemma parse_reads_text:
  assumes "rp_loop t p r = Inr (kOK, [], p2, r2)" "unsolved p @ concat reads = t @ x"
    and "length (unsolved p @ concat (butlast reads)) < length t"
  shows "\<exists>p'. parse_reads (reads @ later) p r = Inr (kOK, p', r2, later) \<and> unsolved p' = x \<and> rp_state p' = rp_state p2"
  using assms
proof (induction reads arbitrary: p r t p2)
  case (Cons a reads)
  show ?case
  proof (cases "reads = []")
    case True
    then have "unsolved p @ a = t @ x" using Cons.prems(2) by simp
    then have "rp_loop (unsolved p @ a) p r = Inr (kOK, x, p2, r2)"
      using Cons.prems(1) by (simp add: rp_loop_append [of t x])
    then have "RequestParser_Parse a p r = Inr (kOK, p2\<lparr>unsolved := x\<rparr>, r2)" by (simp add: Parse_loop)
    then show ?thesis using True by (simp add: exI [of _ "p2\<lparr>unsolved := x\<rparr>"])
  next
    case False
    let ?u = "unsolved p @ a"
    have "length ?u < length t" using Cons.prems(3) False by simp
    moreover have "?u @ concat reads = t @ x" using Cons.prems(2) by simp
    ultimately obtain v where v: "t = ?u @ v" "v \<noteq> []" "concat reads = v @ x"
      by (auto simp: append_eq_append_conv2)
    obtain c1 p1 r1 where k: "rp_loop ?u p r = Inr (kKEEP, c1, p1, r1)" "rp_loop (c1 @ v) p1 r1 = Inr (kOK, [], p2, r2)"
      using rp_loop_cut [OF Cons.prems(1) [unfolded v(1)] v(2)] .
    let ?p = "p1\<lparr>unsolved := c1\<rparr>"
    have "rp_loop (c1 @ v) ?p r1 = Inr (kOK, [], p2\<lparr>unsolved := c1\<rparr>, r2)" using k(2) by (simp add: rp_loop_unsolved)
    moreover have "unsolved ?p @ concat reads = (c1 @ v) @ x" using v(3) by simp
    moreover have "length (unsolved ?p @ concat (butlast reads)) < length (c1 @ v)"
      using Cons.prems(3) False v(1) by simp
    ultimately have "\<exists>p'. parse_reads (reads @ later) ?p r1 = Inr (kOK, p', r2, later) \<and> unsolved p' = x
       \<and> rp_state p' = rp_state (p2\<lparr>unsolved := c1\<rparr>)"
      by (rule Cons.IH)
    moreover have "RequestParser_Parse a p r = Inr (kKEEP, ?p, r1)" using k(1) by (simp add: Parse_loop)
    ultimately show ?thesis by simp
  qed
qed simp

section \<open>Properties\<close>


definition demo_get :: string where
  "demo_get = ''GET /a?b=c HTTP/1.1'' @ kCRLF @ ''Content-Length: 2'' @ kCRLF @ kCRLF @ ''hi''"

definition demo_request :: SimpleRequest where
  "demo_request = SimpleRequest_new\<lparr>sq_method := ''GET'', sq_uri := ''/a'', sq_query := ''b=c'', sq_version := ''HTTP/1.1'',
     sq_headers := [(''Content-Length'', ''2'')], sq_body := ''hi''\<rparr>"

lemma demo_request_clean: "request_clean demo_request"
  by (simp add: request_clean_def request_wf_def demo_request_def SimpleRequest_new_def kMethods_def target_clean_def
      is_cntrl_def char_code_def headers_ok_def smap_wf_def header_name_ok_def header_value_ok_def header_clean_def no_cr_def
      GetBodySize_def is_digit_char_def LONG_MAX_def)

lemma demo_request_text: "request_text demo_request = demo_get"
  by (simp add: request_text_def demo_request_def demo_get_def request_target_def dump_headers_def header_line_def SimpleRequest_new_def)

lemma demo_cut:
  "\<exists>p'. parse_reads [take 4 demo_get, drop 4 demo_get @ ''GE'', ''T''] RequestParser_new SimpleRequest_new = Inr (kOK, p', demo_request, [''T''])
     \<and> unsolved p' = ''GE''"
proof -
  obtain h where "rp_loop demo_get RequestParser_new SimpleRequest_new = Inr (kOK, [], RequestParser_new\<lparr>latestHeaderName := h\<rparr>, demo_request)"
    using request_text_read [OF demo_request_clean, of RequestParser_new "[]"] demo_request_text
    by (auto simp: RequestParser_new_def)
  from parse_reads_text [OF this, where reads = "[take 4 demo_get, drop 4 demo_get @ ''GE'']" and x = "''GE''" and later = "[''T'']"]
  show ?thesis by (auto simp: RequestParser_new_def demo_get_def)
qed


text \<open>Requests are read back. The text of a request, however it is cut into reads, also behind bytes that an earlier read
  left over, is read as exactly this request: every read before the last asks for more, the last one returns \<open>kOK\<close>, and
  the bytes behind the request are kept for the next.\<close>

theorem simple_request_roundtrip:
  assumes "request_clean r" "rp_state p = kMethod" "unsolved p @ concat reads = request_text r @ x"
    and "length (unsolved p @ concat (butlast reads)) < length (request_text r)"
  shows "\<exists>p'. parse_reads (reads @ later) p SimpleRequest_new = Inr (kOK, p', r, later) \<and> unsolved p' = x \<and> rp_state p' = kMethod"
proof -
  obtain h where "rp_loop (request_text r) p SimpleRequest_new = Inr (kOK, [], p\<lparr>latestHeaderName := h\<rparr>, r)"
    using request_text_read [OF assms(1,2), of "[]"] by auto
  from parse_reads_text [OF this assms(3,4), of later] show ?thesis using assms(2) by simp
qed

theorem simple_request_roundtrip_witness:
  "\<exists>p'. parse_reads [take 9 demo_get, drop 9 demo_get @ ''G''] RequestParser_new SimpleRequest_new = Inr (kOK, p', demo_request, [])
     \<and> unsolved p' = ''G''"
  using simple_request_roundtrip [OF demo_request_clean, of RequestParser_new "[take 9 demo_get, drop 9 demo_get @ ''G'']" "''G''" "[]"]
  by (auto simp: RequestParser_new_def demo_request_text demo_get_def)

section \<open>Where the parser differs from HTTP\<close>

text \<open>The query starts at the last question mark, the fragment at the last number sign.\<close>

lemma query_at_last_question_mark:
  "CheckUri ''/a?x=1?y'' SimpleRequest_new = (True, SimpleRequest_new\<lparr>sq_uri := ''/a?x=1'', sq_query := ''y''\<rparr>)"
  by (simp add: CheckUri_def SimpleRequest_new_def is_cntrl_def char_code_def)

text \<open>A header line without a colon is not refused: the name reaches over the end of the line to the next colon.\<close>

lemma header_name_over_lines:
  assumes "rp_state p = kHeaderName"
  shows "rp_step (''Bad'' @ kCRLF @ ''Host: x'' @ kCRLF) p r =
     Inr (None, '' x'' @ kCRLF, p\<lparr>rp_state := kHeaderValue, latestHeaderName := ''Bad'' @ kCRLF @ ''Host''\<rparr>, r)"
  using assms by (simp add: rp_step_def kCRLF_def str_find_def str_find_char_def CheckHeaderName_def)

text \<open>A value without a space before it, and an empty one, are refused.\<close>

lemma space_before_value:
  "CheckHeaderValue ''Host'' ''x'' r = (False, r)" "CheckHeaderValue ''Host'' ''xy'' r = (False, r)" "CheckHeaderValue ''Host'' [] r = (False, r)"
  by (simp_all add: CheckHeaderValue_def)

text \<open>Other spellings of the header announce no body.\<close>

lemma content_length_spelled:
  assumes "smap_get (sq_headers r) ''Content-Length'' = None"
  shows "GetBodySize (r\<lparr>sq_headers := smap_set (sq_headers r) ''content-length'' v\<rparr>) = Inr 0"
  using assms by (simp add: GetBodySize_def smap_get_set)

end
