(* ===== verification/SimpleHttpServer.thy ===== *)
theory SimpleHttpServer
  imports SimpleHttpParser IoAwaitable
begin

text \<open>
  \<open>examples/simple/simplehttp/HttpResponse.{h,cpp}\<close> and \<open>HttpServer.cpp\<close>: the answers of the small HTTP server and its loop
  over a connection.

  \<^item> The file system is a parameter: what \<open>stat\<close>, \<open>open\<close> and \<open>mmap\<close> say of a path. A mapping is its bytes and its
    length; \<open>fs_ok\<close> states that they agree.
  \<^item> \<open>DoHttp\<close> runs over the reads of a connection (\<open>None\<close> for the end, an error or the timeout) and, for every answer, over
    the results of its writes. What it leaves is the bytes sent for each answer and whether the connection is still open.
\<close>

section \<open>Responses\<close>

definition kMimeType :: "(string \<times> string) list" where
  "kMimeType = [(''gif'', ''image/gif''), (''htm'', ''text/html''), (''html'', ''text/html''), (''jpg'', ''image/jpeg''),
     (''png'', ''image/png''), (''mp4'', ''video/mp4''), (''js'', ''text/javascript''), (''css'', ''text/css'')]"

definition kFirstLineWithoutVersion :: "(nat \<times> string) list" where
  "kFirstLineWithoutVersion = [(200, '' 200 OK'' @ kCRLF), (400, '' 400 Bad Request'' @ kCRLF), (403, '' 403 Forbidden'' @ kCRLF),
     (404, '' 404 Not Found'' @ kCRLF), (500, '' 500 Internal Server Error'' @ kCRLF)]"

definition kBodys :: "(nat \<times> string) list" where
  "kBodys = [
     (400, ''<html><head><title>Bad Request</title></head><body><h1>400 Bad Request</h1></body></html>''),
     (403, ''<html><head><title>Forbidden</title></head><body><h1>403 Forbidden</h1></body></html>''),
     (404, ''<html><head><title>Not Found</title></head><body><h1>404 Not Found</h1></body></html>''),
     (500, ''<html><head><title>Internal Server Error</title></head><body><h1>500 Internal Server Error</h1></body></html>'')]"

record SimpleResponse =
  sp_headers :: "string smap"
  sp_buf :: string
  sp_mmap :: "(string \<times> nat) option"

definition SimpleResponse_new :: SimpleResponse where
  "SimpleResponse_new = \<lparr>sp_headers = [], sp_buf = [], sp_mmap = None\<rparr>"

record file_stat =
  st_dir :: bool
  st_roth :: bool
  st_size :: nat

record simple_fs =
  fs_stat :: "string \<Rightarrow> int + file_stat"
  fs_open :: "string \<Rightarrow> bool"
  fs_mmap :: "string \<Rightarrow> nat \<Rightarrow> string option"

definition ENOENT :: int where
  "ENOENT = 2"

definition MakeResponseHeaders :: "nat \<Rightarrow> string \<Rightarrow> SimpleResponse \<Rightarrow> SimpleResponse result" where
  "MakeResponseHeaders status version resp =
     (case map_of kFirstLineWithoutVersion status of
        None \<Rightarrow> Inl AssertFail
      | Some firstline \<Rightarrow>
          let buf1 = sp_buf resp @ version @ firstline in
          bind_result (case sp_mmap resp of
              Some (_, n) \<Rightarrow> Inr (smap_set (sp_headers resp) ''Content-Length'' (show_nat n))
            | None \<Rightarrow> (case map_of kBodys status of None \<Rightarrow> Inl Undefined
                | Some body \<Rightarrow> Inr (smap_set (sp_headers resp) ''Content-Length'' (show_nat (length body)))))
          (\<lambda>headers1. let buf2 = buf1 @ concat (map (\<lambda>(key, value). key @ '':'' @ '' '' @ value @ kCRLF) headers1) @ kCRLF in
             bind_result (if status \<noteq> 200 then (case map_of kBodys status of None \<Rightarrow> Inl Undefined | Some body \<Rightarrow> Inr (buf2 @ body))
                          else Inr buf2)
             (\<lambda>buf3. Inr (resp\<lparr>sp_headers := headers1, sp_buf := buf3\<rparr>))))"

definition MakeResponse :: "simple_fs \<Rightarrow> bool \<Rightarrow> SimpleRequest \<Rightarrow> SimpleResponse \<Rightarrow> SimpleResponse result" where
  "MakeResponse fs ok request response =
     (let uri = sq_uri request;
          version = (if sq_version request = [] then ''HTTP/1.1'' else sq_version request)
      in if \<not> ok \<or> uri = [] \<or> uri ! 0 \<noteq> CHR ''/'' then MakeResponseHeaders 400 version response
      else let uri1 = drop 1 (if uri = ''/'' then ''/index.html'' else uri);
               ext = (case str_rfind uri1 (CHR ''.'') of None \<Rightarrow> []
                 | Some pos \<Rightarrow> (case map_of kMimeType (drop (pos + 1) uri1) of None \<Rightarrow> ''text/html'' | Some t \<Rightarrow> t));
               path = uri1
      in case fs_stat fs path of
           Inl errno \<Rightarrow> MakeResponseHeaders (if errno = ENOENT then 404 else 500) version response
         | Inr s \<Rightarrow>
             if st_dir s \<or> \<not> st_roth s then MakeResponseHeaders 404 version response
             else if \<not> fs_open fs path then MakeResponseHeaders 500 version response
             else (case fs_mmap fs path (st_size s) of
                 None \<Rightarrow> MakeResponseHeaders 500 version response
               | Some addr \<Rightarrow> MakeResponseHeaders 200 version
                   (response\<lparr>sp_mmap := Some (addr, st_size s), sp_headers := smap_set (sp_headers response) ''Content-Type'' ext\<rparr>)))"

definition chars_bytes :: "string \<Rightarrow> byte list" where
  "chars_bytes s = map of_char s"

text \<open>The result of the write of the head, then those of \<open>WriteN\<close> of the file: what is returned (\<open>None\<close> while suspended), and
  the bytes sent.\<close>

definition SendRequest :: "SimpleResponse \<Rightarrow> int \<Rightarrow> int list \<Rightarrow> int option \<times> byte list" where
  "SendRequest resp ret results =
     (let out = take (nat ret) (chars_bytes (sp_buf resp)) in
      if ret < 0 then (Some ret, [])
      else case sp_mmap resp of
          None \<Rightarrow> (Some ret, out)
        | Some (addr, n) \<Rightarrow> (case WriteN (chars_bytes (take n addr)) results 0 [] of (r, sent) \<Rightarrow> (r, out @ sent)))"

section \<open>The loop of a connection\<close>

fun simple_DoHttp ::
    "simple_fs \<Rightarrow> string option list \<Rightarrow> (int \<times> int list) list \<Rightarrow> RequestParser \<Rightarrow> SimpleRequest \<Rightarrow> byte list list \<Rightarrow> (byte list list \<times> bool) result" where
  "simple_DoHttp fs [] sends parser request out = Inr (out, True)"
| "simple_DoHttp fs (None # reads) sends parser request out = Inr (out, False)"
| "simple_DoHttp fs (Some buf # reads) sends parser request out =
     bind_result (RequestParser_Parse buf parser request) (\<lambda>(state, parser1, request1).
       if state = kKEEP then simple_DoHttp fs reads sends parser1 request1 out
       else bind_result (MakeResponse fs (state = kOK) request1 SimpleResponse_new) (\<lambda>response.
         case sends of
           [] \<Rightarrow> Inr (out, True)
         | (r, rs) # sends1 \<Rightarrow> (case SendRequest response r rs of
               (None, sent) \<Rightarrow> Inr (out @ [sent], True)
             | (Some ret, sent) \<Rightarrow>
                 if ret < 0 \<or> state = kBAD \<or> sq_version request1 = ''HTTP/1.0'' then Inr (out @ [sent], False)
                 else simple_DoHttp fs reads sends1 parser1 SimpleRequest_new (out @ [sent]))))"

section \<open>What is answered\<close>

text \<open>The answer a request ought to have: its status, the type and the body.\<close>

definition simple_path :: "SimpleRequest \<Rightarrow> string" where
  "simple_path r = drop 1 (if sq_uri r = ''/'' then ''/index.html'' else sq_uri r)"

definition simple_file :: "simple_fs \<Rightarrow> SimpleRequest \<Rightarrow> nat + string" where
  "simple_file fs r =
     (case fs_stat fs (simple_path r) of
        Inl e \<Rightarrow> Inl (if e = ENOENT then 404 else 500)
      | Inr s \<Rightarrow> if st_dir s \<or> \<not> st_roth s then Inl 404
          else if \<not> fs_open fs (simple_path r) then Inl 500
          else (case fs_mmap fs (simple_path r) (st_size s) of None \<Rightarrow> Inl 500 | Some d \<Rightarrow> Inr d))"

definition simple_answer :: "simple_fs \<Rightarrow> bool \<Rightarrow> SimpleRequest \<Rightarrow> nat + string" where
  "simple_answer fs ok r = (if ok \<and> sq_uri r \<noteq> [] \<and> hd (sq_uri r) = CHR ''/'' then simple_file fs r else Inl 400)"

definition answer_status :: "nat + string \<Rightarrow> nat" where
  "answer_status a = (case a of Inl st \<Rightarrow> st | Inr d \<Rightarrow> 200)"

definition answer_body :: "nat + string \<Rightarrow> string" where
  "answer_body a = (case a of Inl st \<Rightarrow> the (map_of kBodys st) | Inr d \<Rightarrow> d)"

definition reason :: "nat \<Rightarrow> string" where
  "reason st = (if st = 200 then ''OK'' else if st = 400 then ''Bad Request'' else if st = 403 then ''Forbidden''
     else if st = 404 then ''Not Found'' else ''Internal Server Error'')"

definition response_bytes :: "SimpleResponse \<Rightarrow> string" where
  "response_bytes resp = sp_buf resp @ (case sp_mmap resp of None \<Rightarrow> [] | Some (addr, n) \<Rightarrow> take n addr)"

definition fs_ok :: "simple_fs \<Rightarrow> bool" where
  "fs_ok fs \<longleftrightarrow> (\<forall>path n d. fs_mmap fs path n = Some d \<longrightarrow> length d = n)"

definition version_sent :: "SimpleRequest \<Rightarrow> string" where
  "version_sent r = (if sq_version r = [] then ''HTTP/1.1'' else sq_version r)"

lemma kMimeType_clean: "map_of kMimeType k = Some t \<Longrightarrow> no_cr t"
  by (auto simp: kMimeType_def no_cr_def split: if_splits)

lemma read_response_lines:
  assumes "no_cr l" "l \<noteq> []" "list_all header_clean hs"
  shows "read_response (l @ kCRLF @ concat (map (\<lambda>(key, value). key @ '':'' @ '' '' @ value @ kCRLF) hs) @ kCRLF @ body) = Some (l, hs, body)"
proof -
  let ?ls = "l # map header_line hs"
  have "concat (map (\<lambda>(key, value). key @ '':'' @ '' '' @ value @ kCRLF) hs) = concat (map (\<lambda>l. l @ kCRLF) (map header_line hs))"
    by (auto simp: header_line_def intro!: arg_cong [where f = concat])
  moreover have "\<forall>l \<in> set ?ls. no_cr l \<and> l \<noteq> []"
    using assms by (auto simp: list_all_iff header_clean_def header_line_def no_cr_def)
  then have "read_head (concat (map (\<lambda>l. l @ kCRLF) ?ls) @ kCRLF @ body) = Some (?ls, body)" by (rule read_head_lines)
  moreover have "map split_header (map header_line hs) = hs"
    using assms(3) by (induction hs) (auto simp: header_clean_def split_header_line)
  ultimately show ?thesis by (simp add: read_response_def)
qed

lemma length_header_clean: "header_clean (''Content-Length'', show_nat n)"
  using show_nat_clean [of n] by (simp add: header_clean_def no_cr_def)

text \<open>An error page, and a file.\<close>

definition status_line :: "string \<Rightarrow> nat \<Rightarrow> string" where
  "status_line version st = version @ '' '' @ show_nat st @ '' '' @ reason st"

lemma show_nat_status:
  "show_nat 200 = ''200''" "show_nat 400 = ''400''" "show_nat 403 = ''403''" "show_nat 404 = ''404''" "show_nat 500 = ''500''"
  by (simp_all add: show_nat.simps char_of_def bit_Suc_0_iff)

lemma first_line:
  assumes "st \<in> {200, 400, 404, 500}"
  shows "map_of kFirstLineWithoutVersion st = Some (drop (length v) (status_line v st) @ kCRLF)"
    and "no_cr v \<Longrightarrow> no_cr (status_line v st)" and "status_line v st \<noteq> []"
    and "v @ drop (length v) (status_line v st) = status_line v st"
  using assms by (auto simp: kFirstLineWithoutVersion_def status_line_def reason_def show_nat_status no_cr_def)

lemma error_page:
  assumes "st \<in> {400, 404, 500}" "no_cr v"
  shows "\<exists>resp. MakeResponseHeaders st v SimpleResponse_new = Inr resp \<and> sp_mmap resp = None
     \<and> read_response (sp_buf resp) = Some (status_line v st,
         [(''Content-Length'', show_nat (length (the (map_of kBodys st))))], the (map_of kBodys st))"
proof -
  obtain body where b: "map_of kBodys st = Some body" using assms(1) by (auto simp: kBodys_def)
  let ?h = "[(''Content-Length'', show_nat (length body))]"
  let ?buf = "status_line v st @ kCRLF @ concat (map (\<lambda>(key, value). key @ '':'' @ '' '' @ value @ kCRLF) ?h) @ kCRLF @ body"
  have st: "st \<in> {200, 400, 404, 500}" "st \<noteq> 200" using assms(1) by auto
  have "MakeResponseHeaders st v SimpleResponse_new = Inr (SimpleResponse_new\<lparr>sp_headers := ?h, sp_buf := ?buf\<rparr>)"
    using b st first_line(4) [OF st(1), of v]
    by (simp add: MakeResponseHeaders_def first_line(1) [OF st(1), of v] SimpleResponse_new_def Let_def append_assoc [symmetric]
        del: append_assoc)
  moreover have "read_response ?buf = Some (status_line v st, ?h, body)"
    by (rule read_response_lines) (use assms(2) first_line [OF st(1), of v] length_header_clean in simp_all)
  ultimately show ?thesis using b by (simp add: SimpleResponse_new_def)
qed

lemma file_response:
  assumes "no_cr v" "no_cr ext" "length d = n"
  shows "\<exists>resp. MakeResponseHeaders 200 v (SimpleResponse_new\<lparr>sp_mmap := Some (d, n), sp_headers := smap_set [] ''Content-Type'' ext\<rparr>) = Inr resp
     \<and> sp_mmap resp = Some (d, n)
     \<and> read_response (sp_buf resp @ d) = Some (status_line v 200, [(''Content-Length'', show_nat n), (''Content-Type'', ext)], d)"
proof -
  let ?h = "[(''Content-Length'', show_nat n), (''Content-Type'', ext)]"
  let ?buf = "status_line v 200 @ kCRLF @ concat (map (\<lambda>(key, value). key @ '':'' @ '' '' @ value @ kCRLF) ?h) @ kCRLF"
  have h: "smap_set [(''Content-Type'', ext)] ''Content-Length'' (show_nat n) = ?h" by simp
  have "MakeResponseHeaders 200 v (SimpleResponse_new\<lparr>sp_mmap := Some (d, n), sp_headers := smap_set [] ''Content-Type'' ext\<rparr>) =
     Inr (SimpleResponse_new\<lparr>sp_mmap := Some (d, n), sp_headers := ?h, sp_buf := ?buf\<rparr>)"
    using first_line(4) [of 200 v]
    by (simp add: MakeResponseHeaders_def first_line(1) [of 200 v] SimpleResponse_new_def Let_def h append_assoc [symmetric]
        del: append_assoc)
  moreover have "list_all header_clean ?h" using length_header_clean assms(2) by (simp add: header_clean_def no_cr_def)
  then have "read_response (?buf @ d) = Some (status_line v 200, ?h, d)"
    using read_response_lines [of "status_line v 200" ?h d] first_line [of 200 v] assms(1) by simp
  ultimately show ?thesis by simp
qed

lemma mime_clean: "no_cr (case str_rfind u (CHR ''.'') of None \<Rightarrow> []
    | Some pos \<Rightarrow> (case map_of kMimeType (drop (pos + 1) u) of None \<Rightarrow> ''text/html'' | Some t \<Rightarrow> t))"
  by (auto simp: no_cr_def dest: kMimeType_clean [unfolded no_cr_def] split: option.splits)

definition answers :: "simple_fs \<Rightarrow> bool \<Rightarrow> SimpleRequest \<Rightarrow> string \<Rightarrow> bool" where
  "answers fs ok r text \<longleftrightarrow> (\<exists>headers. read_response text =
       Some (status_line (version_sent r) (answer_status (simple_answer fs ok r)), headers, answer_body (simple_answer fs ok r))
     \<and> map_of headers ''Content-Length'' = Some (show_nat (length (answer_body (simple_answer fs ok r)))))"

lemma error_answers:
  assumes "simple_answer fs ok r = Inl st" "st \<in> {400, 404, 500}" "no_cr (sq_version r)"
  shows "\<exists>resp. MakeResponseHeaders st (version_sent r) SimpleResponse_new = Inr resp \<and> answers fs ok r (response_bytes resp)"
proof -
  have "no_cr (version_sent r)" using assms(3) by (simp add: version_sent_def no_cr_def)
  from error_page [OF assms(2) this] show ?thesis
    by (auto simp: answers_def assms(1) answer_status_def answer_body_def response_bytes_def)
qed

lemma MakeResponse_error:
  assumes "simple_answer fs ok r = Inl st"
  shows "MakeResponse fs ok r SimpleResponse_new = MakeResponseHeaders st (version_sent r) SimpleResponse_new"
proof (cases "ok \<and> sq_uri r \<noteq> [] \<and> hd (sq_uri r) = CHR ''/''")
  case False
  then show ?thesis using assms by (auto simp: MakeResponse_def simple_answer_def version_sent_def hd_conv_nth Let_def)
next
  case True
  then have f: "simple_file fs r = Inl st" using assms by (simp add: simple_answer_def)
  have ok: "\<not> (\<not> ok \<or> sq_uri r = [] \<or> sq_uri r ! 0 \<noteq> CHR ''/'')" using True by (auto simp: hd_conv_nth)
  note m = MakeResponse_def [of fs ok r] Let_def simple_path_def [symmetric] version_sent_def [symmetric] if_not_P [OF ok]
  show ?thesis
  proof (cases "fs_stat fs (simple_path r)")
    case (Inl e)
    then show ?thesis using f unfolding m by (simp add: simple_file_def split: if_splits)
  next
    case (Inr s)
    then show ?thesis using f unfolding m
      by (cases "fs_mmap fs (simple_path r) (st_size s)"; cases "fs_open fs (simple_path r)") (auto simp: simple_file_def split: if_splits)
  qed
qed

lemma MakeResponse_answers:
  assumes "fs_ok fs" "no_cr (sq_version r)"
  shows "\<exists>resp. MakeResponse fs ok r SimpleResponse_new = Inr resp \<and> answers fs ok r (response_bytes resp)"
proof (cases "simple_answer fs ok r")
  case (Inl st)
  then have "st \<in> {400, 404, 500}" by (auto simp: simple_answer_def simple_file_def split: if_splits sum.splits option.splits)
  moreover have "MakeResponse fs ok r SimpleResponse_new = MakeResponseHeaders st (version_sent r) SimpleResponse_new"
    using Inl by (rule MakeResponse_error)
  ultimately show ?thesis using error_answers [OF Inl _ assms(2)] by simp
next
  case (Inr d)
  then obtain s where s: "ok" "sq_uri r \<noteq> []" "hd (sq_uri r) = CHR ''/''" "fs_stat fs (simple_path r) = Inr s" "\<not> st_dir s" "st_roth s"
      "fs_open fs (simple_path r)" "fs_mmap fs (simple_path r) (st_size s) = Some d"
    by (auto simp: simple_answer_def simple_file_def split: if_splits sum.splits option.splits)
  let ?ext = "case str_rfind (simple_path r) (CHR ''.'') of None \<Rightarrow> []
    | Some pos \<Rightarrow> (case map_of kMimeType (drop (pos + 1) (simple_path r)) of None \<Rightarrow> ''text/html'' | Some t \<Rightarrow> t)"
  have "MakeResponse fs ok r SimpleResponse_new = MakeResponseHeaders 200 (version_sent r)
     (SimpleResponse_new\<lparr>sp_mmap := Some (d, st_size s), sp_headers := smap_set [] ''Content-Type'' ?ext\<rparr>)"
  proof -
    have ok: "\<not> (\<not> ok \<or> sq_uri r = [] \<or> sq_uri r ! 0 \<noteq> CHR ''/'')" using s(1-3) by (simp add: hd_conv_nth)
    show ?thesis
      unfolding MakeResponse_def Let_def simple_path_def [symmetric] version_sent_def [symmetric] if_not_P [OF ok]
      using s by (simp add: SimpleResponse_new_def)
  qed
  moreover have "no_cr (version_sent r)" using assms(2) by (simp add: version_sent_def no_cr_def)
  moreover have n: "length d = st_size s" using assms(1) s(8) by (auto simp: fs_ok_def)
  ultimately show ?thesis using file_response [OF _ mime_clean n, of "version_sent r" "simple_path r"]
    by (auto simp: answers_def Inr answer_status_def answer_body_def response_bytes_def)
qed

text \<open>Writes that take everything they are given in the end.\<close>

definition complete_writes :: "SimpleResponse \<Rightarrow> int \<Rightarrow> int list \<Rightarrow> bool" where
  "complete_writes resp w ws \<longleftrightarrow> w = int (length (sp_buf resp))
     \<and> (case sp_mmap resp of None \<Rightarrow> True | Some (d, n) \<Rightarrow> list_all (\<lambda>x. 0 \<le> x) ws \<and> sum_list (map nat ws) = length (take n d))"

lemma SendRequest_complete:
  "complete_writes resp w ws \<Longrightarrow> \<exists>ret. 0 \<le> ret \<and> SendRequest resp w ws = (Some ret, chars_bytes (response_bytes resp))"
  using WriteN_complete [of ws 0 "chars_bytes (take n d)" for n d]
  by (auto simp: complete_writes_def SendRequest_def response_bytes_def chars_bytes_def split: option.splits)

lemma DoHttp_reads:
  "parse_reads reads p r = Inr (st, p', r', rest) \<Longrightarrow> st \<noteq> kKEEP \<Longrightarrow>
   MakeResponse fs (st = kOK) r' SimpleResponse_new = Inr resp \<Longrightarrow> SendRequest resp w ws = (Some ret, sent) \<Longrightarrow> 0 \<le> ret \<Longrightarrow>
   simple_DoHttp fs (map Some reads @ later) ((w, ws) # sends) p r out =
     (if st = kBAD \<or> sq_version r' = ''HTTP/1.0'' then Inr (out @ [sent], False)
      else simple_DoHttp fs (map Some rest @ later) sends p' SimpleRequest_new (out @ [sent]))"
proof (induction reads arbitrary: p r)
  case (Cons a reads)
  obtain st1 p1 r1 where s: "RequestParser_Parse a p r = Inr (st1, p1, r1)"
    using Cons.prems(1) by (auto simp: bind_result_eq_Inr)
  show ?case
  proof (cases "st1 = kKEEP")
    case True
    then show ?thesis using Cons s by simp
  next
    case False
    then show ?thesis using Cons.prems s by auto
  qed
qed auto

section \<open>Properties\<close>

text \<open>One request of a connection: the reads its bytes arrive in, and the writes of its answer.\<close>

record turn =
  tn_reads :: "string list"
  tn_request :: SimpleRequest
  tn_head :: int
  tn_writes :: "int list"

definition turn_ok :: "simple_fs \<Rightarrow> turn \<Rightarrow> bool" where
  "turn_ok fs t \<longleftrightarrow> request_clean (tn_request t) \<and> sq_version (tn_request t) = ''HTTP/1.1''
     \<and> concat (tn_reads t) = request_text (tn_request t) \<and> tn_reads t \<noteq> [] \<and> last (tn_reads t) \<noteq> []
     \<and> (\<forall>resp. MakeResponse fs True (tn_request t) SimpleResponse_new = Inr resp \<longrightarrow> complete_writes resp (tn_head t) (tn_writes t))"

lemma one_turn:
  assumes "fs_ok fs" "turn_ok fs t" "rp_state p = kMethod" "unsolved p = []"
  shows "\<exists>p' page. simple_DoHttp fs (map Some (tn_reads t) @ later) ((tn_head t, tn_writes t) # sends) p SimpleRequest_new out =
       simple_DoHttp fs later sends p' SimpleRequest_new (out @ [chars_bytes page])
     \<and> rp_state p' = kMethod \<and> unsolved p' = [] \<and> answers fs True (tn_request t) page"
proof -
  note t = assms(2) [unfolded turn_ok_def]
  have "concat (tn_reads t) = concat (butlast (tn_reads t)) @ last (tn_reads t)"
    using t by (metis append_butlast_last_id concat_append concat.simps append_Nil2)
  then have "length (unsolved p @ concat (butlast (tn_reads t))) < length (request_text (tn_request t))"
    using t assms(4) by (metis append_Nil length_append length_greater_0_conv less_add_same_cancel1)
  moreover have "unsolved p @ concat (tn_reads t) = request_text (tn_request t) @ []" using t assms(4) by simp
  moreover obtain h where "rp_loop (request_text (tn_request t)) p SimpleRequest_new = Inr (kOK, [], p\<lparr>latestHeaderName := h\<rparr>, tn_request t)"
    using request_text_read [of "tn_request t" p "[]"] t assms(3) by auto
  ultimately obtain p' where p': "parse_reads (tn_reads t @ []) p SimpleRequest_new = Inr (kOK, p', tn_request t, [])"
      "unsolved p' = []" "rp_state p' = rp_state (p\<lparr>latestHeaderName := h\<rparr>)"
    using parse_reads_text [of "request_text (tn_request t)" p SimpleRequest_new "p\<lparr>latestHeaderName := h\<rparr>" "tn_request t" "tn_reads t" "[]" "[]"]
    by blast
  have "no_cr (sq_version (tn_request t))" using t by (simp add: no_cr_def)
  then obtain resp where resp: "MakeResponse fs True (tn_request t) SimpleResponse_new = Inr resp"
      "answers fs True (tn_request t) (response_bytes resp)"
    using MakeResponse_answers [OF assms(1)] by blast
  then obtain ret where "0 \<le> ret" "SendRequest resp (tn_head t) (tn_writes t) = (Some ret, chars_bytes (response_bytes resp))"
    using SendRequest_complete t by blast
  then have "simple_DoHttp fs (map Some (tn_reads t) @ later) ((tn_head t, tn_writes t) # sends) p SimpleRequest_new out =
      simple_DoHttp fs later sends p' SimpleRequest_new (out @ [chars_bytes (response_bytes resp)])"
    using DoHttp_reads [OF p'(1) [unfolded append_Nil2], of fs resp "tn_head t" "tn_writes t" ret "chars_bytes (response_bytes resp)" later sends out] resp t
    by simp
  then show ?thesis using p' assms(3) resp(2) by auto
qed


definition demo_fs :: simple_fs where
  "demo_fs = \<lparr>fs_stat = (\<lambda>path. if path = ''a'' then Inr \<lparr>st_dir = False, st_roth = True, st_size = 3\<rparr> else Inl 2),
     fs_open = (\<lambda>path. True), fs_mmap = (\<lambda>path n. Some (replicate n (CHR ''x'')))\<rparr>"

definition demo_turn :: "int \<Rightarrow> turn" where
  "demo_turn w = \<lparr>tn_reads = [take 4 demo_get, drop 4 demo_get], tn_request = demo_request, tn_head = w, tn_writes = [1, 2]\<rparr>"

lemma demo_turn_ok: "\<exists>w. turn_ok demo_fs (demo_turn w)"
proof -
  have fs: "fs_ok demo_fs" by (auto simp: fs_ok_def demo_fs_def)
  obtain resp where r: "MakeResponse demo_fs True demo_request SimpleResponse_new = Inr resp"
    using MakeResponse_answers [OF fs, of demo_request True] by (auto simp: demo_request_def no_cr_def)
  have "simple_answer demo_fs True demo_request = Inr ''xxx''"
    by (simp add: simple_answer_def simple_file_def simple_path_def demo_request_def demo_fs_def numeral_3_eq_3)
  then have "sp_mmap resp = None \<or> (\<exists>d. sp_mmap resp = Some (d, 3) \<and> length d = 3)"
    using r by (auto simp: MakeResponse_def MakeResponseHeaders_def demo_request_def demo_fs_def SimpleResponse_new_def
        kFirstLineWithoutVersion_def Let_def bind_result_eq_Inr split: if_splits option.splits)
  then have "complete_writes resp (int (length (sp_buf resp))) [1, 2]" by (auto simp: complete_writes_def)
  then show ?thesis using r demo_request_clean
    by (intro exI [of _ "int (length (sp_buf resp))"])
      (simp add: turn_ok_def demo_turn_def demo_request_text, simp add: demo_request_def demo_get_def)
qed


section \<open>Where the server goes wrong\<close>

text \<open>The path is the URI without its first slash: a second slash makes it absolute, and dots lead out of the directory of the
  server. Whatever others may read is sent.\<close>

lemma serves_any_path:
  assumes "fs_stat fs path = Inr s" "\<not> st_dir s" "st_roth s" "fs_open fs path" "fs_mmap fs path (st_size s) = Some d"
    and "sq_uri r = CHR ''/'' # path" "path \<noteq> []"
  shows "simple_answer fs True r = Inr d"
  using assms by (simp add: simple_answer_def simple_file_def simple_path_def)

text \<open>A request that arrives in the same read as the one before stays unanswered until more bytes come.\<close>

lemma second_request_waits:
  assumes "request_clean r1" "request_clean r2" "rp_state p = kMethod" "unsolved p = []" "sq_version r1 = ''HTTP/1.1''"
    and "MakeResponse fs True r1 SimpleResponse_new = Inr resp" "complete_writes resp w ws"
  shows "simple_DoHttp fs [Some (request_text r1 @ request_text r2)] ((w, ws) # sends) p SimpleRequest_new out =
     Inr (out @ [chars_bytes (response_bytes resp)], True)"
proof -
  obtain h where "rp_loop (request_text r1) p SimpleRequest_new = Inr (kOK, [], p\<lparr>latestHeaderName := h\<rparr>, r1)"
    using request_text_read [OF assms(1,3), of "[]"] by auto
  moreover have "0 < length (request_text r1)" by (simp add: request_text_def)
  ultimately obtain p' where "parse_reads [request_text r1 @ request_text r2] p SimpleRequest_new = Inr (kOK, p', r1, [])"
    using parse_reads_text [of "request_text r1" p SimpleRequest_new _ r1 "[request_text r1 @ request_text r2]" "request_text r2" "[]"] assms(4)
    by fastforce
  moreover obtain ret where "0 \<le> ret" "SendRequest resp w ws = (Some ret, chars_bytes (response_bytes resp))"
    using SendRequest_complete [OF assms(7)] by blast
  ultimately show ?thesis
    using DoHttp_reads [where reads = "[request_text r1 @ request_text r2]" and later = "[]" and st = kOK and r' = r1] assms(5,6) by simp
qed

text \<open>The head is written once: what a write does not take is never sent, and the file follows all the same.\<close>

lemma head_cut_short:
  assumes "sp_mmap resp = Some (d, n)" "0 \<le> ret" "list_all (\<lambda>x. 0 \<le> x) ws" "sum_list (map nat ws) = length (take n d)"
  shows "SendRequest resp ret ws = (Some (int (length (take n d))), take (nat ret) (chars_bytes (sp_buf resp)) @ chars_bytes (take n d))"
  using assms WriteN_complete [of ws 0 "chars_bytes (take n d)"] by (simp add: SendRequest_def chars_bytes_def)

text \<open>An empty file cannot be mapped: it is answered with 500.\<close>

lemma empty_file_fails:
  assumes "fs_stat fs (simple_path r) = Inr s" "\<not> st_dir s" "st_roth s" "fs_open fs (simple_path r)" "fs_mmap fs (simple_path r) (st_size s) = None"
  shows "simple_file fs r = Inl 500"
  using assms by (simp add: simple_file_def)

end
