(* ===== verification/SimpleHttpTests.thy ===== *)
theory SimpleHttpTests
  imports SimpleHttpParser
begin

text \<open>
  The tests of the request parser that come with the program, \<open>examples/simple/simplehttp/RequestParserTest.cpp\<close>: each test case is a
  function that makes its calls and takes all its checks together, and is evaluated on the model of \<open>SimpleHttpParser\<close>. What the program's authors
  expect of the code, the model does.
\<close>

section \<open>The requests\<close>

definition basic_r1 :: string where
  "basic_r1 =
     ''GET / HTTP/1.1'' @ kCRLF @ kCRLF"

definition basic_r2 :: string where
  "basic_r2 =
     ''GET /someaddr?key1=value1#frag HTTP/1.1'' @ kCRLF @
     ''Host: www.xxxx.com:80'' @ kCRLF @
     ''Connection: close'' @ kCRLF @
     ''Accept: application/json, text/javascript, */*; q=0.01'' @ kCRLF @
     ''X-Requested-With: XMLHttpRequest'' @ kCRLF @
     ''User-Agent: Mozilla/5.0 (Windows NT 10.0; Win64; x64) AppleWebKit/537.36 (KHTML, like Gecko) Chrome/96.0.4664.110 Safari/537.36'' @ kCRLF @
     ''Accept-Language: zh-CN,zh;q=0.9,en-US;q=0.8,en;q=0.7'' @ kCRLF @
     ''Cookie: 123=456;'' @ kCRLF @ kCRLF"

definition post_r :: string where
  "post_r =
     ''POST /addr HTTP/1.0'' @ kCRLF @
     ''Connection: close'' @ kCRLF @
     ''Content-Length: 35'' @ kCRLF @ kCRLF @
     ''key1=value1&''"

definition post_r1 :: string where
  "post_r1 =
     ''key2=value2&key3=value3''"

definition pieces_r1 :: string where
  "pieces_r1 =
     ''GET / HTTP/1.1'' @ kCRLF @ kCRLF @
     ''GET /someaddr?key1=value1#frag HTTP/1.1'' @ kCRLF @
     ''Host: www.xx''"

definition pieces_r2 :: string where
  "pieces_r2 =
     ''xx.com:80'' @ kCRLF @
     ''Connection: close'' @ kCRLF @
     ''Accept: application/''"

definition pieces_r3 :: string where
  "pieces_r3 =
     ''json, text/javascript, */*; q=0.01'' @ kCRLF @
     ''X-Requested-With: XMLHttpRequest'' @ kCRLF @
     ''User-Agent: Mozilla/5.0 (Windows NT 10.0; Win64; x64) AppleWebKit/537.36 ''"

definition pieces_r4 :: string where
  "pieces_r4 =
     ''(KHTML, like Gecko) Chrome/96.0.4664.110 Safari/537.36'' @ kCRLF @
     ''Accept-Language: zh-CN,zh;q=0.9,en-US;q=0.8,en;q=0.7'' @ kCRLF @
     ''Cookie: 123=456;'' @ kCRLF @ kCRLF @
     ''POST ''"

definition pieces_r5 :: string where
  "pieces_r5 =
     ''/addr HTTP/1.0'' @ kCRLF @
     ''Connection: close'' @ kCRLF @
     ''Content-Length: 35'' @ kCRLF @ kCRLF @
     ''key1=value1&key2=value2&key3=value3''"

definition bad_r1 :: string where
  "bad_r1 =
     ''OPTIONSx''"

definition bad_r2 :: string where
  "bad_r2 =
     ''POST / HTTP/1.0'' @ kCRLF @
     ''Connection: close'' @ kCRLF @
     ''Content-Length: xxx'' @ kCRLF @ kCRLF @
     ''xx''"

definition bad_r3 :: string where
  "bad_r3 =
     ''XXX / HTTP/1.0'' @ kCRLF @ kCRLF"

definition bad_r4 :: string where
  "bad_r4 =
     ''POST /addr HTTP/1.0'' @ kCRLF @ kCRLF @
     ''bad request''"

section \<open>The checks\<close>

definition no_request :: "SimpleRequest \<Rightarrow> bool" where
  "no_request rq \<longleftrightarrow> sq_method rq = ''GET'' \<and> sq_uri rq = ''/'' \<and> sq_query rq = [] \<and> sq_fragment rq = [] \<and> sq_version rq = ''HTTP/1.1''
     \<and> sq_headers rq = [] \<and> sq_body rq = []"

definition checks_get :: "SimpleRequest \<Rightarrow> bool" where
  "checks_get rq \<longleftrightarrow> sq_method rq = ''GET'' \<and> sq_uri rq = ''/someaddr'' \<and> sq_query rq = ''key1=value1'' \<and> sq_fragment rq = ''frag''
     \<and> sq_version rq = ''HTTP/1.1'' \<and> length (sq_headers rq) = 7
     \<and> smap_get (sq_headers rq) ''Host'' = Some ''www.xxxx.com:80'' \<and> smap_get (sq_headers rq) ''Connection'' = Some ''close''
     \<and> smap_get (sq_headers rq) ''Accept'' = Some ''application/json, text/javascript, */*; q=0.01''
     \<and> smap_get (sq_headers rq) ''X-Requested-With'' = Some ''XMLHttpRequest''
     \<and> smap_get (sq_headers rq) ''User-Agent'' = Some (''Mozilla/5.0 (Windows NT 10.0; Win64; x64) AppleWebKit/537.36 '' @
          ''(KHTML, like Gecko) Chrome/96.0.4664.110 Safari/537.36'')
     \<and> smap_get (sq_headers rq) ''Accept-Language'' = Some ''zh-CN,zh;q=0.9,en-US;q=0.8,en;q=0.7''
     \<and> smap_get (sq_headers rq) ''Cookie'' = Some ''123=456;''"

definition checks_post :: "SimpleRequest \<Rightarrow> bool" where
  "checks_post rq \<longleftrightarrow> sq_method rq = ''POST'' \<and> sq_uri rq = ''/addr'' \<and> sq_query rq = [] \<and> sq_fragment rq = [] \<and> sq_version rq = ''HTTP/1.0''
     \<and> length (sq_headers rq) = 2 \<and> smap_get (sq_headers rq) ''Connection'' = Some ''close''
     \<and> smap_get (sq_headers rq) ''Content-Length'' = Some ''35''
     \<and> length (sq_body rq) = 35 \<and> sq_body rq = ''key1=value1&key2=value2&key3=value3''"

text \<open>A call to \<open>Parse\<close> whose state is checked.\<close>

definition parse_check :: "ParseState \<Rightarrow> string \<Rightarrow> RequestParser \<Rightarrow> SimpleRequest \<Rightarrow> (RequestParser \<times> SimpleRequest) option" where
  "parse_check expected content p rq = (case RequestParser_Parse content p rq of
      Inl e \<Rightarrow> None | Inr (st, p', rq') \<Rightarrow> if st = expected then Some (p', rq') else None)"

definition test_basic :: bool where
  "test_basic = (case parse_check kOK basic_r1 RequestParser_new SimpleRequest_new of None \<Rightarrow> False | Some (p1, request1) \<Rightarrow>
     no_request request1 \<and>
     (case parse_check kOK basic_r2 p1 SimpleRequest_new of None \<Rightarrow> False | Some (p2, request2) \<Rightarrow> checks_get request2))"

definition test_post_with_body :: bool where
  "test_post_with_body = (case parse_check kKEEP post_r RequestParser_new SimpleRequest_new of None \<Rightarrow> False | Some (p1, request1) \<Rightarrow>
     (case parse_check kOK post_r1 p1 request1 of None \<Rightarrow> False | Some (p2, request1) \<Rightarrow> checks_post request1))"

definition test_pieces :: bool where
  "test_pieces = (case parse_check kOK pieces_r1 RequestParser_new SimpleRequest_new of None \<Rightarrow> False | Some (p1, request1) \<Rightarrow>
     no_request request1 \<and>
     (case parse_check kKEEP pieces_r2 p1 SimpleRequest_new of None \<Rightarrow> False | Some (p2, request2) \<Rightarrow>
     (case parse_check kKEEP pieces_r3 p2 request2 of None \<Rightarrow> False | Some (p3, request2) \<Rightarrow>
     (case parse_check kOK pieces_r4 p3 request2 of None \<Rightarrow> False | Some (p4, request2) \<Rightarrow>
     checks_get request2 \<and> sq_body request2 = [] \<and>
     (case parse_check kOK pieces_r5 p4 SimpleRequest_new of None \<Rightarrow> False | Some (p5, request3) \<Rightarrow> checks_post request3)))))"

definition test_bad_request :: bool where
  "test_bad_request = (case parse_check kBAD bad_r1 RequestParser_new SimpleRequest_new of None \<Rightarrow> False | Some (p1, request1) \<Rightarrow>
     (case parse_check kBAD bad_r2 (RequestParser_Reset p1) request1 of None \<Rightarrow> False | Some (p2, request1) \<Rightarrow>
     (case parse_check kBAD bad_r3 (RequestParser_Reset p2) request1 of None \<Rightarrow> False | Some (p3, request1) \<Rightarrow>
     (case parse_check kOK bad_r4 (RequestParser_Reset p3) request1 of None \<Rightarrow> False | Some (p4, request1) \<Rightarrow>
      parse_check kBAD [] p4 request1 \<noteq> None))))"

section \<open>The tests pass\<close>

text \<open>The bound of \<open>long\<close> is compared in binary.\<close>

lemma GetBodySize_code [code]:
  "GetBodySize request = (case smap_get (sq_headers request) ''Content-Length'' of
      None \<Rightarrow> Inr 0
    | Some v \<Rightarrow> let n = fst (read_digits 0 v) in if (9223372036854775807 :: int) < int n then Inl Undefined else Inr n)"
proof -
  have "LONG_MAX < n \<longleftrightarrow> (9223372036854775807 :: int) < int n" for n by (simp add: LONG_MAX_def)
  then show ?thesis by (simp only: GetBodySize_def)
qed

lemma test_basic_passes: "test_basic"
  by code_simp

lemma test_post_with_body_passes: "test_post_with_body"
  by code_simp

lemma test_pieces_passes: "test_pieces"
  by code_simp

lemma test_bad_request_passes: "test_bad_request"
  by code_simp

end
