(* ===== verification/ChatRoom.thy ===== *)
theory ChatRoom
  imports Endian
begin

text \<open>
  The chat room of \<open>examples/asio/chatroom\<close>: \<open>ChatMessage.h\<close>, \<open>ChatServer.cpp\<close> and \<open>ChatClient.cpp\<close>.

  \<^item> The server is a transition system. Its connections run on several threads; between two suspensions a coroutine of a
    connection meets the others only in the room, whose operations hold its mutex. So an event is a connection that joins,
    bytes that arrive, one turn of \<open>DoRead\<close>, a failed read, a spawned \<open>AddMessage\<close>, or the end of a \<open>WriteN\<close>.
  \<^item> Connections are numbered; \<open>room_log\<close>, \<open>ch_delivered\<close>, \<open>ch_from\<close> and \<open>ch_wire\<close> are ghosts: all messages delivered to the
    room, those delivered to a connection, the place of the first of them in the log, and the bytes written to its socket.
  \<^item> Closing a socket drops the coroutines that wait on its descriptor. A new \<open>ChatMessage\<close> has the bytes \<open>junk\<close>.

  The lemmas show that every connection receives a segment of the one log, in order, and that the client prints it.
\<close>

section \<open>Messages\<close>

definition kHeaderLength :: nat where "kHeaderLength = 4"
definition kMaxBodyLength :: nat where "kMaxBodyLength = 512"

record ChatMessage =
  cm_data :: "byte list"
  cm_bodyLength :: nat

definition ChatMessage_new :: "byte list \<Rightarrow> ChatMessage" where
  "ChatMessage_new junk = \<lparr>cm_data = junk, cm_bodyLength = 0\<rparr>"

definition cm_Length :: "ChatMessage \<Rightarrow> nat" where
  "cm_Length m = kHeaderLength + cm_bodyLength m"

definition BodyLength_set :: "nat \<Rightarrow> ChatMessage \<Rightarrow> ChatMessage" where
  "BodyLength_set newLength m = m\<lparr>cm_bodyLength := (if newLength > kMaxBodyLength then kMaxBodyLength else newLength)\<rparr>"

definition DecodeHeader :: "ChatMessage \<Rightarrow> bool \<times> ChatMessage" where
  "DecodeHeader m =
     (let value = load_le (take kHeaderLength (cm_data m)) :: 32 word;
          m1 = m\<lparr>cm_bodyLength := unat (Network32ToHost32 value)\<rparr>
      in if cm_bodyLength m1 > kMaxBodyLength then (False, m1\<lparr>cm_bodyLength := 0\<rparr>) else (True, m1))"

text \<open>\<open>memcpy\<close> and \<open>ReadN\<close> into \<open>data_\<close>.\<close>

definition store_at :: "nat \<Rightarrow> byte list \<Rightarrow> ChatMessage \<Rightarrow> ChatMessage" where
  "store_at pos bytes m = m\<lparr>cm_data := take pos (cm_data m) @ bytes @ drop (pos + length bytes) (cm_data m)\<rparr>"

definition EncodeHeader :: "ChatMessage \<Rightarrow> ChatMessage" where
  "EncodeHeader m = store_at 0 (store_le 4 (Host32ToNetwork32 (of_nat (cm_bodyLength m)))) m"

text \<open>The bytes that are sent, \<open>Data()\<close> up to \<open>Length()\<close>, and the body.\<close>

definition chat_frame :: "ChatMessage \<Rightarrow> byte list" where
  "chat_frame m = take (cm_Length m) (cm_data m)"

definition cm_Body :: "ChatMessage \<Rightarrow> byte list" where
  "cm_Body m = take (cm_bodyLength m) (drop kHeaderLength (cm_data m))"

text \<open>One message read from the front of the bytes that have arrived: \<open>None\<close> while a \<open>ReadN\<close> waits; then the message or \<open>None\<close>
  for a header that is refused, and the bytes left.\<close>

definition chat_take :: "byte list \<Rightarrow> byte list \<Rightarrow> (ChatMessage option \<times> byte list) option" where
  "chat_take junk s =
     (if length s < kHeaderLength then None
      else case DecodeHeader (store_at 0 (take kHeaderLength s) (ChatMessage_new junk)) of (ok, m) \<Rightarrow>
        let rest = drop kHeaderLength s in
        if \<not> ok then Some (None, rest)
        else if cm_bodyLength m = 0 then Some (Some m, rest)
        else if length rest < cm_bodyLength m then None
        else Some (Some (store_at kHeaderLength (take (cm_bodyLength m) rest) m), drop (cm_bodyLength m) rest))"

section \<open>The server\<close>

record chat_conn =
  ch_connected :: bool
  ch_reading :: bool
  ch_input :: "byte list"
  ch_spawned :: "ChatMessage list"
  ch_temp :: "byte list"
  ch_buffer :: "byte list"
  ch_isWriting :: bool
  ch_wire :: "byte list"
  ch_delivered :: "ChatMessage list"
  ch_from :: nat

definition ChatConnection_new :: chat_conn where
  "ChatConnection_new = \<lparr>ch_connected = True, ch_reading = False, ch_input = [], ch_spawned = [], ch_temp = [], ch_buffer = [],
     ch_isWriting = False, ch_wire = [], ch_delivered = [], ch_from = 0\<rparr>"

definition Conn_Deliver :: "ChatMessage \<Rightarrow> chat_conn \<Rightarrow> chat_conn" where
  "Conn_Deliver message c = c\<lparr>ch_spawned := ch_spawned c @ [message], ch_delivered := ch_delivered c @ [message]\<rparr>"

definition Conn_Close :: "chat_conn \<Rightarrow> chat_conn" where
  "Conn_Close c = c\<lparr>ch_connected := False, ch_reading := False\<rparr>"

text \<open>The head of the loop of \<open>DoWrite\<close>, and its first turn.\<close>

definition Conn_write_turn :: "chat_conn \<Rightarrow> chat_conn" where
  "Conn_write_turn c = (if ch_temp c = [] then c\<lparr>ch_isWriting := False\<rparr> else c\<lparr>ch_buffer := ch_temp c, ch_temp := ch_buffer c\<rparr>)"

definition Conn_DoWrite :: "chat_conn \<Rightarrow> chat_conn" where
  "Conn_DoWrite c = (if \<not> ch_connected c then c else Conn_write_turn (c\<lparr>ch_isWriting := True\<rparr>))"

definition AddMessage :: "ChatMessage \<Rightarrow> chat_conn \<Rightarrow> chat_conn" where
  "AddMessage message c =
     (let c1 = c\<lparr>ch_temp := ch_temp c @ chat_frame message\<rparr> in if \<not> ch_isWriting c1 then Conn_DoWrite c1 else c1)"

definition Conn_task :: "chat_conn \<Rightarrow> chat_conn" where
  "Conn_task c = (case ch_spawned c of [] \<Rightarrow> c | m # ms \<Rightarrow> AddMessage m (c\<lparr>ch_spawned := ms\<rparr>))"

text \<open>\<open>WriteN\<close> returns, all written or after \<open>k\<close> bytes with an error.\<close>

definition Conn_wrote :: "chat_conn \<Rightarrow> chat_conn" where
  "Conn_wrote c = (if ch_isWriting c \<and> ch_connected c
     then Conn_write_turn (c\<lparr>ch_wire := ch_wire c @ ch_buffer c, ch_buffer := []\<rparr>) else c)"

definition Conn_write_failed :: "nat \<Rightarrow> chat_conn \<Rightarrow> chat_conn" where
  "Conn_write_failed k c = (if ch_isWriting c \<and> ch_connected c
     then Conn_Close (c\<lparr>ch_wire := ch_wire c @ take k (ch_buffer c)\<rparr>) else c)"

record chat_room =
  hisotryMessages :: "ChatMessage list"
  room_members :: "nat set"
  room_conns :: "nat \<Rightarrow> chat_conn option"
  room_log :: "ChatMessage list"

definition kMaxHistoryMessagesSize :: nat where "kMaxHistoryMessagesSize = 100"

definition ChatRoom_new :: chat_room where
  "ChatRoom_new = \<lparr>hisotryMessages = [], room_members = {}, room_conns = (\<lambda>i. None), room_log = []\<rparr>"

definition on_conn :: "nat \<Rightarrow> (chat_conn \<Rightarrow> chat_conn) \<Rightarrow> chat_room \<Rightarrow> chat_room" where
  "on_conn i f r = r\<lparr>room_conns := (room_conns r)(i := map_option f (room_conns r i))\<rparr>"

definition Room_Join :: "nat \<Rightarrow> chat_conn \<Rightarrow> chat_room \<Rightarrow> chat_room" where
  "Room_Join i c r = r\<lparr>room_members := insert i (room_members r),
     room_conns := (room_conns r)(i \<mapsto> fold Conn_Deliver (hisotryMessages r) (c\<lparr>ch_from := length (room_log r) - kMaxHistoryMessagesSize\<rparr>))\<rparr>"

definition Room_Deliver :: "ChatMessage \<Rightarrow> chat_room \<Rightarrow> chat_room" where
  "Room_Deliver message r =
     (let h = hisotryMessages r @ [message] in
      r\<lparr>hisotryMessages := (if length h > kMaxHistoryMessagesSize then tl h else h),
        room_conns := (\<lambda>i. if i \<in> room_members r then map_option (Conn_Deliver message) (room_conns r i) else room_conns r i),
        room_log := room_log r @ [message]\<rparr>)"

definition Room_Leave :: "nat \<Rightarrow> chat_room \<Rightarrow> chat_room" where
  "Room_Leave i r = r\<lparr>room_members := room_members r - {i}\<rparr>"

text \<open>\<open>DoAccept\<close> with a new socket: the connection joins and its \<open>DoRead\<close> is started.\<close>

definition Chat_accept :: "nat \<Rightarrow> chat_room \<Rightarrow> chat_room" where
  "Chat_accept i r = on_conn i (\<lambda>c. c\<lparr>ch_reading := True\<rparr>) (Room_Join i ChatConnection_new r)"

text \<open>The end of \<open>DoRead\<close> after a failure.\<close>

definition read_over :: "nat \<Rightarrow> chat_room \<Rightarrow> chat_room" where
  "read_over i r = Room_Leave i (on_conn i Conn_Close r)"

text \<open>One turn of \<open>DoRead\<close>, when its reads have what they ask for.\<close>

definition Chat_DoRead_turn :: "byte list \<Rightarrow> nat \<Rightarrow> chat_room \<Rightarrow> chat_room" where
  "Chat_DoRead_turn junk i r = (case room_conns r i of None \<Rightarrow> r
     | Some c \<Rightarrow> if \<not> (ch_reading c \<and> ch_connected c) then r
         else (case chat_take junk (ch_input c) of None \<Rightarrow> r
           | Some (None, rest) \<Rightarrow> read_over i r
           | Some (Some message, rest) \<Rightarrow> Room_Deliver message (on_conn i (\<lambda>c. c\<lparr>ch_input := rest\<rparr>) r)))"

definition Chat_read_fails :: "nat \<Rightarrow> chat_room \<Rightarrow> chat_room" where
  "Chat_read_fails i r = (case room_conns r i of None \<Rightarrow> r
     | Some c \<Rightarrow> if ch_reading c \<and> ch_connected c then read_over i r else r)"

datatype chat_event =
    Joins nat
  | Arrives nat "byte list"
  | ReadsOne nat
  | ReadFails nat
  | Adds nat
  | Wrote nat
  | WriteFails nat nat

fun chat_step :: "byte list \<Rightarrow> chat_event \<Rightarrow> chat_room \<Rightarrow> chat_room" where
  "chat_step junk (Joins i) r = (if room_conns r i = None then Chat_accept i r else r)"
| "chat_step junk (Arrives i bytes) r = on_conn i (\<lambda>c. c\<lparr>ch_input := ch_input c @ bytes\<rparr>) r"
| "chat_step junk (ReadsOne i) r = Chat_DoRead_turn junk i r"
| "chat_step junk (ReadFails i) r = Chat_read_fails i r"
| "chat_step junk (Adds i) r = on_conn i Conn_task r"
| "chat_step junk (Wrote i) r = on_conn i Conn_wrote r"
| "chat_step junk (WriteFails i k) r = on_conn i (Conn_write_failed k) r"

fun chat_steps :: "byte list \<Rightarrow> chat_event list \<Rightarrow> chat_room \<Rightarrow> chat_room" where
  "chat_steps junk [] r = r"
| "chat_steps junk (e # es) r = chat_steps junk es (chat_step junk e r)"

section \<open>The client\<close>

text \<open>\<open>DoRead\<close> over the bytes that have arrived: the lines printed and whether it goes on.\<close>

function Client_DoRead :: "byte list \<Rightarrow> byte list \<Rightarrow> byte list list \<times> bool" where
  "Client_DoRead junk s = (case chat_take junk s of
      None \<Rightarrow> ([], True)
    | Some (None, rest) \<Rightarrow> ([], False)
    | Some (Some message, rest) \<Rightarrow> apfst (Cons (cm_Body message)) (Client_DoRead junk rest))"
  by pat_completeness auto
termination
  by (relation "measure (\<lambda>(junk, s). length s)")
    (auto simp: chat_take_def Let_def kHeaderLength_def split: if_splits prod.splits)

declare Client_DoRead.simps [simp del]

record chat_client =
  cl_connected :: bool
  cl_temp :: "ChatMessage list"
  cl_messageBuf :: "ChatMessage list"
  cl_isWriting :: bool
  cl_wire :: "byte list"

text \<open>\<open>DoWrite\<close> for one message; the writer then goes through \<open>cl_messageBuf\<close>, the messages still to be written.\<close>

definition Client_DoWrite :: "ChatMessage \<Rightarrow> chat_client \<Rightarrow> chat_client" where
  "Client_DoWrite message c =
     (if \<not> cl_connected c then c
      else let c1 = c\<lparr>cl_temp := cl_temp c @ [message]\<rparr> in
        if cl_isWriting c1 then c1
        else c1\<lparr>cl_isWriting := True, cl_messageBuf := cl_temp c1, cl_temp := cl_messageBuf c1\<rparr>)"

definition Client_wrote :: "chat_client \<Rightarrow> chat_client" where
  "Client_wrote c = (if cl_isWriting c \<and> cl_connected c then
     (case cl_messageBuf c of [] \<Rightarrow> c
      | m # ms \<Rightarrow> let c1 = c\<lparr>cl_wire := cl_wire c @ chat_frame m, cl_messageBuf := ms\<rparr>
                  in if ms = [] then c1\<lparr>cl_isWriting := False\<rparr> else c1) else c)"

text \<open>A line of the terminal as a message.\<close>

definition line_message :: "byte list \<Rightarrow> byte list \<Rightarrow> ChatMessage" where
  "line_message junk line =
     (let m1 = BodyLength_set (length line) (ChatMessage_new junk)
      in EncodeHeader (store_at kHeaderLength (take (cm_bodyLength m1) line) m1))"

section \<open>Frames\<close>

lemmas chat_sizes = kHeaderLength_def kMaxBodyLength_def

text \<open>A message whose header announces its body.\<close>

definition chat_msg_ok :: "ChatMessage \<Rightarrow> bool" where
  "chat_msg_ok m \<longleftrightarrow> length (cm_data m) = kHeaderLength + kMaxBodyLength \<and> cm_bodyLength m \<le> kMaxBodyLength
     \<and> take kHeaderLength (cm_data m) = store_le 4 (Host32ToNetwork32 (of_nat (cm_bodyLength m)))"

definition junk_ok :: "byte list \<Rightarrow> bool" where
  "junk_ok junk \<longleftrightarrow> length junk = kHeaderLength + kMaxBodyLength"

lemma load_stored_32: "Network32ToHost32 (load_le (store_le 4 (Host32ToNetwork32 v))) = v"
  by (simp add: load_store_le network_host_inverse)

lemma store_loaded_32: "length h = 4 \<Longrightarrow> store_le 4 (Host32ToNetwork32 (Network32ToHost32 (load_le h))) = h"
  using store_load_le [of h, where 'a = 32] by (simp add: network_host_inverse)

lemma chat_frame_split: "chat_msg_ok m \<Longrightarrow> chat_frame m = take kHeaderLength (cm_data m) @ cm_Body m"
  by (simp add: chat_frame_def cm_Length_def cm_Body_def take_add)

lemma length_chat_frame: "chat_msg_ok m \<Longrightarrow> length (chat_frame m) = kHeaderLength + cm_bodyLength m"
  by (simp add: chat_frame_def cm_Length_def chat_msg_ok_def)

lemma chat_frame_nonempty: "chat_msg_ok m \<Longrightarrow> chat_frame m \<noteq> []"
  using length_chat_frame [of m] by (auto simp: chat_sizes)

lemma DecodeHeader_read:
  "length h = 4 \<Longrightarrow> DecodeHeader (store_at 0 h (ChatMessage_new junk)) =
     (if 512 < unat (Network32ToHost32 (load_le h)) then (False, \<lparr>cm_data = h @ drop 4 junk, cm_bodyLength = 0\<rparr>)
      else (True, \<lparr>cm_data = h @ drop 4 junk, cm_bodyLength = unat (Network32ToHost32 (load_le h))\<rparr>))"
  by (simp add: DecodeHeader_def store_at_def ChatMessage_new_def Let_def chat_sizes)

lemma chat_take_sound:
  assumes "chat_take junk s = Some (Some m, rest)" "junk_ok junk"
  shows "chat_msg_ok m \<and> s = chat_frame m @ rest"
proof -
  define h where "h = take kHeaderLength s"
  define v where "v = Network32ToHost32 (load_le h)"
  define d where "d = h @ drop 4 junk"
  have len: "4 \<le> length s" using assms(1) by (auto simp: chat_take_def chat_sizes split: if_splits)
  then have h4: "length h = 4" "take 4 d = h" "length d = 516" using assms(2) by (simp_all add: h_def d_def junk_ok_def chat_sizes)
  note dec = DecodeHeader_read [OF h4(1), of junk, folded v_def d_def]
  have n: "unat v \<le> 512" "if unat v = 0 then m = \<lparr>cm_data = d, cm_bodyLength = 0\<rparr> \<and> rest = drop 4 s
      else unat v \<le> length s - 4 \<and> m = store_at 4 (take (unat v) (drop 4 s)) \<lparr>cm_data = d, cm_bodyLength = unat v\<rparr> \<and> rest = drop (unat v) (drop 4 s)"
    using assms(1) len unfolding chat_take_def h_def [symmetric] dec
    by (auto simp: chat_sizes Let_def split: if_splits)
  have hd: "store_le 4 (Host32ToNetwork32 v) = h" using store_loaded_32 [OF h4(1)] by (simp add: v_def)
  have sp: "s = h @ drop 4 s" by (simp add: h_def chat_sizes)
  show ?thesis
  proof (cases "unat v = 0")
    case True
    then have "v = 0" by (simp add: unsigned_eq_0_iff)
    then show ?thesis using n h4 hd sp True by (simp add: chat_msg_ok_def chat_sizes chat_frame_def cm_Length_def)
  next
    case False
    then show ?thesis using n h4 hd sp
      by (simp add: chat_msg_ok_def chat_sizes chat_frame_def cm_Length_def store_at_def take_add drop_drop)
        (metis append_assoc append_take_drop_id drop_drop)
  qed
qed

text \<open>Reading bytes that begin with the header of a message.\<close>

lemma chat_take_header:
  assumes "chat_msg_ok m" "take 4 s = take 4 (cm_data m)" "4 \<le> length s"
  shows "chat_take junk s =
     (let n = cm_bodyLength m; m1 = \<lparr>cm_data = take 4 s @ drop 4 junk, cm_bodyLength = n\<rparr> in
      if n = 0 then Some (Some m1, drop 4 s)
      else if length s < 4 + n then None
      else Some (Some (store_at 4 (take n (drop 4 s)) m1), drop (4 + n) s))"
proof -
  have l: "load_le (take 4 (cm_data m)) = Host32ToNetwork32 (of_nat (cm_bodyLength m))"
    using assms(1) by (simp add: chat_msg_ok_def chat_sizes load_store_le)
  have n: "cm_bodyLength m \<le> 512" using assms(1) by (simp add: chat_msg_ok_def chat_sizes)
  then have "unat (of_nat (cm_bodyLength m) :: 32 word) = cm_bodyLength m"
    by (simp add: unat_of_nat take_bit_nat_eq_self)
  then have v: "unat (Network32ToHost32 (load_le (take 4 s))) = cm_bodyLength m"
    by (simp add: assms(2) l network_host_inverse)
  have "length (take 4 s) = 4" using assms(3) by simp
  note dec = DecodeHeader_read [OF this, of junk, unfolded v]
  show ?thesis using assms(3) n by (simp add: chat_take_def chat_sizes dec Let_def add.commute) linarith
qed

lemma chat_take_frame:
  assumes "chat_msg_ok m" "junk_ok junk"
  shows "\<exists>m'. chat_take junk (chat_frame m @ rest) = Some (Some m', rest) \<and> chat_frame m' = chat_frame m \<and> cm_Body m' = cm_Body m"
proof -
  let ?n = "cm_bodyLength m" and ?s = "chat_frame m @ rest"
  have len: "length (chat_frame m) = 4 + ?n" "?n \<le> 512" "length (cm_data m) = 516"
    using length_chat_frame [OF assms(1)] assms(1) by (simp_all add: chat_msg_ok_def chat_sizes)
  have t4: "take 4 ?s = take 4 (cm_data m)" using len by (simp add: chat_frame_def cm_Length_def chat_sizes)
  have body: "take ?n (drop 4 ?s) = cm_Body m" "drop (4 + ?n) ?s = rest"
    using len by (simp_all add: chat_frame_def cm_Length_def cm_Body_def chat_sizes drop_take)
  have lb: "length (cm_Body m) = ?n" using len by (simp add: cm_Body_def chat_sizes)
  let ?d = "take 4 (cm_data m)"
  have fr: "chat_frame m = ?d @ cm_Body m" using chat_frame_split [OF assms(1)] by (simp add: chat_sizes)
  have l4: "length ?d = 4" using len by simp
  note tk = chat_take_header [OF assms(1) t4, of junk, unfolded Let_def t4]
  show ?thesis
  proof (cases "?n = 0")
    case True
    then have "cm_Body m = []" using lb by simp
    moreover have "chat_take junk ?s = Some (Some \<lparr>cm_data = ?d @ drop 4 junk, cm_bodyLength = 0\<rparr>, rest)"
      using tk True len body(2) by simp
    ultimately show ?thesis using fr l4 by (simp add: chat_frame_def cm_Length_def cm_Body_def chat_sizes)
  next
    case False
    let ?m = "store_at 4 (cm_Body m) \<lparr>cm_data = ?d @ drop 4 junk, cm_bodyLength = ?n\<rparr>"
    have "chat_take junk ?s = Some (Some ?m, rest)" using tk False len body by simp
    moreover have "chat_frame ?m = ?d @ cm_Body m" "cm_Body ?m = cm_Body m"
      using l4 lb by (simp_all add: chat_frame_def cm_Length_def cm_Body_def store_at_def chat_sizes)
    ultimately show ?thesis using fr by auto
  qed
qed

lemma chat_take_part:
  assumes "chat_msg_ok m" "strict_prefix part (chat_frame m)"
  shows "chat_take junk part = None"
proof (cases "4 \<le> length part")
  case True
  obtain zs where zs: "chat_frame m = part @ zs" "zs \<noteq> []" using assms(2) by (auto simp: strict_prefix_def prefix_def)
  then have lt: "length part < 4 + cm_bodyLength m"
    using length_chat_frame [OF assms(1)] by (simp add: chat_sizes) (metis add_less_cancel_left length_append length_greater_0_conv less_add_same_cancel1)
  have "take 4 part = take 4 (chat_frame m)" using True zs(1) by simp
  also have "\<dots> = take 4 (cm_data m)" by (simp add: chat_frame_def cm_Length_def chat_sizes)
  finally show ?thesis using chat_take_header [OF assms(1) _ True, of junk] lt True by (simp add: Let_def)
qed (simp add: chat_take_def chat_sizes)

lemma chat_take_Nil: "chat_take junk [] = None"
  by (simp add: chat_take_def chat_sizes)

text \<open>What the client prints of a stream of frames that has arrived in part.\<close>

lemma Client_reads_frames:
  assumes "junk_ok junk" "\<forall>m \<in> set ms. chat_msg_ok m" "prefix s (concat (map chat_frame ms))"
  shows "\<exists>k. Client_DoRead junk s = (map cm_Body (take k ms), True) \<and> (s = concat (map chat_frame ms) \<longrightarrow> k = length ms)"
  using assms(2,3)
proof (induction ms arbitrary: s)
  case Nil
  then show ?case by (simp add: Client_DoRead.simps chat_take_Nil)
next
  case (Cons m ms)
  have m: "chat_msg_ok m" using Cons.prems(1) by simp
  consider "strict_prefix s (chat_frame m)" | s' where "s = chat_frame m @ s'" "prefix s' (concat (map chat_frame ms))"
    using Cons.prems(2) by (cases "s = chat_frame m") (auto simp: prefix_append strict_prefix_def)
  then show ?case
  proof cases
    case 1
    then have "Client_DoRead junk s = (map cm_Body (take 0 (m # ms)), True)"
      using chat_take_part [OF m 1] by (simp add: Client_DoRead.simps)
    moreover have "s \<noteq> concat (map chat_frame (m # ms))" using 1 by (auto simp: strict_prefix_def prefix_def)
    ultimately show ?thesis by blast
  next
    case 2
    obtain k where k: "Client_DoRead junk s' = (map cm_Body (take k ms), True)" "s' = concat (map chat_frame ms) \<longrightarrow> k = length ms"
      using Cons.IH [OF _ 2(2)] Cons.prems(1) by auto
    obtain m' where "chat_take junk s = Some (Some m', s')" "cm_Body m' = cm_Body m"
      using chat_take_frame [OF m assms(1)] 2(1) by blast
    then have "Client_DoRead junk s = (map cm_Body (take (Suc k) (m # ms)), True)"
      using k(1) by (simp add: Client_DoRead.simps [of junk s])
    then show ?thesis using k(2) 2(1) by (intro exI [of _ "Suc k"]) auto
  qed
qed

section \<open>Invariants of the server\<close>

definition frames_of :: "ChatMessage list \<Rightarrow> byte list" where
  "frames_of ms = concat (map chat_frame ms)"

lemma frames_of_simps [simp]: "frames_of [] = []" "frames_of (m # ms) = chat_frame m @ frames_of ms" "frames_of (xs @ ys) = frames_of xs @ frames_of ys"
  by (simp_all add: frames_of_def)

text \<open>What a connection was handed is on the wire, in the buffer of its writer, in the other buffer, or in a task, in this order.\<close>

definition conn_inv :: "chat_conn \<Rightarrow> bool" where
  "conn_inv c \<longleftrightarrow> prefix (ch_wire c) (frames_of (ch_delivered c)) \<and> (\<forall>m \<in> set (ch_spawned c). chat_msg_ok m)
     \<and> (ch_connected c \<longrightarrow> ch_wire c @ ch_buffer c @ ch_temp c @ frames_of (ch_spawned c) = frames_of (ch_delivered c)
          \<and> (ch_isWriting c \<longleftrightarrow> ch_buffer c \<noteq> []) \<and> (\<not> ch_isWriting c \<longrightarrow> ch_temp c = []))"

lemma conn_inv_new: "conn_inv ChatConnection_new"
  by (simp add: conn_inv_def ChatConnection_new_def)

lemma delivered_new [simp]: "ch_delivered ChatConnection_new = []"
  by (simp add: ChatConnection_new_def)

lemma conn_inv_Deliver: "conn_inv c \<Longrightarrow> chat_msg_ok m \<Longrightarrow> conn_inv (Conn_Deliver m c)"
  by (auto simp: conn_inv_def Conn_Deliver_def append_assoc [symmetric] simp del: append_assoc intro: prefix_prefix)

lemma conn_inv_task: "conn_inv c \<Longrightarrow> conn_inv (Conn_task c)"
  using chat_frame_nonempty [of "hd (ch_spawned c)"]
  by (cases "ch_spawned c")
    (auto simp: conn_inv_def Conn_task_def AddMessage_def Conn_DoWrite_def Conn_write_turn_def Let_def)

lemma conn_inv_wrote: "conn_inv c \<Longrightarrow> conn_inv (Conn_wrote c)"
  by (auto simp: conn_inv_def Conn_wrote_def Conn_write_turn_def prefix_def)

lemma conn_inv_write_failed: "conn_inv c \<Longrightarrow> conn_inv (Conn_write_failed k c)"
proof -
  assume c: "conn_inv c"
  have "prefix (ch_wire c @ take k (ch_buffer c)) (frames_of (ch_delivered c))" if "ch_connected c"
  proof -
    have "frames_of (ch_delivered c) = ch_wire c @ ch_buffer c @ ch_temp c @ frames_of (ch_spawned c)"
      using c that by (simp add: conn_inv_def)
    moreover have "prefix (take k b) (b @ x)" for b x :: "byte list" by (metis prefix_prefix take_is_prefix)
    ultimately show ?thesis by simp
  qed
  then show ?thesis using c by (simp add: conn_inv_def Conn_write_failed_def Conn_Close_def)
qed

lemma conn_inv_close: "conn_inv c \<Longrightarrow> conn_inv (Conn_Close c)"
  by (simp add: conn_inv_def Conn_Close_def)

lemma conn_inv_update [simp]:
  "conn_inv (c\<lparr>ch_input := x\<rparr>) = conn_inv c" "conn_inv (c\<lparr>ch_reading := b\<rparr>) = conn_inv c" "conn_inv (c\<lparr>ch_from := n\<rparr>) = conn_inv c"
  by (simp_all add: conn_inv_def)

lemma delivered_kept [simp]:
  "ch_delivered (Conn_task c) = ch_delivered c" "ch_from (Conn_task c) = ch_from c"
  "ch_delivered (Conn_wrote c) = ch_delivered c" "ch_from (Conn_wrote c) = ch_from c"
  "ch_delivered (Conn_write_failed k c) = ch_delivered c" "ch_from (Conn_write_failed k c) = ch_from c"
  "ch_delivered (Conn_Close c) = ch_delivered c" "ch_from (Conn_Close c) = ch_from c"
  by (auto simp: Conn_task_def AddMessage_def Conn_DoWrite_def Conn_write_turn_def Conn_wrote_def Conn_write_failed_def
      Conn_Close_def Let_def split: list.splits)

definition room_inv :: "chat_room \<Rightarrow> bool" where
  "room_inv r \<longleftrightarrow> (\<forall>m \<in> set (room_log r). chat_msg_ok m)
     \<and> hisotryMessages r = drop (length (room_log r) - kMaxHistoryMessagesSize) (room_log r)
     \<and> (\<forall>i c. room_conns r i = Some c \<longrightarrow> conn_inv c \<and> prefix (ch_delivered c) (drop (ch_from c) (room_log r))
          \<and> ch_from c \<le> length (room_log r)
          \<and> (i \<in> room_members r \<longrightarrow> ch_delivered c = drop (ch_from c) (room_log r)))"

lemma room_inv_new: "room_inv ChatRoom_new"
  by (simp add: room_inv_def ChatRoom_new_def)

lemma room_inv_on_conn:
  assumes "room_inv r" "\<And>c. conn_inv c \<Longrightarrow> conn_inv (f c)" "\<And>c. ch_delivered (f c) = ch_delivered c" "\<And>c. ch_from (f c) = ch_from c"
  shows "room_inv (on_conn i f r)"
  using assms by (auto simp: room_inv_def on_conn_def split: if_splits)

lemma fold_Deliver:
  "conn_inv c \<Longrightarrow> \<forall>m \<in> set ms. chat_msg_ok m \<Longrightarrow>
   conn_inv (fold Conn_Deliver ms c) \<and> ch_delivered (fold Conn_Deliver ms c) = ch_delivered c @ ms \<and> ch_from (fold Conn_Deliver ms c) = ch_from c"
proof (induction ms arbitrary: c)
  case (Cons m ms)
  have "conn_inv (Conn_Deliver m c)" using Cons.prems by (simp add: conn_inv_Deliver)
  then show ?case using Cons.IH [of "Conn_Deliver m c"] Cons.prems by (simp add: Conn_Deliver_def)
qed simp

lemma room_inv_accept: "room_inv r \<Longrightarrow> room_inv (Chat_accept i r)"
proof -
  assume r: "room_inv r"
  let ?n = "length (room_log r) - kMaxHistoryMessagesSize"
  have "\<forall>m \<in> set (hisotryMessages r). chat_msg_ok m" using r by (auto simp: room_inv_def dest: in_set_dropD)
  then have "let c = fold Conn_Deliver (hisotryMessages r) (ChatConnection_new\<lparr>ch_from := ?n\<rparr>) in
      conn_inv c \<and> ch_delivered c = drop ?n (room_log r) \<and> ch_from c = ?n"
    using fold_Deliver [of "ChatConnection_new\<lparr>ch_from := ?n\<rparr>" "hisotryMessages r"] conn_inv_new r
    by (simp add: Let_def room_inv_def)
  then show ?thesis using r by (auto simp: room_inv_def Chat_accept_def Room_Join_def on_conn_def Let_def)
qed

lemma room_inv_Deliver:
  assumes "room_inv r" "chat_msg_ok m"
  shows "room_inv (Room_Deliver m r)"
proof -
  let ?L = "room_log r" and ?h = "hisotryMessages r @ [m]"
  have h: "hisotryMessages r = drop (length ?L - 100) ?L" using assms(1) by (simp add: room_inv_def kMaxHistoryMessagesSize_def)
  have "(if 100 < length ?h then tl ?h else ?h) = drop (length (?L @ [m]) - 100) (?L @ [m])"
  proof (cases "length ?L < 100")
    case True
    then show ?thesis using h by simp
  next
    case False
    then have "length ?h = 101" using h by simp
    moreover have "tl (drop (length ?L - 100) (?L @ [m])) = drop (Suc (length ?L) - 100) (?L @ [m])"
      using False Suc_diff_le [of 100 "length ?L"] by (simp add: drop_Suc tl_drop)
    ultimately show ?thesis using False h by simp
  qed
  moreover have "conn_inv c' \<and> prefix (ch_delivered c') (drop (ch_from c') (?L @ [m])) \<and> ch_from c' \<le> length (?L @ [m])
      \<and> (i \<in> room_members r \<longrightarrow> ch_delivered c' = drop (ch_from c') (?L @ [m]))"
    if "room_conns (Room_Deliver m r) i = Some c'" for i c'
  proof -
    have c': "c' = (if i \<in> room_members r then Conn_Deliver m c else c)" if "room_conns r i = Some c" for c
      using that \<open>room_conns (Room_Deliver m r) i = Some c'\<close> by (simp add: Room_Deliver_def Let_def split: if_splits)
    obtain c where c: "room_conns r i = Some c" "c' = (if i \<in> room_members r then Conn_Deliver m c else c)"
      using \<open>room_conns (Room_Deliver m r) i = Some c'\<close> c' by (cases "room_conns r i") (auto simp: Room_Deliver_def Let_def split: if_splits)
    then have "conn_inv c" "prefix (ch_delivered c) (drop (ch_from c) ?L)" "ch_from c \<le> length ?L"
        "i \<in> room_members r \<longrightarrow> ch_delivered c = drop (ch_from c) ?L"
      using assms(1) by (simp_all add: room_inv_def)
    then show ?thesis using c(2) assms(2) by (auto simp: conn_inv_Deliver) (auto simp: Conn_Deliver_def intro: prefix_prefix)
  qed
  moreover have "room_log (Room_Deliver m r) = ?L @ [m]" "room_members (Room_Deliver m r) = room_members r"
      "hisotryMessages (Room_Deliver m r) = (if 100 < length ?h then tl ?h else ?h)"
    by (simp_all add: Room_Deliver_def Let_def kMaxHistoryMessagesSize_def)
  moreover have "\<forall>x \<in> set (?L @ [m]). chat_msg_ok x" using assms by (simp add: room_inv_def)
  ultimately show ?thesis unfolding room_inv_def kMaxHistoryMessagesSize_def by presburger
qed

lemma room_inv_read_over: "room_inv r \<Longrightarrow> room_inv (read_over i r)"
  using room_inv_on_conn [of r Conn_Close i] by (auto simp: conn_inv_close read_over_def room_inv_def Room_Leave_def)

lemma room_inv_turn:
  assumes "room_inv r" "junk_ok junk"
  shows "room_inv (Chat_DoRead_turn junk i r)"
proof -
  have "room_inv (Room_Deliver m (on_conn i (\<lambda>c. c\<lparr>ch_input := rest\<rparr>) r))" if "chat_msg_ok m" for m rest
    by (rule room_inv_Deliver [OF room_inv_on_conn [OF assms(1)] that]) simp_all
  then show ?thesis using assms chat_take_sound
    by (auto simp: Chat_DoRead_turn_def room_inv_read_over split: option.splits)
qed

lemma room_inv_step: "room_inv r \<Longrightarrow> junk_ok junk \<Longrightarrow> room_inv (chat_step junk e r)"
proof (cases e)
  case (ReadFails i)
  assume "room_inv r"
  then show ?thesis by (auto simp: ReadFails Chat_read_fails_def room_inv_read_over split: option.splits)
qed (simp_all add: room_inv_accept room_inv_turn room_inv_on_conn conn_inv_task conn_inv_wrote conn_inv_write_failed)

lemma room_inv_steps: "room_inv r \<Longrightarrow> junk_ok junk \<Longrightarrow> room_inv (chat_steps junk es r)"
  by (induction es arbitrary: r) (simp_all add: room_inv_step)

text \<open>The log only grows, and a connection keeps its place in it.\<close>

lemma log_grows: "prefix (room_log r) (room_log (chat_step junk e r))"
  by (cases e) (auto simp: on_conn_def Chat_accept_def Room_Join_def Chat_DoRead_turn_def Chat_read_fails_def read_over_def
      Room_Leave_def Room_Deliver_def Let_def split: option.splits)

section \<open>Properties\<close>

text \<open>C19: Everyone in the room reads the same conversation. Whatever connections join, send, read late, fail and leave, in any
  interleaving of their threads, the messages delivered to the room form one log, and what a client prints of the bytes written to
  its connection is the bodies of a segment of this log without gaps or repetitions, from the place that was fixed when it
  joined (at most 100 messages back), and no message is refused. While it is connected and a member, nothing is lost: when its tasks and
  buffers are empty the segment reaches to the end of the log.\<close>

theorem chat_same_log:
  assumes "junk_ok junk" "room_conns (chat_steps junk es ChatRoom_new) i = Some c"
  shows "\<exists>k. Client_DoRead junk (ch_wire c) = (map cm_Body (take k (drop (ch_from c) (room_log (chat_steps junk es ChatRoom_new)))), True)
     \<and> (ch_connected c \<and> i \<in> room_members (chat_steps junk es ChatRoom_new) \<and> ch_spawned c = [] \<and> \<not> ch_isWriting c
        \<longrightarrow> k = length (room_log (chat_steps junk es ChatRoom_new)) - ch_from c)"
proof -
  let ?r = "chat_steps junk es ChatRoom_new"
  have inv: "room_inv ?r" by (rule room_inv_steps [OF room_inv_new assms(1)])
  then have c: "conn_inv c" "prefix (ch_delivered c) (drop (ch_from c) (room_log ?r))" "ch_from c \<le> length (room_log ?r)"
      "i \<in> room_members ?r \<Longrightarrow> ch_delivered c = drop (ch_from c) (room_log ?r)"
    and ok: "\<forall>m \<in> set (ch_delivered c). chat_msg_ok m"
    using assms(2) by (auto simp: room_inv_def dest!: set_mono_prefix in_set_dropD)
  obtain n where n: "ch_delivered c = take n (drop (ch_from c) (room_log ?r))"
    using c(2) by (metis append_eq_conv_conj prefix_def)
  obtain k where k: "Client_DoRead junk (ch_wire c) = (map cm_Body (take k (ch_delivered c)), True)"
      "ch_wire c = concat (map chat_frame (ch_delivered c)) \<longrightarrow> k = length (ch_delivered c)"
    using Client_reads_frames [OF assms(1) ok, of "ch_wire c"] c(1) by (auto simp: conn_inv_def frames_of_def)
  show ?thesis
  proof (cases "ch_connected c \<and> i \<in> room_members ?r \<and> ch_spawned c = [] \<and> \<not> ch_isWriting c")
    case True
    then have "ch_wire c = concat (map chat_frame (ch_delivered c))" using c(1) by (auto simp: conn_inv_def frames_of_def)
    then show ?thesis using k c(4) True by auto
  next
    case False
    then show ?thesis using k(1) n by (intro exI [of _ "min k n"]) auto
  qed
qed

definition demo_junk :: "byte list" where
  "demo_junk = replicate 516 0"

lemma demo_junk_ok: "junk_ok demo_junk"
  by (simp add: junk_ok_def demo_junk_def chat_sizes)

text \<open>A line of the terminal becomes a message that carries its first 512 bytes.\<close>

lemma line_message_ok:
  assumes "junk_ok junk"
  shows "chat_msg_ok (line_message junk line) \<and> cm_Body (line_message junk line) = take kMaxBodyLength line"
proof -
  let ?n = "min (length line) 512"
  have "BodyLength_set (length line) (ChatMessage_new junk) = \<lparr>cm_data = junk, cm_bodyLength = ?n\<rparr>"
    by (simp add: BodyLength_set_def ChatMessage_new_def chat_sizes min_def)
  then have "line_message junk line = \<lparr>cm_data = store_le 4 (Host32ToNetwork32 (of_nat ?n)) @ take ?n line @ drop (4 + ?n) junk, cm_bodyLength = ?n\<rparr>"
    using assms by (simp add: line_message_def EncodeHeader_def store_at_def chat_sizes Let_def junk_ok_def)
  then show ?thesis using assms by (auto simp: chat_msg_ok_def cm_Body_def chat_sizes junk_ok_def min_def)
qed

definition demo_line :: ChatMessage where
  "demo_line = line_message demo_junk [65]"

definition demo_chat :: "chat_event list" where
  "demo_chat = [Joins 1, Arrives 1 (chat_frame demo_line), ReadsOne 1, Joins 2, Adds 2, Wrote 2]"

lemma demo_chat_room:
  "\<exists>m c. chat_take demo_junk (chat_frame demo_line) = Some (Some m, []) \<and> cm_Body m = [65]
     \<and> room_conns (chat_steps demo_junk demo_chat ChatRoom_new) 2 = Some c \<and> ch_connected c \<and> ch_spawned c = [] \<and> \<not> ch_isWriting c
     \<and> ch_from c = 0 \<and> 2 \<in> room_members (chat_steps demo_junk demo_chat ChatRoom_new)
     \<and> room_log (chat_steps demo_junk demo_chat ChatRoom_new) = [m]"
proof -
  have ok: "chat_msg_ok demo_line" "cm_Body demo_line = [65]"
    using line_message_ok [OF demo_junk_ok, of "[65]"] by (simp_all add: demo_line_def chat_sizes)
  obtain m where m: "chat_take demo_junk (chat_frame demo_line @ []) = Some (Some m, [])" "chat_frame m = chat_frame demo_line" "cm_Body m = [65]"
    using chat_take_frame [OF ok(1) demo_junk_ok, of "[]"] ok(2) by metis
  have "chat_frame m \<noteq> []" using m(2) chat_frame_nonempty [OF ok(1)] by simp
  then show ?thesis using m(1,3)
    by (intro exI [of _ m]) (simp add: demo_chat_def ChatRoom_new_def Chat_accept_def on_conn_def Room_Join_def ChatConnection_new_def
        Chat_DoRead_turn_def Room_Deliver_def Let_def kMaxHistoryMessagesSize_def Conn_Deliver_def Conn_task_def AddMessage_def
        Conn_DoWrite_def Conn_write_turn_def Conn_wrote_def)
qed

theorem chat_same_log_witness:
  "\<exists>c. room_conns (chat_steps demo_junk demo_chat ChatRoom_new) 2 = Some c \<and> Client_DoRead demo_junk (ch_wire c) = ([[65]], True)"
proof -
  obtain m c where m: "cm_Body m = [65]" "room_conns (chat_steps demo_junk demo_chat ChatRoom_new) 2 = Some c" "ch_connected c"
      "ch_spawned c = []" "\<not> ch_isWriting c" "ch_from c = 0" "2 \<in> room_members (chat_steps demo_junk demo_chat ChatRoom_new)"
      "room_log (chat_steps demo_junk demo_chat ChatRoom_new) = [m]"
    using demo_chat_room by blast
  then show ?thesis using chat_same_log [OF demo_junk_ok m(2)] by auto
qed

section \<open>What goes wrong\<close>

text \<open>A connection whose write fails closes its socket, and with it the only coroutine that would leave the room: it stays
  a member, and every further message is appended to a buffer that nothing empties.\<close>

lemma failed_writer_stays:
  fixes junk k
  assumes "room_conns r i = Some c" "i \<in> room_members r" "ch_isWriting c" "ch_connected c"
  defines "r' \<equiv> chat_step junk (WriteFails i k) r"
  shows "i \<in> room_members (chat_step junk e r') \<and> (\<exists>c'. room_conns r' i = Some c' \<and> \<not> ch_reading c' \<and> \<not> ch_connected c' \<and> ch_isWriting c'
     \<and> ch_temp (AddMessage m c') = ch_temp c' @ chat_frame m \<and> ch_wire (AddMessage m c') = ch_wire c')"
proof -
  have c': "room_conns r' i = Some (Conn_write_failed k c)" "room_members r' = room_members r"
    using assms(1) by (simp_all add: r'_def on_conn_def)
  have d: "\<not> ch_reading (Conn_write_failed k c)" "\<not> ch_connected (Conn_write_failed k c)" "ch_isWriting (Conn_write_failed k c)"
    using assms(3,4) by (simp_all add: Conn_write_failed_def Conn_Close_def)
  have "i \<in> room_members (chat_step junk e r')"
    using assms(2) c' d by (cases e) (auto simp: on_conn_def Chat_accept_def Room_Join_def Chat_DoRead_turn_def Chat_read_fails_def
        read_over_def Room_Leave_def Room_Deliver_def Let_def split: option.splits)
  then show ?thesis using c'(1) d by (auto simp: AddMessage_def Let_def)
qed

text \<open>The writer of the client swaps its buffers once: a line that is entered while it writes stays behind until the next one.\<close>

lemma client_line_stuck:
  assumes "cl_connected c" "cl_isWriting c" "cl_messageBuf c = [m1]" "cl_temp c = []"
  shows "Client_wrote (Client_DoWrite m2 c) = c\<lparr>cl_wire := cl_wire c @ chat_frame m1, cl_messageBuf := [], cl_temp := [m2], cl_isWriting := False\<rparr>"
  using assms by (simp add: Client_DoWrite_def Client_wrote_def Let_def)

end
