(* ===== verification/Ttcp.thy ===== *)
theory Ttcp
  imports Endian
begin

text \<open>
  The throughput test of \<open>examples/simple/ttcp\<close>: \<open>TtcpCommon.h\<close>, and its two programs, \<open>TtcpBlocking.cpp\<close> on plain sockets and
  \<open>TtcpNonBlocking.cpp\<close> on the library.

  \<^item> Sender and receiver are two processes over two byte streams; a step is what one of them does between two of its calls to
    \<open>ReadN\<close> and \<open>WriteN\<close>. \<open>tt_received\<close> is a ghost: the payloads received.
  \<^item> A process that calls \<open>exit\<close> or fails its assertion has died. A payload beyond the allocated buffer is undefined.
  \<^item> The programs differ in \<open>fits\<close>, the comparison of the length read with the length expected: \<open>TtcpNonBlocking.cpp\<close> compares an
    \<open>ssize_t\<close> with an \<open>int\<close>.

  The lemmas show that the two always finish, and with what; \<open>htonl\<close> and \<open>ntohl\<close> are the conversions of \<open>Endian\<close>.
\<close>

section \<open>Whole reads and writes on a blocking socket\<close>

datatype call_result = Transferred "byte list" | Interrupted | CallFailed

datatype 'a blocking = Blocked | Exited | Returned 'a

text \<open>\<open>ReadN\<close> over the results of its reads: how many bytes were read, and the bytes.\<close>

fun blocking_ReadN :: "nat \<Rightarrow> call_result list \<Rightarrow> byte list \<Rightarrow> (nat \<times> byte list) blocking" where
  "blocking_ReadN n results buf =
     (if \<not> length buf < n then Returned (length buf, buf)
      else case results of
        [] \<Rightarrow> Blocked
      | Transferred bytes # rest \<Rightarrow>
          if bytes \<noteq> [] then blocking_ReadN n rest (buf @ bytes) else Returned (length buf, buf)
      | Interrupted # rest \<Rightarrow> blocking_ReadN n rest buf
      | CallFailed # rest \<Rightarrow> Exited)"

declare blocking_ReadN.simps [simp del]

text \<open>\<open>WriteN\<close> over the numbers of bytes its writes take (\<open>None\<close> for an interrupted call, \<open>Some None\<close> for a failed one).\<close>

fun blocking_WriteN :: "byte list \<Rightarrow> nat option option list \<Rightarrow> nat \<Rightarrow> byte list \<Rightarrow> (nat \<times> byte list) blocking" where
  "blocking_WriteN buf results already out =
     (if \<not> already < length buf then Returned (already, out)
      else case results of
        [] \<Rightarrow> Blocked
      | Some (Some k) # rest \<Rightarrow>
          if k > 0 then blocking_WriteN buf rest (already + k) (out @ take k (drop already buf)) else Returned (already, out)
      | None # rest \<Rightarrow> blocking_WriteN buf rest already out
      | Some None # rest \<Rightarrow> Exited)"

declare blocking_WriteN.simps [simp del]

section \<open>Messages\<close>

definition SessionMessage_bytes :: "32 word \<Rightarrow> 32 word \<Rightarrow> byte list" where
  "SessionMessage_bytes number len = store_le 4 (Host32ToNetwork32 number) @ store_le 4 (Host32ToNetwork32 len)"

definition payload_data :: "nat \<Rightarrow> byte list" where
  "payload_data len = map (\<lambda>i. of_char (''0123456789ABCDEF'' ! (i mod 16))) [0..<len]"

definition PayloadMessage_bytes :: "32 word \<Rightarrow> byte list" where
  "PayloadMessage_bytes len = store_le 4 (Host32ToNetwork32 len) @ payload_data (unat len)"

definition ack_bytes :: "32 word \<Rightarrow> byte list" where
  "ack_bytes n = store_le 4 (Host32ToNetwork32 n)"

definition ntohl :: "byte list \<Rightarrow> 32 word" where
  "ntohl bytes = Network32ToHost32 (load_le bytes)"

section \<open>The processes\<close>

datatype sender = SendSession | SendPayload nat | AwaitAck nat | SenderDone | SenderDied

datatype receiver =
    ReadSession
  | ReadLength nat "32 word" "32 word"
  | ReadPayload nat "32 word" "32 word" "32 word"
  | ReceiverDone
  | ReceiverDied
  | ReceiverUndefined

record ttcp =
  tt_sender :: sender
  tt_receiver :: receiver
  tt_up :: "byte list"
  tt_down :: "byte list"
  tt_received :: "byte list list"

text \<open>The head of the loop over the messages.\<close>

definition next_send :: "32 word \<Rightarrow> nat \<Rightarrow> sender" where
  "next_send number i = (if i < unat number then SendPayload i else SenderDone)"

definition next_receive :: "32 word \<Rightarrow> 32 word \<Rightarrow> nat \<Rightarrow> receiver" where
  "next_receive number len i = (if i < unat number then ReadLength i number len else ReceiverDone)"

text \<open>\<open>None\<close> when the process waits for bytes or is over.\<close>

definition sender_step :: "32 word \<Rightarrow> 32 word \<Rightarrow> ttcp \<Rightarrow> ttcp option" where
  "sender_step number len t = (case tt_sender t of
      SendSession \<Rightarrow> Some (t\<lparr>tt_up := tt_up t @ SessionMessage_bytes number len, tt_sender := next_send number 0\<rparr>)
    | SendPayload i \<Rightarrow> Some (t\<lparr>tt_up := tt_up t @ PayloadMessage_bytes len, tt_sender := AwaitAck i\<rparr>)
    | AwaitAck i \<Rightarrow>
        (if length (tt_down t) < 4 then None
         else let ack = ntohl (take 4 (tt_down t)) in
           Some (t\<lparr>tt_down := drop 4 (tt_down t), tt_sender := (if ack = len then next_send number (i + 1) else SenderDied)\<rparr>))
    | _ \<Rightarrow> None)"

definition receiver_step :: "(nat \<Rightarrow> bool) \<Rightarrow> ttcp \<Rightarrow> ttcp option" where
  "receiver_step fits t = (case tt_receiver t of
      ReadSession \<Rightarrow>
        (if length (tt_up t) < 8 then None
         else let number = ntohl (take 4 (tt_up t)); len = ntohl (take 4 (drop 4 (tt_up t))) in
           Some (t\<lparr>tt_up := drop 8 (tt_up t), tt_receiver := next_receive number len 0\<rparr>))
    | ReadLength i number len \<Rightarrow>
        (if length (tt_up t) < 4 then None
         else Some (t\<lparr>tt_up := drop 4 (tt_up t), tt_receiver := ReadPayload i number len (ntohl (take 4 (tt_up t)))\<rparr>))
    | ReadPayload i number len n \<Rightarrow>
        (if n > len \<and> unat len < length (tt_up t) then Some (t\<lparr>tt_receiver := ReceiverUndefined\<rparr>)
         else if length (tt_up t) < unat n then None
         else if \<not> fits (unat n) then Some (t\<lparr>tt_up := drop (unat n) (tt_up t), tt_receiver := ReceiverDied\<rparr>)
         else Some (t\<lparr>tt_up := drop (unat n) (tt_up t), tt_received := tt_received t @ [take (unat n) (tt_up t)],
                      tt_down := tt_down t @ ack_bytes n, tt_receiver := next_receive number len (i + 1)\<rparr>))
    | _ \<Rightarrow> None)"

text \<open>The comparisons of the two programs: \<open>int\<close> with \<open>int\<close>, and \<open>ssize_t\<close> with \<open>int\<close>.\<close>

definition to_int :: "nat \<Rightarrow> int" where
  "to_int n = sint (of_nat n :: 32 word)"

definition Blocking_receiver :: "ttcp \<Rightarrow> ttcp option" where
  "Blocking_receiver = receiver_step (\<lambda>n. to_int n = to_int n)"

definition NonBlocking_receiver :: "ttcp \<Rightarrow> ttcp option" where
  "NonBlocking_receiver = receiver_step (\<lambda>n. int n = to_int n)"

definition ttcp_start :: ttcp where
  "ttcp_start = \<lparr>tt_sender = SendSession, tt_receiver = ReadSession, tt_up = [], tt_down = [], tt_received = []\<rparr>"

inductive ttcp_step :: "32 word \<Rightarrow> 32 word \<Rightarrow> (ttcp \<Rightarrow> ttcp option) \<Rightarrow> ttcp \<Rightarrow> ttcp \<Rightarrow> bool"
  for number len recv where
  sender: "sender_step number len t = Some t' \<Longrightarrow> ttcp_step number len recv t t'"
| receiver: "recv t = Some t' \<Longrightarrow> ttcp_step number len recv t t'"

inductive ttcp_run :: "32 word \<Rightarrow> 32 word \<Rightarrow> (ttcp \<Rightarrow> ttcp option) \<Rightarrow> nat \<Rightarrow> ttcp \<Rightarrow> bool"
  for number len recv where
  start: "ttcp_run number len recv 0 ttcp_start"
| step: "ttcp_run number len recv n t \<Longrightarrow> ttcp_step number len recv t t' \<Longrightarrow> ttcp_run number len recv (Suc n) t'"

section \<open>Lemmas\<close>

lemma ntohl_stored: "ntohl (store_le 4 (Host32ToNetwork32 v)) = v"
  by (simp add: ntohl_def load_store_le network_host_inverse)

lemma length_payload_data [simp]: "length (payload_data n) = n"
  by (simp add: payload_data_def)

lemma message_reads:
  "length (SessionMessage_bytes number len @ xs) = 8 + length xs"
  "ntohl (take 4 (SessionMessage_bytes number len @ xs)) = number"
  "ntohl (take 4 (drop 4 (SessionMessage_bytes number len @ xs))) = len"
  "drop 8 (SessionMessage_bytes number len @ xs) = xs"
  "length (PayloadMessage_bytes len) = 4 + unat len"
  "ntohl (take 4 (PayloadMessage_bytes len)) = len" "drop 4 (PayloadMessage_bytes len) = payload_data (unat len)"
  "length (ack_bytes len) = 4" "ntohl (take 4 (ack_bytes len)) = len" "drop 4 (ack_bytes len) = []" "ntohl (ack_bytes len) = len"
  "ntohl (drop 4 (SessionMessage_bytes number len)) = len"
  by (simp_all add: SessionMessage_bytes_def PayloadMessage_bytes_def ack_bytes_def ntohl_stored)

lemmas session_reads = message_reads(1-4) [where xs = "[]", simplified] message_reads

text \<open>How many steps a process has made.\<close>

definition sender_rank :: "nat \<Rightarrow> sender \<Rightarrow> nat" where
  "sender_rank n s = (case s of SendSession \<Rightarrow> 0 | SendPayload i \<Rightarrow> 1 + 2 * i | AwaitAck i \<Rightarrow> 2 + 2 * i | _ \<Rightarrow> 1 + 2 * n)"

definition receiver_rank :: "nat \<Rightarrow> receiver \<Rightarrow> nat" where
  "receiver_rank n r = (case r of ReadSession \<Rightarrow> 0 | ReadLength i _ _ \<Rightarrow> 1 + 2 * i | ReadPayload i _ _ _ \<Rightarrow> 2 + 2 * i | _ \<Rightarrow> 1 + 2 * n)"

text \<open>The states of a conversation: the receiver has not read the session, reads a length or a payload, or is done.\<close>

definition before_session :: "32 word \<Rightarrow> 32 word \<Rightarrow> ttcp \<Rightarrow> bool" where
  "before_session number len t \<longleftrightarrow> tt_receiver t = ReadSession \<and> tt_down t = [] \<and> tt_received t = []
     \<and> ((tt_sender t = SendSession \<and> tt_up t = [])
        \<or> (tt_sender t = next_send number 0 \<and> tt_up t = SessionMessage_bytes number len)
        \<or> (tt_sender t = AwaitAck 0 \<and> 0 < unat number \<and> tt_up t = SessionMessage_bytes number len @ PayloadMessage_bytes len))"

definition at_length :: "32 word \<Rightarrow> 32 word \<Rightarrow> nat \<Rightarrow> ttcp \<Rightarrow> bool" where
  "at_length number len i t \<longleftrightarrow> i < unat number \<and> tt_receiver t = ReadLength i number len
     \<and> tt_received t = replicate i (payload_data (unat len))
     \<and> ((tt_sender t = SendPayload i \<and> tt_up t = [] \<and> tt_down t = [])
        \<or> (tt_sender t = AwaitAck i \<and> tt_up t = PayloadMessage_bytes len \<and> tt_down t = [])
        \<or> (\<exists>j. i = Suc j \<and> tt_sender t = AwaitAck j \<and> tt_up t = [] \<and> tt_down t = ack_bytes len))"

definition at_payload :: "32 word \<Rightarrow> 32 word \<Rightarrow> nat \<Rightarrow> ttcp \<Rightarrow> bool" where
  "at_payload number len i t \<longleftrightarrow> i < unat number \<and> tt_receiver t = ReadPayload i number len len \<and> tt_sender t = AwaitAck i
     \<and> tt_up t = payload_data (unat len) \<and> tt_down t = [] \<and> tt_received t = replicate i (payload_data (unat len))"

definition at_end :: "32 word \<Rightarrow> 32 word \<Rightarrow> ttcp \<Rightarrow> bool" where
  "at_end number len t \<longleftrightarrow> tt_receiver t = ReceiverDone \<and> tt_up t = [] \<and> tt_received t = replicate (unat number) (payload_data (unat len))
     \<and> ((tt_sender t = SenderDone \<and> tt_down t = [])
        \<or> (\<exists>j. unat number = Suc j \<and> tt_sender t = AwaitAck j \<and> tt_down t = ack_bytes len))"

definition ttcp_inv :: "32 word \<Rightarrow> 32 word \<Rightarrow> nat \<Rightarrow> ttcp \<Rightarrow> bool" where
  "ttcp_inv number len n t \<longleftrightarrow>
     (before_session number len t \<or> (\<exists>i. at_length number len i t) \<or> (\<exists>i. at_payload number len i t) \<or> at_end number len t)
     \<and> n = sender_rank (unat number) (tt_sender t) + receiver_rank (unat number) (tt_receiver t)"

lemmas ttcp_places = before_session_def at_length_def at_payload_def at_end_def
lemmas ttcp_moves = sender_step_def receiver_step_def next_send_def next_receive_def

lemma ttcp_inv_start: "ttcp_inv number len 0 ttcp_start"
  by (simp add: ttcp_inv_def before_session_def ttcp_start_def sender_rank_def receiver_rank_def)

lemma sender_step_before: "before_session number len t \<Longrightarrow> sender_step number len t = Some t' \<Longrightarrow> before_session number len t'
    \<and> sender_rank (unat number) (tt_sender t') = Suc (sender_rank (unat number) (tt_sender t)) \<and> tt_receiver t' = tt_receiver t"
  by (auto simp: before_session_def sender_step_def next_send_def sender_rank_def split: if_splits)

lemma sender_step_length: "at_length number len i t \<Longrightarrow> sender_step number len t = Some t' \<Longrightarrow> at_length number len i t'
    \<and> sender_rank (unat number) (tt_sender t') = Suc (sender_rank (unat number) (tt_sender t)) \<and> tt_receiver t' = tt_receiver t"
  by (auto simp: at_length_def sender_step_def next_send_def sender_rank_def session_reads split: if_splits)

lemma sender_step_payload: "at_payload number len i t \<Longrightarrow> sender_step number len t = None"
  by (simp add: at_payload_def sender_step_def)

lemma sender_step_end: "at_end number len t \<Longrightarrow> sender_step number len t = Some t' \<Longrightarrow> at_end number len t'
    \<and> sender_rank (unat number) (tt_sender t') = Suc (sender_rank (unat number) (tt_sender t)) \<and> tt_receiver t' = tt_receiver t"
  by (auto simp: at_end_def sender_step_def next_send_def sender_rank_def session_reads split: if_splits)

lemma receiver_step_before:
  "before_session number len t \<Longrightarrow> receiver_step fits t = Some t' \<Longrightarrow>
   (at_length number len 0 t' \<or> at_end number len t') \<and> receiver_rank (unat number) (tt_receiver t') = 1 \<and> tt_sender t' = tt_sender t"
  by (auto simp: ttcp_places receiver_step_def next_send_def next_receive_def receiver_rank_def session_reads split: if_splits)

lemma receiver_step_length:
  "at_length number len i t \<Longrightarrow> receiver_step fits t = Some t' \<Longrightarrow>
   at_payload number len i t' \<and> receiver_rank (unat number) (tt_receiver t') = Suc (receiver_rank (unat number) (tt_receiver t))
   \<and> tt_sender t' = tt_sender t"
  by (auto simp: at_length_def at_payload_def receiver_step_def receiver_rank_def session_reads split: if_splits)

lemma receiver_step_payload:
  "at_payload number len i t \<Longrightarrow> fits (unat len) \<Longrightarrow> receiver_step fits t = Some t' \<Longrightarrow>
   (at_length number len (Suc i) t' \<or> at_end number len t')
   \<and> receiver_rank (unat number) (tt_receiver t') = Suc (receiver_rank (unat number) (tt_receiver t)) \<and> tt_sender t' = tt_sender t"
proof -
  assume t: "at_payload number len i t" "fits (unat len)" "receiver_step fits t = Some t'"
  then consider "Suc i < unat number" | "unat number = Suc i"
    unfolding at_payload_def by (metis Suc_lessI)
  then show ?thesis
    using t by cases (auto simp: ttcp_places receiver_step_def next_receive_def receiver_rank_def replicate_append_same)
qed

lemma receiver_step_end: "at_end number len t \<Longrightarrow> receiver_step fits t = None"
  by (simp add: at_end_def receiver_step_def)

lemma ttcp_inv_step:
  assumes "ttcp_inv number len n t" "ttcp_step number len (receiver_step fits) t t'" "fits (unat len)"
  shows "ttcp_inv number len (Suc n) t'"
  using assms(2)
proof (cases rule: ttcp_step.cases)
  case sender
  then show ?thesis using assms(1)
    by (auto simp: ttcp_inv_def dest: sender_step_before sender_step_length sender_step_end) (auto dest: sender_step_payload)
next
  case receiver
  have n: "n = sender_rank (unat number) (tt_sender t) + receiver_rank (unat number) (tt_receiver t)"
    using assms(1) by (simp add: ttcp_inv_def)
  consider "before_session number len t" | i where "at_length number len i t" | i where "at_payload number len i t" | "at_end number len t"
    using assms(1) by (auto simp: ttcp_inv_def)
  then show ?thesis
  proof cases
    case 1
    then have "receiver_rank (unat number) (tt_receiver t) = 0" by (simp add: before_session_def receiver_rank_def)
    then show ?thesis using receiver_step_before [OF 1 receiver] n unfolding ttcp_inv_def by auto
  next
    case 2
    then show ?thesis using receiver_step_length [OF 2 receiver] n unfolding ttcp_inv_def by auto
  next
    case 3
    then show ?thesis using receiver_step_payload [OF 3 assms(3) receiver] n unfolding ttcp_inv_def by auto
  next
    case 4
    then show ?thesis using receiver_step_end [OF 4] receiver by simp
  qed
qed

lemma ttcp_inv_run:
  "ttcp_run number len (receiver_step fits) n t \<Longrightarrow> fits (unat len) \<Longrightarrow> ttcp_inv number len n t"
proof (induction rule: ttcp_run.induct)
  case start
  show ?case by (rule ttcp_inv_start)
next
  case (step n t t')
  then show ?case by (intro ttcp_inv_step [OF _ step.hyps(2)]) simp_all
qed

text \<open>Somebody can always go on until both are done.\<close>

lemma ttcp_progress:
  assumes "ttcp_inv number len n t" "fits (unat len)"
  shows "(\<exists>t'. ttcp_step number len (receiver_step fits) t t') \<or> (tt_sender t = SenderDone \<and> at_end number len t \<and> tt_down t = [])"
proof -
  have "sender_step number len t \<noteq> None \<or> receiver_step fits t \<noteq> None \<or> (tt_sender t = SenderDone \<and> at_end number len t \<and> tt_down t = [])"
    using assms by (auto simp: ttcp_inv_def ttcp_places sender_step_def receiver_step_def next_send_def session_reads)
  then show ?thesis by (auto intro: ttcp_step.intros)
qed

lemma ttcp_rank_le: "ttcp_inv number len n t \<Longrightarrow> n \<le> 4 * unat number + 2"
  by (auto simp: ttcp_inv_def ttcp_places sender_rank_def receiver_rank_def next_send_def split: if_splits)

section \<open>Properties\<close>

text \<open>C23: The throughput test ends. However the two processes are scheduled, neither dies nor waits for ever: each step of a
  conversation is one of \<open>4 * number + 2\<close>, some process can make a step until all are made, and then both are done, the
  receiver has received every payload and both streams are empty. \<open>TtcpBlocking.cpp\<close> does so for every length,
  \<open>TtcpNonBlocking.cpp\<close> for those below 2 GB.\<close>

theorem ttcp_completes:
  assumes "ttcp_run number len recv n t" "recv = Blocking_receiver \<or> (recv = NonBlocking_receiver \<and> unat len < 2 ^ 31)"
  shows "n \<le> 4 * unat number + 2 \<and> tt_sender t \<noteq> SenderDied \<and> tt_receiver t \<noteq> ReceiverDied \<and> tt_receiver t \<noteq> ReceiverUndefined
     \<and> ((\<exists>t'. ttcp_step number len recv t t')
        \<or> (tt_sender t = SenderDone \<and> tt_receiver t = ReceiverDone \<and> tt_up t = [] \<and> tt_down t = []
           \<and> tt_received t = replicate (unat number) (payload_data (unat len))))"
proof -
  have "int (unat len) = to_int (unat len)" if "unat len < 2 ^ 31"
  proof -
    have "int (unat len) < int (2 ^ 31)" using that of_nat_less_iff by blast
    then have "uint len < 2 ^ 31" by simp
    moreover have "- (2 ^ 31) \<le> uint len" by (rule order.trans [OF _ uint_ge_0]) simp
    ultimately have "uint len < 2 ^ 31" "- (2 ^ 31) \<le> uint len" by -
    then have "signed_take_bit 31 (uint len) = uint len"
      by (intro signed_take_bit_int_eq_self) simp_all
    then show ?thesis by (simp add: to_int_def sint_uint)
  qed
  then obtain fits where f: "recv = receiver_step fits" "fits (unat len)"
    using assms(2) by (auto simp: Blocking_receiver_def NonBlocking_receiver_def)
  then have inv: "ttcp_inv number len n t" using ttcp_inv_run assms(1) by simp
  have "tt_sender t \<noteq> SenderDied \<and> tt_receiver t \<noteq> ReceiverDied \<and> tt_receiver t \<noteq> ReceiverUndefined"
    using inv by (auto simp: ttcp_inv_def ttcp_places next_send_def split: if_splits)
  then show ?thesis using ttcp_progress [where fits = fits, OF inv f(2)] ttcp_rank_le [OF inv] by (auto simp: f(1) at_end_def)
qed

lemma demo_ttcp_run:
  "ttcp_run 1 2 NonBlocking_receiver 2
     (ttcp_start\<lparr>tt_up := SessionMessage_bytes 1 2 @ PayloadMessage_bytes 2, tt_sender := AwaitAck 0\<rparr>)"
proof -
  let ?t1 = "ttcp_start\<lparr>tt_up := SessionMessage_bytes 1 2, tt_sender := SendPayload 0\<rparr>"
  have 1: "ttcp_step 1 2 NonBlocking_receiver ttcp_start ?t1"
    by (rule ttcp_step.sender) (simp add: sender_step_def ttcp_start_def next_send_def)
  have 2: "ttcp_step 1 2 NonBlocking_receiver ?t1 (ttcp_start\<lparr>tt_up := SessionMessage_bytes 1 2 @ PayloadMessage_bytes 2, tt_sender := AwaitAck 0\<rparr>)"
    by (rule ttcp_step.sender) (simp add: sender_step_def ttcp_start_def)
  show ?thesis using ttcp_run.step [OF ttcp_run.step [OF ttcp_run.start 1] 2] by (simp add: numeral_2_eq_2)
qed

theorem ttcp_completes_witness:
  "\<exists>t'. ttcp_step 1 2 NonBlocking_receiver
     (ttcp_start\<lparr>tt_up := SessionMessage_bytes 1 2 @ PayloadMessage_bytes 2, tt_sender := AwaitAck 0\<rparr>) t'"
  using ttcp_completes [OF demo_ttcp_run] by (auto simp: ttcp_start_def)

text \<open>\<open>ReadN\<close> of \<open>TtcpBlocking.cpp\<close> reads exactly what it is asked for, whatever the cuts and interruptions.\<close>

definition cut_bytes :: "call_result \<Rightarrow> byte list" where
  "cut_bytes r = (case r of Transferred bytes \<Rightarrow> bytes | _ \<Rightarrow> [])"

lemma blocking_ReadN_whole:
  assumes "\<forall>r \<in> set results. r \<noteq> CallFailed \<and> r \<noteq> Transferred []" "length (buf @ concat (map cut_bytes results)) = n"
  shows "blocking_ReadN n results buf = Returned (n, buf @ concat (map cut_bytes results))"
  using assms
proof (induction results arbitrary: buf)
  case Nil
  then show ?case by (simp add: blocking_ReadN.simps)
next
  case (Cons r rs)
  show ?case
  proof (cases "length buf < n")
    case True
    then show ?thesis using Cons by (cases r) (simp_all add: blocking_ReadN.simps [of n "x # rs" for x] cut_bytes_def)
  next
    case False
    moreover have "length buf + length (concat (map cut_bytes (r # rs))) = n" using Cons.prems(2) by (simp only: length_append)
    ultimately have "length (concat (map cut_bytes (r # rs))) = 0" "length buf = n" by linarith+
    moreover have "blocking_ReadN n (r # rs) buf = Returned (length buf, buf)" using False by (subst blocking_ReadN.simps) simp
    ultimately show ?thesis by (simp only: length_0_conv append_Nil2)
  qed
qed

text \<open>The end of the stream is reported as a short count.\<close>

lemma blocking_ReadN_eof:
  "length buf < n \<Longrightarrow> blocking_ReadN n (Transferred [] # rs) buf = Returned (length buf, buf)"
  by (simp add: blocking_ReadN.simps)

text \<open>\<open>WriteN\<close> writes everything, whatever the kernel takes at once.\<close>

lemma blocking_WriteN_whole:
  assumes "\<forall>r \<in> set results. r = None \<or> (\<exists>k. r = Some (Some (Suc k)))"
    and "already + sum_list (map (\<lambda>r. case r of Some (Some k) \<Rightarrow> k | _ \<Rightarrow> 0) results) = length buf"
  shows "blocking_WriteN buf results already (take already buf) = Returned (length buf, buf)"
  using assms
proof (induction results arbitrary: already)
  case Nil
  then show ?case by (simp add: blocking_WriteN.simps)
next
  case (Cons r rs)
  show ?case
  proof (cases "already < length buf")
    case True
    from Cons.prems(1) consider "r = None" | k where "r = Some (Some (Suc k))" by auto
    then show ?thesis
    proof cases
      case 1
      then show ?thesis using Cons True by (simp add: blocking_WriteN.simps [of buf "x # rs" for x])
    next
      case 2
      have "blocking_WriteN buf rs (already + Suc k) (take (already + Suc k) buf) = Returned (length buf, buf)"
        by (rule Cons.IH) (use Cons.prems 2 in simp_all)
      then show ?thesis using 2 True by (simp add: blocking_WriteN.simps [of buf "x # rs" for x] take_add [symmetric])
    qed
  next
    case False
    then show ?thesis using Cons.prems(2) by (simp add: blocking_WriteN.simps)
  qed
qed

section \<open>What goes wrong\<close>

text \<open>The length of a payload is not compared with the buffer that was allocated for the session: a longer one is written
  beyond its end.\<close>

lemma payload_beyond_buffer:
  assumes "tt_receiver t = ReadPayload i number len n" "len < n" "unat len < length (tt_up t)"
  shows "receiver_step fits t = Some (t\<lparr>tt_receiver := ReceiverUndefined\<rparr>)"
  using assms by (simp add: receiver_step_def)

text \<open>A payload of 2 GB or more that was read in full is taken for a failed read by \<open>TtcpNonBlocking.cpp\<close>.\<close>

lemma large_payload_dies:
  assumes "tt_receiver t = ReadPayload i number len len" "2 ^ 31 \<le> unat len" "unat len \<le> length (tt_up t)"
  shows "\<exists>t'. NonBlocking_receiver t = Some t' \<and> tt_receiver t' = ReceiverDied"
proof -
  have "sint (of_nat (unat len) :: 32 word) < 2 ^ 31" using sint_lt [of "of_nat (unat len) :: 32 word"] by simp
  moreover have "int (2 ^ 31) \<le> int (unat len)" using assms(2) by (simp only: of_nat_le_iff)
  ultimately have "int (unat len) \<noteq> to_int (unat len)" unfolding to_int_def by (simp only: of_nat_power of_nat_numeral)
  then show ?thesis using assms by (simp add: NonBlocking_receiver_def receiver_step_def)
qed

end
