(* ===== verification/TtcpBlocking.thy ===== *)
theory TtcpBlocking
  imports Ttcp Options
begin

text \<open>
  The whole of \<open>examples/simple/ttcp/TtcpBlocking.cpp\<close>: opening of the sockets, options, the session, the loops over the messages, and the
  scope guards that close the descriptors and free the buffer.

  \<^item> The results of the socket calls are arguments; each \<open>ReadN\<close> and \<open>WriteN\<close> has the list of results of its own calls.
  \<^item> A call of \<open>exit\<close> is \<open>Exited\<close>: no guard runs then, and the process with its descriptors is gone.
  \<^item> A payload that is longer than the buffer allocated for the session counts as undefined from its length on.
  \<^item> The values of the configuration are arguments; the times and figures printed at the end are left out.
\<close>

section \<open>The process\<close>

record proc =
  p_open :: "int set"
  p_blocks :: "nat set"

type_synonym 'a outcome = "('a \<times> proc) blocking"

definition p_close :: "int \<Rightarrow> proc \<Rightarrow> proc" where
  "p_close fd p = p\<lparr>p_open := p_open p - {fd}\<rparr>"

definition p_socket :: "int \<Rightarrow> proc \<Rightarrow> proc" where
  "p_socket fd p = (if 0 \<le> fd then p\<lparr>p_open := insert fd (p_open p)\<rparr> else p)"

definition p_free :: "nat \<Rightarrow> proc \<Rightarrow> proc" where
  "p_free b p = p\<lparr>p_blocks := p_blocks p - {b}\<rparr>"

definition p_malloc :: "nat \<Rightarrow> proc \<Rightarrow> proc" where
  "p_malloc b p = p\<lparr>p_blocks := insert b (p_blocks p)\<rparr>"

text \<open>A scope with a guard: it runs on a return.\<close>

definition guarded_scope :: "(proc \<Rightarrow> proc) \<Rightarrow> 'a outcome result \<Rightarrow> 'a outcome result" where
  "guarded_scope call r = bind_result r (\<lambda>b. Inr (case b of
      Returned (a, p) \<Rightarrow> Returned (a, ScopeGuard_destroy (ScopeGuard_new call) p) | Blocked \<Rightarrow> Blocked | Exited \<Rightarrow> Exited))"

definition and_then :: "'a blocking result \<Rightarrow> ('a \<Rightarrow> 'b blocking result) \<Rightarrow> 'b blocking result" where
  "and_then r f = bind_result r (\<lambda>b. case b of Returned a \<Rightarrow> f a | Blocked \<Rightarrow> Inr Blocked | Exited \<Rightarrow> Inr Exited)"

section \<open>The receiver\<close>

text \<open>What \<open>socket\<close>, \<open>setsockopt\<close>, \<open>bind\<close> and \<open>listen\<close> returned, and \<open>accept\<close> (\<open>None\<close> while it waits).\<close>

definition AcceptOrDie :: "int \<Rightarrow> int \<Rightarrow> int \<Rightarrow> int \<Rightarrow> int option \<Rightarrow> proc \<Rightarrow> int outcome result" where
  "AcceptOrDie listensock opt bound listening accepted p =
     guarded_scope (\<lambda>p. if 0 \<le> listensock then p_close listensock p else p)
       (if listensock < 0 then Inr Exited
        else if opt < 0 then Inr Exited
        else if bound < 0 then Inr Exited
        else if listening < 0 then Inr Exited
        else case accepted of
            None \<Rightarrow> Inr Blocked
          | Some acceptsock \<Rightarrow> if acceptsock < 0 then Inr Exited
              else Inr (Returned (acceptsock, p_socket acceptsock (p_socket listensock p))))"

text \<open>One message: the results of the reads of its length and of its payload, and of the writes of the acknowledgement.\<close>

type_synonym receive_turn = "call_result list \<times> call_result list \<times> nat option option list"

text \<open>\<open>ReadN\<close> compared with what it should read.\<close>

definition read_exactly :: "nat \<Rightarrow> call_result list \<Rightarrow> byte list blocking result" where
  "read_exactly n results = Inr (case blocking_ReadN n results [] of
      Returned (k, bytes) \<Rightarrow> if to_int k \<noteq> to_int n then Exited else Returned bytes | Blocked \<Rightarrow> Blocked | Exited \<Rightarrow> Exited)"

definition write_exactly :: "byte list \<Rightarrow> nat option option list \<Rightarrow> byte list blocking result" where
  "write_exactly buf results = Inr (case blocking_WriteN buf results 0 [] of
      Returned (k, bytes) \<Rightarrow> if to_int k \<noteq> to_int (length buf) then Exited else Returned bytes | Blocked \<Rightarrow> Blocked | Exited \<Rightarrow> Exited)"

text \<open>The payloads received and the bytes written.\<close>

fun ttcp_receive_loop :: "nat \<Rightarrow> 32 word \<Rightarrow> receive_turn list \<Rightarrow> byte list list \<times> byte list \<Rightarrow> (byte list list \<times> byte list) blocking result" where
  "ttcp_receive_loop 0 len turns s = Inr (Returned s)"
| "ttcp_receive_loop (Suc n) len [] s = Inr Blocked"
| "ttcp_receive_loop (Suc n) len ((r1, r2, ws) # turns) s =
     and_then (read_exactly 4 r1) (\<lambda>bytes.
       if ntohl bytes > len then Inl Undefined
       else and_then (read_exactly (unat (ntohl bytes)) r2) (\<lambda>data1.
         and_then (write_exactly (ack_bytes (ntohl bytes)) ws) (\<lambda>out.
           ttcp_receive_loop n len turns (fst s @ [data1], snd s @ out))))"

record accept_calls =
  ac_socket :: int
  ac_reuse :: int
  ac_bind :: int
  ac_listen :: int
  ac_accept :: "int option"

text \<open>\<open>Receiver\<close>: whether the option is set and what \<open>setsockopt\<close> returned, the reads of the session, the block that \<open>malloc\<close> gave.\<close>

definition Receiver :: "accept_calls \<Rightarrow> bool \<Rightarrow> int \<Rightarrow> call_result list \<Rightarrow> nat \<Rightarrow> receive_turn list \<Rightarrow> proc \<Rightarrow> (byte list list \<times> byte list) outcome result" where
  "Receiver opening tcpNodelay opt session block turns p =
     and_then (AcceptOrDie (ac_socket opening) (ac_reuse opening) (ac_bind opening) (ac_listen opening) (ac_accept opening) p) (\<lambda>(acceptsock, p1).
       guarded_scope (p_close acceptsock)
         (if tcpNodelay \<and> opt < 0 then Inr Exited
          else and_then (read_exactly 8 session) (\<lambda>bytes.
            let number = ntohl (take 4 bytes); len = ntohl (drop 4 bytes); p2 = p_malloc block p1 in
            guarded_scope (p_free block)
              (and_then (ttcp_receive_loop (unat number) len turns ([], [])) (\<lambda>s. Inr (Returned (s, p2)))))))"

section \<open>The sender\<close>

type_synonym send_turn = "nat option option list \<times> call_result list"

fun ttcp_send_loop :: "nat \<Rightarrow> 32 word \<Rightarrow> send_turn list \<Rightarrow> byte list \<Rightarrow> byte list blocking result" where
  "ttcp_send_loop 0 len turns out = Inr (Returned out)"
| "ttcp_send_loop (Suc n) len [] out = Inr Blocked"
| "ttcp_send_loop (Suc n) len ((ws, rs) # turns) out =
     and_then (write_exactly (PayloadMessage_bytes len) ws) (\<lambda>bytes.
       and_then (read_exactly 4 rs) (\<lambda>ack.
         if ntohl ack \<noteq> len then Inl AssertFail else ttcp_send_loop n len turns (out @ bytes)))"

text \<open>\<open>Sender\<close>: what \<open>socket\<close> returned, whether the host was resolved, what \<open>connect\<close> and \<open>setsockopt\<close> returned, the writes of the
  session, the block, and the number and length of the messages.\<close>

definition Sender :: "int \<Rightarrow> bool \<Rightarrow> int \<Rightarrow> bool \<Rightarrow> int \<Rightarrow> 32 word \<Rightarrow> 32 word \<Rightarrow> nat option option list \<Rightarrow> nat \<Rightarrow> send_turn list \<Rightarrow> proc
    \<Rightarrow> byte list outcome result" where
  "Sender sendsock resolved conn tcpNodelay opt number len session block turns p =
     guarded_scope (\<lambda>p. if 0 \<le> sendsock then p_close sendsock p else p)
       (if sendsock < 0 then Inr Exited
        else if \<not> resolved then Inr Exited
        else if conn < 0 then Inr Exited
        else if tcpNodelay \<and> opt < 0 then Inr Exited
        else and_then (write_exactly (SessionMessage_bytes number len) session) (\<lambda>out.
          let p1 = p_malloc block (p_socket sendsock p) in
          guarded_scope (p_free block)
            (and_then (ttcp_send_loop (unat number) len turns out) (\<lambda>s. Inr (Returned (s, p1))))))"

text \<open>\<open>main\<close>: which of the two is run.\<close>

datatype ttcp_program = RunSender | RunReceiver | Usage

definition ttcp_main :: "string list \<Rightarrow> ttcp_program" where
  "ttcp_main argv = (if length argv < 2 then Usage
     else if argv ! 1 = ''send'' then RunSender else if argv ! 1 = ''recv'' then RunReceiver else Usage)"

section \<open>Lemmas\<close>

text \<open>Calls that succeed in the end: the reads deliver the bytes in any pieces, the writes take them in any pieces, with
  interruptions.\<close>

definition delivers :: "call_result list \<Rightarrow> byte list \<Rightarrow> bool" where
  "delivers results bytes \<longleftrightarrow> (\<forall>r \<in> set results. r \<noteq> CallFailed \<and> r \<noteq> Transferred []) \<and> concat (map cut_bytes results) = bytes"

definition takes :: "nat option option list \<Rightarrow> nat \<Rightarrow> bool" where
  "takes results n \<longleftrightarrow> (\<forall>r \<in> set results. r = None \<or> (\<exists>k. r = Some (Some (Suc k))))
     \<and> sum_list (map (\<lambda>r. case r of Some (Some k) \<Rightarrow> k | _ \<Rightarrow> 0) results) = n"

lemma and_then_simps [simp]:
  "and_then (Inr (Returned a)) f = f a" "and_then (Inr Blocked) f = Inr Blocked" "and_then (Inr Exited) f = Inr Exited"
  "and_then (Inl e) f = Inl e"
  by (simp_all add: and_then_def)

lemma guarded_scope_return [simp]:
  "guarded_scope call (Inr (Returned (a, p))) = Inr (Returned (a, call p))"
  by (simp add: guarded_scope_def ScopeGuard_new_def ScopeGuard_destroy_def)

lemma read_exactly_delivers: "delivers results bytes \<Longrightarrow> n = length bytes \<Longrightarrow> read_exactly n results = Inr (Returned bytes)"
  using blocking_ReadN_whole [of results "[]" n] by (auto simp: delivers_def read_exactly_def)

lemma write_exactly_takes: "takes results (length buf) \<Longrightarrow> write_exactly buf results = Inr (Returned buf)"
  using blocking_WriteN_whole [of results 0 buf] by (auto simp: takes_def write_exactly_def)

lemma ttcp_receive_loop_done:
  assumes "\<forall>(r1, r2, ws) \<in> set turns. delivers r1 (ack_bytes len) \<and> delivers r2 data1 \<and> takes ws 4" "length data1 = unat len"
  shows "ttcp_receive_loop (length turns) len turns (got, out)
     = Inr (Returned (got @ replicate (length turns) data1, out @ concat (replicate (length turns) (ack_bytes len))))"
  using assms(1)
proof (induction turns arbitrary: got out)
  case (Cons t turns)
  obtain r1 r2 ws where t: "t = (r1, r2, ws)" by (cases t) auto
  have "read_exactly 4 r1 = Inr (Returned (ack_bytes len))" "read_exactly (unat len) r2 = Inr (Returned data1)"
      "write_exactly (ack_bytes len) ws = Inr (Returned (ack_bytes len))"
    using Cons.prems assms(2) by (simp_all add: t read_exactly_delivers write_exactly_takes message_reads)
  then show ?case using Cons by (simp add: t message_reads replicate_append_same flip: append_assoc)
qed simp

lemma ttcp_send_loop_done:
  assumes "\<forall>(ws, rs) \<in> set turns. takes ws (4 + unat len) \<and> delivers rs (ack_bytes len)"
  shows "ttcp_send_loop (length turns) len turns out = Inr (Returned (out @ concat (replicate (length turns) (PayloadMessage_bytes len))))"
  using assms
proof (induction turns arbitrary: out)
  case (Cons t turns)
  obtain ws rs where t: "t = (ws, rs)" by (cases t) auto
  have "read_exactly 4 rs = Inr (Returned (ack_bytes len))"
      "write_exactly (PayloadMessage_bytes len) ws = Inr (Returned (PayloadMessage_bytes len))"
    using Cons.prems by (simp_all add: t read_exactly_delivers write_exactly_takes message_reads)
  then show ?case using Cons by (simp add: t message_reads)
qed simp

text \<open>\<open>AcceptOrDie\<close> returns the connection and nothing else: the listening socket is closed.\<close>

lemma AcceptOrDie_closes:
  assumes "AcceptOrDie listensock opt bound listening accepted p = Inr (Returned (fd, p'))" "listensock \<notin> p_open p" "fd \<noteq> listensock"
  shows "accepted = Some fd \<and> 0 \<le> fd \<and> p_open p' = insert fd (p_open p) \<and> p_blocks p' = p_blocks p"
  using assms by (auto simp: AcceptOrDie_def guarded_scope_def ScopeGuard_new_def ScopeGuard_destroy_def p_socket_def p_close_def
      split: if_splits option.splits)

definition calls_ok :: "accept_calls \<Rightarrow> int \<Rightarrow> bool" where
  "calls_ok opening fd \<longleftrightarrow> 0 \<le> ac_socket opening \<and> 0 \<le> ac_reuse opening \<and> 0 \<le> ac_bind opening \<and> 0 \<le> ac_listen opening
     \<and> ac_accept opening = Some fd \<and> 0 \<le> fd \<and> fd \<noteq> ac_socket opening"

lemma AcceptOrDie_ok:
  "calls_ok opening fd \<Longrightarrow> ac_socket opening \<notin> p_open p \<Longrightarrow>
   AcceptOrDie (ac_socket opening) (ac_reuse opening) (ac_bind opening) (ac_listen opening) (ac_accept opening) p
     = Inr (Returned (fd, p\<lparr>p_open := insert fd (p_open p)\<rparr>))"
proof -
  assume a: "calls_ok opening fd" "ac_socket opening \<notin> p_open p"
  then have "insert fd (insert (ac_socket opening) (p_open p)) - {ac_socket opening} = insert fd (p_open p)"
    by (auto simp: calls_ok_def)
  then show ?thesis using a(1) by (auto simp: AcceptOrDie_def calls_ok_def p_socket_def p_close_def)
qed

text \<open>The blocking throughput test works end to end and gives everything back. When the calls succeed in the end, in whatever pieces
  and with whatever interruptions, the sender writes the session and all its messages, the receiver that reads those bytes gets
  every payload and writes an acknowledgement for each, both return, and both leave the descriptors and the heap as they found them.\<close>

theorem ttcp_blocking_session:
  assumes "calls_ok opening fd" "ac_socket opening \<notin> p_open p" "fd \<notin> p_open p" "block \<notin> p_blocks p"
    and "delivers rsession (SessionMessage_bytes number len)" "length rturns = unat number" "0 \<le> opt \<or> \<not> nodelay"
    and "\<forall>(r1, r2, ws) \<in> set rturns. delivers r1 (take 4 (PayloadMessage_bytes len)) \<and> delivers r2 (drop 4 (PayloadMessage_bytes len)) \<and> takes ws 4"
    and "0 \<le> sock" "sock \<notin> p_open q" "0 \<le> conn" "block' \<notin> p_blocks q" "takes wsession 8" "length sturns = unat number"
    and "\<forall>(ws, rs) \<in> set sturns. takes ws (4 + unat len) \<and> delivers rs (ack_bytes len)"
  shows "Receiver opening nodelay opt rsession block rturns p
       = Inr (Returned ((replicate (unat number) (payload_data (unat len)), concat (replicate (unat number) (ack_bytes len))), p))
     \<and> Sender sock True conn nodelay opt number len wsession block' sturns q
       = Inr (Returned (SessionMessage_bytes number len @ concat (replicate (unat number) (PayloadMessage_bytes len)), q))"
proof
  let ?s = "SessionMessage_bytes number len"
  have nd: "(nodelay \<and> opt < 0) = False" using assms(7) by auto
  have "take 4 (PayloadMessage_bytes len) = ack_bytes len" by (simp add: PayloadMessage_bytes_def ack_bytes_def)
  then have "ttcp_receive_loop (unat number) len rturns ([], [])
      = Inr (Returned (replicate (unat number) (payload_data (unat len)), concat (replicate (unat number) (ack_bytes len))))"
    using ttcp_receive_loop_done [of rturns len "payload_data (unat len)" "[]" "[]"] assms(6,8) by (simp add: message_reads)
  moreover have "read_exactly 8 rsession = Inr (Returned ?s)"
    by (rule read_exactly_delivers [OF assms(5)]) (simp add: session_reads)
  moreover have "ntohl (take 4 ?s) = number" "ntohl (drop 4 ?s) = len" by (simp_all add: session_reads)
  moreover have "p_close fd (p_free block (p_malloc block (p\<lparr>p_open := insert fd (p_open p)\<rparr>))) = p"
    using assms(3,4) by (simp add: p_close_def p_free_def p_malloc_def)
  ultimately show "Receiver opening nodelay opt rsession block rturns p
      = Inr (Returned ((replicate (unat number) (payload_data (unat len)), concat (replicate (unat number) (ack_bytes len))), p))"
    by (simp add: Receiver_def AcceptOrDie_ok [OF assms(1,2)] Let_def nd)
  have "write_exactly ?s wsession = Inr (Returned ?s)" using assms(13) by (simp add: write_exactly_takes session_reads)
  moreover have "ttcp_send_loop (unat number) len sturns ?s = Inr (Returned (?s @ concat (replicate (unat number) (PayloadMessage_bytes len))))"
    using ttcp_send_loop_done [OF assms(15)] assms(14) by simp
  moreover have "p_close sock (p_free block' (p_malloc block' (p_socket sock q))) = q"
    using assms(9,10,12) by (simp add: p_close_def p_free_def p_malloc_def p_socket_def)
  ultimately show "Sender sock True conn nodelay opt number len wsession block' sturns q
      = Inr (Returned (?s @ concat (replicate (unat number) (PayloadMessage_bytes len)), q))"
    using assms(9,11) by (simp add: Sender_def Let_def nd)
qed

end
