(* ===== verification/SmallServers.thy ===== *)
theory SmallServers
  imports Crypto Socket
begin

text \<open>
  Three small servers of \<open>examples\<close> and their clients, written with the socket calls of the library:
  \<open>simple/echo\<close>, \<open>simple/chargen\<close> and \<open>ssl/daytime\<close>.

  \<^item> A coroutine that serves a connection is a function of the results of its calls: for each turn the result and bytes of its read
    and the results of the writes that \<open>WriteN\<close> makes; it yields the bytes it wrote and how it stands.
  \<^item> \<open>ctime\<close> and the clock are arguments.
\<close>

section \<open>Echo\<close>

datatype conn_state = Suspended | Closed

text \<open>A turn: the read, and the writes.\<close>

type_synonym turn = "(int \<times> byte list) \<times> int list"

fun DoEcho :: "turn list \<Rightarrow> byte list \<Rightarrow> conn_state \<times> byte list" where
  "DoEcho [] out = (Suspended, out)"
| "DoEcho (((n, buf), ws) # turns) out =
     (if n \<le> 0 then (Closed, out)
      else case WriteN (take (nat n) buf) ws 0 [] of (ret, bytes) \<Rightarrow>
        (case ret of
           None \<Rightarrow> (Suspended, out @ bytes)
         | Some n' \<Rightarrow> if n' < 0 then (Closed, out @ bytes) else DoEcho turns (out @ bytes)))"

text \<open>\<open>OnConnect\<close>: when the loop is over the socket was closed, and the frame that owns it is destroyed.\<close>

definition EchoServer_OnConnect :: "turn list \<Rightarrow> BasicSocket \<Rightarrow> 'h net \<Rightarrow> (byte list \<times> 'h net) result" where
  "EchoServer_OnConnect turns socket n = (case DoEcho turns [] of
      (Suspended, out) \<Rightarrow> Inr (out, n)
    | (Closed, out) \<Rightarrow> (case Tcp_Close socket n of (s, n1) \<Rightarrow> bind_result (Socket_destroy s n1) (\<lambda>n2. Inr (out, n2))))"

text \<open>The client: what it sent and what it printed. The last byte read from the terminal is taken for a newline.\<close>

fun EchoClient_OnConnect :: "turn list \<Rightarrow> byte list \<times> byte list \<Rightarrow> conn_state \<times> byte list \<times> byte list" where
  "EchoClient_OnConnect [] io = (Suspended, io)"
| "EchoClient_OnConnect (((n, buf), ws) # turns) (sent, printed) =
     (if n \<le> 0 then (Closed, sent, printed)
      else let message = take (nat (n - 1)) buf in
        if map byte_char message = ''quit'' then (Closed, sent, printed)
        else case WriteN message ws 0 [] of (ret, bytes) \<Rightarrow>
          (case ret of
             None \<Rightarrow> (Suspended, sent @ bytes, printed)
           | Some n' \<Rightarrow> if n' < 0 then (Closed, sent @ bytes, printed)
               else EchoClient_OnConnect turns (sent @ bytes, printed @ take (nat n') buf @ [10])))"

definition good_turn :: "turn \<Rightarrow> bool" where
  "good_turn t \<longleftrightarrow> (case t of ((n, buf), ws) \<Rightarrow> n \<le> int (length buf) \<and> writes_ok (nat n) ws)"

definition read_bytes :: "turn \<Rightarrow> byte list" where
  "read_bytes t = (case t of ((n, buf), ws) \<Rightarrow> take (nat n) buf)"

text \<open>A turn that reads something and whose writes take all of it.\<close>

definition full_turn :: "turn \<Rightarrow> bool" where
  "full_turn t \<longleftrightarrow> (case t of ((n, buf), ws) \<Rightarrow> 0 < n \<and> n \<le> int (length buf) \<and> list_all (\<lambda>x. 0 \<le> x) ws \<and> sum_list (map nat ws) = nat n)"

lemma full_write:
  assumes "full_turn ((n, buf), ws)"
  shows "WriteN (take (nat n) buf) ws 0 [] = (Some n, take (nat n) buf)" "0 < n"
proof -
  have "length (take (nat n) buf) = nat n" using assms by (simp add: full_turn_def nat_le_iff)
  then show "WriteN (take (nat n) buf) ws 0 [] = (Some n, take (nat n) buf)"
    using WriteN_complete [of ws 0 "take (nat n) buf"] assms by (simp add: full_turn_def)
qed (use assms in \<open>simp add: full_turn_def\<close>)

text \<open>The echo server writes back what it reads: the bytes on the wire are always a beginning of the bytes read, in order; when
  every write gets through they are all of them, whatever pieces they come in.\<close>

lemma DoEcho_prefix:
  assumes "\<forall>t \<in> set turns. good_turn t"
  shows "\<exists>rest. snd (DoEcho turns out) @ rest = out @ concat (map read_bytes turns)"
  using assms
proof (induction turns arbitrary: out)
  case (Cons t turns)
  obtain n buf ws where t: "t = ((n, buf), ws)" by (cases t) auto
  obtain j v where w: "WriteN (take (nat n) buf) ws 0 [] = (v, take j (take (nat n) buf))"
      "\<forall>ret. v = Some ret \<longrightarrow> (0 \<le> ret \<longleftrightarrow> j = length (take (nat n) buf)) \<or> ret < 0" "j \<le> length (take (nat n) buf)"
  proof -
    have "writes_ok (length (take (nat n) buf) - 0) ws" using Cons.prems by (simp add: t good_turn_def min_absorb2 nat_le_iff)
    from WriteN_prefix [of "[]" 0 "take (nat n) buf" ws, OF _ _ this] show thesis using that by auto
  qed
  have rest: "take j (take (nat n) buf) @ drop j (take (nat n) buf) @ concat (map read_bytes turns) = concat (map read_bytes (t # turns))"
    by (simp only: t read_bytes_def prod.case list.map concat.simps append_assoc [symmetric] append_take_drop_id)
  show ?case
  proof (cases "n \<le> 0 \<or> v = None \<or> (\<exists>r. v = Some r \<and> r < 0)")
    case True
    then show ?thesis using w(1) rest by (auto simp: t intro!: exI [of _ "drop j (take (nat n) buf) @ concat (map read_bytes turns)"])
  next
    case False
    then have "j = length (take (nat n) buf)" using w(2) by auto
    then have "take j (take (nat n) buf) = read_bytes t" by (simp only: t read_bytes_def prod.case take_all_iff order_refl)
    then show ?thesis using False w(1) Cons.IH [of "out @ read_bytes t"] Cons.prems by (auto simp: t)
  qed
qed simp

lemma DoEcho_full:
  assumes "\<forall>t \<in> set turns. full_turn t"
  shows "DoEcho turns out = (Suspended, out @ concat (map read_bytes turns))"
  using assms
proof (induction turns arbitrary: out)
  case (Cons t turns)
  obtain n buf ws where t: "t = ((n, buf), ws)" by (cases t) auto
  then show ?case using full_write [of n buf ws] Cons by (simp add: read_bytes_def)
qed simp

lemma DoEcho_append: "DoEcho turns out = (Suspended, out1) \<Longrightarrow> \<forall>t \<in> set turns. full_turn t \<Longrightarrow> DoEcho (turns @ more1) out = DoEcho more1 out1"
proof (induction turns arbitrary: out)
  case (Cons t turns)
  obtain n buf ws where t: "t = ((n, buf), ws)" by (cases t) auto
  then show ?case using full_write [of n buf ws] Cons by simp
qed simp

theorem echo_server_echoes:
  assumes "\<forall>t \<in> set turns. full_turn t" "n \<le> 0" "ioService socket = Some sv" "0 \<le> sock_fd socket"
  shows "\<exists>net'. EchoServer_OnConnect (turns @ [((n, buf), ws)]) socket net = Inr (concat (map read_bytes turns), net')
     \<and> sock_fd socket \<notin> net_open net' \<and> net_open net' = net_open net - {sock_fd socket} \<and> (sock_fd socket, SHUT_RDWR) \<in> set (shutdowns net')"
proof -
  have "DoEcho (turns @ [((n, buf), ws)]) [] = (Closed, concat (map read_bytes turns))"
    using DoEcho_append [OF DoEcho_full [OF assms(1)] assms(1)] assms(2) by simp
  then show ?thesis
    using assms(3,4) by (auto simp: EchoServer_OnConnect_def Tcp_Close_def Basic_Close_def Socket_destroy_def shutdown_fd_def stop_all_def
        at_service_def close_fd_def)
qed

text \<open>The client never reads from its socket: it prints what it sent, whether or not anything came back, and drops the last byte of
  what it read from the terminal even if that is no newline.\<close>

lemma echo_client_prints_itself:
  assumes "0 < n" "n \<le> int (length buf)" "map byte_char (take (nat (n - 1)) buf) \<noteq> ''quit''"
    and "list_all (\<lambda>x. 0 \<le> x) ws" "sum_list (map nat ws) = nat (n - 1)"
  shows "EchoClient_OnConnect [((n, buf), ws)] (sent, printed) =
     (Suspended, sent @ take (nat (n - 1)) buf, printed @ take (nat (n - 1)) buf @ [10])"
proof -
  have "length (take (nat (n - 1)) buf) = nat (n - 1)" using assms(2) by simp
  then have "WriteN (take (nat (n - 1)) buf) ws 0 [] = (Some (int (nat (n - 1))), take (nat (n - 1)) buf)"
    using WriteN_complete [of ws 0 "take (nat (n - 1)) buf"] assms(4,5) by simp
  then show ?thesis using assms(1,3) by (simp add: Let_def)
qed

section \<open>Character generator\<close>

definition chargen_line :: "byte list" where
  "chargen_line = map of_nat [33..<127] @ map of_nat [33..<127]"

definition chargen_message :: "byte list" where
  "chargen_message = concat (map (\<lambda>i. take 72 (drop i chargen_line) @ [10]) [0..<94])"

record chargen =
  transferred :: int
  startTime :: int

text \<open>\<open>DoCharGen\<close>: for each \<open>WriteN\<close> the results of its writes.\<close>

fun DoCharGen :: "int list list \<Rightarrow> byte list \<Rightarrow> chargen \<Rightarrow> conn_state \<times> byte list \<times> chargen" where
  "DoCharGen [] out g = (Suspended, out, g)"
| "DoCharGen (ws # wss) out g = (case WriteN chargen_message ws 0 [] of (ret, bytes) \<Rightarrow>
     (case ret of
        None \<Rightarrow> (Suspended, out @ bytes, g)
      | Some n \<Rightarrow> if n < 0 \<or> nat n \<noteq> length chargen_message then (Closed, out @ bytes, g)
          else DoCharGen wss (out @ bytes) (g\<lparr>transferred := transferred g + int (length chargen_message)\<rparr>)))"

text \<open>\<open>printThroughput\<close>: the bytes and the seconds it divides, the new state, and the next expiry of its timer; \<open>now\<close> is the time at which
  that is set. \<open>Time\<close> counts nanoseconds, and the cast to seconds truncates.\<close>

definition printThroughput :: "int \<Rightarrow> int \<Rightarrow> chargen \<Rightarrow> (int \<times> int) \<times> chargen \<times> int" where
  "printThroughput endTime now g =
     (let elapsed = endTime - startTime g; d = sgn elapsed * (\<bar>elapsed\<bar> div 1000000000)
      in ((transferred g, d), g\<lparr>transferred := 0, startTime := endTime\<rparr>, now + 3000000000))"

text \<open>The pattern of RFC 864: lines of 72 printable characters, each starting one character later than the one before.\<close>

definition rfc864 :: "nat \<Rightarrow> byte" where
  "rfc864 k = (let line1 = k div 73 mod 94; col = k mod 73 in if col = 72 then 10 else of_nat (33 + (line1 + col) mod 94))"

lemma twice_nth: "i < 2 * n \<Longrightarrow> (map f [a..<a + n] @ map f [a..<a + n]) ! i = f (a + i mod n)"
  by (cases "i < n") (simp_all add: nth_append le_mod_geq)

lemma chargen_line_nth: "i < 188 \<Longrightarrow> chargen_line ! i = of_nat (33 + i mod 94)"
proof -
  assume "i < 188"
  moreover have e: "(127 :: nat) = 33 + 94" by simp
  ultimately show ?thesis unfolding chargen_line_def e by (intro twice_nth) simp
qed

lemma length_chargen_line: "length chargen_line = 188"
  by (simp add: chargen_line_def)

lemma concat_equal_nth:
  assumes "\<And>i. i < n \<Longrightarrow> length (f i) = m" "k < n * m"
  shows "concat (map f [0..<n]) ! k = f (k div m) ! (k mod m)"
  using assms
proof (induction n)
  case (Suc n)
  have l: "length (concat (map f [0..<n])) = n * m" using Suc.prems(1) by (induction n) auto
  show ?case
  proof (cases "k < n * m")
    case True
    then show ?thesis using Suc l by (simp add: nth_append)
  next
    case False
    then have "k = n * m + (k - n * m)" "k - n * m < m" using Suc.prems(2) by auto
    then have "k div m = n" "k mod m = k - n * m" by (metis div_mult_self3 div_less add_0_right gr_implies_not0, metis mod_mult_self3 mod_less)
    then show ?thesis using False l by (simp add: nth_append)
  qed
qed simp

lemma length_concat_equal: "(\<And>i. i < n \<Longrightarrow> length (f i) = m) \<Longrightarrow> length (concat (map f [0..<n])) = n * m"
  by (induction n) auto

lemma length_chargen_message: "length chargen_message = 6862"
proof -
  have "length (concat (map (\<lambda>i. take 72 (drop i chargen_line) @ [10]) [0..<94])) = 94 * 73"
    by (rule length_concat_equal) (simp add: length_chargen_line)
  then show ?thesis by (simp add: chargen_message_def)
qed

lemma chargen_message_nth: "k < 6862 \<Longrightarrow> chargen_message ! k = rfc864 k"
proof -
  assume k: "k < 6862"
  have "chargen_message ! k = (take 72 (drop (k div 73) chargen_line) @ [10]) ! (k mod 73)"
    unfolding chargen_message_def by (rule concat_equal_nth) (use k in \<open>simp_all add: length_chargen_line\<close>)
  moreover have i: "k div 73 < 94" using k by (simp add: div_less_iff_less_mult)
  moreover have "k mod 73 < 73" by simp
  ultimately show ?thesis
    by (auto simp: rfc864_def Let_def nth_append length_chargen_line chargen_line_nth)
qed

lemma rfc864_period: "rfc864 (6862 * q + k) = rfc864 k"
proof -
  have "6862 * q + k = k + 73 * (94 * q)" by simp
  then have "(6862 * q + k) div 73 = k div 73 + 94 * q" "(6862 * q + k) mod 73 = k mod 73" by (simp_all only: div_mult_self2 mod_mult_self2)
  then show ?thesis by (simp add: rfc864_def Let_def)
qed

lemma WriteN_short:
  assumes "k < length buf" "writes_ok (length buf - k) rs"
  shows "\<exists>j v. WriteN buf rs k (take k buf) = (v, take j buf)
     \<and> ((v = Some (int (length buf)) \<and> j = length buf) \<or> ((v = None \<or> (\<exists>r < 0. v = Some r)) \<and> j < length buf))"
  using assms
proof (induction rs arbitrary: k)
  case Nil
  then show ?case by (intro exI [of _ k]) (simp add: WriteN.simps)
next
  case (Cons ret rs)
  show ?case
  proof (cases "ret < 0")
    case True
    then show ?thesis using Cons.prems by (intro exI [of _ k]) (simp add: WriteN.simps)
  next
    case False
    have w: "WriteN buf (ret # rs) k (take k buf) = WriteN buf rs (k + nat ret) (take (k + nat ret) buf)"
      using False Cons.prems(1) by (subst WriteN.simps) (simp add: take_add)
    have le: "k + nat ret \<le> length buf" "writes_ok (length buf - (k + nat ret)) rs" using Cons.prems False by auto
    show ?thesis
    proof (cases "k + nat ret = length buf")
      case True
      then show ?thesis unfolding w by (intro exI [of _ "length buf"]) (simp add: WriteN.simps)
    next
      case False
      then show ?thesis unfolding w using Cons.IH [OF _ le(2)] le(1) by simp
    qed
  qed
qed

lemma chargen_message_eq: "chargen_message = map rfc864 [0..<6862]"
  by (rule nth_equalityI) (simp_all add: length_chargen_message chargen_message_nth del: upt_conv_Cons_Cons)

lemma rfc864_take: "j \<le> 6862 \<Longrightarrow> map rfc864 [0..<6862 * q] @ take j chargen_message = map rfc864 [0..<6862 * q + j]"
proof (rule nth_equalityI)
  fix i assume j: "j \<le> 6862" and "i < length (map rfc864 [0..<6862 * q] @ take j chargen_message)"
  then have i: "i < 6862 * q + j" by (simp add: length_chargen_message)
  show "(map rfc864 [0..<6862 * q] @ take j chargen_message) ! i = map rfc864 [0..<6862 * q + j] ! i"
  proof (cases "i < 6862 * q")
    case False
    then have "rfc864 i = rfc864 (i - 6862 * q)" using rfc864_period [of q "i - 6862 * q"] by simp
    then show ?thesis using False i j by (simp add: nth_append chargen_message_nth)
  qed (use i in \<open>simp add: nth_append\<close>)
qed (simp add: length_chargen_message)

lemma DoCharGen_pattern:
  assumes "\<forall>ws \<in> set wss. writes_ok 6862 ws"
  shows "\<exists>st n g'. DoCharGen wss (map rfc864 [0..<6862 * q]) g = (st, map rfc864 [0..<n], g') \<and> 6862 * q \<le> n
     \<and> transferred g' = transferred g + 6862 * int (n div 6862 - q) \<and> startTime g' = startTime g"
  using assms
proof (induction wss arbitrary: q g)
  case Nil
  then show ?case by (intro exI [of _ Suspended] exI [of _ "6862 * q"] exI [of _ g]) simp
next
  case (Cons ws wss)
  obtain j v where w: "WriteN chargen_message ws 0 [] = (v, take j chargen_message)"
      "(v = Some 6862 \<and> j = 6862) \<or> ((v = None \<or> (\<exists>r < 0. v = Some r)) \<and> j < 6862)"
    using WriteN_short [of 0 chargen_message ws] Cons.prems by (auto simp: length_chargen_message)
  show ?case
  proof (cases "v = Some 6862 \<and> j = 6862")
    case True
    then have "DoCharGen (ws # wss) (map rfc864 [0..<6862 * q]) g
        = DoCharGen wss (map rfc864 [0..<6862 * Suc q]) (g\<lparr>transferred := transferred g + 6862\<rparr>)"
      using w(1) rfc864_take [of 6862 q] by (simp add: length_chargen_message algebra_simps)
    moreover obtain st n g' where "DoCharGen wss (map rfc864 [0..<6862 * Suc q]) (g\<lparr>transferred := transferred g + 6862\<rparr>)
        = (st, map rfc864 [0..<n], g')" "6862 * Suc q \<le> n"
        "transferred g' = transferred g + 6862 + 6862 * int (n div 6862 - Suc q)" "startTime g' = startTime g"
      using Cons.IH [of "Suc q" "g\<lparr>transferred := transferred g + 6862\<rparr>"] Cons.prems by auto
    moreover have "Suc q \<le> n div 6862" using \<open>6862 * Suc q \<le> n\<close> by (simp add: less_eq_div_iff_mult_less_eq mult.commute)
    ultimately show ?thesis by (intro exI [of _ st] exI [of _ n] exI [of _ g']) (simp add: algebra_simps of_nat_diff)
  next
    case False
    then have j: "j < 6862" and v: "v = None \<or> (\<exists>r < 0. v = Some r)" using w(2) by auto
    have "\<exists>st. DoCharGen (ws # wss) (map rfc864 [0..<6862 * q]) g = (st, map rfc864 [0..<6862 * q + j], g)"
      using v w(1) rfc864_take [of j q] j by auto
    then obtain st where st: "DoCharGen (ws # wss) (map rfc864 [0..<6862 * q]) g = (st, map rfc864 [0..<6862 * q + j], g)" by blast
    have "(6862 * q + j) div 6862 = q" using j by simp
    then show ?thesis using st by (intro exI [of _ st] exI [of _ "6862 * q + j"] exI [of _ g]) (simp del: DoCharGen.simps)
  qed
qed

text \<open>Whatever the kernel takes at once and wherever the connection breaks, the bytes a client of the character generator gets are
  the pattern of RFC 864 from its beginning: byte \<open>k\<close> is \<open>rfc864 k\<close>. The bytes of complete messages, and no others, are counted in the
  throughput.\<close>

theorem chargen_pattern:
  assumes "\<forall>ws \<in> set wss. writes_ok 6862 ws"
  shows "\<exists>st n g'. DoCharGen wss [] g = (st, map rfc864 [0..<n], g')
     \<and> transferred g' = transferred g + 6862 * int (n div 6862) \<and> startTime g' = startTime g"
  using DoCharGen_pattern [OF assms, of 0 g] by simp

theorem chargen_pattern_witness:
  "\<exists>st n g'. DoCharGen [[6000, 862], [5, - 1]] [] \<lparr>transferred = 0, startTime = 0\<rparr> = (st, map rfc864 [0..<n], g')
     \<and> transferred g' = 6862 * int (n div 6862)"
proof -
  have "\<forall>ws \<in> set [[6000, 862], [5, - 1]]. writes_ok 6862 ws" by simp
  from chargen_pattern [OF this, of "\<lparr>transferred = 0, startTime = 0\<rparr>"] show ?thesis by (auto simp del: DoCharGen.simps)
qed

section \<open>Day time\<close>

text \<open>The server sends what \<open>ctime\<close> returned and closes; the client shows what its one read gives it.\<close>

definition DaytimeServer_OnConnect :: "(int \<Rightarrow> byte list) \<Rightarrow> int \<Rightarrow> int list \<Rightarrow> BasicSocket \<Rightarrow> 'h net \<Rightarrow> (byte list \<times> 'h net) result" where
  "DaytimeServer_OnConnect ctime now ws socket n = (case WriteN (ctime now) ws 0 [] of (ret, bytes) \<Rightarrow>
     (case ret of
        None \<Rightarrow> Inr (bytes, n)
      | Some _ \<Rightarrow> (case Tcp_Close socket n of (s, n1) \<Rightarrow> bind_result (Socket_destroy s n1) (\<lambda>n2. Inr (bytes, n2)))))"

datatype daytime_output = ReadFailed int | ServerTime "byte list"

definition DaytimeClient_OnConnect :: "int \<times> byte list \<Rightarrow> daytime_output" where
  "DaytimeClient_OnConnect r = (case r of (readBytes, buf) \<Rightarrow>
     if readBytes \<le> 0 then ReadFailed readBytes else ServerTime (take (nat readBytes) buf))"

lemma daytime_sends_and_closes:
  assumes "list_all (\<lambda>x. 0 \<le> x) ws" "sum_list (map nat ws) = length (ctime now)" "ioService socket = Some sv" "0 \<le> sock_fd socket"
  shows "\<exists>net'. DaytimeServer_OnConnect ctime now ws socket net = Inr (ctime now, net') \<and> net_open net' = net_open net - {sock_fd socket}"
proof -
  have "WriteN (ctime now) ws 0 [] = (Some (int (length (ctime now))), ctime now)"
    using WriteN_complete [of ws 0 "ctime now"] assms(1,2) by simp
  then show ?thesis
    using assms(3,4) by (auto simp: DaytimeServer_OnConnect_def Tcp_Close_def Basic_Close_def Socket_destroy_def shutdown_fd_def stop_all_def
        at_service_def close_fd_def)
qed

text \<open>A read that gets the beginning of the answer is taken for all of it.\<close>

lemma daytime_cut_short:
  assumes "answer = a @ b" "a \<noteq> []"
  shows "DaytimeClient_OnConnect (int (length a), a) = ServerTime a"
  using assms by (simp add: DaytimeClient_OnConnect_def)

end
