(* ===== verification/LoginDemo.thy ===== *)
theory LoginDemo
  imports ServletContext
begin

text \<open>
  \<open>examples/http/example2.cpp\<close>: a site with a login, written with the servlets, filters, sessions and forwards of the library. It is
  modelled down to the requests, so the properties speak about what the library's parts do together.

  \<^item> The context of an exchange is the session manager; a session id that is made is \<open>uuid n\<close> for the n-th session.
  \<^item> A filter and a servlet forward inside the context that dispatches to them: \<open>login_forward\<close> has fuel for the nesting, and
    two levels are enough, since the page that is forwarded to does not forward.
  \<^item> Text outside ASCII is given by its bytes (\<open>utf8\<close>).
\<close>

section \<open>The pages\<close>

definition utf8 :: "nat list \<Rightarrow> string" where
  "utf8 bs = map char_of bs"

datatype demo_value = VUser string string | VString string

definition StringT :: nat where "StringT = 0"
definition UserT :: nat where "UserT = 1"

type_synonym login_exchange = "(demo_value, demo_value HttpSessionManager) exchange"

definition msg_not_logged_in :: string where
  \<open>msg_not_logged_in = utf8 [230, 130, 168, 232, 191, 152, 230, 178, 161, 230, 156, 137, 231, 153, 187, 229, 189, 149]\<close>

definition msg_wrong_password :: string where
  \<open>msg_wrong_password = utf8 [232, 180, 166, 230, 136, 183, 230, 136, 150, 232, 128, 133, 229, 175, 134, 231, 160, 129, 233, 148, 153, 232, 175, 175]\<close>

definition greeting :: "string \<Rightarrow> string" where
  \<open>greeting name = name @ '','' @ utf8 [230, 130, 168, 229, 183, 178, 231, 153, 187, 229, 189, 149] @ ''<br>''\<close>

definition logout_link :: string where
  \<open>logout_link = ''<a href = '' @ utf8 [39] @ ''/logout'' @ utf8 [39] @ ''>'' @ utf8 [231, 130, 185, 229, 135, 187, 231, 153, 187, 229, 135, 186] @ ''</a>''\<close>

definition page_logged_out :: string where
  \<open>page_logged_out = utf8 [230, 130, 168, 232, 191, 152, 230, 178, 161, 231, 153, 187, 229, 189, 149] @ ''<br>''
     @ ''<a href = '' @ utf8 [39] @ ''/loginpage'' @ utf8 [39] @ ''>'' @ utf8 [231, 130, 185, 229, 135, 187, 231, 153, 187, 229, 189, 149] @ ''</a>''\<close>

definition login_form :: string where
  \<open>login_form =
    utf8 [10] @ ''        <form method='' @ utf8 [34] @ ''post'' @ utf8 [34] @ '' action='' @ utf8 [34] @ ''/login'' @
    utf8 [34] @ ''>'' @ utf8 [10] @ ''            username: <input type='' @ utf8 [34] @ ''text'' @ utf8 [34] @ '' name='' @
    utf8 [34] @ ''username'' @ utf8 [34] @ '' placeholder='' @ utf8 [34, 231, 148, 168, 230, 136, 183, 229, 144, 141, 34] @
    ''><br>'' @ utf8 [10] @ ''            password: <input type='' @ utf8 [34] @ ''password'' @ utf8 [34] @ '' name='' @
    utf8 [34] @ ''password'' @ utf8 [34] @ '' placeholder='' @
    utf8 [34, 231, 153, 187, 229, 189, 149, 229, 175, 134, 231, 160, 129, 34] @ ''><br>'' @ utf8 [10] @
    ''            <input type='' @ utf8 [34] @ ''submit'' @ utf8 [34] @ '' name='' @ utf8 [34] @ ''submit'' @ utf8 [34] @
    '' value='' @ utf8 [34, 231, 153, 187, 229, 189, 149, 34] @ '' class='' @ utf8 [34] @ ''btn'' @ utf8 [34] @ ''>'' @
    utf8 [10] @ ''        </form>''\<close>

definition message_html :: "string \<Rightarrow> string" where
  \<open>message_html msg = ''<h2 style='' @ utf8 [39] @ ''color:red;'' @ utf8 [39] @ ''>'' @ msg @ ''</h2>''\<close>

definition home_page :: "string \<Rightarrow> string" where
  "home_page name = Text_Append logout_link (Text_Append (greeting name) (Text_Append ''<h1>/user/home</h1>'' []))"

section \<open>Requests and sessions\<close>

text \<open>\<open>request.GetSession()\<close> in an exchange, and \<open>session->GetAttribute<User>("user")\<close>.\<close>

definition exchange_GetSession :: "(nat \<Rightarrow> string) \<Rightarrow> login_exchange \<Rightarrow> nat \<times> login_exchange" where
  "exchange_GetSession uuid x = (case x of (rq, resp, mgr) \<Rightarrow>
     (case GetSession (uuid (length (store mgr))) rq resp mgr of (a, resp', mgr') \<Rightarrow> (a, rq, resp', mgr')))"

definition session_user :: "nat \<Rightarrow> demo_value HttpSessionManager \<Rightarrow> demo_value option" where
  "session_user a mgr = any_attribute UserT ''user'' (se_attributes (store mgr ! a))"

fun user_name :: "demo_value \<Rightarrow> string" where
  "user_name (VUser name password) = name"
| "user_name (VString s) = []"

fun the_string :: "demo_value \<Rightarrow> string" where
  "the_string (VString s) = s"
| "the_string (VUser name password) = []"

definition set_message :: "string \<Rightarrow> login_exchange \<Rightarrow> login_exchange" where
  "set_message msg x = (case x of (rq, c) \<Rightarrow> (Request_SetAttribute ''message'' StringT (VString msg) rq, c))"

definition html_body :: "string \<Rightarrow> login_exchange \<Rightarrow> login_exchange result" where
  "html_body text1 x = (case x of (rq, resp, mgr) \<Rightarrow>
     bind_result (SetBody body_related (TextB text1) (SetHeader ''Content-type'' ''text/html;charset=utf-8'' resp)) (\<lambda>resp'.
       Inr (rq, resp', mgr)))"

definition redirect :: "string \<Rightarrow> login_exchange \<Rightarrow> login_exchange" where
  "redirect url x = (case x of (rq, resp, mgr) \<Rightarrow> (rq, SendRedirect url resp, mgr))"

section \<open>Filters and servlets\<close>

type_synonym forwarding = "string \<Rightarrow> login_exchange \<Rightarrow> login_exchange result"

definition LoginFilter_DoFilter :: "(nat \<Rightarrow> string) \<Rightarrow> forwarding \<Rightarrow> login_exchange filter_fun" where
  "LoginFilter_DoFilter uuid fwd x = (case exchange_GetSession uuid x of (a, x1) \<Rightarrow>
     (case session_user a (snd (snd x1)) of
        None \<Rightarrow> bind_result (fwd ''/loginpage'' (set_message msg_not_logged_in x1)) (\<lambda>x2. Inr (False, x2))
      | Some u \<Rightarrow> Inr (True, x1)))"

definition DefaultPageServlet_Handle :: "(nat \<Rightarrow> string) \<Rightarrow> login_exchange servlet_fun" where
  "DefaultPageServlet_Handle uuid x = (case exchange_GetSession uuid x of (a, x1) \<Rightarrow>
     (case session_user a (snd (snd x1)) of
        Some u \<Rightarrow> html_body (Text_Append logout_link (Text_Append (greeting (user_name u)) [])) x1
      | None \<Rightarrow> html_body page_logged_out x1))"

text \<open>\<open>*request.GetAttribute<std::string>("message")\<close> reads through a null pointer if the attribute has another type.\<close>

definition LoginPageServlet_Handle :: "(nat \<Rightarrow> string) \<Rightarrow> login_exchange servlet_fun" where
  "LoginPageServlet_Handle uuid x = (case exchange_GetSession uuid x of (a, x1) \<Rightarrow>
     (case session_user a (snd (snd x1)) of
        Some u \<Rightarrow> Inr (redirect ''/user/home'' x1)
      | None \<Rightarrow>
          if \<not> smap_contains (hq_attributes (fst x1)) ''message'' then html_body login_form x1
          else (case any_attribute StringT ''message'' (hq_attributes (fst x1)) of
              None \<Rightarrow> Inl Undefined
            | Some msg \<Rightarrow> html_body (Text_Append login_form (Text_Append (message_html (the_string msg)) [])) x1)))"

definition LoginServlet_Handle :: "(nat \<Rightarrow> string) \<Rightarrow> forwarding \<Rightarrow> login_exchange servlet_fun" where
  "LoginServlet_Handle uuid fwd x = (case exchange_GetSession uuid x of (a, rq, resp, mgr) \<Rightarrow>
     (case session_user a mgr of
        Some u \<Rightarrow> Inr (redirect ''/'' (rq, resp, mgr))
      | None \<Rightarrow>
          if GetEntry (hq_parameters rq) ''username'' = ''admin'' \<and> GetEntry (hq_parameters rq) ''password'' = ''admin''
          then Inr (redirect ''/user/home'' (rq, resp, Session_SetAttribute a ''user'' UserT (VUser ''admin'' ''admin'') mgr))
          else fwd ''/loginpage'' (set_message msg_wrong_password (rq, resp, mgr))))"

text \<open>\<open>user->username\<close> without a check.\<close>

definition UserHomePageServlet_Handle :: "(nat \<Rightarrow> string) \<Rightarrow> login_exchange servlet_fun" where
  "UserHomePageServlet_Handle uuid x = (case exchange_GetSession uuid x of (a, x1) \<Rightarrow>
     (case session_user a (snd (snd x1)) of
        None \<Rightarrow> Inl Undefined
      | Some u \<Rightarrow> html_body (home_page (user_name u)) x1))"

definition logout_handle :: "(nat \<Rightarrow> string) \<Rightarrow> login_exchange servlet_fun" where
  "logout_handle uuid x = (case exchange_GetSession uuid x of (a, rq, resp, mgr) \<Rightarrow>
     Inr (redirect ''/'' (rq, resp, Invalidate a mgr)))"

section \<open>The server\<close>

definition login_routes :: "(nat \<Rightarrow> string) \<Rightarrow> forwarding \<Rightarrow> (login_exchange filter_fun, login_exchange servlet_fun) route_op list" where
  "login_routes uuid fwd =
     [AddS ''/'' (DefaultPageServlet_Handle uuid), AddS ''/loginpage'' (LoginPageServlet_Handle uuid),
      AddS ''/login'' (LoginServlet_Handle uuid fwd), AddS ''/user/home'' (UserHomePageServlet_Handle uuid),
      AddF ''/user/**'' (LoginFilter_DoFilter uuid fwd),
      AddS ''/logout'' (FunctionHttpServlet_Handle (Some (logout_handle uuid)))]"

definition login_router :: "(nat \<Rightarrow> string) \<Rightarrow> forwarding \<Rightarrow> login_exchange router" where
  "login_router uuid fwd = (case add_routes (login_routes uuid fwd) Router_init of Inr r \<Rightarrow> r | Inl e \<Rightarrow> Router_init)"

fun login_forward :: "(nat \<Rightarrow> string) \<Rightarrow> nat \<Rightarrow> forwarding" where
  "login_forward uuid 0 url x = Inl Abort"
| "login_forward uuid (Suc n) url x = ForwardTo (login_router uuid (login_forward uuid n)) DefaultHttpServlet_Handle url x"

text \<open>\<open>main\<close>: the server is configured through its setters. The context that it forwards to is its own.\<close>

definition login_main :: "(nat \<Rightarrow> string) \<Rightarrow> forwarding \<Rightarrow> (demo_value, demo_value HttpSessionManager) server_state \<Rightarrow>
    (demo_value, demo_value HttpSessionManager) server_state result" where
  "login_main uuid fwd s =
     bind_result (Server_AddServlet ''/'' (DefaultPageServlet_Handle uuid) s) (\<lambda>s.
     bind_result (Server_AddServlet ''/loginpage'' (LoginPageServlet_Handle uuid) s) (\<lambda>s.
     bind_result (Server_AddServlet ''/login'' (LoginServlet_Handle uuid fwd) s) (\<lambda>s.
     bind_result (Server_AddServlet ''/user/home'' (UserHomePageServlet_Handle uuid) s) (\<lambda>s.
     bind_result (Server_AddFilter ''/user/**'' (LoginFilter_DoFilter uuid fwd) s) (\<lambda>s.
       Server_AddHandler ''/logout'' (Some (logout_handle uuid)) s)))))"

definition login_server :: "(nat \<Rightarrow> string) \<Rightarrow> nat \<Rightarrow> (demo_value, demo_value HttpSessionManager) HttpServer" where
  "login_server uuid n = \<lparr>hs_router = login_router uuid (login_forward uuid n), hs_defaultServlet = DefaultHttpServlet_Handle,
     hs_errorPages = Map.empty, hs_defaultErrorPage = defaultErrorPage, hs_limits = default_limits, hs_webSocket = False\<rparr>"

text \<open>The requests of all clients in the order they are served; the newest is at the head of the log.\<close>

type_synonym login_log = "(RawHttpRequest \<times> Body HttpResponse) list"

fun login_run :: "(nat \<Rightarrow> string) \<Rightarrow> nat \<Rightarrow> RawHttpRequest list \<Rightarrow> login_log \<times> demo_value HttpSessionManager \<Rightarrow>
    (login_log \<times> demo_value HttpSessionManager) result" where
  "login_run uuid n [] s = Inr s"
| "login_run uuid n (rq # rqs) s = bind_result (make_response (login_server uuid n) rq (snd s)) (\<lambda>(resp, mgr).
     login_run uuid n rqs ((rq, resp) # fst s, mgr))"

definition no_sessions :: "demo_value HttpSessionManager" where
  "no_sessions = \<lparr>sessions = [], store = []\<rparr>"

section \<open>Routing\<close>

lemma login_parts:
  "parts_of ''/'' = []" "parts_of ''/loginpage'' = [''loginpage'']" "parts_of ''/login'' = [''login'']"
  "parts_of ''/user/home'' = [''user'', ''home'']" "parts_of ''/user/**'' = [''user'', ''**'']" "parts_of ''/logout'' = [''logout'']"
  by code_simp+

lemma login_keys:
  "''login'' < ''loginpage''" "''login'' < ''user''" "''loginpage'' < ''user''" "''login'' < ''logout''" "''loginpage'' < ''logout''" "''logout'' < ''user''"
  "\<not> ''loginpage'' < ''login''" "\<not> ''user'' < ''login''" "\<not> ''user'' < ''loginpage''" "\<not> ''logout'' < ''login''" "\<not> ''logout'' < ''loginpage''"
  "\<not> ''user'' < ''logout''"
  by code_simp+

lemma login_router_eq:
  "login_router uuid fwd = \<lparr>servletRouterRoot = RouteNode
       [(''login'', RouteNode [] (Some (LoginServlet_Handle uuid fwd))), (''loginpage'', RouteNode [] (Some (LoginPageServlet_Handle uuid))),
        (''logout'', RouteNode [] (Some (FunctionHttpServlet_Handle (Some (logout_handle uuid))))),
        (''user'', RouteNode [(''home'', RouteNode [] (Some (UserHomePageServlet_Handle uuid)))] None)]
       (Some (DefaultPageServlet_Handle uuid)),
     filterRouterRoot = RouteNode [(''user'', RouteNode [(''**'', RouteNode [] [LoginFilter_DoFilter uuid fwd])] [])] []\<rparr>"
  by (simp add: login_router_def login_routes_def add_routes_total Router_init_def login_parts login_keys)

text \<open>The servlet of a path, and how often the filter stands before it.\<close>

definition login_servlet :: "(nat \<Rightarrow> string) \<Rightarrow> forwarding \<Rightarrow> string list \<Rightarrow> login_exchange servlet_fun option" where
  "login_servlet uuid fwd ps =
     (if ps = [] then Some (DefaultPageServlet_Handle uuid) else if ps = [''login''] then Some (LoginServlet_Handle uuid fwd)
      else if ps = [''loginpage''] then Some (LoginPageServlet_Handle uuid) else if ps = [''logout''] then Some (logout_handle uuid)
      else if ps = [''user'', ''home''] then Some (UserHomePageServlet_Handle uuid) else None)"

definition login_filters :: "(nat \<Rightarrow> string) \<Rightarrow> forwarding \<Rightarrow> string list \<Rightarrow> login_exchange filter_fun list" where
  "login_filters uuid fwd ps = (case ps of a # b # cs \<Rightarrow>
     if a = ''user'' then replicate (if b = ''**'' \<and> cs = [] then 2 else 1) (LoginFilter_DoFilter uuid fwd) else [] | _ \<Rightarrow> [])"

lemma login_dispatch:
  "DoDispathcer (login_router uuid fwd) url x = run_route (login_filters uuid fwd (parts_of url)) (login_servlet uuid fwd (parts_of url)) x"
proof -
  let ?r = "login_router uuid fwd"
  have fs: "FunctionHttpServlet_Handle (Some h) = h" for h :: "login_exchange servlet_fun"
    by (simp add: fun_eq_iff FunctionHttpServlet_Handle_def)
  have "match_parts ps (servletRouterRoot ?r) = login_servlet uuid fwd ps" for ps
    by (cases ps; cases "tl ps"; cases "tl (tl ps)") (auto simp: login_router_eq login_servlet_def wildcard_def fs)
  moreover have "chain_parts ps (filterRouterRoot ?r) = login_filters uuid fwd ps" for ps
    by (cases ps; cases "tl ps"; cases "tl (tl ps)") (auto simp: login_router_eq login_filters_def wildcard_def numeral_2_eq_2)
  ultimately show ?thesis
    by (simp add: DoDispathcer_def MatchFilters_def MatchServlet_def MatchChain_def TryMatch_def Split_parts)
qed

lemma login_forward_eq:
  "login_forward uuid (Suc n) url x = bind_result (run_route (login_filters uuid (login_forward uuid n) (parts_of url))
       (login_servlet uuid (login_forward uuid n) (parts_of url)) x) (\<lambda>(found, x1). if found then Inr x1 else DefaultHttpServlet_Handle x1)"
proof (cases "url = ''/''")
  case True
  then show ?thesis
    by (cases "DefaultPageServlet_Handle uuid x") (simp_all add: ForwardTo_def login_dispatch login_parts login_filters_def login_servlet_def run_route_def)
next
  case False
  then show ?thesis by (simp add: ForwardTo_def login_dispatch cong: if_cong)
qed

declare login_forward.simps(2) [simp del]

section \<open>Sessions and who is logged in\<close>

definition sess_ok :: "(nat \<Rightarrow> string) \<Rightarrow> demo_value HttpSessionManager \<Rightarrow> bool" where
  "sess_ok uuid mgr \<longleftrightarrow> (\<forall>a < length (store mgr). se_id (store mgr ! a) = uuid a)
     \<and> (\<forall>sid a. smap_get (sessions mgr) sid = Some a \<longrightarrow> a < length (store mgr) \<and> uuid a = sid)
     \<and> (\<forall>a v. a < length (store mgr) \<longrightarrow> session_user a mgr = Some v \<longrightarrow> v = VUser ''admin'' ''admin'')"

definition logged :: "demo_value HttpSessionManager \<Rightarrow> string set" where
  "logged mgr = {sid. \<exists>a v. smap_get (sessions mgr) sid = Some a \<and> session_user a mgr = Some v}"

definition session_cookie :: "demo_value HttpRequest \<Rightarrow> string option" where
  "session_cookie rq = smap_get (hq_cookies rq) ''SessionId''"

definition sets_cookie :: "Body HttpResponse \<Rightarrow> string \<Rightarrow> bool" where
  "sets_cookie resp sid \<longleftrightarrow> (\<exists>ck \<in> set (rs_cookies resp). ck_key ck = ''SessionId'' \<and> ck_value ck = sid)"

definition shows_home :: "Body HttpResponse \<Rightarrow> bool" where
  "shows_home resp \<longleftrightarrow> (\<exists>name. rs_body resp = Some (TextB (home_page name)))"

definition message_ok :: "demo_value HttpRequest \<Rightarrow> bool" where
  "message_ok rq \<longleftrightarrow> (\<forall>x. smap_get (hq_attributes rq) ''message'' = Some x \<longrightarrow> fst x = StringT)"

lemma sess_ok_empty: "sess_ok uuid no_sessions" "logged no_sessions = {}"
  by (simp_all add: sess_ok_def logged_def no_sessions_def)

lemma session_user_new: "session_user (length st) (mgr\<lparr>store := st @ [\<lparr>se_id = u, se_attributes = []\<rparr>], sessions := m\<rparr>) = None"
  by (simp add: session_user_def any_attribute_def nth_append)

lemma CreateSession_ok:
  assumes "sess_ok uuid mgr" "inj uuid" "CreateSession (uuid (length (store mgr))) mgr = (a, mgr')"
  shows "a = length (store mgr)" "sess_ok uuid mgr'" "logged mgr' = logged mgr" "session_user a mgr' = None"
    "smap_get (sessions mgr') (uuid a) = Some a"
proof -
  let ?n = "length (store mgr)"
  have e: "a = ?n" "mgr' = mgr\<lparr>store := store mgr @ [\<lparr>se_id = uuid ?n, se_attributes = []\<rparr>], sessions := smap_set (sessions mgr) (uuid ?n) ?n\<rparr>"
    using assms(3) by (auto simp: CreateSession_def Let_def)
  have su: "session_user b mgr' = (if b < ?n then session_user b mgr else if b = ?n then None else session_user b mgr')" for b
    by (simp add: e session_user_def nth_append any_attribute_def)
  have fresh: "smap_get (sessions mgr) (uuid ?n) = None"
  proof (cases "smap_get (sessions mgr) (uuid ?n)")
    case (Some b)
    then have "b < ?n" "uuid b = uuid ?n" using assms(1) by (auto simp: sess_ok_def)
    then show ?thesis using assms(2) by (auto dest: injD)
  qed
  show "a = ?n" by (rule e(1))
  show "session_user a mgr' = None" using su [of ?n] e(1) by simp
  show "smap_get (sessions mgr') (uuid a) = Some a" by (simp add: e smap_get_set)
  have keep: "smap_get (sessions mgr) sid = Some b \<Longrightarrow> b < ?n \<and> uuid b = sid" for sid b
    using assms(1) by (auto simp: sess_ok_def)
  have "se_id (store mgr' ! b) = uuid b" if "b < length (store mgr')" for b
    using that assms(1) by (auto simp: e sess_ok_def nth_append less_Suc_eq)
  moreover have "b < length (store mgr') \<and> uuid b = sid" if "smap_get (sessions mgr') sid = Some b" for sid b
    using that keep [of sid b] by (auto simp: e smap_get_set split: if_splits)
  moreover have "v = VUser ''admin'' ''admin''" if "b < length (store mgr')" "session_user b mgr' = Some v" for b v
    using that su [of b] assms(1) by (auto simp: e(2) sess_ok_def less_Suc_eq split: if_splits)
  ultimately show "sess_ok uuid mgr'" by (simp add: sess_ok_def)
  have "(\<exists>b v. smap_get (sessions mgr') sid = Some b \<and> session_user b mgr' = Some v)
      = (\<exists>b v. smap_get (sessions mgr) sid = Some b \<and> session_user b mgr = Some v)" for sid
  proof (cases "sid = uuid ?n")
    case True
    then have "smap_get (sessions mgr') sid = Some ?n" by (simp add: e smap_get_set)
    then show ?thesis using True fresh su [of ?n] by simp
  next
    case False
    then have "smap_get (sessions mgr') sid = smap_get (sessions mgr) sid" by (simp add: e smap_get_set)
    moreover have "session_user b mgr' = session_user b mgr" if "smap_get (sessions mgr) sid = Some b" for b
      using su [of b] keep [OF that] by simp
    ultimately show ?thesis by metis
  qed
  then show "logged mgr' = logged mgr" by (simp add: logged_def)
qed

lemma GetSession_ok:
  assumes "sess_ok uuid mgr" "inj uuid" "exchange_GetSession uuid (rq, resp, mgr) = (a, rq', resp', mgr')"
  shows "rq' = rq" "sess_ok uuid mgr'" "logged mgr' = logged mgr" "smap_get (sessions mgr') (uuid a) = Some a"
    "rs_body resp' = rs_body resp" "sets_cookie resp sid \<Longrightarrow> sets_cookie resp' sid"
    "session_cookie rq = Some (uuid a) \<or> sets_cookie resp' (uuid a)"
    "session_user a mgr' = Some v \<Longrightarrow> session_cookie rq = Some (uuid a) \<and> mgr' = mgr \<and> resp' = resp"
proof -
  let ?u = "uuid (length (store mgr))"
  have rq: "rq' = rq" and g: "GetSession ?u rq resp mgr = (a, resp', mgr')"
    using assms(3) by (auto simp: exchange_GetSession_def split: prod.splits)
  have "sess_ok uuid mgr' \<and> logged mgr' = logged mgr \<and> smap_get (sessions mgr') (uuid a) = Some a \<and> rs_body resp' = rs_body resp
    \<and> (sets_cookie resp sid \<longrightarrow> sets_cookie resp' sid) \<and> (session_cookie rq = Some (uuid a) \<or> sets_cookie resp' (uuid a))
    \<and> (session_user a mgr' = Some v \<longrightarrow> session_cookie rq = Some (uuid a) \<and> mgr' = mgr \<and> resp' = resp)"
  proof (cases "\<exists>s b. session_cookie rq = Some s \<and> Manager_GetSession s mgr = Some b")
    case True
    then obtain s b where sb: "session_cookie rq = Some s" "smap_get (sessions mgr) s = Some b" by (auto simp: Manager_GetSession_def)
    then have "uuid b = s" using assms(1) by (simp add: sess_ok_def)
    moreover have "a = b \<and> resp' = resp \<and> mgr' = mgr" using g sb by (auto simp: GetSession_def session_cookie_def Manager_GetSession_def)
    ultimately show ?thesis using sb assms(1) by auto
  next
    case False
    then have n: "CreateNewSession ?u resp mgr = (a, resp', mgr')"
      using g by (auto simp: GetSession_def session_cookie_def split: option.splits)
    obtain c m where c: "CreateSession ?u mgr = (c, m)" by (cases "CreateSession ?u mgr")
    note cs = CreateSession_ok [OF assms(1,2) c]
    have "smap_get (sessions m) (uuid c) = Some c" by (rule cs(5))
    then have "c < length (store m)" using cs(2) by (auto simp: sess_ok_def)
    then have "se_id (store m ! c) = uuid c" using cs(2) by (simp add: sess_ok_def)
    then have "a = c" "mgr' = m" "rs_body resp' = rs_body resp" "sets_cookie resp' (uuid c)" "sets_cookie resp sid \<Longrightarrow> sets_cookie resp' sid"
      using n c by (auto simp: CreateNewSession_def Let_def AddCookie_def sets_cookie_def)
    then show ?thesis using cs by simp
  qed
  then show "rq' = rq" "sess_ok uuid mgr'" "logged mgr' = logged mgr" "smap_get (sessions mgr') (uuid a) = Some a"
    "rs_body resp' = rs_body resp" "sets_cookie resp sid \<Longrightarrow> sets_cookie resp' sid"
    "session_cookie rq = Some (uuid a) \<or> sets_cookie resp' (uuid a)"
    "session_user a mgr' = Some v \<Longrightarrow> session_cookie rq = Some (uuid a) \<and> mgr' = mgr \<and> resp' = resp"
    using rq by simp_all
qed

section \<open>What the servlets do\<close>

lemma html_body_eq:
  "html_body t (rq, resp, mgr) = Inr (rq, (SetHeader ''Content-type'' ''text/html;charset=utf-8'' resp)
     \<lparr>rs_body := Some (TextB t), rs_headers := SetEntry ''Content-Type'' ''text/html;charset=utf-8''
        (SetEntry ''Content-Length'' (show_nat (length t)) (rs_headers (SetHeader ''Content-type'' ''text/html;charset=utf-8'' resp)))\<rparr>, mgr)"
  by (simp add: html_body_def SetBody_def Text_SetRelatedHeaders_def)

lemma html_body_effect:
  "\<exists>resp'. html_body t (rq, resp, mgr) = Inr (rq, resp', mgr) \<and> (shows_home resp' \<longleftrightarrow> (\<exists>name. t = home_page name))
     \<and> (\<forall>sid. sets_cookie resp' sid = sets_cookie resp sid)"
  unfolding html_body_eq by (simp add: shows_home_def sets_cookie_def SetHeader_def)

lemma redirect_effect:
  "\<exists>resp'. redirect url (rq, resp, mgr) = (rq, resp', mgr) \<and> shows_home resp' = shows_home resp
     \<and> (\<forall>sid. sets_cookie resp' sid = sets_cookie resp sid)"
  by (simp add: redirect_def SendRedirect_def shows_home_def sets_cookie_def)

lemma other_pages:
  "login_form \<noteq> home_page name" "page_logged_out \<noteq> home_page name" "Text_Append login_form (Text_Append (message_html m) []) \<noteq> home_page name"
  "Text_Append logout_link (Text_Append (greeting ''admin'') []) \<noteq> home_page name"
  by (simp_all add: home_page_def login_form_def page_logged_out_def message_html_def greeting_def Text_Append_def utf8_def)

text \<open>A servlet that ends with a page or a redirect, not with the home page, and logs nobody in.\<close>

definition harmless :: "(nat \<Rightarrow> string) \<Rightarrow> login_exchange \<Rightarrow> login_exchange result \<Rightarrow> bool" where
  "harmless uuid x r \<longleftrightarrow> (\<exists>rq resp mgr. r = Inr (rq, resp, mgr) \<and> sess_ok uuid mgr \<and> logged mgr \<subseteq> logged (snd (snd x))
     \<and> (shows_home resp \<longrightarrow> shows_home (fst (snd x))) \<and> (\<forall>sid. sets_cookie (fst (snd x)) sid \<longrightarrow> sets_cookie resp sid))"

lemma harmless_html:
  assumes "sess_ok uuid mgr" "\<And>name. t \<noteq> home_page name"
  shows "harmless uuid (rq, resp, mgr) (html_body t (rq, resp, mgr))"
  using html_body_effect [of t rq resp mgr] assms by (auto simp: harmless_def)

lemma harmless_redirect: "sess_ok uuid mgr \<Longrightarrow> harmless uuid (rq, resp, mgr) (Inr (redirect url (rq, resp, mgr)))"
  using redirect_effect [of url rq resp mgr] by (auto simp: harmless_def)

lemma harmless_after_GetSession:
  assumes "sess_ok uuid mgr" "inj uuid" "exchange_GetSession uuid (rq, resp, mgr) = (a, rq', resp', mgr')"
    and "harmless uuid (rq'', resp', mgr') r"
  shows "harmless uuid (rq, resp, mgr) r"
  using assms(4) GetSession_ok(3,5,6) [OF assms(1-3)] by (fastforce simp: harmless_def shows_home_def)

lemma session_user_admin:
  assumes "sess_ok uuid mgr" "smap_get (sessions mgr) s = Some a" "session_user a mgr = Some v"
  shows "v = VUser ''admin'' ''admin''"
  using assms unfolding sess_ok_def by blast

lemma login_page_harmless:
  assumes "sess_ok uuid mgr" "inj uuid" "message_ok rq"
  shows "harmless uuid (rq, resp, mgr) (LoginPageServlet_Handle uuid (rq, resp, mgr))"
proof -
  obtain a rq' resp' mgr' where g: "exchange_GetSession uuid (rq, resp, mgr) = (a, rq', resp', mgr')"
    by (cases "exchange_GetSession uuid (rq, resp, mgr)") auto
  note gs = GetSession_ok [OF assms(1,2) g]
  have "harmless uuid (rq', resp', mgr') (LoginPageServlet_Handle uuid (rq, resp, mgr))"
  proof (cases "session_user a mgr'")
    case (Some u)
    then show ?thesis using harmless_redirect [OF gs(2)] by (simp add: LoginPageServlet_Handle_def g)
  next
    case None
    have "smap_get (hq_attributes rq') ''message'' = Some x \<Longrightarrow> any_attribute StringT ''message'' (hq_attributes rq') = Some (snd x)" for x
      using assms(3) gs(1) by (cases x) (auto simp: message_ok_def any_attribute_def)
    then show ?thesis
      using None harmless_html [OF gs(2), of login_form] harmless_html [OF gs(2), of "Text_Append login_form (Text_Append (message_html m) [])" for m]
      by (auto simp: LoginPageServlet_Handle_def g other_pages smap_contains_def split: option.splits)
  qed
  then show ?thesis by (rule harmless_after_GetSession [OF assms(1,2) g])
qed

lemma default_page_harmless:
  assumes "sess_ok uuid mgr" "inj uuid"
  shows "harmless uuid (rq, resp, mgr) (DefaultPageServlet_Handle uuid (rq, resp, mgr))"
proof -
  obtain a rq' resp' mgr' where g: "exchange_GetSession uuid (rq, resp, mgr) = (a, rq', resp', mgr')"
    by (cases "exchange_GetSession uuid (rq, resp, mgr)") auto
  note gs = GetSession_ok [OF assms g]
  have "harmless uuid (rq', resp', mgr') (DefaultPageServlet_Handle uuid (rq, resp, mgr))"
  proof (cases "session_user a mgr'")
    case (Some u)
    then have "u = VUser ''admin'' ''admin''" by (rule session_user_admin [OF gs(2,4)])
    then show ?thesis using Some harmless_html [OF gs(2)] other_pages(4) by (simp add: DefaultPageServlet_Handle_def g)
  next
    case None
    then show ?thesis using harmless_html [OF gs(2)] other_pages(2) by (simp add: DefaultPageServlet_Handle_def g)
  qed
  then show ?thesis by (rule harmless_after_GetSession [OF assms g])
qed

text \<open>The forward to the login page, at any depth.\<close>

lemma forward_login_page:
  assumes "sess_ok uuid mgr" "inj uuid"
  shows "harmless uuid (rq, resp, mgr) (login_forward uuid (Suc n) ''/loginpage'' (set_message msg (rq, resp, mgr)))"
proof -
  let ?rq = "Request_SetAttribute ''message'' StringT (VString msg) rq"
  have "message_ok ?rq" by (simp add: message_ok_def Request_SetAttribute_def smap_get_set)
  from login_page_harmless [OF assms this, of resp]
  have h: "harmless uuid (rq, resp, mgr) (LoginPageServlet_Handle uuid (?rq, resp, mgr))" by (simp add: harmless_def)
  then obtain y where "LoginPageServlet_Handle uuid (?rq, resp, mgr) = Inr y" by (auto simp: harmless_def)
  then show ?thesis
    using h by (simp add: login_forward_eq login_parts login_filters_def login_servlet_def run_route_def set_message_def)
qed

text \<open>Filter, home page, login and logout.\<close>

definition member_of :: "demo_value HttpRequest \<Rightarrow> demo_value HttpSessionManager \<Rightarrow> bool" where
  "member_of rq mgr \<longleftrightarrow> (\<exists>s. session_cookie rq = Some s \<and> s \<in> logged mgr)"

lemma GetSession_same:
  "session_cookie rq = Some s \<Longrightarrow> smap_get (sessions mgr) s = Some b \<Longrightarrow> exchange_GetSession uuid (rq, resp, mgr) = (b, rq, resp, mgr)"
  by (simp add: exchange_GetSession_def GetSession_def session_cookie_def Manager_GetSession_def)

lemma login_filter_cases:
  assumes "sess_ok uuid mgr" "inj uuid"
  shows "(LoginFilter_DoFilter uuid (login_forward uuid (Suc n)) (rq, resp, mgr) = Inr (True, rq, resp, mgr) \<and> member_of rq mgr)
    \<or> (\<exists>y. LoginFilter_DoFilter uuid (login_forward uuid (Suc n)) (rq, resp, mgr) = Inr (False, y) \<and> harmless uuid (rq, resp, mgr) (Inr y))"
proof -
  obtain a rq' resp' mgr' where g: "exchange_GetSession uuid (rq, resp, mgr) = (a, rq', resp', mgr')"
    by (cases "exchange_GetSession uuid (rq, resp, mgr)") auto
  note gs = GetSession_ok [OF assms g]
  show ?thesis
  proof (cases "session_user a mgr'")
    case (Some v)
    then have "session_cookie rq = Some (uuid a)" "mgr' = mgr" "resp' = resp" using gs(8) by auto
    then show ?thesis using Some gs(1,4) by (auto simp: LoginFilter_DoFilter_def g member_of_def logged_def)
  next
    case None
    have "harmless uuid (rq, resp, mgr) (login_forward uuid (Suc n) ''/loginpage'' (set_message msg_not_logged_in (rq', resp', mgr')))"
      by (rule harmless_after_GetSession [OF assms g forward_login_page [OF gs(2) assms(2)]])
    then show ?thesis using None by (auto simp: LoginFilter_DoFilter_def g harmless_def)
  qed
qed

lemma home_page_for_members:
  assumes "member_of rq mgr" "sess_ok uuid mgr"
  shows "\<exists>resp'. UserHomePageServlet_Handle uuid (rq, resp, mgr) = Inr (rq, resp', mgr)"
proof -
  obtain s a v where "session_cookie rq = Some s" "smap_get (sessions mgr) s = Some a" "session_user a mgr = Some v"
    using assms(1) by (auto simp: member_of_def logged_def)
  then show ?thesis
    using html_body_effect [of "home_page (user_name v)" rq resp mgr] by (auto simp: UserHomePageServlet_Handle_def GetSession_same)
qed

lemma logout_ends_session:
  assumes "sess_ok uuid mgr" "inj uuid"
  shows "\<exists>resp' mgr'. logout_handle uuid (rq, resp, mgr) = Inr (rq, resp', mgr') \<and> sess_ok uuid mgr' \<and> logged mgr' \<subseteq> logged mgr
    \<and> (\<forall>s. session_cookie rq = Some s \<longrightarrow> s \<notin> logged mgr') \<and> (shows_home resp' \<longrightarrow> shows_home resp)"
proof -
  obtain a rq' resp' mgr' where g: "exchange_GetSession uuid (rq, resp, mgr) = (a, rq', resp', mgr')"
    by (cases "exchange_GetSession uuid (rq, resp, mgr)") auto
  note gs = GetSession_ok [OF assms g]
  let ?m = "Invalidate a mgr'"
  have a: "a < length (store mgr')" using gs(2,4) by (auto simp: sess_ok_def)
  then have m: "?m = mgr'\<lparr>sessions := smap_erase (sessions mgr') (uuid a)\<rparr>"
    using gs(2) by (simp add: Invalidate_def RemoveSession_def sess_ok_def)
  have user: "session_user b ?m = session_user b mgr'" for b by (simp add: m session_user_def)
  have ok: "sess_ok uuid ?m" using gs(2) unfolding sess_ok_def user by (auto simp: m smap_get_erase split: if_splits)
  have lg: "logged ?m = logged mgr' - {uuid a}" unfolding logged_def user by (auto simp: m smap_get_erase)
  have "s \<notin> logged ?m" if "session_cookie rq = Some s" for s
  proof (cases "s \<in> logged mgr")
    case True
    then obtain b where b: "smap_get (sessions mgr) s = Some b" by (auto simp: logged_def)
    then have "b = a" using GetSession_same [OF that, of mgr b uuid resp] g by simp
    moreover have "uuid b = s" using b assms(1) by (simp add: sess_ok_def)
    ultimately show ?thesis by (simp add: lg)
  qed (simp add: lg gs(3))
  then show ?thesis using ok lg gs(1,3,5) redirect_effect [of "''/''" rq' resp' ?m] by (auto simp: logout_handle_def g shows_home_def)
qed

lemma login_marks_session:
  assumes "sess_ok uuid mgr" "inj uuid" "\<not> shows_home resp"
  shows "\<exists>rq' resp' mgr'. LoginServlet_Handle uuid (login_forward uuid (Suc n)) (rq, resp, mgr) = Inr (rq', resp', mgr') \<and> sess_ok uuid mgr'
    \<and> \<not> shows_home resp'
    \<and> logged mgr' \<subseteq> logged mgr \<union>
       (if GetEntry (hq_parameters rq) ''username'' = ''admin'' \<and> GetEntry (hq_parameters rq) ''password'' = ''admin''
        then {sid. session_cookie rq = Some sid \<or> sets_cookie resp' sid} else {})"
proof -
  obtain a rq' resp' mgr' where g: "exchange_GetSession uuid (rq, resp, mgr) = (a, rq', resp', mgr')"
    by (cases "exchange_GetSession uuid (rq, resp, mgr)") auto
  note gs = GetSession_ok [OF assms(1,2) g]
  have home: "\<not> shows_home resp'" using assms(3) gs(5) by (simp add: shows_home_def)
  show ?thesis
  proof (cases "session_user a mgr'")
    case (Some u)
    then show ?thesis using gs(2,3) home redirect_effect [of "''/''" rq' resp' mgr'] by (auto simp: LoginServlet_Handle_def g)
  next
    case None
    show ?thesis
    proof (cases "GetEntry (hq_parameters rq) ''username'' = ''admin'' \<and> GetEntry (hq_parameters rq) ''password'' = ''admin''")
      case True
      let ?m = "Session_SetAttribute a ''user'' UserT (VUser ''admin'' ''admin'') mgr'"
      have a: "a < length (store mgr')" using gs(2,4) by (auto simp: sess_ok_def)
      have user: "session_user b ?m = (if b = a then Some (VUser ''admin'' ''admin'') else session_user b mgr')" for b
        using a by (simp add: session_user_def Session_SetAttribute_def any_attribute_def smap_get_set)
      have m: "sessions ?m = sessions mgr'" "length (store ?m) = length (store mgr')" "se_id (store ?m ! b) = se_id (store mgr' ! b)" for b
        using a by (simp_all add: Session_SetAttribute_def nth_list_update)
      have ok: "sess_ok uuid ?m" using gs(2) unfolding sess_ok_def user m by auto
      have "logged ?m \<subseteq> insert (uuid a) (logged mgr')"
        using gs(2) unfolding logged_def user m by (auto simp: sess_ok_def split: if_splits)
      moreover obtain r where "redirect ''/user/home'' (rq', resp', ?m) = (rq', r, ?m)" "shows_home r = shows_home resp'"
          "\<forall>sid. sets_cookie r sid = sets_cookie resp' sid"
        using redirect_effect [of "''/user/home''" rq' resp' ?m] by blast
      ultimately show ?thesis
        using None True gs(1,3,7) ok home by (intro exI [of _ rq'] exI [of _ r] exI [of _ ?m]) (auto simp: LoginServlet_Handle_def g)
    next
      case False
      have "harmless uuid (rq', resp', mgr') (login_forward uuid (Suc n) ''/loginpage'' (set_message msg_wrong_password (rq', resp', mgr')))"
        by (rule forward_login_page [OF gs(2) assms(2)])
      then obtain q r m where f: "login_forward uuid (Suc n) ''/loginpage'' (set_message msg_wrong_password (rq', resp', mgr')) = Inr (q, r, m)"
          "sess_ok uuid m" "logged m \<subseteq> logged mgr'" "shows_home r \<longrightarrow> shows_home resp'"
        unfolding harmless_def by auto
      have "LoginServlet_Handle uuid (login_forward uuid (Suc n)) (rq, resp, mgr) = Inr (q, r, m)"
        using None f(1) gs(1) by (simp add: LoginServlet_Handle_def g if_not_P [OF False] del: login_forward.simps de_Morgan_conj)
      then show ?thesis using f(2-4) gs(3) home by (intro exI [of _ q] exI [of _ r] exI [of _ m]) auto
    qed
  qed
qed

section \<open>One request\<close>

definition login_attempt :: "RawHttpRequest \<Rightarrow> bool" where
  "login_attempt raw \<longleftrightarrow> (let rq = DecodeUrlAndBody raw :: demo_value HttpRequest in parts_of (hq_url rq) = [''login'']
     \<and> GetEntry (hq_parameters rq) ''username'' = ''admin'' \<and> GetEntry (hq_parameters rq) ''password'' = ''admin'')"

definition logout_request :: "RawHttpRequest \<Rightarrow> bool" where
  "logout_request raw \<longleftrightarrow> parts_of (hq_url (DecodeUrlAndBody raw :: demo_value HttpRequest)) = [''logout'']"

definition sent_cookie :: "RawHttpRequest \<Rightarrow> string option" where
  "sent_cookie raw = session_cookie (DecodeUrlAndBody raw)"

text \<open>The session ids that have logged in and not logged out, by what was sent and answered; the newest exchange is at the head.\<close>

fun granted :: "login_log \<Rightarrow> string set" where
  "granted [] = {}"
| "granted ((raw, resp) # log) =
     (if logout_request raw then granted log - {sid. sent_cookie raw = Some sid}
      else if login_attempt raw then granted log \<union> {sid. sent_cookie raw = Some sid \<or> sets_cookie resp sid}
      else granted log)"

lemma run_login_filters:
  assumes "sess_ok uuid mgr" "inj uuid"
  shows "(run_filters (replicate k (LoginFilter_DoFilter uuid (login_forward uuid (Suc n)))) (rq, resp, mgr) = Inr (True, rq, resp, mgr)
      \<and> (0 < k \<longrightarrow> member_of rq mgr))
    \<or> (\<exists>y. run_filters (replicate k (LoginFilter_DoFilter uuid (login_forward uuid (Suc n)))) (rq, resp, mgr) = Inr (False, y)
      \<and> harmless uuid (rq, resp, mgr) (Inr y))"
  using login_filter_cases [OF assms, of n rq resp] by (induction k) auto

lemma login_filters_user:
  "login_filters uuid fwd ps = replicate (length (login_filters uuid fwd ps)) (LoginFilter_DoFilter uuid fwd)"
  "ps = [''user'', ''home''] \<Longrightarrow> 0 < length (login_filters uuid fwd ps)"
  by (auto simp: login_filters_def split: list.split)

definition served_well :: "(nat \<Rightarrow> string) \<Rightarrow> demo_value HttpRequest \<Rightarrow> demo_value HttpSessionManager \<Rightarrow> string list \<Rightarrow> login_exchange result \<Rightarrow> bool" where
  "served_well uuid rq mgr ps r \<longleftrightarrow> (\<exists>rq' resp' mgr'. r = Inr (rq', resp', mgr') \<and> sess_ok uuid mgr'
     \<and> (shows_home resp' \<longrightarrow> member_of rq mgr)
     \<and> logged mgr' \<subseteq> logged mgr \<union>
         (if ps = [''login''] \<and> GetEntry (hq_parameters rq) ''username'' = ''admin'' \<and> GetEntry (hq_parameters rq) ''password'' = ''admin''
          then {sid. session_cookie rq = Some sid \<or> sets_cookie resp' sid} else {})
     \<and> (ps = [''logout''] \<longrightarrow> (\<forall>s. session_cookie rq = Some s \<longrightarrow> s \<notin> logged mgr')))"

lemma harmless_served_well:
  "harmless uuid (rq, resp, mgr) r \<Longrightarrow> \<not> shows_home resp \<Longrightarrow> ps \<noteq> [''logout''] \<Longrightarrow> served_well uuid rq mgr ps r"
  by (fastforce simp: harmless_def served_well_def)

lemma servlet_serves_well:
  assumes "sess_ok uuid mgr" "inj uuid" "\<not> shows_home resp" "message_ok rq" "ps = [''user'', ''home''] \<longrightarrow> member_of rq mgr"
  shows "case login_servlet uuid (login_forward uuid (Suc n)) ps of
      Some h \<Rightarrow> served_well uuid rq mgr ps (h (rq, resp, mgr)) | None \<Rightarrow> ps \<noteq> [''logout'']"
proof -
  consider "ps = []" | "ps = [''login'']" | "ps = [''loginpage'']" | "ps = [''logout'']" | "ps = [''user'', ''home'']"
    | "login_servlet uuid (login_forward uuid (Suc n)) ps = None" "ps \<noteq> [''logout'']"
    by (force simp: login_servlet_def)
  then show ?thesis
  proof cases
    case 1
    have "served_well uuid rq mgr ps (DefaultPageServlet_Handle uuid (rq, resp, mgr))"
      by (rule harmless_served_well [OF default_page_harmless [OF assms(1,2)] assms(3)]) (simp add: 1)
    then show ?thesis by (simp add: 1 login_servlet_def)
  next
    case 2
    obtain q r m where l: "LoginServlet_Handle uuid (login_forward uuid (Suc n)) (rq, resp, mgr) = Inr (q, r, m)" "sess_ok uuid m"
        "\<not> shows_home r" "logged m \<subseteq> logged mgr \<union>
         (if GetEntry (hq_parameters rq) ''username'' = ''admin'' \<and> GetEntry (hq_parameters rq) ''password'' = ''admin''
          then {sid. session_cookie rq = Some sid \<or> sets_cookie r sid} else {})"
      using login_marks_session [OF assms(1-3), of n rq] by blast
    have "served_well uuid rq mgr ps (LoginServlet_Handle uuid (login_forward uuid (Suc n)) (rq, resp, mgr))"
      unfolding served_well_def using l 2 by (intro exI [of _ q] exI [of _ r] exI [of _ m]) simp
    then show ?thesis by (simp add: 2 login_servlet_def del: login_forward.simps)
  next
    case 3
    have "served_well uuid rq mgr ps (LoginPageServlet_Handle uuid (rq, resp, mgr))"
      by (rule harmless_served_well [OF login_page_harmless [OF assms(1,2,4)] assms(3)]) (simp add: 3)
    then show ?thesis by (simp add: 3 login_servlet_def)
  next
    case 4
    then show ?thesis using logout_ends_session [OF assms(1,2), of rq resp] assms(3) by (auto simp: served_well_def login_servlet_def)
  next
    case 5
    then show ?thesis using home_page_for_members [OF _ assms(1), of rq resp] assms(1,5) by (auto simp: served_well_def login_servlet_def)
  qed simp
qed

lemma login_forward_serves_well:
  assumes "sess_ok uuid mgr" "inj uuid" "\<not> shows_home resp" "message_ok rq"
  shows "served_well uuid rq mgr (parts_of url) (login_forward uuid (Suc (Suc n)) url (rq, resp, mgr))"
proof -
  let ?ps = "parts_of url" and ?fwd = "login_forward uuid (Suc n)"
  let ?fs = "login_filters uuid ?fwd ?ps"
  consider "run_filters ?fs (rq, resp, mgr) = Inr (True, rq, resp, mgr)" "0 < length ?fs \<longrightarrow> member_of rq mgr"
    | y where "run_filters ?fs (rq, resp, mgr) = Inr (False, y)" "harmless uuid (rq, resp, mgr) (Inr y)"
    using run_login_filters [OF assms(1,2), of "length ?fs" n rq resp] login_filters_user(1) [of uuid ?fwd ?ps] by metis
  then show ?thesis
  proof cases
    case 1
    have "?ps = [''user'', ''home''] \<longrightarrow> member_of rq mgr" using 1(2) login_filters_user(2) [of ?ps uuid ?fwd] by blast
    note sw = servlet_serves_well [OF assms this]
    show ?thesis
    proof (cases "login_servlet uuid ?fwd ?ps")
      case None
      have "harmless uuid (rq, resp, mgr) (DefaultHttpServlet_Handle (rq, resp, mgr))"
        using assms(1) by (simp add: harmless_def DefaultHttpServlet_Handle_def SetStatus_def shows_home_def sets_cookie_def)
      then have "served_well uuid rq mgr ?ps (DefaultHttpServlet_Handle (rq, resp, mgr))"
        using sw [of n] None by (intro harmless_served_well [OF _ assms(3)]) simp_all
      then show ?thesis using None 1(1) by (simp add: login_forward_eq run_route_def)
    next
      case (Some h)
      then have w: "served_well uuid rq mgr ?ps (h (rq, resp, mgr))" using sw [of n] by simp
      then obtain z where "h (rq, resp, mgr) = Inr z" unfolding served_well_def by blast
      then show ?thesis using Some 1(1) w by (simp add: login_forward_eq run_route_def)
    qed
  next
    case 2
    have "?ps \<noteq> [''logout'']" using 2(1) by (auto simp: login_filters_def)
    then show ?thesis using 2 harmless_served_well [OF 2(2) assms(3)] by (simp add: login_forward_eq run_route_def)
  qed
qed

lemma login_request:
  assumes "sess_ok uuid mgr" "inj uuid" "logged mgr \<subseteq> granted log"
  shows "\<exists>resp mgr'. make_response (login_server uuid (Suc (Suc n))) raw mgr = Inr (resp, mgr') \<and> sess_ok uuid mgr'
    \<and> logged mgr' \<subseteq> granted ((raw, resp) # log) \<and> (shows_home resp \<longrightarrow> (\<exists>sid. sent_cookie raw = Some sid \<and> sid \<in> granted log))"
proof -
  let ?rq = "DecodeUrlAndBody raw :: demo_value HttpRequest"
  let ?resp = "SetVersion (rq_version raw) (SetCloseConnection (\<not> Request_IsKeepAlive ?rq) response_init) :: Body HttpResponse"
  have "\<not> shows_home ?resp" by (simp add: shows_home_def SetVersion_def SetCloseConnection_def response_init_def)
  moreover have "message_ok ?rq" by (simp add: message_ok_def DecodeUrlAndBody_def Let_def)
  ultimately have "served_well uuid ?rq mgr (parts_of (hq_url ?rq)) (login_forward uuid (Suc (Suc (Suc n))) (hq_url ?rq) (?rq, ?resp, mgr))"
    by (rule login_forward_serves_well [OF assms(1,2)])
  then obtain rq' resp mgr' where f: "login_forward uuid (Suc (Suc (Suc n))) (hq_url ?rq) (?rq, ?resp, mgr) = Inr (rq', resp, mgr')"
      and ok: "sess_ok uuid mgr'" "shows_home resp \<longrightarrow> member_of ?rq mgr" "parts_of (hq_url ?rq) = [''logout''] \<longrightarrow> (\<forall>s. session_cookie ?rq = Some s \<longrightarrow> s \<notin> logged mgr')"
      and lg: "logged mgr' \<subseteq> logged mgr \<union>
         (if parts_of (hq_url ?rq) = [''login''] \<and> GetEntry (hq_parameters ?rq) ''username'' = ''admin'' \<and> GetEntry (hq_parameters ?rq) ''password'' = ''admin''
          then {sid. session_cookie ?rq = Some sid \<or> sets_cookie resp sid} else {})"
    unfolding served_well_def by blast
  have "make_response (login_server uuid (Suc (Suc n))) raw mgr = Inr (resp, mgr')"
    using f by (simp add: make_response_def login_server_def Let_def login_forward.simps(2) [of uuid "Suc (Suc n)"] del: login_forward.simps(2))
  moreover have "logged mgr' \<subseteq> granted ((raw, resp) # log)"
  proof (cases "logout_request raw")
    case True
    then have "parts_of (hq_url ?rq) = [''logout'']" by (simp add: logout_request_def)
    then show ?thesis using lg ok(3) assms(3) True by (auto simp: sent_cookie_def)
  next
    case False
    then show ?thesis using lg assms(3) by (auto simp: login_attempt_def sent_cookie_def Let_def split: if_splits)
  qed
  moreover have "shows_home resp \<longrightarrow> (\<exists>sid. sent_cookie raw = Some sid \<and> sid \<in> granted log)"
    using ok(2) assms(3) by (auto simp: member_of_def sent_cookie_def)
  ultimately show ?thesis using ok(1) by blast
qed

lemma login_run_ok:
  assumes "sess_ok uuid (snd s)" "inj uuid" "logged (snd s) \<subseteq> granted (fst s)"
  shows "\<exists>s'. login_run uuid (Suc (Suc n)) rqs s = Inr s' \<and> sess_ok uuid (snd s') \<and> logged (snd s') \<subseteq> granted (fst s')
     \<and> map fst (fst s') = rev rqs @ map fst (fst s)"
  using assms
proof (induction rqs arbitrary: s)
  case (Cons rq rqs)
  obtain resp mgr where r: "make_response (login_server uuid (Suc (Suc n))) rq (snd s) = Inr (resp, mgr)" "sess_ok uuid mgr"
      "logged mgr \<subseteq> granted ((rq, resp) # fst s)"
    using login_request [OF Cons.prems, of n rq] by blast
  show ?case using Cons.IH [of "((rq, resp) # fst s, mgr)"] r assms(2) by auto
qed simp


definition demo_uuid :: "nat \<Rightarrow> string" where
  "demo_uuid n = replicate (Suc n) (CHR ''u'')"

lemma inj_demo_uuid: "inj demo_uuid"
  by (rule injI) (metis demo_uuid_def length_replicate nat.inject)


section \<open>The configuration, and what the site does with sessions\<close>

text \<open>\<open>main\<close> on a server that was not started.\<close>

lemma login_main_ok:
  assumes "hs_router srv = Router_init"
  shows "login_main uuid fwd (False, srv) = Inr (False, srv\<lparr>hs_router := login_router uuid fwd\<rparr>)"
  using assms by (simp add: login_main_def setters_before_start login_router_def login_routes_def add_routes_total Router_init_def)

text \<open>The home page reads the user through a null pointer when the session ended after the filter looked: it is served only behind
  the filter, and a logout in between, on another thread, is not excluded.\<close>

lemma home_page_without_user:
  assumes "exchange_GetSession uuid x = (a, x1)" "session_user a (snd (snd x1)) = None"
  shows "UserHomePageServlet_Handle uuid x = Inl Undefined"
  by (simp add: UserHomePageServlet_Handle_def assms)

text \<open>A member asks for the home page and gets it.\<close>

lemma members_see_home:
  assumes "sess_ok uuid mgr" "inj uuid" "parts_of (hq_url (DecodeUrlAndBody raw :: demo_value HttpRequest)) = [''user'', ''home'']"
    and "sent_cookie raw = Some s" "s \<in> logged mgr"
  shows "\<exists>resp. make_response (login_server uuid (Suc n)) raw mgr = Inr (resp, mgr) \<and> rs_body resp = Some (TextB (home_page ''admin''))"
proof -
  let ?rq = "DecodeUrlAndBody raw :: demo_value HttpRequest"
  obtain a v where a: "session_cookie ?rq = Some s" "smap_get (sessions mgr) s = Some a" "session_user a mgr = Some v"
    using assms(4,5) by (auto simp: logged_def sent_cookie_def)
  have v: "v = VUser ''admin'' ''admin''" by (rule session_user_admin [OF assms(1) a(2,3)])
  have "LoginFilter_DoFilter uuid fwd (?rq, resp, mgr) = Inr (True, ?rq, resp, mgr)" for fwd resp
    using a(3) by (simp add: LoginFilter_DoFilter_def GetSession_same [OF a(1,2)])
  moreover have "UserHomePageServlet_Handle uuid (?rq, resp, mgr) = html_body (home_page ''admin'') (?rq, resp, mgr)" for resp
    using a(3) v by (simp add: UserHomePageServlet_Handle_def GetSession_same [OF a(1,2)])
  ultimately show ?thesis
    using assms(3) by (simp add: make_response_def login_server_def Let_def login_forward.simps(2) [symmetric] login_forward_eq
        login_filters_def login_servlet_def run_route_def html_body_eq)
qed

text \<open>The session id is not renewed at a login: whoever made the session, with the right name and password under its cookie it is
  logged in and the answer sets no other cookie.\<close>

lemma login_keeps_session_id:
  assumes "session_cookie rq = Some s" "smap_get (sessions mgr) s = Some a" "a < length (store mgr)" "session_user a mgr = None"
    and "GetEntry (hq_parameters rq) ''username'' = ''admin''" "GetEntry (hq_parameters rq) ''password'' = ''admin''"
  shows "\<exists>resp' mgr'. LoginServlet_Handle uuid fwd (rq, resp, mgr) = Inr (rq, resp', mgr') \<and> s \<in> logged mgr'
    \<and> rs_cookies resp' = rs_cookies resp"
  using assms(2-6) by (simp add: LoginServlet_Handle_def GetSession_same [OF assms(1,2)] redirect_def SendRedirect_def logged_def
      Session_SetAttribute_def session_user_def any_attribute_def smap_get_set)

text \<open>A visitor without a session who asks for the member page is given two: one by the filter, one by the page it forwards to.\<close>

lemma filter_makes_two_sessions:
  assumes "session_cookie rq = None" "smap_get (sessions mgr) (uuid (length (store mgr))) = None"
  shows "\<exists>rq' resp' mgr'. LoginFilter_DoFilter uuid (login_forward uuid (Suc n)) (rq, resp, mgr) = Inr (False, rq', resp', mgr')
    \<and> length (store mgr') = length (store mgr) + 2 \<and> length (rs_cookies resp') = length (rs_cookies resp) + 2"
proof -
  have g: "session_cookie q = None \<Longrightarrow> \<exists>r m. exchange_GetSession uuid (q, resp, mgr) = (length (store mgr), q, r, m)
     \<and> session_user (length (store mgr)) m = None \<and> length (store m) = Suc (length (store mgr))
     \<and> length (rs_cookies r) = Suc (length (rs_cookies resp))" for q resp and mgr :: "demo_value HttpSessionManager"
    by (simp add: exchange_GetSession_def GetSession_def session_cookie_def CreateNewSession_def CreateSession_def Let_def AddCookie_def
        session_user_def any_attribute_def)
  obtain r m where 1: "exchange_GetSession uuid (rq, resp, mgr) = (length (store mgr), rq, r, m)"
      "session_user (length (store mgr)) m = None" "length (store m) = Suc (length (store mgr))" "length (rs_cookies r) = Suc (length (rs_cookies resp))"
    using g [OF assms(1), of resp mgr] by blast
  let ?q = "Request_SetAttribute ''message'' StringT (VString msg_not_logged_in) rq"
  have q: "session_cookie ?q = None" using assms(1) by (simp add: session_cookie_def Request_SetAttribute_def)
  obtain r2 m2 where 2: "exchange_GetSession uuid (?q, r, m) = (length (store m), ?q, r2, m2)"
      "session_user (length (store m)) m2 = None" "length (store m2) = Suc (length (store m))" "length (rs_cookies r2) = Suc (length (rs_cookies r))"
    using g [OF q, of r m] by blast
  have "\<exists>resp'. LoginPageServlet_Handle uuid (?q, r, m) = Inr (?q, resp', m2) \<and> rs_cookies resp' = rs_cookies r2"
    by (simp add: LoginPageServlet_Handle_def 2 [unfolded Request_SetAttribute_def] html_body_eq SetHeader_def Request_SetAttribute_def smap_contains_def
        smap_get_set any_attribute_def)
  then obtain resp' where "LoginPageServlet_Handle uuid (?q, r, m) = Inr (?q, resp', m2)" "rs_cookies resp' = rs_cookies r2" by blast
  then show ?thesis
    using 1 2 by (simp add: LoginFilter_DoFilter_def login_forward_eq login_parts login_filters_def login_servlet_def run_route_def
        set_message_def)
qed

end
