(* ===== verification/WebSocketParser.thy ===== *)
theory WebSocketParser
  imports Endian
begin

text \<open>
  \<open>cold/net/http/WebSocketParser.{h,cpp}\<close>: the incremental frame parser and \<open>MakeFrameToBuffer\<close>.

  \<^item> \<open>size_t expectLen\<close> and \<open>payloadLen\<close> are 64-bit words, so their sum may wrap; a payload that
    would exceed \<open>max_size()\<close> makes \<open>std::string::reserve\<close> throw, \<open>Inl LengthError\<close>.
  \<^item> \<open>std::queue\<close> is a list, front first. The scratch fields of the frame being parsed are
    written at every exit of \<open>DoParse\<close>, as in the code.
  \<^item> The masking key that \<open>MakeFrameToBuffer\<close> draws with \<open>rand()\<close> is an argument.

  The parser is an instance of \<open>chunk_parser\<close>, the interface of a parser whose input arrives in
  pieces; it gives that the cut points do not matter.
\<close>

section \<open>Parsers that are fed in chunks\<close>

datatype parse_state = kSuccess | kError | kNeedMore

text \<open>Feeding one chunk after the other, as the read loops do, until a call fails.\<close>

fun parse_chunks :: "('b list \<Rightarrow> 'p \<Rightarrow> (bool \<times> 'p) result) \<Rightarrow> 'b list list \<Rightarrow> 'p \<Rightarrow> (bool \<times> 'p) result" where
  "parse_chunks parse [] p = Inr (True, p)"
| "parse_chunks parse (c # cs) p =
     bind_result (parse c p) (\<lambda>(ok, p'). if ok then parse_chunks parse cs p' else Inr (ok, p'))"

text \<open>
  \<open>step\<close> tries to take one frame from the front of the buffered input. A successful step does not
  look at what comes behind the frame, and a step that needs more input may be repeated once there
  is more.
\<close>

locale chunk_parser =
  fixes step :: "'p \<Rightarrow> (parse_state \<times> 'p) result"
    and feed :: "'b list \<Rightarrow> 'p \<Rightarrow> 'p"
    and loop :: "'p \<Rightarrow> (bool \<times> 'p) result"
    and inv :: "'p \<Rightarrow> bool"
    and left :: "'p \<Rightarrow> nat"
  assumes feed_Nil: "feed [] p = p" and feed_append: "feed (xs @ ys) p = feed ys (feed xs p)"
    and inv_feed: "inv p \<Longrightarrow> inv (feed xs p)"
    and inv_step: "inv p \<Longrightarrow> step p = Inr (st, p') \<Longrightarrow> inv p'"
    and step_shrinks: "inv p \<Longrightarrow> step p = Inr (kSuccess, p') \<Longrightarrow> left p' < left p"
    and step_feed: "inv p \<Longrightarrow> step p = Inr (kSuccess, p') \<Longrightarrow> step (feed xs p) = Inr (kSuccess, feed xs p')"
    and step_fail: "inv p \<Longrightarrow> step p = Inr (kError, p') \<Longrightarrow> \<exists>p''. step (feed xs p) = Inr (kError, p'')"
    and step_throw: "inv p \<Longrightarrow> step p = Inl e \<Longrightarrow> step (feed xs p) = Inl e"
    and step_wait: "inv p \<Longrightarrow> step p = Inr (kNeedMore, p') \<Longrightarrow> step (feed xs p') = step (feed xs p)"
    and loop_step: "inv p \<Longrightarrow> loop p = (case step p of Inl e \<Rightarrow> Inl e
          | Inr (st, p') \<Rightarrow> if st = kSuccess then loop p' else Inr (st \<noteq> kError, p'))"
begin

lemma loop_feed_wait:
  assumes "inv p" and "step p = Inr (kNeedMore, p')"
  shows "loop (feed xs p') = loop (feed xs p)"
  using loop_step [OF inv_feed [OF assms(1)], of xs] step_wait [OF assms, of xs]
    loop_step [OF inv_feed [OF inv_step [OF assms]], of xs] by simp

text \<open>Feeding two chunks is feeding their concatenation.\<close>

lemma loop_chunks:
  "inv p \<Longrightarrow> loop p = Inr (True, p1) \<Longrightarrow> loop (feed xs p1) = loop (feed xs p)"
proof (induction "left p" arbitrary: p rule: less_induct)
  case less
  obtain st p' where st: "step p = Inr (st, p')"
    using less.prems(2) loop_step [OF less.prems(1)] by (auto split: sum.splits)
  show ?case
  proof (cases st)
    case kSuccess
    then have p1: "loop p' = Inr (True, p1)" using less.prems st loop_step [OF less.prems(1)] by simp
    have ok: "step p = Inr (kSuccess, p')" using st kSuccess by simp
    have "loop (feed xs p1) = loop (feed xs p')"
      by (rule less.hyps [OF step_shrinks [OF less.prems(1) ok] inv_step [OF less.prems(1) ok] p1])
    then show ?thesis
      using step_feed [OF less.prems(1) ok, of xs] loop_step [OF inv_feed [OF less.prems(1)], of xs] by simp
  next
    case kError
    then show ?thesis using less.prems st loop_step [OF less.prems(1)] by simp
  next
    case kNeedMore
    then have "p1 = p'" "step p = Inr (kNeedMore, p')" using less.prems st loop_step [OF less.prems(1)] by simp_all
    then show ?thesis using loop_feed_wait [OF less.prems(1)] by simp
  qed
qed

text \<open>No prefix of an accepted input is rejected.\<close>

lemma loop_prefix:
  "inv p \<Longrightarrow> loop (feed xs p) = Inr (True, p2) \<Longrightarrow> \<exists>p1. loop p = Inr (True, p1)"
proof (induction "left p" arbitrary: p rule: less_induct)
  case less
  note loop_p = loop_step [OF less.prems(1)] and loop_f = loop_step [OF inv_feed [OF less.prems(1)], of xs]
  show ?case
  proof (cases "step p")
    case (Inl e)
    then show ?thesis using step_throw [OF less.prems(1)] loop_f less.prems(2) by simp
  next
    case (Inr r)
    then obtain st p' where st: "step p = Inr (st, p')" by (cases r) simp
    show ?thesis
    proof (cases st)
      case kSuccess
      then have ok: "step p = Inr (kSuccess, p')" using st by simp
      have "loop (feed xs p') = Inr (True, p2)"
        using step_feed [OF less.prems(1) ok, of xs] loop_f less.prems(2) by simp
      then show ?thesis
        using less.hyps [OF step_shrinks [OF less.prems(1) ok] inv_step [OF less.prems(1) ok]] loop_p ok by simp
    next
      case kError
      then show ?thesis using step_fail [OF less.prems(1), of p' xs] st loop_f less.prems(2) by auto
    next
      case kNeedMore
      then show ?thesis using loop_p st by simp
    qed
  qed
qed

lemma loop_inv: "inv p \<Longrightarrow> loop p = Inr (b, p1) \<Longrightarrow> inv p1"
proof (induction "left p" arbitrary: p rule: less_induct)
  case less
  obtain st p' where st: "step p = Inr (st, p')"
    using less.prems(2) loop_step [OF less.prems(1)] by (auto split: sum.splits)
  show ?case
  proof (cases "st = kSuccess")
    case True
    then have p1: "loop p' = Inr (b, p1)" using less.prems st loop_step [OF less.prems(1)] by simp
    have ok: "step p = Inr (kSuccess, p')" using st True by simp
    show ?thesis
      by (rule less.hyps [OF step_shrinks [OF less.prems(1) ok] inv_step [OF less.prems(1) ok] p1])
  next
    case False
    then have "p1 = p'" using less.prems st loop_step [OF less.prems(1)] by simp
    then show ?thesis using inv_step [OF less.prems(1) st] by simp
  qed
qed

text \<open>The cut points do not matter: feeding the chunks one by one succeeds exactly when feeding
  them at once does, and ends in the same state.\<close>

lemma chunks_concat:
  "inv p \<Longrightarrow> cs \<noteq> [] \<Longrightarrow>
   parse_chunks (\<lambda>c p. loop (feed c p)) cs p = Inr (True, p') \<longleftrightarrow> loop (feed (concat cs) p) = Inr (True, p')"
proof (induction cs arbitrary: p)
  case (Cons c cs)
  show ?case
  proof (cases "cs = []")
    case True
    then show ?thesis by (auto simp: bind_result_eq_Inr split: if_splits)
  next
    case False
    have "parse_chunks (\<lambda>c p. loop (feed c p)) (c # cs) p = Inr (True, p')
        \<longleftrightarrow> (\<exists>p1. loop (feed c p) = Inr (True, p1) \<and> parse_chunks (\<lambda>c p. loop (feed c p)) cs p1 = Inr (True, p'))"
      by (auto simp: bind_result_eq_Inr split: if_splits)
    also have "\<dots> \<longleftrightarrow> (\<exists>p1. loop (feed c p) = Inr (True, p1) \<and> loop (feed (concat cs) p1) = Inr (True, p'))"
      using Cons.IH False loop_inv [OF inv_feed [OF Cons.prems(1)]] by blast
    also have "\<dots> \<longleftrightarrow> (\<exists>p1. loop (feed c p) = Inr (True, p1) \<and> loop (feed (concat cs) (feed c p)) = Inr (True, p'))"
      using loop_chunks [OF inv_feed [OF Cons.prems(1)]] by metis
    also have "\<dots> \<longleftrightarrow> loop (feed (concat cs) (feed c p)) = Inr (True, p')"
      using loop_prefix [OF inv_feed [OF Cons.prems(1)]] by blast
    finally show ?thesis by (simp add: feed_append)
  qed
qed simp

end

section \<open>The parser\<close>

record WebSocketFrame =
  fin :: bool
  masked :: bool
  opcode :: byte
  payloadLen :: "64 word"
  maskingKey :: "byte list"
  payload :: "byte list"

record WebSocketParser =
  buffer :: "byte list"
  completeFrames :: "WebSocketFrame list"
  frames :: "WebSocketFrame list"
  newFrame :: bool

definition empty_frame :: WebSocketFrame where
  "empty_frame = \<lparr>fin = False, masked = False, opcode = 0, payloadLen = 0,
     maskingKey = [0, 0, 0, 0], payload = []\<rparr>"

definition parser_init :: WebSocketParser where
  "parser_init = \<lparr>buffer = [], completeFrames = [], frames = [], newFrame = True\<rparr>"

definition string_max_size :: nat where
  "string_max_size = 2 ^ 63 - 2"

fun xor_mask :: "byte list \<Rightarrow> nat \<Rightarrow> byte list \<Rightarrow> byte list" where
  "xor_mask key i [] = []"
| "xor_mask key i (b # bs) = (b XOR key ! (i mod 4)) # xor_mask key (Suc i) bs"

definition set_last :: "WebSocketFrame \<Rightarrow> WebSocketParser \<Rightarrow> WebSocketParser" where
  "set_last f p = p\<lparr>frames := butlast (frames p) @ [f]\<rparr>"

definition reserved_opcode :: "byte \<Rightarrow> bool" where
  "reserved_opcode op \<longleftrightarrow> (3 \<le> op \<and> op \<le> 7) \<or> op = 0xb"

text \<open>The end of \<open>DoParse\<close>, once the frame is complete: a final frame is merged with the
  fragments before it and queued.\<close>

definition finish_frame :: "WebSocketParser \<Rightarrow> WebSocketParser result" where
  "finish_frame p =
     (if fin (last (frames p)) then
        (if length (frames p) > 1 then
           (if list_all (\<lambda>f. opcode f = 0) (tl (frames p)) then
              (let begin0 = hd (frames p);
                   merged = payload begin0 @ concat (map payload (tl (frames p)));
                   begin1 = begin0\<lparr>payload := merged, payloadLen := of_nat (length merged), fin := True\<rparr>
               in Inr (p\<lparr>completeFrames := completeFrames p @ [begin1], frames := []\<rparr>))
            else Inl AssertFail)
         else Inr (p\<lparr>completeFrames := completeFrames p @ [hd (frames p)], frames := []\<rparr>))
      else Inr p)"

definition begin_frame :: "WebSocketParser \<Rightarrow> WebSocketParser" where
  "begin_frame p = (if newFrame p then p\<lparr>frames := frames p @ [empty_frame], newFrame := False\<rparr> else p)"

definition more_bytes :: "64 word \<Rightarrow> nat" where
  "more_bytes len = (if len = 126 then 2 else if len = 127 then 8 else 0)"

definition read_length :: "nat \<Rightarrow> byte list \<Rightarrow> 64 word \<Rightarrow> 64 word" where
  "read_length extra buf len =
     (if extra = 0 then len
      else if extra = 2 then ucast (Host16ToNetwork16 (load_le (take extra (drop 2 buf))))
      else Host64ToNetwork64 (load_le (take extra (drop 2 buf))))"

text \<open>The masking key and the payload, once the whole frame is in the buffer.\<close>

definition read_payload :: "nat \<Rightarrow> byte list \<Rightarrow> WebSocketFrame \<Rightarrow> WebSocketFrame" where
  "read_payload extra buf frame =
     (let frame1 = (if masked frame then frame\<lparr>maskingKey := take 4 (drop (2 + extra) buf)\<rparr> else frame);
          view = take (unat (payloadLen frame)) (drop (2 + extra + (if masked frame then 4 else 0)) buf)
      in frame1\<lparr>payload := payload frame1 @
                  (if masked frame then xor_mask (maskingKey frame1) 0 view else view)\<rparr>)"

definition DoParse :: "WebSocketParser \<Rightarrow> (parse_state \<times> WebSocketParser) result" where
  "DoParse p0 =
     (let p = begin_frame p0; buf = buffer p; frame0 = last (frames p) in
      if length buf < 2 then Inr (kNeedMore, p)
      else
      let frame1 = frame0\<lparr>fin := buf ! 0 AND 0x80 \<noteq> 0, opcode := buf ! 0 AND 0x0f\<rparr> in
      if reserved_opcode (opcode frame1) then Inr (kError, set_last frame1 p)
      else
      let frame2 = frame1\<lparr>masked := buf ! 1 AND 0x80 \<noteq> 0, payloadLen := ucast (buf ! 1 AND 0x7f)\<rparr>;
          extra = more_bytes (payloadLen frame2);
          expectLen = 2 + (if masked frame2 then 4 else 0) + of_nat extra :: 64 word in
      if length buf < unat expectLen then Inr (kNeedMore, set_last frame2 p)
      else
      let frame3 = frame2\<lparr>payloadLen := read_length extra buf (payloadLen frame2)\<rparr>;
          expectLen' = expectLen + payloadLen frame3 in
      if length buf < unat expectLen' then Inr (kNeedMore, set_last frame3 p)
      else if unat (payloadLen frame3) > string_max_size then Inl LengthError
      else bind_result
             (finish_frame (set_last (read_payload extra buf frame3)
                (p\<lparr>buffer := drop (unat expectLen') buf, newFrame := True\<rparr>)))
             (\<lambda>p'. Inr (kSuccess, p')))"

lemma finish_frame_buffer: "finish_frame p = Inr p' \<Longrightarrow> buffer p' = buffer p \<and> newFrame p' = newFrame p"
  by (auto simp: finish_frame_def Let_def split: if_splits)

lemma buffer_begin [simp]: "buffer (begin_frame p) = buffer p"
  by (simp add: begin_frame_def)

lemma set_last_fields [simp]:
  "buffer (set_last f p) = buffer p" "newFrame (set_last f p) = newFrame p"
  "completeFrames (set_last f p) = completeFrames p" "frames (set_last f p) = butlast (frames p) @ [f]"
  by (simp_all add: set_last_def)

function Parse_loop :: "WebSocketParser \<Rightarrow> (bool \<times> WebSocketParser) result" where
  "Parse_loop p =
     (case DoParse p of
        Inl e \<Rightarrow> Inl e
      | Inr (st, p') \<Rightarrow> if st = kSuccess \<and> length (buffer p') < length (buffer p) then Parse_loop p'
                       else Inr (st \<noteq> kError, p'))"
  by pat_completeness auto
termination
  by (relation "measure (\<lambda>p. length (buffer p))") auto

declare Parse_loop.simps [simp del]

definition feed :: "byte list \<Rightarrow> WebSocketParser \<Rightarrow> WebSocketParser" where
  "feed data p = p\<lparr>buffer := buffer p @ data\<rparr>"

definition Parse :: "byte list \<Rightarrow> WebSocketParser \<Rightarrow> (bool \<times> WebSocketParser) result" where
  "Parse data p = Parse_loop (feed data p)"

definition HasFrame :: "WebSocketParser \<Rightarrow> bool" where
  "HasFrame p \<longleftrightarrow> completeFrames p \<noteq> []"

definition TakeFrame :: "WebSocketParser \<Rightarrow> WebSocketFrame \<times> WebSocketParser" where
  "TakeFrame p = (hd (completeFrames p), p\<lparr>completeFrames := tl (completeFrames p)\<rparr>)"

definition MakeFrameToBuffer ::
    "byte list \<Rightarrow> bool \<Rightarrow> bool \<Rightarrow> byte \<Rightarrow> byte list \<Rightarrow> byte list \<Rightarrow> byte list result" where
  "MakeFrameToBuffer rnd frame_fin frame_mask frame_opcode payloadView writeBuffer =
     (if \<not> frame_fin then Inl AssertFail
      else
      let size = length payloadView;
          maskBit = (if frame_mask then 0x80 else 0);
          header = (if size < 126 then [maskBit OR of_nat size]
                    else if size < 65536 then (maskBit OR 126) # store_le 2 (Host16ToNetwork16 (of_nat size))
                    else (maskBit OR 127) # store_le 8 (Host64ToNetwork64 (of_nat size)))
      in Inr (writeBuffer @ [0x80 OR frame_opcode] @ header
              @ (if frame_mask then rnd @ xor_mask rnd 0 payloadView else payloadView)))"

section \<open>Reading the header\<close>

definition h_mask :: "byte list \<Rightarrow> bool" where "h_mask buf \<longleftrightarrow> buf ! 1 AND 0x80 \<noteq> 0"

definition h_more :: "byte list \<Rightarrow> nat" where
  "h_more buf = more_bytes (ucast (buf ! 1 AND 0x7f))"

definition h_size :: "byte list \<Rightarrow> nat" where
  "h_size buf = 2 + (if h_mask buf then 4 else 0) + h_more buf"

definition h_len :: "byte list \<Rightarrow> 64 word" where
  "h_len buf = read_length (h_more buf) buf (ucast (buf ! 1 AND 0x7f))"

definition h_frame :: "byte list \<Rightarrow> WebSocketFrame \<Rightarrow> WebSocketFrame" where
  "h_frame buf f = f\<lparr>fin := buf ! 0 AND 0x80 \<noteq> 0, opcode := buf ! 0 AND 0x0f, masked := h_mask buf\<rparr>"

lemma h_size_word: "2 + (if h_mask buf then 4 else 0) + of_nat (h_more buf) = (of_nat (h_size buf) :: 64 word)"
  by (simp add: h_size_def)

lemma h_size_bounds: "2 \<le> h_size buf \<and> h_size buf \<le> 14"
  by (simp add: h_size_def h_more_def more_bytes_def)

lemma unat_h_size: "unat (of_nat (h_size buf) :: 64 word) = h_size buf"
  using h_size_bounds [of buf] by (simp add: unat_of_nat)

lemma ucast_byte_eq: "(ucast (b :: byte) :: 64 word) = ucast c \<longleftrightarrow> b = c"
proof
  assume eq: "(ucast b :: 64 word) = ucast c"
  show "b = c"
  proof (rule bit_word_eqI)
    fix n
    assume "n < LENGTH(8)"
    then have "bit b n = bit (ucast b :: 64 word) n" "bit c n = bit (ucast c :: 64 word) n"
      by (simp_all add: bit_simps)
    then show "bit b n = bit c n" using eq by simp
  qed
qed simp

lemma ucast_len7:
  "(ucast (b :: byte) :: 64 word) = 126 \<longleftrightarrow> b = 126"
  "(ucast (b :: byte) :: 64 word) = 127 \<longleftrightarrow> b = 127"
  using ucast_byte_eq [of b 126] ucast_byte_eq [of b 127] by simp_all

lemma frame_fields:
  "opcode (f\<lparr>opcode := b\<rparr>) = b" "masked (f\<lparr>masked := c, payloadLen := d\<rparr>) = c"
  "payloadLen (f\<lparr>payloadLen := d\<rparr>) = d" "f\<lparr>payloadLen := d, payloadLen := e\<rparr> = f\<lparr>payloadLen := e\<rparr>"
  by simp_all

text \<open>The cascade of \<open>DoParse\<close> with the arithmetic of \<open>expectLen\<close> done.\<close>

lemma DoParse_eq:
  "DoParse p0 =
     (let p = begin_frame p0; buf = buffer p; f = last (frames p) in
      if length buf < 2 then Inr (kNeedMore, p)
      else if reserved_opcode (buf ! 0 AND 0x0f)
        then Inr (kError, set_last (f\<lparr>fin := buf ! 0 AND 0x80 \<noteq> 0, opcode := buf ! 0 AND 0x0f\<rparr>) p)
      else if length buf < h_size buf
        then Inr (kNeedMore, set_last ((h_frame buf f)\<lparr>payloadLen := ucast (buf ! 1 AND 0x7f)\<rparr>) p)
      else if length buf < unat (of_nat (h_size buf) + h_len buf)
        then Inr (kNeedMore, set_last ((h_frame buf f)\<lparr>payloadLen := h_len buf\<rparr>) p)
      else if unat (h_len buf) > string_max_size then Inl LengthError
      else bind_result
             (finish_frame (set_last (read_payload (h_more buf) buf ((h_frame buf f)\<lparr>payloadLen := h_len buf\<rparr>))
                (p\<lparr>buffer := drop (unat (of_nat (h_size buf) + h_len buf)) buf, newFrame := True\<rparr>)))
             (\<lambda>p'. Inr (kSuccess, p')))"
  by (simp only: DoParse_def Let_def frame_fields h_mask_def [symmetric] h_more_def [symmetric] h_size_word
      unat_h_size h_len_def [symmetric] h_frame_def buffer_begin)

lemma expect_no_wrap:
  "unat (h_len buf) \<le> string_max_size \<Longrightarrow> unat (of_nat (h_size buf) + h_len buf :: 64 word) = h_size buf + unat (h_len buf)"
  using h_size_bounds [of buf] by (simp add: unat_word_ariths unat_of_nat string_max_size_def)

lemma DoParse_shrinks:
  assumes "DoParse p = Inr (kSuccess, p')" shows "length (buffer p') < length (buffer p)"
  using assms h_size_bounds [of "buffer p"] expect_no_wrap [of "buffer p"]
  by (auto simp: DoParse_eq Let_def bind_result_eq_Inr not_less dest!: finish_frame_buffer split: if_splits)

lemma begin_feed: "begin_frame (feed xs p) = feed xs (begin_frame p)"
  by (simp add: begin_frame_def feed_def)

lemma begin_begin [simp]: "\<not> newFrame p \<Longrightarrow> begin_frame p = p"
  by (simp add: begin_frame_def)

lemma newFrame_begin [simp]: "\<not> newFrame (begin_frame p)"
  by (simp_all add: begin_frame_def)

lemma feed_fields [simp]:
  "buffer (feed xs p) = buffer p @ xs" "frames (feed xs p) = frames p" "newFrame (feed xs p) = newFrame p"
  "completeFrames (feed xs p) = completeFrames p"
  "set_last f (feed xs p) = feed xs (set_last f p)"
  by (simp_all add: feed_def set_last_def)

text \<open>What is buffered behind the header, and behind the frame, plays no role.\<close>

lemma h_append:
  assumes "2 \<le> length buf"
  shows "(buf @ xs) ! 0 = buf ! 0" "(buf @ xs) ! 1 = buf ! 1" "h_mask (buf @ xs) = h_mask buf"
    "h_more (buf @ xs) = h_more buf" "h_size (buf @ xs) = h_size buf" "h_frame (buf @ xs) f = h_frame buf f"
proof -
  show nth: "(buf @ xs) ! 0 = buf ! 0" "(buf @ xs) ! 1 = buf ! 1"
    using assms by (auto simp: nth_append simp flip: length_greater_0_conv)
  show "h_mask (buf @ xs) = h_mask buf" "h_more (buf @ xs) = h_more buf"
    unfolding h_mask_def h_more_def nth by simp_all
  then show "h_size (buf @ xs) = h_size buf" "h_frame (buf @ xs) f = h_frame buf f"
    by (simp_all only: h_size_def h_frame_def nth)
qed

lemma h_len_append:
  assumes "h_size buf \<le> length buf" shows "h_len (buf @ xs) = h_len buf"
proof -
  have two: "2 \<le> length buf" using assms h_size_bounds [of buf] by linarith
  have "h_more buf \<le> length (drop 2 buf)" using assms by (simp add: h_size_def split: if_splits)
  then have "take (h_more buf) (drop 2 (buf @ xs)) = take (h_more buf) (drop 2 buf)"
    using two by simp
  then show ?thesis unfolding h_len_def read_length_def h_append [OF two] by (simp only:)
qed

lemma take_drop_append: "n + k \<le> length buf \<Longrightarrow> take k (drop n (buf @ xs)) = take k (drop n buf)"
  by simp

lemma read_payload_append:
  assumes "h_size buf + unat (payloadLen f) \<le> length buf" and "masked f = h_mask buf"
  shows "read_payload (h_more buf) (buf @ xs) f = read_payload (h_more buf) buf f"
proof -
  have view: "take (unat (payloadLen f)) (drop (2 + h_more buf + (if masked f then 4 else 0)) (buf @ xs))
       = take (unat (payloadLen f)) (drop (2 + h_more buf + (if masked f then 4 else 0)) buf)"
    using assms by (intro take_drop_append) (simp add: h_size_def)
  show ?thesis
  proof (cases "masked f")
    case True
    then have key: "take 4 (drop (2 + h_more buf) (buf @ xs)) = take 4 (drop (2 + h_more buf) buf)"
      using assms by (intro take_drop_append) (simp add: h_size_def)
    show ?thesis unfolding read_payload_def Let_def view key ..
  next
    case False
    then show ?thesis unfolding read_payload_def Let_def view by simp
  qed
qed

lemma finish_feed: "finish_frame (feed xs p) = map_sum id (feed xs) (finish_frame p)"
  by (simp add: finish_frame_def feed_def Let_def)

text \<open>A successful step, with the bounds that make it one.\<close>

lemma DoParse_success:
  "DoParse p0 = Inr (kSuccess, p') \<longleftrightarrow>
     (let p = begin_frame p0; buf = buffer p; f = (h_frame buf (last (frames p)))\<lparr>payloadLen := h_len buf\<rparr> in
      2 \<le> length buf \<and> \<not> reserved_opcode (buf ! 0 AND 0x0f) \<and> unat (h_len buf) \<le> string_max_size
      \<and> h_size buf + unat (h_len buf) \<le> length buf
      \<and> finish_frame (set_last (read_payload (h_more buf) buf f)
           (p\<lparr>buffer := drop (h_size buf + unat (h_len buf)) buf, newFrame := True\<rparr>)) = Inr p')"
proof -
  let ?b = "buffer p0"
  have "unat (h_len ?b) \<le> string_max_size \<Longrightarrow> unat (of_nat (h_size ?b) + h_len ?b :: 64 word) = h_size ?b + unat (h_len ?b)"
    by (rule expect_no_wrap)
  moreover have "h_size ?b + unat (h_len ?b) \<le> length ?b \<Longrightarrow> h_size ?b \<le> length ?b" by simp
  ultimately show ?thesis
    by (auto simp only: DoParse_eq Let_def buffer_begin not_less bind_result_eq_Inr parse_state.distinct
        if_split sum.distinct sum.inject prod.inject split: if_splits)
qed

lemma step_feed:
  assumes "DoParse p = Inr (kSuccess, p')" shows "DoParse (feed xs p) = Inr (kSuccess, feed xs p')"
proof -
  let ?p = "begin_frame p" and ?b = "buffer p"
  let ?f = "(h_frame ?b (last (frames ?p)))\<lparr>payloadLen := h_len ?b\<rparr>"
  have ok: "2 \<le> length ?b" "\<not> reserved_opcode (?b ! 0 AND 0x0f)" "unat (h_len ?b) \<le> string_max_size"
      "h_size ?b + unat (h_len ?b) \<le> length ?b"
      "finish_frame (set_last (read_payload (h_more ?b) ?b ?f)
         (?p\<lparr>buffer := drop (h_size ?b + unat (h_len ?b)) ?b, newFrame := True\<rparr>)) = Inr p'"
    using assms unfolding DoParse_success Let_def by simp_all
  note app = h_append [OF ok(1)]
  have len: "h_len (?b @ xs) = h_len ?b" using ok(4) by (intro h_len_append) simp
  have pay: "read_payload (h_more ?b) (?b @ xs) ?f = read_payload (h_more ?b) ?b ?f"
    using ok(4) by (intro read_payload_append) (simp_all add: h_frame_def)
  have rest: "(feed xs ?p)\<lparr>buffer := drop (h_size ?b + unat (h_len ?b)) (?b @ xs), newFrame := True\<rparr>
      = feed xs (?p\<lparr>buffer := drop (h_size ?b + unat (h_len ?b)) ?b, newFrame := True\<rparr>)"
    using ok(4) by (simp add: feed_def)
  have "finish_frame (set_last (read_payload (h_more (?b @ xs)) (?b @ xs) ((h_frame (?b @ xs) (last (frames (feed xs ?p))))\<lparr>payloadLen := h_len (?b @ xs)\<rparr>))
         ((feed xs ?p)\<lparr>buffer := drop (h_size (?b @ xs) + unat (h_len (?b @ xs))) (?b @ xs), newFrame := True\<rparr>)) = Inr (feed xs p')"
    unfolding app len feed_fields pay rest finish_feed ok(5) by simp
  moreover have "2 \<le> length (?b @ xs)" "h_size (?b @ xs) + unat (h_len (?b @ xs)) \<le> length (?b @ xs)"
      "\<not> reserved_opcode ((?b @ xs) ! 0 AND 0x0f)"
    using ok by (simp_all add: app len)
  ultimately show ?thesis
    using ok(3) unfolding DoParse_success Let_def begin_feed feed_fields buffer_begin len by simp
qed

text \<open>The scratch frame of an unfinished parse is overwritten by the next attempt.\<close>

definition scratch_inv :: "WebSocketParser \<Rightarrow> bool" where
  "scratch_inv p \<longleftrightarrow> \<not> newFrame p \<longrightarrow> frames p \<noteq> []"

lemma set_last_set_last [simp]: "set_last g (set_last f p) = set_last g p"
  by (simp add: set_last_def)

lemma set_last_buffer:
  "set_last g ((set_last f p)\<lparr>buffer := b, newFrame := n\<rparr>) = set_last g (p\<lparr>buffer := b, newFrame := n\<rparr>)"
  by (simp add: set_last_def)

lemma h_frame_scratch:
  "payload f = payload g \<Longrightarrow> maskingKey f = maskingKey g \<Longrightarrow>
   (h_frame buf f)\<lparr>payloadLen := l\<rparr> = (h_frame buf g)\<lparr>payloadLen := l\<rparr>"
  by (cases f, cases g) (simp add: h_frame_def)

lemma DoParse_scratch:
  assumes "\<not> newFrame p" "2 \<le> length (buffer p)" "\<not> reserved_opcode (buffer p ! 0 AND 0x0f)"
    and "payload f = payload (last (frames p))" "maskingKey f = maskingKey (last (frames p))"
  shows "DoParse (set_last f p) = DoParse p"
proof -
  have b: "begin_frame p = p" "begin_frame (set_last f p) = set_last f p" using assms(1) by simp_all
  show ?thesis
    unfolding DoParse_eq Let_def b set_last_fields last_snoc
    using assms(2,3) by (simp only: h_frame_scratch [OF assms(4,5)] set_last_set_last set_last_buffer
        if_False linorder_not_less [symmetric])
qed

lemma step_wait:
  assumes inv: "scratch_inv p" and step: "DoParse p = Inr (kNeedMore, p')"
  shows "DoParse (feed xs p') = DoParse (feed xs p)"
proof -
  let ?p = "begin_frame p"
  have start: "DoParse (feed xs ?p) = DoParse (feed xs p)"
    by (simp add: DoParse_eq begin_feed [symmetric])
  show ?thesis
  proof (cases "p' = ?p")
    case False
    then obtain f where f: "p' = set_last f ?p" "2 \<le> length (buffer p)" "\<not> reserved_opcode (buffer p ! 0 AND 0x0f)"
        "payload f = payload (last (frames ?p))" "maskingKey f = maskingKey (last (frames ?p))"
      using step unfolding DoParse_eq Let_def
      by (auto simp: h_frame_def bind_result_eq_Inr split: if_splits)
    have "DoParse (set_last f (feed xs ?p)) = DoParse (feed xs ?p)"
      using f h_append(1) [OF f(2), of xs] by (intro DoParse_scratch) simp_all
    then show ?thesis using start f(1) by simp
  qed (simp add: start)
qed

lemma scratch_inv_step:
  assumes inv: "scratch_inv p" and step: "DoParse p = Inr (st, p')" shows "scratch_inv p'"
proof -
  have ne: "frames (begin_frame p) \<noteq> []" using inv by (auto simp: scratch_inv_def begin_frame_def)
  show ?thesis
    using step ne unfolding DoParse_eq Let_def
    by (auto simp: scratch_inv_def bind_result_eq_Inr dest!: finish_frame_buffer split: if_splits)
qed

lemma Parse_loop_step:
  "Parse_loop p = (case DoParse p of Inl e \<Rightarrow> Inl e
     | Inr (st, p') \<Rightarrow> if st = kSuccess then Parse_loop p' else Inr (st \<noteq> kError, p'))"
  by (subst Parse_loop.simps) (auto split: sum.splits dest: DoParse_shrinks)

lemma feed_Nil: "feed [] p = p" and feed_append: "feed (xs @ ys) p = feed ys (feed xs p)"
  by (simp_all add: feed_def)

lemma step_fail:
  assumes "DoParse p = Inr (kError, p')" shows "\<exists>p''. DoParse (feed xs p) = Inr (kError, p'')"
proof -
  have ok: "2 \<le> length (buffer p)" "reserved_opcode (buffer p ! 0 AND 0x0f)"
    using assms unfolding DoParse_eq Let_def
    by (auto simp: bind_result_eq_Inr not_less split: if_splits)
  then have "\<not> length (buffer p @ xs) < 2" "reserved_opcode ((buffer p @ xs) ! 0 AND 0x0f)"
    by (simp_all add: h_append)
  then show ?thesis unfolding DoParse_eq Let_def by (simp add: begin_feed)
qed

lemma step_throw:
  assumes "DoParse p = Inl e" shows "DoParse (feed xs p) = Inl e"
proof -
  let ?p = "begin_frame p" and ?b = "buffer p"
  let ?f = "(h_frame ?b (last (frames ?p)))\<lparr>payloadLen := h_len ?b\<rparr>"
  let ?n = "unat (of_nat (h_size ?b) + h_len ?b :: 64 word)"
  have ok: "2 \<le> length ?b" "\<not> reserved_opcode (?b ! 0 AND 0x0f)" "h_size ?b \<le> length ?b" "?n \<le> length ?b"
    using assms unfolding DoParse_eq Let_def by (auto simp: not_less split: if_splits)
  note app = h_append [OF ok(1)] and len = h_len_append [OF ok(3)]
  have bounds: "\<not> length (?b @ xs) < 2" "\<not> length (?b @ xs) < h_size ?b" "\<not> length (?b @ xs) < ?n"
    using ok by simp_all
  show ?thesis
  proof (cases "string_max_size < unat (h_len ?b)")
    case True
    then have "e = LengthError" using assms ok unfolding DoParse_eq Let_def by (simp add: not_less [symmetric])
    then show ?thesis
      using True ok(2) bounds unfolding DoParse_eq Let_def begin_feed feed_fields buffer_begin app len by simp
  next
    case False
    then have n: "?n = h_size ?b + unat (h_len ?b)" by (intro expect_no_wrap) simp
    have fin: "finish_frame (set_last (read_payload (h_more ?b) ?b ?f) (?p\<lparr>buffer := drop ?n ?b, newFrame := True\<rparr>)) = Inl e"
      using assms False ok unfolding DoParse_eq Let_def
      by (simp add: not_less [symmetric] bind_result_def split: sum.splits)
    have pay: "read_payload (h_more ?b) (?b @ xs) ?f = read_payload (h_more ?b) ?b ?f"
      using ok(4) n by (intro read_payload_append) (simp_all add: h_frame_def)
    have rest: "(feed xs ?p)\<lparr>buffer := drop ?n (?b @ xs), newFrame := True\<rparr>
        = feed xs (?p\<lparr>buffer := drop ?n ?b, newFrame := True\<rparr>)"
      using ok(4) by (simp add: feed_def)
    show ?thesis
      using False ok(2) bounds
      unfolding DoParse_eq Let_def begin_feed feed_fields buffer_begin app len pay rest finish_feed fin by simp
  qed
qed

interpretation ws: chunk_parser DoParse feed Parse_loop scratch_inv "\<lambda>p. length (buffer p)"
proof unfold_locales
  fix p p' and xs :: "byte list" and st
  assume inv: "scratch_inv p"
  show "scratch_inv (feed xs p)" using inv by (simp add: scratch_inv_def)
  show "DoParse p = Inr (st, p') \<Longrightarrow> scratch_inv p'" using inv by (rule scratch_inv_step)
  show "DoParse p = Inr (kNeedMore, p') \<Longrightarrow> DoParse (feed xs p') = DoParse (feed xs p)"
    using inv by (rule step_wait)
qed (rule feed_Nil feed_append DoParse_shrinks step_feed step_fail step_throw Parse_loop_step, assumption?)+

lemma scratch_inv_init: "scratch_inv parser_init"
  by (simp add: scratch_inv_def parser_init_def)

section \<open>Reading what was written\<close>

lemma xor_mask_length [simp]: "length (xor_mask key i bs) = length bs"
  by (induction bs arbitrary: i) auto

lemma xor_mask_twice: "xor_mask key i (xor_mask key i bs) = bs"
  by (induction bs arbitrary: i) (auto simp: bit_eq_iff bit_simps intro!: bit_word_eqI)

text \<open>A frame on the wire: the length form the sender chose is the shortest one.\<close>

definition wire_frame :: "bool \<Rightarrow> byte \<Rightarrow> byte list option \<Rightarrow> byte list \<Rightarrow> byte list" where
  "wire_frame f op key body =
     (let size = length body;
          maskBit = (if key \<noteq> None then 0x80 else 0);
          header = (if size < 126 then [maskBit OR of_nat size]
                    else if size < 65536 then (maskBit OR 126) # store_le 2 (Host16ToNetwork16 (of_nat size))
                    else (maskBit OR 127) # store_le 8 (Host64ToNetwork64 (of_nat size)))
      in [(if f then 0x80 else 0) OR op] @ header
         @ (case key of None \<Rightarrow> body | Some k \<Rightarrow> k @ xor_mask k 0 body))"

lemma MakeFrame_wire:
  "MakeFrameToBuffer rnd True m op body out = Inr (out @ wire_frame True op (if m then Some rnd else None) body)"
  by (simp add: MakeFrameToBuffer_def wire_frame_def Let_def)

lemma small_opcode:
  assumes "op \<le> 0x0f" shows "((if f then 0x80 else 0) OR op) AND 0x0f = (op :: byte)"
    and "((if f then 0x80 else 0) OR op) AND 0x80 \<noteq> (0 :: byte) \<longleftrightarrow> f"
proof -
  have "unat op < 2 ^ 4" using assms by (simp add: word_le_nat_alt)
  then have high: "bit op n \<Longrightarrow> n < 4" for n using small_word_bits(2) not_less by blast
  show "((if f then 0x80 else 0) OR op) AND 0x0f = (op :: byte)"
    by (rule bit_word_eqI) (auto simp del: bit_numeral_word_iff simp: bit_and_iff bit_or_iff bit_0x80 bit_0x0f dest: high)
  have "bit (((if f then 0x80 else 0) OR op) AND 0x80) 7 \<longleftrightarrow> f"
    by (auto simp del: bit_numeral_word_iff simp: bit_and_iff bit_or_iff bit_0x80 dest: high)
  moreover have "\<not> f \<Longrightarrow> ((if f then 0x80 else 0) OR op) AND 0x80 = (0 :: byte)"
    by (rule bit_word_eqI) (auto simp del: bit_numeral_word_iff simp: bit_and_iff bit_or_iff bit_0x80 dest: high)
  ultimately show "((if f then 0x80 else 0) OR op) AND 0x80 \<noteq> (0 :: byte) \<longleftrightarrow> f"
    by (metis bit_0_eq bot_apply bot_bool_def)
qed

lemma small_len7:
  assumes "unat x < 2 ^ 7"
  shows "((if m then 0x80 else 0) OR x) AND 0x7f = (x :: byte)"
    and "((if m then 0x80 else 0) OR x) AND 0x80 \<noteq> (0 :: byte) \<longleftrightarrow> m"
proof -
  have high: "bit x n \<Longrightarrow> n < 7" for n using small_word_bits(2) [OF assms] not_less by blast
  show "((if m then 0x80 else 0) OR x) AND 0x7f = (x :: byte)"
    by (rule bit_word_eqI)
      (auto simp del: bit_numeral_word_iff simp: bit_and_iff bit_or_iff bit_0x80 bit_0x7f dest: high)
  have "bit (((if m then 0x80 else 0) OR x) AND 0x80) 7 \<longleftrightarrow> m"
    by (auto simp del: bit_numeral_word_iff simp: bit_and_iff bit_or_iff bit_0x80 dest: high)
  moreover have "\<not> m \<Longrightarrow> ((if m then 0x80 else 0) OR x) AND 0x80 = (0 :: byte)"
    by (rule bit_word_eqI)
      (auto simp del: bit_numeral_word_iff simp: bit_and_iff bit_or_iff bit_0x80 dest: high)
  ultimately show "((if m then 0x80 else 0) OR x) AND 0x80 \<noteq> (0 :: byte) \<longleftrightarrow> m"
    by (metis bit_0_eq bot_apply bot_bool_def)
qed

text \<open>The length field as the sender writes it and as the header reader sees it.\<close>

definition wire_len7 :: "nat \<Rightarrow> byte" where
  "wire_len7 n = (if n < 126 then of_nat n else if n < 65536 then 126 else 127)"

definition wire_ext :: "nat \<Rightarrow> byte list" where
  "wire_ext n = (if n < 126 then []
     else if n < 65536 then store_le 2 (Host16ToNetwork16 (of_nat n))
     else store_le 8 (Host64ToNetwork64 (of_nat n)))"

lemma wire_len7_small: "unat (wire_len7 n) < 2 ^ 7"
  by (simp add: wire_len7_def unat_of_nat)

lemma wire_frame_parts:
  "wire_frame f op key body =
     ((if f then 0x80 else 0) OR op) # ((if key \<noteq> None then 0x80 else 0) OR wire_len7 (length body))
       # wire_ext (length body) @ (case key of None \<Rightarrow> body | Some k \<Rightarrow> k @ xor_mask k 0 body)"
  by (simp add: wire_frame_def wire_len7_def wire_ext_def Let_def)

lemma wire_more: "more_bytes (ucast (wire_len7 n)) = length (wire_ext n)"
proof -
  have "(ucast (of_nat n :: byte) :: 64 word) = of_nat n" if "n < 126"
    using that by (simp add: ucast_of_nat_small unat_of_nat)
  moreover have "(of_nat n :: 64 word) \<noteq> 126" "(of_nat n :: 64 word) \<noteq> 127" if "n < 126"
    using that by (auto simp: word_unat_eq_iff unat_of_nat)
  ultimately show ?thesis by (auto simp: wire_len7_def wire_ext_def more_bytes_def)
qed

lemma wire_length:
  assumes "n < 2 ^ 64"
  shows "read_length (length (wire_ext n)) (b0 # b1 # wire_ext n @ rest) (ucast (wire_len7 n)) = of_nat n"
proof -
  consider "n < 126" | "\<not> n < 126" "n < 65536" | "\<not> n < 65536" by linarith
  then show ?thesis
  proof cases
    case 1
    then show ?thesis
      by (simp add: wire_ext_def wire_len7_def read_length_def ucast_of_nat_small unat_of_nat)
  next
    case 2
    then show ?thesis
      by (simp add: wire_ext_def read_length_def load_stored_swap ucast_of_nat_small
          unat_of_nat take_bit_nat_eq_self)
  next
    case 3
    then show ?thesis
      by (simp add: wire_ext_def read_length_def load_stored_swap)
  qed
qed

lemma drop_append_length: "drop (length xs) (xs @ ys) = ys"
  by simp

lemma take_drop_middle: "take (length xs) (drop (length pre) (pre @ xs @ ys)) = xs"
  by simp

text \<open>The frame the parser makes of a wire frame.\<close>

definition parsed_frame :: "bool \<Rightarrow> byte \<Rightarrow> byte list option \<Rightarrow> byte list \<Rightarrow> WebSocketFrame" where
  "parsed_frame f op key body =
     \<lparr>fin = f, masked = key \<noteq> None, opcode = op, payloadLen = of_nat (length body),
      maskingKey = (case key of None \<Rightarrow> [0, 0, 0, 0] | Some k \<Rightarrow> k), payload = body\<rparr>"

definition wire_ok :: "byte \<Rightarrow> byte list option \<Rightarrow> byte list \<Rightarrow> bool" where
  "wire_ok op key body \<longleftrightarrow> op \<le> 0x0f \<and> \<not> reserved_opcode op \<and> length body \<le> string_max_size
     \<and> (\<forall>k. key = Some k \<longrightarrow> length k = 4)"

text \<open>What the parser reads of a frame that stands at the beginning of its buffer: the header, its sizes, the payload.\<close>

lemma wire_header:
  assumes ok: "wire_ok op key body" and buf: "b = wire_frame f op key body @ rest"
  shows "b ! 0 AND 0x0f = op" "b ! 0 AND 0x80 \<noteq> 0 \<longleftrightarrow> f" "b ! 1 AND 0x7f = wire_len7 (length body)" "h_mask b \<longleftrightarrow> key \<noteq> None"
    "h_more b = length (wire_ext (length body))" "h_len b = of_nat (length body)" "unat (h_len b) = length body"
    "length b = h_size b + length body + length rest" "drop (h_size b + length body) b = rest"
proof -
  let ?n = "length body"
  let ?data = "case key of None \<Rightarrow> body | Some k \<Rightarrow> k @ xor_mask k 0 body"
  let ?b0 = "(if f then 0x80 else 0) OR op :: byte"
  let ?b1 = "(if key \<noteq> None then 0x80 else 0) OR wire_len7 ?n"
  have b: "b = ?b0 # ?b1 # wire_ext ?n @ ?data @ rest" by (simp add: buf wire_frame_parts)
  have n: "?n < 2 ^ 64" using ok by (simp add: wire_ok_def string_max_size_def)
  have op: "op \<le> 0x0f" using ok by (simp add: wire_ok_def)
  show "b ! 0 AND 0x0f = op" "b ! 0 AND 0x80 \<noteq> 0 \<longleftrightarrow> f"
    unfolding b nth_Cons_0 by (rule small_opcode [OF op])+
  have b1': "b ! 1 = ?b1" by (simp add: b)
  show b1: "b ! 1 AND 0x7f = wire_len7 ?n" "h_mask b \<longleftrightarrow> key \<noteq> None"
    unfolding h_mask_def b1' by (rule small_len7 [OF wire_len7_small])+
  show more: "h_more b = length (wire_ext ?n)" by (simp add: h_more_def b1(1) [simplified] wire_more)
  show len: "h_len b = of_nat ?n"
    unfolding h_len_def more b1(1) using wire_length [OF n, of ?b0 ?b1 "?data @ rest"] by (simp only: b)
  show "unat (h_len b) = ?n" using n by (simp add: len unat_of_nat take_bit_nat_eq_self)
  have hsize: "h_size b = 2 + (if key \<noteq> None then 4 else 0) + length (wire_ext ?n)"
    by (simp add: h_size_def b1 more)
  have front: "length (?b0 # ?b1 # wire_ext ?n @ ?data) = h_size b + ?n"
    unfolding hsize using ok by (cases key) (simp_all add: wire_ok_def)
  have b_front: "b = (?b0 # ?b1 # wire_ext ?n @ ?data) @ rest" by (simp add: b)
  show "length b = h_size b + ?n + length rest"
    by (subst b_front) (simp only: length_append front)
  show "drop (h_size b + ?n) b = rest"
    unfolding front [symmetric] by (subst b_front) (simp only: drop_append_length)
qed

lemma wire_payload:
  assumes ok: "wire_ok op key body" and buf: "b = wire_frame f op key body @ rest"
  shows "read_payload (h_more b) b ((h_frame b empty_frame)\<lparr>payloadLen := h_len b\<rparr>) = parsed_frame f op key body"
proof -
  let ?n = "length body"
  let ?b0 = "(if f then 0x80 else 0) OR op :: byte"
  let ?b1 = "(if key \<noteq> None then 0x80 else 0) OR wire_len7 ?n"
  note hd = wire_header [OF ok buf]
  have uof: "unat (of_nat ?n :: 64 word) = ?n" using hd(6,7) by simp
  show ?thesis
  proof (cases key)
    case None
    have "take ?n (drop (2 + length (wire_ext ?n)) b) = body" by (simp add: buf wire_frame_parts None)
    then show ?thesis
      using None by (simp add: read_payload_def h_frame_def parsed_frame_def Let_def hd uof empty_frame_def)
  next
    case (Some k)
    have "length k = 4" using ok Some by (simp add: wire_ok_def)
    moreover have "b = (?b0 # ?b1 # wire_ext ?n) @ k @ xor_mask k 0 body @ rest"
      "b = (?b0 # ?b1 # wire_ext ?n @ k) @ xor_mask k 0 body @ rest" by (simp_all add: buf wire_frame_parts Some)
    moreover from calculation have "length (?b0 # ?b1 # wire_ext ?n) = 2 + length (wire_ext ?n)"
      "length (?b0 # ?b1 # wire_ext ?n @ k) = 2 + length (wire_ext ?n) + 4" by simp_all
    ultimately have k: "take 4 (drop (2 + length (wire_ext ?n)) b) = k"
      "take ?n (drop (2 + length (wire_ext ?n) + 4) b) = xor_mask k 0 body"
      using take_drop_middle by (metis, metis xor_mask_length)
    then show ?thesis
      using Some by (simp add: read_payload_def h_frame_def parsed_frame_def Let_def hd uof empty_frame_def xor_mask_twice)
  qed
qed

lemma DoParse_wire_finish:
  assumes ok: "wire_ok op key body" and new: "newFrame p" and buf: "buffer p = wire_frame f op key body @ rest"
  shows "DoParse p = bind_result (finish_frame (p\<lparr>buffer := rest, frames := frames p @ [parsed_frame f op key body]\<rparr>))
           (\<lambda>p'. Inr (kSuccess, p'))"
proof -
  define b where "b = buffer p"
  have b: "b = wire_frame f op key body @ rest" by (simp add: b_def buf)
  note hd = wire_header [OF ok b]
  let ?n = "length body" and ?p = "begin_frame p"
  let ?f = "(h_frame b (last (frames ?p)))\<lparr>payloadLen := h_len b\<rparr>"
  have "frames ?p = frames p @ [empty_frame]" using new by (simp add: begin_frame_def)
  then have pay: "read_payload (h_more b) b ?f = parsed_frame f op key body" using wire_payload [OF ok b] by simp
  have "set_last (parsed_frame f op key body) (?p\<lparr>buffer := rest, newFrame := True\<rparr>)
      = p\<lparr>buffer := rest, frames := frames p @ [parsed_frame f op key body]\<rparr>"
    using new by (simp add: set_last_def begin_frame_def)
  moreover have "unat (of_nat (h_size b) + h_len b :: 64 word) = h_size b + ?n"
    using ok expect_no_wrap [of b] by (simp add: hd(7) wire_ok_def)
  moreover have "\<not> length b < 2" "\<not> length b < h_size b" "\<not> length b < h_size b + ?n" "\<not> string_max_size < ?n"
      "\<not> reserved_opcode (b ! 0 AND 0x0f)"
    using ok hd(8) h_size_bounds [of b] by (simp_all add: wire_ok_def hd(1))
  ultimately show ?thesis
    unfolding DoParse_eq Let_def buffer_begin b_def [symmetric] by (simp only: if_False pay hd(7,9))
qed

lemma DoParse_wire:
  assumes "wire_ok op key body" "newFrame p" "buffer p = wire_frame f op key body @ rest"
    and "finish_frame (p\<lparr>buffer := rest, frames := frames p @ [parsed_frame f op key body]\<rparr>) = Inr p'"
  shows "DoParse p = Inr (kSuccess, p')"
  using DoParse_wire_finish [OF assms(1-3)] assms(4) by simp

section \<open>Messages\<close>

text \<open>A message is an opcode with its fragments, each with its own masking key; only the first
  fragment carries the opcode, only the last one the FIN bit.\<close>

type_synonym fragment = "byte list option \<times> byte list"

fun wire_message :: "byte \<Rightarrow> fragment list \<Rightarrow> byte list" where
  "wire_message op [] = []"
| "wire_message op ((k, body) # fs) = wire_frame (fs = []) op k body @ wire_message 0 fs"

definition merge_frames :: "WebSocketFrame list \<Rightarrow> WebSocketFrame" where
  "merge_frames fs = (hd fs)\<lparr>payload := concat (map payload fs),
     payloadLen := of_nat (length (concat (map payload fs))), fin := True\<rparr>"

definition message_frame :: "byte \<Rightarrow> fragment list \<Rightarrow> WebSocketFrame" where
  "message_frame op fs = parsed_frame True op (fst (hd fs)) (concat (map snd fs))"

fun fragments_ok :: "byte \<Rightarrow> fragment list \<Rightarrow> bool" where
  "fragments_ok op [] \<longleftrightarrow> True"
| "fragments_ok op ((k, body) # fs) \<longleftrightarrow> wire_ok op k body \<and> fragments_ok 0 fs"

lemma finish_final:
  assumes "frames p = fs @ [g]" "fin g" "list_all (\<lambda>f. opcode f = 0) (tl (fs @ [g]))"
    and "payloadLen g = of_nat (length (payload g))"
  shows "finish_frame p = Inr (p\<lparr>frames := [], completeFrames := completeFrames p @ [merge_frames (fs @ [g])]\<rparr>)"
proof (cases fs)
  case Nil
  then show ?thesis using assms by (cases g) (simp add: finish_frame_def merge_frames_def)
next
  case (Cons f fs')
  then show ?thesis using assms by (simp add: finish_frame_def merge_frames_def Let_def)
qed

lemma finish_more: "\<not> fin (last (frames p)) \<Longrightarrow> finish_frame p = Inr p"
  by (simp add: finish_frame_def)

lemma parsed_frame_fields [simp]:
  "fin (parsed_frame f op k body) = f" "opcode (parsed_frame f op k body) = op"
  "payload (parsed_frame f op k body) = body"
  "payloadLen (parsed_frame f op k body) = of_nat (length body)"
  by (simp_all add: parsed_frame_def)

text \<open>The frames a fragment list leaves behind.\<close>

fun fragment_frames :: "byte \<Rightarrow> fragment list \<Rightarrow> WebSocketFrame list" where
  "fragment_frames op [] = []"
| "fragment_frames op ((k, body) # fs) = parsed_frame (fs = []) op k body # fragment_frames 0 fs"

lemma Parse_loop_message:
  assumes "fragments_ok op fs" "fs \<noteq> []" "newFrame p" "buffer p = wire_message op fs @ rest"
    and "list_all (\<lambda>f. opcode f = 0) (tl (frames p))" "frames p \<noteq> [] \<longrightarrow> op = 0"
  shows "Parse_loop p = Parse_loop (p\<lparr>buffer := rest, frames := [],
      completeFrames := completeFrames p @ [merge_frames (frames p @ fragment_frames op fs)]\<rparr>)"
  using assms
proof (induction op fs arbitrary: p rule: wire_message.induct)
  case (2 op k body fs)
  let ?g = "parsed_frame (fs = []) op k body"
  let ?p1 = "p\<lparr>buffer := wire_message 0 fs @ rest, frames := frames p @ [?g]\<rparr>"
  have buf: "buffer p = wire_frame (fs = []) op k body @ (wire_message 0 fs @ rest)"
    using 2 by simp
  have zeros: "list_all (\<lambda>f. opcode f = 0) (tl (frames p @ [?g]))"
    using "2.prems"(5,6) by (cases "frames p") auto
  show ?case
  proof (cases "fs = []")
    case True
    have fin: "finish_frame ?p1 = Inr (?p1\<lparr>frames := [], completeFrames := completeFrames p @ [merge_frames (frames p @ [?g])]\<rparr>)"
      using finish_final [of ?p1 "frames p" ?g] True zeros by simp
    have "DoParse p = Inr (kSuccess, ?p1\<lparr>frames := [], completeFrames := completeFrames p @ [merge_frames (frames p @ [?g])]\<rparr>)"
      by (rule DoParse_wire [OF _ "2.prems"(3) buf fin]) (use "2.prems"(1) in simp)
    then show ?thesis using True by (subst Parse_loop_step) simp
  next
    case False
    have fin: "finish_frame ?p1 = Inr ?p1" using False by (intro finish_more) simp
    have "DoParse p = Inr (kSuccess, ?p1)"
      by (rule DoParse_wire [OF _ "2.prems"(3) buf fin]) (use "2.prems"(1) in simp)
    then have "Parse_loop p = Parse_loop ?p1" by (subst Parse_loop_step) simp
    also have "\<dots> = Parse_loop (?p1\<lparr>buffer := rest, frames := [],
        completeFrames := completeFrames ?p1 @ [merge_frames (frames ?p1 @ fragment_frames 0 fs)]\<rparr>)"
      by (rule "2.IH") (use "2.prems" False zeros in simp_all)
    finally show ?thesis by simp
  qed
qed simp

lemma concat_fragment_frames: "map payload (fragment_frames op fs) = map snd fs"
  by (induction op fs rule: fragment_frames.induct) auto

lemma merge_message: "fs \<noteq> [] \<Longrightarrow> merge_frames (fragment_frames op fs) = message_frame op fs"
proof (cases fs)
  case (Cons f fs')
  obtain k body where f: "f = (k, body)" by (cases f)
  have "concat (map payload (fragment_frames op fs)) = concat (map snd fs)"
    by (simp only: concat_fragment_frames)
  then show ?thesis
    unfolding merge_frames_def message_frame_def by (simp add: Cons f parsed_frame_def)
qed simp

lemma Parse_loop_messages:
  assumes "\<forall>(op, fs) \<in> set ms. fragments_ok op fs \<and> fs \<noteq> []" "newFrame p" "frames p = []"
    and "buffer p = concat (map (\<lambda>(op, fs). wire_message op fs) ms) @ rest"
  shows "Parse_loop p = Parse_loop (p\<lparr>buffer := rest, frames := [],
      completeFrames := completeFrames p @ map (\<lambda>(op, fs). message_frame op fs) ms\<rparr>)"
  using assms
proof (induction ms arbitrary: p)
  case Nil
  then show ?case by (cases p) simp
next
  case (Cons m ms)
  obtain op fs where m: "m = (op, fs)" by (cases m)
  let ?tail = "concat (map (\<lambda>(op, fs). wire_message op fs) ms) @ rest"
  have "Parse_loop p = Parse_loop (p\<lparr>buffer := ?tail, frames := [],
      completeFrames := completeFrames p @ [merge_frames (frames p @ fragment_frames op fs)]\<rparr>)"
    using Cons.prems by (intro Parse_loop_message) (simp_all add: m)
  also have "\<dots> = Parse_loop (p\<lparr>buffer := ?tail, frames := [], completeFrames := completeFrames p @ [message_frame op fs]\<rparr>)"
    using Cons.prems by (simp add: m merge_message)
  finally show ?case
    using Cons.IH [of "p\<lparr>buffer := ?tail, frames := [], completeFrames := completeFrames p @ [message_frame op fs]\<rparr>"]
      Cons.prems by (simp add: m)
qed

lemma Parse_messages:
  assumes "\<forall>(op, fs) \<in> set ms. fragments_ok op fs \<and> fs \<noteq> []"
  shows "Parse (concat (map (\<lambda>(op, fs). wire_message op fs) ms)) parser_init =
    Inr (True, \<lparr>buffer = [], completeFrames = map (\<lambda>(op, fs). message_frame op fs) ms, frames = [empty_frame], newFrame = False\<rparr>)"
proof -
  let ?cf = "map (\<lambda>(op, fs). message_frame op fs) ms"
  let ?q = "\<lparr>buffer = [], completeFrames = ?cf, frames = [], newFrame = True\<rparr>"
  let ?p = "feed (concat (map (\<lambda>(op, fs). wire_message op fs) ms)) parser_init"
  have "Parse_loop ?p = Parse_loop (?p\<lparr>buffer := [], frames := [], completeFrames := completeFrames ?p @ ?cf\<rparr>)"
    using assms by (intro Parse_loop_messages) (simp_all add: parser_init_def)
  also have "?p\<lparr>buffer := [], frames := [], completeFrames := completeFrames ?p @ ?cf\<rparr> = ?q"
    by (simp add: parser_init_def feed_def)
  also have "Parse_loop ?q = Inr (True, \<lparr>buffer = [], completeFrames = ?cf, frames = [empty_frame], newFrame = False\<rparr>)"
    by (subst Parse_loop_step) (simp add: DoParse_eq begin_frame_def)
  finally show ?thesis by (simp add: Parse_def)
qed

section \<open>Properties\<close>

text \<open>C2: the parser inverts the wire format: any sequence of messages, of any length, masked or
  not, whole or in fragments, written to the wire and cut into chunks in any way, is delivered as
  exactly these messages in order (opcode of the first fragment, concatenated unmasked payload),
  with nothing left in the buffer.\<close>

theorem ws_stream_roundtrip:
  assumes "\<forall>(op, fs) \<in> set ms. fragments_ok op fs \<and> fs \<noteq> []"
    and "cs \<noteq> []" and "concat cs = concat (map (\<lambda>(op, fs). wire_message op fs) ms)"
  shows "parse_chunks Parse cs parser_init =
    Inr (True, \<lparr>buffer = [], completeFrames = map (\<lambda>(op, fs). message_frame op fs) ms,
               frames = [empty_frame], newFrame = False\<rparr>)"
  using Parse_messages [OF assms(1)] ws.chunks_concat [OF scratch_inv_init assms(2)] assms(3)
  unfolding Parse_def [abs_def] by simp

theorem ws_stream_roundtrip_witness:
  "\<exists>p. parse_chunks Parse [take 3 (wire_message 1 [(None, [72]), (Some [1, 2, 3, 4], [105])]),
        drop 3 (wire_message 1 [(None, [72]), (Some [1, 2, 3, 4], [105])])] parser_init = Inr (True, p)
     \<and> map payload (completeFrames p) = [[72, 105]]"
proof -
  let ?fs = "[(None, [72]), (Some [1, 2, 3, 4], [105])]"
  have "fragments_ok 1 ?fs" by (simp add: wire_ok_def reserved_opcode_def string_max_size_def word_le_nat_alt)
  then have "parse_chunks Parse [take 3 (wire_message 1 ?fs), drop 3 (wire_message 1 ?fs)] parser_init
      = Inr (True, \<lparr>buffer = [], completeFrames = [message_frame 1 ?fs], frames = [empty_frame], newFrame = False\<rparr>)"
    using ws_stream_roundtrip [of "[(1, ?fs)]" "[take 3 (wire_message 1 ?fs), drop 3 (wire_message 1 ?fs)]"]
    by (simp del: wire_message.simps fragments_ok.simps parse_chunks.simps)
  then show ?thesis by (intro exI conjI) (assumption, simp add: message_frame_def)
qed

text \<open>The cut points of the input never matter: feeding chunks one after the other is accepted
  exactly when feeding their concatenation is, and ends in the same parser state, from any state
  the parser can be in.\<close>

theorem ws_chunk_independent:
  assumes "scratch_inv p" and "cs \<noteq> []"
  shows "parse_chunks Parse cs p = Inr (True, p') \<longleftrightarrow> Parse (concat cs) p = Inr (True, p')"
  using ws.chunks_concat [OF assms] unfolding Parse_def [abs_def] by simp

theorem ws_chunk_independent_witness:
  "parse_chunks Parse [[0x81], [0x00]] parser_init = Inr (True, p') \<longleftrightarrow> Parse [0x81, 0x00] parser_init = Inr (True, p')"
  using ws_chunk_independent [OF scratch_inv_init, of "[[0x81], [0x00]]" p'] by simp

text \<open>What \<open>MakeFrameToBuffer\<close> appends is a wire frame, so that the peer's parser reads it back:
  the frame has the opcode and the payload that were given.\<close>

theorem MakeFrame_readable:
  assumes "wire_ok op (if m then Some rnd else None) body"
  shows "\<exists>out. MakeFrameToBuffer rnd True m op body [] = Inr out \<and>
    Parse out parser_init = Inr (True, \<lparr>buffer = [],
      completeFrames = [parsed_frame True op (if m then Some rnd else None) body],
      frames = [empty_frame], newFrame = False\<rparr>)"
  using Parse_messages [of "[(op, [(if m then Some rnd else None, body)])]"] assms
  by (simp add: MakeFrame_wire message_frame_def)

theorem MakeFrame_readable_witness:
  "\<exists>out p. MakeFrameToBuffer [9, 8, 7, 6] True True 2 [1, 2, 3] [] = Inr out \<and> Parse out parser_init = Inr (True, p)"
  using MakeFrame_readable [of 2 True "[9, 8, 7, 6]" "[1, 2, 3]"]
  by (auto simp: wire_ok_def reserved_opcode_def string_max_size_def)

text \<open>A control frame between the fragments of a message, which RFC 6455 allows, fails the
  assertion of \<open>DoParse\<close>: with a fragment pending, any final frame with a non-zero opcode does.\<close>

theorem control_frame_between_fragments:
  assumes "wire_ok op key body" and "op \<noteq> 0" and "newFrame p" and "frames p \<noteq> []"
    and "buffer p = wire_frame True op key body @ rest"
  shows "DoParse p = Inl AssertFail"
  using DoParse_wire_finish [OF assms(1,3,5)] assms(2,4)
  by (cases "frames p") (simp_all add: finish_frame_def)

theorem control_frame_between_fragments_witness:
  "DoParse (parser_init\<lparr>frames := [parsed_frame False 1 None [72]], buffer := wire_frame True 9 None []\<rparr>) = Inl AssertFail"
  using control_frame_between_fragments [of 9 None "[]" "parser_init\<lparr>frames := [parsed_frame False 1 None [72]],
      buffer := wire_frame True 9 None []\<rparr>" "[]"]
  by (simp add: wire_ok_def reserved_opcode_def string_max_size_def parser_init_def)

text \<open>A 14-byte header that announces a payload of \<open>2^64 - 1\<close> bytes makes \<open>expectLen\<close> wrap
  around to 13, so that the parser does not wait for the payload and \<open>reserve\<close> throws
  \<open>std::length_error\<close> out of \<open>Parse\<close>.\<close>

theorem payload_length_wraps:
  "Parse ([0x82, 0xff] @ replicate 8 0xff @ [k0, k1, k2, k3]) parser_init = Inl LengthError"
proof -
  define b :: "byte list" where "b = [0x82, 0xff] @ replicate 8 0xff @ [k0, k1, k2, k3]"
  have b01: "b ! 0 = 0x82" "b ! 1 = 0xff" "length b = 14" by (simp_all add: b_def)
  have h: "h_mask b" "h_more b = 8" unfolding h_mask_def h_more_def b01 by (simp_all add: more_bytes_def)
  have size14: "h_size b = 14" by (simp add: h_size_def h)
  have ext: "take 8 (drop 2 b) = replicate 8 0xff" by (simp add: b_def)
  have ones: "(load_le (replicate 8 0xff) :: 64 word) = -1" "store_le 8 (-1 :: 64 word) = replicate 8 0xff"
    using load_ones [of 8, where 'a = 64] store_load_le [of "replicate 8 0xff", where 'a = 64] by simp_all
  have "h_len b = -1"
    unfolding h_len_def read_length_def h ext Host64ToNetwork64_def ones
    by (simp only: rev_replicate ones) simp
  then have n: "unat (of_nat (h_size b) + h_len b :: 64 word) = 13" "string_max_size < unat (h_len b)"
    by (simp_all add: size14 string_max_size_def unsigned_minus_1_eq_mask mask_eq_exp_minus_1)
  have "\<not> reserved_opcode (b ! 0 AND 0x0f)" unfolding b01 by (simp add: reserved_opcode_def)
  then have "DoParse (feed b parser_init) = Inl LengthError"
    unfolding DoParse_eq Let_def buffer_begin
    using n b01(3) size14 by (simp add: feed_def parser_init_def)
  then show ?thesis unfolding Parse_def b_def [symmetric] by (subst Parse_loop_step) simp
qed

end
