(* ===== verification/WebSocket.thy ===== *)
theory WebSocket
  imports WebSocketParser
begin

text \<open>
  \<open>cold/net/http/WebSocket.{h,cpp}\<close>: one open connection.

  \<^item> The write path (\<open>Send\<close>, \<open>SendPong\<close>, \<open>Close\<close>, the ping task and \<open>DoWrite\<close>) is a transition
    function on events. A coroutine runs without interruption up to its next suspension, which
    is the \<open>WriteN\<close> of \<open>DoWrite\<close>; the events are a frame task starting to run, that \<open>WriteN\<close>
    completing or failing after some bytes, and the connection closing.
  \<^item> \<open>closeAfter\<close> says that the active writer is the one \<open>Close\<close> awaits, after which it closes
    the socket; \<open>closeCalls\<close> counts the calls of \<open>onClose_\<close>.
  \<^item> \<open>wire\<close> and \<open>accepted\<close> are ghosts: the bytes handed to the socket, and the bytes of all frames
    appended to the temporary buffer.
  \<^item> The read path (\<open>DoRead\<close>) maps the chunks \<open>Read\<close> returns to the actions it takes.
\<close>

section \<open>The write path\<close>

record web_socket =
  connected :: bool
  isWriting :: bool
  writeTempBuffer :: "byte list"
  writeBuffer :: "byte list"
  closeAfter :: bool
  closeCalls :: nat
  wire :: "byte list"
  accepted :: "byte list"

definition ws_open :: web_socket where
  "ws_open = \<lparr>connected = True, isWriting = False, writeTempBuffer = [], writeBuffer = [],
     closeAfter = False, closeCalls = 0, wire = [], accepted = []\<rparr>"

definition WebSocket_OnError :: "web_socket \<Rightarrow> web_socket" where
  "WebSocket_OnError s = s\<lparr>closeCalls := closeCalls s + 1, connected := False\<rparr>"

text \<open>The end of \<open>DoWrite\<close>, and what follows it in the coroutine that awaited it.\<close>

definition DoWrite_end :: "web_socket \<Rightarrow> web_socket" where
  "DoWrite_end s = s\<lparr>isWriting := False, connected := connected s \<and> \<not> closeAfter s, closeAfter := False\<rparr>"

text \<open>One turn of the loop of \<open>DoWrite\<close>, up to the suspension in \<open>WriteN\<close> or the end.\<close>

definition DoWrite_turn :: "web_socket \<Rightarrow> web_socket" where
  "DoWrite_turn s =
     (if connected s then
        (let s1 = s\<lparr>writeBuffer := writeTempBuffer s, writeTempBuffer := writeBuffer s\<rparr>
         in if writeBuffer s1 = [] then DoWrite_end s1 else s1)
      else DoWrite_end s)"

definition DoWrite :: "bool \<Rightarrow> web_socket \<Rightarrow> web_socket" where
  "DoWrite close_after s = DoWrite_turn (s\<lparr>isWriting := True, closeAfter := close_after\<rparr>)"

text \<open>The task that \<open>Send\<close>, \<open>SendPong\<close> and \<open>SendPing\<close> spawn: append the frame, and write unless
  a writer is already active. The task of \<open>Close\<close> is the same, but closes after its \<open>DoWrite\<close>.\<close>

definition frame_task :: "bool \<Rightarrow> byte \<Rightarrow> byte list \<Rightarrow> web_socket \<Rightarrow> web_socket result" where
  "frame_task close_after op body s =
     bind_result (MakeFrameToBuffer [] True False op body (writeTempBuffer s)) (\<lambda>buf.
       let s1 = s\<lparr>writeTempBuffer := buf, accepted := accepted s @ drop (length (writeTempBuffer s)) buf\<rparr>
       in Inr (if isWriting s1 then s1 else DoWrite close_after s1))"

definition Send :: "bool \<Rightarrow> byte list \<Rightarrow> web_socket \<Rightarrow> web_socket result" where
  "Send binary body s = (if \<not> connected s then Inr s else frame_task False (if binary then 2 else 1) body s)"

definition SendPong :: "web_socket \<Rightarrow> web_socket result" where
  "SendPong s = (if \<not> connected s then Inr s else frame_task False 0xa [] s)"

definition WebSocket_Close :: "web_socket \<Rightarrow> web_socket result" where
  "WebSocket_Close s = frame_task True 0x8 [] (s\<lparr>closeCalls := closeCalls s + 1\<rparr>)"

text \<open>\<open>WriteN\<close> of the suspended writer completes, or fails after \<open>k\<close> bytes.\<close>

definition write_done :: "web_socket \<Rightarrow> web_socket" where
  "write_done s = DoWrite_turn (s\<lparr>wire := wire s @ writeBuffer s, writeBuffer := []\<rparr>)"

definition write_failed :: "nat \<Rightarrow> web_socket \<Rightarrow> web_socket" where
  "write_failed k s = DoWrite_end (WebSocket_OnError (s\<lparr>wire := wire s @ take k (writeBuffer s)\<rparr>))"

datatype ws_event =
    WsSend bool "byte list"
  | WsPong
  | WsClose
  | WriteDone
  | WriteFailed nat
  | Disconnected

fun ws_step :: "ws_event \<Rightarrow> web_socket \<Rightarrow> web_socket result" where
  "ws_step (WsSend binary body) s = Send binary body s"
| "ws_step WsPong s = SendPong s"
| "ws_step WsClose s = WebSocket_Close s"
| "ws_step WriteDone s = Inr (if isWriting s then write_done s else s)"
| "ws_step (WriteFailed k) s = Inr (if isWriting s then write_failed k s else s)"
| "ws_step Disconnected s = Inr (s\<lparr>connected := False\<rparr>)"

fun ws_steps :: "ws_event list \<Rightarrow> web_socket \<Rightarrow> web_socket result" where
  "ws_steps [] s = Inr s"
| "ws_steps (e # es) s = bind_result (ws_step e s) (ws_steps es)"

text \<open>While connected, what was accepted is on the wire, in the writer's buffer, or in the
  temporary buffer, in this order, and something is pending only while a writer is active.\<close>

definition write_inv :: "web_socket \<Rightarrow> bool" where
  "write_inv s \<longleftrightarrow> prefix (wire s) (accepted s) \<and>
     (isWriting s \<longrightarrow> prefix (wire s @ writeBuffer s) (accepted s)) \<and>
     (connected s \<longrightarrow> wire s @ writeBuffer s @ writeTempBuffer s = accepted s
        \<and> (isWriting s \<longleftrightarrow> writeBuffer s \<noteq> []) \<and> (\<not> isWriting s \<longrightarrow> writeTempBuffer s = [] \<and> \<not> closeAfter s))"

lemma write_inv_open: "write_inv ws_open"
  by (simp add: write_inv_def ws_open_def)

lemma write_inv_turn:
  assumes "isWriting s" "writeBuffer s = []" "prefix (wire s) (accepted s)"
    and "connected s \<Longrightarrow> wire s @ writeTempBuffer s = accepted s"
  shows "write_inv (DoWrite_turn s)"
  using assms by (auto simp: write_inv_def DoWrite_turn_def DoWrite_end_def Let_def)

lemma frame_task_eq:
  "frame_task c op body s =
     (let w = wire_frame True op None body;
          s1 = s\<lparr>writeTempBuffer := writeTempBuffer s @ w, accepted := accepted s @ w\<rparr>
      in Inr (if isWriting s1 then s1 else DoWrite c s1))"
  by (simp add: frame_task_def MakeFrame_wire Let_def)

lemma write_inv_frame_task:
  assumes "write_inv s"
  shows "\<exists>s'. frame_task c op body s = Inr s' \<and> write_inv s'"
proof -
  let ?w = "wire_frame True op None body"
  let ?s1 = "s\<lparr>writeTempBuffer := writeTempBuffer s @ ?w, accepted := accepted s @ ?w\<rparr>"
  have p: "prefix (wire ?s1) (accepted ?s1)" using assms by (simp add: write_inv_def)
  show ?thesis
  proof (cases "isWriting s")
    case True
    then have "write_inv ?s1" using assms p by (auto simp: write_inv_def)
    then show ?thesis using True by (simp add: frame_task_eq Let_def)
  next
    case False
    show ?thesis
    proof (cases "connected s")
      case True
      then have "writeBuffer s = []" "wire s = accepted s" "writeTempBuffer s = []"
        using assms False by (auto simp: write_inv_def)
      then have "write_inv (DoWrite c ?s1)" unfolding DoWrite_def by (intro write_inv_turn) simp_all
      then show ?thesis using False by (simp add: frame_task_eq Let_def)
    next
      case no: False
      then have "write_inv (DoWrite c ?s1)"
        using p by (simp add: DoWrite_def DoWrite_turn_def DoWrite_end_def write_inv_def)
      then show ?thesis using False by (simp add: frame_task_eq Let_def)
    qed
  qed
qed

lemma write_inv_step:
  assumes "write_inv s" shows "\<exists>s'. ws_step e s = Inr s' \<and> write_inv s'"
proof (cases e)
  case (WsSend binary body)
  then show ?thesis using assms write_inv_frame_task by (simp add: Send_def)
next
  case WsPong
  then show ?thesis using assms write_inv_frame_task by (simp add: SendPong_def)
next
  case WsClose
  have "write_inv (s\<lparr>closeCalls := closeCalls s + 1\<rparr>)" using assms by (simp add: write_inv_def)
  then show ?thesis using WsClose write_inv_frame_task by (simp add: WebSocket_Close_def)
next
  case WriteDone
  have "write_inv (write_done s)" if "isWriting s"
    unfolding write_done_def using assms that by (intro write_inv_turn) (auto simp: write_inv_def)
  then show ?thesis using assms WriteDone by simp
next
  case (WriteFailed k)
  have "write_inv (write_failed k s)" if "isWriting s"
  proof -
    have "prefix (wire s @ take k (writeBuffer s)) (wire s @ writeBuffer s)" by (simp add: take_is_prefix)
    moreover have "prefix (wire s @ writeBuffer s) (accepted s)" using assms that by (simp add: write_inv_def)
    ultimately have "prefix (wire s @ take k (writeBuffer s)) (accepted s)" by (rule prefix_order.trans)
    then show ?thesis by (simp add: write_failed_def WebSocket_OnError_def DoWrite_end_def write_inv_def)
  qed
  then show ?thesis using assms WriteFailed by simp
next
  case Disconnected
  then show ?thesis using assms by (simp add: write_inv_def)
qed

lemma write_inv_steps: "write_inv s \<Longrightarrow> \<exists>s'. ws_steps es s = Inr s' \<and> write_inv s'"
proof (induction es arbitrary: s)
  case (Cons e es)
  then show ?case using write_inv_step [OF Cons.prems, of e] by auto
qed simp

section \<open>The read path\<close>

datatype ws_action = OnRecv "byte list" | OnCloseCb | CloseSocket | PongTask

text \<open>The \<open>switch\<close> on the opcode.\<close>

definition handle_frame :: "WebSocketFrame \<Rightarrow> ws_action list result" where
  "handle_frame f =
     (if \<not> fin f then Inl AssertFail
      else if opcode f = 1 \<or> opcode f = 2 then Inr [OnRecv (payload f)]
      else if opcode f = 8 then Inr [OnCloseCb, CloseSocket]
      else if opcode f = 9 then Inr [PongTask]
      else if opcode f = 0xa then Inr []
      else Inr [OnCloseCb, CloseSocket])"

text \<open>One round of \<open>DoRead\<close> with the bytes \<open>Read\<close> returned (none at the end of the stream): the
  actions, whether the socket is still connected, and the parser.\<close>

definition read_round :: "byte list \<Rightarrow> WebSocketParser \<Rightarrow> (ws_action list \<times> bool \<times> WebSocketParser) result" where
  "read_round data p =
     (if data = [] then Inr ([CloseSocket], False, p)
      else bind_result (Parse data p) (\<lambda>(ok, p1).
        if \<not> ok then Inr ([OnCloseCb, CloseSocket], False, p1)
        else if \<not> HasFrame p1 then Inr ([], True, p1)
        else let (f, p2) = TakeFrame p1 in
             bind_result (handle_frame f) (\<lambda>acts. Inr (acts, CloseSocket \<notin> set acts, p2))))"

fun DoRead :: "byte list list \<Rightarrow> WebSocketParser \<Rightarrow> (ws_action list \<times> bool \<times> WebSocketParser) result" where
  "DoRead [] p = Inr ([], True, p)"
| "DoRead (c # cs) p =
     bind_result (read_round c p) (\<lambda>(acts, on, p1).
       if on then bind_result (DoRead cs p1) (\<lambda>(acts', on', p2). Inr (acts @ acts', on', p2))
       else Inr (acts, on, p1))"

section \<open>Properties\<close>

text \<open>C34: whatever frames are sent, however the tasks, the completions of the writes, failures and
  disconnection interleave, the bytes on the wire are a prefix of the frames in the order they
  were appended (never reordered, interleaved or duplicated); while the connection is open nothing
  accepted is lost, and when no writer is active everything has been written.\<close>

theorem ws_write_in_order:
  "\<exists>s. ws_steps es ws_open = Inr s \<and> prefix (wire s) (accepted s)
     \<and> (connected s \<longrightarrow> wire s @ writeBuffer s @ writeTempBuffer s = accepted s \<and> (isWriting s \<or> wire s = accepted s))"
  using write_inv_steps [OF write_inv_open, of es] by (fastforce simp: write_inv_def)

theorem ws_write_in_order_witness:
  "\<exists>s. ws_steps [WsSend False [72], WsPong, WriteDone, WriteDone] ws_open = Inr s \<and> connected s \<and> wire s = accepted s"
  using ws_write_in_order [of "[WsSend False [72], WsPong, WriteDone, WriteDone]"]
  by (simp add: Send_def SendPong_def ws_open_def frame_task_eq Let_def DoWrite_def DoWrite_turn_def write_done_def
      DoWrite_end_def wire_frame_def)

text \<open>\<open>Close\<close> while a writer is active sends its close frame but never closes the socket: the
  task returns, and the active writer ends without closing.\<close>

theorem close_while_writing_stays_open:
  assumes "connected s" "isWriting s" "\<not> closeAfter s" "writeTempBuffer s = []"
  shows "\<exists>s'. ws_steps [WsClose, WriteDone, WriteDone] s = Inr s' \<and> connected s' \<and> \<not> isWriting s'
     \<and> wire s' = wire s @ writeBuffer s @ wire_frame True 0x8 None []"
  using assms
  by (simp add: WebSocket_Close_def frame_task_eq Let_def write_done_def DoWrite_turn_def DoWrite_end_def wire_frame_def)

theorem close_while_writing_stays_open_witness:
  "\<exists>s'. ws_steps [WsClose, WriteDone, WriteDone] (ws_open\<lparr>isWriting := True, writeBuffer := [7]\<rparr>) = Inr s' \<and> connected s'"
  using close_while_writing_stays_open [of "ws_open\<lparr>isWriting := True, writeBuffer := [7]\<rparr>"]
  by (auto simp: ws_open_def)

text \<open>\<open>DoRead\<close> dispatches at most one frame per read: when one read delivers several complete
  messages, only the first is handled and the others stay queued in the parser until the peer
  sends more.\<close>

theorem one_frame_per_read:
  assumes "\<forall>(op, fs) \<in> set ((op1, fs1) # ms). fragments_ok op fs \<and> fs \<noteq> []" and "op1 = 1 \<or> op1 = 2"
  shows "\<exists>p. DoRead [concat (map (\<lambda>(op, fs). wire_message op fs) ((op1, fs1) # ms))] parser_init
      = Inr ([OnRecv (concat (map snd fs1))], True, p)
    \<and> completeFrames p = map (\<lambda>(op, fs). message_frame op fs) ms"
proof -
  let ?data = "concat (map (\<lambda>(op, fs). wire_message op fs) ((op1, fs1) # ms))"
  let ?p = "\<lparr>buffer = [], completeFrames = map (\<lambda>(op, fs). message_frame op fs) ((op1, fs1) # ms),
               frames = [empty_frame], newFrame = False\<rparr>"
  have parse: "Parse ?data parser_init = Inr (True, ?p)" by (rule Parse_messages [OF assms(1)])
  have "?data \<noteq> []" using assms(1) by (cases fs1) (auto simp: wire_frame_def Let_def)
  then have "read_round ?data parser_init = Inr ([OnRecv (concat (map snd fs1))], True,
      ?p\<lparr>completeFrames := map (\<lambda>(op, fs). message_frame op fs) ms\<rparr>)"
    using assms(2) unfolding read_round_def parse
    by (auto simp: HasFrame_def TakeFrame_def handle_frame_def message_frame_def)
  then show ?thesis by simp
qed

theorem one_frame_per_read_witness:
  "\<exists>p. DoRead [concat (map (\<lambda>(op, fs). wire_message op fs) [(1, [(None, [65])]), (1, [(None, [66])])])] parser_init
     = Inr ([OnRecv [65]], True, p) \<and> map payload (completeFrames p) = [[66]]"
  using one_frame_per_read [of 1 "[(None, [65])]" "[(1, [(None, [66])])]"]
  by (auto simp: wire_ok_def reserved_opcode_def string_max_size_def message_frame_def word_le_nat_alt)

end
