(* ===== verification/WebSocketSession.thy ===== *)
theory WebSocketSession
  imports WebSocket
begin

text \<open>
  The coroutines of one WebSocket connection together (\<open>cold/net/http/WebSocket.cpp\<close>): \<open>DoRead\<close>, the tasks
  that \<open>Send\<close>, \<open>SendPong\<close> and \<open>Close\<close> spawn, the ping loop of \<open>SendPing\<close>, and the one writer.

  \<^item> An event is what the event loop resumes: the read that \<open>DoRead\<close> awaits, the next spawned task, the ping
    timer, the \<open>WriteN\<close> of the writer. Between two suspensions a coroutine runs without interruption.
  \<^item> The application is a function: the \<open>Send\<close> calls that its \<open>onRecv_\<close> makes for a payload.
  \<^item> Times are nanoseconds; \<open>ws_config\<close> has the two entries of the configuration that \<open>WebSocket.cpp\<close> reads.
  \<^item> \<open>ss_sent\<close> is a ghost: the frames that tasks appended to the temporary buffer, in order.
\<close>

section \<open>The session\<close>

record ws_config =
  ping_second :: int
  pingpong_timeout_second :: int

text \<open>Where the coroutine of \<open>SendPing\<close> is: not yet run, at its timer, in its own \<open>DoWrite\<close>, or over.\<close>

datatype ping_state = PingSpawned | PingWait int | PingWriting | PingEnded

record ws_session =
  ss_io :: web_socket
  ss_parser :: WebSocketParser
  ss_reading :: bool
  ss_lastPingTime :: int
  ss_ping :: ping_state
  ss_spawned :: "(bool \<times> byte \<times> byte list) list"
  ss_sent :: "(byte \<times> byte list) list"

definition seconds :: "int \<Rightarrow> int" where
  "seconds n = n * 1000000000"

text \<open>\<open>DoRead\<close> up to its first read: the time is taken and the ping loop spawned.\<close>

definition DoRead_start :: "int \<Rightarrow> ws_session" where
  "DoRead_start now = \<lparr>ss_io = ws_open, ss_parser = parser_init, ss_reading = True, ss_lastPingTime = now,
     ss_ping = PingSpawned, ss_spawned = [], ss_sent = []\<rparr>"

definition spawn_frame :: "bool \<Rightarrow> byte \<Rightarrow> byte list \<Rightarrow> ws_session \<Rightarrow> ws_session" where
  "spawn_frame close_after op body s = s\<lparr>ss_spawned := ss_spawned s @ [(close_after, op, body)]\<rparr>"

definition Session_Send :: "bool \<times> byte list \<Rightarrow> ws_session \<Rightarrow> ws_session" where
  "Session_Send m s = (if \<not> connected (ss_io s) then s else spawn_frame False (if fst m then 2 else 1) (snd m) s)"

definition Session_SendPong :: "ws_session \<Rightarrow> ws_session" where
  "Session_SendPong s = (if \<not> connected (ss_io s) then s else spawn_frame False 0xa [] s)"

definition on_io :: "(web_socket \<Rightarrow> web_socket) \<Rightarrow> ws_session \<Rightarrow> ws_session" where
  "on_io f s = s\<lparr>ss_io := f (ss_io s)\<rparr>"

definition Session_Close :: "ws_session \<Rightarrow> ws_session" where
  "Session_Close s = spawn_frame True 0x8 [] (on_io (\<lambda>w. w\<lparr>closeCalls := closeCalls w + 1\<rparr>) s)"

text \<open>A spawned task runs up to its first suspension.\<close>

definition task_runs :: "ws_session \<Rightarrow> ws_session result" where
  "task_runs s = (case ss_spawned s of [] \<Rightarrow> Inr s
     | (close_after, op, body) # rest \<Rightarrow> bind_result (frame_task close_after op body (ss_io s)) (\<lambda>w.
         Inr (s\<lparr>ss_io := w, ss_spawned := rest, ss_sent := ss_sent s @ [(op, body)]\<rparr>)))"

section \<open>Reading\<close>

fun read_action :: "(byte list \<Rightarrow> (bool \<times> byte list) list) \<Rightarrow> ws_action \<Rightarrow> ws_session \<Rightarrow> ws_session" where
  "read_action onRecv (OnRecv data) s = fold Session_Send (onRecv data) s"
| "read_action onRecv OnCloseCb s = on_io (\<lambda>w. w\<lparr>closeCalls := closeCalls w + 1\<rparr>) s"
| "read_action onRecv CloseSocket s = on_io (\<lambda>w. w\<lparr>connected := False\<rparr>) s"
| "read_action onRecv PongTask s = Session_SendPong s"

text \<open>The head of the loop of \<open>DoRead\<close>: it ends without a connection, and when the last ping is too old.\<close>

definition read_loop :: "ws_config \<Rightarrow> int \<Rightarrow> ws_session \<Rightarrow> ws_session" where
  "read_loop cfg now s =
     (if \<not> connected (ss_io s) then s\<lparr>ss_reading := False\<rparr>
      else if now - ss_lastPingTime s > seconds (pingpong_timeout_second cfg)
      then (on_io WebSocket_OnError s)\<lparr>ss_reading := False\<rparr>
      else s)"

text \<open>The read returns; on a socket that was closed meanwhile it fails, whatever has arrived.\<close>

definition read_returns ::
    "ws_config \<Rightarrow> (byte list \<Rightarrow> (bool \<times> byte list) list) \<Rightarrow> int \<Rightarrow> byte list \<Rightarrow> ws_session \<Rightarrow> ws_session result" where
  "read_returns cfg onRecv now data s =
     (if ss_reading s
      then bind_result (read_round (if connected (ss_io s) then data else []) (ss_parser s)) (\<lambda>(acts, on, p).
        let s1 = fold (read_action onRecv) acts (s\<lparr>ss_parser := p\<rparr>)
        in Inr (if on then read_loop cfg now s1 else s1\<lparr>ss_reading := False\<rparr>))
      else Inr s)"

section \<open>Pings\<close>

text \<open>The head of the loop of \<open>SendPing\<close>.\<close>

definition ping_loop :: "ws_config \<Rightarrow> int \<Rightarrow> ws_session \<Rightarrow> ws_session" where
  "ping_loop cfg now s =
     (if connected (ss_io s)
      then s\<lparr>ss_ping := PingWait (now + seconds (if ping_second cfg < 0 then 10 else ping_second cfg))\<rparr>
      else s\<lparr>ss_ping := PingEnded\<rparr>)"

text \<open>The timer runs the ping task; when that has to write, \<open>SendPing\<close> goes on after its \<open>DoWrite\<close> only.\<close>

definition ping_fires :: "ws_config \<Rightarrow> int \<Rightarrow> ws_session \<Rightarrow> ws_session result" where
  "ping_fires cfg now s = (case ss_ping s of
      PingWait deadline \<Rightarrow>
        (if now < deadline then Inr s
         else bind_result (frame_task False 0x9 [] (ss_io s)) (\<lambda>w.
           let s1 = s\<lparr>ss_io := w, ss_lastPingTime := now, ss_sent := ss_sent s @ [(0x9, [])]\<rparr>
           in Inr (if isWriting w \<and> \<not> isWriting (ss_io s) then s1\<lparr>ss_ping := PingWriting\<rparr> else ping_loop cfg now s1)))
    | _ \<Rightarrow> Inr s)"

text \<open>The writer goes on with \<open>step\<close>; when it ends and it was the ping's, the ping loop goes on.\<close>

definition writer_step :: "ws_config \<Rightarrow> int \<Rightarrow> (web_socket \<Rightarrow> web_socket) \<Rightarrow> ws_session \<Rightarrow> ws_session" where
  "writer_step cfg now step s =
     (if isWriting (ss_io s) then
        let s1 = on_io step s
        in if ss_ping s = PingWriting \<and> \<not> isWriting (ss_io s1) then ping_loop cfg now s1 else s1
      else s)"

datatype session_event =
    ReadReturns int "byte list"
  | TaskRuns
  | PingStarts int
  | PingFires int
  | Wrote int
  | WriteBreaks int nat
  | UserSend bool "byte list"
  | UserClose

fun session_step ::
    "ws_config \<Rightarrow> (byte list \<Rightarrow> (bool \<times> byte list) list) \<Rightarrow> session_event \<Rightarrow> ws_session \<Rightarrow> ws_session result" where
  "session_step cfg onRecv (ReadReturns now data) s = read_returns cfg onRecv now data s"
| "session_step cfg onRecv TaskRuns s = task_runs s"
| "session_step cfg onRecv (PingStarts now) s = Inr (if ss_ping s = PingSpawned then ping_loop cfg now s else s)"
| "session_step cfg onRecv (PingFires now) s = ping_fires cfg now s"
| "session_step cfg onRecv (Wrote now) s = Inr (writer_step cfg now write_done s)"
| "session_step cfg onRecv (WriteBreaks now k) s = Inr (writer_step cfg now (write_failed k) s)"
| "session_step cfg onRecv (UserSend binary data) s = Inr (Session_Send (binary, data) s)"
| "session_step cfg onRecv UserClose s = Inr (Session_Close s)"

fun session_steps ::
    "ws_config \<Rightarrow> (byte list \<Rightarrow> (bool \<times> byte list) list) \<Rightarrow> session_event list \<Rightarrow> ws_session \<Rightarrow> ws_session result" where
  "session_steps cfg onRecv [] s = Inr s"
| "session_steps cfg onRecv (e # es) s = bind_result (session_step cfg onRecv e s) (session_steps cfg onRecv es)"

section \<open>What the peer is answered\<close>

definition frame_bytes :: "byte \<times> byte list \<Rightarrow> byte list" where
  "frame_bytes f = wire_frame True (fst f) None (snd f)"

text \<open>The frames a message is answered with.\<close>

definition answers :: "(byte list \<Rightarrow> (bool \<times> byte list) list) \<Rightarrow> byte \<times> fragment list \<Rightarrow> (byte \<times> byte list) list" where
  "answers onRecv m =
     (if fst m = 1 \<or> fst m = 2 then map (\<lambda>(binary, data). (if binary then 2 else 1, data)) (onRecv (concat (map snd (snd m))))
      else if fst m = 9 then [(0xa, [])] else [])"

text \<open>The messages read, in order, and events of the application itself.\<close>

definition reads_of :: "session_event list \<Rightarrow> byte list list" where
  "reads_of es = concat (map (\<lambda>e. case e of ReadReturns now data \<Rightarrow> [data] | _ \<Rightarrow> []) es)"

definition by_peer :: "session_event \<Rightarrow> bool" where
  "by_peer e = (case e of UserSend b d \<Rightarrow> False | UserClose \<Rightarrow> False | _ \<Rightarrow> True)"

text \<open>Between two reads of whole messages the parser holds nothing.\<close>

definition idle_parser :: "WebSocketParser \<Rightarrow> bool" where
  "idle_parser p \<longleftrightarrow> p = parser_init \<or> p = \<lparr>buffer = [], completeFrames = [], frames = [empty_frame], newFrame = False\<rparr>"

lemma Parse_loop_begin: "Parse_loop (begin_frame p) = Parse_loop p"
  by (subst (1 2) Parse_loop_step) (simp add: DoParse_eq begin_begin buffer_begin)

lemma Parse_idle:
  assumes "idle_parser p" "fragments_ok op fs" "fs \<noteq> []"
  shows "Parse (wire_message op fs) p =
    Inr (True, \<lparr>buffer = [], completeFrames = [message_frame op fs], frames = [empty_frame], newFrame = False\<rparr>)"
proof -
  have "Parse_loop (feed (wire_message op fs) p) = Parse_loop (feed (wire_message op fs) parser_init)"
    using assms(1) Parse_loop_begin [of "feed (wire_message op fs) parser_init"]
    by (auto simp: idle_parser_def feed_def parser_init_def begin_frame_def)
  then show ?thesis using Parse_messages [of "[(op, fs)]"] assms(2,3) by (simp add: Parse_def)
qed

lemma wire_message_nonempty: "fs \<noteq> [] \<Longrightarrow> wire_message op fs \<noteq> []"
  by (cases "(op, fs)" rule: wire_message.cases) (auto simp: wire_frame_def Let_def)

text \<open>What one message read leads to.\<close>

definition message_actions :: "byte \<times> fragment list \<Rightarrow> ws_action list" where
  "message_actions m = (if fst m = 1 \<or> fst m = 2 then [OnRecv (concat (map snd (snd m)))]
     else if fst m = 9 then [PongTask] else if fst m = 0xa then [] else [OnCloseCb, CloseSocket])"

lemma read_round_message:
  assumes "idle_parser p" "fragments_ok op fs" "fs \<noteq> []"
  shows "\<exists>p'. idle_parser p' \<and> read_round (wire_message op fs) p =
    Inr (message_actions (op, fs), CloseSocket \<notin> set (message_actions (op, fs)), p')"
proof -
  have "fin (message_frame op fs)" "opcode (message_frame op fs) = op" "payload (message_frame op fs) = concat (map snd fs)"
    by (simp_all add: message_frame_def)
  then have "handle_frame (message_frame op fs) = Inr (message_actions (op, fs))"
    by (simp add: handle_frame_def message_actions_def)
  then show ?thesis
    using wire_message_nonempty [OF assms(3), of op]
    unfolding read_round_def Parse_idle [OF assms]
    by (intro exI [of _ "\<lparr>buffer = [], completeFrames = [], frames = [empty_frame], newFrame = False\<rparr>"])
       (simp add: HasFrame_def TakeFrame_def idle_parser_def)
qed

section \<open>The invariant\<close>

text \<open>Every frame sent or spawned, pings apart, is an answer to the messages \<open>ms\<close> read so far, in order.\<close>

definition data_frames :: "(byte \<times> byte list) list \<Rightarrow> (byte \<times> byte list) list" where
  "data_frames = filter (\<lambda>f. fst f \<noteq> 9)"

definition session_inv ::
    "(byte list \<Rightarrow> (bool \<times> byte list) list) \<Rightarrow> (byte \<times> fragment list) list \<Rightarrow> ws_session \<Rightarrow> bool" where
  "session_inv onRecv ms s \<longleftrightarrow> write_inv (ss_io s) \<and> accepted (ss_io s) = concat (map frame_bytes (ss_sent s)) \<and>
     (\<forall>f \<in> set (ss_sent s @ map snd (ss_spawned s)). fst f = 9 \<longrightarrow> snd f = []) \<and>
     (connected (ss_io s) \<longrightarrow> ss_reading s \<and> idle_parser (ss_parser s)
        \<and> data_frames (ss_sent s @ map snd (ss_spawned s)) = concat (map (answers onRecv) ms))"

lemma data_frames_simps [simp]:
  "data_frames (xs @ ys) = data_frames xs @ data_frames ys" "data_frames [] = []"
  "data_frames (f # fs) = (if fst f = 9 then data_frames fs else f # data_frames fs)"
  by (simp_all add: data_frames_def)

lemma session_inv_start: "session_inv onRecv [] (DoRead_start now)"
  by (simp add: session_inv_def DoRead_start_def write_inv_open idle_parser_def) (simp add: ws_open_def)

lemma frame_task_accepted:
  assumes "frame_task c op body w = Inr w'"
  shows "accepted w' = accepted w @ frame_bytes (op, body)" "connected w' \<Longrightarrow> connected w"
  using assms
  by (auto simp: frame_task_eq Let_def frame_bytes_def DoWrite_def DoWrite_turn_def DoWrite_end_def split: if_splits)

lemma write_step_accepted:
  "accepted (write_done w) = accepted w" "accepted (write_failed k w) = accepted w"
  "connected (write_done w) \<Longrightarrow> connected w" "\<not> connected (write_failed k w)"
  by (auto simp: write_done_def write_failed_def DoWrite_turn_def DoWrite_end_def WebSocket_OnError_def Let_def split: if_splits)

lemma write_inv_close: "write_inv w \<Longrightarrow> write_inv (w\<lparr>connected := False\<rparr>)"
  and write_inv_closeCalls: "write_inv (w\<lparr>closeCalls := n\<rparr>) = write_inv w"
  by (auto simp: write_inv_def)

text \<open>The loop of the pings changes neither the buffers nor the reader.\<close>

lemma session_inv_ping [simp]: "session_inv onRecv ms (ping_loop cfg now s) = session_inv onRecv ms s"
  "session_inv onRecv ms (s\<lparr>ss_ping := p\<rparr>) = session_inv onRecv ms s"
  by (simp_all add: session_inv_def ping_loop_def)

lemma session_inv_read_loop: "session_inv onRecv ms s \<Longrightarrow> session_inv onRecv ms (read_loop cfg now s)"
  by (auto simp: session_inv_def read_loop_def on_io_def WebSocket_OnError_def write_inv_def)

lemma session_inv_dropped:
  "session_inv onRecv ms s \<Longrightarrow> session_inv onRecv ms' (on_io (\<lambda>w. w\<lparr>connected := False\<rparr>) s)"
  by (simp add: session_inv_def on_io_def write_inv_close)

lemma fold_Session_Send:
  "fold Session_Send ds s = (if connected (ss_io s)
     then s\<lparr>ss_spawned := ss_spawned s @ map (\<lambda>(b, d). (False, if b then 2 else 1, d)) ds\<rparr> else s)"
  by (induction ds arbitrary: s) (auto simp: Session_Send_def spawn_frame_def)

lemma session_inv_task:
  assumes "session_inv onRecv ms s"
  shows "\<exists>s'. task_runs s = Inr s' \<and> session_inv onRecv ms s'"
proof (cases "ss_spawned s")
  case Nil
  then show ?thesis using assms by (simp add: task_runs_def)
next
  case (Cons t rest)
  obtain c op body where t: "t = (c, op, body)" by (cases t)
  obtain w where w: "frame_task c op body (ss_io s) = Inr w" "write_inv w"
    using write_inv_frame_task [where s = "ss_io s" and c = c and op = op and body = body] assms by (auto simp: session_inv_def)
  then show ?thesis
    using assms frame_task_accepted [OF w(1)] by (auto simp: task_runs_def Cons t session_inv_def)
qed

lemma session_inv_ping_fires:
  assumes "session_inv onRecv ms s"
  shows "\<exists>s'. ping_fires cfg now s = Inr s' \<and> session_inv onRecv ms s'"
proof -
  obtain w where w: "frame_task False 0x9 [] (ss_io s) = Inr w" "write_inv w"
    using write_inv_frame_task [where s = "ss_io s" and c = False and op = 9 and body = "[]"] assms by (auto simp: session_inv_def)
  have "session_inv onRecv ms (s\<lparr>ss_io := w, ss_lastPingTime := now, ss_sent := ss_sent s @ [(0x9, [])]\<rparr>)"
    using assms frame_task_accepted [OF w(1)] w(2) by (auto simp: session_inv_def)
  then show ?thesis using w(1) assms by (auto simp: ping_fires_def Let_def split: ping_state.splits)
qed

lemma session_inv_writer:
  assumes "session_inv onRecv ms s"
    and "\<And>w. accepted (step w) = accepted w" "\<And>w. connected (step w) \<Longrightarrow> connected w"
    and "\<And>w. write_inv w \<Longrightarrow> isWriting w \<Longrightarrow> write_inv (step w)"
  shows "session_inv onRecv ms (writer_step cfg now step s)"
proof -
  have "session_inv onRecv ms (on_io step s)" if "isWriting (ss_io s)"
    using assms(1) assms(2-3) [of "ss_io s"] assms(4) [OF _ that] by (auto simp: session_inv_def on_io_def)
  then show ?thesis using assms(1) by (auto simp: writer_step_def Let_def)
qed

lemma write_inv_writes:
  assumes "write_inv w" "isWriting w" shows "write_inv (write_done w)" "write_inv (write_failed k w)"
  using write_inv_step [OF assms(1), of WriteDone] write_inv_step [OF assms(1), of "WriteFailed k"] assms(2) by simp_all

lemma session_inv_read:
  assumes inv: "session_inv onRecv ms s" and m: "fragments_ok op fs" "fs \<noteq> []"
  shows "\<exists>s'. read_returns cfg onRecv now (wire_message op fs) s = Inr s' \<and> session_inv onRecv (ms @ [(op, fs)]) s'"
proof (cases "ss_reading s \<and> connected (ss_io s)")
  case False
  then show ?thesis using inv
    by (auto simp: read_returns_def session_inv_def read_round_def on_io_def write_inv_close)
next
  case True
  then obtain p' where p': "idle_parser p'" "read_round (wire_message op fs) (ss_parser s) =
      Inr (message_actions (op, fs), CloseSocket \<notin> set (message_actions (op, fs)), p')"
    using read_round_message [of "ss_parser s", OF _ m] inv by (auto simp: session_inv_def)
  let ?s0 = "s\<lparr>ss_parser := p'\<rparr>"
  let ?s1 = "fold (read_action onRecv) (message_actions (op, fs)) ?s0"
  have s0: "session_inv onRecv ms ?s0" using inv p'(1) by (simp add: session_inv_def)
  have s1: "session_inv onRecv (ms @ [(op, fs)]) ?s1"
  proof (cases "CloseSocket \<in> set (message_actions (op, fs))")
    case close: True
    have "message_actions (op, fs) = [OnCloseCb, CloseSocket]" using close by (auto simp: message_actions_def split: if_splits)
    then show ?thesis using s0 by (simp add: session_inv_def on_io_def write_inv_close write_inv_closeCalls)
  next
    case no: False
    then consider "op = 1 \<or> op = 2" | "op = 9" | "op = 0xa" by (auto simp: message_actions_def split: if_splits)
    then show ?thesis
    proof cases
      case 1
      have "data_frames (map (snd \<circ> (\<lambda>(b, d). (False, if b then 2 else 1, d))) ds)
          = map (\<lambda>(b, d). (if b then 2 else 1, d)) ds" for ds :: "(bool \<times> byte list) list"
        by (induction ds) (auto split: if_splits)
      then show ?thesis using 1 s0 True
        by (auto simp: message_actions_def answers_def fold_Session_Send session_inv_def split: if_splits)
    qed (use s0 True in \<open>simp_all add: message_actions_def answers_def Session_SendPong_def spawn_frame_def session_inv_def\<close>)
  qed
  have "session_inv onRecv (ms @ [(op, fs)]) (?s1\<lparr>ss_reading := False\<rparr>)" if "CloseSocket \<in> set (message_actions (op, fs))"
  proof -
    have "message_actions (op, fs) = [OnCloseCb, CloseSocket]" using that by (auto simp: message_actions_def split: if_splits)
    then show ?thesis using s1 by (simp add: session_inv_def on_io_def)
  qed
  then show ?thesis using True p'(2) s1 session_inv_read_loop [OF s1] by (auto simp: read_returns_def Let_def)
qed

lemma session_inv_step:
  assumes "session_inv onRecv ms s" "by_peer e" "reads_of [e] = []"
  shows "\<exists>s'. session_step cfg onRecv e s = Inr s' \<and> session_inv onRecv ms s'"
proof (cases e)
  case (Wrote now)
  have "session_inv onRecv ms (writer_step cfg now write_done s)"
    by (rule session_inv_writer [OF assms(1)]) (simp_all add: write_step_accepted write_inv_writes)
  then show ?thesis using Wrote by simp
next
  case (WriteBreaks now k)
  have "session_inv onRecv ms (writer_step cfg now (write_failed k) s)"
    by (rule session_inv_writer [OF assms(1)]) (simp_all add: write_step_accepted write_inv_writes)
  then show ?thesis using WriteBreaks by simp
qed (use assms session_inv_task session_inv_ping_fires in \<open>simp_all add: by_peer_def reads_of_def\<close>)

lemma session_inv_steps:
  assumes "session_inv onRecv ms0 s" "\<forall>e \<in> set es. by_peer e" "\<forall>(op, fs) \<in> set ms. fragments_ok op fs \<and> fs \<noteq> []"
    and "reads_of es = map (\<lambda>(op, fs). wire_message op fs) ms"
  shows "\<exists>s'. session_steps cfg onRecv es s = Inr s' \<and> session_inv onRecv (ms0 @ ms) s'"
  using assms
proof (induction es arbitrary: ms0 ms s)
  case Nil
  then show ?case by (simp add: reads_of_def)
next
  case (Cons e es)
  show ?case
  proof (cases "reads_of [e] = []")
    case True
    then obtain s1 where "session_step cfg onRecv e s = Inr s1" "session_inv onRecv ms0 s1"
      using session_inv_step [OF Cons.prems(1), of e cfg] Cons.prems(2) by auto
    then show ?thesis using Cons True by (simp add: reads_of_def)
  next
    case False
    then obtain now data where e: "e = ReadReturns now data" by (cases e) (simp_all add: reads_of_def)
    then obtain op fs ms' where ms: "ms = (op, fs) # ms'" "data = wire_message op fs"
        "reads_of es = map (\<lambda>(op, fs). wire_message op fs) ms'"
      using Cons.prems(4) by (cases ms) (auto simp: reads_of_def)
    then obtain s1 where "session_step cfg onRecv e s = Inr s1" "session_inv onRecv (ms0 @ [(op, fs)]) s1"
      using session_inv_read [OF Cons.prems(1), of op fs cfg now] Cons.prems(3) e by auto
    then show ?thesis using Cons.IH [of "ms0 @ [(op, fs)]" s1 ms'] Cons.prems ms by simp
  qed
qed

text \<open>The peer's parser reads the frames that were sent.\<close>

lemma parse_frames:
  assumes "\<forall>f \<in> set fs. wire_ok (fst f) None (snd f)" "cs \<noteq> []" "concat cs = concat (map frame_bytes fs)"
  shows "\<exists>p. parse_chunks Parse cs parser_init = Inr (True, p) \<and> map (\<lambda>f. (opcode f, payload f)) (completeFrames p) = fs"
proof -
  let ?ms = "map (\<lambda>(op, body). (op, [(None, body)])) fs"
  have bytes: "concat (map (\<lambda>(op, fs). wire_message op fs) ?ms) = concat (map frame_bytes fs)"
    by (induction fs) (auto simp: frame_bytes_def)
  have frames: "map (\<lambda>f. (opcode f, payload f)) (map (\<lambda>(op, fs). message_frame op fs) ?ms) = fs"
    by (induction fs) (auto simp: message_frame_def)
  have ok: "\<forall>(op, fs) \<in> set ?ms. fragments_ok op fs \<and> fs \<noteq> []" using assms(1) by auto
  have "Parse (concat cs) parser_init = Inr (True, \<lparr>buffer = [],
      completeFrames = map (\<lambda>(op, fs). message_frame op fs) ?ms, frames = [empty_frame], newFrame = False\<rparr>)"
    using Parse_messages [OF ok] unfolding assms(3) bytes .
  then have "parse_chunks Parse cs parser_init = Inr (True, \<lparr>buffer = [],
      completeFrames = map (\<lambda>(op, fs). message_frame op fs) ?ms, frames = [empty_frame], newFrame = False\<rparr>)"
    using ws.chunks_concat [OF scratch_inv_init assms(2)] unfolding Parse_def [abs_def] by simp
  then show ?thesis using frames by auto
qed

lemma session_frames_ok:
  assumes "session_inv onRecv ms s" "connected (ss_io s)" "ss_spawned s = []"
    and "\<forall>m \<in> set ms. \<forall>a \<in> set (answers onRecv m). length (snd a) \<le> string_max_size"
  shows "\<forall>f \<in> set (ss_sent s). wire_ok (fst f) None (snd f)"
proof
  fix f assume f: "f \<in> set (ss_sent s)"
  show "wire_ok (fst f) None (snd f)"
  proof (cases "fst f = 9")
    case True
    then show ?thesis using assms(1) f by (auto simp: session_inv_def wire_ok_def reserved_opcode_def)
  next
    case False
    then have "f \<in> set (concat (map (answers onRecv) ms))"
      using assms(1-3) f by (auto simp: session_inv_def data_frames_def filter_set [symmetric] dest!: arg_cong [where f = set])
    then obtain m where m: "m \<in> set ms" "f \<in> set (answers onRecv m)" by auto
    then have "length (snd f) \<le> string_max_size" using assms(4) by blast
    then show ?thesis using m(2)
      by (auto simp: answers_def wire_ok_def reserved_opcode_def word_le_nat_alt split: if_splits)
  qed
qed

text \<open>What the peer reads of a session that has nothing left to do.\<close>

lemma session_wire_answers:
  assumes "session_inv onRecv ms s" "\<forall>m \<in> set ms. \<forall>a \<in> set (answers onRecv m). length (snd a) \<le> string_max_size"
    and on: "connected (ss_io s)" "ss_spawned s = []" "\<not> isWriting (ss_io s)" and cs: "cs \<noteq> []" "concat cs = wire (ss_io s)"
  shows "\<exists>p. parse_chunks Parse cs parser_init = Inr (True, p)
    \<and> filter (\<lambda>f. fst f \<noteq> 9) (map (\<lambda>f. (opcode f, payload f)) (completeFrames p)) = concat (map (answers onRecv) ms)"
proof -
  have "wire (ss_io s) = concat (map frame_bytes (ss_sent s))"
    using assms(1) on by (auto simp: session_inv_def write_inv_def)
  then obtain p where p: "parse_chunks Parse cs parser_init = Inr (True, p)"
      "map (\<lambda>f. (opcode f, payload f)) (completeFrames p) = ss_sent s"
    using parse_frames [OF session_frames_ok [OF assms(1) on(1,2) assms(2)] cs(1)] cs(2) by auto
  show ?thesis using p(1) assms(1) on unfolding p(2) [symmetric]
    by (intro exI [of _ p]) (simp add: session_inv_def data_frames_def p(2) [symmetric])
qed

section \<open>Properties\<close>


definition echo :: "byte list \<Rightarrow> (bool \<times> byte list) list" where
  "echo d = [(False, d)]"

definition demo_ws_config :: ws_config where
  "demo_ws_config = \<lparr>ping_second = 10, pingpong_timeout_second = 10\<rparr>"

definition demo_events :: "session_event list" where
  "demo_events = [PingStarts 0, ReadReturns 5 (wire_message 1 [(Some [1, 2, 3, 4], [72, 105])]), TaskRuns,
     ReadReturns 6 (wire_message 9 [(None, [])]), Wrote 7, TaskRuns, Wrote 8]"

lemma demo_messages_ok: "fragments_ok 1 [(Some [1, 2, 3, 4], [72, 105])]" "fragments_ok 9 [(None, [])]"
  by (simp_all add: wire_ok_def reserved_opcode_def string_max_size_def word_le_nat_alt)

lemma demo_session:
  "\<exists>s. session_steps demo_ws_config echo demo_events (DoRead_start 0) = Inr s
     \<and> connected (ss_io s) \<and> ss_spawned s = [] \<and> \<not> isWriting (ss_io s)"
proof -
  let ?m = "(1, [(Some [1, 2, 3, 4], [72, 105])]) :: byte \<times> fragment list" and ?n = "(9, [(None, [])]) :: byte \<times> fragment list"
  obtain p1 where p1: "idle_parser p1" "read_round (wire_message (fst ?m) (snd ?m)) parser_init =
      Inr (message_actions ?m, CloseSocket \<notin> set (message_actions ?m), p1)"
    using read_round_message [OF _ demo_messages_ok(1), of parser_init] by (auto simp: idle_parser_def)
  obtain p2 where p2: "read_round (wire_message (fst ?n) (snd ?n)) p1 =
      Inr (message_actions ?n, CloseSocket \<notin> set (message_actions ?n), p2)"
    using read_round_message [OF p1(1) demo_messages_ok(2)] by auto
  note [simp del] = wire_message.simps fragments_ok.simps
  show ?thesis using p1(2) p2
    by (simp add: demo_events_def DoRead_start_def ws_open_def ping_loop_def read_returns_def message_actions_def echo_def
        Session_Send_def Session_SendPong_def spawn_frame_def read_loop_def task_runs_def frame_task_eq Let_def DoWrite_def
        DoWrite_turn_def DoWrite_end_def writer_step_def on_io_def write_done_def seconds_def demo_ws_config_def)
qed

lemma demo_reads: "\<forall>e \<in> set demo_events. by_peer e"
  "reads_of demo_events = map (\<lambda>(op, fs). wire_message op fs) [(1, [(Some [1, 2, 3, 4], [72, 105])]), (9, [(None, [])])]"
  by (simp_all add: demo_events_def by_peer_def reads_of_def del: wire_message.simps)


text \<open>A pong carries nothing, whatever the ping did.\<close>

lemma pong_drops_payload: "answers onRecv (9, [(k, body)]) = [(0xa, [])]"
  by (simp add: answers_def)

text \<open>The time compared with the timeout is that of the last ping sent: right after a ping no silence of the peer,
  however long, ends the session, and a silent peer is never noticed while the read waits.\<close>

lemma pong_never_checked:
  assumes "ss_lastPingTime s = now" "0 \<le> pingpong_timeout_second cfg" "connected (ss_io s)"
  shows "read_loop cfg now s = s"
  using assms by (simp add: read_loop_def seconds_def)

end
