(* ===== verification/HelloDemo.thy ===== *)
theory HelloDemo
  imports ServletContext WebSocketSession
begin

text \<open>
  The first programs of \<open>examples/http\<close> and \<open>examples/ssl/HttpsServer.cpp\<close>: a few servlets with a redirect and a forward
  (\<open>example1.cpp\<close>), static files (\<open>example3.cpp\<close>), and WebSocket servers that echo or greet (\<open>example4.cpp\<close>, \<open>HttpsServer.cpp\<close>).

  \<^item> A program is the configuration that its \<open>main\<close> makes of a server, and its answer to any request.
  \<^item> The page of \<open>example4.cpp\<close> and the file system are parameters.
  \<^item> A servlet forwards inside the context that dispatched to it: \<open>hello_forward\<close> has fuel, and two levels are enough, since
    the servlet that is forwarded to does not forward.
\<close>

section \<open>Servlets, a redirect and a forward\<close>

definition hello_text :: string where
  "hello_text = ''<h1>Hello World</h1>''"

definition page_handle :: "string \<Rightarrow> ('v, 'c) exchange servlet_fun" where
  "page_handle content x = (case x of (rq, resp, c) \<Rightarrow>
     bind_result (SetBody body_related (TextB content) resp) (\<lambda>resp'. Inr (rq, resp', c)))"

definition hello1_handle :: "('v, 'c) exchange servlet_fun" where
  "hello1_handle x = (case x of (rq, resp, c) \<Rightarrow> Inr (rq, SendRedirect ''/hello'' resp, c))"

definition hello_routes :: "(string \<Rightarrow> ('v, 'c) exchange servlet_fun) \<Rightarrow>
    (('v, 'c) exchange filter_fun, ('v, 'c) exchange servlet_fun) route_op list" where
  "hello_routes fwd = [AddS ''/hello'' (page_handle hello_text), AddS ''/hello1'' hello1_handle, AddS ''/hello2'' (fwd ''/hello'')]"

definition routes_router :: "('f, 's) route_op list \<Rightarrow> ('f, 's) Router" where
  "routes_router ops = (case add_routes ops Router_init of Inr r \<Rightarrow> r | Inl e \<Rightarrow> Router_init)"

fun hello_forward :: "nat \<Rightarrow> string \<Rightarrow> ('v, 'c) exchange servlet_fun" where
  "hello_forward 0 url x = Inl Abort"
| "hello_forward (Suc n) url x = ForwardTo (routes_router (hello_routes (hello_forward n))) DefaultHttpServlet_Handle url x"

definition hello_main :: "(string \<Rightarrow> ('v, 'c) exchange servlet_fun) \<Rightarrow> ('v, 'c) server_state \<Rightarrow> ('v, 'c) server_state result" where
  "hello_main fwd s =
     bind_result (Server_AddHandler ''/hello'' (Some (page_handle hello_text)) s) (\<lambda>s.
     bind_result (Server_AddHandler ''/hello1'' (Some hello1_handle) s) (\<lambda>s.
       Server_AddHandler ''/hello2'' (Some (fwd ''/hello'')) s))"

definition new_server :: "('v, 'c) HttpServer" where
  "new_server = \<lparr>hs_router = Router_init, hs_defaultServlet = DefaultHttpServlet_Handle, hs_errorPages = Map.empty,
     hs_defaultErrorPage = defaultErrorPage, hs_limits = default_limits, hs_webSocket = False\<rparr>"

section \<open>Static files\<close>

definition file_handle :: "filesystem \<Rightarrow> string \<Rightarrow> ('v, 'c) exchange servlet_fun" where
  "file_handle fs root x = (case x of (rq, resp, c) \<Rightarrow> (case StaticFileBody_new fs (hq_url rq) root resp of (body, resp1) \<Rightarrow>
     bind_result (SetBody body_related (FileB body) resp1) (\<lambda>resp'. Inr (rq, resp', c))))"

definition files_main :: "filesystem \<Rightarrow> ('v, 'c) server_state \<Rightarrow> ('v, 'c) server_state result" where
  "files_main fs s = SetDefaultServlet (file_handle fs ''.'') s"

section \<open>WebSocket servers\<close>

definition echo_page_handle :: "string \<Rightarrow> ('v, 'c) exchange servlet_fun" where
  "echo_page_handle page x = (case x of (rq, resp, c) \<Rightarrow> page_handle page (rq, SetStatus 200 resp, c))"

definition echo_page_main :: "string \<Rightarrow> ('v, 'c) server_state \<Rightarrow> ('v, 'c) server_state result" where
  "echo_page_main page s = bind_result (Server_AddHandler ''/index.html'' (Some (echo_page_handle page)) s) (SetWebSocketServer True)"

text \<open>What \<open>OnRecv\<close> sends for a payload; \<open>Send\<close> without its third argument sends text.\<close>

definition echo_OnRecv :: "byte list \<Rightarrow> (bool \<times> byte list) list" where
  "echo_OnRecv data = [(False, data)]"

definition hello_OnRecv :: "byte list \<Rightarrow> (bool \<times> byte list) list" where
  "hello_OnRecv data = [(False, map (of_char :: char \<Rightarrow> byte) ''hello websocket'')]"

section \<open>Lemmas\<close>

lemma hello_parts:
  "parts_of ''/hello'' = [''hello'']" "parts_of ''/hello1'' = [''hello1'']" "parts_of ''/hello2'' = [''hello2'']"
  "parts_of ''/index.html'' = [''index.html'']" "parts_of ''/'' = []"
  by code_simp+

lemma hello_keys:
  "''hello'' < ''hello1''" "''hello'' < ''hello2''" "''hello1'' < ''hello2''"
  "\<not> ''hello1'' < ''hello''" "\<not> ''hello2'' < ''hello''" "\<not> ''hello2'' < ''hello1''"
  by code_simp+

lemma hello_main_ok:
  "hello_main fwd (False, new_server) = Inr (False, new_server\<lparr>hs_router := routes_router (hello_routes fwd)\<rparr>)"
  by (simp add: hello_main_def setters_before_start new_server_def routes_router_def hello_routes_def add_routes_total Router_init_def)

lemma files_main_ok: "files_main fs (False, new_server) = Inr (False, new_server\<lparr>hs_defaultServlet := file_handle fs ''.''\<rparr>)"
  by (simp add: files_main_def setters_before_start)

lemma echo_page_main_ok:
  "echo_page_main page (False, new_server) = Inr (False, new_server\<lparr>hs_router := routes_router [AddS ''/index.html'' (echo_page_handle page)],
     hs_webSocket := True\<rparr>)"
  by (simp add: echo_page_main_def setters_before_start new_server_def routes_router_def add_routes_total Router_init_def)

text \<open>Dispatching to routes of one part and no filter.\<close>

definition one_part :: "(string \<times> 's) list \<Rightarrow> string list \<Rightarrow> 's option" where
  "one_part table ps = (case ps of [p] \<Rightarrow> map_of table p | _ \<Rightarrow> None)"

lemma dispatch_one_part:
  assumes "servletRouterRoot r = RouteNode (map (\<lambda>(p, h). (p, RouteNode [] (Some h))) table) None"
    and "filterRouterRoot r = RouteNode [] []" and "wildcard \<notin> fst ` set table"
  shows "DoDispathcer r url x = run_route [] (one_part table (parts_of url)) x"
proof -
  have get: "smap_get (map (\<lambda>(p, h). (p, RouteNode [] (Some h))) table) p
      = map_option (\<lambda>h. RouteNode [] (Some h)) (map_of table p)" for p
    by (induction table) (auto simp: smap_get_def)
  have "map_of table wildcard = None" using assms(3) by (simp add: map_of_eq_None_iff)
  then have "match_parts ps (servletRouterRoot r) = one_part table ps" for ps
    by (cases ps; cases "tl ps") (auto simp: assms(1) get one_part_def split: option.splits)
  moreover have "chain_parts ps (filterRouterRoot r) = []" for ps
    by (cases ps) (auto simp: assms(2))
  ultimately show ?thesis
    by (simp add: DoDispathcer_def MatchFilters_def MatchServlet_def MatchChain_def TryMatch_def Split_parts)
qed

lemma hello_router_eq:
  "routes_router (hello_routes fwd) = \<lparr>servletRouterRoot = RouteNode (map (\<lambda>(p, h). (p, RouteNode [] (Some h)))
       [(''hello'', page_handle hello_text), (''hello1'', hello1_handle), (''hello2'', fwd ''/hello'')]) None,
     filterRouterRoot = RouteNode [] []\<rparr>"
  by (simp add: routes_router_def hello_routes_def add_routes_total Router_init_def hello_parts hello_keys)

lemma echo_page_router_eq:
  "routes_router [AddS ''/index.html'' h] = \<lparr>servletRouterRoot = RouteNode (map (\<lambda>(p, h). (p, RouteNode [] (Some h)))
       [(''index.html'', h)]) None, filterRouterRoot = RouteNode [] []\<rparr>"
  by (simp add: routes_router_def add_routes_total Router_init_def hello_parts)

lemma hello_dispatch:
  "DoDispathcer (routes_router (hello_routes fwd)) url x = run_route []
     (one_part [(''hello'', page_handle hello_text), (''hello1'', hello1_handle), (''hello2'', fwd ''/hello'')] (parts_of url)) x"
  by (rule dispatch_one_part) (simp_all add: hello_router_eq wildcard_def)

lemma echo_page_dispatch:
  "DoDispathcer (routes_router [AddS ''/index.html'' h]) url x = run_route [] (one_part [(''index.html'', h)] (parts_of url)) x"
  by (rule dispatch_one_part) (simp_all add: echo_page_router_eq wildcard_def)

lemma no_route_dispatch: "DoDispathcer Router_init url x = Inr (False, x)"
  using dispatch_one_part [of Router_init "[]" url x]
  by (simp add: Router_init_def one_part_def run_route_def split: list.split)

lemma page_handle_ok:
  "\<exists>resp'. page_handle text1 (rq, resp, c) = Inr (rq, resp', c) \<and> rs_status resp' = rs_status resp \<and> rs_body resp' = Some (TextB text1)"
  by (simp add: page_handle_def SetBody_def Text_SetRelatedHeaders_def)

section \<open>Properties\<close>

text \<open>The site of \<open>example1\<close> answers every request, whatever it carries: \<open>/hello\<close> with the greeting, \<open>/hello2\<close>, which forwards to it,
  with the same, \<open>/hello1\<close> with a redirect to it, and anything else with 404.\<close>

theorem hello_site_answers:
  "\<exists>resp. make_response (new_server\<lparr>hs_router := routes_router (hello_routes (hello_forward (Suc n)))\<rparr> :: ('v, 'c) HttpServer) raw c = Inr (resp, c)
     \<and> (let ps = parts_of (hq_url (DecodeUrlAndBody raw :: 'v HttpRequest)) in
        if ps = [''hello''] \<or> ps = [''hello2''] then rs_status resp = 200 \<and> rs_body resp = Some (TextB hello_text)
        else if ps = [''hello1''] then rs_status resp = 302 \<and> smap_get (rs_headers resp) ''Location'' = Some ''/hello''
        else rs_status resp = 404)"
proof -
  define rq where "rq = (DecodeUrlAndBody raw :: 'v HttpRequest)"
  define resp0 where "resp0 = SetVersion (rq_version raw) (SetCloseConnection (\<not> Request_IsKeepAlive rq) (response_init :: Body HttpResponse))"
  let ?r = "routes_router (hello_routes (hello_forward (Suc n))) :: ('v, 'c) exchange router"
  have st: "rs_status resp0 = 200" by (simp add: resp0_def SetVersion_def SetCloseConnection_def response_init_def)
  obtain page where page: "page_handle hello_text (rq, resp0, c) = Inr (rq, page, c)" "rs_status page = 200" "rs_body page = Some (TextB hello_text)"
    using page_handle_ok [of hello_text rq resp0 c] st by auto
  have h: "one_part [(''hello'', page_handle hello_text), (''hello1'', hello1_handle), (''hello2'', fwd ''/hello'')] ps
      = (if ps = [''hello''] then Some (page_handle hello_text) else if ps = [''hello1''] then Some hello1_handle
         else if ps = [''hello2''] then Some (fwd ''/hello'') else None)" for ps and fwd :: "string \<Rightarrow> ('v, 'c) exchange servlet_fun"
    by (cases ps; cases "tl ps") (auto simp: one_part_def)
  have fwd: "hello_forward (Suc n) ''/hello'' (rq, resp0, c) = Inr (rq, page, c)"
    by (simp add: ForwardTo_def hello_dispatch h hello_parts run_route_def page(1))
  have make: "make_response (new_server\<lparr>hs_router := ?r\<rparr>) raw c = bind_result (ForwardTo ?r DefaultHttpServlet_Handle (hq_url rq) (rq, resp0, c))
      (\<lambda>(_, resp', c'). Inr (resp', c'))"
    by (simp add: make_response_def Let_def new_server_def rq_def resp0_def)
  consider "parts_of (hq_url rq) = [''hello''] \<or> parts_of (hq_url rq) = [''hello2'']" | "parts_of (hq_url rq) = [''hello1'']"
    | "parts_of (hq_url rq) \<notin> {[''hello''], [''hello1''], [''hello2'']}" by blast
  then show ?thesis
  proof cases
    case 1
    then have "ForwardTo ?r DefaultHttpServlet_Handle (hq_url rq) (rq, resp0, c) = Inr (rq, page, c)"
      using page(1) fwd by (auto simp: ForwardTo_def hello_dispatch h run_route_def simp del: hello_forward.simps)
    then show ?thesis using 1 page make by (auto simp: rq_def [symmetric])
  next
    case 2
    then have "ForwardTo ?r DefaultHttpServlet_Handle (hq_url rq) (rq, resp0, c) = Inr (rq, SendRedirect ''/hello'' resp0, c)"
      by (simp add: ForwardTo_def hello_dispatch h run_route_def hello1_handle_def)
    then show ?thesis using 2 make by (simp add: rq_def [symmetric] SendRedirect_def SetEntry_def smap_get_set)
  next
    case 3
    then have "ForwardTo ?r DefaultHttpServlet_Handle (hq_url rq) (rq, resp0, c) = Inr (rq, SetStatus 404 resp0, c)"
      by (simp add: ForwardTo_def hello_dispatch h run_route_def hello_parts DefaultHttpServlet_Handle_def)
    then show ?thesis using 3 make by (simp add: rq_def [symmetric] SetStatus_def)
  qed
qed

text \<open>The site of \<open>example4\<close> shows its page at the root and at \<open>/index.html\<close>, and nothing else.\<close>

theorem echo_page_shown:
  "\<exists>resp. make_response (new_server\<lparr>hs_router := routes_router [AddS ''/index.html'' (echo_page_handle page)], hs_webSocket := True\<rparr>
       :: ('v, 'c) HttpServer) raw c = Inr (resp, c)
     \<and> (let url = hq_url (DecodeUrlAndBody raw :: 'v HttpRequest) in
        if url = ''/'' \<or> parts_of url = [''index.html''] then rs_status resp = 200 \<and> rs_body resp = Some (TextB page)
        else rs_status resp = 404)"
proof -
  define rq where "rq = (DecodeUrlAndBody raw :: 'v HttpRequest)"
  define resp0 where "resp0 = SetVersion (rq_version raw) (SetCloseConnection (\<not> Request_IsKeepAlive rq) (response_init :: Body HttpResponse))"
  let ?r = "routes_router [AddS ''/index.html'' (echo_page_handle page)] :: ('v, 'c) exchange router"
  obtain shown where shown: "echo_page_handle page (rq, resp0, c) = Inr (rq, shown, c)" "rs_status shown = 200" "rs_body shown = Some (TextB page)"
    using page_handle_ok [of page rq "SetStatus 200 resp0" c] by (auto simp: echo_page_handle_def SetStatus_def)
  have make: "make_response (new_server\<lparr>hs_router := ?r, hs_webSocket := True\<rparr>) raw c
      = bind_result (ForwardTo ?r DefaultHttpServlet_Handle (hq_url rq) (rq, resp0, c)) (\<lambda>(_, resp', c'). Inr (resp', c'))"
    by (simp add: make_response_def Let_def new_server_def rq_def resp0_def)
  have h: "one_part [(''index.html'', k)] ps = (if ps = [''index.html''] then Some k else None)" for ps and k :: "('v, 'c) exchange servlet_fun"
    by (cases ps; cases "tl ps") (auto simp: one_part_def)
  have "ForwardTo ?r DefaultHttpServlet_Handle (hq_url rq) (rq, resp0, c)
      = (if hq_url rq = ''/'' \<or> parts_of (hq_url rq) = [''index.html''] then Inr (rq, shown, c) else Inr (rq, SetStatus 404 resp0, c))"
    using shown(1) by (auto simp: ForwardTo_def echo_page_dispatch h run_route_def hello_parts DefaultHttpServlet_Handle_def)
  then show ?thesis using make shown by (simp add: rq_def [symmetric] SetStatus_def)
qed

text \<open>The site of \<open>example3\<close> sends the readable files below its directory: a request for one, by a path with a dot but
  without two in a row, gets it, and a request for a path with two dots in a row or of no file gets 404.\<close>

theorem file_site_answers:
  assumes "url = hq_url (DecodeUrlAndBody raw :: 'v HttpRequest)" "path = (if url = ''/'' then ''/index.html'' else url)"
    and "srv = (new_server\<lparr>hs_defaultServlet := file_handle fs ''.''\<rparr> :: ('v, 'c) HttpServer)"
  shows "(fs (''.'' @ path) = Some f \<and> fi_regular f \<and> fi_others_read f \<and> fi_size f = Some n \<and> fi_open f = Some content
       \<and> first_occurrence ''..'' url = None \<and> CHR ''.'' \<in> set path \<longrightarrow>
       (\<exists>resp b. make_response srv raw c = Inr (resp, c) \<and> rs_status resp = 200 \<and> rs_body resp = Some (FileB b) \<and> sf_fd b = Some content))
     \<and> (first_occurrence ''..'' url \<noteq> None \<or> fs (''.'' @ path) = None \<longrightarrow>
       (\<exists>resp. make_response srv raw c = Inr (resp, c) \<and> rs_status resp = 404))"
proof -
  define rq where "rq = (DecodeUrlAndBody raw :: 'v HttpRequest)"
  define resp0 where "resp0 = SetVersion (rq_version raw) (SetCloseConnection (\<not> Request_IsKeepAlive rq) (response_init :: Body HttpResponse))"
  have make: "make_response srv raw c = bind_result (file_handle fs ''.'' (rq, resp0, c)) (\<lambda>(_, resp', c'). Inr (resp', c'))"
    by (simp add: make_response_def Let_def assms(3) new_server_def rq_def resp0_def ForwardTo_def no_route_dispatch)
  have st: "rs_status resp0 = 200" by (simp add: resp0_def SetVersion_def SetCloseConnection_def response_init_def)
  have url: "hq_url rq = url" by (simp add: rq_def assms(1))
  have "\<exists>resp b. make_response srv raw c = Inr (resp, c) \<and> rs_status resp = 200 \<and> rs_body resp = Some (FileB b) \<and> sf_fd b = Some content"
    if f: "fs (''.'' @ path) = Some f" "fi_regular f" "fi_others_read f" "fi_size f = Some n" "fi_open f = Some content"
      "first_occurrence ''..'' url = None" "CHR ''.'' \<in> set path"
  proof -
    let ?b = "\<lparr>sf_path = path, sf_docRoot = ''.'', sf_fd = Some content, sf_size = n\<rparr>"
    have "StaticFileBody_new fs url ''.'' resp0 = (?b, resp0)"
      using f by (simp add: StaticFileBody_new_def Let_def str_find_def assms(2) [symmetric])
    moreover have "\<exists>h. body_related (FileB ?b) (rs_headers resp0) = Inr h"
    proof -
      obtain p where p: "str_rfind path (CHR ''.'') = Some p" using str_rfind_None [of path "CHR ''.''"] f(7) by auto
      then have "\<not> length path < p" using str_rfind_Some_lt [OF p] by simp
      then show ?thesis using p by (simp add: File_SetRelatedHeaders_def str_substr_from_def)
    qed
    ultimately show ?thesis using st by (auto simp: make file_handle_def url SetBody_def simp del: body_related.simps)
  qed
  moreover have "\<exists>resp. make_response srv raw c = Inr (resp, c) \<and> rs_status resp = 404"
    if f: "first_occurrence ''..'' url \<noteq> None \<or> fs (''.'' @ path) = None"
  proof -
    have "\<exists>b. StaticFileBody_new fs url ''.'' resp0 = (b, SetStatus 404 resp0) \<and> sf_fd b = None"
      using f by (auto simp: StaticFileBody_new_def Let_def str_find_def assms(2) [symmetric])
    then show ?thesis by (auto simp: make file_handle_def url SetBody_def File_SetRelatedHeaders_def SetStatus_def)
  qed
  ultimately show ?thesis by blast
qed

definition example_answers :: "(byte list \<Rightarrow> byte list) \<Rightarrow> (byte \<times> fragment list) list \<Rightarrow> (byte \<times> byte list) list" where
  "example_answers f ms = map (\<lambda>(op, fs). if op = 9 then (0xa, []) else (1, f (concat (map snd fs)))) ms"

lemma example_answers_eq:
  assumes "\<forall>m \<in> set ms. fst m \<in> {1, 2, 9}"
  shows "concat (map (answers (\<lambda>d. [(False, f d)])) ms) = example_answers f ms"
  using assms by (induction ms) (auto simp: answers_def example_answers_def)

text \<open>The two WebSocket servers: whatever whole text or binary messages and pings the peer sends, and however the connection's coroutines
  interleave, the peer reads, besides pings, for each message in order its own bytes from the echo server and the greeting from the
  other, as text in both cases, and an empty pong for each ping.\<close>

theorem websocket_examples_answer:
  assumes "\<forall>(op, fs) \<in> set ms. op \<in> {1, 2, 9} \<and> fragments_ok op fs \<and> fs \<noteq> [] \<and> length (concat (map snd fs)) \<le> string_max_size"
    and "\<forall>e \<in> set es. by_peer e" "reads_of es = map (\<lambda>(op, fs). wire_message op fs) ms"
    and "(app, f) \<in> {(echo_OnRecv, \<lambda>d. d), (hello_OnRecv, \<lambda>d. map of_char ''hello websocket'')}"
  shows "\<exists>s. session_steps cfg app es (DoRead_start now) = Inr s \<and>
    (connected (ss_io s) \<and> ss_spawned s = [] \<and> \<not> isWriting (ss_io s) \<longrightarrow>
      (\<exists>p. parse_chunks Parse [wire (ss_io s)] parser_init = Inr (True, p)
         \<and> filter (\<lambda>f. fst f \<noteq> 9) (map (\<lambda>f. (opcode f, payload f)) (completeFrames p)) = example_answers f ms))"
proof -
  have app: "app = (\<lambda>d. [(False, f d)])" using assms(4) by (auto simp: echo_OnRecv_def hello_OnRecv_def fun_eq_iff)
  have ms: "\<forall>(op, fs) \<in> set ms. fragments_ok op fs \<and> fs \<noteq> []" "\<forall>m \<in> set ms. fst m \<in> {1, 2, 9}" using assms(1) by auto
  have len: "\<forall>m \<in> set ms. \<forall>a \<in> set (answers app m). length (snd a) \<le> string_max_size"
  proof (intro ballI)
    fix m a assume m: "m \<in> set ms" and a: "a \<in> set (answers app m)"
    have "length (concat (map snd (snd m))) \<le> string_max_size" using assms(1) m by auto
    then show "length (snd a) \<le> string_max_size"
      using a assms(4) by (auto simp: answers_def echo_OnRecv_def hello_OnRecv_def string_max_size_def split: if_splits)
  qed
  obtain s where s: "session_steps cfg app es (DoRead_start now) = Inr s" "session_inv app ([] @ ms) s"
    using session_inv_steps [OF session_inv_start assms(2) ms(1) assms(3)] by blast
  then show ?thesis
    using session_wire_answers [OF _ len, of s "[wire (ss_io s)]"] example_answers_eq [OF ms(2), of f] by (auto simp: app)
qed

text \<open>A binary message comes back as text, which RFC 6455 requires to be UTF-8.\<close>

lemma echo_binary_as_text: "answers echo_OnRecv (2, [(k, body)]) = [(1, body)]"
  by (simp add: answers_def echo_OnRecv_def)

end
