(* ===== verification/EchoRpc.thy ===== *)
theory EchoRpc
  imports RpcChannel Crypto
begin

text \<open>
  \<open>examples/rpc/echo\<close>: a service of one method and a client that calls it for each line of the terminal, over the channel of
  \<open>RpcChannel.thy\<close>.

  \<^item> protobuf is a parameter: \<open>ser\<close> and \<open>parse\<close> for the frame's message, \<open>serE\<close> and \<open>parseE\<close> for \<open>EchoRequest\<close> and
    \<open>EchoResponse\<close>, both a single field of bytes. \<open>parseE\<close> gives \<open>None\<close> when it fails.
  \<^item> The network is the function \<open>chop\<close>: how the bytes of a frame are divided into the reads of the other side.
  \<^item> A read of the terminal is its bytes, none at its end or on an error, and whether the connection was still open when it came:
    both channels close it when no frame comes for ten seconds. Writes are complete.
\<close>

section \<open>The service\<close>

text \<open>\<open>DoEcho\<close>: the data of the response and the line that is logged.\<close>

definition EchoService_DoEcho :: "byte list \<Rightarrow> byte list \<times> string" where
  "EchoService_DoEcho data = (data, ''Call method DoEcho :'' @ map byte_char data)"

definition echo_method :: "(byte list \<Rightarrow> byte list option) \<Rightarrow> (byte list \<Rightarrow> byte list) \<Rightarrow> byte list \<Rightarrow> call_result" where
  "echo_method parseE serE payload = (case parseE payload of
       None \<Rightarrow> BadPayload | Some data \<Rightarrow> Answers (Some (serE (fst (EchoService_DoEcho data)))))"

definition echo_services :: "(byte list \<Rightarrow> byte list option) \<Rightarrow> (byte list \<Rightarrow> byte list) \<Rightarrow> string \<rightharpoonup> service" where
  "echo_services parseE serE = AddService ''Echo.EchoService'' [''DoEcho'' \<mapsto> echo_method parseE serE] Map.empty"

section \<open>The client\<close>

record echo_session =
  es_client :: "(unit, unit) RpcClient"
  es_counter :: "64 word"
  es_ccodec :: RpcCodec
  es_scodec :: RpcCodec
  es_printed :: "byte list list"
  es_stopped :: bool

definition echo_session_init :: echo_session where
  "echo_session_init = \<lparr>es_client = \<lparr>outstandings = Map.empty, completed = []\<rparr>, es_counter = 0,
     es_ccodec = codec_init, es_scodec = codec_init, es_printed = [], es_stopped = False\<rparr>"

text \<open>A frame sent with one codec and read with the other, the read buffers and write buffers apart.\<close>

definition transfer :: "(RpcMessage \<Rightarrow> byte list) \<Rightarrow> (byte list \<Rightarrow> byte list list) \<Rightarrow> RpcMessage \<Rightarrow>
    RpcCodec \<Rightarrow> RpcCodec \<Rightarrow> (byte list list \<times> RpcCodec \<times> RpcCodec) result" where
  "transfer ser chop m from_codec to_codec = (let from_codec' = WriteMessageToBuffer ser m from_codec in
     bind_result (read_messages (chop (writeBuf from_codec')) to_codec) (\<lambda>(got, to_codec'). Inr (got, from_codec', to_codec')))"

fun transfer_all :: "(RpcMessage \<Rightarrow> byte list) \<Rightarrow> (byte list \<Rightarrow> byte list list) \<Rightarrow> RpcMessage list \<Rightarrow>
    RpcCodec \<Rightarrow> RpcCodec \<Rightarrow> (byte list list \<times> RpcCodec \<times> RpcCodec) result" where
  "transfer_all ser chop [] a b = Inr ([], a, b)"
| "transfer_all ser chop (m # ms) a b = bind_result (transfer ser chop m a b) (\<lambda>(got, a1, b1).
     bind_result (transfer_all ser chop ms a1 b1) (\<lambda>(got', a2, b2). Inr (got @ got', a2, b2)))"

text \<open>\<open>StubCall\<close>, until the network is silent: the call, the server's side and the client's \<open>DoRpc\<close>. The payload with which the
  call was completed is \<open>None\<close> when it was not.\<close>

definition echo_call :: "(byte list \<Rightarrow> bool \<times> RpcMessage) \<Rightarrow> (RpcMessage \<Rightarrow> byte list) \<Rightarrow> (string \<rightharpoonup> service) \<Rightarrow>
    (byte list \<Rightarrow> byte list list) \<Rightarrow> byte list \<Rightarrow> echo_session \<Rightarrow> (byte list option \<times> echo_session) result" where
  "echo_call parse ser services chop payload s =
     (case CallMethod 0 ''Echo.EchoService'' ''DoEcho'' payload () () (es_counter s) (es_client s) of (req, counter', c1) \<Rightarrow>
        bind_result (transfer ser chop req (es_ccodec s) (es_scodec s)) (\<lambda>(asked, cc1, sc1).
        bind_result (transfer_all ser chop (concat (map (DoServerRpc parse services) asked)) sc1 cc1) (\<lambda>(answers, sc2, cc2).
        let c2 = fold (DoClientRpc parse) answers c1;
            new = drop (length (completed (es_client s))) (completed c2)
        in Inr (if new = [] then None else Some (snd (snd (last new))),
                s\<lparr>es_client := c2, es_counter := counter', es_ccodec := cc2, es_scodec := sc2\<rparr>))))"

text \<open>The data of the response is empty unless the payload of the reply was parsed.\<close>

definition response_data :: "(byte list \<Rightarrow> byte list option) \<Rightarrow> byte list \<Rightarrow> byte list" where
  "response_data parseE payload = (case parseE payload of None \<Rightarrow> [] | Some data \<Rightarrow> data)"

fun DoEchoRpc :: "(byte list \<Rightarrow> bool \<times> RpcMessage) \<Rightarrow> (RpcMessage \<Rightarrow> byte list) \<Rightarrow> (byte list \<Rightarrow> byte list option) \<Rightarrow>
    (byte list \<Rightarrow> byte list) \<Rightarrow> (byte list \<Rightarrow> byte list list) \<Rightarrow> (bool \<times> byte list) list \<Rightarrow> echo_session \<Rightarrow> echo_session result" where
  "DoEchoRpc parse ser parseE serE chop [] s = Inr s"
| "DoEchoRpc parse ser parseE serE chop ((open_still, buf) # bufs) s =
     (if buf = [] \<or> map byte_char (butlast buf) = ''quit'' then Inr (s\<lparr>es_stopped := True\<rparr>)
      else if Stub_await_resume False open_still \<noteq> StubOk then Inr (s\<lparr>es_stopped := True\<rparr>)
      else bind_result (echo_call parse ser (echo_services parseE serE) chop (serE (butlast buf)) s) (\<lambda>(ret, s1).
        case ret of None \<Rightarrow> Inr s1
        | Some payload \<Rightarrow> DoEchoRpc parse ser parseE serE chop bufs
            (s1\<lparr>es_printed := es_printed s1 @ [response_data parseE payload]\<rparr>)))"

section \<open>Lemmas\<close>

text \<open>One frame alone arrives however it is divided.\<close>

lemma receive_one:
  assumes "sendable m" "strict_prefix buf (rpc_frame m)" "buf @ concat chunks = rpc_frame m"
  shows "receive take_frame chunks buf = ([m], [])"
  using assms(2,3)
proof (induction chunks arbitrary: buf)
  case Nil
  then show ?case by (simp add: strict_prefix_def)
next
  case (Cons chunk chunks)
  show ?case
  proof (cases "buf @ chunk = rpc_frame m")
    case True
    have "length (rpc_frame m) < 2 ^ 64" using assms(1) by (simp add: sendable_def length_frame)
    then have tk: "take_frame (buf @ chunk) = Some (m, [])" using rpc.tk_enc [of m "[]"] assms(1) True by simp
    have "concat chunks = []" using Cons.prems(2) True by (metis append.assoc append_self_conv concat.simps(2))
    then have "receive take_frame chunks [] = ([], [])" by (induction chunks) (simp_all add: rpc.tk_nothing)
    then show ?thesis using tk by simp
  next
    case False
    have "strict_prefix (buf @ chunk) (rpc_frame m)"
      using False Cons.prems(2) by (metis append.assoc concat.simps(2) prefixI strict_prefix_def)
    then show ?thesis
      using rpc.tk_part [OF assms(1)] Cons.IH [of "buf @ chunk"] Cons.prems(2) by simp
  qed
qed

lemma transfer_one:
  assumes "sendable (ser m)" "\<forall>f. concat (chop f) = f" "readBuf b = []"
  shows "transfer ser chop m a b = Inr ([ser m], WriteMessageToBuffer ser m a, b)"
proof -
  let ?f = "rpc_frame (ser m)"
  have len: "length ?f < 2 ^ 64" using assms(1) by (simp add: sendable_def length_frame)
  have "strict_prefix [] ?f" by (simp add: rpc_frame_def strict_prefix_def length_0_conv [symmetric] del: length_0_conv)
  then have "receive take_frame (chop ?f) [] = ([ser m], [])" using receive_one [of "ser m" "[]" "chop ?f"] assms(1,2) by simp
  then have "read_messages (chop ?f) b = Inr ([ser m], b)"
    using read_messages_receive [of "[ser m]" b "chop ?f"] assms len by (cases b) simp
  then show ?thesis by (simp add: transfer_def WriteMessageToBuffer_def)
qed

definition request_message :: "byte list \<Rightarrow> 64 word \<Rightarrow> RpcMessage" where
  "request_message payload i = default_message\<lparr>rm_id := i, rm_service := ''Echo.EchoService'', rm_method := ''DoEcho'', rm_payload := payload\<rparr>"

text \<open>What is relied on of protobuf and of the network for a line.\<close>

definition echo_line_ok :: "(byte list \<Rightarrow> bool \<times> RpcMessage) \<Rightarrow> (RpcMessage \<Rightarrow> byte list) \<Rightarrow> (byte list \<Rightarrow> byte list option) \<Rightarrow>
    (byte list \<Rightarrow> byte list) \<Rightarrow> byte list \<Rightarrow> bool" where
  "echo_line_ok parse ser parseE serE t \<longleftrightarrow> parseE (serE t) = Some t
     \<and> (\<forall>i. \<forall>m \<in> {request_message (serE t) i, response_message (Some (serE t)) i}. parse (ser m) = (True, m) \<and> sendable (ser m))"

text \<open>Between two calls nothing is outstanding and the read buffers are empty.\<close>

definition echo_idle :: "echo_session \<Rightarrow> bool" where
  "echo_idle s \<longleftrightarrow> outstandings (es_client s) = Map.empty \<and> readBuf (es_ccodec s) = [] \<and> readBuf (es_scodec s) = []"

lemma echo_server_answers:
  assumes "echo_line_ok parse ser parseE serE t"
  shows "DoServerRpc parse (echo_services parseE serE) (ser (request_message (serE t) i)) = [response_message (Some (serE t)) i]"
  using assms
  by (simp add: DoServerRpc_def echo_line_ok_def echo_services_def AddService_def echo_method_def EchoService_DoEcho_def
      request_message_def default_message_def)

lemma echo_client_completes:
  assumes "echo_line_ok parse ser parseE serE t" "outstandings c = Map.empty"
  shows "DoClientRpc parse (ser (response_message (Some (serE t)) i)) (c\<lparr>outstandings := [i \<mapsto> call]\<rparr>)
     = c\<lparr>completed := completed c @ [(oc_done call, oc_response call, serE t)]\<rparr>"
  using assms
  by (cases c) (simp add: DoClientRpc_def echo_line_ok_def response_message_def default_message_def)

lemma echo_call_answered:
  assumes ok: "echo_line_ok parse ser parseE serE t" and chop: "\<forall>f. concat (chop f) = f" and idle: "echo_idle s"
  shows "\<exists>s'. echo_call parse ser (echo_services parseE serE) chop (serE t) s = Inr (Some (serE t), s')
     \<and> echo_idle s' \<and> es_printed s' = es_printed s \<and> es_counter s' = es_counter s + 1"
proof -
  let ?i = "es_counter s + 1"
  let ?req = "request_message (serE t) ?i" and ?rep = "response_message (Some (serE t)) ?i"
  have call: "CallMethod 0 ''Echo.EchoService'' ''DoEcho'' (serE t) () () (es_counter s) (es_client s)
      = (?req, ?i, (es_client s)\<lparr>outstandings := [?i \<mapsto> \<lparr>oc_response = (), oc_done = ()\<rparr>]\<rparr>)"
    using idle by (simp add: CallMethod_def echo_idle_def request_message_def Let_def)
  have send: "sendable (ser ?req)" "sendable (ser ?rep)" using ok by (simp_all add: echo_line_ok_def)
  have tr1: "transfer ser chop ?req (es_ccodec s) (es_scodec s)
      = Inr ([ser ?req], WriteMessageToBuffer ser ?req (es_ccodec s), es_scodec s)"
    using transfer_one [of ser ?req chop "es_scodec s"] send chop idle by (simp add: echo_idle_def)
  have tr2: "transfer ser chop ?rep (es_scodec s) (WriteMessageToBuffer ser ?req (es_ccodec s))
      = Inr ([ser ?rep], WriteMessageToBuffer ser ?rep (es_scodec s), WriteMessageToBuffer ser ?req (es_ccodec s))"
    using transfer_one [of ser ?rep chop "WriteMessageToBuffer ser ?req (es_ccodec s)"] send chop idle
    by (simp add: echo_idle_def WriteMessageToBuffer_def)
  have "echo_call parse ser (echo_services parseE serE) chop (serE t) s = Inr (Some (serE t),
      s\<lparr>es_client := (es_client s)\<lparr>completed := completed (es_client s) @ [((), (), serE t)]\<rparr>, es_counter := ?i,
        es_ccodec := WriteMessageToBuffer ser ?req (es_ccodec s), es_scodec := WriteMessageToBuffer ser ?rep (es_scodec s)\<rparr>)"
    using idle
    by (simp add: echo_call_def call tr1 tr2 echo_server_answers [OF ok] echo_client_completes [OF ok] Let_def echo_idle_def)
  then show ?thesis using idle by (simp add: echo_idle_def WriteMessageToBuffer_def)
qed

lemma DoEchoRpc_line:
  assumes ok: "echo_line_ok parse ser parseE serE t" and chop: "\<forall>f. concat (chop f) = f" and idle: "echo_idle s"
    and t: "map byte_char t \<noteq> ''quit''"
  shows "\<exists>s'. DoEchoRpc parse ser parseE serE chop ((True, t @ [10]) # bufs) s = DoEchoRpc parse ser parseE serE chop bufs s'
     \<and> echo_idle s' \<and> es_printed s' = es_printed s @ [t] \<and> es_counter s' = es_counter s + 1"
proof -
  obtain s1 where s1: "echo_call parse ser (echo_services parseE serE) chop (serE t) s = Inr (Some (serE t), s1)"
    "echo_idle s1" "es_printed s1 = es_printed s" "es_counter s1 = es_counter s + 1"
    using echo_call_answered [OF ok chop idle] by blast
  have "response_data parseE (serE t) = t" using ok by (simp add: echo_line_ok_def response_data_def)
  then show ?thesis
    using s1 t by (intro exI [of _ "s1\<lparr>es_printed := es_printed s @ [t]\<rparr>"]) (simp add: echo_idle_def Stub_await_resume_def)
qed

lemma DoEchoRpc_lines:
  assumes "\<forall>t \<in> set texts. echo_line_ok parse ser parseE serE t \<and> map byte_char t \<noteq> ''quit''" "\<forall>f. concat (chop f) = f"
    and "echo_idle s"
  shows "\<exists>s'. DoEchoRpc parse ser parseE serE chop (map (\<lambda>t. (True, t @ [10])) texts @ bufs) s = DoEchoRpc parse ser parseE serE chop bufs s'
     \<and> echo_idle s' \<and> es_printed s' = es_printed s @ texts \<and> es_counter s' = es_counter s + of_nat (length texts)"
  using assms(1,3)
proof (induction texts arbitrary: s)
  case Nil
  then show ?case by auto
next
  case (Cons t texts)
  have t: "echo_line_ok parse ser parseE serE t" "map byte_char t \<noteq> ''quit''" using Cons.prems(1) by simp_all
  obtain s1 where s1: "DoEchoRpc parse ser parseE serE chop ((True, t @ [10]) # map (\<lambda>t. (True, t @ [10])) texts @ bufs) s
      = DoEchoRpc parse ser parseE serE chop (map (\<lambda>t. (True, t @ [10])) texts @ bufs) s1"
    "echo_idle s1" "es_printed s1 = es_printed s @ [t]" "es_counter s1 = es_counter s + 1"
    using DoEchoRpc_line [OF t(1) assms(2) Cons.prems(2) t(2)] by blast
  have "\<forall>t \<in> set texts. echo_line_ok parse ser parseE serE t \<and> map byte_char t \<noteq> ''quit''" using Cons.prems(1) by simp
  then obtain s' where s': "DoEchoRpc parse ser parseE serE chop (map (\<lambda>t. (True, t @ [10])) texts @ bufs) s1
      = DoEchoRpc parse ser parseE serE chop bufs s'"
    "echo_idle s'" "es_printed s' = es_printed s1 @ texts" "es_counter s' = es_counter s1 + of_nat (length texts)"
    using Cons.IH [OF _ s1(2)] by blast
  show ?case using s1(3,4) s'(2-4) by (intro exI [of _ s']) (simp del: DoEchoRpc.simps add: s1(1) s'(1))
qed

section \<open>Properties\<close>

text \<open>C28: The echo client prints what was typed: for any lines none of which is \<open>quit\<close>, the client calls the service once for each, the ids
  going up by one, prints for each exactly its text, empty lines included, and at \<open>quit\<close>, at the end of the input, or at a line that comes
  when the connection has been closed for idleness, stops with no call outstanding, however the network divides the frames.\<close>

theorem echo_rpc_prints_lines:
  assumes "\<forall>t \<in> set texts. echo_line_ok parse ser parseE serE t \<and> map byte_char t \<noteq> ''quit''"
    and "\<forall>f. concat (chop f) = f" and "over = [] \<or> map byte_char (butlast over) = ''quit'' \<or> \<not> open_still"
  shows "\<exists>s'. DoEchoRpc parse ser parseE serE chop (map (\<lambda>t. (True, t @ [10])) texts @ (open_still, over) # rest) echo_session_init = Inr s'
     \<and> es_printed s' = texts \<and> es_stopped s' \<and> outstandings (es_client s') = Map.empty
     \<and> es_counter s' = of_nat (length texts)"
proof -
  have idle: "echo_idle echo_session_init" by (simp add: echo_idle_def echo_session_init_def codec_init_def)
  show ?thesis
    using DoEchoRpc_lines [OF assms(1,2) idle, of "(open_still, over) # rest"] assms(3)
    by (auto simp: echo_idle_def echo_session_init_def Stub_await_resume_def)
qed

text \<open>A concrete format: the id, whether it is a request, and the payload.\<close>

definition plain_ser :: "RpcMessage \<Rightarrow> byte list" where
  "plain_ser m = store_le 8 (rm_id m) @ (if rm_service m = [] then 0 else 1) # rm_payload m"

definition plain_parse :: "byte list \<Rightarrow> bool \<times> RpcMessage" where
  "plain_parse bs = (True, if hd (drop 8 bs) = 0 then response_message (Some (drop 9 bs)) (load_le (take 8 bs))
     else request_message (drop 9 bs) (load_le (take 8 bs)))"

lemma plain_line_ok:
  assumes "length t < 1000"
  shows "echo_line_ok plain_parse plain_ser Some (\<lambda>d. d) t"
  using assms
  by (simp add: echo_line_ok_def plain_parse_def plain_ser_def request_message_def response_message_def default_message_def sendable_def load_store_le)

theorem echo_rpc_prints_lines_witness:
  "\<exists>s'. DoEchoRpc plain_parse plain_ser Some (\<lambda>d. d) (map (\<lambda>b. [b])) [(True, [104, 105, 10]), (True, [10]), (True, [113, 117, 105, 116, 10])] echo_session_init = Inr s'
     \<and> es_printed s' = [[104, 105], []] \<and> es_stopped s'"
proof -
  have "map byte_char [113, 117, 105, 116] = ''quit''" by code_simp
  then show ?thesis
    using echo_rpc_prints_lines [of "[[104, 105], []]" plain_parse plain_ser Some "\<lambda>d. d" "map (\<lambda>b. [b])" "[113, 117, 105, 116, 10]" True "[]"]
    by (auto simp: plain_line_ok concat_map_singleton simp del: DoEchoRpc.simps)
qed

text \<open>Ten seconds without a call close the connection; the next line is dropped and the client ends without a word.\<close>

lemma idle_client_stops:
  "DoEchoRpc parse ser parseE serE chop ((False, buf) # bufs) s = Inr (s\<lparr>es_stopped := True\<rparr>)"
  by (simp add: Stub_await_resume_def)

end
