(* ===== verification/TimerTests.thy ===== *)
theory TimerTests
  imports Timer
begin

text \<open>
  The tests of the timers that come with the program, \<open>test/time/TimerTest.cpp\<close>, run on the model of \<open>TimerQueue\<close> and \<open>Timer\<close>. Each
  test is a program: the operations it makes on its timers, and what each of its tasks does when the queue releases it.

  \<^item> \<open>serve\<close> is the loop of \<open>IoService::Start\<close> with timers only: a round of \<open>HandleTimeout\<close>, the released tasks one after the other, and a
    wait of exactly the time that \<open>HandleTimeout\<close> returned. It has fuel for the rounds; every test stops its service before it ends.
  \<^item> The clock starts at \<open>start\<close>. What a test prints is kept with the time, but for the texts that print a time themselves.
  \<^item> A task that must not run ends the program (\<open>FATAL\<close>, \<open>assert(false)\<close>).
\<close>

section \<open>Programs with timers\<close>

record timer_run =
  tr_timers :: "nat Timer list"
  tr_queue :: "nat TimerQueue"
  tr_printed :: "(int \<times> string) list"
  tr_count :: nat
  tr_running :: bool

definition start :: int where
  "start = 1700000000000000000"

definition ms :: "int \<Rightarrow> int" where
  "ms n = n * 1000000"

text \<open>\<open>n\<close> timers are constructed.\<close>

definition timers_new :: "nat \<Rightarrow> timer_run" where
  "timers_new n = \<lparr>tr_timers = map (\<lambda>i. fst (Timer_new i)) [0..<n], tr_queue = empty_queue, tr_printed = [], tr_count = 0, tr_running = True\<rparr>"

definition expires_at :: "nat \<Rightarrow> int \<Rightarrow> timer_run \<Rightarrow> timer_run result" where
  "expires_at i time s = bind_result (Timer_ExpiresAt time (tr_timers s ! i) (tr_queue s)) (\<lambda>(timer, q).
     Inr (s\<lparr>tr_timers := (tr_timers s)[i := timer], tr_queue := q\<rparr>))"

definition async_wait :: "nat \<Rightarrow> nat \<Rightarrow> timer_run \<Rightarrow> timer_run result" where
  "async_wait i co s = (case Timer_AsyncWait co (tr_timers s ! i) (tr_queue s) of (timer, q) \<Rightarrow>
     Inr (s\<lparr>tr_timers := (tr_timers s)[i := timer], tr_queue := q\<rparr>))"

definition cancel :: "nat \<Rightarrow> timer_run \<Rightarrow> timer_run result" where
  "cancel i s = bind_result (Timer_Cancel (tr_timers s ! i) (tr_queue s)) (\<lambda>q. Inr (s\<lparr>tr_queue := q\<rparr>))"

definition move_assign :: "nat \<Rightarrow> nat \<Rightarrow> timer_run \<Rightarrow> timer_run result" where
  "move_assign i j s = bind_result (Timer_assign (tr_timers s ! i) (tr_timers s ! j) (tr_queue s)) (\<lambda>(this, other, q).
     Inr (s\<lparr>tr_timers := (tr_timers s)[i := this, j := other], tr_queue := q\<rparr>))"

definition prints :: "int \<Rightarrow> string \<Rightarrow> timer_run \<Rightarrow> timer_run result" where
  "prints now text1 s = Inr (s\<lparr>tr_printed := tr_printed s @ [((now - start) div 1000000, text1)]\<rparr>)"

definition stop_service :: "timer_run \<Rightarrow> timer_run result" where
  "stop_service s = Inr (s\<lparr>tr_running := False\<rparr>)"

fun then_do :: "(timer_run \<Rightarrow> timer_run result) list \<Rightarrow> timer_run \<Rightarrow> timer_run result" where
  "then_do [] s = Inr s"
| "then_do (f # fs) s = bind_result (f s) (then_do fs)"

fun run_released :: "(nat \<Rightarrow> int \<Rightarrow> timer_run \<Rightarrow> timer_run result) \<Rightarrow> int \<Rightarrow> nat option list \<Rightarrow> timer_run \<Rightarrow> timer_run result" where
  "run_released run now [] s = Inr s"
| "run_released run now (None # ts) s = Inl AssertFail"
| "run_released run now (Some t # ts) s = bind_result (run t now s) (run_released run now ts)"

fun serve :: "(nat \<Rightarrow> int \<Rightarrow> timer_run \<Rightarrow> timer_run result) \<Rightarrow> nat \<Rightarrow> int \<Rightarrow> timer_run \<Rightarrow> timer_run result" where
  "serve run 0 now s = Inr s"
| "serve run (Suc n) now s =
     (if \<not> tr_running s then Inr s
      else bind_result (HandleTimeout now (tr_queue s)) (\<lambda>(ts, waitTime, q).
        bind_result (run_released run now ts (s\<lparr>tr_queue := q\<rparr>)) (serve run n (now + ms waitTime))))"

text \<open>A test passes when it prints what is expected and its service has stopped.\<close>

definition passes :: "(int \<times> string) list \<Rightarrow> timer_run result \<Rightarrow> bool" where
  "passes expected r = (case r of Inl e \<Rightarrow> False | Inr s \<Rightarrow> tr_printed s = expected \<and> \<not> tr_running s)"

section \<open>The tests\<close>

definition basic_task :: "nat \<Rightarrow> int \<Rightarrow> timer_run \<Rightarrow> timer_run result" where
  "basic_task t now = then_do [stop_service, prints now ''Timer timeout Stop the IoService'']"

definition TestBasicTimerUsage :: "timer_run result" where
  "TestBasicTimerUsage = then_do [expires_at 0 (start + ms 200), async_wait 0 1, serve basic_task 9 start] (timers_new 1)"

definition repeat_task :: "nat \<Rightarrow> int \<Rightarrow> timer_run \<Rightarrow> timer_run result" where
  "repeat_task t now s =
     (let s1 = s\<lparr>tr_count := tr_count s + 1\<rparr> in
      bind_result (prints now (''SteadyTimer Timeout times: '' @ show_nat (tr_count s1)) s1)
        (if tr_count s1 = 5 then stop_service
         else then_do [expires_at 0 (t_expiry (tr_timers s1 ! 0) + ms 500), async_wait 0 1]))"

definition TestUseTimerRepeat :: "timer_run result" where
  "TestUseTimerRepeat = then_do [expires_at 0 (start + ms 500), async_wait 0 1, serve repeat_task 9 start] (timers_new 1)"

definition update_task :: "nat \<Rightarrow> int \<Rightarrow> timer_run \<Rightarrow> timer_run result" where
  "update_task t now =
     (if t = 0 then then_do [prints now ''0.Timer timeout'', expires_at 1 (start + ms 3000), expires_at 2 (start + ms 2000),
        expires_at 3 (start + ms 1000)]
      else if t = 1 then then_do [prints now ''1.Timer1 timeout'', stop_service]
      else if t = 2 then prints now ''2.Timer2 timeout'' else prints now ''3.Timer3 timeout'')"

definition TestUpdateExpiry :: "timer_run result" where
  "TestUpdateExpiry = then_do [expires_at 0 (start + ms 500), expires_at 1 (start + ms 1000), expires_at 2 (start + ms 2000),
     expires_at 3 (start + ms 3000), async_wait 0 0, async_wait 1 1, async_wait 2 2, async_wait 3 3, serve update_task 19 start] (timers_new 4)"

definition cancel_task :: "nat \<Rightarrow> int \<Rightarrow> timer_run \<Rightarrow> timer_run result" where
  "cancel_task t now =
     (if t = 1 \<or> t = 3 then (\<lambda>s. Inl Abort)
      else if t = 2 then then_do [prints now ''2.Timer2 timeout cancel Timer3'', cancel 2]
      else then_do [prints now ''4.Timer4 timeout Stop IoService'', stop_service])"

definition TestCancelTimer :: "timer_run result" where
  "TestCancelTimer = then_do [expires_at 0 (start + ms 500), expires_at 1 (start + ms 1000), expires_at 2 (start + ms 1500),
     expires_at 3 (start + ms 2000), async_wait 0 1, async_wait 1 2, async_wait 2 3, async_wait 3 4,
     prints start ''Cancel Timer1'', cancel 0, serve cancel_task 19 start] (timers_new 4)"

text \<open>\<open>co_await timer.AsyncWaitable(...)\<close>: the released task prints its line and resumes the coroutine, which goes on to its next wait.\<close>

definition waitable_resumes :: "nat \<Rightarrow> int \<Rightarrow> timer_run \<Rightarrow> timer_run result" where
  "waitable_resumes n now = then_do [prints now ([''1.co_await AsyncAwaitable void. wait 500ms'', ''2.co_await AsyncAwaitable int. wait 500ms'',
       ''3.co_await AsyncAwaitable unique_ptr<int>. wait 500ms'', ''4.co_await AsyncAwaitable string. wait 500ms''] ! n),
     expires_at 0 (now + ms 500), async_wait 0 n]"

definition waitable_task :: "nat \<Rightarrow> int \<Rightarrow> timer_run \<Rightarrow> timer_run result" where
  "waitable_task t now =
     (if t = 0 then then_do [prints now ''return type: void'', prints now ''1.AsyncAwaitable void complete.'', waitable_resumes 1 now]
      else if t = 1 then then_do [prints now ''Return type: int'', prints now ''2.AsyncAwaitable int complete. value = 100'', waitable_resumes 2 now]
      else if t = 2 then then_do [prints now ''Return type: std::unique_ptr<int>'',
        prints now ''3.AsyncAwaitable unique_ptr<int> complete. value = 200'', waitable_resumes 3 now]
      else then_do [prints now ''Return type: std::string'', prints now ''4.AsyncAwaitable string complete. value = Hello World'', stop_service])"

definition TestTimerAwaitable :: "timer_run result" where
  "TestTimerAwaitable = then_do [waitable_resumes 0 start, serve waitable_task 19 start] (timers_new 1)"

definition moved_task :: "nat \<Rightarrow> int \<Rightarrow> timer_run \<Rightarrow> timer_run result" where
  "moved_task t now = (if t = 0 then (\<lambda>s. Inl AssertFail) else then_do [prints now ''After Move'', stop_service])"

definition check_id_zero :: "nat \<Rightarrow> timer_run \<Rightarrow> timer_run result" where
  "check_id_zero i s = (if t_timerId (tr_timers s ! i) = 0 then Inr s else Inl AssertFail)"

text \<open>The parameter of the coroutine is the timer with index 2: it is constructed by a move.\<close>

definition move_construct :: "nat \<Rightarrow> timer_run \<Rightarrow> timer_run result" where
  "move_construct i s = (case Timer_move (tr_timers s ! i) of (new_timer, old) \<Rightarrow>
     Inr (s\<lparr>tr_timers := (tr_timers s)[i := old] @ [new_timer]\<rparr>))"

definition TestMoveTimer :: "timer_run result" where
  "TestMoveTimer = then_do [expires_at 0 (start + ms 10), async_wait 0 0, move_assign 0 1, check_id_zero 1, move_construct 0,
     check_id_zero 0, expires_at 2 (start + ms 1000), async_wait 2 1, serve moved_task 9 start] (timers_new 2)"

definition thread_task :: "nat \<Rightarrow> int \<Rightarrow> timer_run \<Rightarrow> timer_run result" where
  "thread_task t now = (if t = 1 then prints now ''1.Timer1 timeout'' else then_do [prints now ''2.Timer2 timeout'', stop_service])"

text \<open>The steps of the other thread, 0 and 1, and those of the main thread, 2 and 3, in the order of \<open>schedule\<close>.\<close>

definition thread_step :: "nat \<Rightarrow> timer_run \<Rightarrow> timer_run result" where
  "thread_step k = (if k = 0 then expires_at 0 (start + ms 1000) else if k = 1 then async_wait 0 1
     else if k = 2 then expires_at 1 (start + ms 2000) else async_wait 1 2)"

definition TestTimerInMultiThread :: "nat list \<Rightarrow> timer_run result" where
  "TestTimerInMultiThread schedule = then_do (map thread_step schedule @ [serve thread_task 9 start]) (timers_new 2)"

section \<open>The tests pass\<close>

lemma TestBasicTimerUsage_passes: "passes [(200, ''Timer timeout Stop the IoService'')] TestBasicTimerUsage"
  by code_simp

lemma TestUseTimerRepeat_passes:
  "passes (map (\<lambda>i. (500 * int i, ''SteadyTimer Timeout times: '' @ show_nat i)) [1, 2, 3, 4, 5]) TestUseTimerRepeat"
  by code_simp

lemma TestUpdateExpiry_passes:
  "passes [(500, ''0.Timer timeout''), (1000, ''3.Timer3 timeout''), (2000, ''2.Timer2 timeout''), (3000, ''1.Timer1 timeout'')] TestUpdateExpiry"
  by code_simp

lemma TestCancelTimer_passes:
  "passes [(0, ''Cancel Timer1''), (1000, ''2.Timer2 timeout cancel Timer3''), (2000, ''4.Timer4 timeout Stop IoService'')] TestCancelTimer"
  by code_simp

lemma TestTimerAwaitable_passes:
  "passes [(0, ''1.co_await AsyncAwaitable void. wait 500ms''), (500, ''return type: void''), (500, ''1.AsyncAwaitable void complete.''),
     (500, ''2.co_await AsyncAwaitable int. wait 500ms''), (1000, ''Return type: int''),
     (1000, ''2.AsyncAwaitable int complete. value = 100''), (1000, ''3.co_await AsyncAwaitable unique_ptr<int>. wait 500ms''),
     (1500, ''Return type: std::unique_ptr<int>''), (1500, ''3.AsyncAwaitable unique_ptr<int> complete. value = 200''),
     (1500, ''4.co_await AsyncAwaitable string. wait 500ms''), (2000, ''Return type: std::string''),
     (2000, ''4.AsyncAwaitable string complete. value = Hello World'')] TestTimerAwaitable"
  by code_simp

lemma TestMoveTimer_passes: "passes [(1000, ''After Move'')] TestMoveTimer"
  by code_simp

lemma TestTimerInMultiThread_passes:
  assumes "schedule \<in> shuffles [0, 1] [2, 3]"
  shows "passes [(1000, ''1.Timer1 timeout''), (2000, ''2.Timer2 timeout'')] (TestTimerInMultiThread schedule)"
proof -
  have "\<forall>p \<in> set [[0, 1, 2, 3], [0, 2, 1, 3], [0, 2, 3, 1], [2, 0, 1, 3], [2, 0, 3, 1], [2, 3, 0, 1]].
      passes [(1000, ''1.Timer1 timeout''), (2000, ''2.Timer2 timeout'')] (TestTimerInMultiThread p)"
    by code_simp
  moreover have "schedule \<in> set [[0, 1, 2, 3], [0, 2, 1, 3], [0, 2, 3, 1], [2, 0, 1, 3], [2, 0, 3, 1], [2, 3, 0, 1]]"
    using assms by (auto simp: shuffles.simps)
  ultimately show ?thesis by blast
qed

text \<open>Moving over an armed timer cancels it, and without that its task would run: a run that leaves the assignment out ends in the
  failed assertion.\<close>

lemma moved_timer_is_cancelled:
  "case then_do [expires_at 0 (start + ms 10), async_wait 0 0, serve moved_task 9 start] (timers_new 2) of Inl e \<Rightarrow> e = AssertFail | Inr s \<Rightarrow> False"
  by code_simp

end
