(* ===== verification/LibraryTests.thy ===== *)
theory LibraryTests
  imports Time LogFormatter IpAddress Options
begin

text \<open>
  Unit tests of the library that come with the program, made on the model: \<open>test/time/TimeTest.cpp\<close>, \<open>test/log/LogFormatterTest.cpp\<close>,
  \<open>test/net/IpAddressTest.cpp\<close>, \<open>test/net/SocketOptionsTest.cpp\<close>. A test case takes all its checks together.

  \<^item> What a test takes from its surroundings is an argument: the clock, the message, \<open>localtime_r\<close> and \<open>mktime\<close>, the text forms of addresses, the
    kernel's table of options. The tests pass for every value of it that is as the manual says.
  \<^item> The test case on the operators of \<open>Time\<close> is arithmetic of \<open>std::chrono\<close> only and is left out.
\<close>

section \<open>Time\<close>

text \<open>\<open>ToTimeT\<close> is \<open>TimeSinceEpochSeconds\<close>.\<close>

definition ToTimeT :: "int \<Rightarrow> int" where
  "ToTimeT time = TimeSinceEpochSeconds time"

definition test_time_default :: bool where
  "test_time_default \<longleftrightarrow> TimeSinceEpochSeconds 0 = 0 \<and> Dump gmtime 0 = ''1970-01-01 00:00:00.000''"

definition test_time_t :: bool where
  "test_time_t \<longleftrightarrow> ToTimeT (FromTimeT 100) = 100 \<and> ToTimeT (FromTimeT 0) = 0 \<and> ToTimeT 0 = 0"

definition same_date :: "TimeExploded \<Rightarrow> TimeExploded \<Rightarrow> bool" where
  "same_date ex ex1 \<longleftrightarrow> ex_year ex = ex_year ex1 \<and> ex_month ex = ex_month ex1 \<and> ex_day ex = ex_day ex1
     \<and> ex_hour ex = ex_hour ex1 \<and> ex_minute ex = ex_minute ex1 \<and> ex_second ex = ex_second ex1"

text \<open>The body that the UTC and the local test share; \<open>brk\<close> and \<open>mk\<close> as in \<open>Exploded\<close>.\<close>

definition test_explode :: "(int \<Rightarrow> tm) \<Rightarrow> (tm \<Rightarrow> int) \<Rightarrow> int \<Rightarrow> bool" where
  "test_explode brk mk t = (let tt = brk t; ex = Exploded brk (FromTimeT t) in
     ex_year ex = tm_year tt + 1900 \<and> ex_month ex = tm_mon tt + 1 \<and> ex_day ex = tm_mday tt
     \<and> ex_hour ex = tm_hour tt \<and> ex_minute ex = tm_min tt \<and> ex_second ex = tm_sec tt
     \<and> (case FromExploded mk ex of None \<Rightarrow> False | Some l \<Rightarrow> ToTimeT l = t))"

definition test_utc_explode :: "int \<Rightarrow> bool" where
  "test_utc_explode t = test_explode gmtime timegm t"

definition test_from_explode :: "(int \<Rightarrow> tm) \<Rightarrow> (tm \<Rightarrow> int) \<Rightarrow> int \<Rightarrow> string \<Rightarrow> int \<Rightarrow> int \<Rightarrow> bool" where
  "test_from_explode brk mk day text1 yday wday =
     (let ex = \<lparr>ex_year = 2023, ex_month = 11, ex_day = day, ex_dayOfWeek = 0, ex_dayInYear = 0, ex_hour = 11, ex_minute = 11,
                ex_second = 11, ex_millisecond = 0\<rparr>
      in case FromExploded mk ex of None \<Rightarrow> False | Some time \<Rightarrow> Dump brk time = text1 \<and>
           (let ex1 = Exploded brk time in same_date ex ex1 \<and> ex_dayInYear ex1 = yday \<and> ex_dayOfWeek ex1 = wday))"

definition test_from_utc_explode :: bool where
  "test_from_utc_explode = test_from_explode gmtime timegm 12 ''2023-11-12 11:11:11.000'' 316 7"

definition test_from_local_explode :: "(int \<Rightarrow> tm) \<Rightarrow> (tm \<Rightarrow> int) \<Rightarrow> bool" where
  "test_from_local_explode localtime mktime = test_from_explode localtime mktime 11 ''2023-11-11 11:11:11.000'' 315 6"

lemma test_time_passes: "test_time_default" "test_time_t" "test_from_utc_explode"
  by code_simp+

lemma ToTimeT_FromTimeT: "ToTimeT (FromTimeT t) = t"
  by (simp add: ToTimeT_def TimeSinceEpochSeconds_def FromTimeT_def tdiv_def abs_mult sgn_mult sgn_mult_abs kNanoSecondsPerSecond_def
      kMicrosecondsPerSecond_def kMillisecondsPerSecond_def)

lemma seconds_FromTimeT:
  assumes "0 \<le> t"
  shows "tdiv (TimeSinceEpochMilliSeconds (FromTimeT t)) kMillisecondsPerSecond = t"
proof -
  have "0 \<le> FromTimeT t" using assms by (simp add: FromTimeT_def kNanoSecondsPerSecond_def kMicrosecondsPerSecond_def kMillisecondsPerSecond_def)
  then show ?thesis using milliseconds_parts [of "FromTimeT t"]
    by (simp add: FromTimeT_def kNanoSecondsPerSecond_def kMicrosecondsPerSecond_def kMillisecondsPerSecond_def)
qed

text \<open>\<open>mktime\<close> undoes \<open>localtime_r\<close> and ignores the day of the week and of the year.\<close>

lemma test_explode_passes:
  assumes "0 \<le> t" "mk (brk t) = t" "\<And>d. mk d = mk (d\<lparr>tm_wday := 0, tm_yday := 0\<rparr>)"
  shows "test_explode brk mk t"
proof -
  have "mk ((brk t)\<lparr>tm_wday := 0, tm_yday := 0\<rparr>) = t" using assms(2,3) by metis
  then have "mk \<lparr>tm_year = tm_year (brk t), tm_mon = tm_mon (brk t), tm_mday = tm_mday (brk t), tm_hour = tm_hour (brk t),
      tm_min = tm_min (brk t), tm_sec = tm_sec (brk t), tm_wday = 0, tm_yday = 0\<rparr> = t"
    by (cases "brk t") simp
  then show ?thesis
    using assms(1) by (simp add: test_explode_def Exploded_def FromExploded_def Let_def seconds_FromTimeT ToTimeT_FromTimeT)
qed

lemma test_utc_explode_passes: "0 \<le> t \<Longrightarrow> test_utc_explode t"
  unfolding test_utc_explode_def by (rule test_explode_passes) (simp add: timegm_gmtime, simp add: timegm_gmtime, simp add: timegm_def)

lemma test_from_local_explode_passes:
  assumes "mktime \<lparr>tm_year = 123, tm_mon = 10, tm_mday = 11, tm_hour = 11, tm_min = 11, tm_sec = 11, tm_wday = 0, tm_yday = 0\<rparr> = s"
    and "localtime s = \<lparr>tm_year = 123, tm_mon = 10, tm_mday = 11, tm_hour = 11, tm_min = 11, tm_sec = 11, tm_wday = 6, tm_yday = 314\<rparr>"
    and "0 \<le> s"
  shows "test_from_local_explode localtime mktime"
proof -
  have "TimeSinceEpochMilliSeconds (FromTimeT s) = s * 1000"
    using assms(3) by (simp add: TimeSinceEpochMilliSeconds_def FromTimeT_def tdiv_nonneg kNanoSecondsPerSecond_def
        kMicrosecondsPerSecond_def kMillisecondsPerSecond_def)
  then have "tmod (TimeSinceEpochMilliSeconds (FromTimeT s)) kMillisecondsPerSecond = 0"
    using seconds_FromTimeT [OF assms(3)] by (simp add: tmod_def kMillisecondsPerSecond_def)
  then have e: "Exploded localtime (FromTimeT s) = \<lparr>ex_year = 2023, ex_month = 11, ex_day = 11, ex_dayOfWeek = 6, ex_dayInYear = 315,
      ex_hour = 11, ex_minute = 11, ex_second = 11, ex_millisecond = 0\<rparr>"
    using assms(2) seconds_FromTimeT [OF assms(3)] by (simp add: Exploded_def Let_def)
  have "FromExploded mktime \<lparr>ex_year = 2023, ex_month = 11, ex_day = 11, ex_dayOfWeek = 0, ex_dayInYear = 0, ex_hour = 11, ex_minute = 11,
      ex_second = 11, ex_millisecond = 0\<rparr> = Some (FromTimeT s)"
    using assms(1,3) by (simp add: FromExploded_def Let_def)
  moreover have "Dump localtime (FromTimeT s) = ''2023-11-11 11:11:11.000''"
    unfolding Dump_def e by code_simp
  ultimately show ?thesis by (simp add: test_from_local_explode_def test_from_explode_def e same_date_def Let_def)
qed

section \<open>Log patterns\<close>

text \<open>\<open>SetPattern\<close> on a formatter and \<open>Format\<close>: the text, unless the process aborts.\<close>

definition formatted :: "(int \<Rightarrow> tm) \<Rightarrow> LogFormatter \<Rightarrow> string \<Rightarrow> LogMessage \<Rightarrow> string option" where
  "formatted brk f p m = (case Formatter_SetPattern p f of Inl e \<Rightarrow> None | Inr f1 \<Rightarrow> Some (fst (Formatter_Format brk m f1)))"

definition new_formatter :: "string \<Rightarrow> FlagMap \<Rightarrow> LogFormatter" where
  "new_formatter p flags = (case LogFormatter_new p flags of Inl e \<Rightarrow> \<lparr>pattern = [], formatSequence = [], flagMap = flags\<rparr> | Inr f \<Rightarrow> f)"

definition test_one_flag :: "(int \<Rightarrow> tm) \<Rightarrow> int \<Rightarrow> LogMessage \<Rightarrow> bool" where
  "test_one_flag brk now m = (let f = new_formatter [] Map.empty; shows_as = (\<lambda>p m t. formatted brk f p m = Some t) in
     shows_as ''%t'' m (threadId m) \<and> shows_as ''%N'' m (threadName m) \<and> shows_as ''%f'' m (function_name m)
     \<and> shows_as ''%F'' m (file_name m) \<and> shows_as ''%b'' m (baseName m) \<and> shows_as ''%l'' m (show_nat (line m))
     \<and> shows_as ''%L'' (m\<lparr>msg_level := TRACE\<rparr>) ''TRACE'' \<and> shows_as ''%L'' (m\<lparr>msg_level := DEBUG\<rparr>) ''DEBUG''
     \<and> shows_as ''%L'' (m\<lparr>msg_level := INFO\<rparr>) ''INFO '' \<and> shows_as ''%L'' (m\<lparr>msg_level := WARN\<rparr>) ''WARN ''
     \<and> shows_as ''%L'' (m\<lparr>msg_level := FATAL\<rparr>) ''FATAL'' \<and> shows_as ''%n'' m kNewLine
     \<and> shows_as ''%T'' (m\<lparr>logTime := now\<rparr>) (Dump brk now)
     \<and> shows_as ''%c'' m (logLine m) \<and> shows_as ''%m'' m (loggerName m) \<and> shows_as ''%%'' m ''%'')"

definition g_flag :: FlagMap where
  "g_flag = [CHR ''g'' \<mapsto> \<lambda>m. ''G Flag'']"

definition test_custom_flag :: "(int \<Rightarrow> tm) \<Rightarrow> LogMessage \<Rightarrow> bool" where
  "test_custom_flag brk m = (case Formatter_Clone (new_formatter ''%g'' g_flag) of Inl e \<Rightarrow> False | Inr f \<Rightarrow>
     fst (Formatter_Format brk m f) = ''G Flag'' \<and> formatted brk f ''%N %g %n'' m = Some (''main G Flag '' @ kNewLine))"

definition test_multiple_flag :: "(int \<Rightarrow> tm) \<Rightarrow> int \<Rightarrow> LogMessage \<Rightarrow> bool" where
  "test_multiple_flag brk now m0 = (let m = m0\<lparr>threadId := ''666'', msg_level := INFO, logTime := now\<rparr> in
     formatted brk (new_formatter [] Map.empty) ''%n %N %m %t %L %b %c %% %f%T%l'' m
       = Some (kNewLine @ '' main test 666 INFO  LogFormatterTest.cpp test logline % '' @ function_name m @ Dump brk now @ show_nat (line m)))"

text \<open>The digits of the flag are those of \<open>Dump\<close>.\<close>

lemma show_nat_two: "n < 100 \<Longrightarrow> 10 \<le> n \<Longrightarrow> show_nat n = [char_of (48 + n div 10), char_of (48 + n mod 10)]"
  by (simp add: show_nat.simps [of n] show_nat.simps [of "n div 10"])

lemma show_nat_three:
  "n < 1000 \<Longrightarrow> 100 \<le> n \<Longrightarrow> show_nat n = [char_of (48 + n div 100), char_of (48 + n div 10 mod 10), char_of (48 + n mod 10)]"
  using show_nat_two [of "n div 10"] by (simp add: show_nat.simps [of n] div_mult2_eq [symmetric])

lemma show_nat_four:
  "n < 10000 \<Longrightarrow> 1000 \<le> n \<Longrightarrow> show_nat n = [char_of (48 + n div 1000), char_of (48 + n div 100 mod 10),
     char_of (48 + n div 10 mod 10), char_of (48 + n mod 10)]"
  using show_nat_three [of "n div 10"] by (simp add: show_nat.simps [of n] div_mult2_eq [symmetric])

lemma show_padded_nat: "show_padded w (int n) = replicate (w - length (show_nat n)) CHR ''0'' @ show_nat n"
  by (simp add: show_padded_def Let_def)

lemma digit_char_nat: "digit_char_of (int n) = char_of (48 + n)"
proof -
  have "char_of (int k) = char_of k" for k :: nat
    by (simp add: char_of_def bit_of_nat_iff)
  from this [of "48 + n"] show ?thesis by (simp add: digit_char_of_def add.commute)
qed

lemma tdiv_int: "tdiv (int a) (int b) = int (a div b)"
  by (cases "a = 0"; cases "b = 0") (simp_all add: tdiv_def zdiv_int)

lemma tmod_int: "tmod (int a) (int b) = int (a mod b)"
  using minus_div_mult_eq_mod [of "int a" "int b"] by (simp add: tmod_def tdiv_int zdiv_int zmod_int)

lemma Pad_show_padded:
  "n < 100 \<Longrightarrow> Pad2 (int n) = show_padded 2 (int n)"
  "n < 1000 \<Longrightarrow> Pad3 (int n) = show_padded 3 (int n)"
  "n < 10000 \<Longrightarrow> Pad4 (int n) = show_padded 4 (int n)"
proof -
  have zero: "char_of (48 :: nat) = CHR ''0''" "digit_char_of 0 = CHR ''0''" "tmod 0 10 = 0" by code_simp+
  have d: "tdiv (int n) 10 = int (n div 10)" "tdiv (int n) 100 = int (n div 100)" "tdiv (int n) 1000 = int (n div 1000)"
      "tmod (int n) 10 = int (n mod 10)" "tmod (int n) 1000 = int (n mod 1000)" for n
    using tdiv_int [of n 10] tdiv_int [of n 100] tdiv_int [of n 1000] tmod_int [of n 10] tmod_int [of n 1000] by simp_all
  have one: "show_nat k = [char_of (48 + k)]" if "k < 10" for k using that by (simp add: show_nat.simps [of k])
  show "n < 100 \<Longrightarrow> Pad2 (int n) = show_padded 2 (int n)"
    by (cases "n < 10") (simp_all add: Pad2_def d digit_char_nat show_padded_nat show_nat_two one zero)
  have three: "Pad3 (int n) = show_padded 3 (int n)" if "n < 1000" for n
    using that by (cases "n < 10"; cases "n < 100")
      (simp_all add: Pad3_def d digit_char_nat show_padded_nat show_nat_two show_nat_three one zero numeral_3_eq_3 numeral_2_eq_2)
  then show "n < 1000 \<Longrightarrow> Pad3 (int n) = show_padded 3 (int n)" .
  have q1: "n mod 1000 = 100 * (n div 100 mod 10) + n mod 100" and q2: "n mod 1000 = 10 * (n div 10 mod 100) + n mod 10"
    using mod_mult2_eq [of n 100 10] mod_mult2_eq [of n 10 100] by simp_all
  have "n mod 1000 div 100 = n div 100 mod 10" unfolding q1 by simp
  moreover have "n mod 1000 div 10 = n div 10 mod 100" unfolding q2 by simp
  ultimately have split: "n mod 1000 div 100 = n div 100 mod 10" "n mod 1000 div 10 mod 10 = n div 10 mod 10" "n mod 1000 mod 10 = n mod 10"
    by (simp_all add: mod_mod_cancel)
  have rep: "replicate 3 x = [x, x, x]" "replicate 2 x = [x, x]" for x :: char by (simp_all add: numeral_3_eq_3 numeral_2_eq_2)
  have pad4: "Pad4 (int n) = [char_of (48 + n div 1000), char_of (48 + n div 100 mod 10), char_of (48 + n div 10 mod 10), char_of (48 + n mod 10)]"
    by (simp only: Pad4_def Pad3_def d digit_char_nat split)
  show "Pad4 (int n) = show_padded 4 (int n)" if n: "n < 10000"
  proof -
    consider "n < 10" | "10 \<le> n" "n < 100" | "100 \<le> n" "n < 1000" | "1000 \<le> n" by linarith
    then show ?thesis unfolding pad4 show_padded_nat
    proof cases
      case 1
      then show "[char_of (48 + n div 1000), char_of (48 + n div 100 mod 10), char_of (48 + n div 10 mod 10), char_of (48 + n mod 10)]
          = replicate (4 - length (show_nat n)) CHR ''0'' @ show_nat n" by (simp add: one zero rep)
    next
      case 2
      then show "[char_of (48 + n div 1000), char_of (48 + n div 100 mod 10), char_of (48 + n div 10 mod 10), char_of (48 + n mod 10)]
          = replicate (4 - length (show_nat n)) CHR ''0'' @ show_nat n" by (simp add: show_nat_two zero rep)
    next
      case 3
      then show "[char_of (48 + n div 1000), char_of (48 + n div 100 mod 10), char_of (48 + n div 10 mod 10), char_of (48 + n mod 10)]
          = replicate (4 - length (show_nat n)) CHR ''0'' @ show_nat n" by (simp add: show_nat_three zero rep)
    next
      case 4
      then show "[char_of (48 + n div 1000), char_of (48 + n div 100 mod 10), char_of (48 + n div 10 mod 10), char_of (48 + n mod 10)]
          = replicate (4 - length (show_nat n)) CHR ''0'' @ show_nat n" by (simp add: show_nat_four n)
    qed
  qed
qed

text \<open>A point in time that both formats can show.\<close>

definition printable_time :: "(int \<Rightarrow> tm) \<Rightarrow> int \<Rightarrow> bool" where
  "printable_time brk t \<longleftrightarrow> 1000000000 \<le> t \<and> (let d = brk (t div 1000000000) in 0 \<le> tm_year d + 1900 \<and> tm_year d + 1900 < 10000
     \<and> 0 \<le> tm_mon d \<and> tm_mon d < 12 \<and> 0 \<le> tm_mday d \<and> tm_mday d < 32 \<and> 0 \<le> tm_hour d \<and> tm_hour d < 24
     \<and> 0 \<le> tm_min d \<and> tm_min d < 60 \<and> 0 \<le> tm_sec d \<and> tm_sec d < 61)"

lemma Pad_padded:
  "0 \<le> v \<Longrightarrow> v < 100 \<Longrightarrow> Pad2 v = show_padded 2 v" "0 \<le> v \<Longrightarrow> v < 1000 \<Longrightarrow> Pad3 v = show_padded 3 v"
  "0 \<le> v \<Longrightarrow> v < 10000 \<Longrightarrow> Pad4 v = show_padded 4 v"
  using Pad_show_padded [of "nat v"] by (simp_all add: nat_less_iff)

lemma time_text_Dump:
  assumes "printable_time brk t"
  shows "time_text brk t = Dump brk t" "tdiv (TimeSinceEpochMilliSeconds t) 1000 \<noteq> 0"
proof -
  have t: "0 \<le> t" "0 < t div 1000000000" using assms by (simp_all add: printable_time_def pos_imp_zdiv_pos_iff)
  have p: "tdiv (TimeSinceEpochMilliSeconds t) 1000 = t div 1000000000"
      "tmod (TimeSinceEpochMilliSeconds t) 1000 = t div 1000000 mod 1000"
    using milliseconds_parts [OF t(1)] by (simp_all add: kNanoSecondsPerSecond_def kMicrosecondsPerSecond_def kMillisecondsPerSecond_def)
  show "tdiv (TimeSinceEpochMilliSeconds t) 1000 \<noteq> 0" using p(1) t(2) by simp
  have "Pad3 (t div 1000000 mod 1000) = show_padded 3 (t div 1000000 mod 1000)" by (rule Pad_padded(2)) simp_all
  then show "time_text brk t = Dump brk t"
    using assms by (simp add: time_text_def second_text_def Dump_def Exploded_def Let_def p kMillisecondsPerSecond_def
        printable_time_def Pad_padded)
qed

text \<open>What a pattern shows.\<close>

lemma formatted_render:
  assumes "render brk (flagMap f) m p = Some t" "tdiv (TimeSinceEpochMilliSeconds (logTime m)) 1000 \<noteq> 0"
  shows "formatted brk f p m = Some t"
proof -
  obtain gs where gs: "compile_loop (flagMap f) [] [] p = Some gs" "t = seq_text brk m gs" "caches gs \<subseteq> {LocalTimeFormatter_new}"
    using compile_loop_meaning [of "flagMap f" "[]" "[]" p brk m] assms(1)
    by (cases "compile_loop (flagMap f) [] [] p") (auto simp: caches_def)
  then have "\<forall>c \<in> caches gs. cache_ok brk c" using cache_ok_new by auto
  then show ?thesis
    using format_seq_exact [of gs brk m] assms(2) gs(1,2)
    by (auto simp: formatted_def Formatter_SetPattern_def CompilePatternOrAbort_def CompilePattern_def Formatter_Format_def)
qed

lemma test_one_flag_passes:
  assumes "printable_time brk now" "tdiv (TimeSinceEpochMilliSeconds (logTime m)) 1000 \<noteq> 0"
  shows "test_one_flag brk now m"
proof -
  let ?f = "new_formatter [] Map.empty"
  have fm: "flagMap ?f = Map.empty"
    by (simp add: new_formatter_def LogFormatter_new_def CompilePatternOrAbort_def CompilePattern_def)
  have sec: "tdiv (TimeSinceEpochMilliSeconds now) 1000 \<noteq> 0" "time_text brk now = Dump brk now"
    using time_text_Dump [OF assms(1)] by simp_all
  have r: "formatted brk ?f [CHR ''%'', c] m' = (case default_flag brk m' c of Some t \<Rightarrow> Some t | None \<Rightarrow> formatted brk ?f [CHR ''%'', c] m')"
    if "tdiv (TimeSinceEpochMilliSeconds (logTime m')) 1000 \<noteq> 0" "c \<noteq> CHR ''%''" for c m'
    using formatted_render [of brk ?f m' "[CHR ''%'', c]"] that by (simp add: fm split: option.split)
  have p: "formatted brk ?f ''%%'' m = Some ''%''" by (rule formatted_render) (simp_all add: fm assms(2))
  show ?thesis
    unfolding test_one_flag_def Let_def
    by (intro conjI; (rule p)?; subst r; simp add: assms(2) sec default_flag_def kLogLevels_def level_num_def)
qed

lemma test_custom_flag_passes:
  assumes "threadName m = ''main''" "tdiv (TimeSinceEpochMilliSeconds (logTime m)) 1000 \<noteq> 0"
  shows "test_custom_flag brk m"
proof -
  let ?f = "\<lparr>pattern = ''%g'', formatSequence = [CustomFormatter (\<lambda>m. ''G Flag'')], flagMap = g_flag\<rparr>"
  have f: "new_formatter ''%g'' g_flag = ?f" "Formatter_Clone ?f = Inr ?f"
    by (simp_all add: new_formatter_def Formatter_Clone_def LogFormatter_new_def CompilePatternOrAbort_def CompilePattern_def g_flag_def
        flush_text_def Let_def)
  have "formatted brk ?f ''%N %g %n'' m = Some (''main G Flag '' @ kNewLine)"
    by (rule formatted_render) (simp_all add: assms g_flag_def default_flag_def)
  then show ?thesis by (simp add: test_custom_flag_def f Formatter_Format_def Flag_Format_def)
qed

lemma test_multiple_flag_passes:
  assumes "printable_time brk now" "threadName m = ''main''" "loggerName m = ''test''" "baseName m = ''LogFormatterTest.cpp''"
    and "logLine m = ''test logline''"
  shows "test_multiple_flag brk now m"
proof -
  have fm: "flagMap (new_formatter [] Map.empty) = Map.empty"
    by (simp add: new_formatter_def LogFormatter_new_def CompilePatternOrAbort_def CompilePattern_def)
  show ?thesis
    unfolding test_multiple_flag_def Let_def
    by (rule formatted_render)
      (simp_all add: fm assms(2-) time_text_Dump [OF assms(1)] default_flag_def kLogLevels_def level_num_def kNewLine_def)
qed

text \<open>The patterns that are commented out at the end of the file, because they abort the process.\<close>

lemma test_bad_pattern_aborts:
  "\<forall>p \<in> set [''%1'', ''%'', ''%t %T %'', ''%%% %t %T '', ''% %'', ''%t %c %'', ''% %t %c %n'']. formatted brk (new_formatter [] Map.empty) p m = None"
  by (simp add: formatted_def Formatter_SetPattern_def new_formatter_def LogFormatter_new_def CompilePatternOrAbort_def CompilePattern_def
      HandleFlag_def flush_text_def Let_def)

section \<open>Addresses\<close>

type_synonym addr_text = "(32 word \<Rightarrow> string) \<times> (byte list \<Rightarrow> string)"

text \<open>The six checks that the test makes on every address.\<close>

definition check_address :: "addr_text \<Rightarrow> IpAddress \<Rightarrow> bool \<Rightarrow> string \<Rightarrow> nat \<Rightarrow> bool" where
  "check_address ntop a ipv6 ip port \<longleftrightarrow> IsIpv4 a = (\<not> ipv6) \<and> IsIpv6 a = ipv6 \<and> GetIp (fst ntop) (snd ntop) a = ip
     \<and> GetPort a = of_nat port \<and> GetIpPort (fst ntop) (snd ntop) a = ip @ '':'' @ show_nat port"

definition test_ipv4 :: "addr_text \<Rightarrow> (string \<Rightarrow> 32 word option) \<Rightarrow> (string \<Rightarrow> byte list option) \<Rightarrow> bool" where
  "test_ipv4 ntop pton4 pton6 \<longleftrightarrow> check_address ntop IpAddress_default False ''0.0.0.0'' 0
     \<and> check_address ntop (IpAddress_port 80 True False) False ''127.0.0.1'' 80
     \<and> (case IpAddress_parse pton4 pton6 ''192.168.0.1'' 443 False of Inl e \<Rightarrow> False | Inr a \<Rightarrow> check_address ntop a False ''192.168.0.1'' 443)"

definition test_ipv6 :: "addr_text \<Rightarrow> (string \<Rightarrow> 32 word option) \<Rightarrow> (string \<Rightarrow> byte list option) \<Rightarrow> bool" where
  "test_ipv6 ntop pton4 pton6 \<longleftrightarrow> check_address ntop (IpAddress_port 80 False True) True ''[::]'' 80
     \<and> check_address ntop (IpAddress_port 8080 True True) True ''[::1]'' 8080
     \<and> (case IpAddress_parse pton4 pton6 ''1::111'' 443 True of Inl e \<Rightarrow> False | Inr a \<Rightarrow> check_address ntop a True ''[1::111]'' 443)"

definition check_resolved :: "IpAddress option result \<Rightarrow> bool \<Rightarrow> 16 word \<Rightarrow> bool" where
  "check_resolved r ipv6 port = (case r of Inr (Some a) \<Rightarrow> IsIpv4 a = (\<not> ipv6) \<and> IsIpv6 a = ipv6 \<and> GetPort a = port | _ \<Rightarrow> False)"

definition test_resolve :: "(string \<Rightarrow> string option \<Rightarrow> bool \<Rightarrow> IpAddress list option) \<Rightarrow> bool" where
  "test_resolve getaddrinfo \<longleftrightarrow> check_resolved (Resolve getaddrinfo ''www.baidu.com'' (Some ''80'') False) False 80
     \<and> check_resolved (Resolve getaddrinfo ''www.baidu.com'' (Some ''443'') True) True 443"

text \<open>The text forms that \<open>inet_pton\<close> and \<open>inet_ntop\<close> have for the addresses of the test; \<open>s_addr\<close> holds the bytes in memory order.\<close>

definition known_texts :: "addr_text \<Rightarrow> (string \<Rightarrow> 32 word option) \<Rightarrow> (string \<Rightarrow> byte list option) \<Rightarrow> bool" where
  "known_texts ntop pton4 pton6 \<longleftrightarrow> fst ntop 0 = ''0.0.0.0'' \<and> fst ntop (load_le [127, 0, 0, 1]) = ''127.0.0.1''
     \<and> pton4 ''192.168.0.1'' = Some (load_le [192, 168, 0, 1]) \<and> fst ntop (load_le [192, 168, 0, 1]) = ''192.168.0.1''
     \<and> snd ntop (replicate 16 0) = ''::'' \<and> snd ntop (replicate 15 0 @ [1]) = ''::1''
     \<and> pton6 ''1::111'' = Some ([0, 1] @ replicate 12 0 @ [1, 17]) \<and> snd ntop ([0, 1] @ replicate 12 0 @ [1, 17]) = ''1::111''"

lemma loopback_bytes: "Host32ToNetwork32 INADDR_LOOPBACK = load_le [127, 0, 0, 1]"
  by code_simp

lemma GetPort_network [simp]:
  "GetPort (Ipv4 (Host16ToNetwork16 p) w) = p" "GetPort (Ipv6 (Host16ToNetwork16 p) bs i) = p"
  by (simp_all add: GetPort_def network_host_inverse)

lemma test_ipv4_passes: "known_texts ntop pton4 pton6 \<Longrightarrow> test_ipv4 ntop pton4 pton6"
  by (simp add: test_ipv4_def known_texts_def check_address_def IpAddress_default_def IpAddress_port_def IpAddress_parse_def IsIpv4_def
      IsIpv6_def GetIp_def GetIpPort_def INADDR_ANY_def loopback_bytes)

lemma test_ipv6_passes: "known_texts ntop pton4 pton6 \<Longrightarrow> test_ipv6 ntop pton4 pton6"
  by (simp add: test_ipv6_def known_texts_def check_address_def IpAddress_port_def IpAddress_parse_def IsIpv4_def
      IsIpv6_def GetIp_def GetIpPort_def in6addr_any_def in6addr_loopback_def)

text \<open>\<open>getaddrinfo\<close> that finds the host gives an address of the family asked for, with the port of the service.\<close>

lemma test_resolve_passes:
  assumes "\<And>v6 service port. (service, port) \<in> {(''80'', 80), (''443'', 443)} \<Longrightarrow>
      \<exists>a rest. getaddrinfo ''www.baidu.com'' (Some service) v6 = Some (a # rest) \<and> IsIpv6 a = v6 \<and> GetPort a = port"
  shows "test_resolve getaddrinfo"
proof -
  have v4: "IsIpv4 a = (\<not> IsIpv6 a)" for a by (simp add: IsIpv4_def IsIpv6_def split: IpAddress.split)
  obtain a r where a: "getaddrinfo ''www.baidu.com'' (Some ''80'') False = Some (a # r)" "IsIpv6 a = False" "GetPort a = 80"
    using assms [of "''80''" 80 False] by blast
  obtain b r' where b: "getaddrinfo ''www.baidu.com'' (Some ''443'') True = Some (b # r')" "IsIpv6 b = True" "GetPort b = 443"
    using assms [of "''443''" 443 True] by blast
  show ?thesis using a b by (simp add: test_resolve_def check_resolved_def Resolve_def v4)
qed

section \<open>Socket options\<close>

text \<open>The kernel's table of the options of a socket.\<close>

type_synonym option_table = "int \<times> int \<Rightarrow> int list"

definition table_set :: "int \<Rightarrow> int \<Rightarrow> int \<Rightarrow> int list \<Rightarrow> nat \<Rightarrow> option_table \<Rightarrow> int \<times> option_table" where
  "table_set fd level opt v len k = (0, k((level, opt) := v))"

definition table_get :: "int \<Rightarrow> int \<Rightarrow> int \<Rightarrow> int list \<Rightarrow> nat \<Rightarrow> option_table \<Rightarrow> int \<times> int list \<times> nat" where
  "table_get fd level opt v len k = (0, k (level, opt), len)"

fun set_each :: "BasicSocket \<Rightarrow> SocketOption list \<Rightarrow> option_table \<Rightarrow> bool \<times> option_table" where
  "set_each s [] k = (True, k)"
| "set_each s (o1 # os) k = (case SetOption table_set s o1 k of (ok, k1) \<Rightarrow> if ok then set_each s os k1 else (False, k1))"

definition test_get :: "BasicSocket \<Rightarrow> option_table \<Rightarrow> SocketOption \<times> SocketOption \<Rightarrow> bool" where
  "test_get s k p = (case GetOption table_get s (fst p) k of (ok, got) \<Rightarrow> ok \<and> opt_value got = opt_value (snd p))"

text \<open>The options that are set, and the default ones that are read back; these hold zeros before.\<close>

definition test_options :: "(SocketOption \<times> SocketOption) list" where
  "test_options = [(ReuseAddress False, ReuseAddress True), (ReusePort False, ReusePort True), (TcpNoDelay False, TcpNoDelay True),
     (KeepAlive False, KeepAlive True), (Linger False 0, Linger True 3)]"

definition test_socket_options :: "BasicSocket \<Rightarrow> option_table \<Rightarrow> bool" where
  "test_socket_options s k = (case set_each s (map snd test_options) k of (ok, k1) \<Rightarrow>
     ok \<and> list_all (\<lambda>p. set (opt_value (fst p)) = {0}) test_options \<and> list_all (test_get s k1) test_options)"

lemma test_socket_options_passes: "test_socket_options s k"
  by (simp add: test_socket_options_def test_options_def SetOption_def table_set_def test_get_def GetOption_def table_get_def socket_options
      socket_constants)

end
