(* ===== verification/StandAloneWebSocket.thy ===== *)
theory StandAloneWebSocket
  imports HttpServer Socket
begin

text \<open>
  The server of \<open>cold/net/http/WebSocketServer.{h,cpp}\<close> that listens itself: the loop of
  \<open>StandAloneWsServerContext::OnConnect\<close> on one accepted socket.

  \<^item> \<open>onUpgradeRequest_\<close> returns nothing: it binds \<open>OnReceivedUpgradeRequest\<close>, a coroutine that starts suspended, and
    drops the task it returns. The socket was moved into the frame, which is destroyed with the task.
  \<^item> A turn is one read: \<open>None\<close> when it returned nothing positive, else the callbacks and verdicts of llhttp.
\<close>

section \<open>The loop\<close>

text \<open>Calling the coroutine moves the socket into its frame; dropping the task destroys the frame.\<close>

definition onUpgradeRequest :: "BasicSocket \<Rightarrow> 'h net \<Rightarrow> (BasicSocket \<times> 'h net) result" where
  "onUpgradeRequest sock n =
     (case Socket_move sock of (parameter, sock1) \<Rightarrow>
       bind_result (Socket_destroy parameter n) (\<lambda>n1. Inr (sock1, n1)))"

type_synonym ws_read = "(llhttp_event list \<times> llhttp_verdict \<times> llhttp_verdict) option"

text \<open>One turn: whether the loop goes on, the socket, and the process. A read with a timeout sets a timer of the
  socket's service; a read of a socket that is not connected fails.\<close>

definition standalone_turn ::
    "http_limits \<Rightarrow> ws_read \<Rightarrow> BasicSocket \<Rightarrow> 'h net \<Rightarrow> (bool \<times> BasicSocket \<times> 'h net) result" where
  "standalone_turn lim rd sock n =
     (case ioService sock of None \<Rightarrow> Inl Undefined
      | Some sv \<Rightarrow>
        (case (if connected sock then rd else None) of
           None \<Rightarrow> (case Tcp_Close sock n of (sock1, n1) \<Rightarrow> Inr (False, sock1, n1))
         | Some (es, verdict, resumed) \<Rightarrow>
           (case Http_Parse lim es verdict resumed http_parser_init of (ok, p) \<Rightarrow>
             if \<not> ok then (case Tcp_Close sock n of (sock1, n1) \<Rightarrow> Inr (True, sock1, n1))
             else if HasRequest p then
               bind_result (TakeRequest p) (\<lambda>_. bind_result (onUpgradeRequest sock n) (\<lambda>(sock1, n1). Inr (True, sock1, n1)))
             else Inr (True, sock, n))))"

fun standalone_OnConnect ::
    "http_limits \<Rightarrow> ws_read list \<Rightarrow> BasicSocket \<Rightarrow> 'h net \<Rightarrow> (bool \<times> BasicSocket \<times> 'h net) result" where
  "standalone_OnConnect lim [] sock n = Inr (True, sock, n)"
| "standalone_OnConnect lim (rd # rds) sock n = bind_result (standalone_turn lim rd sock n) (\<lambda>(on, sock1, n1).
     if on then standalone_OnConnect lim rds sock1 n1 else Inr (False, sock1, n1))"

section \<open>Properties\<close>

text \<open>The loop ends by itself only after a failed read: a read that fails closes the connection and ends it, and
  after input that is not HTTP the connection is closed and the next turn ends it.\<close>

lemma standalone_ends:
  assumes "ioService sock = Some sv"
  shows "standalone_OnConnect lim (None # rds) sock n = Inr (False, sock\<lparr>connected := False\<rparr>, Basic_Close sock n)"
    and "connected sock \<Longrightarrow> \<not> fst (Http_Parse lim es v r http_parser_init) \<Longrightarrow>
      \<exists>n'. standalone_OnConnect lim [Some (es, v, r), rd] sock n = Inr (False, sock\<lparr>connected := False\<rparr>, n') \<and> net_open n' = net_open n"
  using assms
  by (auto simp: standalone_turn_def Tcp_Close_def Basic_Close_def shutdown_fd_def split: prod.splits)

text \<open>A stand-alone WebSocket server never shakes hands. The first complete request of a client, an upgrade request or
  not, closes its descriptor without a byte written, and with the next turn the loop reads from the socket that was moved
  away, through a null service.\<close>

theorem standalone_never_upgrades:
  assumes "ioService sock = Some sv" "sock_fd sock \<in> net_open n" "sock_fd sock \<ge> 0" "connected sock" "readable lim m"
  shows "\<exists>n'. standalone_turn lim (read_of [m]) sock n = Inr (True, Socket_emptied sock, n')
     \<and> net_open n' = net_open n - {sock_fd sock}
     \<and> standalone_OnConnect lim (read_of [m] # rd # rds) sock n = Inl Undefined"
proof -
  have run: "run_events lim (message_events m) http_parser_init = (True, http_parser_init\<lparr>hp_queue := [the (parsed lim m)]\<rparr>)"
    using run_messages [of http_parser_init "[m]" lim] assms(5)
    by (simp add: readable_def idle_def http_parser_init_def)
  show ?thesis
    using assms run
    by (auto simp: standalone_turn_def read_of_def Http_Parse_def HasRequest_def TakeRequest_def onUpgradeRequest_def
        Socket_move_def Socket_destroy_def close_fd_def stop_all_def at_service_def Socket_emptied_def)
qed

definition demo_socket :: BasicSocket where
  "demo_socket = (BasicSocket_new 0 5)\<lparr>connected := True\<rparr>"

theorem standalone_never_upgrades_witness:
  "\<exists>n'. standalone_turn default_limits (read_of [demo_get]) demo_socket (open_fd 5 demo_net) = Inr (True, Socket_emptied demo_socket, n')
     \<and> net_open n' = {} \<and> standalone_OnConnect default_limits [read_of [demo_get], None] demo_socket (open_fd 5 demo_net) = Inl Undefined"
  using standalone_never_upgrades [of demo_socket 0 "open_fd 5 demo_net" default_limits demo_get None "[]"]
  by (simp add: demo_socket_def BasicSocket_new_def open_fd_def demo_net_def readable_def demo_get_def fragmented_def
      parsed_def default_limits_def)

end
