(* ===== verification/Task.thy ===== *)
theory Task
  imports Prelude
begin

text \<open>
  \<open>cold/coro/Task.h\<close>: lazy coroutines that continue their awaiter when they end.

  \<^item> The body of a coroutine is a \<open>prog\<close>: it returns a value, awaits another coroutine and goes on with its
    result, or suspends itself until the event loop resumes it with an event.
  \<^item> The machine has the frames of the live coroutines by address: where each is, its continuation
    (\<open>None\<close> is \<open>std::noop_coroutine()\<close>) and its value. \<open>current\<close> is the coroutine that has control, \<open>None\<close> when
    control is back at whoever resumed; \<open>waiting\<close> is the handle the event loop holds.
  \<^item> \<open>unhandled_exception\<close> asserts; bodies that throw are not modelled.
\<close>

section \<open>Bodies\<close>

datatype ('e, 'v) prog =
    Ret 'v
  | Await "('e, 'v) prog" "'v \<Rightarrow> ('e, 'v) prog"
  | Suspend "'e \<Rightarrow> ('e, 'v) prog"

text \<open>What a body computes when awaiting is calling: the value and the events left, or \<open>None\<close> when they run out.\<close>

primrec eval :: "('e, 'v) prog \<Rightarrow> 'e list \<Rightarrow> ('v \<times> 'e list) option" where
  "eval (Ret v) es = Some (v, es)"
| "eval (Await p k) es = (case eval p es of None \<Rightarrow> None | Some (v, es') \<Rightarrow> eval (k v) es')"
| "eval (Suspend f) es = (case es of [] \<Rightarrow> None | e # es' \<Rightarrow> eval (f e) es')"

section \<open>Frames\<close>

datatype ('e, 'v) co_state =
    Running "('e, 'v) prog"
  | Suspended "'e \<Rightarrow> ('e, 'v) prog"
  | Awaiting nat "'v \<Rightarrow> ('e, 'v) prog"
  | Final

record ('e, 'v) frame =
  co_at :: "('e, 'v) co_state"
  continuation :: "nat option"
  value_of :: "'v option"

record ('e, 'v) machine =
  frames :: "nat \<rightharpoonup> ('e, 'v) frame"
  next_frame :: nat
  current :: "nat option"
  waiting :: "nat option"

definition put_frame :: "nat \<Rightarrow> ('e, 'v) frame \<Rightarrow> ('e, 'v) machine \<Rightarrow> ('e, 'v) machine" where
  "put_frame h f m = m\<lparr>frames := (frames m)(h \<mapsto> f)\<rparr>"

text \<open>Calling a coroutine makes its frame, suspended at its start.\<close>

definition get_return_object :: "('e, 'v) prog \<Rightarrow> ('e, 'v) machine \<Rightarrow> nat \<times> ('e, 'v) machine" where
  "get_return_object p m = (next_frame m,
     (put_frame (next_frame m) \<lparr>co_at = Running p, continuation = None, value_of = None\<rparr> m)\<lparr>next_frame := Suc (next_frame m)\<rparr>)"

definition SetContinuation :: "nat \<Rightarrow> nat option \<Rightarrow> ('e, 'v) machine \<Rightarrow> ('e, 'v) machine" where
  "SetContinuation h k m = m\<lparr>frames := (frames m)(h := map_option (\<lambda>f. f\<lparr>continuation := k\<rparr>) (frames m h))\<rparr>"

definition return_value :: "'v \<Rightarrow> ('e, 'v) frame \<Rightarrow> ('e, 'v) frame" where
  "return_value v f = f\<lparr>value_of := Some v\<rparr>"

section \<open>\<open>Task\<close>\<close>

text \<open>A \<open>Task\<close> is the handle it owns.\<close>

definition Task_destroy :: "nat option \<Rightarrow> ('e, 'v) machine \<Rightarrow> ('e, 'v) machine" where
  "Task_destroy t m = (case t of None \<Rightarrow> m | Some h \<Rightarrow> m\<lparr>frames := (frames m)(h := None)\<rparr>)"

definition Task_move :: "nat option \<Rightarrow> nat option \<times> nat option" where
  "Task_move other = (other, None)"

definition Task_assign :: "nat option \<Rightarrow> nat option \<Rightarrow> ('e, 'v) machine \<Rightarrow> nat option \<times> nat option \<times> ('e, 'v) machine" where
  "Task_assign this other m = (other, None, Task_destroy this m)"

definition Task_Done :: "nat option \<Rightarrow> ('e, 'v) machine \<Rightarrow> bool" where
  "Task_Done t m = (case t of None \<Rightarrow> True
     | Some h \<Rightarrow> (case frames m h of Some f \<Rightarrow> (case co_at f of Final \<Rightarrow> True | _ \<Rightarrow> False) | None \<Rightarrow> False))"

definition Task_Resume :: "nat option \<Rightarrow> ('e, 'v) machine \<Rightarrow> ('e, 'v) machine" where
  "Task_Resume t m = (case t of None \<Rightarrow> m | Some h \<Rightarrow> m\<lparr>current := Some h\<rparr>)"

definition Task_Result :: "nat option \<Rightarrow> ('e, 'v) machine \<Rightarrow> 'v result" where
  "Task_Result t m = (case t of None \<Rightarrow> Inl AssertFail
     | Some h \<Rightarrow> if Task_Done t m then (case frames m h of None \<Rightarrow> Inl Undefined
         | Some f \<Rightarrow> (case value_of f of None \<Rightarrow> Inl Undefined | Some v \<Rightarrow> Inr v)) else Inl AssertFail)"

text \<open>\<open>co_await task\<close>: the awaited coroutine gets control, with the awaiter as its continuation.\<close>

definition await_suspend :: "nat \<Rightarrow> nat \<Rightarrow> ('e, 'v) machine \<Rightarrow> ('e, 'v) machine" where
  "await_suspend child caller m = (SetContinuation child (Some caller) m)\<lparr>current := Some child\<rparr>"

text \<open>\<open>FinalAwaitable\<close>: the continuation gets control. \<open>await_resume\<close>: the value is moved out of the promise.\<close>

definition final_suspend :: "('e, 'v) frame \<Rightarrow> ('e, 'v) machine \<Rightarrow> ('e, 'v) machine" where
  "final_suspend f m = m\<lparr>current := continuation f\<rparr>"

definition await_resume :: "nat \<Rightarrow> ('e, 'v) machine \<Rightarrow> 'v result" where
  "await_resume child m = (case frames m child of None \<Rightarrow> Inl Undefined
     | Some f \<Rightarrow> (case value_of f of None \<Rightarrow> Inl Undefined | Some v \<Rightarrow> Inr v))"

section \<open>Control\<close>

text \<open>One step of the coroutine that has control: it ends and hands control to its continuation, awaits, suspends,
  or takes the result of the coroutine it awaited, whose task goes with it.\<close>

definition co_step :: "('e, 'v) machine \<Rightarrow> ('e, 'v) machine option" where
  "co_step m = (case current m of None \<Rightarrow> None | Some h \<Rightarrow>
     (case frames m h of None \<Rightarrow> None | Some f \<Rightarrow>
       (case co_at f of
          Running (Ret v) \<Rightarrow> Some (final_suspend f (put_frame h ((return_value v f)\<lparr>co_at := Final\<rparr>) m))
        | Running (Await p k) \<Rightarrow>
            (let (c, m1) = get_return_object p m
             in Some (await_suspend c h (put_frame h (f\<lparr>co_at := Awaiting c k\<rparr>) m1)))
        | Running (Suspend g) \<Rightarrow> Some ((put_frame h (f\<lparr>co_at := Suspended g\<rparr>) m)\<lparr>current := None, waiting := Some h\<rparr>)
        | Awaiting c k \<Rightarrow> (case await_resume c m of Inl e \<Rightarrow> None
            | Inr v \<Rightarrow> Some (Task_destroy (Some c) (put_frame h (f\<lparr>co_at := Running (k v)\<rparr>) m)))
        | Suspended g \<Rightarrow> None
        | Final \<Rightarrow> None)))"

text \<open>The event loop resumes the handle it holds with the next event.\<close>

definition loop_resume :: "'e \<Rightarrow> ('e, 'v) machine \<Rightarrow> ('e, 'v) machine option" where
  "loop_resume e m = (case waiting m of None \<Rightarrow> None | Some h \<Rightarrow>
     (case frames m h of None \<Rightarrow> None | Some f \<Rightarrow>
       (case co_at f of Suspended g \<Rightarrow> Some ((put_frame h (f\<lparr>co_at := Running (g e)\<rparr>) m)\<lparr>current := Some h, waiting := None\<rparr>)
        | _ \<Rightarrow> None)))"

inductive turn :: "('e, 'v) machine \<times> 'e list \<Rightarrow> ('e, 'v) machine \<times> 'e list \<Rightarrow> bool" where
  step: "co_step m = Some m' \<Longrightarrow> turn (m, es) (m', es)"
| event: "current m = None \<Longrightarrow> loop_resume e m = Some m' \<Longrightarrow> turn (m, e # es) (m', es)"

inductive turns :: "('e, 'v) machine \<times> 'e list \<Rightarrow> ('e, 'v) machine \<times> 'e list \<Rightarrow> bool" where
  stop: "turns x x"
| more: "turn x y \<Longrightarrow> turns y z \<Longrightarrow> turns x z"

lemma turns_trans: "turns x y \<Longrightarrow> turns y z \<Longrightarrow> turns x z"
  by (induction rule: turns.induct) (auto intro: turns.more)

text \<open>The machine does at every moment one thing only.\<close>

lemma turn_deterministic: "turn x y \<Longrightarrow> turn x z \<Longrightarrow> y = z"
  by (erule turn.cases; erule turn.cases) (auto simp: co_step_def)

lemma await_lemma:
  assumes "c \<noteq> h" "frames m c = Some f" "co_at f = Final" "value_of f = Some v"
    "frames m h = Some g" "co_at g = Awaiting c k" "current m = Some h"
  shows "co_step m = Some (m\<lparr>frames := (frames m)(h \<mapsto> g\<lparr>co_at := Running (k v)\<rparr>, c := None)\<rparr>)"
  using assms by (simp add: co_step_def await_resume_def Task_destroy_def put_frame_def)

text \<open>Running a body to its end: its frame is final with the value of the body, control is at its continuation, every
  frame it made is gone, and every other frame is as it was.\<close>

abbreviation final_frame :: "nat option \<Rightarrow> 'v \<Rightarrow> ('e, 'v) frame" where
  "final_frame k v \<equiv> \<lparr>co_at = Final, continuation = k, value_of = Some v\<rparr>"

abbreviation running_frame :: "nat option \<Rightarrow> ('e, 'v) prog \<Rightarrow> ('e, 'v) frame" where
  "running_frame k p \<equiv> \<lparr>co_at = Running p, continuation = k, value_of = None\<rparr>"

definition runs :: "('e, 'v) prog \<Rightarrow> bool" where
  "runs p \<longleftrightarrow> (\<forall>es v es' m h k. eval p es = Some (v, es') \<longrightarrow> frames m h = Some (running_frame k p) \<longrightarrow> current m = Some h \<longrightarrow>
     h < next_frame m \<longrightarrow> (\<forall>c. next_frame m \<le> c \<longrightarrow> frames m c = None) \<longrightarrow>
     (\<exists>m'. turns (m, es) (m', es') \<and> frames m' = (frames m)(h \<mapsto> final_frame k v) \<and> current m' = k \<and> next_frame m \<le> next_frame m'))"

lemma runsD:
  assumes "runs p" "eval p es = Some (v, es')" "frames m h = Some (running_frame k p)" "current m = Some h"
    and "h < next_frame m" "\<And>c. next_frame m \<le> c \<Longrightarrow> frames m c = None"
  obtains m' where "turns (m, es) (m', es')" "frames m' = (frames m)(h \<mapsto> final_frame k v)" "current m' = k" "next_frame m \<le> next_frame m'"
  using assms unfolding runs_def by blast

lemma runs_Ret: "runs (Ret x :: ('e, 'v) prog)"
proof -
  have "\<exists>m'. turns (m, es) (m', es) \<and> frames m' = (frames m)(h \<mapsto> final_frame k x) \<and> current m' = k \<and> next_frame m \<le> next_frame m'"
    if "frames m h = Some (running_frame k (Ret x))" "current m = Some h" for m :: "('e, 'v) machine" and es h k
  proof -
    let ?m = "(put_frame h (final_frame k x) m)\<lparr>current := k\<rparr>"
    have "co_step m = Some ?m" using that by (simp add: co_step_def return_value_def final_suspend_def)
    then have "turns (m, es) (?m, es)" by (rule turns.more [OF turn.step turns.stop])
    then show ?thesis by (intro exI [of _ ?m]) (simp add: put_frame_def)
  qed
  then show ?thesis by (auto simp: runs_def)
qed

text \<open>A suspended coroutine goes on with the next event.\<close>

lemma turns_Suspend:
  assumes "frames m h = Some (running_frame k (Suspend f))" "current m = Some h"
  shows "turns (m, e # es) ((put_frame h (running_frame k (f e)) m)\<lparr>current := Some h, waiting := None\<rparr>, es)"
proof -
  let ?m1 = "(put_frame h \<lparr>co_at = Suspended f, continuation = k, value_of = None\<rparr> m)\<lparr>current := None, waiting := Some h\<rparr>"
  let ?m2 = "(put_frame h (running_frame k (f e)) m)\<lparr>current := Some h, waiting := None\<rparr>"
  have "co_step m = Some ?m1" using assms by (simp add: co_step_def)
  then have 1: "turn (m, e # es) (?m1, e # es)" by (rule turn.step)
  have "loop_resume e ?m1 = Some ?m2" by (simp add: loop_resume_def put_frame_def)
  then have 2: "turn (?m1, e # es) (?m2, es)" by (intro turn.event) simp_all
  show ?thesis by (rule turns.more [OF 1 turns.more [OF 2 turns.stop]])
qed

lemma runs_Suspend:
  assumes "\<And>e. runs (f e)" shows "runs (Suspend f)"
proof -
  have "\<exists>m'. turns (m, es) (m', es') \<and> frames m' = (frames m)(h \<mapsto> final_frame k v) \<and> current m' = k \<and> next_frame m \<le> next_frame m'"
    if ev: "eval (Suspend f) es = Some (v, es')" and m: "frames m h = Some (running_frame k (Suspend f))" "current m = Some h"
      and h: "h < next_frame m" and fresh: "\<forall>c. next_frame m \<le> c \<longrightarrow> frames m c = None" for es v es' m h k
  proof -
    obtain e es1 where es: "es = e # es1" "eval (f e) es1 = Some (v, es')" using ev by (auto split: list.splits)
    let ?m2 = "(put_frame h (running_frame k (f e)) m)\<lparr>current := Some h, waiting := None\<rparr>"
    have "frames ?m2 c = None" if "next_frame ?m2 \<le> c" for c using that h fresh by (simp add: put_frame_def)
    then obtain m' where "turns (?m2, es1) (m', es')" "frames m' = (frames ?m2)(h \<mapsto> final_frame k v)" "current m' = k"
        "next_frame ?m2 \<le> next_frame m'"
      using runsD [OF assms es(2), of ?m2 h k] h by (auto simp: put_frame_def)
    then show ?thesis unfolding es(1) using turns_trans [OF turns_Suspend [OF m, of e es1]]
      by (intro exI [of _ m']) (simp add: put_frame_def)
  qed
  then show ?thesis unfolding runs_def by blast
qed

text \<open>The two steps around an awaited coroutine: its frame is made and gets control; when it is final its value goes to
  the awaiter and its frame is destroyed.\<close>

lemma turn_Await:
  assumes "frames m h = Some (running_frame k (Await p q))" "current m = Some h" "h < next_frame m"
  defines "c \<equiv> next_frame m"
  shows "turn (m, es) (m\<lparr>frames := (frames m)(h \<mapsto> \<lparr>co_at = Awaiting c q, continuation = k, value_of = None\<rparr>,
       c \<mapsto> running_frame (Some h) p), next_frame := Suc c, current := Some c\<rparr>, es)"
  using assms(1-3)
  by (intro turn.step)
    (simp add: co_step_def get_return_object_def await_suspend_def SetContinuation_def put_frame_def c_def fun_upd_twist)

lemma turn_awaited:
  assumes "frames m2 = (M(h \<mapsto> \<lparr>co_at = Awaiting c q, continuation = k, value_of = None\<rparr>))(c \<mapsto> final_frame (Some h) v)"
    and "current m2 = Some h" "c \<noteq> h" "M c = None"
  shows "turn (m2, es) (m2\<lparr>frames := M(h \<mapsto> running_frame k (q v))\<rparr>, es)"
proof (rule turn.step)
  have "co_step m2 = Some (m2\<lparr>frames := (frames m2)(h \<mapsto>
      \<lparr>co_at = Awaiting c q, continuation = k, value_of = None\<rparr>\<lparr>co_at := Running (q v)\<rparr>, c := None)\<rparr>)"
    by (rule await_lemma [of c h m2, where f = "final_frame (Some h) v"
          and g = "\<lparr>co_at = Awaiting c q, continuation = k, value_of = None\<rparr>"]) (use assms in simp_all)
  also have "(frames m2)(h \<mapsto> \<lparr>co_at = Awaiting c q, continuation = k, value_of = None\<rparr>\<lparr>co_at := Running (q v)\<rparr>, c := None)
      = M(h \<mapsto> running_frame k (q v))"
    using assms(3,4) by (simp add: assms(1) fun_eq_iff)
  finally show "co_step m2 = Some (m2\<lparr>frames := M(h \<mapsto> running_frame k (q v))\<rparr>)" .
qed

lemma runs_Await:
  assumes "runs p" "\<And>v. runs (q v)" shows "runs (Await p q)"
proof -
  have "\<exists>m'. turns (m, es) (m', es') \<and> frames m' = (frames m)(h \<mapsto> final_frame k v) \<and> current m' = k \<and> next_frame m \<le> next_frame m'"
    if ev: "eval (Await p q) es = Some (v, es')" and m: "frames m h = Some (running_frame k (Await p q))" "current m = Some h"
      and h: "h < next_frame m" and fresh: "\<forall>c. next_frame m \<le> c \<longrightarrow> frames m c = None" for es v es' m h k
  proof -
    obtain v1 es1 where e1: "eval p es = Some (v1, es1)" "eval (q v1) es1 = Some (v, es')"
      using ev by (auto split: option.splits)
    define c where "c = next_frame m"
    have c: "c \<noteq> h" "frames m c = None" using h fresh by (simp_all add: c_def)
    let ?m1 = "m\<lparr>frames := (frames m)(h \<mapsto> \<lparr>co_at = Awaiting c q, continuation = k, value_of = None\<rparr>,
         c \<mapsto> running_frame (Some h) p), next_frame := Suc c, current := Some c\<rparr>"
    have "frames ?m1 d = None" if "next_frame ?m1 \<le> d" for d using that h fresh by (simp add: c_def)
    then obtain m2 where m2: "turns (?m1, es) (m2, es1)" "frames m2 = (frames ?m1)(c \<mapsto> final_frame (Some h) v1)"
        "current m2 = Some h" "Suc c \<le> next_frame m2"
      using runsD [OF assms(1) e1(1), of ?m1 c "Some h"] by auto
    let ?m3 = "m2\<lparr>frames := (frames m)(h \<mapsto> running_frame k (q v1))\<rparr>"
    have 3: "turn (m2, es1) (?m3, es1)" by (rule turn_awaited [of _ _ h c q k]) (use m2 c in simp_all)
    have "frames ?m3 d = None" if "next_frame ?m3 \<le> d" for d using that h fresh m2(4) by (auto simp: c_def)
    then obtain m' where m': "turns (?m3, es1) (m', es')" "frames m' = (frames ?m3)(h \<mapsto> final_frame k v)" "current m' = k"
        "next_frame ?m3 \<le> next_frame m'"
      using runsD [OF assms(2) e1(2), of ?m3 h k] m2(3,4) h by (auto simp: c_def)
    have "turns (m, es) (m', es')"
      by (rule turns.more [OF turn_Await [OF m h, folded c_def] turns_trans [OF m2(1) turns.more [OF 3 m'(1)]]])
    then show ?thesis using m'(2-4) m2(4) by (intro exI [of _ m']) (simp add: c_def)
  qed
  then show ?thesis unfolding runs_def by blast
qed

lemma run_body: "runs p"
  by (induction p) (auto intro: runs_Ret runs_Await runs_Suspend)

text \<open>C4: Awaiting is calling. A task that is made and resumed runs its body as if every \<open>co_await\<close> were an ordinary
  call: when the body computes a value from the events (however deep it awaits other tasks, and however often these
  suspend), the machine of frames and continuations reaches, by resuming the one handle the event loop holds with
  each event in turn, the state in which the task is done with that value; control is back at the resumer, every frame
  of an awaited task has been destroyed exactly then, and the frames of other tasks are untouched. The machine is
  deterministic, so this is what happens.\<close>

theorem task_runs_as_call:
  assumes "eval p es = Some (v, es')" "\<And>c. next_frame m \<le> c \<Longrightarrow> frames m c = None"
    and "get_return_object p m = (h, m1)"
  shows "\<exists>m'. turns (Task_Resume (Some h) m1, es) (m', es') \<and> Task_Done (Some h) m' \<and> Task_Result (Some h) m' = Inr v
     \<and> current m' = None \<and> frames (Task_destroy (Some h) m') = frames m"
proof -
  have h: "h = next_frame m" "frames m h = None" using assms(2,3) by (simp_all add: get_return_object_def)
  let ?m = "Task_Resume (Some h) m1"
  have m: "frames ?m h = Some \<lparr>co_at = Running p, continuation = None, value_of = None\<rparr>" "current ?m = Some h"
      "h < next_frame ?m"
    using assms(3) by (auto simp: get_return_object_def Task_Resume_def put_frame_def)
  have f: "frames ?m = (frames m)(h \<mapsto> \<lparr>co_at = Running p, continuation = None, value_of = None\<rparr>)" "next_frame ?m = Suc h"
    using assms(3) by (auto simp: get_return_object_def Task_Resume_def put_frame_def)
  have "frames ?m c = None" if "next_frame ?m \<le> c" for c
    using that f h assms(2) [of c] by simp
  from runsD [OF run_body assms(1) m this] obtain m' where m': "turns (?m, es) (m', es')"
      "frames m' = (frames ?m)(h \<mapsto> final_frame None v)" "current m' = None"
    by blast
  have "frames (Task_destroy (Some h) m') = frames m"
    using h(2) by (auto simp: Task_destroy_def m'(2) f(1) fun_eq_iff)
  then show ?thesis
    using m' by (intro exI [of _ m']) (simp add: Task_Done_def Task_Result_def)
qed

definition demo_prog :: "(nat, nat) prog" where
  "demo_prog = Await (Suspend (\<lambda>e. Ret (e + 1))) (\<lambda>x. Suspend (\<lambda>e. Ret (x * e)))"

definition no_frames :: "(nat, nat) machine" where
  "no_frames = \<lparr>frames = Map.empty, next_frame = 0, current = None, waiting = None\<rparr>"

theorem task_runs_as_call_witness:
  "\<exists>m' h m1. get_return_object demo_prog no_frames = (h, m1) \<and> turns (Task_Resume (Some h) m1, [4, 7, 1]) (m', [1])
     \<and> Task_Result (Some h) m' = Inr 35 \<and> frames (Task_destroy (Some h) m') = Map.empty"
proof -
  obtain h m1 where g: "get_return_object demo_prog no_frames = (h, m1)" by (cases "get_return_object demo_prog no_frames")
  have e: "eval demo_prog [4, 7, 1] = Some (35, [1])" by (simp add: demo_prog_def)
  have n: "frames no_frames c = None" if "next_frame no_frames \<le> c" for c by (simp add: no_frames_def)
  obtain m' where "turns (Task_Resume (Some h) m1, [4, 7, 1]) (m', [1])" "Task_Result (Some h) m' = Inr 35"
      "frames (Task_destroy (Some h) m') = frames no_frames"
    using task_runs_as_call [OF e n g] by blast
  then show ?thesis using g by (intro exI [of _ m'] exI [of _ h] exI [of _ m1]) (simp add: no_frames_def)
qed

text \<open>A moved task owns nothing: the frame is destroyed once, by whoever has the handle last.\<close>

lemma moved_task_destroyed_once:
  "Task_destroy (snd (Task_move t)) (Task_destroy (fst (Task_move t)) m) = Task_destroy t m"
  "fst (Task_assign t u m) = u \<and> fst (snd (Task_assign t u m)) = None"
  by (simp_all add: Task_move_def Task_destroy_def Task_assign_def)

text \<open>Asking an unfinished task for its result fails the assertion.\<close>

lemma unfinished_result: "frames m h = Some f \<Longrightarrow> co_at f \<noteq> Final \<Longrightarrow> Task_Result (Some h) m = Inl AssertFail"
  by (cases "co_at f") (simp_all add: Task_Result_def Task_Done_def)

end
