(* ===== verification/Thread.thy ===== *)
theory Thread
  imports Lock Time
begin

text \<open>
  \<open>cold/thread/Thread.{h,cpp}\<close> and \<open>Condition.h\<close>: the names of threads, the handshake of \<open>Thread::Start\<close>, and waiting
  until a time.

  \<^item> The handshake is a machine of two threads, the one that calls \<open>Start\<close> and the new one; a step is an access
    to the shared object. \<open>alive\<close> is whether the \<open>Thread\<close> object still exists, \<open>bad\<close> whether the new thread
    used it after that.
  \<^item> \<open>pthread_cond_wait\<close> releases the mutex and waits in one step, and takes the mutex again when it was
    signalled, or spuriously.
\<close>

section \<open>This thread\<close>

record thread_locals =
  t_threadId :: nat
  t_threadIdStr :: string
  t_threadName :: string

definition main_locals :: thread_locals where
  "main_locals = \<lparr>t_threadId = 0, t_threadIdStr = [], t_threadName = ''main''\<rparr>"

definition CacheTidAndTidStr :: "nat \<Rightarrow> thread_locals \<Rightarrow> thread_locals" where
  "CacheTidAndTidStr tid l = l\<lparr>t_threadId := tid, t_threadIdStr := show_nat tid\<rparr>"

definition ThreadId :: "nat \<Rightarrow> thread_locals \<Rightarrow> nat \<times> thread_locals" where
  "ThreadId tid l = (let l' = (if t_threadId l = 0 then CacheTidAndTidStr tid l else l) in (t_threadId l', l'))"

definition ThreadIdStr :: "nat \<Rightarrow> thread_locals \<Rightarrow> string \<times> thread_locals" where
  "ThreadIdStr tid l = (let l' = (if t_threadId l = 0 then CacheTidAndTidStr tid l else l) in (t_threadIdStr l', l'))"

text \<open>The constructor: the name of the thread, and the new count of threads.\<close>

definition Thread_new :: "string \<Rightarrow> nat \<Rightarrow> string \<times> nat" where
  "Thread_new threadName numCreated =
     (let n = numCreated + 1 in (if threadName = [] then ''Thread-'' @ show_nat n else threadName, n))"

section \<open>\<open>Condition\<close>\<close>

text \<open>What \<open>WaitUntil\<close> gives \<open>pthread_cond_timedwait\<close>; \<open>None\<close> when it does not wait.\<close>

definition WaitUntil :: "int \<Rightarrow> int \<Rightarrow> (int \<times> int) option" where
  "WaitUntil now time = (if time \<le> now then None else Some (ToTimespec time))"

definition WaitFor :: "int \<Rightarrow> int \<Rightarrow> int \<Rightarrow> (int \<times> int) option" where
  "WaitFor now now' duration = WaitUntil now' (now + duration)"

lemma WaitUntil_proper:
  assumes "0 \<le> now" "WaitUntil now time = Some (sec, nsec)"
  shows "0 \<le> nsec \<and> nsec < 1000000000 \<and> sec * 1000000000 + nsec = time \<and> now < time"
  using assms ToTimespec_proper [of time] by (auto simp: WaitUntil_def split: if_splits)

section \<open>The handshake of \<open>Start\<close>\<close>

text \<open>Where the caller of \<open>Start\<close> is: before the mutex, before \<open>pthread_create\<close>, at the test of the loop, waiting, before
  the mutex is released, returned; then it may have destroyed the object, which detaches the thread.\<close>

datatype caller = PLock | PCreate | PTest | PWait | PUnlock | PReturned | PDestroyed

text \<open>Where \<open>ThreadMainFunc\<close> is: not created, before it stores its id, before the mutex, before \<open>started_\<close>, before
  \<open>NotifyOne\<close>, before the mutex is released, before it takes the task, running it, done.\<close>

datatype new_thread = CNone | CTid | CLock | CStarted | CNotify | CUnlock | CTask | CRun | CDone

datatype holder = Free | Caller | New

record handshake =
  caller_at :: caller
  new_at :: new_thread
  holder :: holder
  started :: bool
  joined :: bool
  tid_set :: bool
  signalled :: bool
  alive :: bool
  bad :: bool

definition handshake_init :: handshake where
  "handshake_init = \<lparr>caller_at = PLock, new_at = CNone, holder = Free, started = False, joined = False, tid_set = False,
     signalled = False, alive = True, bad = False\<rparr>"

definition Joinable :: "handshake \<Rightarrow> bool" where
  "Joinable h \<longleftrightarrow> started h \<and> \<not> joined h"

text \<open>An access of the new thread to the object.\<close>

definition touch :: "handshake \<Rightarrow> handshake" where
  "touch h = (if alive h then h else h\<lparr>bad := True\<rparr>)"

inductive caller_step :: "handshake \<Rightarrow> handshake \<Rightarrow> bool" where
  lock: "caller_at h = PLock \<Longrightarrow> holder h = Free \<Longrightarrow> caller_step h (h\<lparr>holder := Caller, caller_at := PCreate\<rparr>)"
| create: "caller_at h = PCreate \<Longrightarrow> caller_step h (h\<lparr>new_at := CTid, caller_at := PTest\<rparr>)"
| enter_wait: "caller_at h = PTest \<Longrightarrow> \<not> started h \<Longrightarrow>
    caller_step h (h\<lparr>holder := Free, signalled := False, caller_at := PWait\<rparr>)"
| leave: "caller_at h = PTest \<Longrightarrow> started h \<Longrightarrow> caller_step h (h\<lparr>caller_at := PUnlock\<rparr>)"
| wake: "caller_at h = PWait \<Longrightarrow> signalled h \<Longrightarrow> holder h = Free \<Longrightarrow>
    caller_step h (h\<lparr>holder := Caller, signalled := False, caller_at := PTest\<rparr>)"
| unlock: "caller_at h = PUnlock \<Longrightarrow> caller_step h (h\<lparr>holder := Free, caller_at := PReturned\<rparr>)"

inductive new_step :: "handshake \<Rightarrow> handshake \<Rightarrow> bool" where
  tid: "new_at h = CTid \<Longrightarrow> new_step h ((touch h)\<lparr>tid_set := True, new_at := CLock\<rparr>)"
| lock: "new_at h = CLock \<Longrightarrow> holder h = Free \<Longrightarrow> new_step h ((touch h)\<lparr>holder := New, new_at := CStarted\<rparr>)"
| start: "new_at h = CStarted \<Longrightarrow> new_step h ((touch h)\<lparr>started := True, new_at := CNotify\<rparr>)"
| notify: "new_at h = CNotify \<Longrightarrow> new_step h ((touch h)\<lparr>signalled := (caller_at h = PWait), new_at := CUnlock\<rparr>)"
| unlock: "new_at h = CUnlock \<Longrightarrow> new_step h ((touch h)\<lparr>holder := Free, new_at := CTask\<rparr>)"
| take_task: "new_at h = CTask \<Longrightarrow> new_step h ((touch h)\<lparr>new_at := CRun\<rparr>)"
| run: "new_at h = CRun \<Longrightarrow> new_step h (h\<lparr>new_at := CDone\<rparr>)"

text \<open>The environment: a spurious wake-up, and the end of the object after \<open>Start\<close> returned, whose destructor
  detaches the thread when it was not joined.\<close>

inductive spurious_step :: "handshake \<Rightarrow> handshake \<Rightarrow> bool" where
  wake: "caller_at h = PWait \<Longrightarrow> holder h = Free \<Longrightarrow>
    spurious_step h (h\<lparr>holder := Caller, signalled := False, caller_at := PTest\<rparr>)"

inductive destroy_step :: "handshake \<Rightarrow> handshake \<Rightarrow> bool" where
  detach: "caller_at h = PReturned \<Longrightarrow> Joinable h \<Longrightarrow>
    destroy_step h (h\<lparr>joined := True, alive := False, caller_at := PDestroyed\<rparr>)"
| join: "caller_at h = PReturned \<Longrightarrow> Joinable h \<Longrightarrow> new_at h = CDone \<Longrightarrow> destroy_step h (h\<lparr>joined := True\<rparr>)"
| joined: "caller_at h = PReturned \<Longrightarrow> joined h \<Longrightarrow> destroy_step h (h\<lparr>alive := False, caller_at := PDestroyed\<rparr>)"

definition start_step :: "handshake \<Rightarrow> handshake \<Rightarrow> bool" where
  "start_step h h' \<longleftrightarrow> caller_step h h' \<or> new_step h h' \<or> spurious_step h h' \<or> destroy_step h h'"

inductive reachable :: "handshake \<Rightarrow> bool" where
  init: "reachable handshake_init"
| step: "reachable h \<Longrightarrow> start_step h h' \<Longrightarrow> reachable h'"

text \<open>What the two places say about the rest of the state.\<close>

definition caller_holds :: "caller \<Rightarrow> bool" where
  "caller_holds p = (case p of PCreate \<Rightarrow> True | PTest \<Rightarrow> True | PUnlock \<Rightarrow> True | _ \<Rightarrow> False)"

definition caller_passed :: "caller \<Rightarrow> bool" where
  "caller_passed p = (case p of PUnlock \<Rightarrow> True | PReturned \<Rightarrow> True | PDestroyed \<Rightarrow> True | _ \<Rightarrow> False)"

definition new_holds :: "new_thread \<Rightarrow> bool" where
  "new_holds c = (case c of CStarted \<Rightarrow> True | CNotify \<Rightarrow> True | CUnlock \<Rightarrow> True | _ \<Rightarrow> False)"

definition new_started :: "new_thread \<Rightarrow> bool" where
  "new_started c = (case c of CNone \<Rightarrow> False | CTid \<Rightarrow> False | CLock \<Rightarrow> False | CStarted \<Rightarrow> False | _ \<Rightarrow> True)"

definition new_will_notify :: "new_thread \<Rightarrow> bool" where
  "new_will_notify c = (case c of CTid \<Rightarrow> True | CLock \<Rightarrow> True | CStarted \<Rightarrow> True | CNotify \<Rightarrow> True | _ \<Rightarrow> False)"

lemmas place_defs = caller_holds_def caller_passed_def new_holds_def new_started_def new_will_notify_def

definition handshake_inv :: "handshake \<Rightarrow> bool" where
  "handshake_inv h \<longleftrightarrow>
     holder h = (if caller_holds (caller_at h) then Caller else if new_holds (new_at h) then New else Free)
     \<and> \<not> (caller_holds (caller_at h) \<and> new_holds (new_at h))
     \<and> started h = new_started (new_at h)
     \<and> tid_set h = (new_at h \<noteq> CNone \<and> new_at h \<noteq> CTid)
     \<and> (new_at h = CNone) = (caller_at h = PLock \<or> caller_at h = PCreate)
     \<and> (caller_passed (caller_at h) \<longrightarrow> new_started (new_at h))
     \<and> (caller_at h = PWait \<longrightarrow> \<not> signalled h \<longrightarrow> new_will_notify (new_at h))
     \<and> alive h = (caller_at h \<noteq> PDestroyed) \<and> (bad h \<longrightarrow> caller_at h = PDestroyed)
     \<and> (joined h \<longrightarrow> caller_at h = PDestroyed \<or> new_at h = CDone)"

lemma handshake_inv_init: "handshake_inv handshake_init"
  by (simp add: handshake_inv_def handshake_init_def place_defs)

lemma inv_caller:
  assumes "caller_step h h'" "handshake_inv h" shows "handshake_inv h'"
  using assms by cases (cases "new_at h"; simp add: handshake_inv_def place_defs)+

lemma inv_new:
  assumes "new_step h h'" "handshake_inv h" shows "handshake_inv h'"
  using assms by cases (cases "caller_at h"; simp add: handshake_inv_def place_defs touch_def)+

lemma inv_spurious:
  assumes "spurious_step h h'" "handshake_inv h" shows "handshake_inv h'"
  using assms by cases (cases "new_at h"; simp add: handshake_inv_def place_defs)+

lemma inv_destroy:
  assumes "destroy_step h h'" "handshake_inv h" shows "handshake_inv h'"
  using assms by cases (cases "new_at h"; simp add: handshake_inv_def place_defs Joinable_def)+

lemma handshake_inv_step: "start_step h h' \<Longrightarrow> handshake_inv h \<Longrightarrow> handshake_inv h'"
  using inv_caller inv_new inv_spurious inv_destroy unfolding start_step_def by blast

lemma reachable_inv: "reachable h \<Longrightarrow> handshake_inv h"
  by (induction rule: reachable.induct) (auto intro: handshake_inv_init handshake_inv_step)

text \<open>How far the two are from the end of the handshake; spurious wake-ups aside, every step comes closer.\<close>

definition caller_rank :: "caller \<Rightarrow> nat" where
  "caller_rank p = (case p of PLock \<Rightarrow> 6 | PCreate \<Rightarrow> 5 | PTest \<Rightarrow> 4 | PWait \<Rightarrow> 3 | PUnlock \<Rightarrow> 2 | PReturned \<Rightarrow> 1 | PDestroyed \<Rightarrow> 0)"

definition new_rank :: "new_thread \<Rightarrow> nat" where
  "new_rank c = (case c of CNone \<Rightarrow> 8 | CTid \<Rightarrow> 8 | CLock \<Rightarrow> 7 | CStarted \<Rightarrow> 6 | CNotify \<Rightarrow> 5 | CUnlock \<Rightarrow> 4 | CTask \<Rightarrow> 3
     | CRun \<Rightarrow> 1 | CDone \<Rightarrow> 0)"

definition handshake_rank :: "handshake \<Rightarrow> nat" where
  "handshake_rank h = 10 * new_rank (new_at h) + caller_rank (caller_at h) + (if signalled h then 2 else 0)"

lemma rank_caller: "caller_step h h' \<Longrightarrow> handshake_inv h \<Longrightarrow> handshake_rank h' < handshake_rank h"
  by (erule caller_step.cases) (simp_all add: handshake_rank_def caller_rank_def new_rank_def handshake_inv_def)

lemma rank_new: "new_step h h' \<Longrightarrow> handshake_rank h' < handshake_rank h"
  by (erule new_step.cases) (simp_all add: handshake_rank_def new_rank_def touch_def)

lemma handshake_progress:
  assumes "handshake_inv h" "caller_at h \<notin> {PReturned, PDestroyed}"
  shows "\<exists>h'. caller_step h h' \<or> new_step h h'"
proof (cases "caller_at h")
  case PLock
  then have "holder h = Free" using assms(1) by (simp add: handshake_inv_def place_defs)
  then show ?thesis using caller_step.lock [OF PLock] by blast
next
  case PCreate
  then show ?thesis using caller_step.create by blast
next
  case PTest
  then show ?thesis using caller_step.enter_wait caller_step.leave by (cases "started h") blast+
next
  case PUnlock
  then show ?thesis using caller_step.unlock by blast
next
  case PWait
  then have h: "holder h = (if new_holds (new_at h) then New else Free)" "signalled h \<or> new_will_notify (new_at h)"
    using assms(1) by (auto simp: handshake_inv_def caller_holds_def)
  show ?thesis
  proof (cases "new_holds (new_at h)")
    case True
    then have "new_at h = CStarted \<or> new_at h = CNotify \<or> new_at h = CUnlock"
      by (simp add: new_holds_def split: new_thread.splits)
    then show ?thesis using new_step.start new_step.notify new_step.unlock by blast
  next
    case free: False
    then have f: "holder h = Free" using h(1) by simp
    show ?thesis
    proof (cases "signalled h")
      case True
      then show ?thesis using caller_step.wake [OF PWait True f] by blast
    next
      case False
      then have "new_at h = CTid \<or> new_at h = CLock"
        using h(2) free by (simp add: new_holds_def new_will_notify_def split: new_thread.splits)
      then show ?thesis using new_step.tid new_step.lock [OF _ f] by blast
    qed
  qed
qed (use assms(2) in simp_all)



text \<open>A caller that lets the object go as soon as \<open>Start\<close> returned, as its destructor allows, takes it from under
  the new thread, which still has to release the mutex and to take its task.\<close>

definition handshake_of :: "caller \<Rightarrow> new_thread \<Rightarrow> holder \<Rightarrow> bool \<Rightarrow> bool \<Rightarrow> bool \<Rightarrow> bool \<Rightarrow> bool \<Rightarrow> bool \<Rightarrow> handshake" where
  "handshake_of p c ho st jo ti si al ba = \<lparr>caller_at = p, new_at = c, holder = ho, started = st, joined = jo, tid_set = ti,
     signalled = si, alive = al, bad = ba\<rparr>"

lemma reach_caller: "reachable h \<Longrightarrow> caller_step h h' \<Longrightarrow> reachable h'"
  by (erule reachable.step) (simp only: start_step_def simp_thms)

lemma reach_new: "reachable h \<Longrightarrow> new_step h h' \<Longrightarrow> reachable h'"
  by (erule reachable.step) (simp only: start_step_def simp_thms)

lemma reach_destroy: "reachable h \<Longrightarrow> destroy_step h h' \<Longrightarrow> reachable h'"
  by (erule reachable.step) (simp only: start_step_def simp_thms)

lemma thread_used_after_destruction: "\<exists>h. reachable h \<and> bad h"
proof -
  note hs = handshake_of_def touch_def Joinable_def
  have "reachable (handshake_of PLock CNone Free False False False False True False)"
    using reachable.init by (simp add: handshake_init_def handshake_of_def)
  note r = reach_caller [OF this caller_step.lock]
  have "reachable (handshake_of PCreate CNone Caller False False False False True False)" using r by (simp add: hs)
  note r = reach_caller [OF this caller_step.create]
  have "reachable (handshake_of PTest CTid Caller False False False False True False)" using r by (simp add: hs)
  note r = reach_caller [OF this caller_step.enter_wait]
  have "reachable (handshake_of PWait CTid Free False False False False True False)" using r by (simp add: hs)
  note r = reach_new [OF this new_step.tid]
  have "reachable (handshake_of PWait CLock Free False False True False True False)" using r by (simp add: hs)
  note r = reach_new [OF this new_step.lock]
  have "reachable (handshake_of PWait CStarted New False False True False True False)" using r by (simp add: hs)
  note r = reach_new [OF this new_step.start]
  have "reachable (handshake_of PWait CNotify New True False True False True False)" using r by (simp add: hs)
  note r = reach_new [OF this new_step.notify]
  have "reachable (handshake_of PWait CUnlock New True False True True True False)" using r by (simp add: hs)
  note r = reach_new [OF this new_step.unlock]
  have "reachable (handshake_of PWait CTask Free True False True True True False)" using r by (simp add: hs)
  note r = reach_caller [OF this caller_step.wake]
  have "reachable (handshake_of PTest CTask Caller True False True False True False)" using r by (simp add: hs)
  note r = reach_caller [OF this caller_step.leave]
  have "reachable (handshake_of PUnlock CTask Caller True False True False True False)" using r by (simp add: hs)
  note r = reach_caller [OF this caller_step.unlock]
  have "reachable (handshake_of PReturned CTask Free True False True False True False)" using r by (simp add: hs)
  note r = reach_destroy [OF this destroy_step.detach]
  have "reachable (handshake_of PDestroyed CTask Free True True True False False False)" using r by (simp add: hs)
  note r = reach_new [OF this new_step.take_task]
  have "reachable (handshake_of PDestroyed CRun Free True True True False False True)" using r by (simp add: hs)
  then show ?thesis by (intro exI conjI) (assumption, simp add: hs)
qed

end
