(* ===== verification/TimerWait.thy ===== *)
theory TimerWait
  imports Timer
begin

text \<open>
  Waiting for a timer: \<open>TimerAwaitable\<close> and \<open>AsyncWaitable\<close> of \<open>cold/time/Timer.h\<close>. A coroutine that awaits
  \<open>timer.AsyncWaitable(task)\<close> is suspended; when the timer is due the task is run, its result is kept, and the coroutine goes on.

  \<^item> What the queue releases is a \<open>timer_task\<close>: the lambda \<open>wrapTask\<close>, or a task of the user.
  \<^item> How a task runs, and what a coroutine does when resumed, are parameters.

  The lemmas follow one waiting coroutine through any sequence of operations on other timers and expiry rounds.
\<close>

section \<open>The awaitable\<close>

datatype ('c, 'h) timer_task = UserTask 'c | WrapTask 'c 'h

record ('c, 'h) TimerAwaitable =
  wa_timer :: "('c, 'h) timer_task Timer"
  wa_task :: 'c

definition AsyncWaitable :: "('c, 'h) timer_task Timer \<Rightarrow> 'c \<Rightarrow> ('c, 'h) TimerAwaitable" where
  "AsyncWaitable timer co = \<lparr>wa_timer = timer, wa_task = co\<rparr>"

definition Waitable_await_ready :: "('c, 'h) TimerAwaitable \<Rightarrow> bool" where
  "Waitable_await_ready aw = False"

definition Waitable_await_suspend :: "'h \<Rightarrow> ('c, 'h) TimerAwaitable \<Rightarrow> ('c, 'h) timer_task TimerQueue \<Rightarrow>
    ('c, 'h) timer_task Timer \<times> ('c, 'h) timer_task TimerQueue" where
  "Waitable_await_suspend handle aw q = Timer_AsyncWait (WrapTask (wa_task aw) handle) (wa_timer aw) q"

text \<open>A released task: \<open>wrapTask\<close> stores the result of the user's task and resumes the coroutine, which reads it in \<open>await_resume\<close>.
  \<open>run\<close> and \<open>resume\<close> are parameters.\<close>

definition run_timer_task :: "('c \<Rightarrow> 's \<Rightarrow> 'v \<times> 's) \<Rightarrow> ('h \<Rightarrow> 'v \<Rightarrow> 's \<Rightarrow> 's) \<Rightarrow> ('c, 'h) timer_task option \<Rightarrow> 's \<Rightarrow> 's" where
  "run_timer_task run resume t s = (case t of
      None \<Rightarrow> s
    | Some (UserTask c) \<Rightarrow> snd (run c s)
    | Some (WrapTask c h) \<Rightarrow> (case run c s of (retValue, s1) \<Rightarrow> resume h retValue s1))"

section \<open>Runs\<close>

text \<open>Operations and rounds, with the tasks that are released, in order.\<close>

fun run_op :: "'t timer_op \<Rightarrow> 't TimerQueue \<Rightarrow> ('t option list \<times> 't TimerQueue) result" where
  "run_op (Tick now) q = bind_result (HandleTimeout now q) (\<lambda>(ts, _, q'). Inr (ts, q'))"
| "run_op op q = bind_result (timer_step op q) (\<lambda>q'. Inr ([], q'))"

fun run_ops :: "'t timer_op list \<Rightarrow> 't TimerQueue \<Rightarrow> ('t option list \<times> 't TimerQueue) result" where
  "run_ops [] q = Inr ([], q)"
| "run_ops (op # ops) q = bind_result (run_op op q) (\<lambda>(ts, q1). bind_result (run_ops ops q1) (\<lambda>(ts', q2). Inr (ts @ ts', q2)))"

text \<open>Operations that leave a timer and its task alone.\<close>

fun elsewhere :: "nat \<Rightarrow> 't \<Rightarrow> 't timer_op \<Rightarrow> bool" where
  "elsewhere i x (ExpiresAt timer t) \<longleftrightarrow> t_timerId timer \<noteq> i"
| "elsewhere i x (AsyncWait timer y) \<longleftrightarrow> t_timerId timer \<noteq> i \<and> y \<noteq> x"
| "elsewhere i x (Cancel timer) \<longleftrightarrow> t_timerId timer \<noteq> i"
| "elsewhere i x (Tick now) \<longleftrightarrow> True"

definition reaches :: "int \<Rightarrow> 't timer_op list \<Rightarrow> bool" where
  "reaches T ops \<longleftrightarrow> (\<exists>now. Tick now \<in> set ops \<and> T \<le> now)"

definition held_by :: "'t \<Rightarrow> 't TimerQueue \<Rightarrow> nat set" where
  "held_by x q = {k. \<exists>e v. queue_view q k = Some (e, Some x, v)}"

definition armed :: "nat \<Rightarrow> int \<Rightarrow> 't \<Rightarrow> 't TimerQueue \<Rightarrow> bool" where
  "armed i T x q \<longleftrightarrow> queue_view q i = Some (T, Some x, True) \<and> held_by x q = {i}"

lemma run_op_elsewhere:
  assumes "queue_inv q" "elsewhere i x op" "\<And>now. op \<noteq> Tick now"
  shows "\<exists>q'. run_op op q = Inr ([], q') \<and> queue_inv q' \<and> queue_view q' i = queue_view q i \<and> held_by x q' = held_by x q"
proof (cases op)
  case (ExpiresAt timer t)
  then show ?thesis using ExpiresAt_ok [OF assms(1), of t timer] assms(2) by (fastforce simp: held_by_def split: option.splits)
next
  case (AsyncWait timer y)
  have "queue_view (fst (AddTimer (timer\<lparr>t_task := Some y\<rparr>) q)) =
      (if queue_view q (t_timerId timer) = None then (queue_view q)(t_timerId timer \<mapsto> (t_expiry timer, Some y, True)) else queue_view q)"
    using tq.view_add [OF assms(1), of "timer\<lparr>t_task := Some y\<rparr>"] by simp
  then show ?thesis
    using AsyncWait assms(2) tq.inv_add [OF assms(1), of "timer\<lparr>t_task := Some y\<rparr>"] by (auto simp: AsyncWait_eq held_by_def)
next
  case (Cancel timer)
  obtain q' where "CancelTimer timer q = Inr q'" "queue_inv q'" "queue_view q' =
      (case queue_view q (t_timerId timer) of None \<Rightarrow> queue_view q | Some (e, t, v) \<Rightarrow> (queue_view q)(t_timerId timer \<mapsto> (e, t, False)))"
    using tq.cancel_ok [OF assms(1), of timer] by blast
  then show ?thesis using Cancel assms(2) by (fastforce simp: Timer_Cancel_def held_by_def split: option.splits)
qed (use assms(3) in simp)

lemma tick_round:
  assumes "queue_inv q"
  shows "\<exists>ks q'. run_op (Tick now) q = Inr (map (\<lambda>k. fst (snd (the (queue_view q k)))) ks, q') \<and> queue_inv q' \<and> distinct ks
     \<and> set ks = {k. \<exists>e t. queue_view q k = Some (e, t, True) \<and> e \<le> now}
     \<and> queue_view q' = (\<lambda>k. case queue_view q k of None \<Rightarrow> None | Some (e, t, v) \<Rightarrow> if e \<le> now then None else Some (e, t, v))"
proof -
  obtain ks w q' where h: "HandleTimeout now q = Inr (map (\<lambda>k. fst (snd (the (queue_view q k)))) ks, w, q')" "queue_inv q'"
      "sorted_wrt (\<lambda>j k. (fst (the (queue_view q j)), j) < (fst (the (queue_view q k)), k)) ks"
      "set ks = {k. \<exists>e t. queue_view q k = Some (e, t, True) \<and> e \<le> now}"
      "queue_view q' = (\<lambda>k. case queue_view q k of None \<Rightarrow> None | Some (e, t, v) \<Rightarrow> if e \<le> now then None else Some (e, t, v))"
    using tq.expire_ok [OF assms, of now] by blast
  have "distinct ks"
    using h(3) by (induction ks) auto
  then show ?thesis using h by auto
qed

lemma count_of_only:
  assumes "distinct ks" "\<And>k. k \<in> set ks \<Longrightarrow> f k = x \<longleftrightarrow> k = i"
  shows "count_list (map f ks) x = (if i \<in> set ks then 1 else 0)"
  using assms by (induction ks) auto

lemma round_held:
  assumes "queue_view q' = (\<lambda>k. case queue_view q k of None \<Rightarrow> None | Some (e, t, v) \<Rightarrow> if e \<le> now then None else Some (e, t, v))"
  shows "held_by x q' \<subseteq> held_by x q"
proof
  fix k assume "k \<in> held_by x q'"
  then obtain e v where "queue_view q' k = Some (e, Some x, v)" by (auto simp: held_by_def)
  then show "k \<in> held_by x q" using assms by (cases "queue_view q k") (auto simp: held_by_def split: if_splits prod.splits)
qed

lemma tick_armed:
  assumes "queue_inv q" "armed i T x q"
  shows "\<exists>ts q'. run_op (Tick now) q = Inr (ts, q') \<and> queue_inv q' \<and> count_list ts (Some x) = (if T \<le> now then 1 else 0)
     \<and> (if T \<le> now then held_by x q' = {} \<and> queue_view q' i = None else armed i T x q')"
proof -
  obtain ks q' where t: "run_op (Tick now) q = Inr (map (\<lambda>k. fst (snd (the (queue_view q k)))) ks, q')" "queue_inv q'" "distinct ks"
      "set ks = {k. \<exists>e t. queue_view q k = Some (e, t, True) \<and> e \<le> now}"
      "queue_view q' = (\<lambda>k. case queue_view q k of None \<Rightarrow> None | Some (e, t, v) \<Rightarrow> if e \<le> now then None else Some (e, t, v))"
    using tick_round [OF assms(1), of now] by blast
  have i: "queue_view q i = Some (T, Some x, True)" "held_by x q = {i}" using assms(2) by (simp_all add: armed_def)
  have only: "fst (snd (the (queue_view q k))) = Some x \<longleftrightarrow> k = i" if "k \<in> set ks" for k
  proof -
    obtain e t1 where k: "queue_view q k = Some (e, t1, True)" using \<open>k \<in> set ks\<close> t(4) by auto
    have "t1 = Some x \<longleftrightarrow> k \<in> held_by x q" using k by (auto simp: held_by_def)
    then show ?thesis using k i(2) by simp
  qed
  have "i \<in> set ks \<longleftrightarrow> T \<le> now" using t(4) i(1) by simp
  then have "count_list (map (\<lambda>k. fst (snd (the (queue_view q k)))) ks) (Some x) = (if T \<le> now then 1 else 0)"
    using count_of_only [OF t(3), of "\<lambda>k. fst (snd (the (queue_view q k)))" "Some x" i] only by simp
  moreover have "held_by x q' \<subseteq> held_by x q" by (rule round_held [OF t(5)])
  moreover have "i \<in> held_by x q' \<longleftrightarrow> \<not> T \<le> now" "queue_view q' i = (if T \<le> now then None else Some (T, Some x, True))"
    using i(1) by (auto simp: held_by_def t(5))
  ultimately show ?thesis using t(1,2) i(2) by (auto simp: armed_def)
qed

lemma tick_gone:
  assumes "queue_inv q" "held_by x q = {}"
  shows "\<exists>ts q'. run_op (Tick now) q = Inr (ts, q') \<and> queue_inv q' \<and> Some x \<notin> set ts \<and> held_by x q' = {}"
proof -
  obtain ks q' where t: "run_op (Tick now) q = Inr (map (\<lambda>k. fst (snd (the (queue_view q k)))) ks, q')" "queue_inv q'"
      "set ks = {k. \<exists>e t. queue_view q k = Some (e, t, True) \<and> e \<le> now}"
      "queue_view q' = (\<lambda>k. case queue_view q k of None \<Rightarrow> None | Some (e, t, v) \<Rightarrow> if e \<le> now then None else Some (e, t, v))"
    using tick_round [OF assms(1), of now] by blast
  have "held_by x q' \<subseteq> held_by x q" by (rule round_held [OF t(4)])
  moreover have "Some x \<notin> set (map (\<lambda>k. fst (snd (the (queue_view q k)))) ks)" using assms(2) t(3) by (auto simp: held_by_def)
  ultimately show ?thesis using t(1,2) assms(2) by blast
qed

lemma run_gone:
  assumes "queue_inv q" "held_by x q = {}" "\<forall>op \<in> set ops. elsewhere i x op"
  shows "\<exists>ts q'. run_ops ops q = Inr (ts, q') \<and> queue_inv q' \<and> Some x \<notin> set ts \<and> held_by x q' = {}"
  using assms
proof (induction ops arbitrary: q)
  case (Cons op ops)
  have "\<exists>ts q1. run_op op q = Inr (ts, q1) \<and> queue_inv q1 \<and> Some x \<notin> set ts \<and> held_by x q1 = {}"
  proof (cases "\<exists>now. op = Tick now")
    case True
    then show ?thesis using tick_gone [OF Cons.prems(1,2)] by blast
  next
    case False
    then show ?thesis using run_op_elsewhere [OF Cons.prems(1), of i x op] Cons.prems(2,3) by auto
  qed
  then obtain ts q1 where 1: "run_op op q = Inr (ts, q1)" "queue_inv q1" "Some x \<notin> set ts" "held_by x q1 = {}" by blast
  then show ?case using Cons.IH [of q1] Cons.prems(3) by fastforce
qed simp

lemma run_armed:
  assumes "queue_inv q" "armed i T x q" "\<forall>op \<in> set ops. elsewhere i x op"
  shows "\<exists>ts q'. run_ops ops q = Inr (ts, q') \<and> queue_inv q' \<and> count_list ts (Some x) = (if reaches T ops then 1 else 0)
     \<and> (if reaches T ops then held_by x q' = {} else armed i T x q')"
  using assms
proof (induction ops arbitrary: q)
  case Nil
  then show ?case by (simp add: reaches_def)
next
  case (Cons op ops)
  have step: "\<exists>ts q1. run_op op q = Inr (ts, q1) \<and> queue_inv q1 \<and> count_list ts (Some x) = (if reaches T [op] then 1 else 0)
     \<and> (if reaches T [op] then held_by x q1 = {} else armed i T x q1)"
  proof (cases "\<exists>now. op = Tick now")
    case True
    then obtain now where op: "op = Tick now" by blast
    then have "reaches T [op] \<longleftrightarrow> T \<le> now" by (auto simp: reaches_def)
    then show ?thesis using tick_armed [OF Cons.prems(1,2), of now] op by auto
  next
    case False
    then have "\<not> reaches T [op]" by (auto simp: reaches_def)
    then show ?thesis using False run_op_elsewhere [OF Cons.prems(1), of i x op] Cons.prems(2,3) by (auto simp: armed_def)
  qed
  then obtain ts q1 where 1: "run_op op q = Inr (ts, q1)" "queue_inv q1" "count_list ts (Some x) = (if reaches T [op] then 1 else 0)"
      "if reaches T [op] then held_by x q1 = {} else armed i T x q1" by blast
  have r: "reaches T (op # ops) \<longleftrightarrow> reaches T [op] \<or> reaches T ops" by (auto simp: reaches_def)
  show ?case
  proof (cases "reaches T [op]")
    case True
    then obtain ts' q2 where "run_ops ops q1 = Inr (ts', q2)" "queue_inv q2" "Some x \<notin> set ts'" "held_by x q2 = {}"
      using run_gone [OF 1(2), of x ops i] 1(4) Cons.prems(3) by auto
    then show ?thesis using 1 True r by (simp add: count_notin)
  next
    case False
    then show ?thesis using Cons.IH [of q1] 1 Cons.prems(3) r by fastforce
  qed
qed

lemma count_split:
  assumes "count_list ts x = 1"
  shows "\<exists>ts1 ts2. ts = ts1 @ x # ts2 \<and> x \<notin> set ts1 \<and> x \<notin> set ts2"
proof -
  have "x \<in> set ts" using assms count_list_0_iff [of ts x] by auto
  then obtain ts1 ts2 where ts: "ts = ts1 @ x # ts2" "x \<notin> set ts1" using split_list_first by metis
  then have "count_list ts2 x = 0" using assms by simp
  then show ?thesis using ts by (auto simp: count_list_0_iff)
qed



text \<open>A coroutine that awaits a timer which is still in the queue is never resumed: the task that would do it is destroyed.\<close>

lemma waitable_on_armed_timer:
  assumes "queue_inv q" "queue_view q (t_timerId timer) = Some e" "held_by (WrapTask co h) q = {}"
    and "\<forall>op \<in> set ops. elsewhere i (WrapTask co h) op"
  shows "\<exists>ts q'. run_ops ops (snd (Waitable_await_suspend h (AsyncWaitable timer co) q)) = Inr (ts, q') \<and> Some (WrapTask co h) \<notin> set ts"
proof -
  let ?q = "snd (Waitable_await_suspend h (AsyncWaitable timer co) q)"
  have q: "?q = fst (AddTimer (timer\<lparr>t_task := Some (WrapTask co h)\<rparr>) q)"
    by (simp add: Waitable_await_suspend_def AsyncWaitable_def AsyncWait_eq)
  have "queue_view ?q = queue_view q"
    using tq.rearm_ignored [OF assms(1), of "timer\<lparr>t_task := Some (WrapTask co h)\<rparr>"] assms(2) q by simp
  then have "held_by (WrapTask co h) ?q = {}" using assms(3) by (simp add: held_by_def)
  then show ?thesis using run_gone [of ?q "WrapTask co h" ops i] tq.inv_add [OF assms(1)] q assms(4) by auto
qed

end
